(* ===== verification/Prelude.thy ===== *)
theory Prelude
  imports Main "HOL-Library.Multiset" "HOL-Library.AList"
begin

section \<open>Shared vocabulary: Python errors, dictionaries, strings, interfaces\<close>

text \<open>
  This theory holds what every component of the development uses: the exceptions of the
  Python code and the sum type that carries them, dictionaries as association lists in
  insertion order, the string methods the scripts call (\<^verbatim>\<open>split\<close>, \<^verbatim>\<open>join\<close>,
  \<^verbatim>\<open>strip\<close>, \<^verbatim>\<open>startswith\<close>, \<^verbatim>\<open>int\<close>, \<^verbatim>\<open>%d\<close>), and the locales that
  state the interfaces between components: a codec (a printer and the parser that reads
  it back) and a transition system with an invariant.
\<close>

named_theorems py_simps \<open>unfoldings of the Python vocabulary\<close>
named_theorems dict_simps \<open>laws of association-list dictionaries\<close>

subsection \<open>Exceptions and results\<close>

datatype py_exc =
    AssertionError | AttributeError | IndexError | IOError | KeyError | NameError | OSError
  | TypeError | UnboundLocalError | ValueError | ZeroDivisionError | NotImplementedError
  | PyException string | WafError string | SystemExit int

type_synonym 'a res = "py_exc + 'a"

definition rbind :: "'e + 'a \<Rightarrow> ('a \<Rightarrow> 'e + 'b) \<Rightarrow> 'e + 'b" where
  "rbind m f = (case m of Inl e \<Rightarrow> Inl e | Inr x \<Rightarrow> f x)"

lemma rbind_simps [simp]: "rbind (Inl e) f = Inl e" "rbind (Inr x) f = f x"
  by (simp_all add: rbind_def)

lemma rbind_Inr_iff [simp]: "rbind m f = Inr y \<longleftrightarrow> (\<exists>x. m = Inr x \<and> f x = Inr y)"
  by (cases m) auto

lemma rbind_cong [fundef_cong]:
  "m = m' \<Longrightarrow> (\<And>x. m' = Inr x \<Longrightarrow> f x = f' x) \<Longrightarrow> rbind m f = rbind m' f'"
  by (cases m') auto

definition py_assert :: "bool \<Rightarrow> 'a res \<Rightarrow> 'a res" where
  "py_assert b r = (if b then r else Inl AssertionError)"

lemma py_assert_simps [simp]: "py_assert True r = r" "py_assert False r = Inl AssertionError"
  by (simp_all add: py_assert_def)

lemma py_assert_Inr [simp]: "py_assert b r = Inr x \<longleftrightarrow> b \<and> r = Inr x"
  by (simp add: py_assert_def)

text \<open>A \<^verbatim>\<open>for\<close> loop whose body may raise: it stops at the first exception.\<close>

fun rfold :: "('s \<Rightarrow> 'a \<Rightarrow> 'e + 's) \<Rightarrow> 's \<Rightarrow> 'a list \<Rightarrow> 'e + 's" where
  "rfold f s [] = Inr s"
| "rfold f s (x # xs) = rbind (f s x) (\<lambda>s'. rfold f s' xs)"

fun rmap :: "('a \<Rightarrow> 'e + 'b) \<Rightarrow> 'a list \<Rightarrow> 'e + 'b list" where
  "rmap g [] = Inr []"
| "rmap g (a # as) = (case g a of Inl e \<Rightarrow> Inl e
     | Inr b \<Rightarrow> (case rmap g as of Inl e \<Rightarrow> Inl e | Inr bs \<Rightarrow> Inr (b # bs)))"

lemma rfold_append: "rfold f s (xs @ ys) = rbind (rfold f s xs) (\<lambda>s'. rfold f s' ys)"
proof (induction xs arbitrary: s)
  case (Cons x xs)
  then show ?case by (cases "f s x") auto
qed simp

lemma rfold_invariant:
  assumes "rfold f s xs = Inr t" and "P s"
    and "\<And>s x s'. x \<in> set xs \<Longrightarrow> P s \<Longrightarrow> f s x = Inr s' \<Longrightarrow> P s'"
  shows "P t"
  using assms by (induction xs arbitrary: s) auto

lemma rmap_Inr_length: "rmap f xs = Inr ys \<Longrightarrow> length ys = length xs"
  by (induction xs arbitrary: ys) (auto split: sum.splits)

lemma rmap_Inr_Cons [simp]:
  "rmap f (x # xs) = Inr zs \<longleftrightarrow> (\<exists>y ys. zs = y # ys \<and> f x = Inr y \<and> rmap f xs = Inr ys)"
  by (auto split: sum.splits)

lemma rmap_total: "(\<And>x. x \<in> set xs \<Longrightarrow> f x = Inr (g x)) \<Longrightarrow> rmap f xs = Inr (map g xs)"
  by (induction xs) auto

lemma rmap_map_Inr: "(\<And>x. x \<in> set xs \<Longrightarrow> f (h x) = Inr (g x)) \<Longrightarrow> rmap f (map h xs) = Inr (map g xs)"
  by (induction xs) auto

text \<open>Python indexing: negative indices count from the end, others out of range raise.\<close>

definition py_index :: "nat \<Rightarrow> int \<Rightarrow> nat option" where
  "py_index n i =
     (if 0 \<le> i then (if nat i < n then Some (nat i) else None)
      else if nat (- i) \<le> n then Some (n - nat (- i)) else None)"

definition py_nth :: "'a list \<Rightarrow> int \<Rightarrow> 'a res" where
  "py_nth xs i = (case py_index (length xs) i of None \<Rightarrow> Inl IndexError | Some k \<Rightarrow> Inr (xs ! k))"

lemma py_nth_nat [simp]:
  "py_nth xs (int k) = (if k < length xs then Inr (xs ! k) else Inl IndexError)"
  by (simp add: py_nth_def py_index_def)

lemma py_nth_last: "py_nth xs (-1) = (if xs = [] then Inl IndexError else Inr (last xs))"
  by (cases xs) (auto simp: py_nth_def py_index_def last_conv_nth)

text \<open>\<^verbatim>\<open>list.remove\<close>.\<close>

definition list_remove :: "'a \<Rightarrow> 'a list \<Rightarrow> 'a list res" where
  "list_remove x xs = (if x \<in> set xs then Inr (remove1 x xs) else Inl ValueError)"

text \<open>Python slicing \<^verbatim>\<open>xs[a:b]\<close> with the clipping of negative and large bounds.\<close>

definition py_clip :: "nat \<Rightarrow> int \<Rightarrow> nat" where
  "py_clip n i = (if i < 0 then nat (max 0 (int n + i)) else min n (nat i))"

definition py_slice :: "'a list \<Rightarrow> int \<Rightarrow> int \<Rightarrow> 'a list" where
  "py_slice xs a b =
     (let i = py_clip (length xs) a; j = py_clip (length xs) b in drop i (take j xs))"

lemma py_slice_nat:
  "py_slice xs (int a) (int b) = drop (min (length xs) a) (take b xs)"
  by (simp add: py_slice_def py_clip_def min_def)

subsection \<open>Dictionaries\<close>

text \<open>
  A dictionary is an association list with distinct keys. \<^const>\<open>AList.update\<close> overwrites
  in place and appends a new key, \<^const>\<open>AList.delete\<close> removes one.
\<close>

type_synonym ('k, 'v) dict = "('k \<times> 'v) list"

definition has_key :: "('k, 'v) dict \<Rightarrow> 'k \<Rightarrow> bool" where
  "has_key d k \<longleftrightarrow> k \<in> set (map fst d)"

definition dict_get :: "('k, 'v) dict \<Rightarrow> 'k \<Rightarrow> 'v \<Rightarrow> 'v" where
  "dict_get d k v = (case map_of d k of None \<Rightarrow> v | Some w \<Rightarrow> w)"

definition dict_keys :: "('k, 'v) dict \<Rightarrow> 'k list" where
  "dict_keys d = map fst d"

definition dict_ok :: "('k, 'v) dict \<Rightarrow> bool" where
  "dict_ok d \<longleftrightarrow> distinct (map fst d)"

lemma has_key_map_of [dict_simps]: "has_key d k \<longleftrightarrow> map_of d k \<noteq> None"
  by (simp add: has_key_def map_of_eq_None_iff)

lemma map_of_update_iff [dict_simps]:
  "map_of (AList.update k v d) k' = (if k' = k then Some v else map_of d k')"
  by (simp add: update_conv')

lemma map_of_delete_iff [dict_simps]:
  "map_of (AList.delete k d) k' = (if k' = k then None else map_of d k')"
  by (simp add: delete_conv')

lemma keys_update [dict_simps]:
  "set (map fst (AList.update k v d)) = insert k (set (map fst d))"
  by (simp add: dom_update)

lemma keys_delete [dict_simps]:
  "set (map fst (AList.delete k d)) = set (map fst d) - {k}"
  by (auto simp: AList.delete_eq)

lemma map_fst_update_present:
  "k \<in> set (map fst d) \<Longrightarrow> map fst (AList.update k v d) = map fst d"
  by (induction d) auto

lemma map_fst_update_absent:
  "k \<notin> set (map fst d) \<Longrightarrow> map fst (AList.update k v d) = map fst d @ [k]"
  by (induction d) auto

lemma update_absent: "k \<notin> set (map fst d) \<Longrightarrow> AList.update k v d = d @ [(k, v)]"
  by (induction d) auto

lemma dict_ok_update [simp, intro]: "dict_ok d \<Longrightarrow> dict_ok (AList.update k v d)"
  by (simp add: dict_ok_def distinct_update)

lemma dict_ok_delete [simp, intro]: "dict_ok d \<Longrightarrow> dict_ok (AList.delete k d)"
  by (simp add: dict_ok_def distinct_delete)

lemma dict_ok_Nil [simp]: "dict_ok []"
  by (simp add: dict_ok_def)

lemma length_delete_less:
  "k \<in> set (map fst d) \<Longrightarrow> length (AList.delete k d) < length d"
  by (simp add: AList.delete_eq) (auto intro!: length_filter_less)

lemma length_update_present:
  "k \<in> set (map fst d) \<Longrightarrow> length (AList.update k v d) = length d"
  using arg_cong [OF map_fst_update_present [of k d v], of length] by simp

lemma dict_empty_keys: "d = [] \<longleftrightarrow> set (map fst d) = {}"
  by simp

subsection \<open>Lists\<close>

text \<open>\<^verbatim>\<open>xs.index(x)\<close>, for an element that is present.\<close>

fun list_index :: "'a \<Rightarrow> 'a list \<Rightarrow> nat" where
  "list_index x [] = 0"
| "list_index x (y # ys) = (if x = y then 0 else Suc (list_index x ys))"

lemma list_index_less: "x \<in> set xs \<Longrightarrow> list_index x xs < length xs"
  by (induction xs) auto

lemma list_index_nth: "x \<in> set xs \<Longrightarrow> xs ! list_index x xs = x"
  by (induction xs) auto

lemma list_index_first: "j < list_index x xs \<Longrightarrow> j < length xs \<Longrightarrow> xs ! j \<noteq> x"
proof (induction xs arbitrary: j)
  case (Cons y ys)
  then show ?case by (cases j) (auto split: if_splits)
qed simp

lemma list_index_append:
  "x \<notin> set xs \<Longrightarrow> list_index x (xs @ x # ys) = length xs"
  by (induction xs) auto

subsection \<open>Strings\<close>

fun split_on :: "'a \<Rightarrow> 'a list \<Rightarrow> 'a list list" where
  "split_on c [] = [[]]"
| "split_on c (x # xs) =
     (if x = c then [] # split_on c xs
      else (case split_on c xs of [] \<Rightarrow> [[x]] | w # ws \<Rightarrow> (x # w) # ws))"

fun join_with :: "'a list \<Rightarrow> 'a list list \<Rightarrow> 'a list" where
  "join_with s [] = []"
| "join_with s [w] = w"
| "join_with s (w # v # ws) = w @ s @ join_with s (v # ws)"

lemma split_on_not_Nil [simp]: "split_on c s \<noteq> []"
  by (induction s) (auto split: list.splits)

lemma split_on_no_sep: "c \<notin> set w \<Longrightarrow> split_on c w = [w]"
  by (induction w) auto

lemma split_on_app: "c \<notin> set w \<Longrightarrow> split_on c (w @ c # s) = w # split_on c s"
  by (induction w) auto

lemma split_on_append_sep: "split_on c (u @ c # w) = split_on c u @ split_on c w"
proof (induction u)
  case (Cons x u)
  then show ?case by (cases "split_on c u") auto
qed simp

lemma join_split: "join_with [c] (split_on c s) = s"
proof (induction s)
  case (Cons x s)
  then show ?case
    by (cases "split_on c s" rule: list.exhaust; cases "tl (split_on c s)") (auto split: list.splits)
qed simp

lemma split_join:
  "ws \<noteq> [] \<Longrightarrow> \<forall>w\<in>set ws. c \<notin> set w \<Longrightarrow> split_on c (join_with [c] ws) = ws"
  by (induction "[c]" ws rule: join_with.induct) (auto simp: split_on_no_sep split_on_app)

lemma join_snoc: "ws \<noteq> [] \<Longrightarrow> join_with s ws @ s @ w = join_with s (ws @ [w])"
  by (induction s ws rule: join_with.induct) auto

lemma split_on_no_sep_in: "w \<in> set (split_on c s) \<Longrightarrow> c \<notin> set w"
  by (induction s arbitrary: w) (auto split: list.splits if_splits)

definition starts_with :: "'a list \<Rightarrow> 'a list \<Rightarrow> bool" where
  "starts_with s p \<longleftrightarrow> take (length p) s = p"

definition ends_with :: "'a list \<Rightarrow> 'a list \<Rightarrow> bool" where
  "ends_with s p \<longleftrightarrow> length p \<le> length s \<and> drop (length s - length p) s = p"

lemma starts_with_append [simp]: "starts_with (p @ s) p"
  by (simp add: starts_with_def)

lemma starts_with_iff: "starts_with s p \<longleftrightarrow> (\<exists>t. s = p @ t)"
  by (auto simp: starts_with_def) (metis append_take_drop_id)

lemma ends_with_iff: "ends_with s p \<longleftrightarrow> (\<exists>t. s = t @ p)"
  by (auto simp: ends_with_def) (metis append_take_drop_id)

fun has_infix :: "'a list \<Rightarrow> 'a list \<Rightarrow> bool" where
  "has_infix p [] \<longleftrightarrow> p = []"
| "has_infix p (x # xs) \<longleftrightarrow> starts_with (x # xs) p \<or> has_infix p xs"

lemma has_infix_iff: "has_infix p s \<longleftrightarrow> (\<exists>u v. s = u @ p @ v)"
proof (induction s)
  case (Cons x xs)
  show ?case
  proof
    assume "has_infix p (x # xs)"
    then show "\<exists>u v. x # xs = u @ p @ v"
      using Cons by (metis append_Cons append_Nil has_infix.simps(2) starts_with_iff)
  next
    assume "\<exists>u v. x # xs = u @ p @ v"
    then obtain u v where uv: "x # xs = u @ p @ v" by blast
    show "has_infix p (x # xs)"
    proof (cases u)
      case Nil
      with uv have "starts_with (x # xs) p" by (auto simp: starts_with_iff)
      then show ?thesis by simp
    next
      case u: (Cons y ys)
      with uv have "xs = ys @ p @ v" by simp
      then have "has_infix p xs" using Cons.IH by blast
      then show ?thesis by simp
    qed
  qed
qed simp

definition is_space :: "char \<Rightarrow> bool" where
  "is_space c \<longleftrightarrow> c = CHR '' '' \<or> (9 \<le> (of_char c :: nat) \<and> (of_char c :: nat) \<le> 13)"

definition lstrip :: "string \<Rightarrow> string" where
  "lstrip s = dropWhile is_space s"

definition rstrip :: "string \<Rightarrow> string" where
  "rstrip s = rev (dropWhile is_space (rev s))"

definition strip :: "string \<Rightarrow> string" where
  "strip s = lstrip (rstrip s)"

lemma dropWhile_none: "\<forall>c\<in>set xs. \<not> P c \<Longrightarrow> dropWhile P xs = xs"
  by (cases xs) auto

lemma strip_no_space: "\<forall>c\<in>set s. \<not> is_space c \<Longrightarrow> strip s = s"
  by (simp add: strip_def lstrip_def rstrip_def dropWhile_none)

subsection \<open>Decimal numbers\<close>

definition is_digit :: "char \<Rightarrow> bool" where
  "is_digit c \<longleftrightarrow> 48 \<le> (of_char c :: nat) \<and> (of_char c :: nat) \<le> 57"

definition digit_val :: "char \<Rightarrow> nat" where
  "digit_val c = of_char c - 48"

definition digit_chr :: "nat \<Rightarrow> char" where
  "digit_chr d = char_of (48 + d)"

lemma of_digit_chr [simp]: "d < 10 \<Longrightarrow> (of_char (digit_chr d) :: nat) = 48 + d"
  by (simp add: digit_chr_def)

lemma digit_chr_props [simp]:
  "d < 10 \<Longrightarrow> is_digit (digit_chr d)" "d < 10 \<Longrightarrow> digit_val (digit_chr d) = d"
  by (simp_all add: is_digit_def digit_val_def)

lemma digit_not_space: "is_digit c \<Longrightarrow> \<not> is_space c"
  by (auto simp: is_digit_def is_space_def)

lemma digit_neq_minus: "is_digit c \<Longrightarrow> c \<noteq> CHR ''-'' \<and> c \<noteq> CHR ''+'' \<and> c \<noteq> CHR '' ''"
  by (auto simp: is_digit_def)

fun nat_str :: "nat \<Rightarrow> string" where
  "nat_str n = (if n < 10 then [digit_chr n] else nat_str (n div 10) @ [digit_chr (n mod 10)])"

declare nat_str.simps [simp del]

definition digits_val :: "string \<Rightarrow> nat" where
  "digits_val s = foldl (\<lambda>n c. 10 * n + digit_val c) 0 s"

lemma nat_str_not_Nil [simp]: "nat_str n \<noteq> []"
  by (subst nat_str.simps) simp

lemma nat_str_digits: "c \<in> set (nat_str n) \<Longrightarrow> is_digit c"
proof (induction n rule: nat_str.induct)
  case (1 n)
  then show ?case by (subst (asm) (2) nat_str.simps) (auto split: if_splits)
qed

lemma digits_val_nat_str [simp]: "digits_val (nat_str n) = n"
proof (induction n rule: nat_str.induct)
  case (1 n)
  then show ?case by (subst nat_str.simps) (auto simp: digits_val_def)
qed

definition int_str :: "int \<Rightarrow> string" where
  "int_str i = (if i < 0 then CHR ''-'' # nat_str (nat (- i)) else nat_str (nat i))"

text \<open>\<^verbatim>\<open>int(s)\<close>: surrounding white space and one sign are accepted.\<close>

definition py_int :: "string \<Rightarrow> int res" where
  "py_int s =
     (let t = strip s;
          neg = (case t of [] \<Rightarrow> False | c # _ \<Rightarrow> c = CHR ''-'');
          u = (case t of [] \<Rightarrow> [] | c # cs \<Rightarrow> if c = CHR ''-'' \<or> c = CHR ''+'' then cs else t)
      in if u = [] \<or> \<not> list_all is_digit u then Inl ValueError
         else Inr (if neg then - int (digits_val u) else int (digits_val u)))"

lemma py_int_digits:
  assumes "s \<noteq> []" and "\<forall>c\<in>set s. is_digit c"
  shows "py_int s = Inr (int (digits_val s))"
proof -
  have st: "strip s = s" using assms by (simp add: strip_no_space digit_not_space)
  obtain c cs where s: "s = c # cs" using assms(1) by (cases s) auto
  have c: "c \<noteq> CHR ''-'' \<and> c \<noteq> CHR ''+''" using assms(2) s digit_neq_minus by simp
  show ?thesis using assms s st c by (auto simp: py_int_def Let_def list_all_iff)
qed

lemma py_int_nat_str [simp]: "py_int (nat_str n) = Inr (int n)"
  using py_int_digits [of "nat_str n"] nat_str_digits by simp

lemma strip_newline: "strip (s @ ''\<newline>'') = strip s"
  by (simp add: strip_def rstrip_def is_space_def)

lemma py_int_newline [simp]: "py_int (s @ ''\<newline>'') = py_int s"
  by (simp only: py_int_def strip_newline)

lemma py_int_int_str [simp]: "py_int (int_str i) = Inr i"
proof (cases "i < 0")
  case True
  let ?n = "nat (- i)"
  have "\<forall>c\<in>set (CHR ''-'' # nat_str ?n). \<not> is_space c"
    using nat_str_digits digit_not_space by (auto simp: is_space_def)
  then have "strip (CHR ''-'' # nat_str ?n) = CHR ''-'' # nat_str ?n"
    by (rule strip_no_space)
  with True show ?thesis
    by (auto simp: py_int_def int_str_def Let_def list_all_iff intro: nat_str_digits)
qed (simp add: int_str_def)

lemma nat_str_no_sep: "\<not> is_digit c \<Longrightarrow> c \<notin> set (nat_str n)"
  using nat_str_digits by blast

lemma int_str_no_sep: "\<not> is_digit c \<Longrightarrow> c \<noteq> CHR ''-'' \<Longrightarrow> c \<notin> set (int_str n)"
  using nat_str_digits by (auto simp: int_str_def)

lemma int_str_not_Nil [simp]: "int_str i \<noteq> []"
  by (simp add: int_str_def)

lemma nat_str_inj: "nat_str m = nat_str n \<longleftrightarrow> m = n"
  by (metis digits_val_nat_str)

lemma int_str_inj: "int_str m = int_str n \<longleftrightarrow> m = n"
  by (metis py_int_int_str sum.inject(2))

subsection \<open>Pieces of regular expressions\<close>

text \<open>
  A literal, a number (\<^verbatim>\<open>[0-9]+\<close>) and a word (\<^verbatim>\<open>[^ ]+\<close>) at the head of a string; each
  returns what follows it.
\<close>

definition eat :: "string \<Rightarrow> string \<Rightarrow> string option" where
  "eat pre s = (if starts_with s pre then Some (drop (length pre) s) else None)"

definition eat_number :: "string \<Rightarrow> (nat \<times> string) option" where
  "eat_number s =
     (let d = takeWhile is_digit s in if d = [] then None else Some (digits_val d, dropWhile is_digit s))"

definition eat_word :: "string \<Rightarrow> (string \<times> string) option" where
  "eat_word s =
     (let w = takeWhile (\<lambda>c. c \<noteq> CHR '' '') s in if w = [] then None else Some (w, drop (length w) s))"

lemma eat_same [simp]: "eat pre (pre @ s) = Some s"
  by (simp add: eat_def)

lemma eat_number_str [simp]:
  assumes "\<not> is_digit c"
  shows "eat_number (nat_str n @ c # s) = Some (n, c # s)"
proof -
  have "\<forall>d\<in>set (nat_str n). is_digit d" using nat_str_digits by blast
  then have "takeWhile is_digit (nat_str n @ c # s) = nat_str n" "dropWhile is_digit (nat_str n @ c # s) = c # s"
    using assms by (simp_all add: takeWhile_append dropWhile_append)
  then show ?thesis by (simp add: eat_number_def)
qed

lemma not_digits [simp]: "\<not> is_digit (CHR '','')" "\<not> is_digit (CHR '' '')"
  by (simp_all add: is_digit_def)

lemma eat_number_end [simp]: "eat_number (nat_str n) = Some (n, [])"
proof -
  have d: "\<forall>d\<in>set (nat_str n). is_digit d" using nat_str_digits by blast
  then have "takeWhile is_digit (nat_str n) = nat_str n" by (simp only: takeWhile_eq_all_conv)
  moreover have "dropWhile is_digit (nat_str n) = []" using d by (simp only: dropWhile_eq_Nil_conv)
  ultimately show ?thesis by (simp only: eat_number_def Let_def nat_str_not_Nil if_False digits_val_nat_str)
qed

lemma eat_word_space [simp]:
  assumes "w \<noteq> []" and "CHR '' '' \<notin> set w"
  shows "eat_word (w @ CHR '' '' # s) = Some (w, CHR '' '' # s)"
proof -
  have "\<forall>c\<in>set w. c \<noteq> CHR '' ''" using assms(2) by auto
  then have "takeWhile (\<lambda>c. c \<noteq> CHR '' '') (w @ CHR '' '' # s) = w" by (simp add: takeWhile_tail)
  then show ?thesis using assms(1) by (simp add: eat_word_def)
qed

subsection \<open>Interfaces\<close>

text \<open>
  A codec: a printer whose output the parser reads back, for the values the printer is
  meant for. What follows from the law alone is proved here once and used through the
  interpretations in the components (binary numerals, patches, flow files, shell
  pipelines).
\<close>

locale codec =
  fixes enc :: "'a \<Rightarrow> 'b" and dec :: "'b \<Rightarrow> 'e + 'a" and ok :: "'a \<Rightarrow> bool"
  assumes decode_encode: "ok x \<Longrightarrow> dec (enc x) = Inr x"
begin

lemma enc_injective: "ok x \<Longrightarrow> ok y \<Longrightarrow> enc x = enc y \<Longrightarrow> x = y"
  by (metis decode_encode sum.inject(2))

lemma enc_inj_on: "inj_on enc {x. ok x}"
  by (rule inj_onI) (auto dest: enc_injective)

lemma decode_list: "\<forall>x\<in>set xs. ok x \<Longrightarrow> rmap dec (map enc xs) = Inr xs"
  by (induction xs) (auto simp: decode_encode)

lemma reencode: "ok x \<Longrightarrow> rbind (dec (enc x)) (\<lambda>y. Inr (enc y)) = (Inr (enc x) :: 'e + 'b)"
  by (simp add: decode_encode)

end

text \<open>
  A transition system with an invariant: the invariant holds initially and every step
  keeps it, hence it holds in every reachable state.
\<close>

inductive reach :: "('s \<Rightarrow> bool) \<Rightarrow> ('s \<Rightarrow> 's \<Rightarrow> bool) \<Rightarrow> 's \<Rightarrow> bool"
  for init :: "'s \<Rightarrow> bool" and step :: "'s \<Rightarrow> 's \<Rightarrow> bool" where
  reach_init: "init s \<Longrightarrow> reach init step s"
| reach_step: "reach init step s \<Longrightarrow> step s t \<Longrightarrow> reach init step t"

locale invariant_system =
  fixes init :: "'s \<Rightarrow> bool" and step :: "'s \<Rightarrow> 's \<Rightarrow> bool" and inv :: "'s \<Rightarrow> bool"
  assumes inv_init: "init s \<Longrightarrow> inv s"
    and inv_step: "inv s \<Longrightarrow> step s t \<Longrightarrow> inv t"
begin

lemma reachable_inv: "reach init step s \<Longrightarrow> inv s"
  by (induction rule: reach.induct) (auto intro: inv_init inv_step)

lemma steps_inv: "inv s \<Longrightarrow> step\<^sup>*\<^sup>* s t \<Longrightarrow> inv t"
  by (erule rtranclp_induct) (auto intro: inv_step)

end

text \<open>With a measure that every step decreases, no run is infinite.\<close>

locale terminating_system = invariant_system init step inv
  for init :: "'s \<Rightarrow> bool" and step :: "'s \<Rightarrow> 's \<Rightarrow> bool" and inv :: "'s \<Rightarrow> bool" +
  fixes rank :: "'s \<Rightarrow> nat"
  assumes rank_step: "inv s \<Longrightarrow> step s t \<Longrightarrow> rank t < rank s"
begin

lemma no_infinite_run: "inv (f 0) \<Longrightarrow> \<not> (\<forall>i. step (f i) (f (Suc i)))"
proof
  assume i0: "inv (f 0)" and run: "\<forall>i. step (f i) (f (Suc i))"
  have inv: "inv (f i)" for i
    by (induction i) (use i0 run inv_step in auto)
  have "rank (f i) + i \<le> rank (f 0)" for i
  proof (induction i)
    case (Suc i)
    then show ?case using rank_step [OF inv [of i]] run by fastforce
  qed simp
  from this [of "Suc (rank (f 0))"] show False by simp
qed

lemma reaches_terminal: "inv s \<Longrightarrow> \<exists>t. step\<^sup>*\<^sup>* s t \<and> (\<nexists>u. step t u)"
proof (induction "rank s" arbitrary: s rule: less_induct)
  case less
  show ?case
  proof (cases "\<exists>u. step s u")
    case True
    then obtain u where u: "step s u" by blast
    then obtain t where "step\<^sup>*\<^sup>* u t" "\<nexists>v. step t v"
      using less rank_step inv_step by blast
    with u show ?thesis by (meson converse_rtranclp_into_rtranclp)
  qed auto
qed

end

end
