(* ===== verification/PyPath.thy ===== *)
theory PyPath
  imports Prelude
begin

section \<open>Paths and the process environment\<close>

text \<open>
  What the scripts use of \<^verbatim>\<open>os.path\<close> (POSIX) and of
  \<^verbatim>\<open>os.environ\<close>.
\<close>

subsection \<open>os.path\<close>

definition path_join :: "string \<Rightarrow> string \<Rightarrow> string" where
  "path_join a b =
     (if starts_with b ''/'' then b
      else if a = [] \<or> ends_with a ''/'' then a @ b
      else a @ ''/'' @ b)"

definition path_joins :: "string \<Rightarrow> string list \<Rightarrow> string" where
  "path_joins a bs = foldl path_join a bs"

definition path_base :: "string \<Rightarrow> string" where
  "path_base p = rev (takeWhile (\<lambda>c. c \<noteq> CHR ''/'') (rev p))"

definition path_dir :: "string \<Rightarrow> string" where
  "path_dir p =
     (let h = take (length p - length (path_base p)) p
      in if list_all (\<lambda>c. c = CHR ''/'') h then h
         else rev (dropWhile (\<lambda>c. c = CHR ''/'') (rev h)))"

definition path_split :: "string \<Rightarrow> string \<times> string" where
  "path_split p = (path_dir p, path_base p)"

lemma path_joins_simps [simp]:
  "path_joins a [] = a" "path_joins a (b # bs) = path_joins (path_join a b) bs"
  by (simp_all add: path_joins_def)

lemma path_base_no_slash: "CHR ''/'' \<notin> set (path_base p)"
  by (auto simp: path_base_def dest: set_takeWhileD)

lemma path_base_join:
  assumes "CHR ''/'' \<notin> set b" and "b \<noteq> []"
  shows "path_base (path_join a b) = b"
proof -
  have nb: "\<not> starts_with b ''/''" using assms by (cases b) (auto simp: starts_with_def)
  have rb: "\<forall>c\<in>set (rev b). c \<noteq> CHR ''/''" using assms by auto
  show ?thesis
  proof (cases "a = [] \<or> ends_with a ''/''")
    case True
    then have "rev a = [] \<or> hd (rev a) = CHR ''/''"
      by (auto simp: ends_with_iff)
    then have "takeWhile (\<lambda>c. c \<noteq> CHR ''/'') (rev b @ rev a) = rev b"
      using rb by (cases "rev a") (auto simp: takeWhile_append)
    with True nb show ?thesis by (simp add: path_join_def path_base_def)
  next
    case False
    have "takeWhile (\<lambda>c. c \<noteq> CHR ''/'') (rev b @ CHR ''/'' # rev a) = rev b"
      using rb by (simp add: takeWhile_append)
    with False nb show ?thesis by (simp add: path_join_def path_base_def)
  qed
qed

subsection \<open>The environment\<close>

type_synonym environ = "(string, string) dict"

text \<open>\<^verbatim>\<open>os.environ[k] += s\<close>: a missing key raises.\<close>

definition env_append :: "string \<Rightarrow> string \<Rightarrow> environ \<Rightarrow> environ res" where
  "env_append k s env = (case map_of env k of None \<Rightarrow> Inl KeyError
     | Some v \<Rightarrow> Inr (AList.update k (v @ s) env))"

definition env_default :: "string \<Rightarrow> string \<Rightarrow> environ \<Rightarrow> environ" where
  "env_default k s env = (if has_key env k then env else AList.update k s env)"

lemma env_append_all:
  assumes "map_of env k = Some v"
  shows "\<exists>env'. rfold (\<lambda>e p. env_append k (f p) e) env ps = Inr env' \<and>
           map_of env' k = Some (v @ concat (map f ps)) \<and> (\<forall>k'. k' \<noteq> k \<longrightarrow> map_of env' k' = map_of env k')"
  using assms
proof (induction ps arbitrary: env v)
  case (Cons p ps)
  let ?e = "AList.update k (v @ f p) env"
  have "map_of ?e k = Some (v @ f p)" by (simp add: dict_simps)
  from Cons.IH [OF this] Cons.prems show ?case by (auto simp: env_append_def dict_simps)
qed simp

end
