(* ===== verification/PyLib.thy ===== *)
theory PyLib
  imports PyPath
begin

section \<open>Python's printed strings, command lines and normal paths\<close>

text \<open>
  What the scripts use of Python's standard library beyond \<^theory_text>\<open>PyPath\<close>: \<^verbatim>\<open>repr\<close> of strings and
  lists of strings, \<^verbatim>\<open>shlex.split\<close>, \<^verbatim>\<open>%\<close> with one argument, \<^verbatim>\<open>normpath\<close> and
  \<^verbatim>\<open>abspath\<close>.
\<close>

subsection \<open>\<^verbatim>\<open>repr\<close>\<close>

definition hex_digit :: "nat \<Rightarrow> char" where
  "hex_digit n = (if n < 10 then digit_chr n else char_of (87 + n))"

definition repr_char :: "char \<Rightarrow> char \<Rightarrow> string" where
  "repr_char q c =
     (let n = of_char c :: nat; b = CHR 92 in
      if c = b \<or> c = q then [b, c]
      else if n = 9 then [b, CHR ''t''] else if n = 10 then [b, CHR ''n''] else if n = 13 then [b, CHR ''r'']
      else if n < 32 \<or> 127 \<le> n then [b, CHR ''x'', hex_digit (n div 16), hex_digit (n mod 16)]
      else [c])"

definition py_repr :: "string \<Rightarrow> string" where
  "py_repr s =
     (let q = (if CHR 39 \<in> set s \<and> CHR 34 \<notin> set s then CHR 34 else CHR 39)
      in [q] @ concat (map (repr_char q) s) @ [q])"

definition repr_list :: "string list \<Rightarrow> string" where
  "repr_list ss = ''['' @ join_with '', '' (map py_repr ss) @ '']''"

subsection \<open>\<^verbatim>\<open>shlex.split\<close>\<close>

text \<open>
  The states of \<^verbatim>\<open>shlex\<close> in POSIX mode with \<^verbatim>\<open>whitespace_split\<close> and without comments:
  between words, in a word, in a quotation, after a backslash (with the state to go back
  to).
\<close>

datatype lex_state = Blank | InWord | InQuote char | Escaped "char option"

definition lex_space :: "char \<Rightarrow> bool" where
  "lex_space c \<longleftrightarrow> c \<in> {CHR '' '', CHR 9, CHR 13, CHR 10}"

definition lex_quote :: "char \<Rightarrow> bool" where
  "lex_quote c \<longleftrightarrow> c = CHR 39 \<or> c = CHR 34"

definition lex_emit :: "bool \<Rightarrow> string \<Rightarrow> string list res \<Rightarrow> string list res" where
  "lex_emit quoted token rest = (if token = [] \<and> \<not> quoted then rest else rbind rest (\<lambda>ws. Inr (token # ws)))"

fun lex_run :: "lex_state \<Rightarrow> bool \<Rightarrow> string \<Rightarrow> string \<Rightarrow> string list res" where
  "lex_run Blank quoted token [] = Inr []"
| "lex_run InWord quoted token [] = lex_emit quoted token (Inr [])"
| "lex_run (InQuote q) quoted token [] = Inl ValueError"
| "lex_run (Escaped e) quoted token [] = Inl ValueError"
| "lex_run Blank quoted token (c # cs) =
     (if lex_space c then lex_run Blank False [] cs
      else if c = CHR 92 then lex_run (Escaped None) False [] cs
      else if lex_quote c then lex_run (InQuote c) True [] cs
      else lex_run InWord False [c] cs)"
| "lex_run InWord quoted token (c # cs) =
     (if lex_space c then lex_emit quoted token (lex_run Blank False [] cs)
      else if lex_quote c then lex_run (InQuote c) True token cs
      else if c = CHR 92 then lex_run (Escaped None) quoted token cs
      else lex_run InWord quoted (token @ [c]) cs)"
| "lex_run (InQuote q) quoted token (c # cs) =
     (if c = q then lex_run InWord True token cs
      else if c = CHR 92 \<and> q = CHR 34 then lex_run (Escaped (Some q)) True token cs
      else lex_run (InQuote q) True (token @ [c]) cs)"
| "lex_run (Escaped e) quoted token (c # cs) =
     (case e of None \<Rightarrow> lex_run InWord quoted (token @ [c]) cs
      | Some q \<Rightarrow> lex_run (InQuote q) quoted (if c \<noteq> CHR 92 \<and> c \<noteq> q then token @ [CHR 92, c] else token @ [c]) cs)"

definition shlex_split :: "string \<Rightarrow> string list res" where
  "shlex_split s = lex_run Blank False [] s"

text \<open>A word that needs no quoting, and the doubling of its backslashes.\<close>

definition plain_word :: "string \<Rightarrow> bool" where
  "plain_word w \<longleftrightarrow> w \<noteq> [] \<and> list_all (\<lambda>c. \<not> lex_space c \<and> \<not> lex_quote c) w"

definition double_backslash :: "string \<Rightarrow> string" where
  "double_backslash s = concat (map (\<lambda>c. if c = CHR 92 then [c, c] else [c]) s)"

lemma double_append [simp]: "double_backslash (s @ t) = double_backslash s @ double_backslash t"
  by (simp add: double_backslash_def)

lemma double_Cons: "double_backslash (c # s) = (if c = CHR 92 then [c, c] else [c]) @ double_backslash s"
  by (simp add: double_backslash_def)

lemma lex_word:
  assumes "list_all (\<lambda>c. \<not> lex_space c \<and> \<not> lex_quote c) w"
  shows "lex_run InWord q t (double_backslash w @ r) = lex_run InWord q (t @ w) r"
  using assms
proof (induction w arbitrary: t)
  case (Cons c w)
  have "lex_space CHR 92 = False" "lex_quote CHR 92 = False" by code_simp+
  then show ?case using Cons by (simp add: double_backslash_def)
qed (simp add: double_backslash_def)

lemma lex_first:
  assumes "plain_word w"
  shows "lex_run Blank q t (double_backslash w @ r) = lex_run InWord False w r"
proof (cases w)
  case (Cons c v)
  then have v: "list_all (\<lambda>c. \<not> lex_space c \<and> \<not> lex_quote c) v" and c: "\<not> lex_space c" "\<not> lex_quote c"
    using assms by (simp_all add: plain_word_def)
  have b: "lex_space CHR 92 = False" by code_simp
  show ?thesis
    using lex_word [OF v, of False "[c]" r] c b by (cases "c = CHR 92") (simp_all add: double_Cons Cons)
qed (use assms in \<open>simp add: plain_word_def\<close>)

lemma lex_words:
  "list_all plain_word (w # ws) \<Longrightarrow>
    lex_run Blank q t (double_backslash (join_with '' '' (w # ws))) = Inr (w # ws)"
proof (induction ws arbitrary: w q t)
  case Nil
  then show ?case using lex_first [of w q t "[]"] by (simp add: lex_emit_def plain_word_def)
next
  case (Cons v vs)
  have sp: "lex_space CHR '' ''" by code_simp
  have d: "double_backslash (CHR '' '' # s) = CHR '' '' # double_backslash s" for s
    by (simp add: double_backslash_def)
  have "lex_run Blank q t (double_backslash w @ '' '' @ double_backslash (join_with '' '' (v # vs))) =
      lex_emit False w (lex_run Blank False [] (double_backslash (join_with '' '' (v # vs))))"
    using lex_first [of w] Cons.prems sp by simp
  moreover have "w \<noteq> []" using Cons.prems by (simp add: plain_word_def)
  ultimately show ?case using Cons by (simp add: d lex_emit_def)
qed

lemma double_backslash_id: "CHR 92 \<notin> set s \<Longrightarrow> double_backslash s = s"
  by (induction s) (auto simp: double_backslash_def)

subsection \<open>\<^verbatim>\<open>%\<close> with one string\<close>

text \<open>
  Conversions other than \<^verbatim>\<open>%s\<close> and \<^verbatim>\<open>%%\<close> are outside the model, with the value
  \<^const>\<open>NotImplementedError\<close>. The flag says that the argument has been used.
\<close>

fun format_one :: "bool \<Rightarrow> string \<Rightarrow> string \<Rightarrow> string res" where
  "format_one used [] x = (if used then Inr [] else Inl TypeError)"
| "format_one used [c] x =
     (if c = CHR ''%'' then Inl ValueError else rbind (format_one used [] x) (\<lambda>s. Inr (c # s)))"
| "format_one used (c # d # cs) x =
     (if c \<noteq> CHR ''%'' then rbind (format_one used (d # cs) x) (\<lambda>s. Inr (c # s))
      else if d = CHR ''%'' then rbind (format_one used cs x) (\<lambda>s. Inr (CHR ''%'' # s))
      else if d = CHR ''s'' then (if used then Inl TypeError else rbind (format_one True cs x) (\<lambda>s. Inr (x @ s)))
      else Inl NotImplementedError)"

definition py_format :: "string \<Rightarrow> string \<Rightarrow> string res" where
  "py_format template x = format_one False template x"

lemma format_rest: "CHR ''%'' \<notin> set cs \<Longrightarrow> format_one True cs x = Inr cs"
  by (induction "True" cs x rule: format_one.induct) auto

lemma py_format_first: "CHR ''%'' \<notin> set cs \<Longrightarrow> py_format (''%s'' @ cs) x = Inr (x @ cs)"
  by (simp add: py_format_def format_rest)

subsection \<open>Normal paths\<close>

definition norm_step :: "bool \<Rightarrow> string list \<Rightarrow> string \<Rightarrow> string list" where
  "norm_step absolute comps c =
     (if c = [] \<or> c = ''.'' then comps
      else if c \<noteq> ''..'' \<or> (\<not> absolute \<and> comps = []) \<or> (comps \<noteq> [] \<and> last comps = ''..'') then comps @ [c]
      else butlast comps)"

definition norm_comps :: "bool \<Rightarrow> string list \<Rightarrow> string list" where
  "norm_comps absolute cs = foldl (norm_step absolute) [] cs"

definition path_norm :: "string \<Rightarrow> string" where
  "path_norm path =
     (if path = [] then ''.''
      else let slashes = (if starts_with path ''//'' \<and> \<not> starts_with path ''///'' then 2
                          else if starts_with path ''/'' then 1 else 0 :: nat);
               r = replicate slashes (CHR ''/'') @ join_with ''/'' (norm_comps (slashes \<noteq> 0) (split_on CHR ''/'' path))
           in if r = [] then ''.'' else r)"

definition path_abs :: "string \<Rightarrow> string \<Rightarrow> string" where
  "path_abs cwd path = path_norm (if starts_with path ''/'' then path else path_join cwd path)"

lemma path_joins_clean:
  assumes "w \<noteq> []" "CHR ''/'' \<notin> set w" "\<forall>w\<in>set ws. w \<noteq> [] \<and> CHR ''/'' \<notin> set w"
  shows "path_joins w ws = join_with ''/'' (w # ws)"
proof -
  have "path_joins (u @ w) ws = u @ path_joins w ws \<and> path_joins w ws = join_with ''/'' (w # ws)"
    if "w \<noteq> []" "CHR ''/'' \<notin> set w" "\<forall>w\<in>set ws. w \<noteq> [] \<and> CHR ''/'' \<notin> set w" for u w ws
    using that
  proof (induction ws arbitrary: u w)
    case (Cons v vs)
    have nv: "\<not> starts_with v ''/''" using Cons.prems(3) by (cases v) (auto simp: starts_with_def)
    have nw: "\<not> ends_with (u @ w) ''/''" for u using Cons.prems(1,2)
      by (metis ends_with_iff last_appendR last_in_set last_snoc)
    have "path_join (u @ w) v = (u @ w @ ''/'') @ v" for u
      using nv nw [of u] Cons.prems(1) by (simp add: path_join_def)
    from this [of u] this [of "[]"] show ?case
      using Cons.IH [of v "u @ w @ ''/''"] Cons.IH [of v "w @ ''/''"] Cons.prems by simp
  qed simp
  with assms show ?thesis by blast
qed

lemma join_ends:
  "ws \<noteq> [] \<Longrightarrow> \<forall>w\<in>set ws. w \<noteq> [] \<and> c \<notin> set w \<Longrightarrow>
    join_with [c] ws \<noteq> [] \<and> hd (join_with [c] ws) \<noteq> c \<and> last (join_with [c] ws) \<noteq> c"
proof (induction "[c]" ws rule: join_with.induct)
  case (2 w)
  then have "hd w \<in> set w" "last w \<in> set w" by simp_all
  with 2 show ?case by auto
next
  case (3 w v ws)
  then have "hd w \<in> set w" by simp
  with 3 show ?case by auto
qed simp

text \<open>
  Absolute paths with one slash in front (two are kept by \<^verbatim>\<open>normpath\<close>), and the components of a
  normal one.
\<close>

definition one_root :: "string \<Rightarrow> bool" where
  "one_root p \<longleftrightarrow> starts_with p ''/'' \<and> (starts_with p ''//'' \<longrightarrow> starts_with p ''///'')"

definition clean :: "string list \<Rightarrow> bool" where
  "clean cs \<longleftrightarrow> (\<forall>c\<in>set cs. c \<noteq> [] \<and> c \<noteq> ''.'' \<and> c \<noteq> ''..'' \<and> CHR ''/'' \<notin> set c)"

definition root_path :: "string list \<Rightarrow> string" where
  "root_path cs = CHR ''/'' # join_with ''/'' cs"

lemma clean_simps [simp]: "clean []" "clean (c # cs) \<longleftrightarrow> (c \<noteq> [] \<and> c \<noteq> ''.'' \<and> c \<noteq> ''..'' \<and> CHR ''/'' \<notin> set c) \<and> clean cs"
  "clean (cs @ ds) \<longleftrightarrow> clean cs \<and> clean ds"
  by (auto simp: clean_def)

lemma clean_take [simp]: "clean cs \<Longrightarrow> clean (take n cs)" and clean_drop [simp]: "clean cs \<Longrightarrow> clean (drop n cs)"
  by (auto simp: clean_def dest: in_set_takeD in_set_dropD)

lemma norm_clean: "clean cs \<Longrightarrow> foldl (norm_step True) acc cs = acc @ cs"
  by (induction cs arbitrary: acc) (auto simp: norm_step_def)

lemma norm_dots: "clean acc \<Longrightarrow> foldl (norm_step True) acc (replicate k ''..'') = take (length acc - k) acc"
proof (induction k arbitrary: acc)
  case (Suc k)
  have "norm_step True acc ''..'' = butlast acc"
    using Suc.prems by (cases acc rule: rev_cases) (auto simp: norm_step_def)
  moreover have "clean (butlast acc)" using Suc.prems by (cases acc rule: rev_cases) auto
  ultimately show ?case using Suc.IH [of "butlast acc"] by (simp add: butlast_conv_take min_def)
qed simp

lemma norm_comps_clean: "\<forall>c\<in>set cs. CHR ''/'' \<notin> set c \<Longrightarrow> clean (norm_comps True cs)"
proof -
  have "clean acc \<Longrightarrow> \<forall>c\<in>set cs. CHR ''/'' \<notin> set c \<Longrightarrow> clean (foldl (norm_step True) acc cs)" for acc
  proof (induction cs arbitrary: acc)
    case (Cons c cs)
    have "clean (norm_step True acc c)"
    proof (cases acc rule: rev_cases)
      case (snoc ds d)
      then show ?thesis using Cons.prems by (auto simp: norm_step_def)
    qed (use Cons.prems in \<open>auto simp: norm_step_def\<close>)
    then show ?case using Cons by simp
  qed simp
  from this [of "[]"] show "\<forall>c\<in>set cs. CHR ''/'' \<notin> set c \<Longrightarrow> clean (norm_comps True cs)" by (simp add: norm_comps_def)
qed

lemma path_norm_root: "one_root p \<Longrightarrow> path_norm p = root_path (norm_comps True (split_on CHR ''/'' p))"
proof -
  assume o: "one_root p"
  then obtain q where p: "p = CHR ''/'' # q" by (auto simp: one_root_def starts_with_iff)
  have "\<not> (starts_with p ''//'' \<and> \<not> starts_with p ''///'')" "starts_with p ''/''" using o by (auto simp: one_root_def)
  then show ?thesis unfolding path_norm_def by (auto simp: root_path_def p Let_def)
qed

lemma path_abs_root:
  assumes "one_root cwd" and "starts_with p ''/'' \<longrightarrow> one_root p"
  obtains cs where "clean cs" and "path_abs cwd p = root_path cs"
proof -
  have "one_root (if starts_with p ''/'' then p else path_join cwd p)"
  proof (cases "starts_with p ''/''")
    case False
    obtain a where a: "cwd = CHR ''/'' # a" using assms(1) by (auto simp: one_root_def starts_with_iff)
    have np: "p = [] \<or> hd p \<noteq> CHR ''/''" using False by (cases p) (auto simp: starts_with_def)
    show ?thesis
    proof (cases a)
      case Nil
      then show ?thesis using a False np by (cases p) (auto simp: one_root_def starts_with_def path_join_def ends_with_def)
    next
      case (Cons c b)
      then show ?thesis using a False assms(1)
        by (cases b) (auto simp: one_root_def starts_with_def path_join_def)
    qed
  qed (use assms in simp)
  then have "path_abs cwd p = root_path (norm_comps True (split_on CHR ''/'' (if starts_with p ''/'' then p else path_join cwd p)))"
    unfolding path_abs_def by (rule path_norm_root)
  then show thesis using that norm_comps_clean split_on_no_sep_in by metis
qed

lemma split_root: "clean cs \<Longrightarrow> split_on CHR ''/'' (root_path cs) = [] # (if cs = [] then [[]] else cs)"
  using split_join [of cs "CHR ''/''"] by (auto simp: root_path_def clean_def)

lemma path_abs_of_root:
  assumes "clean cs" shows "path_abs cwd (root_path cs) = root_path cs"
proof -
  have "one_root (root_path cs)"
    using assms by (cases cs; cases "tl cs"; cases "hd cs") (auto simp: one_root_def root_path_def starts_with_def)
  then have "path_norm (root_path cs) = root_path (norm_comps True (split_on CHR ''/'' (root_path cs)))" by (rule path_norm_root)
  moreover have "norm_comps True ([] # (if cs = [] then [[]] else cs)) = cs"
    using norm_clean [OF assms, of "[]"] by (simp add: norm_comps_def norm_step_def)
  ultimately have "path_norm (root_path cs) = root_path cs" by (simp only: split_root [OF assms])
  then show ?thesis by (simp add: path_abs_def root_path_def starts_with_def)
qed

end
