(* ===== verification/BuildMain.thy ===== *)
theory BuildMain
  imports PyPath
begin

section \<open>Building the whole distribution: \<^verbatim>\<open>build.py\<close> and \<^verbatim>\<open>util.py\<close>\<close>

text \<open>
  \<^verbatim>\<open>build.py\<close> builds the network simulation cradle (NSC), if it is there, and then ns-3, in the
  directories that the file \<^verbatim>\<open>.config\<close> names. The parsed file is the list of its elements with
  their directories; processes and directories are parameters of the machine. The messages it
  prints are left out.
\<close>

subsection \<open>\<^verbatim>\<open>util.py\<close>\<close>

text \<open>
  The machine: whether a change of directory succeeds, the exit code of a command in a directory
  (nothing if it does not start), the platform, its architecture and the directory of the script.
\<close>

record machine =
  can_enter :: "string \<Rightarrow> bool"
  exit_code :: "string \<Rightarrow> string list \<Rightarrow> int option"
  platform :: string
  arch :: string
  script_dir :: string

text \<open>What a run has changed: the working directory and the commands started, each with its directory.\<close>

record build_state =
  cwd :: string
  started :: "(string \<times> string list) list"

type_synonym 'a build = "build_state \<Rightarrow> build_state \<times> 'a res"

definition build_bind :: "'a build \<Rightarrow> ('a \<Rightarrow> 'b build) \<Rightarrow> 'b build" where
  "build_bind m f s = (case m s of (s', Inl e) \<Rightarrow> (s', Inl e) | (s', Inr x) \<Rightarrow> f x s')"

definition command_error :: py_exc where
  "command_error = PyException ''CommandError''"

definition fatal :: "string \<Rightarrow> 'a res" where
  "fatal msg = Inl (SystemExit 2)"

definition run_command_in :: "machine \<Rightarrow> string list \<Rightarrow> unit build" where
  "run_command_in m args s =
     (case exit_code m (cwd s) args of None \<Rightarrow> (s, Inl OSError)
      | Some retval \<Rightarrow> (s\<lparr>started := started s @ [(cwd s, args)]\<rparr>, if retval \<noteq> 0 then Inl command_error else Inr ()))"

definition chdir :: "machine \<Rightarrow> string \<Rightarrow> unit build" where
  "chdir m d s =
     (let target = path_join (cwd s) d in if can_enter m target then (s\<lparr>cwd := target\<rparr>, Inr ()) else (s, Inl OSError))"

text \<open>\<^verbatim>\<open>try: body finally: os.chdir(cwd)\<close>; an exception of the last step replaces that of the body.\<close>

definition back_to :: "machine \<Rightarrow> string \<Rightarrow> 'a build \<Rightarrow> 'a build" where
  "back_to m d body s =
     (case body s of (s', r) \<Rightarrow> case chdir m d s' of (s'', Inl e) \<Rightarrow> (s'', Inl e) | (s'', Inr u) \<Rightarrow> (s'', r))"

subsection \<open>\<^verbatim>\<open>build.py\<close>\<close>

text \<open>The children of the document: the name of the element and its attribute \<^verbatim>\<open>dir\<close>.\<close>

type_synonym config = "(string \<times> string) list"

definition elements :: "config \<Rightarrow> string \<Rightarrow> string list" where
  "elements c tag = map snd (filter (\<lambda>(n, d). n = tag) c)"

text \<open>\<^verbatim>\<open>x, = config.getElementsByTagName(tag)\<close>.\<close>

definition single :: "'a list \<Rightarrow> 'a res" where
  "single xs = (case xs of [x] \<Rightarrow> Inr x | _ \<Rightarrow> Inl ValueError)"

definition build_nsc :: "machine \<Rightarrow> unit build" where
  "build_nsc m =
     build_bind (run_command_in m [''python'', ''scons.py'', ''linux-2.6.18''])
       (\<lambda>u. run_command_in m [''python'', ''scons.py'', ''linux-2.6.26''])"

definition nsc_supported :: "machine \<Rightarrow> bool" where
  "nsc_supported m \<longleftrightarrow> platform m = ''linux2'' \<and> arch m \<in> {''x86_64'', ''i686'', ''i586'', ''i486'', ''i386''}"

definition configure_command :: "machine \<Rightarrow> config \<Rightarrow> string list" where
  "configure_command m c =
     [''python'', ''waf'', ''configure''] @
     (case single (elements c ''ns-3-traces'') of Inl e \<Rightarrow> []
      | Inr d \<Rightarrow> [''--with-regression-traces'', path_join ''..'' d]) @
     (case single (elements c ''pybindgen'') of Inl e \<Rightarrow> []
      | Inr d \<Rightarrow> [''--with-pybindgen'', path_join ''..'' d]) @
     (case single (elements c ''nsc'') of Inl e \<Rightarrow> []
      | Inr d \<Rightarrow> if nsc_supported m then [''--with-nsc'', path_join ''..'' d] else [])"

definition build_ns3 :: "machine \<Rightarrow> config \<Rightarrow> unit build" where
  "build_ns3 m c =
     build_bind (run_command_in m (configure_command m c)) (\<lambda>u. run_command_in m [''python'', ''waf''])"

definition nsc_stage :: "machine \<Rightarrow> bool \<Rightarrow> config \<Rightarrow> config build" where
  "nsc_stage m disable_nsc c s =
     (let without = filter (\<lambda>(n, d). n \<noteq> ''nsc'') c in
      if disable_nsc then (s, Inr without)
      else if platform m \<in> {''darwin'', ''win32''} then (s, Inr c)
      else if elements c ''nsc'' = [] then (s, Inr c)
      else case single (elements c ''nsc'') of Inl e \<Rightarrow> (s, Inl e)
      | Inr nsc_dir \<Rightarrow>
        build_bind (chdir m nsc_dir) (\<lambda>u.
          back_to m (cwd s) (\<lambda>s'. case build_nsc m s' of
              (s'', Inl e) \<Rightarrow> (s'', if e = command_error then Inr without else Inl e)
            | (s'', Inr u) \<Rightarrow> (s'', Inr c))) s)"

text \<open>\<open>dot_config\<close> is the parsed file, if it could be opened.\<close>

definition build_main :: "machine \<Rightarrow> config option \<Rightarrow> bool \<Rightarrow> int build" where
  "build_main m dot_config disable_nsc s =
     (case dot_config of None \<Rightarrow> (s, Inl (SystemExit 2))
      | Some c \<Rightarrow>
        build_bind (nsc_stage m disable_nsc c) (\<lambda>c s1.
          case single (elements c ''ns-3'') of Inl e \<Rightarrow> (s1, Inl e)
          | Inr d \<Rightarrow>
            build_bind (chdir m (path_join (script_dir m) d)) (\<lambda>u.
              back_to m (cwd s) (build_bind (build_ns3 m c) (\<lambda>u s2. (s2, Inr 0)))) s1) s)"

subsection \<open>What a build does\<close>

lemma build_bind_simps:
  "m s = (s', Inl e) \<Longrightarrow> build_bind m f s = (s', Inl e)"
  "m s = (s', Inr x) \<Longrightarrow> build_bind m f s = f x s'"
  by (simp_all add: build_bind_def)

lemma chdir_home: "starts_with d ''/'' \<Longrightarrow> can_enter m d \<Longrightarrow> chdir m d s = (s\<lparr>cwd := d\<rparr>, Inr ())"
  by (simp add: chdir_def path_join_def Let_def)

lemma back_to_home:
  assumes "starts_with d ''/''" and "can_enter m d" and "body s = (s', r)"
  shows "back_to m d body s = (s'\<lparr>cwd := d\<rparr>, r)"
  using assms by (simp add: back_to_def chdir_home)

text \<open>The outcome of two commands in a directory: done, failed, or not started.\<close>

definition both_run :: "machine \<Rightarrow> string \<Rightarrow> string list \<Rightarrow> string list \<Rightarrow> unit res" where
  "both_run m d a b =
     (case exit_code m d a of None \<Rightarrow> Inl OSError
      | Some x \<Rightarrow> if x \<noteq> 0 then Inl command_error
        else case exit_code m d b of None \<Rightarrow> Inl OSError | Some y \<Rightarrow> if y \<noteq> 0 then Inl command_error else Inr ())"

lemma two_commands:
  assumes "build_bind (run_command_in m a) (\<lambda>u. run_command_in m b) s = (s', r)"
  shows "r = both_run m (cwd s) a b \<and> cwd s' = cwd s"
  using assms by (auto simp: build_bind_def run_command_in_def both_run_def split: option.splits if_splits)

definition kernel :: "string \<Rightarrow> string list" where
  "kernel k = [''python'', ''scons.py'', k]"

text \<open>The configuration that ns-3 is built with: NSC is dropped when it is not wanted or does not build.\<close>

definition usable :: "machine \<Rightarrow> bool \<Rightarrow> config \<Rightarrow> string \<Rightarrow> config res" where
  "usable m disable_nsc c home =
     (let without = filter (\<lambda>(n, d). n \<noteq> ''nsc'') c in
      if disable_nsc then Inr without
      else if platform m \<in> {''darwin'', ''win32''} \<or> elements c ''nsc'' = [] then Inr c
      else rbind (single (elements c ''nsc'')) (\<lambda>d.
        if \<not> can_enter m (path_join home d) then Inl OSError
        else let r = both_run m (path_join home d) (kernel ''linux-2.6.18'') (kernel ''linux-2.6.26'')
             in if r = Inl command_error then Inr without else rbind r (\<lambda>u. Inr c)))"

lemma elements_without: "elements (filter (\<lambda>(n, d). n \<noteq> ''nsc'') c) ''ns-3'' = elements c ''ns-3''"
  by (induction c) (auto simp: elements_def)

lemma nsc_stage_usable:
  assumes "starts_with (cwd s) ''/''" and "can_enter m (cwd s)" and "nsc_stage m disable_nsc c s = (s', r)"
  shows "r = usable m disable_nsc c (cwd s) \<and> cwd s' = cwd s"
proof (cases "disable_nsc \<or> platform m \<in> {''darwin'', ''win32''} \<or> elements c ''nsc'' = []")
  case True
  then show ?thesis using assms(3) by (auto simp: nsc_stage_def usable_def Let_def split: if_splits)
next
  case False
  show ?thesis
  proof (cases "single (elements c ''nsc'')")
    case (Inl e)
    then show ?thesis using False assms(3) by (auto simp: nsc_stage_def usable_def Let_def)
  next
    case (Inr d)
    let ?t = "path_join (cwd s) d"
    obtain s1 r1 where b: "build_nsc m (s\<lparr>cwd := ?t\<rparr>) = (s1, r1)" by fastforce
    have r1: "r1 = both_run m ?t (kernel ''linux-2.6.18'') (kernel ''linux-2.6.26'')"
      using two_commands [OF b [unfolded build_nsc_def]] by (simp add: kernel_def)
    let ?body = "\<lambda>s'. case build_nsc m s' of
        (s'', Inl e) \<Rightarrow> (s'', if e = command_error then Inr (filter (\<lambda>(n, d). n \<noteq> ''nsc'') c) else Inl e) | (s'', Inr u) \<Rightarrow> (s'', Inr c)"
    define r2 where "r2 = (if r1 = Inl command_error then Inr (filter (\<lambda>(n, d). n \<noteq> ''nsc'') c) else rbind r1 (\<lambda>u. Inr c))"
    have body: "?body (s\<lparr>cwd := ?t\<rparr>) = (s1, r2)" by (cases r1) (simp_all add: b r2_def)
    note home = back_to_home [where body = ?body and s = "s\<lparr>cwd := ?t\<rparr>", OF assms(1,2) body]
    show ?thesis
    proof (cases "can_enter m ?t")
      case True
      then have "nsc_stage m disable_nsc c s = (s1\<lparr>cwd := cwd s\<rparr>, r2)"
        using False Inr home by (simp add: nsc_stage_def build_bind_def chdir_def Let_def)
      then show ?thesis using False Inr True assms(3) r1 by (simp add: usable_def r2_def Let_def)
    next
      case no: False
      then have "nsc_stage m disable_nsc c s = (s, Inl OSError)"
        using False Inr by (simp add: nsc_stage_def build_bind_def chdir_def Let_def)
      then show ?thesis using False Inr no assms(3) by (simp add: usable_def Let_def)
    qed
  qed
qed

text \<open>
  C17. Started in a directory that can be entered, the build leaves the working
  directory as it found it on every path. It returns 0 exactly when both commands of ns-3 end
  with 0, for the configuration without NSC when NSC is not wanted or does not build: a failure
  of NSC is no failure of the build.
\<close>

theorem build_outcome:
  assumes "starts_with (cwd s) ''/''" and "can_enter m (cwd s)" and "build_main m dot_config disable_nsc s = (s', r)"
  shows "cwd s' = cwd s \<and>
    r = (case dot_config of None \<Rightarrow> Inl (SystemExit 2)
         | Some c \<Rightarrow>
           rbind (usable m disable_nsc c (cwd s)) (\<lambda>c'. rbind (single (elements c ''ns-3'')) (\<lambda>d.
             let target = path_join (cwd s) (path_join (script_dir m) d) in
             if \<not> can_enter m target then Inl OSError
             else rbind (both_run m target (configure_command m c') [''python'', ''waf'']) (\<lambda>u. Inr 0))))"
proof (cases dot_config)
  case None
  then show ?thesis using assms(3) by (simp add: build_main_def)
next
  case (Some c)
  obtain s1 r1 where st: "nsc_stage m disable_nsc c s = (s1, r1)" by fastforce
  have r1: "r1 = usable m disable_nsc c (cwd s)" and home: "cwd s1 = cwd s"
    using nsc_stage_usable [OF assms(1,2) st] by simp_all
  show ?thesis
  proof (cases r1)
    case (Inl e)
    then show ?thesis using assms(3) r1 home by (simp add: build_main_def Some build_bind_def st)
  next
    case (Inr c')
    have "usable m disable_nsc c (cwd s) = Inr c'" using r1 Inr by simp
    then have c': "c' = c \<or> c' = filter (\<lambda>(n, d). n \<noteq> ''nsc'') c"
      by (auto simp: usable_def Let_def split: if_splits)
    then have ns3: "elements c' ''ns-3'' = elements c ''ns-3''"
      using elements_without [of c] by auto
    note main = assms(3) Some st Inr home r1
    show ?thesis
    proof (cases "single (elements c ''ns-3'')")
      case (Inl e)
      then show ?thesis using main ns3 by (simp add: build_main_def build_bind_def)
    next
      case d: (Inr d)
      let ?t = "path_join (cwd s) (path_join (script_dir m) d)"
      obtain s2 r2 where b: "build_ns3 m c' (s1\<lparr>cwd := ?t\<rparr>) = (s2, r2)" by fastforce
      have r2: "r2 = both_run m ?t (configure_command m c') [''python'', ''waf'']"
        using two_commands [OF b [unfolded build_ns3_def]] by simp
      let ?body = "build_bind (build_ns3 m c') (\<lambda>u s2. (s2, Inr 0))"
      have "?body (s1\<lparr>cwd := ?t\<rparr>) = (s2, rbind r2 (\<lambda>u. Inr 0))"
        by (cases r2) (simp_all add: build_bind_def b)
      note home2 = back_to_home [where body = ?body and s = "s1\<lparr>cwd := ?t\<rparr>", OF assms(1,2) this]
      show ?thesis
      proof (cases "can_enter m ?t")
        case True
        have "build_main m dot_config disable_nsc s = back_to m (cwd s) ?body (s1\<lparr>cwd := ?t\<rparr>)"
          using main(2-) ns3 d True by (simp add: build_main_def build_bind_def chdir_def Let_def)
        then have "(s', r) = (s2\<lparr>cwd := cwd s\<rparr>, rbind r2 (\<lambda>u. Inr 0))" by (simp only: assms(3) home2)
        then show ?thesis using main(2-) d True r2 by (simp add: Let_def)
      next
        case False
        then show ?thesis using main ns3 d by (auto simp: build_main_def build_bind_def chdir_def Let_def)
      qed
    qed
  qed
qed

definition demo_machine :: machine where
  "demo_machine = \<lparr>can_enter = (\<lambda>d. True), exit_code = (\<lambda>d a. if a = kernel ''linux-2.6.26'' then Some 2 else Some 0),
     platform = ''linux2'', arch = ''x86_64'', script_dir = []\<rparr>"

theorem build_outcome_witness:
  "snd (build_main demo_machine (Some [(''ns-3'', ''ns-3.9''), (''nsc'', ''nsc-0.5'')]) False \<lparr>cwd = ''/home'', started = []\<rparr>) = Inr 0 \<and>
   cwd (fst (build_main demo_machine (Some [(''ns-3'', ''ns-3.9''), (''nsc'', ''nsc-0.5'')]) False \<lparr>cwd = ''/home'', started = []\<rparr>)) = ''/home''"
proof -
  have spec: "(case Some [(''ns-3'', ''ns-3.9''), (''nsc'', ''nsc-0.5'')] of None \<Rightarrow> Inl (SystemExit 2)
         | Some c \<Rightarrow>
           rbind (usable demo_machine False c ''/home'') (\<lambda>c'. rbind (single (elements c ''ns-3'')) (\<lambda>d.
             let target = path_join ''/home'' (path_join (script_dir demo_machine) d) in
             if \<not> can_enter demo_machine target then Inl OSError
             else rbind (both_run demo_machine target (configure_command demo_machine c') [''python'', ''waf'']) (\<lambda>u. Inr (0::int))))) = Inr 0"
    by code_simp
  show ?thesis
    using build_outcome [of "\<lparr>cwd = ''/home'', started = []\<rparr>" demo_machine, OF _ _ prod.collapse [symmetric],
        where dot_config = "Some [(''ns-3'', ''ns-3.9''), (''nsc'', ''nsc-0.5'')]" and disable_nsc = False] spec
    by (simp add: demo_machine_def starts_with_def)
qed

text \<open>With two elements for ns-3 or NSC the unpacking raises ValueError.\<close>

lemma two_elements: "snd (build_main m (Some [(''ns-3'', a), (''ns-3'', b)]) True s) = Inl ValueError"
  by (simp add: build_main_def build_bind_def nsc_stage_def Let_def single_def elements_def)


end
