(* ===== verification/RadNumbers.thy ===== *)
theory RadNumbers
  imports Complex_Main Prelude
begin

unbundle bit_operations_syntax

section \<open>The number helpers of rad\_util.py\<close>

text \<open>
  The integer part of \<^verbatim>\<open>bindings/python/rad_util.py\<close>: binary strings
  (\<^verbatim>\<open>int2bin\<close>, \<^verbatim>\<open>bin2int\<close>, \<^verbatim>\<open>binary_range\<close>, \<^verbatim>\<open>random_vec\<close>), bit tricks
  (\<^verbatim>\<open>lsb\<close>, \<^verbatim>\<open>gray_encode\<close>), Euclid's algorithm and its users (\<^verbatim>\<open>gcf\<close>,
  \<^verbatim>\<open>lcm\<close>, \<^verbatim>\<open>reduce_fraction\<close>), \<^verbatim>\<open>round_grid\<close> and \<^verbatim>\<open>polygon_area\<close>. Python's
  integers are unbounded, so they are \<open>int\<close>; Python's \<^verbatim>\<open>%\<close> and integer \<^verbatim>\<open>/\<close> round
  towards minus infinity as HOL's \<open>mod\<close> and \<open>div\<close> do. The functions are modelled at
  integer arguments.
\<close>

subsection \<open>Binary strings\<close>

text \<open>\<^verbatim>\<open>hex(i)\<close>: a sign, \<^verbatim>\<open>0x\<close> and the digits.\<close>

fun hex_digits :: "nat \<Rightarrow> nat list" where
  "hex_digits n = (if n < 16 then [n] else hex_digits (n div 16) @ [n mod 16])"

declare hex_digits.simps [simp del]

definition hex_chr :: "nat \<Rightarrow> char" where
  "hex_chr d = (if d < 10 then digit_chr d else char_of (87 + d))"

definition py_hex :: "int \<Rightarrow> string" where
  "py_hex i = (if i < 0 then ''-0x'' else ''0x'') @ map hex_chr (hex_digits (nat \<bar>i\<bar>))"

definition hex2bin :: "(char, string) dict" where
  "hex2bin =
     [(CHR ''0'', ''0000''), (CHR ''1'', ''0001''), (CHR ''2'', ''0010''), (CHR ''3'', ''0011''),
      (CHR ''4'', ''0100''), (CHR ''5'', ''0101''), (CHR ''6'', ''0110''), (CHR ''7'', ''0111''),
      (CHR ''8'', ''1000''), (CHR ''9'', ''1001''), (CHR ''a'', ''1010''), (CHR ''b'', ''1011''),
      (CHR ''c'', ''1100''), (CHR ''d'', ''1101''), (CHR ''e'', ''1110''), (CHR ''f'', ''1111'')]"

text \<open>
  Python's \<^verbatim>\<open>s[:-n]\<close> and \<^verbatim>\<open>s[-n:]\<close>: for \<^verbatim>\<open>n = 0\<close> they are the empty string and
  the whole of \<^verbatim>\<open>s\<close>.
\<close>

definition upto_last :: "nat \<Rightarrow> 'a list \<Rightarrow> 'a list" where
  "upto_last n s = (if n = 0 then [] else take (length s - n) s)"

definition from_last :: "nat \<Rightarrow> 'a list \<Rightarrow> 'a list" where
  "from_last n s = (if n = 0 then s else drop (length s - n) s)"

definition int2bin :: "int \<Rightarrow> nat \<Rightarrow> string res" where
  "int2bin i n =
     rbind (rmap (\<lambda>x. case map_of hex2bin x of None \<Rightarrow> Inl KeyError | Some b \<Rightarrow> Inr b)
             (drop 2 (py_hex i)))
       (\<lambda>parts. let result = concat parts in
          if CHR ''1'' \<in> set (upto_last n result) then Inl ValueError
          else let result = from_last n result
               in Inr (replicate (n - length result) (CHR ''0'') @ result))"

definition bval :: "string \<Rightarrow> nat" where
  "bval s = foldl (\<lambda>n c. 2 * n + (if c = CHR ''1'' then 1 else 0)) 0 s"

definition bin2int :: "string \<Rightarrow> int res" where
  "bin2int s =
     (let t = strip s;
          neg = (case t of [] \<Rightarrow> False | c # _ \<Rightarrow> c = CHR ''-'');
          u = (case t of [] \<Rightarrow> [] | c # cs \<Rightarrow> if c = CHR ''-'' \<or> c = CHR ''+'' then cs else t);
          w = (if starts_with u ''0b'' \<or> starts_with u ''0B'' then drop 2 u else u)
      in if w = [] \<or> \<not> list_all (\<lambda>c. c = CHR ''0'' \<or> c = CHR ''1'') w then Inl ValueError
         else Inr (if neg then - int (bval w) else int (bval w)))"

text \<open>The specification: the \<open>n\<close> low bits of \<open>i\<close>, most significant first.\<close>

fun bin_of :: "nat \<Rightarrow> nat \<Rightarrow> string" where
  "bin_of 0 i = []"
| "bin_of (Suc n) i = bin_of n (i div 2) @ [if odd i then CHR ''1'' else CHR ''0'']"

abbreviation bits01 :: "string \<Rightarrow> bool" where
  "bits01 s \<equiv> set s \<subseteq> {CHR ''0'', CHR ''1''}"

lemma bval_Nil [simp]: "bval [] = 0"
  by (simp add: bval_def)

lemma bval_snoc [simp]: "bval (s @ [c]) = 2 * bval s + (if c = CHR ''1'' then 1 else 0)"
  by (simp add: bval_def)

lemma bval_append: "bval (s @ t) = bval s * 2 ^ length t + bval t"
proof (induction t rule: rev_induct)
  case (snoc c t)
  then show ?case by (simp flip: append_assoc)
qed simp

lemma bval_less: "bval s < 2 ^ length s"
  by (induction s rule: rev_induct) auto

lemma bval_zero_iff: "bval s = 0 \<longleftrightarrow> CHR ''1'' \<notin> set s"
  by (induction s rule: rev_induct) auto

lemma bval_replicate_zero [simp]: "bval (replicate k (CHR ''0'') @ s) = bval s"
  by (simp add: bval_append bval_zero_iff [THEN iffD2])

lemma length_bin_of [simp]: "length (bin_of n i) = n"
  by (induction n arbitrary: i) auto

lemma bits01_bin_of: "bits01 (bin_of n i)"
  by (induction n arbitrary: i) auto

lemma bval_bin_of: "i < 2 ^ n \<Longrightarrow> bval (bin_of n i) = i"
proof (induction n arbitrary: i)
  case (Suc n)
  then have "bval (bin_of n (i div 2)) = i div 2" by simp
  then show ?case by (auto simp: odd_two_times_div_two_succ)
qed simp

lemma bin_of_bval: "bits01 s \<Longrightarrow> bin_of (length s) (bval s) = s"
  by (induction s rule: rev_induct) auto

lemma hex_digits_less: "d \<in> set (hex_digits n) \<Longrightarrow> d < 16"
proof (induction n rule: hex_digits.induct)
  case (1 n)
  then show ?case by (subst (asm) (2) hex_digits.simps) (auto split: if_splits)
qed

lemma hex2bin_nibble:
  assumes "d < 16"
  shows "map_of hex2bin (hex_chr d) = Some (bin_of 4 d)"
proof -
  have "\<forall>d\<in>set [0..<16]. map_of hex2bin (hex_chr d) = Some (bin_of 4 d)" by code_simp
  then show ?thesis using assms by simp
qed


lemma hex_digits_bval: "bval (concat (map (bin_of 4) (hex_digits n))) = n"
proof (induction n rule: hex_digits.induct)
  case (1 n)
  show ?case
  proof (cases "n < 16")
    case True
    then show ?thesis by (simp add: hex_digits.simps [of n] bval_bin_of)
  next
    case False
    with 1 have "bval (concat (map (bin_of 4) (hex_digits (n div 16)))) = n div 16" by simp
    with False show ?thesis
      by (simp add: hex_digits.simps [of n] bval_append bval_bin_of)
  qed
qed

lemma int2bin_nat:
  assumes "0 \<le> i"
  defines "r \<equiv> concat (map (bin_of 4) (hex_digits (nat i)))"
  shows "int2bin i n =
     (if CHR ''1'' \<in> set (upto_last n r) then Inl ValueError
      else Inr (replicate (n - length (from_last n r)) (CHR ''0'') @ from_last n r))"
proof -
  have "rmap (\<lambda>x. case map_of hex2bin x of None \<Rightarrow> Inl KeyError | Some b \<Rightarrow> Inr b)
          (map hex_chr (hex_digits (nat i))) = Inr (map (bin_of 4) (hex_digits (nat i)))"
    by (rule rmap_map_Inr) (simp add: hex2bin_nibble hex_digits_less)
  with assms show ?thesis by (simp add: int2bin_def py_hex_def Let_def)
qed

lemma int2bin_negative: "i < 0 \<Longrightarrow> int2bin i n = Inl KeyError"
  by (simp add: int2bin_def py_hex_def hex2bin_def)

lemma int2bin_eq:
  assumes "0 < n"
  shows "int2bin i n =
    (if i < 0 then Inl KeyError
     else if i < 2 ^ n then Inr (bin_of n (nat i)) else Inl ValueError)"
proof (cases "i < 0")
  case False
  define r where "r = concat (map (bin_of 4) (hex_digits (nat i)))"
  define u where "u = upto_last n r"
  define v where "v = from_last n r"
  have r: "r = u @ v" using assms by (auto simp: u_def v_def upto_last_def from_last_def)
  have val: "bval u * 2 ^ length v + bval v = nat i"
    using hex_digits_bval [of "nat i"] r bval_append [of u v] by (simp add: r_def)
  have len: "length v \<le> n" and full: "u \<noteq> [] \<Longrightarrow> length v = n"
    using assms by (auto simp: v_def u_def upto_last_def from_last_def)
  have "bits01 r" using bits01_bin_of by (fastforce simp: r_def)
  then have b01: "bits01 v" by (simp add: r)
  have big: "CHR ''1'' \<in> set u \<longleftrightarrow> \<not> i < 2 ^ n"
  proof
    assume u1: "CHR ''1'' \<in> set u"
    then have "u \<noteq> []" "0 < bval u" using bval_zero_iff [of u] by auto
    then have "2 ^ n \<le> nat i" using val full by (metis le_add1 le_trans mult_le_mono1 nat_mult_1 Suc_leI One_nat_def)
    then show "\<not> i < 2 ^ n" using False by (simp add: nat_less_iff le_nat_iff)
  next
    assume "\<not> i < 2 ^ n"
    then have "\<not> nat i < 2 ^ n" using False by (simp add: nat_less_iff)
    moreover have "bval v < 2 ^ n"
      using bval_less [of v] len by (meson less_le_trans one_le_numeral power_increasing)
    ultimately have "bval v \<noteq> nat i" by metis
    then have "bval u \<noteq> 0" using val by (metis add_0 mult_zero_left)
    then show "CHR ''1'' \<in> set u" using bval_zero_iff [of u] by simp
  qed
  have "replicate (n - length v) (CHR ''0'') @ v = bin_of n (nat i)" if "i < 2 ^ n"
  proof -
    let ?s = "replicate (n - length v) (CHR ''0'') @ v"
    have "bval u = 0" using that big bval_zero_iff by blast
    then have "bval ?s = nat i" using val by simp
    moreover have "bits01 ?s" "length ?s = n" using b01 len by (auto simp: set_replicate_conv_if)
    ultimately show ?thesis using bin_of_bval [of ?s] by simp
  qed
  with False big show ?thesis
    using int2bin_nat [of i n] by (simp add: r_def [symmetric] u_def [symmetric] v_def [symmetric])
qed (simp add: int2bin_negative)

lemma bits01_plain:
  assumes "bits01 s" and "s \<noteq> []"
  shows "bin2int s = Inr (int (bval s))"
proof -
  have sp: "\<forall>c\<in>set s. \<not> is_space c" using assms by (auto simp: is_space_def)
  obtain c cs where s: "s = c # cs" using assms by (cases s) auto
  have "c \<noteq> CHR ''-''" "c \<noteq> CHR ''+''" using assms s by auto
  moreover have "\<not> starts_with s ''0b''" "\<not> starts_with s ''0B''"
    using assms s by (auto simp: starts_with_iff)
  moreover have "list_all (\<lambda>c. c = CHR ''0'' \<or> c = CHR ''1'') s"
    using assms by (auto simp: list_all_iff)
  moreover have "strip (c # cs) = c # cs" using strip_no_space [OF sp] s by simp
  ultimately show ?thesis
    by (simp add: bin2int_def s Let_def)
qed

text \<open>The printer and the parser of \<open>n\<close>-bit strings form a codec.\<close>

definition bin_enc :: "nat \<Rightarrow> int \<Rightarrow> string" where
  "bin_enc n i = (case int2bin i n of Inl e \<Rightarrow> [] | Inr s \<Rightarrow> s)"

definition bin_range :: "nat \<Rightarrow> int \<Rightarrow> bool" where
  "bin_range n i \<longleftrightarrow> 0 < n \<and> 0 \<le> i \<and> i < 2 ^ n"

lemma bin2int_bin_of: "0 < n \<Longrightarrow> i < 2 ^ n \<Longrightarrow> bin2int (bin_of n i) = Inr (int i)"
  using bits01_plain [OF bits01_bin_of [of n i]] length_bin_of [of n i]
  by (metis bval_bin_of less_irrefl list.size(3))

interpretation bin: codec "bin_enc n" bin2int "bin_range n" for n
  by unfold_locales
    (auto simp: bin_enc_def bin_range_def int2bin_eq bin2int_bin_of nat_less_iff)


subsection \<open>All binary numbers of a width\<close>

text \<open>
  \<^verbatim>\<open>binary_range\<close> counts with a list of characters, least significant first, and a
  list of carries. The inner loop is one increment; the outer loop runs until the carry
  leaves the word, and is modelled as a partial function: \<open>None\<close> would be a run that
  does not end.
\<close>

function br_inner :: "nat \<Rightarrow> nat \<Rightarrow> string \<Rightarrow> nat list \<Rightarrow> string \<times> nat list" where
  "br_inner bits i v toggle =
     (if i < bits \<and> toggle ! i = 1 then
        (if v ! i = CHR ''0''
         then br_inner bits (Suc i) (v[i := CHR ''1'']) (toggle[Suc i := 0])
         else br_inner bits (Suc i) (v[i := CHR ''0'']) (toggle[Suc i := 1]))
      else (v, toggle))"
  by pat_completeness auto
termination
  by (relation "measure (\<lambda>(bits, i, v, toggle). bits - i)") auto

declare br_inner.simps [simp del]

partial_function (option) br_outer :: "nat \<Rightarrow> string \<Rightarrow> nat list \<Rightarrow> string list \<Rightarrow> string list option" where
  "br_outer bits v toggle l =
     (if toggle ! bits \<noteq> 1 then
        (let vt = br_inner bits 0 v ([1] @ replicate bits 0)
         in br_outer bits (fst vt) (snd vt) (l @ [rev v]))
      else Some l)"

definition binary_range :: "nat \<Rightarrow> string list option" where
  "binary_range bits = br_outer bits (replicate bits (CHR ''0'')) ([1] @ replicate bits 0) []"

fun inc01 :: "string \<Rightarrow> string" where
  "inc01 [] = []"
| "inc01 (c # s) = (if c = CHR ''0'' then CHR ''1'' # s else CHR ''0'' # inc01 s)"

lemma length_inc01 [simp]: "length (inc01 s) = length s"
  by (induction s) auto

lemma bits01_inc01: "bits01 s \<Longrightarrow> bits01 (inc01 s)"
  by (induction s) auto

lemma bval_rev_Cons: "bval (rev (c # s)) = 2 * bval (rev s) + (if c = CHR ''1'' then 1 else 0)"
  by simp

lemma bval_inc01:
  "bits01 s \<Longrightarrow> bval (rev (inc01 s)) = (if Suc (bval (rev s)) = 2 ^ length s then 0 else Suc (bval (rev s)))"
proof (induction s)
  case (Cons c s)
  have "bval (rev s) < 2 ^ length s" using bval_less [of "rev s"] by simp
  with Cons show ?case by auto
qed simp

lemma br_inner_inc:
  assumes "length v = bits" and "length t = Suc bits" and "i \<le> bits" and "t ! i = 1"
    and "\<forall>j. i < j \<and> j \<le> bits \<longrightarrow> t ! j = 0" and "bits01 v"
  shows "\<exists>t'. br_inner bits i v t = (take i v @ inc01 (drop i v), t') \<and>
           (t' ! bits = 1 \<longleftrightarrow> Suc (bval (rev (drop i v))) = 2 ^ (bits - i))"
  using assms
proof (induction bits i v t rule: br_inner.induct)
  case (1 bits i v t)
  show ?case
  proof (cases "i < bits")
    case False
    then have "i = bits" using "1.prems" by simp
    moreover have "br_inner bits i v t = (v, t)" using False by (simp add: br_inner.simps)
    ultimately show ?thesis using "1.prems" by simp
  next
    case i: True
    have dr: "drop i v = v ! i # drop (Suc i) v" using i "1.prems"(1) by (simp add: Cons_nth_drop_Suc)
    have w: "bval (rev (drop (Suc i) v)) < 2 ^ (bits - Suc i)"
      using bval_less [of "rev (drop (Suc i) v)"] "1.prems"(1) by simp
    have pw: "(2::nat) ^ (bits - i) = 2 * 2 ^ (bits - Suc i)"
      using i by (metis Suc_diff_Suc power_Suc)
    show ?thesis
    proof (cases "v ! i = CHR ''0''")
      case True
      let ?v = "v[i := CHR ''1'']" and ?t = "t[Suc i := 0]"
      have stop: "br_inner bits (Suc i) ?v ?t = (?v, ?t)"
        using "1.prems" i by (subst br_inner.simps) simp
      have "?t ! bits \<noteq> 1"
        using "1.prems" i by (cases "Suc i = bits") auto
      moreover have "?v = take i v @ inc01 (drop i v)"
        using True dr i "1.prems"(1) by (simp add: upd_conv_take_nth_drop)
      ultimately show ?thesis
        using i True "1.prems"(4) w pw dr stop by (auto simp: br_inner.simps [of bits i v t])
    next
      case False
      let ?v = "v[i := CHR ''0'']" and ?t = "t[Suc i := 1]"
      have "bits01 ?v" using "1.prems"(6) set_update_subset_insert [of v i "CHR ''0''"] by blast
      then obtain t' where t': "br_inner bits (Suc i) ?v ?t = (take (Suc i) ?v @ inc01 (drop (Suc i) ?v), t')"
        and ov: "t' ! bits = 1 \<longleftrightarrow> Suc (bval (rev (drop (Suc i) ?v))) = 2 ^ (bits - Suc i)"
        using "1.IH"(2) [OF conjI [OF i "1.prems"(4)] False] "1.prems" i by auto
      have one: "v ! i = CHR ''1''" using "1.prems"(1,6) i False nth_mem by fastforce
      have "take (Suc i) ?v = take i v @ [CHR ''0'']"
        using i "1.prems"(1) by (simp add: take_Suc_conv_app_nth)
      then have eq: "take (Suc i) ?v @ inc01 (drop (Suc i) ?v) = take i v @ inc01 (drop i v)"
        using False dr by simp
      have "bval (rev (drop i v)) = 2 * bval (rev (drop (Suc i) v)) + 1"
        using dr one by simp
      then have "t' ! bits = 1 \<longleftrightarrow> Suc (bval (rev (drop i v))) = 2 ^ (bits - i)"
        using ov pw by auto
      then show ?thesis
        using i False "1.prems"(4) t' eq by (auto simp: br_inner.simps [of bits i v t])
    qed
  qed
qed

lemma br_outer_result:
  assumes "0 < bits" and "length v = bits" and "bits01 v" and "t ! bits \<noteq> 1"
  shows "br_outer bits v t l = Some (l @ map (bin_of bits) [bval (rev v)..<2 ^ bits])"
  using assms
proof (induction "2 ^ bits - bval (rev v)" arbitrary: v t l rule: less_induct)
  case less
  let ?n = "bval (rev v)"
  have n: "?n < 2 ^ bits" using bval_less [of "rev v"] less.prems by simp
  have zeros: "\<forall>j. 0 < j \<and> j \<le> bits \<longrightarrow> ([1] @ replicate bits 0) ! j = (0::nat)"
    by (auto simp: nth_Cons')
  obtain t' where t': "br_inner bits 0 v ([1] @ replicate bits 0) = (inc01 v, t')"
    and ov: "t' ! bits = 1 \<longleftrightarrow> Suc ?n = 2 ^ bits"
    using br_inner_inc [of v bits "[1] @ replicate bits 0" 0] less.prems zeros by auto
  have head: "bin_of bits ?n = rev v"
    using bin_of_bval [of "rev v"] less.prems by simp
  have step: "br_outer bits v t l = br_outer bits (inc01 v) t' (l @ [rev v])"
    using less.prems t' by (subst br_outer.simps) simp
  show ?case
  proof (cases "Suc ?n = 2 ^ bits")
    case True
    then have "t' ! bits = 1" using ov by simp
    then have "br_outer bits (inc01 v) t' (l @ [rev v]) = Some (l @ [rev v])"
      by (subst br_outer.simps) simp
    moreover have "[?n..<2 ^ bits] = [?n]" using True n by (simp add: upt_conv_Cons)
    ultimately show ?thesis using step head by simp
  next
    case False
    have n': "bval (rev (inc01 v)) = Suc ?n" using False bval_inc01 less.prems by auto
    have "br_outer bits (inc01 v) t' (l @ [rev v]) =
        Some ((l @ [rev v]) @ map (bin_of bits) [Suc ?n..<2 ^ bits])"
      using less.hyps [of "inc01 v" t' "l @ [rev v]"] less.prems n n' ov False bits01_inc01 by simp
    then show ?thesis using step head n by (simp add: upt_conv_Cons)
  qed
qed

lemma binary_range_eq:
  "0 < bits \<Longrightarrow> binary_range bits = Some (map (bin_of bits) [0..<2 ^ bits])"
  using br_outer_result [of bits "replicate bits (CHR ''0'')" "[1] @ replicate bits 0" "[]"]
  by (auto simp: binary_range_def bval_zero_iff [THEN iffD2] nth_Cons')

lemma binary_range_zero: "binary_range 0 = Some []"
  by (simp add: binary_range_def br_outer.simps)

subsection \<open>Random binary vectors\<close>

text \<open>
  The samples \<^verbatim>\<open>int((2**10) * random.random())\<close> are an argument of the model, one per
  round of the loop. \<open>max_value\<close> is the optional argument (\<open>None\<close> when absent).
\<close>

definition random_vec :: "nat list \<Rightarrow> nat \<Rightarrow> int option \<Rightarrow> string res" where
  "random_vec samples bits max_value =
     rbind (rmap (\<lambda>i. int2bin (int i) 10) (take (bits div 10 + 1) samples)) (\<lambda>parts.
       let vector = concat parts in
       (case max_value of
          Some m \<Rightarrow>
            if m \<noteq> 0 \<and> m < 2 ^ bits - 1 then
              rbind (bin2int vector) (\<lambda>x.
                if (2::int) ^ bits - 1 = 0 then Inl ZeroDivisionError
                else rbind (int2bin (x div (2 ^ bits - 1) * m) bits) (\<lambda>s. Inr (take bits s)))
            else Inr (take bits vector)
        | None \<Rightarrow> Inr (take bits vector)))"

lemma random_vec_unbounded:
  assumes "\<forall>x\<in>set samples. x < 1024" and "length samples = bits div 10 + 1"
  shows "\<exists>s. random_vec samples bits None = Inr s \<and> length s = bits \<and> bits01 s"
proof -
  have "rmap (\<lambda>i. int2bin (int i) 10) samples = Inr (map (bin_of 10) samples)"
    using assms(1) by (intro rmap_total) (auto simp: int2bin_eq)
  moreover have "bits \<le> length (concat (map (bin_of 10) samples))"
    using assms(2) by (simp add: length_concat comp_def sum_list_triv)
  moreover have "bits01 (take bits (concat (map (bin_of 10) samples)))"
    using bits01_bin_of set_take_subset by fastforce
  ultimately show ?thesis using assms(2) by (auto simp: random_vec_def)
qed

subsection \<open>Bits\<close>

definition lsb :: "int \<Rightarrow> nat \<Rightarrow> int" where
  "lsb x n = x AND (2 ^ n - 1)"

definition gray_encode :: "int \<Rightarrow> int" where
  "gray_encode i = i XOR drop_bit 1 i"

lemma lsb_eq_mod: "lsb x n = x mod 2 ^ n"
  by (simp add: lsb_def take_bit_eq_mask [symmetric] mask_eq_exp_minus_1 [symmetric] take_bit_eq_mod)

lemma xor_succ_mask:
  fixes n :: nat
  shows "\<exists>k. int n XOR (int n + 1) = mask (Suc k)"
proof (induction n rule: less_induct)
  case (less n)
  show ?case
  proof (cases "even n")
    case True
    then obtain m where "n = 2 * m" by blast
    then have "int n XOR (int n + 1) = mask (Suc 0)"
      by (subst xor_rec) simp
    then show ?thesis by blast
  next
    case False
    then obtain m where m: "n = 2 * m + 1" by (auto elim: oddE)
    then obtain k where k: "int m XOR (int m + 1) = mask (Suc k)" using less [of m] by auto
    have "int n XOR (int n + 1) = 2 * (int m XOR (int m + 1)) + 1"
      by (subst xor_rec) (simp add: m add.commute)
    then have "int n XOR (int n + 1) = mask (Suc (Suc k))"
      using k by (simp add: mask_eq_exp_minus_1)
    then show ?thesis by blast
  qed
qed

lemma gray_encode_xor: "gray_encode a XOR gray_encode b = gray_encode (a XOR b)"
  by (simp add: gray_encode_def ac_simps)

lemma gray_zero: "0 \<le> x \<Longrightarrow> gray_encode x = 0 \<Longrightarrow> x = 0"
proof -
  assume "0 \<le> x" and "gray_encode x = 0"
  then have "x = drop_bit 1 x"
    unfolding gray_encode_def by (metis xor.assoc xor.left_neutral xor.right_neutral xor_self_eq)
  then have "x = x div 2" by (simp add: drop_bit_Suc)
  with \<open>0 \<le> x\<close> show "x = 0" by linarith
qed

lemma gray_encode_mask: "gray_encode (mask (Suc k)) = 2 ^ k"
  unfolding gray_encode_def
  by (rule bit_eqI) (auto simp: bit_simps)


subsection \<open>Euclid's algorithm and its users\<close>

text \<open>
  For integers the loop guard \<^verbatim>\<open>remainder and abs(remainder) > epsilon\<close> is
  \<open>remainder \<noteq> 0\<close>, since \<^verbatim>\<open>epsilon\<close> is below one.
\<close>

function gcf_loop :: "int \<Rightarrow> int \<Rightarrow> int" where
  "gcf_loop result remainder =
     (if remainder \<noteq> 0 then gcf_loop remainder (result mod remainder) else result)"
  by pat_completeness auto
termination
  by (relation "measure (\<lambda>(result, remainder). nat \<bar>remainder\<bar>)") (auto simp: abs_mod_less)

declare gcf_loop.simps [simp del]

definition gcf :: "int \<Rightarrow> int \<Rightarrow> int" where
  "gcf a b = \<bar>gcf_loop (max a b) (min a b)\<bar>"

definition lcm_py :: "int \<Rightarrow> int \<Rightarrow> int" where
  "lcm_py a b = (let denom = gcf a b in if denom = 0 then 0 else a * (b div denom))"

definition reduce_fraction :: "int \<times> int \<Rightarrow> (int \<times> int) res" where
  "reduce_fraction fraction =
     (let (numerator, denominator) = fraction; common_factor = \<bar>gcf numerator denominator\<bar>
      in if common_factor = 0 then Inl ZeroDivisionError
         else Inr (numerator div common_factor, denominator div common_factor))"

lemma gcf_loop_gcd: "\<bar>gcf_loop a b\<bar> = gcd a b"
proof (induction a b rule: gcf_loop.induct)
  case (1 a b)
  show ?case
  proof (cases "b = 0")
    case False
    with 1 have "\<bar>gcf_loop a b\<bar> = gcd b (a mod b)" by (simp add: gcf_loop.simps [of a b])
    then show ?thesis using gcd_red_int [of a b] by simp
  qed (simp add: gcf_loop.simps)
qed

lemma gcf_gcd: "gcf a b = gcd a b"
  by (simp add: gcf_def gcf_loop_gcd max_def min_def gcd.commute)

lemma lcm_py_abs: "\<bar>lcm_py a b\<bar> = lcm a b"
proof (cases "gcd a b = 0")
  case False
  then have g: "0 < gcd a b" by (simp add: le_neq_trans)
  obtain q where q: "b = gcd a b * q" by (meson dvdE gcd_dvd2)
  have "lcm a b = \<bar>a\<bar> * (gcd a b * \<bar>q\<bar>) div gcd a b"
    by (subst lcm_altdef_int) (metis abs_gcd_int abs_mult q)
  also have "\<dots> = \<bar>a * q\<bar>" using g by (simp add: abs_mult mult.left_commute)
  also have "q = b div gcd a b" using q g by (metis nonzero_mult_div_cancel_left less_irrefl)
  finally show ?thesis using False by (simp add: lcm_py_def gcf_gcd Let_def)
qed (simp add: lcm_py_def gcf_gcd)

lemma reduce_fraction_ok:
  assumes "(n, d) \<noteq> (0, 0)"
  shows "\<exists>p q. reduce_fraction (n, d) = Inr (p, q) \<and> coprime p q \<and> p * d = q * n \<and>
           gcd n d * p = n \<and> gcd n d * q = d"
proof -
  let ?g = "gcd n d"
  have nz: "?g \<noteq> 0" using assms by simp
  obtain p where p: "n = ?g * p" by (meson dvdE gcd_dvd1)
  obtain q where q: "d = ?g * q" by (meson dvdE gcd_dvd2)
  have pq: "n div ?g = p" "d div ?g = q"
    using p q nz by (metis nonzero_mult_div_cancel_left)+
  have "coprime p q" using assms div_gcd_coprime [of n d] pq by auto
  moreover have "p * d = q * n"
  proof -
    have "p * d = p * (?g * q)" by (rule arg_cong [OF q])
    also have "\<dots> = q * (?g * p)" by simp
    also have "\<dots> = q * n" by (rule arg_cong [OF p, symmetric])
    finally show ?thesis .
  qed
  moreover have "reduce_fraction (n, d) = Inr (p, q)"
    using nz pq by (simp add: reduce_fraction_def Let_def gcf_gcd)
  ultimately show ?thesis using p [symmetric] q [symmetric] by blast
qed

subsection \<open>Rounding to a grid\<close>

text \<open>
  At integer arguments: \<^verbatim>\<open>off_grid >= (grid / 2.0)\<close> is \<open>2 * off_grid \<ge> grid\<close> and
  \<^verbatim>\<open>int(value / grid)\<close> is floor division. \<^verbatim>\<open>add_one\<close> is a local variable that the
  \<^verbatim>\<open>if\<close> chain may leave unassigned.
\<close>

definition round_grid :: "int \<Rightarrow> int \<Rightarrow> int \<Rightarrow> int res" where
  "round_grid value grid mode =
     (if grid = 0 then Inl ZeroDivisionError
      else let off_grid = value mod grid;
               add_one =
                 (if mode = 0 then Some (if 2 * off_grid \<ge> grid then 1 else 0)
                  else if mode = 1 \<and> off_grid \<noteq> 0 then Some 1
                  else if mode = -1 \<and> off_grid \<noteq> 0 then Some 0
                  else None)
           in (case add_one of
                 None \<Rightarrow> Inl UnboundLocalError
               | Some n \<Rightarrow> Inr ((value div grid + n) * grid)))"

lemma round_grid_grid:
  assumes "0 < grid"
  shows "round_grid value grid mode =
    (let q = value div grid * grid; m = value mod grid in
     if mode = 0 then Inr (if 2 * m \<ge> grid then q + grid else q)
     else if mode = 1 \<and> m \<noteq> 0 then Inr (q + grid)
     else if mode = -1 \<and> m \<noteq> 0 then Inr q else Inl UnboundLocalError)"
  using assms by (simp add: round_grid_def Let_def algebra_simps)

subsection \<open>Polygon area\<close>

text \<open>
  The function scales the points in place, closes the polygon and sums the cross products.
  The model returns the area and the list as the caller finds it afterwards. The points
  are integers, so the arithmetic is exact up to the last division, which is rational here.
\<close>

definition scale_points :: "(int \<times> int) list \<Rightarrow> int \<Rightarrow> (int \<times> int) list" where
  "scale_points points_list precision = map (\<lambda>(x, y). (x * precision, y * precision)) points_list"

definition close_polygon :: "(int \<times> int) list \<Rightarrow> (int \<times> int) list res" where
  "close_polygon points_list =
     (if points_list = [] then Inl IndexError
      else if last points_list \<noteq> hd points_list then Inr (points_list @ [hd points_list])
      else Inr points_list)"

fun shoelace :: "int \<Rightarrow> (int \<times> int) list \<Rightarrow> int" where
  "shoelace area ((x_i, y_i) # (x_j, y_j) # ps) =
     shoelace (area + x_j * y_i - y_j * x_i) ((x_j, y_j) # ps)"
| "shoelace area _ = area"

definition polygon_area :: "(int \<times> int) list \<Rightarrow> int \<Rightarrow> (rat \<times> (int \<times> int) list) res" where
  "polygon_area points_list precision =
     rbind (close_polygon (scale_points points_list precision)) (\<lambda>points.
       let area = \<bar>shoelace 0 points div 2\<bar>
       in if precision = 0 then Inl ZeroDivisionError
          else Inr (of_int area / of_int (precision ^ 2), points))"

lemma shoelace_acc: "shoelace (a + b) ps = a + shoelace b ps"
proof (induction b ps arbitrary: a rule: shoelace.induct)
  case (1 area x_i y_i x_j y_j ps)
  have "a + area + x_j * y_i - y_j * x_i = a + (area + x_j * y_i - y_j * x_i)" by simp
  then show ?case using 1 by (simp only: shoelace.simps)
qed auto

lemma shoelace_scale:
  "shoelace (c * c * a) (map (\<lambda>(x, y). (x * c, y * c)) ps) = c * c * shoelace a ps"
proof (induction a ps rule: shoelace.induct)
  case (1 area x_i y_i x_j y_j ps)
  have "c * c * area + x_j * c * (y_i * c) - y_j * c * (x_i * c) =
      c * c * (area + x_j * y_i - y_j * x_i)"
    by (simp add: algebra_simps)
  then show ?case using 1 by simp
qed auto

lemma close_scale:
  "c \<noteq> 0 \<Longrightarrow> close_polygon (scale_points ps c) =
     rbind (close_polygon ps) (\<lambda>qs. Inr (scale_points qs c))"
  by (cases ps) (auto simp: close_polygon_def scale_points_def last_map hd_map split: prod.splits)

lemma polygon_area_even:
  assumes "even precision" and "precision \<noteq> 0" and "close_polygon ps = Inr qs"
  shows "polygon_area ps precision =
     Inr (of_int \<bar>shoelace 0 qs\<bar> / 2, scale_points qs precision)"
proof -
  obtain h where h: "precision = 2 * h" using assms(1) by blast
  have "shoelace 0 (scale_points qs precision) = 2 * (2 * h * h * shoelace 0 qs)"
    using shoelace_scale [of precision 0 qs] h by (simp add: scale_points_def)
  then have "\<bar>shoelace 0 (scale_points qs precision) div 2\<bar> = 2 * h * h * \<bar>shoelace 0 qs\<bar>"
    by (simp add: abs_mult)
  moreover have "of_int (2 * h * h * \<bar>shoelace 0 qs\<bar>) / of_int (precision ^ 2) =
      (of_int \<bar>shoelace 0 qs\<bar> / 2 :: rat)"
    using h assms(2) by (simp add: power2_eq_square)
  moreover have "polygon_area ps precision =
      Inr (of_int \<bar>shoelace 0 (scale_points qs precision) div 2\<bar> / of_int (precision ^ 2),
           scale_points qs precision)"
    using assms close_scale [of precision ps] by (simp add: polygon_area_def Let_def)
  ultimately show ?thesis by (simp only:)
qed


subsection \<open>Properties\<close>

text \<open>
  \<^verbatim>\<open>int2bin\<close> at a positive width writes exactly the integers
  \<open>0 \<le> i < 2 ^ n\<close>, with \<open>n\<close> characters that \<^verbatim>\<open>bin2int\<close> reads back; a negative integer
  ends in a KeyError (the sign of \<^verbatim>\<open>hex\<close> is not a digit) and a large one in the
  ValueError of the documentation.
\<close>

theorem int2bin_correct:
  assumes "0 < n"
  shows "((\<exists>s. int2bin i n = Inr s \<and> length s = n \<and> bits01 s \<and> bin2int s = Inr i) \<longleftrightarrow> 0 \<le> i \<and> i < 2 ^ n) \<and>
    (int2bin i n = Inl KeyError \<longleftrightarrow> i < 0) \<and>
    (int2bin i n = Inl ValueError \<longleftrightarrow> 2 ^ n \<le> i)"
proof (intro conjI)
  note eq = int2bin_eq [OF assms, of i]
  have pos: "0 < (2::int) ^ n" by simp
  show "(\<exists>s. int2bin i n = Inr s \<and> length s = n \<and> bits01 s \<and> bin2int s = Inr i) \<longleftrightarrow> 0 \<le> i \<and> i < 2 ^ n"
  proof (cases "0 \<le> i \<and> i < 2 ^ n")
    case True
    then have "nat i < 2 ^ n" by (simp add: nat_less_iff)
    with True show ?thesis
      using eq bits01_bin_of [of n "nat i"] bin2int_bin_of [OF assms, of "nat i"] by simp
  qed (auto simp: eq)
  show "int2bin i n = Inl KeyError \<longleftrightarrow> i < 0" by (simp add: eq)
  show "int2bin i n = Inl ValueError \<longleftrightarrow> 2 ^ n \<le> i"
  proof (cases "i < 0")
    case True
    then have "i < 2 ^ n" using pos by linarith
    with True show ?thesis by (simp add: eq)
  qed (simp add: eq not_less)
qed

theorem int2bin_correct_witness:
  "(0::nat) < 8 \<and> (\<exists>s. int2bin 123 8 = Inr s \<and> length s = 8 \<and> bits01 s \<and> bin2int s = Inr 123)"
  using int2bin_correct [of 8 123] by simp

text \<open>
  \<^verbatim>\<open>binary_range\<close> stops, and returns every binary string of the width
  once, in increasing order, as \<^verbatim>\<open>int2bin\<close> writes them (and nothing at width 0).
\<close>

theorem binary_range_all:
  "(binary_range bits = Some (if bits = 0 then [] else map (\<lambda>i. bin_enc bits (int i)) [0..<2 ^ bits])) \<and>
    (distinct (the (binary_range bits)))"
proof (intro conjI)
  show eq: "binary_range bits =
     Some (if bits = 0 then [] else map (\<lambda>i. bin_enc bits (int i)) [0..<2 ^ bits])"
    by (cases "bits = 0") (simp_all add: binary_range_eq binary_range_zero bin_enc_def int2bin_eq)
  have "inj_on (\<lambda>i. bin_enc bits (int i)) (set [0..<2 ^ bits])" if "0 < bits"
  proof (rule inj_onI)
    fix i j
    assume ij: "i \<in> set [0..<2 ^ bits]" "j \<in> set [0..<2 ^ bits]"
      and e: "bin_enc bits (int i) = bin_enc bits (int j)"
    then have "int i < 2 ^ bits" "int j < 2 ^ bits" by simp_all
    then have "bin_range bits (int i)" "bin_range bits (int j)"
      using that by (simp_all add: bin_range_def)
    then have "int i = int j" using e by (rule bin.enc_injective)
    then show "i = j" by simp
  qed
  then show "distinct (the (binary_range bits))" by (simp add: eq distinct_map)
qed

text \<open>
  Consecutive naturals get Gray codes that differ in one bit, and no two
  naturals share a code.
\<close>

theorem gray_code_adjacent:
  "(\<exists>k. gray_encode (int i + 1) XOR gray_encode (int i) = 2 ^ k) \<and>
    (gray_encode (int i) = gray_encode (int j) \<longleftrightarrow> i = j)"
proof (intro conjI)
  obtain k where "int i XOR (int i + 1) = mask (Suc k)" using xor_succ_mask by blast
  then show "\<exists>k. gray_encode (int i + 1) XOR gray_encode (int i) = 2 ^ k"
    by (metis gray_encode_xor gray_encode_mask xor.commute)
  have "gray_encode (int i XOR int j) = 0 \<Longrightarrow> int i XOR int j = 0"
    by (rule gray_zero) simp
  then show "gray_encode (int i) = gray_encode (int j) \<longleftrightarrow> i = j"
    by (metis gray_encode_xor of_nat_eq_iff xor.assoc xor.left_neutral xor.right_neutral xor_self_eq)
qed

text \<open>
  \<^verbatim>\<open>gcf\<close> is the greatest common divisor and \<^verbatim>\<open>lcm\<close> the least common
  multiple up to sign; \<^verbatim>\<open>reduce_fraction\<close> returns coprime numbers with the same ratio,
  and raises exactly at \<open>(0, 0)\<close>.
\<close>

theorem euclid_correct:
  "(gcf a b = gcd a b) \<and>
    (\<bar>lcm_py a b\<bar> = lcm a b) \<and>
    (reduce_fraction (a, b) = Inl ZeroDivisionError \<longleftrightarrow> a = 0 \<and> b = 0) \<and>
    ((\<exists>p q. reduce_fraction (a, b) = Inr (p, q) \<and> coprime p q \<and> p * b = q * a) \<longleftrightarrow> (a, b) \<noteq> (0, 0))"
proof (intro conjI)
  show z: "reduce_fraction (a, b) = Inl ZeroDivisionError \<longleftrightarrow> a = 0 \<and> b = 0"
    by (simp add: reduce_fraction_def Let_def gcf_gcd)
  then show "(\<exists>p q. reduce_fraction (a, b) = Inr (p, q) \<and> coprime p q \<and> p * b = q * a)
      \<longleftrightarrow> (a, b) \<noteq> (0, 0)"
    using reduce_fraction_ok [of a b] by fastforce
qed (simp_all add: gcf_gcd lcm_py_abs)

text \<open>
  On a positive grid the default mode returns the nearest multiple (the
  upper one in the middle), and the modes 1 and -1 the next multiple above and below; but a
  value that already lies on the grid has no branch in those modes and raises, as does any
  other mode.
\<close>

theorem round_grid_correct:
  assumes "0 < grid"
  shows "(\<exists>r. round_grid value grid 0 = Inr r \<and> grid dvd r \<and> 2 * (r - value) \<le> grid \<and> 2 * (value - r) < grid) \<and>
    ((\<exists>r. round_grid value grid 1 = Inr r \<and> grid dvd r \<and> value < r \<and> r < value + grid) \<longleftrightarrow> \<not> grid dvd value) \<and>
    ((\<exists>r. round_grid value grid (-1) = Inr r \<and> grid dvd r \<and> value - grid < r \<and> r < value) \<longleftrightarrow> \<not> grid dvd value) \<and>
    (round_grid value grid mode = Inl UnboundLocalError \<longleftrightarrow> mode \<noteq> 0 \<and> (grid dvd value \<or> mode \<noteq> 1 \<and> mode \<noteq> -1))"
proof (intro conjI)
  define q m where "q = value div grid * grid" and "m = value mod grid"
  have qm: "value = q + m" "0 \<le> m" "m < grid" "grid dvd q"
    using assms by (simp_all add: q_def m_def)
  have nz: "grid dvd value \<longleftrightarrow> m = 0" by (simp add: m_def dvd_eq_mod_eq_0)
  have r0: "round_grid value grid 0 = Inr (if 2 * m \<ge> grid then q + grid else q)"
    using assms by (simp add: round_grid_grid q_def m_def)
  have r1: "round_grid value grid 1 = (if m = 0 then Inl UnboundLocalError else Inr (q + grid))"
    and r2: "round_grid value grid (-1) = (if m = 0 then Inl UnboundLocalError else Inr q)"
    using assms by (simp_all add: round_grid_grid q_def m_def)
  show "\<exists>r. round_grid value grid 0 = Inr r \<and> grid dvd r \<and> 2 * (r - value) \<le> grid \<and> 2 * (value - r) < grid"
    unfolding r0 unfolding qm(1) using qm(2-) by (cases "2 * m \<ge> grid") auto
  show "(\<exists>r. round_grid value grid 1 = Inr r \<and> grid dvd r \<and> value < r \<and> r < value + grid) \<longleftrightarrow> \<not> grid dvd value"
    unfolding r1 nz unfolding qm(1) using qm(2-) by auto
  show "(\<exists>r. round_grid value grid (-1) = Inr r \<and> grid dvd r \<and> value - grid < r \<and> r < value) \<longleftrightarrow> \<not> grid dvd value"
    unfolding r2 nz unfolding qm(1) using qm(2-) by auto
  show "round_grid value grid mode = Inl UnboundLocalError \<longleftrightarrow> mode \<noteq> 0 \<and> (grid dvd value \<or> mode \<noteq> 1 \<and> mode \<noteq> -1)"
    using assms by (auto simp: round_grid_grid nz m_def Let_def)
qed

theorem round_grid_correct_witness:
  "(0::int) < 5 \<and> (\<exists>r. round_grid 7 5 0 = Inr r \<and> 5 dvd r \<and> 2 * (r - 7) \<le> 5 \<and> 2 * (7 - r) < 5)"
  using round_grid_correct [of 5 7] by simp

text \<open>
  With no maximum, \<^verbatim>\<open>random_vec\<close> returns a binary string of the
  asked length for all samples of \<^verbatim>\<open>random\<close>. With one it may raise: the vector is longer than
  \<^verbatim>\<open>bits\<close>, so its value over \<open>2 ^ bits - 1\<close> times the maximum need not fit the width.
\<close>

theorem random_vec_behaviour:
  assumes "\<forall>x\<in>set samples. x < 1024" and "length samples = bits div 10 + 1"
  shows "(\<exists>s. random_vec samples bits None = Inr s \<and> length s = bits \<and> bits01 s) \<and>
    (random_vec [1023] 2 (Some 1) = Inl ValueError)"
proof (intro conjI)
  show "\<exists>s. random_vec samples bits None = Inr s \<and> length s = bits \<and> bits01 s"
    by (rule random_vec_unbounded [OF assms])
  show "random_vec [1023] 2 (Some 1) = Inl ValueError"
    by code_simp
qed

theorem random_vec_behaviour_witness:
  "(1023::nat) < 1024 \<and> length [1023::nat] = 2 div 10 + 1 \<and>
   (\<exists>s. random_vec [1023] 2 None = Inr s \<and> length s = 2 \<and> bits01 s)"
  using random_vec_behaviour [of "[1023]" 2] by simp

end
