(* ===== verification/RadSeq.thy ===== *)
theory RadSeq
  imports Prelude
begin

section \<open>Sequence helpers of \<^verbatim>\<open>rad_util.py\<close>\<close>

text \<open>
  The list, string and dictionary functions of \<^verbatim>\<open>bindings/python/rad_util.py\<close>: reversal,
  transposition, permutations, removal of duplicates, inverse of a dictionary, common
  prefix and suffix, the rotation test that the cycle finder of \<^verbatim>\<open>topsort.py\<close> relies on,
  and the small command-line reader. The order in which a Python dictionary lists its
  keys is unspecified: it is an argument \<open>ko\<close> wherever the result depends on it, with the
  law \<open>key_order ko\<close> that it only permutes.
\<close>

definition key_order :: "('a list \<Rightarrow> 'a list) \<Rightarrow> bool" where
  "key_order ko \<longleftrightarrow> (\<forall>ks. mset (ko ks) = mset ks)"

lemma key_order_set: "key_order ko \<Longrightarrow> set (ko ks) = set ks"
  by (metis key_order_def mset_eq_setD)

lemma key_order_distinct: "key_order ko \<Longrightarrow> distinct (ko ks) = distinct ks"
  by (metis key_order_def mset_eq_imp_distinct_iff)

lemma key_order_id: "key_order (\<lambda>ks. ks)" and key_order_rev: "key_order rev"
  by (simp_all add: key_order_def)

subsection \<open>Lists\<close>

definition reverse_py :: "string \<Rightarrow> string" where
  "reverse_py input_string = rev input_string"

text \<open>\<^verbatim>\<open>zip(*matrix)\<close> stops with the shortest row.\<close>

function transpose_py :: "'a list list \<Rightarrow> 'a list list" where
  "transpose_py matrix =
     (if matrix = [] \<or> [] \<in> set matrix then []
      else map hd matrix # transpose_py (map tl matrix))"
  by pat_completeness auto
termination
proof (relation "measure (\<lambda>m. length (hd m))")
  fix matrix :: "'a list list"
  assume "\<not> (matrix = [] \<or> [] \<in> set matrix)"
  then show "(map tl matrix, matrix) \<in> measure (\<lambda>m. length (hd m))"
    by (cases matrix) auto
qed simp

declare transpose_py.simps [simp del]

lemma transpose_py_nth:
  assumes "matrix \<noteq> []" and "\<forall>row\<in>set matrix. length row = n"
  shows "transpose_py matrix = map (\<lambda>j. map (\<lambda>row. row ! j) matrix) [0..<n]"
  using assms
proof (induction n arbitrary: matrix)
  case 0
  then show ?case by (subst transpose_py.simps) (cases matrix; auto)
next
  case (Suc n)
  have ne: "[] \<notin> set matrix" using Suc.prems by auto
  have "transpose_py (map tl matrix) = map (\<lambda>j. map (\<lambda>row. row ! j) (map tl matrix)) [0..<n]"
    using Suc by simp
  also have "\<dots> = map (\<lambda>j. map (\<lambda>row. row ! Suc j) matrix) [0..<n]"
    using Suc.prems by (auto simp: nth_tl)
  finally have tl: "transpose_py (map tl matrix) = map (\<lambda>j. map (\<lambda>row. row ! Suc j) matrix) [0..<n]" .
  have "map hd matrix = map (\<lambda>row. row ! 0) matrix"
    using ne by (auto intro!: hd_conv_nth)
  moreover have "[0..<Suc n] = 0 # map Suc [0..<n]"
    by (simp add: upt_conv_Cons map_Suc_upt)
  ultimately show ?case
    using Suc.prems ne tl by (subst transpose_py.simps) (simp add: comp_def del: upt_Suc)
qed

fun permutations :: "'a list \<Rightarrow> 'a list list" where
  "permutations (item # item2 # rest) =
     concat (map (\<lambda>sub_list. map (\<lambda>i. take i sub_list @ item # drop i sub_list)
                               [0..<length (item # item2 # rest)])
       (permutations (item2 # rest)))"
| "permutations input_list = [input_list]"

lemma permutations_mset: "p \<in> set (permutations xs) \<longleftrightarrow> mset p = mset xs"
proof (induction xs arbitrary: p rule: permutations.induct)
  case (1 x y ys)
  have len: "length s = length (y # ys)" if "mset s = mset (y # ys)" for s
    using that by (rule mset_eq_length)
  have "p \<in> set (permutations (x # y # ys)) \<longleftrightarrow>
      (\<exists>s\<in>set (permutations (y # ys)). \<exists>i\<in>{0..<length (x # y # ys)}. p = take i s @ x # drop i s)"
    by (simp only: permutations.simps(1) set_concat set_map image_image UN_iff image_iff Bex_def
        set_upt atLeastLessThan_iff)
  also have "\<dots> \<longleftrightarrow> (\<exists>s i. mset s = mset (y # ys) \<and> i \<le> length s \<and> p = take i s @ x # drop i s)"
    (is "?L \<longleftrightarrow> ?R")
  proof -
    have iff: "(i \<in> {0..<length (x # y # ys)}) = (i \<le> length s)" if "mset s = mset (y # ys)" for s i
      using len [OF that] by auto
    show ?thesis unfolding Bex_def 1 using iff by blast
  qed
  finally have key: "p \<in> set (permutations (x # y # ys)) \<longleftrightarrow>
      (\<exists>s i. mset s = mset (y # ys) \<and> i \<le> length s \<and> p = take i s @ x # drop i s)" .
  show ?case
  proof
    assume "p \<in> set (permutations (x # y # ys))"
    then obtain s i where s: "mset s = mset (y # ys)" and p: "p = take i s @ x # drop i s"
      using key by blast
    have "mset (take i s) + mset (drop i s) = mset s"
      by (metis append_take_drop_id mset_append)
    then show "mset p = mset (x # y # ys)" using s p by simp
  next
    assume m: "mset p = mset (x # y # ys)"
    then have "x \<in> set p" by (metis list.set_intros(1) mset_eq_setD)
    then obtain u v where uv: "p = u @ x # v" by (meson split_list)
    then have "mset (u @ v) = mset (y # ys)" using m by simp
    moreover have "p = take (length u) (u @ v) @ x # drop (length u) (u @ v)" using uv by simp
    ultimately show "p \<in> set (permutations (x # y # ys))"
      using key by (metis le_add1 length_append)
  qed
qed (auto simp: mset_eq_length)

lemma length_permutations: "length (permutations xs) = fact (length xs)"
proof (induction xs rule: permutations.induct)
  case (1 x y ys)
  then show ?case
    by (simp add: length_concat comp_def sum_list_triv algebra_simps)
qed auto

text \<open>
  The two fast branches hash every element, so they are left for the slow one as soon as an
  element is not hashable.
\<close>

fun uniq_slow :: "'a list \<Rightarrow> 'a list \<Rightarrow> 'a list" where
  "uniq_slow result [] = result"
| "uniq_slow result (x # seq) = uniq_slow (if x \<in> set result then result else result @ [x]) seq"

fun uniq_ordered :: "('a, nat) dict \<Rightarrow> 'a list \<Rightarrow> 'a list" where
  "uniq_ordered d [] = []"
| "uniq_ordered d (x # seq) =
     (if has_key d x then uniq_ordered d seq else x # uniq_ordered (AList.update x 0 d) seq)"

definition uniquify :: "('a \<Rightarrow> bool) \<Rightarrow> ('a list \<Rightarrow> 'a list) \<Rightarrow> 'a list \<Rightarrow> bool \<Rightarrow> 'a list" where
  "uniquify hashable ko seq preserve_order =
     (if list_all hashable seq then
        (if preserve_order then uniq_ordered [] seq
         else ko (dict_keys (foldl (\<lambda>d x. AList.update x (0::nat) d) [] seq)))
      else uniq_slow [] seq)"

definition first_occurrences :: "'a list \<Rightarrow> 'a list" where
  "first_occurrences xs = rev (remdups (rev xs))"

lemma first_occurrences_props [simp]:
  "distinct (first_occurrences xs)" "set (first_occurrences xs) = set xs"
  by (simp_all add: first_occurrences_def)

lemma first_occurrences_snoc:
  "first_occurrences (xs @ [x]) = (if x \<in> set xs then first_occurrences xs else first_occurrences xs @ [x])"
  by (simp add: first_occurrences_def)

lemma first_occurrences_Cons:
  "first_occurrences (x # xs) = x # filter (\<lambda>y. y \<noteq> x) (first_occurrences xs)"
  by (induction xs rule: rev_induct) (auto simp: first_occurrences_snoc simp flip: append_Cons, simp add: first_occurrences_def)

lemma uniq_slow_first:
  "uniq_slow (first_occurrences pre) seq = first_occurrences (pre @ seq)"
proof (induction seq arbitrary: pre)
  case (Cons x seq)
  then show ?case using Cons [of "pre @ [x]"] by (simp add: first_occurrences_snoc)
qed simp

lemma uniq_ordered_first:
  "uniq_ordered d seq = filter (\<lambda>x. \<not> has_key d x) (first_occurrences seq)"
proof (induction seq arbitrary: d)
  case (Cons x seq)
  then show ?case
    by (auto simp: first_occurrences_Cons dict_simps intro!: filter_cong)
qed (simp add: first_occurrences_def)

lemma dict_keys_foldl:
  "dict_keys (foldl (\<lambda>d x. AList.update x (0::nat) d) [] seq) = first_occurrences seq"
proof (induction seq rule: rev_induct)
  case (snoc x seq)
  let ?d = "foldl (\<lambda>d x. AList.update x (0::nat) d) [] seq"
  have "x \<in> set seq \<longleftrightarrow> x \<in> set (map fst ?d)"
    using snoc by (metis dict_keys_def first_occurrences_props(2))
  then show ?case using snoc
    by (cases "x \<in> set seq")
      (simp_all add: first_occurrences_snoc dict_keys_def map_fst_update_present map_fst_update_absent del: set_map)
qed (simp add: dict_keys_def first_occurrences_def)

definition reverse_dict :: "(('k \<times> 'v) list \<Rightarrow> ('k \<times> 'v) list) \<Rightarrow> ('k, 'v) dict \<Rightarrow> ('v, 'k) dict" where
  "reverse_dict io d = foldl (\<lambda>result (key, value). AList.update value key result) [] (io d)"

lemma map_of_foldl_update:
  "map_of (foldl (\<lambda>result (key, value). AList.update value key result) r xs) v =
     (case map_of (rev (map (\<lambda>(k, v). (v, k)) xs)) v of None \<Rightarrow> map_of r v | Some k \<Rightarrow> Some k)"
  by (induction xs arbitrary: r) (auto simp: dict_simps map_add_def split: option.splits)

subsection \<open>Strings\<close>

function cf_prefix :: "nat \<Rightarrow> string \<Rightarrow> string \<Rightarrow> nat \<Rightarrow> string \<Rightarrow> string" where
  "cf_prefix common_len s1 s2 i prefix =
     (if i < common_len then
        (if s1 ! i \<noteq> s2 ! i then prefix
         else cf_prefix common_len s1 s2 (i + 1) (prefix @ [s1 ! i]))
      else prefix)"
  by pat_completeness auto
termination by (relation "measure (\<lambda>(n, s1, s2, i, p). n - i)") auto

function cf_suffix :: "nat \<Rightarrow> string \<Rightarrow> string \<Rightarrow> nat \<Rightarrow> string \<Rightarrow> string" where
  "cf_suffix common_len s1 s2 i suffix =
     (if i < common_len + 1 then
        (if s1 ! (length s1 - i) \<noteq> s2 ! (length s2 - i) then suffix
         else cf_suffix common_len s1 s2 (i + 1) (suffix @ [s1 ! (length s1 - i)]))
      else suffix)"
  by pat_completeness auto
termination by (relation "measure (\<lambda>(n, s1, s2, i, p). n + 1 - i)") auto

declare cf_prefix.simps [simp del] cf_suffix.simps [simp del]

definition find_common_fixes :: "string \<Rightarrow> string \<Rightarrow> string \<times> string" where
  "find_common_fixes s1 s2 =
     (let common_len = min (length s1) (length s2)
      in (cf_prefix common_len s1 s2 0 [], rev (cf_suffix common_len s1 s2 1 [])))"

lemma cf_prefix_maximal:
  assumes "n = min (length s1) (length s2)" and "i \<le> n" and "take i s1 = take i s2"
  shows "\<exists>j\<le>n. cf_prefix n s1 s2 i (take i s1) = take j s1 \<and> take j s1 = take j s2 \<and>
           (j = n \<or> s1 ! j \<noteq> s2 ! j)"
  using assms
proof (induction "n - i" arbitrary: i)
  case 0
  then show ?case by (subst cf_prefix.simps) auto
next
  case (Suc m)
  have i: "i < n" using Suc.hyps(2) by linarith
  show ?case
  proof (cases "s1 ! i = s2 ! i")
    case False
    then have "cf_prefix n s1 s2 i (take i s1) = take i s1" using i by (subst cf_prefix.simps) simp
    then show ?thesis using False Suc.prems(2,3) by blast
  next
    case True
    have t: "take (i + 1) s1 = take i s1 @ [s1 ! i]" "take (i + 1) s1 = take (i + 1) s2"
      using Suc.prems i True by (simp_all add: take_Suc_conv_app_nth)
    have "\<exists>j\<le>n. cf_prefix n s1 s2 (i + 1) (take (i + 1) s1) = take j s1 \<and> take j s1 = take j s2 \<and>
           (j = n \<or> s1 ! j \<noteq> s2 ! j)"
      using Suc.hyps(2) Suc.prems i t(2) by (intro Suc.hyps(1)) auto
    then show ?thesis using i True t(1) by (subst cf_prefix.simps) simp
  qed
qed

lemma cf_suffix_prefix:
  assumes "n \<le> length s1" and "n \<le> length s2"
  shows "cf_suffix n s1 s2 (i + 1) suffix = cf_prefix n (rev s1) (rev s2) i suffix"
  using assms
proof (induction n "rev s1" "rev s2" i suffix rule: cf_prefix.induct)
  case (1 n i suffix)
  then show ?case
    by (subst cf_suffix.simps, subst cf_prefix.simps) (auto simp: rev_nth)
qed

lemma cf_prefix_longest:
  "\<exists>p u v. cf_prefix (min (length s) (length t)) s t 0 [] = p \<and> s = p @ u \<and> t = p @ v \<and>
     (u = [] \<or> v = [] \<or> hd u \<noteq> hd v)"
proof -
  define n where "n = min (length s) (length t)"
  have "\<exists>j\<le>n. cf_prefix n s t 0 (take 0 s) = take j s \<and> take j s = take j t \<and>
          (j = n \<or> s ! j \<noteq> t ! j)"
    by (rule cf_prefix_maximal) (simp_all add: n_def)
  then obtain j where j: "j \<le> n" "cf_prefix n s t 0 [] = take j s" "take j s = take j t"
      "j = n \<or> s ! j \<noteq> t ! j"
    unfolding take_0 by (elim exE conjE) (rule that)
  have "drop j s = [] \<or> drop j t = [] \<or> hd (drop j s) \<noteq> hd (drop j t)"
  proof (cases "j < length s \<and> j < length t")
    case True
    then have "s ! j \<noteq> t ! j" using j(4) by (auto simp: n_def)
    with True show ?thesis by (simp add: hd_drop_conv_nth)
  next
    case False
    with j(1) show ?thesis by auto
  qed
  moreover have "s = take j s @ drop j s" "t = take j s @ drop j t" by (metis append_take_drop_id j(3))+
  ultimately show ?thesis using j(2)
    by (intro exI [of _ "take j s"] exI [of _ "drop j s"] exI [of _ "drop j t"] conjI) (simp_all only: n_def)
qed

definition is_rotated :: "'a list \<Rightarrow> 'a list \<Rightarrow> bool res" where
  "is_rotated seq1 seq2 =
     (if length seq1 \<noteq> length seq2 then Inr False
      else rbind (py_nth seq2 0) (\<lambda>head_item.
        let start_indexes = filter (\<lambda>index1. seq1 ! index1 = head_item) [0..<length seq1];
            double_seq1 = seq1 @ seq1
        in Inr (list_ex (\<lambda>index1. take (length seq1) (drop index1 double_seq1) = seq2) start_indexes)))"

lemma take_drop_double: "i \<le> length xs \<Longrightarrow> take (length xs) (drop i (xs @ xs)) = drop i xs @ take i xs"
  by simp

lemma rotate_less: "xs \<noteq> [] \<Longrightarrow> \<exists>i<length xs. rotate n xs = drop i xs @ take i xs"
  by (metis length_greater_0_conv mod_less_divisor rotate_drop_take)

lemma is_rotated_rotate:
  assumes "xs \<noteq> [] \<or> ys \<noteq> []"
  shows "is_rotated xs ys = Inr (\<exists>n. rotate n xs = ys)"
proof (cases "length xs = length ys")
  case False
  then show ?thesis by (auto simp: is_rotated_def)
next
  case True
  with assms have ne: "xs \<noteq> []" "ys \<noteq> []" by auto
  have "(\<exists>i<length xs. xs ! i = ys ! 0 \<and> take (length xs) (drop i (xs @ xs)) = ys) \<longleftrightarrow>
      (\<exists>n. rotate n xs = ys)"
  proof
    assume "\<exists>i<length xs. xs ! i = ys ! 0 \<and> take (length xs) (drop i (xs @ xs)) = ys"
    then show "\<exists>n. rotate n xs = ys"
      by (metis less_imp_le_nat mod_less rotate_drop_take take_drop_double)
  next
    assume "\<exists>n. rotate n xs = ys"
    then obtain i where i: "i < length xs" "ys = drop i xs @ take i xs"
      using rotate_less [OF ne(1)] by blast
    then have "ys ! 0 = xs ! i" by (simp add: nth_append)
    with i show "\<exists>i<length xs. xs ! i = ys ! 0 \<and> take (length xs) (drop i (xs @ xs)) = ys"
      by (metis less_imp_le_nat take_drop_double)
  qed
  moreover have "py_nth ys 0 = Inr (ys ! 0)"
    using ne py_nth_nat [of ys 0] by simp
  moreover have "list_ex P (filter Q [0..<n]) \<longleftrightarrow> (\<exists>i<n. Q i \<and> P i)" for P Q n
    by (auto simp: list_ex_iff)
  ultimately show ?thesis
    using True by (simp only: is_rotated_def Let_def rbind_simps if_False simp_thms)
qed

lemma is_rotated_empty: "is_rotated [] [] = Inl IndexError"
  by (simp add: is_rotated_def py_nth_def py_index_def)

subsection \<open>Command-line arguments\<close>

datatype arg_value = ArgNone | ArgStr string | ArgList "string list"

fun get_args_loop :: "(string, arg_value) dict \<Rightarrow> string list \<Rightarrow> string list \<Rightarrow> (string, arg_value) dict \<times> string list" where
  "get_args_loop d args [] = (d, args)"
| "get_args_loop d args (arg # argv) =
     (if starts_with arg ''-'' then
        (let parts = split_on (CHR ''='') (dropWhile (\<lambda>c. c = CHR ''-'') arg)
         in get_args_loop
              (AList.update (parts ! 0) (if length parts = 2 then ArgStr (parts ! 1) else ArgNone) d)
              args argv)
      else get_args_loop d (args @ [arg]) argv)"

definition get_args :: "string list \<Rightarrow> (string, arg_value) dict" where
  "get_args argv = (case get_args_loop [] [] argv of (d, args) \<Rightarrow> AList.update ''args'' (ArgList args) d)"

lemma get_args_loop_args: "snd (get_args_loop d args argv) = args @ filter (\<lambda>a. \<not> starts_with a ''-'') argv"
  by (induction d args argv rule: get_args_loop.induct) (auto simp: Let_def)

lemma get_args_loop_untouched:
  assumes "\<forall>a\<in>set argv. starts_with a ''-'' \<longrightarrow> split_on (CHR ''='') (dropWhile (\<lambda>c. c = CHR ''-'') a) ! 0 \<noteq> k"
  shows "map_of (fst (get_args_loop d args argv)) k = map_of d k"
  using assms by (induction d args argv rule: get_args_loop.induct) (auto simp: Let_def dict_simps)

lemma get_args_loop_append:
  "get_args_loop d args (xs @ ys) =
     (case get_args_loop d args xs of (d', args') \<Rightarrow> get_args_loop d' args' ys)"
  by (induction d args xs rule: get_args_loop.induct) (auto simp: Let_def)

lemma option_parts:
  assumes "CHR ''='' \<notin> set k" and "CHR ''='' \<notin> set v" and "k \<noteq> []" and "hd k \<noteq> CHR ''-''"
  shows "split_on (CHR ''='') (dropWhile (\<lambda>c. c = CHR ''-'') (''--'' @ k @ ''='' @ v)) = [k, v]"
proof -
  have "dropWhile (\<lambda>c. c = CHR ''-'') (''--'' @ k @ ''='' @ v) = k @ CHR ''='' # v"
    using assms(3,4) by (cases k) simp_all
  then show ?thesis using assms(1,2) by (simp add: split_on_app split_on_no_sep del: append_Cons)
qed

subsection \<open>Properties\<close>

text \<open>
  C37. \<^verbatim>\<open>permutations\<close> lists exactly the rearrangements of the
  input, factorial many.
\<close>

theorem permutations_correct:
  "set (permutations xs) = {p. mset p = mset xs} \<and> length (permutations xs) = fact (length xs)"
  by (auto simp: permutations_mset length_permutations)

text \<open>
  \<^verbatim>\<open>uniquify\<close> keeps one copy of every element. The order-preserving
  branch and the branch for unhashable elements both keep the first occurrences; the
  default branch only promises the elements.
\<close>

theorem uniquify_correct:
  assumes "key_order ko"
  shows "distinct (uniquify hashable ko seq preserve_order) \<and>
    set (uniquify hashable ko seq preserve_order) = set seq \<and>
    (preserve_order \<or> \<not> list_all hashable seq \<longrightarrow>
       uniquify hashable ko seq preserve_order = first_occurrences seq)"
proof -
  have "uniq_slow [] seq = first_occurrences seq"
    using uniq_slow_first [of "[]" seq] by (simp add: first_occurrences_def)
  moreover have "uniq_ordered [] seq = first_occurrences seq"
    by (simp add: uniq_ordered_first has_key_def)
  ultimately show ?thesis
    using assms by (auto simp: uniquify_def dict_keys_foldl key_order_set key_order_distinct)
qed

theorem uniquify_correct_witness:
  "key_order rev \<and> uniquify (\<lambda>_. True) rev [3, 3, 1, 2 :: nat] True = first_occurrences [3, 3, 1, 2] \<and>
   distinct (uniquify (\<lambda>_. True) rev [3, 3, 1, 2 :: nat] False)"
  using uniquify_correct [OF key_order_rev, of "\<lambda>_. True" "[3, 3, 1, 2 :: nat]" True]
    uniquify_correct [OF key_order_rev, of "\<lambda>_. True" "[3, 3, 1, 2 :: nat]" False] key_order_rev
  by blast

text \<open>
  The two results are a common prefix and a common suffix,
  and neither can be longer.
\<close>

theorem find_common_fixes_maximal:
  "\<exists>p q. find_common_fixes s1 s2 = (p, q) \<and>
     (\<exists>u v. s1 = p @ u \<and> s2 = p @ v \<and> (u = [] \<or> v = [] \<or> hd u \<noteq> hd v)) \<and>
     (\<exists>u v. s1 = u @ q \<and> s2 = v @ q \<and> (u = [] \<or> v = [] \<or> last u \<noteq> last v))"
proof -
  let ?n = "min (length s1) (length s2)"
  obtain p u v where p: "cf_prefix ?n s1 s2 0 [] = p" "s1 = p @ u" "s2 = p @ v"
      "u = [] \<or> v = [] \<or> hd u \<noteq> hd v"
    using cf_prefix_longest by blast
  obtain q a b where q: "cf_prefix ?n (rev s1) (rev s2) 0 [] = q" "rev s1 = q @ a" "rev s2 = q @ b"
      "a = [] \<or> b = [] \<or> hd a \<noteq> hd b"
    using cf_prefix_longest [of "rev s1" "rev s2"] unfolding length_rev by (elim exE conjE) (rule that)
  have "s1 = rev a @ rev q" "s2 = rev b @ rev q"
    using q(2,3) by (metis rev_append rev_rev_ident)+
  moreover have "rev a = [] \<or> rev b = [] \<or> last (rev a) \<noteq> last (rev b)"
    using q(4) by (auto simp: last_rev)
  moreover have "cf_suffix ?n s1 s2 1 [] = q"
    using cf_suffix_prefix [of ?n s1 s2 0 "[]"] q(1) by simp
  then have "find_common_fixes s1 s2 = (p, rev q)"
    using p(1) by (simp only: find_common_fixes_def Let_def)
  ultimately show ?thesis using p(2-4) by blast
qed

theorem find_common_fixes_maximal_witness:
  "find_common_fixes ''abcelephantdef'' ''abccowdef'' = (''abc'', ''def'') \<and>
   (\<exists>u v. ''abcelephantdef'' = u @ ''def'' \<and> ''abccowdef'' = v @ ''def'')"
proof -
  have "find_common_fixes ''abcelephantdef'' ''abccowdef'' = (''abc'', ''def'')" by code_simp
  then show ?thesis
    using find_common_fixes_maximal [of "''abcelephantdef''" "''abccowdef''"] by (metis prod.inject)
qed

text \<open>
  \<^verbatim>\<open>is_rotated\<close> decides whether one sequence is a rotation of the
  other; two empty sequences, and nothing else, end in the IndexError of \<^verbatim>\<open>seq2[0]\<close>.
\<close>

theorem is_rotated_correct:
  "is_rotated xs ys =
     (if xs = [] \<and> ys = [] then Inl IndexError else Inr (\<exists>n. rotate n xs = ys))"
  using is_rotated_rotate [of xs ys] is_rotated_empty by auto

text \<open>
  After \<^verbatim>\<open>get_args\<close> the key \<^verbatim>\<open>args\<close> holds the arguments without
  a leading dash in their order, whatever the options are called; an option
  \<^verbatim>\<open>--key=value\<close> that no later option of the same name replaces is stored under its key.
\<close>

theorem get_args_correct:
  "map_of (get_args argv) ''args'' = Some (ArgList (filter (\<lambda>a. \<not> starts_with a ''-'') argv)) \<and>
   (CHR ''='' \<notin> set k \<and> CHR ''='' \<notin> set v \<and> k \<noteq> [] \<and> hd k \<noteq> CHR ''-'' \<and> k \<noteq> ''args'' \<and>
    list_all (\<lambda>a. \<not> starts_with a ''-'' \<or>
       split_on (CHR ''='') (dropWhile (\<lambda>c. c = CHR ''-'') a) ! 0 \<noteq> k) post \<longrightarrow>
    map_of (get_args (pre @ [''--'' @ k @ ''='' @ v] @ post)) k = Some (ArgStr v))"
proof -
  have "map_of (get_args (pre @ [''--'' @ k @ ''='' @ v] @ post)) k = Some (ArgStr v)"
    if k: "CHR ''='' \<notin> set k" "CHR ''='' \<notin> set v" "k \<noteq> []" "hd k \<noteq> CHR ''-''" "k \<noteq> ''args''"
      and post: "list_all (\<lambda>a. \<not> starts_with a ''-'' \<or>
       split_on (CHR ''='') (dropWhile (\<lambda>c. c = CHR ''-'') a) ! 0 \<noteq> k) post"
  proof -
    let ?a = "''--'' @ k @ ''='' @ v"
    obtain d args where da: "get_args_loop [] [] pre = (d, args)" by fastforce
    have dash: "starts_with ?a ''-''" by (simp add: starts_with_def)
    have "get_args_loop [] [] (pre @ [?a] @ post) = get_args_loop (AList.update k (ArgStr v) d) args post"
      using dash option_parts [OF k(1-4)] by (simp add: get_args_loop_append da)
    moreover have "map_of (fst (get_args_loop (AList.update k (ArgStr v) d) args post)) k = Some (ArgStr v)"
      using get_args_loop_untouched [of post k "AList.update k (ArgStr v) d" args] post
      by (auto simp: list_all_iff dict_simps)
    ultimately show ?thesis
      using k(5) by (auto simp: get_args_def dict_simps split: prod.splits)
  qed
  moreover have "map_of (get_args argv) ''args'' = Some (ArgList (filter (\<lambda>a. \<not> starts_with a ''-'') argv))"
    using get_args_loop_args [of "[]" "[]" argv]
    by (auto simp: get_args_def dict_simps split: prod.splits)
  ultimately show ?thesis by blast
qed

theorem get_args_correct_witness:
  "map_of (get_args [''--mode=fast'', ''x'', ''-q'']) ''mode'' = Some (ArgStr ''fast'')"
  using get_args_correct [of "[]" "''mode''" "''fast''" "[''x'', ''-q'']" "[]"]
  by (simp add: starts_with_def)

end
