(* ===== verification/Topsort.thy ===== *)
theory Topsort
  imports RadSeq
begin

section \<open>Dependency sorting: \<^verbatim>\<open>topsort.py\<close>\<close>

text \<open>
  \<^verbatim>\<open>bindings/python/topsort.py\<close>: \<^verbatim>\<open>topsort\<close>, \<^verbatim>\<open>topsort_levels\<close> with its
  core, and \<^verbatim>\<open>find_cycles\<close>. The dictionaries \<^verbatim>\<open>num_parents\<close> and \<^verbatim>\<open>children\<close>
  are association lists, the list \<^verbatim>\<open>answer\<close> that grows while it is iterated is split
  into the part already visited and the part still to visit, and a generator is the list of
  what it yields together with the exception that ends it, if any.
\<close>

subsection \<open>Counting the parents\<close>

type_synonym 'a num_parents = "('a, int) dict"
type_synonym 'a children = "('a, 'a list) dict"

datatype 'a sort_exc =
    SortKeyError
  | CycleError "'a list" "'a num_parents" "'a children"
  | LevelCycleError "'a num_parents" "'a children"

definition add_pair :: "'a num_parents \<times> 'a children \<Rightarrow> 'a \<times> 'a \<Rightarrow> 'a num_parents \<times> 'a children" where
  "add_pair st pair =
     (case (st, pair) of ((num_parents, children), (parent, child)) \<Rightarrow>
       let np1 = (if has_key num_parents parent then num_parents else AList.update parent 0 num_parents);
           np2 = (if has_key np1 child then np1 else AList.update child 0 np1);
           np3 = AList.update child (dict_get np2 child 0 + 1) np2
       in (np3, AList.update parent (dict_get children parent [] @ [child]) children))"

definition count_pairs :: "('a \<times> 'a) list \<Rightarrow> 'a num_parents \<times> 'a children" where
  "count_pairs pairlist = foldl add_pair ([], []) pairlist"

subsection \<open>\<^verbatim>\<open>topsort\<close>\<close>

fun knock_down :: "'a num_parents \<Rightarrow> 'a list \<Rightarrow> 'a list \<Rightarrow> ('a num_parents \<times> 'a list) option" where
  "knock_down num_parents todo [] = Some (num_parents, todo)"
| "knock_down num_parents todo (child # rest) =
     (case map_of num_parents child of
        None \<Rightarrow> None
      | Some n \<Rightarrow> knock_down (AList.update child (n - 1) num_parents)
                   (if n - 1 = 0 then todo @ [child] else todo) rest)"

lemma knock_down_length: "knock_down np todo cs = Some (np', todo') \<Longrightarrow> length np' = length np"
proof (induction np todo cs rule: knock_down.induct)
  case (2 np todo c cs)
  then show ?case
    by (auto split: option.splits)
      (metis length_update_present list.set_map map_of_eq_None_iff option.distinct(1))+
qed simp

function topsort_loop ::
  "'a list \<Rightarrow> 'a list \<Rightarrow> 'a num_parents \<Rightarrow> 'a children
     \<Rightarrow> ('a list \<times> 'a num_parents \<times> 'a children) option" where
  "topsort_loop answer [] num_parents children = Some (answer, num_parents, children)"
| "topsort_loop answer (parent # todo) num_parents children =
     (if \<not> has_key num_parents parent then None
      else let np = AList.delete parent num_parents in
        if has_key children parent then
          (case knock_down np todo (dict_get children parent []) of
             None \<Rightarrow> None
           | Some (np', todo') \<Rightarrow>
               topsort_loop (answer @ [parent]) todo' np' (AList.delete parent children))
        else topsort_loop (answer @ [parent]) todo np children)"
  by pat_completeness auto
termination
proof (relation "measure (\<lambda>(a, t, np, ch). length np)", goal_cases)
  case (2 answer parent todo np ch x y a b)
  then show ?case using length_delete_less [of parent np] knock_down_length
    by (fastforce simp: has_key_def)
next
  case (3 answer parent todo np ch)
  then show ?case using length_delete_less [of parent np] by (simp add: has_key_def)
qed simp

definition topsort :: "('a list \<Rightarrow> 'a list) \<Rightarrow> ('a \<times> 'a) list \<Rightarrow> 'a sort_exc + 'a list" where
  "topsort ko pairlist =
     (case count_pairs pairlist of (num_parents, children) \<Rightarrow>
       case topsort_loop [] (filter (\<lambda>x. map_of num_parents x = Some 0) (ko (dict_keys num_parents)))
              num_parents children of
         None \<Rightarrow> Inl SortKeyError
       | Some (answer, np, ch) \<Rightarrow>
           if np \<noteq> [] then Inl (CycleError answer np ch) else Inr answer)"

subsection \<open>\<^verbatim>\<open>topsort_levels\<close>\<close>

fun level_children :: "'a num_parents \<Rightarrow> 'a list \<Rightarrow> 'a num_parents option" where
  "level_children num_parents [] = Some num_parents"
| "level_children num_parents (child # rest) =
     (case map_of num_parents child of
        None \<Rightarrow> None
      | Some n \<Rightarrow> level_children (AList.update child (n - 1) num_parents) rest)"

fun level_step :: "'a num_parents \<Rightarrow> 'a children \<Rightarrow> 'a list \<Rightarrow> ('a num_parents \<times> 'a children) option" where
  "level_step num_parents children [] = Some (num_parents, children)"
| "level_step num_parents children (parent # rest) =
     (if \<not> has_key num_parents parent then None
      else let np = AList.delete parent num_parents in
        if has_key children parent then
          (case level_children np (dict_get children parent []) of
             None \<Rightarrow> None
           | Some np' \<Rightarrow> level_step np' (AList.delete parent children) rest)
        else level_step np children rest)"

lemma level_children_length: "level_children np cs = Some np' \<Longrightarrow> length np' = length np"
proof (induction np cs rule: level_children.induct)
  case (2 np c cs)
  then show ?case
    by (auto split: option.splits)
      (metis length_update_present list.set_map map_of_eq_None_iff option.distinct(1))
qed simp

lemma level_step_length:
  "level_step np ch ps = Some (np', ch') \<Longrightarrow> ps \<noteq> [] \<Longrightarrow> length np' < length np"
proof (induction np ch ps rule: level_step.induct)
  case (2 np ch p ps)
  then have p: "length (AList.delete p np) < length np"
    using length_delete_less [of p np] by (auto simp: has_key_def split: if_splits)
  show ?case
  proof (cases "ps = []")
    case True
    with 2 p show ?thesis by (auto simp: Let_def level_children_length split: if_splits option.splits)
  next
    case False
    with 2 p show ?thesis
      by (fastforce simp: Let_def dest: level_children_length split: if_splits option.splits)
  qed
qed simp

function topsort_levels_core ::
  "('a list \<Rightarrow> 'a list) \<Rightarrow> 'a num_parents \<Rightarrow> 'a children \<Rightarrow> 'a list list \<times> 'a sort_exc option" where
  "topsort_levels_core ko num_parents children =
     (let level_parents = filter (\<lambda>x. map_of num_parents x = Some 0) (ko (dict_keys num_parents))
      in if level_parents = [] then
           ([], if num_parents \<noteq> [] then Some (LevelCycleError num_parents children) else None)
         else (case level_step num_parents children level_parents of
             None \<Rightarrow> ([level_parents], Some SortKeyError)
           | Some (np, ch) \<Rightarrow>
               (case topsort_levels_core ko np ch of (levels, e) \<Rightarrow> (level_parents # levels, e))))"
  by pat_completeness auto
termination
  by (relation "measure (\<lambda>(ko, np, ch). length np)") (auto dest: level_step_length)

declare topsort_levels_core.simps [simp del]

definition topsort_levels ::
  "('a list \<Rightarrow> 'a list) \<Rightarrow> ('a \<times> 'a) list \<Rightarrow> 'a list list \<times> 'a sort_exc option" where
  "topsort_levels ko pairlist =
     (case count_pairs pairlist of (num_parents, children) \<Rightarrow>
       topsort_levels_core ko num_parents children)"

subsection \<open>The state of the counters\<close>

text \<open>
  \<open>topo_state ps D np ch\<close>: the nodes in \<open>D\<close> are done, \<open>np\<close> counts for every other node the
  pairs whose parent is not done, and \<open>ch\<close> still has the children of the parents that are
  not done. Both sorting functions keep it.
\<close>

definition nodes :: "('a \<times> 'a) list \<Rightarrow> 'a set" where
  "nodes ps = fst ` set ps \<union> snd ` set ps"

definition kids :: "('a \<times> 'a) list \<Rightarrow> 'a \<Rightarrow> 'a list" where
  "kids ps p = map snd (filter (\<lambda>q. fst q = p) ps)"

definition pend :: "('a \<times> 'a) list \<Rightarrow> 'a set \<Rightarrow> 'a \<Rightarrow> nat" where
  "pend ps D x = length (filter (\<lambda>q. snd q = x \<and> fst q \<notin> D) ps)"

definition ready :: "('a \<times> 'a) list \<Rightarrow> 'a set \<Rightarrow> 'a \<Rightarrow> bool" where
  "ready ps D x \<longleftrightarrow> x \<in> nodes ps \<and> x \<notin> D \<and> (\<forall>p. (p, x) \<in> set ps \<longrightarrow> p \<in> D)"

definition topo_state :: "('a \<times> 'a) list \<Rightarrow> 'a set \<Rightarrow> 'a num_parents \<Rightarrow> 'a children \<Rightarrow> bool" where
  "topo_state ps D np ch \<longleftrightarrow> dict_ok np \<and> dict_ok ch \<and>
     map_of np = (\<lambda>x. if x \<in> nodes ps - D then Some (int (pend ps D x)) else None) \<and>
     map_of ch = (\<lambda>p. if p \<in> fst ` set ps - D then Some (kids ps p) else None) \<and>
     (\<forall>p x. (p, x) \<in> set ps \<longrightarrow> x \<in> D \<longrightarrow> p \<in> D) \<and> D \<subseteq> nodes ps"

lemma finite_nodes [simp]: "finite (nodes ps)"
  by (simp add: nodes_def)

lemma pair_nodes: "(p, x) \<in> set ps \<Longrightarrow> p \<in> nodes ps \<and> x \<in> nodes ps"
  by (force simp: nodes_def)

lemma pend_zero: "pend ps D x = 0 \<longleftrightarrow> (\<forall>p. (p, x) \<in> set ps \<longrightarrow> p \<in> D)"
  by (auto simp: pend_def filter_empty_conv)

lemma ready_pend: "ready ps D x \<longleftrightarrow> x \<in> nodes ps - D \<and> pend ps D x = 0"
  by (auto simp: ready_def pend_zero)

lemma set_kids: "set (kids ps p) = {c. (p, c) \<in> set ps}"
  by (force simp: kids_def)

lemma pend_insert: "p \<notin> D \<Longrightarrow> pend ps D x = pend ps (insert p D) x + count_list (kids ps p) x"
  by (induction ps) (auto simp: pend_def kids_def)

lemma kids_snoc: "kids (ps @ [(p, c)]) q = kids ps q @ (if q = p then [c] else [])"
  by (simp add: kids_def)

lemma nodes_snoc: "nodes (ps @ [(p, c)]) = insert p (insert c (nodes ps))"
  by (auto simp: nodes_def)

lemma pend_snoc: "pend (ps @ [(p, c)]) {} x = pend ps {} x + (if x = c then 1 else 0)"
  by (simp add: pend_def)

lemma pend_absent: "x \<notin> nodes ps \<Longrightarrow> pend ps {} x = 0"
  by (auto simp: pend_zero dest: pair_nodes)

lemma kids_absent: "p \<notin> fst ` set ps \<Longrightarrow> kids ps p = []"
  by (auto simp: kids_def filter_empty_conv)

lemma count_pairs_state:
  "case count_pairs ps of (np, ch) \<Rightarrow> topo_state ps {} np ch"
proof (induction ps rule: rev_induct)
  case Nil
  show ?case by (auto simp: count_pairs_def topo_state_def nodes_def)
next
  case (snoc q ps)
  obtain p c where q: "q = (p, c)" by fastforce
  obtain np ch where c: "count_pairs ps = (np, ch)" by fastforce
  with snoc have st: "topo_state ps {} np ch" by simp
  define np2 where "np2 = (let np1 = (if has_key np p then np else AList.update p 0 np)
     in if has_key np1 c then np1 else AList.update c 0 np1)"
  have ok2: "dict_ok np2" using st by (simp add: np2_def topo_state_def Let_def)
  have np2: "map_of np2 = (\<lambda>x. if x \<in> insert p (insert c (nodes ps)) then Some (int (pend ps {} x)) else None)"
    using st pend_absent [of p ps] pend_absent [of c ps]
    by (auto simp: np2_def topo_state_def Let_def dict_simps fun_eq_iff)
  have "count_pairs (ps @ [q]) =
      (AList.update c (dict_get np2 c 0 + 1) np2, AList.update p (dict_get ch p [] @ [c]) ch)"
    using c by (simp add: count_pairs_def add_pair_def q np2_def Let_def)
  moreover have "map_of (AList.update c (dict_get np2 c 0 + 1) np2) =
      (\<lambda>x. if x \<in> nodes (ps @ [q]) - {} then Some (int (pend (ps @ [q]) {} x)) else None)"
    by (auto simp: dict_simps dict_get_def np2 q nodes_snoc pend_snoc fun_eq_iff)
  moreover have "map_of (AList.update p (dict_get ch p [] @ [c]) ch) =
      (\<lambda>x. if x \<in> fst ` set (ps @ [q]) - {} then Some (kids (ps @ [q]) x) else None)"
    using st kids_absent [of p ps]
    by (auto simp: dict_simps dict_get_def topo_state_def q kids_snoc fun_eq_iff)
  ultimately show ?case using st ok2 by (simp add: topo_state_def)
qed

lemma level_children_result:
  assumes "\<forall>c\<in>set cs. c \<in> dom (map_of np)" and "dict_ok np"
  shows "\<exists>np'. level_children np cs = Some np' \<and> dict_ok np' \<and>
    map_of np' = (\<lambda>x. map_option (\<lambda>n. n - int (count_list cs x)) (map_of np x))"
  using assms
proof (induction cs arbitrary: np)
  case (Cons c cs)
  then obtain n where n: "map_of np c = Some n" by auto
  let ?np = "AList.update c (n - 1) np"
  have "\<forall>d\<in>set cs. d \<in> dom (map_of ?np)" using Cons.prems(1) by (auto simp: dict_simps)
  from Cons.IH [OF this dict_ok_update [OF Cons.prems(2)]]
  obtain np' where np': "level_children ?np cs = Some np'" "dict_ok np'"
      "map_of np' = (\<lambda>x. map_option (\<lambda>n. n - int (count_list cs x)) (map_of ?np x))"
    by blast
  moreover have "map_of np' = (\<lambda>x. map_option (\<lambda>n. n - int (count_list (c # cs) x)) (map_of np x))"
    using np'(3) n by (auto simp: dict_simps fun_eq_iff)
  ultimately show ?case using n by simp
qed (simp add: option.map_ident)

lemma knock_down_level:
  assumes "\<forall>c\<in>set cs. \<exists>n. map_of np c = Some n \<and> int (count_list cs c) \<le> n"
    and "level_children np cs = Some np'"
  shows "\<exists>extra. knock_down np todo cs = Some (np', todo @ extra) \<and> distinct extra \<and>
    set extra = {c \<in> set cs. map_of np c = Some (int (count_list cs c))}"
  using assms
proof (induction cs arbitrary: np todo)
  case (Cons c cs)
  then obtain n where n: "map_of np c = Some n" "1 + int (count_list cs c) \<le> n" by auto
  let ?np = "AList.update c (n - 1) np" and ?todo = "if n - 1 = 0 then todo @ [c] else todo"
  have prem: "\<forall>d\<in>set cs. \<exists>m. map_of ?np d = Some m \<and> int (count_list cs d) \<le> m"
    using Cons.prems(1) n by (auto simp: dict_simps split: if_splits)
  have "level_children ?np cs = Some np'" using Cons.prems(2) n by simp
  then obtain extra where e: "knock_down ?np ?todo cs = Some (np', ?todo @ extra)" "distinct extra"
      "set extra = {d \<in> set cs. map_of ?np d = Some (int (count_list cs d))}"
    using Cons.IH [OF prem] by blast
  have zero: "count_list cs c = 0 \<longleftrightarrow> c \<notin> set cs" by (simp add: count_list_0_iff)
  have step: "knock_down np todo (c # cs) = Some (np', ?todo @ extra)"
    using n(1) e(1) by simp
  let ?E = "{d \<in> set (c # cs). map_of np d = Some (int (count_list (c # cs) d))}"
  show ?case
  proof (cases "n = 1")
    case True
    with n(2) zero have c: "c \<notin> set cs" "count_list cs c = 0" by auto
    have "set (c # extra) = ?E"
    proof (rule set_eqI)
      fix d
      show "d \<in> set (c # extra) \<longleftrightarrow> d \<in> ?E"
      proof (cases "d = c")
        case d: True
        then show ?thesis using n(1) True c(2) by simp
      qed (simp add: e(3) dict_simps)
    qed
    moreover have "distinct (c # extra)" using c e(2,3) by simp
    moreover have "knock_down np todo (c # cs) = Some (np', todo @ c # extra)"
      using step True by simp
    ultimately show ?thesis by blast
  next
    case False
    have "set extra = ?E"
    proof (rule set_eqI)
      fix d
      show "d \<in> set extra \<longleftrightarrow> d \<in> ?E"
      proof (cases "d = c")
        case d: True
        have "d \<in> set extra \<longleftrightarrow> c \<in> set cs \<and> n - 1 = int (count_list cs c)"
          by (simp add: e(3) dict_simps d)
        then show ?thesis using zero n False by (auto simp: d)
      qed (simp add: e(3) dict_simps)
    qed
    then show ?thesis using e(2) step False by auto
  qed
qed simp

lemma topo_step:
  assumes "topo_state ps D np ch" and "ready ps D p"
  defines "cs \<equiv> dict_get ch p []"
  shows "has_key np p" and "has_key ch p \<longleftrightarrow> p \<in> fst ` set ps" and "cs = kids ps p"
    and "\<exists>np'. level_children (AList.delete p np) cs = Some np' \<and>
           topo_state ps (insert p D) np' (AList.delete p ch)"
    and "\<not> has_key ch p \<Longrightarrow> topo_state ps (insert p D) (AList.delete p np) ch"
    and "\<forall>c\<in>set cs. \<exists>n. map_of (AList.delete p np) c = Some n \<and> int (count_list cs c) \<le> n"
    and "c \<in> set cs \<Longrightarrow> map_of (AList.delete p np) c = Some (int (count_list cs c)) \<longleftrightarrow> ready ps (insert p D) c"
proof -
  have np: "map_of np = (\<lambda>x. if x \<in> nodes ps - D then Some (int (pend ps D x)) else None)"
    and ch: "map_of ch = (\<lambda>p. if p \<in> fst ` set ps - D then Some (kids ps p) else None)"
    and closed: "\<And>p x. (p, x) \<in> set ps \<Longrightarrow> x \<in> D \<Longrightarrow> p \<in> D"
    and ok: "dict_ok np" "dict_ok ch" and sub: "D \<subseteq> nodes ps"
    using assms(1) by (auto simp: topo_state_def)
  have p: "p \<in> nodes ps" "p \<notin> D" "\<And>q. (q, p) \<in> set ps \<Longrightarrow> q \<in> D"
    using assms(2) by (auto simp: ready_def)
  show k: "has_key np p" using p np by (simp add: has_key_map_of)
  show kc: "has_key ch p \<longleftrightarrow> p \<in> fst ` set ps" using p ch by (simp add: has_key_map_of)
  show cs: "cs = kids ps p"
    using p(2) ch kids_absent [of p ps] by (auto simp: cs_def dict_get_def)
  have kid: "c \<in> nodes ps - insert p D" if "c \<in> set cs" for c
    using that p closed pair_nodes by (fastforce simp: cs set_kids)
  have np1: "map_of (AList.delete p np) = (\<lambda>x. if x \<in> nodes ps - insert p D then Some (int (pend ps D x)) else None)"
    by (auto simp: dict_simps np fun_eq_iff)
  have ch1: "map_of (AList.delete p ch) = (\<lambda>q. if q \<in> fst ` set ps - insert p D then Some (kids ps q) else None)"
    by (auto simp: dict_simps ch fun_eq_iff)
  have closed': "\<And>q x. (q, x) \<in> set ps \<Longrightarrow> x \<in> insert p D \<Longrightarrow> q \<in> insert p D"
    using closed p(3) by blast
  have pend': "int (pend ps D x) - int (count_list cs x) = int (pend ps (insert p D) x)" for x
    using pend_insert [OF p(2), of ps x] by (simp add: cs)
  have "\<forall>c\<in>set cs. c \<in> dom (map_of (AList.delete p np))"
    using kid by (simp add: np1 dom_def)
  from level_children_result [OF this dict_ok_delete [OF ok(1)]]
  obtain np' where np': "level_children (AList.delete p np) cs = Some np'" "dict_ok np'"
      "map_of np' = (\<lambda>x. map_option (\<lambda>n. n - int (count_list cs x)) (map_of (AList.delete p np) x))"
    by blast
  have "map_of np' = (\<lambda>x. if x \<in> nodes ps - insert p D then Some (int (pend ps (insert p D) x)) else None)"
    by (simp add: np'(3) np1 fun_eq_iff pend')
  then have "topo_state ps (insert p D) np' (AList.delete p ch)"
    unfolding topo_state_def using np'(2) ok ch1 closed' sub p(1) by simp
  with np'(1) show "\<exists>np'. level_children (AList.delete p np) cs = Some np' \<and>
           topo_state ps (insert p D) np' (AList.delete p ch)" by blast
  show "topo_state ps (insert p D) (AList.delete p np) ch" if "\<not> has_key ch p"
  proof -
    have "cs = []" using that kc cs kids_absent by metis
    then have same: "pend ps (insert p D) x = pend ps D x" for x using pend' [of x] by simp
    have "map_of (AList.delete p np) = (\<lambda>x. if x \<in> nodes ps - insert p D then Some (int (pend ps (insert p D) x)) else None)"
      by (simp add: np1 fun_eq_iff same)
    moreover have "map_of ch = (\<lambda>q. if q \<in> fst ` set ps - insert p D then Some (kids ps q) else None)"
      using that kc ch by (auto simp: fun_eq_iff)
    ultimately show ?thesis
      unfolding topo_state_def using ok closed' sub p(1) by simp
  qed
  show "\<forall>c\<in>set cs. \<exists>n. map_of (AList.delete p np) c = Some n \<and> int (count_list cs c) \<le> n"
    using kid np1 pend' by (metis diff_ge_0_iff_ge of_nat_0_le_iff)
  show "map_of (AList.delete p np) c = Some (int (count_list cs c)) \<longleftrightarrow> ready ps (insert p D) c"
    if "c \<in> set cs" for c
  proof -
    have "map_of (AList.delete p np) c = Some (int (pend ps D c))"
      using kid [OF that] np1 by simp
    moreover have "ready ps (insert p D) c \<longleftrightarrow> pend ps (insert p D) c = 0"
      using kid [OF that] by (simp add: ready_pend)
    ultimately show ?thesis using pend' [of c] by auto
  qed
qed

lemma ready_step:
  assumes "ready ps D p"
  shows "ready ps (insert p D) x \<longleftrightarrow> x \<noteq> p \<and> ready ps D x \<or> (p, x) \<in> set ps \<and> ready ps (insert p D) x"
  using assms by (auto simp: ready_def)

lemma ready_not_kid:
  "ready ps D x \<Longrightarrow> p \<notin> D \<Longrightarrow> (p, x) \<notin> set ps"
  by (auto simp: ready_def)

definition parents_first :: "('a \<times> 'a) list \<Rightarrow> 'a list \<Rightarrow> bool" where
  "parents_first ps xs \<longleftrightarrow> (\<forall>i<length xs. \<forall>p. (p, xs ! i) \<in> set ps \<longrightarrow> p \<in> set (take i xs))"

lemma parents_first_snoc:
  "parents_first ps (xs @ [x]) \<longleftrightarrow> parents_first ps xs \<and> (\<forall>p. (p, x) \<in> set ps \<longrightarrow> p \<in> set xs)"
  by (auto simp: parents_first_def nth_append less_Suc_eq)

lemma topsort_loop_result:
  assumes "topo_state ps (set answer) np ch" and "distinct (answer @ todo)"
    and "set todo = {x. ready ps (set answer) x}" and "parents_first ps answer"
  shows "\<exists>xs np' ch'. topsort_loop answer todo np ch = Some (xs, np', ch') \<and>
    topo_state ps (set xs) np' ch' \<and> distinct xs \<and> parents_first ps xs \<and> (\<forall>x. \<not> ready ps (set xs) x)"
  using assms
proof (induction answer todo np ch rule: topsort_loop.induct)
  case (1 answer np ch)
  then show ?case by auto
next
  case (2 answer p todo np ch)
  note st = "2.prems"(1)
  let ?D = "set answer" and ?np = "AList.delete p np" and ?cs = "dict_get ch p []"
  have rp: "ready ps ?D p" using "2.prems"(3) by auto
  note step = topo_step [OF st rp]
  have D: "set (answer @ [p]) = insert p ?D" by simp
  have pf: "parents_first ps (answer @ [p])"
    using "2.prems"(4) rp by (auto simp: parents_first_snoc ready_def)
  have todo: "set todo = {x. x \<noteq> p \<and> ready ps ?D x}" using "2.prems"(2,3) by auto
  show ?case
  proof (cases "has_key ch p")
    case False
    then have "kids ps p = []" using step(2) kids_absent by metis
    then have nok: "(p, x) \<notin> set ps" for x using set_kids [of ps p] by auto
    have "set todo = {x. ready ps (set (answer @ [p])) x}"
      using todo ready_step [OF rp] nok by auto
    then have "\<exists>xs np' ch'. topsort_loop (answer @ [p]) todo ?np ch = Some (xs, np', ch') \<and>
        topo_state ps (set xs) np' ch' \<and> distinct xs \<and> parents_first ps xs \<and> (\<forall>x. \<not> ready ps (set xs) x)"
      using False step(1,5) "2.prems"(2) pf by (intro "2.IH"(2)) auto
    then show ?thesis using False step(1) by (simp add: Let_def)
  next
    case True
    obtain np' where np': "level_children ?np ?cs = Some np'"
        "topo_state ps (insert p ?D) np' (AList.delete p ch)" using step(4) by blast
    obtain extra where e: "knock_down ?np todo ?cs = Some (np', todo @ extra)" "distinct extra"
        "set extra = {c \<in> set ?cs. map_of ?np c = Some (int (count_list ?cs c))}"
      using knock_down_level [OF step(6) np'(1)] by blast
    have ex: "set extra = {x. (p, x) \<in> set ps \<and> ready ps (insert p ?D) x}"
      using e(3) step(3,7) by (auto simp: set_kids)
    have "set (todo @ extra) = {x. ready ps (set (answer @ [p])) x}"
      using todo ex ready_step [OF rp] by auto
    moreover have "distinct ((answer @ [p]) @ todo @ extra)"
    proof -
      have "x \<notin> set extra" if "x \<in> set todo" for x
        using that ready_not_kid [of ps ?D x p] rp todo ex by (auto simp: ready_def)
      moreover have "x \<notin> set extra" if "x \<in> insert p ?D" for x
        using that ex by (auto simp: ready_def)
      ultimately show ?thesis using "2.prems"(2) e(2) by auto
    qed
    ultimately have "\<exists>xs np'' ch''. topsort_loop (answer @ [p]) (todo @ extra) np' (AList.delete p ch) = Some (xs, np'', ch'') \<and>
        topo_state ps (set xs) np'' ch'' \<and> distinct xs \<and> parents_first ps xs \<and> (\<forall>x. \<not> ready ps (set xs) x)"
      using True step(1) e(1) np'(2) pf by (intro "2.IH"(1)) auto
    then show ?thesis using True step(1) e(1) by (simp add: Let_def)
  qed
qed

subsection \<open>What stays behind: the nodes below a cycle\<close>

definition cyclic_part :: "('a \<times> 'a) list \<Rightarrow> 'a set" where
  "cyclic_part ps = {x. \<exists>y. (y, y) \<in> (set ps)\<^sup>+ \<and> (y, x) \<in> (set ps)\<^sup>*}"

lemma acyclic_cyclic_part: "acyclic (set ps) \<longleftrightarrow> cyclic_part ps = {}"
  by (auto simp: acyclic_def cyclic_part_def)

lemma ancestors_of_stuck:
  assumes "finite R" and "\<forall>x\<in>R. \<exists>y\<in>R. (y, x) \<in> E" and "x \<in> R"
  shows "\<exists>y. (y, y) \<in> E\<^sup>+ \<and> (y, x) \<in> E\<^sup>*"
proof (rule ccontr)
  assume no: "\<not> ?thesis"
  define A where "A = {y \<in> R. (y, x) \<in> E\<^sup>*}"
  define F where "F = E \<inter> A \<times> A"
  have "finite F" using assms(1) by (auto simp: F_def A_def intro: finite_subset [of _ "R \<times> R"])
  moreover have "acyclic F"
  proof (rule acyclicI, intro allI notI)
    fix y
    assume y: "(y, y) \<in> F\<^sup>+"
    then have "(y, y) \<in> E\<^sup>+" by (rule trancl_mono) (simp add: F_def)
    moreover have "y \<in> A" using y by (induction rule: trancl_induct) (auto simp: F_def)
    ultimately show False using no by (auto simp: A_def)
  qed
  ultimately have "wf F" by (rule finite_acyclic_wf)
  moreover have "x \<in> A" using assms(3) by (simp add: A_def)
  ultimately obtain m where m: "m \<in> A" "\<And>y. (y, m) \<in> F \<Longrightarrow> y \<notin> A"
    by (metis wfE_min)
  obtain y where y: "y \<in> R" "(y, m) \<in> E" using m(1) assms(2) by (auto simp: A_def)
  have "(m, x) \<in> E\<^sup>*" using m(1) by (simp add: A_def)
  with y have "y \<in> A" by (simp add: A_def converse_rtrancl_into_rtrancl)
  moreover have "(y, m) \<in> F" using y(2) m(1) calculation by (simp add: F_def)
  ultimately show False using m(2) by blast
qed

lemma parents_first_index:
  assumes "parents_first ps xs" and "distinct xs" and "(y, x) \<in> (set ps)\<^sup>+" and "x \<in> set xs"
  shows "y \<in> set xs \<and> list_index y xs < list_index x xs"
proof -
  have step: "y \<in> set xs \<and> list_index y xs < list_index x xs"
    if "(y, x) \<in> set ps" "x \<in> set xs" for x y
  proof -
    let ?i = "list_index x xs"
    have "?i < length xs" "xs ! ?i = x" using that(2) by (simp_all add: list_index_less list_index_nth)
    then have "y \<in> set (take ?i xs)" using assms(1) that(1) by (auto simp: parents_first_def)
    then obtain j where j: "j < ?i" "j < length xs" "xs ! j = y" by (auto simp: in_set_conv_nth)
    then have "list_index y xs \<le> j" using list_index_first by (metis not_less)
    with j show ?thesis by (metis le_less_trans nth_mem)
  qed
  show ?thesis using assms(3,4)
  proof (induction rule: trancl_induct)
    case (step b c)
    then show ?case using \<open>\<And>y x. (y, x) \<in> set ps \<Longrightarrow> x \<in> set xs \<Longrightarrow> y \<in> set xs \<and> list_index y xs < list_index x xs\<close>
      by (meson less_trans)
  qed (use step in auto)
qed

lemma sorted_not_cyclic:
  assumes "parents_first ps xs" and "distinct xs" and "x \<in> set xs"
  shows "x \<notin> cyclic_part ps"
proof
  assume "x \<in> cyclic_part ps"
  then obtain y where y: "(y, y) \<in> (set ps)\<^sup>+" "(y, x) \<in> (set ps)\<^sup>*" by (auto simp: cyclic_part_def)
  then have "y \<in> set xs" using assms parents_first_index by (metis rtranclD)
  then show False using parents_first_index [OF assms(1,2) y(1)] by blast
qed

lemma stuck_cyclic:
  assumes "parents_first ps xs" and "distinct xs" and "set xs \<subseteq> nodes ps" and "\<forall>x. \<not> ready ps (set xs) x"
  shows "set xs = nodes ps - cyclic_part ps" and "nodes ps - set xs = cyclic_part ps"
proof -
  have "\<exists>y\<in>nodes ps - set xs. (y, x) \<in> set ps" if "x \<in> nodes ps - set xs" for x
    using that assms(4) by (auto simp: ready_def dest: pair_nodes)
  then have 1: "nodes ps - set xs \<subseteq> cyclic_part ps"
    using ancestors_of_stuck [of "nodes ps - set xs" "set ps"] by (auto simp: cyclic_part_def)
  have 2: "cyclic_part ps \<inter> set xs = {}" using sorted_not_cyclic [OF assms(1,2)] by blast
  have 3: "cyclic_part ps \<subseteq> nodes ps"
  proof
    fix x
    assume "x \<in> cyclic_part ps"
    then obtain y where "(y, y) \<in> (set ps)\<^sup>+" "(y, x) \<in> (set ps)\<^sup>*" by (auto simp: cyclic_part_def)
    then have "(y, x) \<in> (set ps)\<^sup>+" by simp
    then show "x \<in> nodes ps" by (induction rule: trancl_induct) (auto dest: pair_nodes)
  qed
  show "set xs = nodes ps - cyclic_part ps" "nodes ps - set xs = cyclic_part ps"
    using 1 2 3 assms(3) by auto
qed

lemma count_pairs_ready:
  assumes "key_order ko" and "count_pairs ps = (np, ch)"
  defines "xs \<equiv> filter (\<lambda>x. map_of np x = Some 0) (ko (dict_keys np))"
  shows "topo_state ps {} np ch" and "set xs = {x. ready ps {} x}" and "distinct xs"
proof -
  show st: "topo_state ps {} np ch" using count_pairs_state [of ps] assms(2) by simp
  then have np: "map_of np = (\<lambda>x. if x \<in> nodes ps - {} then Some (int (pend ps {} x)) else None)"
    and ok: "dict_ok np" by (simp_all add: topo_state_def)
  have "set (dict_keys np) = dom (map_of np)" by (simp add: dict_keys_def dom_map_of_conv_image_fst)
  then have "set (dict_keys np) = nodes ps" by (simp add: np dom_def)
  then show "set xs = {x. ready ps {} x}"
    using np assms(1) by (auto simp: xs_def key_order_set ready_pend)
  show "distinct xs" using ok assms(1) by (simp add: xs_def key_order_distinct dict_ok_def dict_keys_def)
qed

lemma topo_state_keys: "topo_state ps D np ch \<Longrightarrow> set (map fst np) = nodes ps - D"
proof -
  assume "topo_state ps D np ch"
  then have "dom (map_of np) = nodes ps - D" by (auto simp: topo_state_def split: if_splits)
  then show ?thesis by (simp add: dom_map_of_conv_image_fst)
qed

lemma topsort_result:
  assumes "key_order ko"
  shows "\<exists>xs np ch. topsort ko ps = (if np \<noteq> [] then Inl (CycleError xs np ch) else Inr xs) \<and>
    topo_state ps (set xs) np ch \<and> distinct xs \<and> parents_first ps xs \<and>
    set xs = nodes ps - cyclic_part ps \<and> set (map fst np) = cyclic_part ps"
proof -
  obtain np ch where c: "count_pairs ps = (np, ch)" by fastforce
  let ?xs = "filter (\<lambda>x. map_of np x = Some 0) (ko (dict_keys np))"
  note r = count_pairs_ready [OF assms c]
  have "parents_first ps []" by (simp add: parents_first_def)
  then obtain xs np' ch' where x: "topsort_loop [] ?xs np ch = Some (xs, np', ch')"
      "topo_state ps (set xs) np' ch'" "distinct xs" "parents_first ps xs" "\<forall>x. \<not> ready ps (set xs) x"
    using topsort_loop_result [of ps "[]" np ch ?xs] r by auto
  have "set xs \<subseteq> nodes ps" using x(2) by (simp add: topo_state_def)
  note s = stuck_cyclic [OF x(4,3) this x(5)]
  have "topsort ko ps = (if np' \<noteq> [] then Inl (CycleError xs np' ch') else Inr xs)"
    using x(1) c by (simp add: topsort_def)
  moreover have "set (map fst np') = cyclic_part ps"
    using topo_state_keys [OF x(2)] s(2) by (simp only:)
  ultimately show ?thesis using x(2-4) s(1) by blast
qed

text \<open>The levels.\<close>

lemma ready_insert: "ready ps D x \<Longrightarrow> x \<noteq> p \<Longrightarrow> ready ps (insert p D) x"
  by (auto simp: ready_def)

lemma level_step_result:
  assumes "topo_state ps D np ch" and "distinct xs" and "\<forall>x\<in>set xs. ready ps D x"
  shows "\<exists>np' ch'. level_step np ch xs = Some (np', ch') \<and> topo_state ps (set xs \<union> D) np' ch'"
  using assms
proof (induction xs arbitrary: D np ch)
  case (Cons p xs)
  note step = topo_step [OF Cons.prems(1), of p]
  have rp: "ready ps D p" using Cons.prems(3) by simp
  have r: "\<forall>x\<in>set xs. ready ps (insert p D) x"
    using Cons.prems(2,3) by (auto intro!: ready_insert)
  show ?case
  proof (cases "has_key ch p")
    case False
    then show ?thesis
      using Cons.IH [OF step(5) [OF rp False]] Cons.prems(2) r step(1) [OF rp] by (simp add: Let_def)
  next
    case True
    then obtain np' where "level_children (AList.delete p np) (dict_get ch p []) = Some np'"
        "topo_state ps (insert p D) np' (AList.delete p ch)" using step(4) [OF rp] by blast
    then show ?thesis
      using Cons.IH [of "insert p D" np' "AList.delete p ch"] Cons.prems(2) r step(1) [OF rp] True
      by (simp add: Let_def)
  qed
qed simp

text \<open>The levels of the specification: each holds the nodes whose parents are all above it.\<close>

fun layers :: "('a \<times> 'a) list \<Rightarrow> 'a set \<Rightarrow> 'a list list \<Rightarrow> bool" where
  "layers ps D [] \<longleftrightarrow> True"
| "layers ps D (l # ls) \<longleftrightarrow> l \<noteq> [] \<and> distinct l \<and> set l = {x. ready ps D x} \<and> layers ps (set l \<union> D) ls"

lemma layers_distinct: "layers ps D ls \<Longrightarrow> distinct (concat ls) \<and> set (concat ls) \<inter> D = {}"
proof (induction ls arbitrary: D)
  case (Cons l ls)
  have l: "distinct l" "set l \<inter> D = {}" using Cons.prems by (auto simp: ready_def)
  have "layers ps (set l \<union> D) ls" using Cons.prems unfolding layers.simps by blast
  from Cons.IH [OF this] have "distinct (concat ls)" "set (concat ls) \<inter> (set l \<union> D) = {}" by auto
  with l show ?case by (auto simp del: set_concat)
qed simp

lemma layers_nth:
  "layers ps D ls \<Longrightarrow> k < length ls \<Longrightarrow>
     set (ls ! k) = {x. ready ps (set (concat (take k ls)) \<union> D) x}"
proof (induction ls arbitrary: D k)
  case (Cons l ls)
  show ?case
  proof (cases k)
    case (Suc j)
    have "layers ps (set l \<union> D) ls" using Cons.prems(1) unfolding layers.simps by blast
    then have "set (ls ! j) = {x. ready ps (set (concat (take j ls)) \<union> (set l \<union> D)) x}"
      using Cons.prems(2) Suc by (intro Cons.IH) simp_all
    moreover have "set (concat (take k (l # ls))) \<union> D = set (concat (take j ls)) \<union> (set l \<union> D)"
      using Suc by auto
    ultimately show ?thesis using Suc by (simp only: nth_Cons_Suc)
  qed (use Cons.prems in simp)
qed simp

lemma levels_core_result:
  assumes "topo_state ps D np ch" and "key_order ko"
  shows "\<exists>ls np' ch'. topsort_levels_core ko np ch =
        (ls, if np' \<noteq> [] then Some (LevelCycleError np' ch') else None) \<and> layers ps D ls \<and>
     topo_state ps (set (concat ls) \<union> D) np' ch' \<and> (\<forall>x. \<not> ready ps (set (concat ls) \<union> D) x)"
  using assms
proof (induction ko np ch arbitrary: D rule: topsort_levels_core.induct)
  case (1 ko np ch)
  let ?xs = "filter (\<lambda>x. map_of np x = Some 0) (ko (dict_keys np))"
  have ok: "dict_ok np" and np: "map_of np = (\<lambda>x. if x \<in> nodes ps - D then Some (int (pend ps D x)) else None)"
    using "1.prems"(1) by (simp_all add: topo_state_def)
  have xs: "set ?xs = {x. ready ps D x}" "distinct ?xs"
    using ok "1.prems"(2) topo_state_keys [OF "1.prems"(1)] np
    by (auto simp: key_order_set key_order_distinct dict_ok_def dict_keys_def ready_pend simp del: set_map)
  show ?case
  proof (cases "?xs = []")
    case True
    then have "topsort_levels_core ko np ch = ([], if np \<noteq> [] then Some (LevelCycleError np ch) else None)"
      by (simp add: topsort_levels_core.simps [of ko np ch])
    moreover have "\<forall>x. \<not> ready ps D x" using xs(1) True by auto
    ultimately show ?thesis using "1.prems"(1)
      by (intro exI [of _ "[]"] exI [of _ np] exI [of _ ch]) simp
  next
    case False
    obtain np1 ch1 where s: "level_step np ch ?xs = Some (np1, ch1)" "topo_state ps (set ?xs \<union> D) np1 ch1"
      using level_step_result [OF "1.prems"(1) xs(2)] xs(1) by blast
    obtain ls np' ch' where ls: "topsort_levels_core ko np1 ch1 =
          (ls, if np' \<noteq> [] then Some (LevelCycleError np' ch') else None)" "layers ps (set ?xs \<union> D) ls"
        "topo_state ps (set (concat ls) \<union> (set ?xs \<union> D)) np' ch'"
        "\<forall>x. \<not> ready ps (set (concat ls) \<union> (set ?xs \<union> D)) x"
      using "1.IH" [OF refl False s(1) refl s(2) "1.prems"(2)] by blast
    have "topsort_levels_core ko np ch =
        (?xs # ls, if np' \<noteq> [] then Some (LevelCycleError np' ch') else None)"
      using False s(1) ls(1) by (subst topsort_levels_core.simps) (simp add: Let_def)
    moreover have "layers ps D (?xs # ls)" using False xs ls(2) by simp
    moreover have "set (concat (?xs # ls)) \<union> D = set (concat ls) \<union> (set ?xs \<union> D)" by auto
    ultimately show ?thesis using ls(3,4) by metis
  qed
qed

subsection \<open>\<^verbatim>\<open>find_cycles\<close>\<close>

text \<open>
  A stack of paths, each a list of nodes; the top of the stack is the end of the list, as
  in \<^verbatim>\<open>paths.pop()\<close> and \<^verbatim>\<open>paths.append\<close>. The yielded cycles are the list \<open>cycles\<close>.
\<close>

type_synonym 'a fc_state = "'a list list \<times> 'a set \<times> 'a list list"

fun fc_dup :: "'a list list \<Rightarrow> 'a list \<Rightarrow> bool res" where
  "fc_dup [] cycle = Inr False"
| "fc_dup (other_cycle # rest) cycle =
     rbind (is_rotated other_cycle cycle) (\<lambda>b. if b then Inr True else fc_dup rest cycle)"

fun fc_children :: "'a list \<Rightarrow> 'a fc_state \<Rightarrow> 'a list \<Rightarrow> 'a fc_state res" where
  "fc_children path st [] = Inr st"
| "fc_children path (cycles, visited_nodes, paths) (child # rest) =
     (if child \<in> set path then
        (let cycle = drop (list_index child path) path
         in rbind (fc_dup cycles cycle) (\<lambda>is_dup.
              fc_children path (if is_dup then cycles else cycles @ [cycle], visited_nodes, paths) rest))
      else fc_children path (cycles, insert child visited_nodes, paths @ [path @ [child]]) rest)"

definition gnodes :: "'a children \<Rightarrow> 'a set" where
  "gnodes g = set (map fst g) \<union> (\<Union>cs\<in>set (map snd g). set cs)"

lemma finite_gnodes [simp]: "finite (gnodes g)"
  by (simp add: gnodes_def)

lemma gnodes_child: "map_of g x = Some cs \<Longrightarrow> y \<in> set cs \<Longrightarrow> y \<in> gnodes g"
  by (force simp: gnodes_def dest: map_of_SomeD)

lemma fc_children_paths:
  assumes "fc_children path (c, v, ps) cs = Inr (c', v', ps')"
  shows "\<exists>new. ps' = ps @ map (\<lambda>x. path @ [x]) new \<and> set new \<subseteq> set cs - set path"
  using assms
proof (induction cs arbitrary: c v ps)
  case (Cons x cs)
  show ?case
  proof (cases "x \<in> set path")
    case True
    with Cons.prems obtain d where
      "fc_children path (if d then c else c @ [drop (list_index x path) path], v, ps) cs = Inr (c', v', ps')"
      by (auto simp: Let_def)
    from Cons.IH [OF this] show ?thesis by auto
  next
    case False
    with Cons.prems have "fc_children path (c, insert x v, ps @ [path @ [x]]) cs = Inr (c', v', ps')" by simp
    from Cons.IH [OF this] obtain new where
      "ps' = (ps @ [path @ [x]]) @ map (\<lambda>x. path @ [x]) new" "set new \<subseteq> set cs - set path" by blast
    with False show ?thesis by (intro exI [of _ "x # new"]) auto
  qed
qed simp

definition path_rank :: "'a children \<Rightarrow> 'a list list \<Rightarrow> nat multiset" where
  "path_rank g paths = image_mset (\<lambda>p. card (gnodes g - set p)) (mset paths)"

lemma path_rank_drop: "paths \<noteq> [] \<Longrightarrow> (path_rank g (butlast paths), path_rank g paths) \<in> mult less_than"
  by (cases paths rule: rev_cases) (auto simp: path_rank_def intro: one_step_implies_mult [of "{#_#}" "{#}", simplified])

lemma path_rank_push:
  assumes "paths \<noteq> []" and "set new \<subseteq> gnodes g - set (last paths)"
  shows "(path_rank g (butlast paths @ map (\<lambda>x. last paths @ [x]) new), path_rank g paths) \<in> mult less_than"
proof -
  let ?r = "\<lambda>p. card (gnodes g - set p)"
  have less: "?r (last paths @ [x]) < ?r (last paths)" if "x \<in> set new" for x
    using that assms(2) by (intro psubset_card_mono) auto
  have "mset paths = mset (butlast paths) + {#last paths#}"
    using assms(1) by (metis append_butlast_last_id mset_append mset_single_iff_right union_code mset.simps)
  then have old: "path_rank g paths = image_mset ?r (mset (butlast paths)) + {#?r (last paths)#}"
    by (simp add: path_rank_def)
  have "path_rank g (butlast paths @ map (\<lambda>x. last paths @ [x]) new) =
      image_mset ?r (mset (butlast paths)) + image_mset ?r (mset (map (\<lambda>x. last paths @ [x]) new))"
    by (simp add: path_rank_def)
  moreover have "(image_mset ?r (mset (butlast paths)) + image_mset ?r (mset (map (\<lambda>x. last paths @ [x]) new)),
      image_mset ?r (mset (butlast paths)) + {#?r (last paths)#}) \<in> mult less_than"
    using less by (intro one_step_implies_mult) auto
  ultimately show ?thesis by (simp only: old)
qed

function fc_while :: "'a children \<Rightarrow> 'a fc_state \<Rightarrow> ('a list list \<times> 'a set) res" where
  "fc_while parent_children (cycles, visited_nodes, paths) =
     (if paths = [] then Inr (cycles, visited_nodes)
      else let path = last paths in
        rbind (py_nth path (- 1)) (\<lambda>parent.
          case map_of parent_children parent of
            None \<Rightarrow> fc_while parent_children (cycles, visited_nodes, butlast paths)
          | Some children \<Rightarrow>
              rbind (fc_children path (cycles, visited_nodes, butlast paths) children)
                (\<lambda>st. fc_while parent_children st)))"
  by pat_completeness auto
termination
proof (relation "inv_image (mult less_than) (\<lambda>(g, c, v, paths). path_rank g paths)", goal_cases)
  case 1
  show ?case by (simp add: wf_mult)
next
  case (2 g c v paths path parent)
  then show ?case by (simp add: path_rank_drop)
next
  case (3 g c v paths path parent children st)
  obtain c' v' ps' where st: "st = (c', v', ps')" by (cases st)
  with 3 obtain new where "ps' = butlast paths @ map (\<lambda>x. path @ [x]) new" "set new \<subseteq> set children - set path"
    using fc_children_paths [of path c v "butlast paths" children c' v' ps'] by blast
  moreover have "set children \<subseteq> gnodes g" using 3 gnodes_child by fastforce
  ultimately show ?case using 3 st path_rank_push [of paths new g] by fastforce
qed

fun fc_for :: "'a children \<Rightarrow> 'a list list \<times> 'a set \<Rightarrow> 'a list \<Rightarrow> 'a list list res" where
  "fc_for parent_children (cycles, visited_nodes) [] = Inr cycles"
| "fc_for parent_children (cycles, visited_nodes) (parent # rest) =
     (if parent \<in> visited_nodes then fc_for parent_children (cycles, visited_nodes) rest
      else rbind (fc_while parent_children (cycles, visited_nodes, [[parent]]))
             (\<lambda>cv. fc_for parent_children cv rest))"

definition find_cycles :: "('a list \<Rightarrow> 'a list) \<Rightarrow> 'a children \<Rightarrow> 'a list list res" where
  "find_cycles ko parent_children = fc_for parent_children ([], {}) (ko (dict_keys parent_children))"

declare fc_while.simps [simp del]

text \<open>Paths and simple cycles of the graph that the dictionary stands for.\<close>

definition edge :: "'a children \<Rightarrow> 'a \<Rightarrow> 'a \<Rightarrow> bool" where
  "edge g x y \<longleftrightarrow> (\<exists>cs. map_of g x = Some cs \<and> y \<in> set cs)"

definition is_path :: "'a children \<Rightarrow> 'a list \<Rightarrow> bool" where
  "is_path g p \<longleftrightarrow> p \<noteq> [] \<and> distinct p \<and> successively (edge g) p"

definition is_cycle :: "'a children \<Rightarrow> 'a list \<Rightarrow> bool" where
  "is_cycle g c \<longleftrightarrow> is_path g c \<and> edge g (last c) (hd c)"

definition covered :: "'a list list \<Rightarrow> 'a list \<Rightarrow> bool" where
  "covered cs c \<longleftrightarrow> (\<exists>d\<in>set cs. \<exists>n. rotate n d = c)"

definition good_cycles :: "'a children \<Rightarrow> 'a list list \<Rightarrow> bool" where
  "good_cycles g cs \<longleftrightarrow> (\<forall>c\<in>set cs. is_cycle g c) \<and> sorted_wrt (\<lambda>c d. \<forall>n. rotate n c \<noteq> d) cs"

lemma covered_mono: "covered cs c \<Longrightarrow> set cs \<subseteq> set ds \<Longrightarrow> covered ds c"
  by (auto simp: covered_def)

lemma covered_rotate: "covered cs c \<Longrightarrow> covered cs (rotate n c)"
  unfolding covered_def by (metis rotate_rotate)

lemma fc_dup_covered: "c \<noteq> [] \<Longrightarrow> fc_dup cs c = Inr (covered cs c)"
  by (induction cs) (auto simp: is_rotated_rotate covered_def)

lemma path_cut:
  assumes "is_path g p" and "x \<in> set p"
  shows "is_path g (drop (list_index x p) p)" and "hd (drop (list_index x p) p) = x"
    and "last (drop (list_index x p) p) = last p"
proof -
  let ?i = "list_index x p"
  have i: "?i < length p" "p ! ?i = x" using assms(2) by (simp_all add: list_index_less list_index_nth)
  show "hd (drop ?i p) = x" using i by (simp add: hd_drop_conv_nth)
  show "last (drop ?i p) = last p" using i by simp
  have "successively (edge g) (take ?i p @ drop ?i p)" using assms(1) by (simp add: is_path_def)
  then have "successively (edge g) (drop ?i p)" by (simp only: successively_append_iff)
  then show "is_path g (drop ?i p)" using assms(1) i by (auto simp: is_path_def)
qed

lemma path_extend:
  assumes "is_path g p" and "edge g (last p) x" and "x \<notin> set p"
  shows "is_path g (p @ [x])"
  using assms by (auto simp: is_path_def successively_append_iff)

text \<open>What one pass over the children of a path's last node does.\<close>

lemma fc_children_result:
  assumes "is_path g path" and "\<forall>x\<in>set cs. edge g (last path) x" and "good_cycles g C"
  shows "\<exists>C' new. fc_children path (C, V, P) cs = Inr (C', V \<union> set new, P @ map (\<lambda>x. path @ [x]) new) \<and>
     set new = set cs - set path \<and> set C \<subseteq> set C' \<and> good_cycles g C' \<and>
     (\<forall>x\<in>set cs \<inter> set path. covered C' (drop (list_index x path) path))"
  using assms
proof (induction cs arbitrary: C V P)
  case (Cons x cs)
  show ?case
  proof (cases "x \<in> set path")
    case False
    have "\<exists>C' new. fc_children path (C, insert x V, P @ [path @ [x]]) cs =
          Inr (C', insert x V \<union> set new, (P @ [path @ [x]]) @ map (\<lambda>x. path @ [x]) new) \<and>
        set new = set cs - set path \<and> set C \<subseteq> set C' \<and> good_cycles g C' \<and>
        (\<forall>x\<in>set cs \<inter> set path. covered C' (drop (list_index x path) path))"
      using Cons.prems by (intro Cons.IH) auto
    then obtain C' new where n: "fc_children path (C, insert x V, P @ [path @ [x]]) cs =
          Inr (C', insert x V \<union> set new, (P @ [path @ [x]]) @ map (\<lambda>x. path @ [x]) new)"
        "set new = set cs - set path" "set C \<subseteq> set C'" "good_cycles g C'"
        "\<forall>x\<in>set cs \<inter> set path. covered C' (drop (list_index x path) path)" by blast
    with False show ?thesis by (intro exI [of _ C'] exI [of _ "x # new"]) auto
  next
    case True
    let ?c = "drop (list_index x path) path"
    let ?D = "if covered C ?c then C else C @ [?c]"
    have c: "is_cycle g ?c"
      using path_cut [OF Cons.prems(1) True] Cons.prems(2) by (simp add: is_cycle_def)
    then have ne: "?c \<noteq> []" by (auto simp: is_cycle_def is_path_def)
    have good: "good_cycles g ?D"
      using Cons.prems(3) c by (auto simp: good_cycles_def covered_def sorted_wrt_append)
    have cov: "covered ?D ?c"
      by (auto simp: covered_def intro: exI [of _ "0::nat"])
    have "\<exists>C' new. fc_children path (?D, V, P) cs = Inr (C', V \<union> set new, P @ map (\<lambda>x. path @ [x]) new) \<and>
        set new = set cs - set path \<and> set ?D \<subseteq> set C' \<and> good_cycles g C' \<and>
        (\<forall>x\<in>set cs \<inter> set path. covered C' (drop (list_index x path) path))"
      using Cons.prems good by (intro Cons.IH) auto
    then obtain C' new where n: "fc_children path (?D, V, P) cs =
          Inr (C', V \<union> set new, P @ map (\<lambda>x. path @ [x]) new)"
        "set new = set cs - set path" "set ?D \<subseteq> set C'" "good_cycles g C'"
        "\<forall>x\<in>set cs \<inter> set path. covered C' (drop (list_index x path) path)" by blast
    have "fc_children path (C, V, P) (x # cs) = fc_children path (?D, V, P) cs"
      using True fc_dup_covered [OF ne] by (simp add: Let_def)
    moreover have "set C \<subseteq> set C'" using n(3) by (auto split: if_splits)
    moreover have "covered C' ?c" using cov n(3) covered_mono by blast
    ultimately show ?thesis using n True by (intro exI [of _ C'] exI [of _ new]) auto
  qed
qed (auto intro!: exI [of _ "[]"])

text \<open>A path is settled when every cycle it closes has been yielded.\<close>

definition settled :: "'a children \<Rightarrow> 'a list list \<Rightarrow> 'a list \<Rightarrow> bool" where
  "settled g C p \<longleftrightarrow> (\<forall>x. edge g (last p) x \<longrightarrow> x \<in> set p \<longrightarrow> covered C (drop (list_index x p) p))"

lemma settled_mono: "settled g C p \<Longrightarrow> set C \<subseteq> set D \<Longrightarrow> settled g D p"
  using covered_mono by (fastforce simp: settled_def)

definition all_settled :: "'a children \<Rightarrow> 'a list list \<Rightarrow> 'a list \<Rightarrow> bool" where
  "all_settled g C p \<longleftrightarrow> (\<forall>r. is_path g (p @ r) \<longrightarrow> settled g C (p @ r))"

lemma all_settled_mono: "all_settled g C p \<Longrightarrow> set C \<subseteq> set D \<Longrightarrow> all_settled g D p"
  using settled_mono by (fastforce simp: all_settled_def)

definition reaches :: "'a children \<Rightarrow> 'a \<Rightarrow> 'a \<Rightarrow> bool" where
  "reaches g = (edge g)\<^sup>*\<^sup>*"

lemma path_next:
  assumes "is_path g (p @ x # r)" and "p \<noteq> []"
  shows "edge g (last p) x" and "x \<notin> set p"
  using assms by (auto simp: is_path_def successively_append_iff)

lemma fc_while_result:
  assumes "good_cycles g C" and "\<forall>p\<in>set P. is_path g p \<and> reaches g a (last p)"
  shows "\<exists>C' V'. fc_while g (C, V, P) = Inr (C', V \<union> V') \<and> good_cycles g C' \<and> set C \<subseteq> set C' \<and>
    (\<forall>x\<in>V'. reaches g a x) \<and> (\<forall>p\<in>set P. all_settled g C' p)"
  using assms
proof (induction g "(C, V, P)" arbitrary: C V P rule: fc_while.induct)
  case (1 g C V P)
  show ?case
  proof (cases "P = []")
    case True
    with "1.prems" show ?thesis
      by (subst fc_while.simps) (auto intro!: exI [of _ C] exI [of _ "{}"])
  next
    case False
    let ?p = "last P"
    have p: "is_path g ?p" "reaches g a (last ?p)" using "1.prems"(2) False by auto
    then have ne: "?p \<noteq> []" by (simp add: is_path_def)
    have rest: "\<forall>p\<in>set (butlast P). is_path g p \<and> reaches g a (last p)"
      using "1.prems"(2) by (auto dest: in_set_butlastD)
    have nth: "py_nth ?p (- 1) = Inr (last ?p)" using ne by (simp add: py_nth_last)
    have setP: "set P = insert ?p (set (butlast P))"
      using False by (metis append_butlast_last_id list.simps(15) rotate1.simps(2) set_rotate1)
    show ?thesis
    proof (cases "map_of g (last ?p)")
      case None
      obtain C' V' where r: "fc_while g (C, V, butlast P) = Inr (C', V \<union> V')" "good_cycles g C'"
          "set C \<subseteq> set C'" "\<forall>x\<in>V'. reaches g a x" "\<forall>p\<in>set (butlast P). all_settled g C' p"
        using "1.hyps"(1) [OF False refl nth None] "1.prems"(1) rest by blast
      have "r = []" if "is_path g (?p @ r)" for r
        using that path_next(1) [of g ?p] ne None by (cases r) (auto simp: edge_def)
      then have "all_settled g C' ?p" using None by (auto simp: all_settled_def settled_def edge_def)
      moreover have "fc_while g (C, V, P) = fc_while g (C, V, butlast P)"
        using False nth None by (subst fc_while.simps) (simp add: Let_def)
      ultimately show ?thesis using r setP by auto
    next
      case (Some cs)
      have e: "\<forall>x\<in>set cs. edge g (last ?p) x" and e2: "edge g (last ?p) x \<Longrightarrow> x \<in> set cs" for x
        using Some by (auto simp: edge_def)
      obtain C1 new where c: "fc_children ?p (C, V, butlast P) cs =
            Inr (C1, V \<union> set new, butlast P @ map (\<lambda>x. ?p @ [x]) new)"
          "set new = set cs - set ?p" "set C \<subseteq> set C1" "good_cycles g C1"
          "\<forall>x\<in>set cs \<inter> set ?p. covered C1 (drop (list_index x ?p) ?p)"
        using fc_children_result [OF p(1) e "1.prems"(1)] by blast
      let ?P = "butlast P @ map (\<lambda>x. ?p @ [x]) new"
      have new: "is_path g (?p @ [x]) \<and> reaches g a x" if "x \<in> set new" for x
        using that c(2) e p path_extend [of g ?p x] by (auto simp: reaches_def)
      then have "\<forall>p\<in>set ?P. is_path g p \<and> reaches g a (last p)" using rest by auto
      then obtain C' V' where r: "fc_while g (C1, V \<union> set new, ?P) = Inr (C', (V \<union> set new) \<union> V')"
          "good_cycles g C'" "set C1 \<subseteq> set C'" "\<forall>x\<in>V'. reaches g a x" "\<forall>p\<in>set ?P. all_settled g C' p"
        using "1.hyps"(2) [OF False refl nth Some c(1) c(4)] by blast
      have "settled g C' (?p @ r)" if pr: "is_path g (?p @ r)" for r
      proof (cases r)
        case Nil
        then show ?thesis using c(5) r(3) covered_mono e2 by (fastforce simp: settled_def)
      next
        case r': (Cons x s)
        have "x \<in> set new" using path_next [of g ?p x s] pr r' ne c(2) e2 by simp
        then have "all_settled g C' (?p @ [x])" using r(5) by simp
        then show ?thesis using pr r' by (simp add: all_settled_def)
      qed
      then have "all_settled g C' ?p" by (simp add: all_settled_def)
      moreover have "fc_while g (C, V, P) = fc_while g (C1, V \<union> set new, ?P)"
        using False nth Some c(1) by (subst fc_while.simps) (simp add: Let_def)
      moreover have "\<forall>x\<in>set new \<union> V'. reaches g a x" using new r(4) by auto
      moreover have "\<forall>p\<in>set P. all_settled g C' p" using r(5) setP calculation(1) by simp
      moreover have "set C \<subseteq> set C'" using r(3) c(3) by blast
      ultimately show ?thesis using r(1,2) by (metis Un_assoc)
    qed
  qed
qed

lemma path_into:
  assumes "reaches g a y" and "y \<in> S"
  shows "\<exists>q z. is_path g (q @ [z]) \<and> hd (q @ [z]) = a \<and> z \<in> S \<and> set q \<inter> S = {}"
  using assms(1) unfolding reaches_def
proof (induction rule: converse_rtranclp_induct)
  case base
  show ?case using assms(2) by (intro exI [of _ "[]"] exI [of _ y]) (simp add: is_path_def)
next
  case (step a b)
  then obtain q z where q: "is_path g (q @ [z])" "hd (q @ [z]) = b" "z \<in> S" "set q \<inter> S = {}" by blast
  consider "a \<in> S" | "a \<notin> S" "a \<in> set q" | "a \<notin> S" "a \<notin> set (q @ [z])"
    using q(3) by auto
  then show ?case
  proof cases
    case 1
    then show ?thesis by (intro exI [of _ "[]"] exI [of _ a]) (simp add: is_path_def)
  next
    case 2
    let ?i = "list_index a q"
    have "list_index a (q @ [z]) = ?i" using 2(2) by (induction q) auto
    moreover have "?i \<le> length q" using 2(2) list_index_less less_imp_le by metis
    ultimately have "drop (list_index a (q @ [z])) (q @ [z]) = drop ?i q @ [z]" by simp
    then have "is_path g (drop ?i q @ [z])" "hd (drop ?i q @ [z]) = a"
      using path_cut(1,2) [of g "q @ [z]" a] q(1) 2(2) by simp_all
    moreover have "set (drop ?i q) \<inter> S = {}" using q(4) set_drop_subset [of ?i q] by blast
    ultimately show ?thesis using q(3) by blast
  next
    case 3
    have "is_path g ((a # q) @ [z])"
      using q(1,2) step.hyps(1) 3(2) by (auto simp: is_path_def successively_Cons)
    then show ?thesis using q(3,4) 3(1) by (intro exI [of _ "a # q"] exI [of _ z]) auto
  qed
qed

lemma cycle_rotated:
  assumes "is_cycle g (u @ z # v)"
  shows "is_path g (z # v @ u)" and "edge g (last (z # v @ u)) z"
proof -
  have s: "successively (edge g) u" "successively (edge g) (z # v)" "u \<noteq> [] \<Longrightarrow> edge g (last u) z"
    and d: "distinct (u @ z # v)" and e: "edge g (last (z # v)) (hd (u @ z # v))"
    using assms by (auto simp: is_cycle_def is_path_def successively_append_iff)
  have "u \<noteq> [] \<Longrightarrow> edge g (last (z # v)) (hd u)" using e by simp
  then have "successively (edge g) ((z # v) @ u)"
    using s(1,2) unfolding successively_append_iff by blast
  then show "is_path g (z # v @ u)" using d by (auto simp: is_path_def)
  show "edge g (last (z # v @ u)) z"
  proof (cases "u = []")
    case True
    then show ?thesis using e by simp
  next
    case False
    then show ?thesis using s(3) by simp
  qed
qed

lemma settled_covers:
  assumes "all_settled g C [a]" and "is_cycle g c" and "reaches g a y" and "y \<in> set c"
  shows "covered C c"
proof -
  obtain q z where q: "is_path g (q @ [z])" "hd (q @ [z]) = a" "z \<in> set c" "set q \<inter> set c = {}"
    using path_into [OF assms(3,4)] by blast
  obtain u v where c: "c = u @ z # v" using q(3) by (meson split_list)
  let ?c = "z # v @ u"
  have cyc: "is_path g ?c" "edge g (last ?c) z" using cycle_rotated [of g u z v] assms(2) c by simp_all
  have "is_path g (q @ ?c)"
    using q(1,4) cyc(1) c by (auto simp: is_path_def successively_append_iff)
  moreover have "q @ ?c = [a] @ tl (q @ ?c)"
    using q(2) by (cases q) auto
  ultimately have "settled g C (q @ ?c)" using assms(1) by (metis all_settled_def)
  moreover have "last (q @ ?c) = last ?c" by (simp only: last_append) simp
  ultimately have "covered C (drop (list_index z (q @ ?c)) (q @ ?c))"
    using cyc(2) by (auto simp: settled_def simp del: last_append)
  moreover have "z \<notin> set q" using q(3,4) by auto
  then have "list_index z (q @ ?c) = length q" by (rule list_index_append)
  ultimately have "covered C ?c" by simp
  then have "covered C (rotate (length (z # v)) (z # v @ u))" by (rule covered_rotate)
  moreover have "rotate (length (z # v)) ((z # v) @ u) = u @ z # v" by (simp only: rotate_append)
  ultimately show ?thesis using c by simp
qed

definition found :: "'a children \<Rightarrow> 'a list list \<Rightarrow> 'a \<Rightarrow> bool" where
  "found g C a \<longleftrightarrow> (\<forall>c y. is_cycle g c \<longrightarrow> reaches g a y \<longrightarrow> y \<in> set c \<longrightarrow> covered C c)"

lemma found_mono: "found g C a \<Longrightarrow> set C \<subseteq> set D \<Longrightarrow> found g D a"
  using covered_mono by (fastforce simp: found_def)

lemma found_reaches: "found g C a \<Longrightarrow> reaches g a b \<Longrightarrow> found g C b"
  unfolding found_def reaches_def by (meson rtranclp_trans)

lemma fc_for_result:
  assumes "good_cycles g C" and "\<forall>x\<in>V. found g C x"
  shows "\<exists>C'. fc_for g (C, V) ks = Inr C' \<and> good_cycles g C' \<and> set C \<subseteq> set C' \<and> (\<forall>x\<in>set ks. found g C' x)"
  using assms
proof (induction ks arbitrary: C V)
  case (Cons a ks)
  show ?case
  proof (cases "a \<in> V")
    case True
    obtain C' where r: "fc_for g (C, V) ks = Inr C'" "good_cycles g C'" "set C \<subseteq> set C'"
        "\<forall>x\<in>set ks. found g C' x" using Cons.IH [OF Cons.prems] by blast
    moreover have "found g C' a" using True Cons.prems(2) found_mono [OF _ r(3)] by simp
    moreover have "fc_for g (C, V) (a # ks) = Inr C'" using True r(1) by simp
    ultimately show ?thesis by (metis set_ConsD)
  next
    case False
    have "\<forall>p\<in>set [[a]]. is_path g p \<and> reaches g a (last p)"
      by (simp add: is_path_def reaches_def)
    from fc_while_result [OF Cons.prems(1) this, of V]
    obtain C1 V1 where w: "fc_while g (C, V, [[a]]) = Inr (C1, V \<union> V1)" "good_cycles g C1" "set C \<subseteq> set C1"
        "\<forall>x\<in>V1. reaches g a x" "\<forall>p\<in>set [[a]]. all_settled g C1 p" by blast
    have "all_settled g C1 [a]" using w(5) by simp
    then have a: "found g C1 a" using settled_covers by (fastforce simp: found_def)
    then have "\<forall>x\<in>V \<union> V1. found g C1 x" using w(4) Cons.prems(2) found_mono [OF _ w(3)] found_reaches [OF a] by auto
    from Cons.IH [OF w(2) this]
    obtain C' where r: "fc_for g (C1, V \<union> V1) ks = Inr C'" "good_cycles g C'" "set C1 \<subseteq> set C'"
        "\<forall>x\<in>set ks. found g C' x" by blast
    have "fc_for g (C, V) (a # ks) = Inr C'" using False w(1) r(1) by simp
    moreover have "found g C' a" using a by (rule found_mono) (rule r(3))
    ultimately show ?thesis using r(2,4) w(3) r(3) by (metis set_ConsD subset_trans)
  qed
qed auto

lemma find_cycles_result:
  assumes "key_order ko"
  shows "\<exists>cs. find_cycles ko g = Inr cs \<and> good_cycles g cs \<and> (\<forall>c. is_cycle g c \<longrightarrow> covered cs c)"
proof -
  have "good_cycles g []" by (simp add: good_cycles_def)
  then obtain cs where cs: "find_cycles ko g = Inr cs" "good_cycles g cs"
      "\<forall>x\<in>set (ko (dict_keys g)). found g cs x"
    using fc_for_result [of g "[]" "{}" "ko (dict_keys g)"] by (auto simp: find_cycles_def)
  have "covered cs c" if "is_cycle g c" for c
  proof -
    have "edge g (last c) (hd c)" using that by (simp add: is_cycle_def)
    then have "last c \<in> set (dict_keys g)" by (force simp: edge_def dict_keys_def dest: map_of_SomeD)
    moreover have "last c \<in> set c" using that by (simp add: is_cycle_def is_path_def)
    ultimately show ?thesis
      using cs(3) that assms by (auto simp: found_def key_order_set reaches_def)
  qed
  with cs(1,2) show ?thesis by blast
qed

subsection \<open>The interface of a dependency sort\<close>

text \<open>
  What a client of the module may rely on: a result lists every node once with the parents
  first, and acyclic pairs get one. The first argument is the dictionary order.
\<close>

locale topo_sorter =
  fixes valid :: "'o \<Rightarrow> bool" and sort :: "'o \<Rightarrow> ('a \<times> 'a) list \<Rightarrow> 'e + 'a list"
  assumes sort_sound: "valid ko \<Longrightarrow> sort ko ps = Inr xs \<Longrightarrow>
      distinct xs \<and> set xs = nodes ps \<and> parents_first ps xs"
    and sort_complete: "valid ko \<Longrightarrow> acyclic (set ps) \<Longrightarrow> \<exists>xs. sort ko ps = Inr xs"
begin

lemma sorts_iff_acyclic: "valid ko \<Longrightarrow> (\<exists>xs. sort ko ps = Inr xs) \<longleftrightarrow> acyclic (set ps)"
proof
  assume v: "valid ko" and "\<exists>xs. sort ko ps = Inr xs"
  then obtain xs where xs: "distinct xs" "set xs = nodes ps" "parents_first ps xs" using sort_sound by blast
  have "cyclic_part ps \<subseteq> nodes ps"
  proof
    fix x
    assume "x \<in> cyclic_part ps"
    then obtain y where "(y, x) \<in> (set ps)\<^sup>+" unfolding cyclic_part_def by (blast intro: trancl_rtrancl_trancl)
    then show "x \<in> nodes ps" by (induction rule: trancl_induct) (auto dest: pair_nodes)
  qed
  then show "acyclic (set ps)"
    using sorted_not_cyclic [OF xs(3,1)] xs(2) by (auto simp: acyclic_cyclic_part)
qed (rule sort_complete)

lemma ancestors_before:
  assumes "valid ko" and "sort ko ps = Inr xs" and "(a, b) \<in> (set ps)\<^sup>+"
  shows "a \<in> set xs" and "b \<in> set xs" and "list_index a xs < list_index b xs"
proof -
  note xs = sort_sound [OF assms(1,2)]
  have "b \<in> nodes ps" using assms(3) by (induction rule: trancl_induct) (auto dest: pair_nodes)
  with xs show "b \<in> set xs" by simp
  then show "a \<in> set xs" "list_index a xs < list_index b xs"
    using parents_first_index [of ps xs a b] xs assms(3) by blast+
qed

lemma descendants_after:
  assumes "valid ko" and "sort ko ps = Inr (us @ a # vs)" and "(a, b) \<in> (set ps)\<^sup>+"
  shows "b \<in> set vs"
proof -
  have d: "distinct (us @ a # vs)" using sort_sound [OF assms(1,2)] by blast
  have "b \<in> set (us @ a # vs)" and less: "list_index a (us @ a # vs) < list_index b (us @ a # vs)"
    using ancestors_before [OF assms] by blast+
  moreover have "list_index a (us @ a # vs) = length us" using d by (intro list_index_append) auto
  moreover have "list_index b (us @ a # vs) < length us" if "b \<in> set us"
    using that by (induction us) auto
  ultimately show ?thesis by auto
qed

end

interpretation ts: topo_sorter key_order topsort
proof
  fix ko :: "'a list \<Rightarrow> 'a list" and ps xs
  assume v: "key_order ko"
  from topsort_result [OF v, of ps] obtain ys np ch where
    r: "topsort ko ps = (if np \<noteq> [] then Inl (CycleError ys np ch) else Inr ys)" "distinct ys"
      "parents_first ps ys" "set ys = nodes ps - cyclic_part ps" "set (map fst np) = cyclic_part ps" by blast
  show "distinct xs \<and> set xs = nodes ps \<and> parents_first ps xs" if "topsort ko ps = Inr xs"
    using that r by (auto split: if_splits)
  show "\<exists>xs. topsort ko ps = Inr xs" if "acyclic (set ps)"
    using that r by (auto simp: acyclic_cyclic_part)
qed

text \<open>The levels, read one after the other, are a second dependency sort.\<close>

definition levels_sort :: "('a list \<Rightarrow> 'a list) \<Rightarrow> ('a \<times> 'a) list \<Rightarrow> 'a sort_exc + 'a list" where
  "levels_sort ko ps =
     (case topsort_levels ko ps of (ls, None) \<Rightarrow> Inr (concat ls) | (ls, Some e) \<Rightarrow> Inl e)"

lemma layers_parents_first:
  assumes "layers ps (set xs) ls" and "parents_first ps xs"
  shows "parents_first ps (xs @ concat ls)"
  using assms
proof (induction ls arbitrary: xs)
  case (Cons l ls)
  have l: "\<forall>x\<in>set l. \<forall>p. (p, x) \<in> set ps \<longrightarrow> p \<in> set xs" using Cons.prems(1) by (auto simp: ready_def)
  have "parents_first ps (xs @ l)"
    using l by (induction l rule: rev_induct)
      (auto simp: Cons.prems(2) parents_first_snoc simp flip: append_assoc)
  moreover have "layers ps (set (xs @ l)) ls"
    using Cons.prems(1) unfolding layers.simps by (metis Un_commute set_append)
  ultimately show ?case using Cons.IH [of "xs @ l"] by simp
qed simp

lemma topsort_levels_result:
  assumes "key_order ko"
  shows "\<exists>ls np ch. topsort_levels ko ps = (ls, if np \<noteq> [] then Some (LevelCycleError np ch) else None) \<and>
    layers ps {} ls \<and> distinct (concat ls) \<and> parents_first ps (concat ls) \<and>
    set (concat ls) = nodes ps - cyclic_part ps \<and> set (map fst np) = cyclic_part ps"
proof -
  obtain np ch where c: "count_pairs ps = (np, ch)" by fastforce
  obtain ls np' ch' where r: "topsort_levels_core ko np ch =
        (ls, if np' \<noteq> [] then Some (LevelCycleError np' ch') else None)" "layers ps {} ls"
      "topo_state ps (set (concat ls) \<union> {}) np' ch'" "\<forall>x. \<not> ready ps (set (concat ls) \<union> {}) x"
    using levels_core_result [OF count_pairs_ready(1) [OF assms c] assms] by blast
  have pf: "parents_first ps (concat ls)"
    using layers_parents_first [of ps "[]" ls] r(2) by (simp add: parents_first_def)
  have d: "distinct (concat ls)" using layers_distinct [OF r(2)] by blast
  note st = r(3) [unfolded Un_empty_right] and nr = r(4) [unfolded Un_empty_right]
  have "set (concat ls) \<subseteq> nodes ps" using st by (simp add: topo_state_def)
  note s = stuck_cyclic [OF pf d this nr]
  have "set (map fst np') = cyclic_part ps"
    using topo_state_keys [OF st] s(2) by (simp only:)
  moreover have "topsort_levels ko ps = (ls, if np' \<noteq> [] then Some (LevelCycleError np' ch') else None)"
    using r(1) c by (simp add: topsort_levels_def)
  ultimately show ?thesis using r(2) d pf s(1) by blast
qed

interpretation lv: topo_sorter key_order levels_sort
proof
  fix ko :: "'a list \<Rightarrow> 'a list" and ps xs
  assume v: "key_order ko"
  from topsort_levels_result [OF v, of ps] obtain ls np ch where
    r: "topsort_levels ko ps = (ls, if np \<noteq> [] then Some (LevelCycleError np ch) else None)"
      "distinct (concat ls)" "parents_first ps (concat ls)" "set (concat ls) = nodes ps - cyclic_part ps"
      "set (map fst np) = cyclic_part ps" by blast
  have l: "levels_sort ko ps = (if np \<noteq> [] then Inl (LevelCycleError np ch) else Inr (concat ls))"
    by (simp add: levels_sort_def r(1))
  show "distinct xs \<and> set xs = nodes ps \<and> parents_first ps xs" if "levels_sort ko ps = Inr xs"
  proof -
    have "np = []" "xs = concat ls" using that l by (simp_all split: if_splits)
    moreover have "cyclic_part ps = {}" using r(5) calculation(1) by simp
    ultimately show ?thesis using r(2-4) by (simp del: set_concat)
  qed
  show "\<exists>xs. levels_sort ko ps = Inr xs" if "acyclic (set ps)"
    using that r(5) l by (auto simp: acyclic_cyclic_part)
qed

subsection \<open>Properties\<close>

text \<open>
  C5. \<^verbatim>\<open>topsort\<close> returns exactly for acyclic pairs, and then lists
  every element once with all its parents before it. For cyclic pairs the \<^verbatim>\<open>CycleError\<close>
  carries the elements that could be sorted and, as the keys of its second part, exactly
  the elements on or below a cycle. The KeyError of the counter dictionary never happens.
\<close>

theorem topsort_correct:
  assumes "key_order ko"
  shows "case topsort ko ps of
      Inr xs \<Rightarrow> acyclic (set ps) \<and> distinct xs \<and> set xs = nodes ps \<and> parents_first ps xs
    | Inl (CycleError xs np ch) \<Rightarrow> \<not> acyclic (set ps) \<and> distinct xs \<and> parents_first ps xs \<and>
        set xs = nodes ps - cyclic_part ps \<and> set (map fst np) = cyclic_part ps
    | _ \<Rightarrow> False"
proof -
  obtain xs np ch where
    r: "topsort ko ps = (if np \<noteq> [] then Inl (CycleError xs np ch) else Inr xs)" "distinct xs"
      "parents_first ps xs" "set xs = nodes ps - cyclic_part ps" "set (map fst np) = cyclic_part ps"
    using topsort_result [OF assms, of ps] by blast
  show ?thesis
  proof (cases "np = []")
    case True
    then have "cyclic_part ps = {}" using r(5) by simp
    with True r show ?thesis by (simp add: acyclic_cyclic_part)
  next
    case False
    then have "cyclic_part ps \<noteq> {}" using r(5) by auto
    with False r show ?thesis by (simp add: acyclic_cyclic_part del: set_map)
  qed
qed

theorem topsort_correct_witness:
  "topsort rev [(1::nat, 2), (3, 4), (1, 3)] = Inr [1, 2, 3, 4] \<and>
   acyclic (set [(1::nat, 2), (3, 4), (1, 3)]) \<and> parents_first [(1::nat, 2), (3, 4), (1, 3)] [1, 2, 3, 4]"
proof -
  have "topsort rev [(1::nat, 2), (3, 4), (1, 3)] = Inr [1, 2, 3, 4]" by code_simp
  then show ?thesis
    using topsort_correct [OF key_order_rev, of "[(1::nat, 2), (3, 4), (1, 3)]"] by (simp del: set_simps)
qed

text \<open>
  C28. The levels are the depths of the graph: level \<open>k\<close> holds exactly
  the elements whose parents all lie in earlier levels and that are in none of these, no level
  is empty, the levels together are the elements above every cycle, and the generator ends
  with an error exactly when there is a cycle.
\<close>

theorem topsort_levels_correct:
  assumes "key_order ko"
  shows "\<exists>ls e. topsort_levels ko ps = (ls, e) \<and> (e = None \<longleftrightarrow> acyclic (set ps)) \<and>
    (\<forall>k<length ls. ls ! k \<noteq> [] \<and>
      set (ls ! k) = {x. x \<in> nodes ps \<and> x \<notin> set (concat (take k ls)) \<and>
                        (\<forall>p. (p, x) \<in> set ps \<longrightarrow> p \<in> set (concat (take k ls)))}) \<and>
    distinct (concat ls) \<and> set (concat ls) = nodes ps - cyclic_part ps"
proof -
  obtain ls np ch where
    r: "topsort_levels ko ps = (ls, if np \<noteq> [] then Some (LevelCycleError np ch) else None)"
      "layers ps {} ls" "distinct (concat ls)" "set (concat ls) = nodes ps - cyclic_part ps"
      "set (map fst np) = cyclic_part ps"
    using topsort_levels_result [OF assms, of ps] by blast
  have nonempty: "layers ps D ls \<Longrightarrow> k < length ls \<Longrightarrow> ls ! k \<noteq> []" for D ls k
  proof (induction ls arbitrary: D k)
    case (Cons l ls)
    then show ?case by (cases k) auto
  qed simp
  have "np = [] \<longleftrightarrow> acyclic (set ps)"
    using r(5) acyclic_cyclic_part by (metis dict_empty_keys)
  moreover have "set (ls ! k) = {x. x \<in> nodes ps \<and> x \<notin> set (concat (take k ls)) \<and>
      (\<forall>p. (p, x) \<in> set ps \<longrightarrow> p \<in> set (concat (take k ls)))}" if "k < length ls" for k
    using layers_nth [OF r(2) that] by (simp only: ready_def Un_empty_right)
  moreover have "ls ! k \<noteq> []" if "k < length ls" for k by (rule nonempty [OF r(2) that])
  ultimately show ?thesis using r(1,3,4)
    by (intro exI [of _ ls] exI [of _ "if np \<noteq> [] then Some (LevelCycleError np ch) else None"])
      (simp del: set_concat)
qed

theorem topsort_levels_correct_witness:
  "key_order rev \<and> (\<exists>ls e. topsort_levels rev [(1::nat, 2), (2, 3), (3, 2)] = (ls, e) \<and>
     distinct (concat ls) \<and> set (concat ls) = nodes [(1::nat, 2), (2, 3), (3, 2)] - cyclic_part [(1, 2), (2, 3), (3, 2)])"
  using topsort_levels_correct [OF key_order_rev, of "[(1::nat, 2), (2, 3), (3, 2)]"] key_order_rev by blast

text \<open>
  Whatever the dictionary orders, \<^verbatim>\<open>topsort\<close> and the concatenated levels of
  \<^verbatim>\<open>topsort_levels\<close> succeed for the same pairs, and in both results every descendant of an
  element comes after it.
\<close>

theorem sorts_agree:
  assumes "key_order ko" and "key_order ko'"
  shows "((\<exists>xs. topsort ko ps = Inr xs) \<longleftrightarrow> (\<exists>xs. levels_sort ko' ps = Inr xs)) \<and>
    (topsort ko ps = Inr (us @ a # vs) \<and> (a, b) \<in> (set ps)\<^sup>+ \<longrightarrow> b \<in> set vs) \<and>
    (levels_sort ko' ps = Inr (us @ a # vs) \<and> (a, b) \<in> (set ps)\<^sup>+ \<longrightarrow> b \<in> set vs)"
  using ts.sorts_iff_acyclic [OF assms(1), of ps] lv.sorts_iff_acyclic [OF assms(2), of ps]
    ts.descendants_after [OF assms(1), of ps us a vs b] lv.descendants_after [OF assms(2), of ps us a vs b]
  by blast

theorem sorts_agree_witness:
  "topsort (\<lambda>ks. ks) [(1::nat, 2), (2, 3)] = Inr ([1] @ 2 # [3]) \<and>
   ((\<exists>xs. topsort (\<lambda>ks. ks) [(1::nat, 2), (2, 3)] = Inr xs) \<longleftrightarrow> (\<exists>xs. levels_sort rev [(1::nat, 2), (2, 3)] = Inr xs))"
proof -
  have "topsort (\<lambda>ks. ks) [(1::nat, 2), (2, 3)] = Inr ([1] @ 2 # [3])" by code_simp
  then show ?thesis
    using sorts_agree [OF key_order_id key_order_rev, of "[(1::nat, 2), (2, 3)]"] by blast
qed

text \<open>
  C8. \<^verbatim>\<open>find_cycles\<close> ends without an error; it yields only simple cycles
  of the graph, never two rotations of one another, and every simple cycle up to rotation.
\<close>

theorem find_cycles_correct:
  assumes "key_order ko"
  shows "\<exists>cs. find_cycles ko g = Inr cs \<and> list_all (is_cycle g) cs \<and>
    sorted_wrt (\<lambda>c d. \<forall>n. rotate n c \<noteq> d) cs \<and>
    (is_cycle g c \<longrightarrow> (\<exists>d n. d \<in> set cs \<and> rotate n d = c))"
  using find_cycles_result [OF assms, of g] unfolding good_cycles_def covered_def list_all_iff by blast

theorem find_cycles_correct_witness:
  "is_cycle [(1::nat, [2]), (2, [3, 1]), (3, [])] [2, 1] \<and>
   (\<exists>cs d n. find_cycles rev [(1::nat, [2]), (2, [3, 1]), (3, [])] = Inr cs \<and> d \<in> set cs \<and> rotate n d = [2, 1])"
proof -
  have "is_cycle [(1::nat, [2]), (2, [3, 1]), (3, [])] [2, 1]"
    by (simp add: is_cycle_def is_path_def edge_def)
  then show ?thesis
    using find_cycles_correct [OF key_order_rev, of "[(1::nat, [2]), (2, [3, 1]), (3, [])]" "[2, 1]"] by blast
qed

end
