(* ===== verification/ShellCmd.thy ===== *)
theory ShellCmd
  imports PyPath
begin

section \<open>Shell pipelines: \<^verbatim>\<open>waf-tools/shellcmd.py\<close>\<close>

text \<open>
  The class \<^verbatim>\<open>Pipeline\<close>: the token state machine of \<^verbatim>\<open>parse\<close>, the abbreviated
  form, and \<^verbatim>\<open>run\<close>, which spawns the commands segment by segment. The operating system is
  a record of parameters (\<open>world\<close>): which files can be opened, which programs can be started,
  and the exit status of the k-th process. What \<^verbatim>\<open>run\<close> does to it is kept in the state: the
  processes spawned and waited for, the files opened and closed, the lines printed.
\<close>

subsection \<open>Nodes\<close>

text \<open>
  A redirection is \<^verbatim>\<open>None\<close>, the constant \<^verbatim>\<open>Command.PIPE\<close>, the constant
  \<^verbatim>\<open>Command.STDOUT\<close> or a file name.
\<close>

datatype redirect = RNone | RPipe | RStdout | RFile string

record command =
  name :: string
  argv :: "string list"
  stdin :: redirect
  stdout :: redirect
  stderr :: redirect
  env_vars :: "(string, string) dict"

datatype node = Pipe | And | Or | Cmd command | Chdir "string option"

definition new_command :: "string \<Rightarrow> command" where
  "new_command n = \<lparr>name = n, argv = [n], stdin = RNone, stdout = RNone, stderr = RNone, env_vars = []\<rparr>"

subsection \<open>\<^verbatim>\<open>parse\<close>\<close>

definition is_word :: "char \<Rightarrow> bool" where
  "is_word c \<longleftrightarrow> is_digit c \<or> (65 \<le> (of_char c :: nat) \<and> (of_char c :: nat) \<le> 90) \<or>
     (97 \<le> (of_char c :: nat) \<and> (of_char c :: nat) \<le> 122) \<or> c = CHR ''_''"

text \<open>The regular expression \<^verbatim>\<open>^([a-zA-Z0-9_]+)=(\S+)$\<close>; \<^verbatim>\<open>$\<close> also matches before a final newline.\<close>

definition env_var_match :: "string \<Rightarrow> (string \<times> string) option" where
  "env_var_match token =
     (let t = (if token \<noteq> [] \<and> last token = CHR ''\<newline>'' then butlast token else token);
          k = takeWhile (\<lambda>c. c \<noteq> CHR ''='') t;
          v = drop (length k + 1) t
      in if k \<noteq> [] \<and> list_all is_word k \<and> length k < length t \<and> v \<noteq> [] \<and> list_all (\<lambda>c. \<not> is_space c) v
         then Some (k, v) else None)"

datatype parse_state = BEGIN | COMMAND | CHDIR | STDERR | STDOUT | STDIN

record parser =
  current_command :: "node option"
  pipeline :: "node list"
  pstate :: parse_state
  penv :: "(string, string) dict"

definition parser_init :: parser where
  "parser_init = \<lparr>current_command = None, pipeline = [], pstate = BEGIN, penv = []\<rparr>"

definition commit_command :: "parser \<Rightarrow> parser res" where
  "commit_command p =
     (case current_command p of
        None \<Rightarrow> Inl AssertionError
      | Some c \<Rightarrow> Inr (p\<lparr>pipeline := pipeline p @ [c], current_command := None\<rparr>))"

definition commit_op :: "node \<Rightarrow> parser \<Rightarrow> parser res" where
  "commit_op op p =
     rbind (commit_command p) (\<lambda>q. Inr (q\<lparr>pipeline := pipeline q @ [op], pstate := BEGIN\<rparr>))"

text \<open>In the states after BEGIN and CHDIR the current command is a \<^verbatim>\<open>Command\<close>.\<close>

definition on_command :: "parser \<Rightarrow> (command \<Rightarrow> parser res) \<Rightarrow> parser res" where
  "on_command p f = (case current_command p of Some (Cmd c) \<Rightarrow> f c | _ \<Rightarrow> Inl AttributeError)"

definition parse_begin :: "string \<Rightarrow> parser \<Rightarrow> parser res" where
  "parse_begin token p =
     (case env_var_match token of
        Some (k, v) \<Rightarrow> Inr (p\<lparr>penv := AList.update k v (penv p)\<rparr>)
      | None \<Rightarrow> py_assert (current_command p = None)
          (if token = ''cd'' then
             py_assert (penv p = []) (Inr (p\<lparr>current_command := Some (Chdir None), pstate := CHDIR\<rparr>))
           else Inr (p\<lparr>current_command := Some (Cmd ((new_command token)\<lparr>env_vars := penv p\<rparr>)),
                       penv := [], pstate := COMMAND\<rparr>)))"

definition parse_command :: "string \<Rightarrow> parser \<Rightarrow> parser res" where
  "parse_command token p =
     (if token = ''>'' then Inr (p\<lparr>pstate := STDOUT\<rparr>)
      else if token = ''2>'' then Inr (p\<lparr>pstate := STDERR\<rparr>)
      else if token = ''2>&1'' then on_command p (\<lambda>c. py_assert (stderr c = RNone)
        (Inr (p\<lparr>current_command := Some (Cmd (c\<lparr>stderr := RStdout\<rparr>))\<rparr>)))
      else if token = ''<'' then Inr (p\<lparr>pstate := STDIN\<rparr>)
      else if token = ''|'' then on_command p (\<lambda>c. py_assert (stdout c = RNone)
        (commit_op Pipe (p\<lparr>current_command := Some (Cmd (c\<lparr>stdout := RPipe\<rparr>))\<rparr>)))
      else if token = ''&&'' then commit_op And p
      else if token = ''||'' then commit_op Or p
      else on_command p (\<lambda>c. Inr (p\<lparr>current_command := Some (Cmd (c\<lparr>argv := argv c @ [token]\<rparr>))\<rparr>)))"

definition parse_chdir :: "string \<Rightarrow> parser \<Rightarrow> parser res" where
  "parse_chdir token p =
     (if token = ''&&'' then commit_op And p
      else case current_command p of
          Some (Chdir d) \<Rightarrow> py_assert (d = None) (Inr (p\<lparr>current_command := Some (Chdir (Some token))\<rparr>))
        | _ \<Rightarrow> Inl AttributeError)"

definition parse_redirect :: "string \<Rightarrow> parser \<Rightarrow> parser res" where
  "parse_redirect token p = on_command p (\<lambda>c.
     rbind (case pstate p of
         STDOUT \<Rightarrow> py_assert (stdout c = RNone) (Inr (c\<lparr>stdout := RFile token\<rparr>))
       | STDERR \<Rightarrow> py_assert (stderr c = RNone) (Inr (c\<lparr>stderr := RFile token\<rparr>))
       | _ \<Rightarrow> py_assert (stdin c = RNone) (Inr (c\<lparr>stdin := RFile token\<rparr>)))
       (\<lambda>c'. Inr (p\<lparr>current_command := Some (Cmd c'), pstate := COMMAND\<rparr>)))"

definition parse_token :: "parser \<Rightarrow> string \<Rightarrow> parser res" where
  "parse_token p token =
     (case pstate p of
        BEGIN \<Rightarrow> parse_begin token p
      | COMMAND \<Rightarrow> parse_command token p
      | CHDIR \<Rightarrow> parse_chdir token p
      | _ \<Rightarrow> parse_redirect token p)"

definition parse_tokens :: "string list \<Rightarrow> node list res" where
  "parse_tokens tokens =
     rbind (rfold parse_token parser_init tokens) (\<lambda>p.
     rbind (commit_command p) (\<lambda>q. Inr (pipeline q)))"

text \<open>A string is first split by \<^verbatim>\<open>shlex.split\<close>, a parameter that may raise.\<close>

definition parse :: "(string \<Rightarrow> string list res) \<Rightarrow> string + string list \<Rightarrow> node list res" where
  "parse shlex_split cmd =
     rbind (case cmd of Inl s \<Rightarrow> shlex_split s | Inr tokens \<Rightarrow> Inr tokens) parse_tokens"

text \<open>The second test for \<^verbatim>\<open>And\<close> in the source never succeeds, so \<^verbatim>\<open>Or\<close> prints nothing.\<close>

fun abbreviated_node :: "node \<Rightarrow> string list" where
  "abbreviated_node (Cmd c) = [name c]"
| "abbreviated_node (Chdir d) = [''cd '' @ (case d of None \<Rightarrow> ''None'' | Some s \<Rightarrow> s)]"
| "abbreviated_node Pipe = [''|'']"
| "abbreviated_node And = [''&&'']"
| "abbreviated_node Or = []"

definition get_abbreviated_command :: "node list \<Rightarrow> string" where
  "get_abbreviated_command p = join_with '' '' (concat (map abbreviated_node p))"

subsection \<open>Well-formed pipelines and their printed form\<close>

definition operator_tokens :: "string list" where
  "operator_tokens = [''>'', ''2>'', ''2>&1'', ''<'', ''|'', ''&&'', ''||'']"

definition render_redirects :: "command \<Rightarrow> string list" where
  "render_redirects c =
     (case stdin c of RFile f \<Rightarrow> [''<'', f] | _ \<Rightarrow> []) @
     (case stdout c of RFile f \<Rightarrow> [''>'', f] | _ \<Rightarrow> []) @
     (case stderr c of RFile f \<Rightarrow> [''2>'', f] | RStdout \<Rightarrow> [''2>&1''] | _ \<Rightarrow> [])"

fun render_node :: "node \<Rightarrow> string list" where
  "render_node (Cmd c) = map (\<lambda>(k, v). k @ ''='' @ v) (env_vars c) @ argv c @ render_redirects c"
| "render_node (Chdir d) = ''cd'' # (case d of None \<Rightarrow> [] | Some s \<Rightarrow> [s])"
| "render_node Pipe = [''|'']"
| "render_node And = [''&&'']"
| "render_node Or = [''||'']"

definition render :: "node list \<Rightarrow> string list" where
  "render p = concat (map render_node p)"

definition wf_env :: "(string, string) dict \<Rightarrow> bool" where
  "wf_env d \<longleftrightarrow> dict_ok d \<and> (\<forall>(k, v)\<in>set d. k \<noteq> [] \<and> list_all is_word k \<and> v \<noteq> [] \<and> list_all (\<lambda>c. \<not> is_space c) v)"

definition wf_command :: "command \<Rightarrow> bool" where
  "wf_command c \<longleftrightarrow> wf_env (env_vars c) \<and> env_var_match (name c) = None \<and> name c \<noteq> ''cd'' \<and>
     (\<exists>args. argv c = name c # args \<and> set args \<inter> set operator_tokens = {}) \<and>
     stdin c \<noteq> RPipe \<and> stdin c \<noteq> RStdout \<and> stdout c \<noteq> RStdout \<and> stderr c \<noteq> RPipe"

text \<open>
  The shape of a pipeline: commands separated by operators, standard output a pipe exactly
  before \<^verbatim>\<open>|\<close>, and a change of directory followed by \<^verbatim>\<open>&&\<close> only.
\<close>

fun wf_pipeline :: "node list \<Rightarrow> bool" where
  "wf_pipeline [Cmd c] \<longleftrightarrow> wf_command c \<and> stdout c \<noteq> RPipe"
| "wf_pipeline [Chdir d] \<longleftrightarrow> d \<noteq> Some ''&&''"
| "wf_pipeline (Cmd c # op # rest) \<longleftrightarrow>
     wf_command c \<and> (stdout c = RPipe \<longleftrightarrow> op = Pipe) \<and> op \<in> {Pipe, And, Or} \<and> wf_pipeline rest"
| "wf_pipeline (Chdir d # op # rest) \<longleftrightarrow> d \<noteq> Some ''&&'' \<and> op = And \<and> wf_pipeline rest"
| "wf_pipeline _ \<longleftrightarrow> False"

lemma env_var_match_pair:
  assumes "k \<noteq> []" and "list_all is_word k" and "v \<noteq> []" and "list_all (\<lambda>c. \<not> is_space c) v"
  shows "env_var_match (k @ ''='' @ v) = Some (k, v)"
proof -
  have "\<forall>c\<in>set k. c \<noteq> CHR ''=''" using assms(2) by (auto simp: list_all_iff is_word_def is_digit_def)
  then have tw: "takeWhile (\<lambda>c. c \<noteq> CHR ''='') (k @ ''='' @ v) = k" by (simp add: takeWhile_tail)
  have "\<not> is_space (last v)" using assms(3,4) by (simp add: list_all_iff)
  then have "last v \<noteq> CHR ''\<newline>''" by (auto simp: is_space_def)
  then have "last (k @ ''='' @ v) \<noteq> CHR ''\<newline>''" using assms(3) by simp
  then show ?thesis using assms tw by (simp add: env_var_match_def Let_def)
qed

lemma env_var_match_wf:
  assumes "env_var_match t = Some (k, v)"
  shows "k \<noteq> [] \<and> list_all is_word k \<and> v \<noteq> [] \<and> list_all (\<lambda>c. \<not> is_space c) v"
  using assms by (auto simp: env_var_match_def Let_def split: if_splits)

subsection \<open>Parsing what was printed\<close>

lemmas parse_defs = parse_token_def parse_begin_def parse_command_def parse_chdir_def parse_redirect_def
  commit_op_def commit_command_def on_command_def

lemma parse_env:
  assumes "wf_env (e @ d)" and "pstate p = BEGIN" and "penv p = e"
  shows "rfold parse_token p (map (\<lambda>(k, v). k @ ''='' @ v) d) = Inr (p\<lparr>penv := e @ d\<rparr>)"
  using assms
proof (induction d arbitrary: p e)
  case (Cons kv d)
  obtain k v where kv: "kv = (k, v)" by fastforce
  have "env_var_match (k @ ''='' @ v) = Some (k, v)"
    using Cons.prems(1) kv by (intro env_var_match_pair) (auto simp: wf_env_def)
  then have "parse_token p (k @ ''='' @ v) = Inr (p\<lparr>penv := AList.update k v e\<rparr>)"
    using Cons.prems by (simp add: parse_token_def parse_begin_def)
  moreover have "k \<notin> fst ` set e" using Cons.prems(1) kv by (auto simp: wf_env_def dict_ok_def)
  then have "AList.update k v e = e @ [(k, v)]" by (induction e) auto
  moreover have "rfold parse_token (p\<lparr>penv := e @ [(k, v)]\<rparr>) (map (\<lambda>(k, v). k @ ''='' @ v) d) =
      Inr (p\<lparr>penv := e @ [(k, v)]\<rparr>\<lparr>penv := (e @ [(k, v)]) @ d\<rparr>)"
    using Cons.prems kv by (intro Cons.IH) auto
  ultimately show ?case using kv by simp
qed simp

lemma parse_args:
  assumes "set args \<inter> set operator_tokens = {}" and "pstate p = COMMAND" and "current_command p = Some (Cmd c)"
  shows "rfold parse_token p args = Inr (p\<lparr>current_command := Some (Cmd (c\<lparr>argv := argv c @ args\<rparr>))\<rparr>)"
  using assms
proof (induction args arbitrary: p c)
  case (Cons a args)
  let ?q = "p\<lparr>current_command := Some (Cmd (c\<lparr>argv := argv c @ [a]\<rparr>))\<rparr>"
  have "parse_token p a = Inr ?q"
    using Cons.prems by (auto simp: parse_token_def parse_command_def on_command_def operator_tokens_def)
  moreover have "rfold parse_token ?q args =
      Inr (?q\<lparr>current_command := Some (Cmd ((c\<lparr>argv := argv c @ [a]\<rparr>)\<lparr>argv := argv (c\<lparr>argv := argv c @ [a]\<rparr>) @ args\<rparr>))\<rparr>)"
    using Cons.prems by (intro Cons.IH) auto
  ultimately show ?case by simp
qed (cases p; simp)

definition without_pipe :: "command \<Rightarrow> command" where
  "without_pipe c = (if stdout c = RPipe then c\<lparr>stdout := RNone\<rparr> else c)"

lemma parse_redirects:
  assumes "pstate p = COMMAND" and "current_command p = Some (Cmd (c\<lparr>stdin := RNone, stdout := RNone, stderr := RNone\<rparr>))"
    and "wf_command c"
  shows "rfold parse_token p (render_redirects c) = Inr (p\<lparr>current_command := Some (Cmd (without_pipe c))\<rparr>)"
proof -
  obtain n a i ou e v where c: "c = \<lparr>name = n, argv = a, stdin = i, stdout = ou, stderr = e, env_vars = v\<rparr>"
    by (cases c)
  have "i \<noteq> RPipe" "i \<noteq> RStdout" "ou \<noteq> RStdout" "e \<noteq> RPipe" using assms(3) c by (simp_all add: wf_command_def)
  then show ?thesis using assms(1,2) c
    by (cases p; cases i; cases ou; cases e; simp add: render_redirects_def parse_defs without_pipe_def)
qed

lemma parse_node_command:
  assumes "wf_command c"
  shows "rfold parse_token \<lparr>current_command = None, pipeline = P, pstate = BEGIN, penv = []\<rparr> (render_node (Cmd c)) =
    Inr \<lparr>current_command = Some (Cmd (without_pipe c)), pipeline = P, pstate = COMMAND, penv = []\<rparr>"
proof -
  let ?p = "\<lparr>current_command = None, pipeline = P, pstate = BEGIN, penv = []\<rparr>"
  obtain args where args: "argv c = name c # args" "set args \<inter> set operator_tokens = {}"
    and c: "wf_env (env_vars c)" "env_var_match (name c) = None" "name c \<noteq> ''cd''"
    using assms by (auto simp: wf_command_def)
  let ?e = "?p\<lparr>penv := [] @ env_vars c\<rparr>"
  let ?n = "?p\<lparr>pstate := COMMAND, current_command := Some (Cmd ((new_command (name c))\<lparr>env_vars := env_vars c\<rparr>))\<rparr>"
  let ?a = "?n\<lparr>current_command := Some (Cmd (c\<lparr>stdin := RNone, stdout := RNone, stderr := RNone\<rparr>))\<rparr>"
  have 1: "rfold parse_token ?p (map (\<lambda>(k, v). k @ ''='' @ v) (env_vars c)) = Inr ?e"
    using c(1) by (intro parse_env) auto
  have 2: "parse_token ?e (name c) = Inr ?n"
    using c by (simp add: parse_token_def parse_begin_def)
  have "rfold parse_token ?n args = Inr (?n\<lparr>current_command := Some (Cmd
      (((new_command (name c))\<lparr>env_vars := env_vars c\<rparr>)\<lparr>argv :=
         argv ((new_command (name c))\<lparr>env_vars := env_vars c\<rparr>) @ args\<rparr>))\<rparr>)"
    using args(2) by (intro parse_args) auto
  moreover have "((new_command (name c))\<lparr>env_vars := env_vars c\<rparr>)\<lparr>argv :=
         argv ((new_command (name c))\<lparr>env_vars := env_vars c\<rparr>) @ args\<rparr> =
      c\<lparr>stdin := RNone, stdout := RNone, stderr := RNone\<rparr>"
    using args(1) by (cases c) (simp add: new_command_def)
  ultimately have 3: "rfold parse_token ?n args = Inr ?a" by (simp only:)
  have 4: "rfold parse_token ?a (render_redirects c) = Inr (?a\<lparr>current_command := Some (Cmd (without_pipe c))\<rparr>)"
    using assms by (intro parse_redirects) auto
  show ?thesis using 1 2 3 4 by (simp add: rfold_append args(1))
qed

lemma parse_node_chdir:
  assumes "d \<noteq> Some ''&&''"
  shows "rfold parse_token \<lparr>current_command = None, pipeline = P, pstate = BEGIN, penv = []\<rparr> (render_node (Chdir d)) =
    Inr \<lparr>current_command = Some (Chdir d), pipeline = P, pstate = CHDIR, penv = []\<rparr>"
proof -
  have "env_var_match ''cd'' = None" by code_simp
  then show ?thesis using assms by (cases d) (simp_all add: parse_defs)
qed

lemma without_pipe_id: "stdout c \<noteq> RPipe \<Longrightarrow> without_pipe c = c"
  by (simp add: without_pipe_def)

lemma without_pipe_pipe: "stdout c = RPipe \<Longrightarrow> (without_pipe c)\<lparr>stdout := RPipe\<rparr> = c \<and> stdout (without_pipe c) = RNone"
  by (cases c) (simp add: without_pipe_def)

lemma parse_operator:
  assumes "stdout c = RPipe \<longleftrightarrow> op = Pipe" and "op \<in> {Pipe, And, Or}"
  shows "rfold parse_token \<lparr>current_command = Some (Cmd (without_pipe c)), pipeline = P, pstate = COMMAND, penv = []\<rparr>
      (render_node op) =
    Inr \<lparr>current_command = None, pipeline = P @ [Cmd c, op], pstate = BEGIN, penv = []\<rparr>"
  using assms without_pipe_id [of c] without_pipe_pipe [of c] by (auto simp: parse_defs)

lemma parse_chdir_operator:
  "rfold parse_token \<lparr>current_command = Some (Chdir d), pipeline = P, pstate = CHDIR, penv = []\<rparr> (render_node And) =
    Inr \<lparr>current_command = None, pipeline = P @ [Chdir d, And], pstate = BEGIN, penv = []\<rparr>"
  by (simp add: parse_defs)

lemma parse_render_from:
  assumes "wf_pipeline ns"
  shows "rbind (rfold parse_token \<lparr>current_command = None, pipeline = P, pstate = BEGIN, penv = []\<rparr> (render ns))
      (\<lambda>p. rbind (commit_command p) (\<lambda>q. Inr (pipeline q))) = Inr (P @ ns)"
  using assms
proof (induction ns arbitrary: P rule: wf_pipeline.induct)
  case (1 c)
  then show ?case
    using parse_node_command [of c P] by (simp add: render_def without_pipe_id commit_command_def del: render_node.simps)
next
  case (2 d)
  then show ?case
    using parse_node_chdir [of d P] by (simp add: render_def commit_command_def del: render_node.simps)
next
  case (3 c op rest)
  then show ?case
    using parse_node_command [of c P] parse_operator [of c op P] "3.IH" [of "P @ [Cmd c, op]"]
    by (simp add: render_def rfold_append del: render_node.simps)
next
  case (4 d op rest)
  then show ?case
    using parse_node_chdir [of d P] parse_chdir_operator [of d P] "4.IH" [of "P @ [Chdir d, And]"]
    by (simp add: render_def rfold_append del: render_node.simps)
qed simp_all

lemma parse_render: "wf_pipeline ns \<Longrightarrow> parse_tokens (render ns) = Inr ns"
  using parse_render_from [of ns "[]"] by (simp add: parse_tokens_def parser_init_def)

interpretation sh: codec render parse_tokens wf_pipeline
  by unfold_locales (rule parse_render)

subsection \<open>Whatever is parsed is well-formed\<close>

definition open_pipeline :: "node list \<Rightarrow> bool" where
  "open_pipeline P \<longleftrightarrow> (\<forall>rest. wf_pipeline rest \<longrightarrow> wf_pipeline (P @ rest))"

definition parser_ok :: "parser \<Rightarrow> bool" where
  "parser_ok p \<longleftrightarrow> open_pipeline (pipeline p) \<and> wf_env (penv p) \<and>
     (case pstate p of
        BEGIN \<Rightarrow> current_command p = None
      | CHDIR \<Rightarrow> penv p = [] \<and> (\<exists>d. current_command p = Some (Chdir d) \<and> d \<noteq> Some ''&&'')
      | _ \<Rightarrow> penv p = [] \<and> (\<exists>c. current_command p = Some (Cmd c) \<and> wf_command c \<and> stdout c \<noteq> RPipe))"

lemma open_snoc:
  assumes "open_pipeline P" and "\<And>rest. wf_pipeline rest \<Longrightarrow> wf_pipeline (n # op # rest)"
  shows "open_pipeline (P @ [n, op])"
  unfolding open_pipeline_def
proof (intro allI impI)
  fix rest
  assume "wf_pipeline rest"
  then have "wf_pipeline (P @ n # op # rest)" using assms by (auto simp: open_pipeline_def)
  then show "wf_pipeline ((P @ [n, op]) @ rest)" by simp
qed

lemma wf_env_update:
  assumes "wf_env e" and "env_var_match t = Some (k, v)"
  shows "wf_env (AList.update k v e)"
proof -
  have "set (AList.update k v e) \<subseteq> insert (k, v) (set e)"
    by (induction e) auto
  then show ?thesis using assms env_var_match_wf [OF assms(2)] by (fastforce simp: wf_env_def)
qed

lemma wf_new_command:
  "wf_env e \<Longrightarrow> env_var_match t = None \<Longrightarrow> t \<noteq> ''cd'' \<Longrightarrow> wf_command ((new_command t)\<lparr>env_vars := e\<rparr>)"
  by (simp add: wf_command_def new_command_def)

lemma wf_env_Nil [simp]: "wf_env []"
  by (simp add: wf_env_def)

lemma stdout_new_command [simp]: "stdout (new_command t) = RNone"
  by (simp add: new_command_def)

lemma parser_ok_begin: "parser_ok p \<Longrightarrow> pstate p = BEGIN \<Longrightarrow> parse_begin t p = Inr q \<Longrightarrow> parser_ok q"
  by (auto simp: parser_ok_def parse_begin_def wf_env_update wf_new_command
      split: option.splits if_splits)

lemma parser_ok_commit:
  assumes "open_pipeline (pipeline p)" and "penv p = []" and "current_command p = Some n"
    and "\<And>rest. wf_pipeline rest \<Longrightarrow> wf_pipeline (n # op # rest)" and "commit_op op p = Inr q"
  shows "parser_ok q"
  using assms open_snoc [OF assms(1,4)]
  by (auto simp: parser_ok_def commit_op_def commit_command_def wf_env_def)

lemma parser_ok_command:
  assumes "parser_ok p" and "pstate p = COMMAND" and "parse_command t p = Inr q"
  shows "parser_ok q"
proof -
  obtain c where p: "open_pipeline (pipeline p)" "wf_env (penv p)" "penv p = []"
      "current_command p = Some (Cmd c)" "wf_command c" "stdout c \<noteq> RPipe"
    using assms(1,2) by (auto simp: parser_ok_def)
  have arg: "wf_command (c\<lparr>argv := argv c @ [t]\<rparr>)" if "t \<notin> set operator_tokens"
    using p(5) that by (auto simp: wf_command_def)
  have err: "wf_command (c\<lparr>stderr := RStdout\<rparr>)" and out: "wf_command (c\<lparr>stdout := RPipe\<rparr>)"
    using p(5) by (auto simp: wf_command_def)
  consider "t \<in> {''>'', ''2>'', ''<'', ''2>&1''}" | "t = ''|''" | "t = ''&&''" | "t = ''||''" | "t \<notin> set operator_tokens"
    by (auto simp: operator_tokens_def)
  then show ?thesis
  proof cases
    case 1
    then show ?thesis using assms(2,3) p err by (auto simp: parse_command_def parser_ok_def on_command_def)
  next
    case 2
    let ?p = "p\<lparr>current_command := Some (Cmd (c\<lparr>stdout := RPipe\<rparr>))\<rparr>"
    have "commit_op Pipe ?p = Inr q" using 2 assms(3) p(4) by (simp add: parse_command_def on_command_def)
    then show ?thesis using p out by (intro parser_ok_commit [of ?p "Cmd (c\<lparr>stdout := RPipe\<rparr>)" Pipe q]) auto
  next
    case 3
    then have "commit_op And p = Inr q" using assms(3) by (simp add: parse_command_def)
    then show ?thesis using p by (intro parser_ok_commit [of p "Cmd c" And q]) auto
  next
    case 4
    then have "commit_op Or p = Inr q" using assms(3) by (simp add: parse_command_def)
    then show ?thesis using p by (intro parser_ok_commit [of p "Cmd c" Or q]) auto
  next
    case 5
    then show ?thesis using assms p arg
      by (auto simp: parse_command_def parser_ok_def on_command_def operator_tokens_def)
  qed
qed

lemma parser_ok_chdir:
  assumes "parser_ok p" and "pstate p = CHDIR" and "parse_chdir t p = Inr q"
  shows "parser_ok q"
proof -
  obtain d where p: "open_pipeline (pipeline p)" "wf_env (penv p)" "penv p = []"
      "current_command p = Some (Chdir d)" "d \<noteq> Some ''&&''"
    using assms(1,2) by (auto simp: parser_ok_def)
  show ?thesis
  proof (cases "t = ''&&''")
    case True
    then have "commit_op And p = Inr q" using assms(3) by (simp add: parse_chdir_def)
    then show ?thesis using p by (intro parser_ok_commit [of p "Chdir d" And q]) auto
  next
    case False
    then show ?thesis using assms p by (auto simp: parse_chdir_def parser_ok_def)
  qed
qed

lemma parser_ok_redirect:
  assumes "parser_ok p" and "pstate p \<in> {STDOUT, STDERR, STDIN}" and "parse_redirect t p = Inr q"
  shows "parser_ok q"
  using assms
  by (auto simp: parser_ok_def parse_redirect_def on_command_def wf_command_def)

lemma parser_ok_token: "parser_ok p \<Longrightarrow> parse_token p t = Inr q \<Longrightarrow> parser_ok q"
  by (cases "pstate p")
    (auto simp: parse_token_def intro: parser_ok_begin parser_ok_command parser_ok_chdir parser_ok_redirect)

lemma parse_tokens_wf:
  assumes "parse_tokens tokens = Inr ns"
  shows "wf_pipeline ns"
proof -
  obtain p where p: "rfold parse_token parser_init tokens = Inr p"
      and c: "rbind (commit_command p) (\<lambda>q. Inr (pipeline q)) = Inr ns"
    using assms by (auto simp: parse_tokens_def)
  have "parser_ok parser_init" by (simp add: parser_ok_def parser_init_def open_pipeline_def wf_env_def)
  then have "parser_ok p"
    using rfold_invariant [OF p, of parser_ok] parser_ok_token by blast
  moreover obtain n where n: "current_command p = Some n" "ns = pipeline p @ [n]"
    using c by (auto simp: commit_command_def split: option.splits)
  ultimately have "wf_pipeline [n]" "open_pipeline (pipeline p)"
    by (auto simp: parser_ok_def split: parse_state.splits)
  then show ?thesis using n(2) by (simp add: open_pipeline_def)
qed

subsection \<open>\<^verbatim>\<open>run\<close>\<close>

text \<open>
  A handle is the shared \<^verbatim>\<open>dev_null\<close> or the n-th file opened. A process is named by its
  position in the list of the processes spawned; what \<^verbatim>\<open>wait\<close> returns for it is
  \<open>status w pid\<close>.
\<close>

datatype handle = DevNull | Opened nat

datatype stream = SNone | SHandle handle | SPipeOf nat | SPipe | SStdout

record spawn =
  sp_argv :: "string list"
  sp_stdin :: stream
  sp_stdout :: stream
  sp_stderr :: stream
  sp_env :: "(string, string) dict option"
  sp_cwd :: "string option"

record world =
  status :: "nat \<Rightarrow> int"
  openable :: "string \<Rightarrow> bool"
  spawnable :: "spawn \<Rightarrow> bool"
  environ :: "(string, string) dict"

datatype run_state_name = RBegin | RPiped

record run_state =
  files_to_close :: "handle list"
  piped_commands :: "nat list"
  display :: "string list"
  rstate :: run_state_name
  cwd :: string
  opened :: nat
  closed :: "nat list"
  spawned :: "spawn list"
  waited :: "nat list"
  printed :: "string list"

definition run_init :: run_state where
  "run_init = \<lparr>files_to_close = [], piped_commands = [], display = [], rstate = RBegin, cwd = ''.'',
     opened = 0, closed = [], spawned = [], waited = [], printed = []\<rparr>"

text \<open>A step of \<^verbatim>\<open>run\<close> returns the new state and an exception or a value.\<close>

type_synonym 'a act = "run_state \<times> 'a res"

definition abind :: "'a act \<Rightarrow> (run_state \<Rightarrow> 'a \<Rightarrow> 'b act) \<Rightarrow> 'b act" where
  "abind m f = (case m of (s, Inl e) \<Rightarrow> (s, Inl e) | (s, Inr x) \<Rightarrow> f s x)"

lemma abind_simps [simp]: "abind (s, Inl e) f = (s, Inl e)" "abind (s, Inr x) f = f s x"
  by (simp_all add: abind_def)

definition open_file :: "world \<Rightarrow> string \<Rightarrow> run_state \<Rightarrow> handle act" where
  "open_file w f s =
     (if openable w f then
        (s\<lparr>opened := opened s + 1, files_to_close := files_to_close s @ [Opened (opened s)]\<rparr>, Inr (Opened (opened s)))
      else (s, Inl IOError))"

definition open_out_file :: "world \<Rightarrow> string \<Rightarrow> run_state \<Rightarrow> handle act" where
  "open_out_file w f s =
     (if f \<in> {''NUL:'', ''/dev/null''} then (s\<lparr>files_to_close := files_to_close s @ [DevNull]\<rparr>, Inr DevNull)
      else open_file w f s)"

definition show_text :: "bool \<Rightarrow> string \<Rightarrow> run_state \<Rightarrow> run_state" where
  "show_text verbose m s = (if verbose then s\<lparr>display := display s @ [m]\<rparr> else s)"

definition run_stdin :: "world \<Rightarrow> bool \<Rightarrow> command \<Rightarrow> run_state \<Rightarrow> stream act" where
  "run_stdin w verbose cmd s =
     (if rstate s = RPiped then
        (if piped_commands s = [] then (s, Inl IndexError)
         else (s, Inr (SPipeOf (last (piped_commands s)))))
      else case stdin cmd of
          RFile f \<Rightarrow> abind (open_file w f s) (\<lambda>s h. (show_text verbose (''< '' @ f) s, Inr (SHandle h)))
        | RNone \<Rightarrow> (s, Inr SNone)
        | _ \<Rightarrow> (s, Inl TypeError))"

definition run_stdout :: "world \<Rightarrow> bool \<Rightarrow> command \<Rightarrow> run_state \<Rightarrow> stream act" where
  "run_stdout w verbose cmd s =
     (case stdout cmd of
        RNone \<Rightarrow> (s, Inr SNone)
      | RPipe \<Rightarrow> (s, Inr SPipe)
      | RFile f \<Rightarrow> abind (open_out_file w f s) (\<lambda>s h. (show_text verbose (''> '' @ f) s, Inr (SHandle h)))
      | RStdout \<Rightarrow> (s, Inl TypeError))"

definition run_stderr :: "world \<Rightarrow> bool \<Rightarrow> command \<Rightarrow> run_state \<Rightarrow> stream act" where
  "run_stderr w verbose cmd s =
     (case stderr cmd of
        RNone \<Rightarrow> (s, Inr SNone)
      | RPipe \<Rightarrow> (s, Inr SPipe)
      | RStdout \<Rightarrow> (show_text verbose ''2>&1'' s, Inr SStdout)
      | RFile f \<Rightarrow> abind (open_out_file w f s) (\<lambda>s h. (show_text verbose (''2> '' @ f) s, Inr (SHandle h))))"

definition run_popen :: "world \<Rightarrow> command \<Rightarrow> stream \<Rightarrow> stream \<Rightarrow> stream \<Rightarrow> run_state \<Rightarrow> unit act" where
  "run_popen w cmd sin sout serr s =
     (let env = (if env_vars cmd \<noteq> [] then
                   Some (foldl (\<lambda>d (k, v). AList.update k v d) (environ w) (env_vars cmd)) else None);
          proc_cwd = (if cwd s = ''.'' then None else Some (cwd s));
          sp = \<lparr>sp_argv = argv cmd, sp_stdin = sin, sp_stdout = sout, sp_stderr = serr,
                sp_env = env, sp_cwd = proc_cwd\<rparr>
      in if spawnable w sp then
           (s\<lparr>piped_commands := piped_commands s @ [length (spawned s)], spawned := spawned s @ [sp]\<rparr>, Inr ())
         else (s, Inl OSError))"

definition run_command :: "world \<Rightarrow> bool \<Rightarrow> command \<Rightarrow> run_state \<Rightarrow> unit act" where
  "run_command w verbose cmd s =
     (let s = show_text verbose
            ((if env_vars cmd \<noteq> [] then join_with '' '' (map (\<lambda>(k, v). k @ ''='' @ v) (env_vars cmd)) @ '' '' else [])
             @ join_with '' '' (argv cmd)) s
      in abind (run_stdin w verbose cmd s) (\<lambda>s sin.
         abind (run_stdout w verbose cmd s) (\<lambda>s sout.
         abind (run_stderr w verbose cmd s) (\<lambda>s serr.
         run_popen w cmd sin sout serr s))))"

text \<open>Waiting for the segment, and the \<^verbatim>\<open>finally\<close> clause that closes its files.\<close>

definition exec_piped_commands :: "int list \<Rightarrow> int" where
  "exec_piped_commands retvals = (if list_ex (\<lambda>r. r \<noteq> 0) retvals then last retvals else 0)"

definition close_files :: "run_state \<Rightarrow> run_state" where
  "close_files s =
     s\<lparr>closed := closed s @ concat (map (\<lambda>f. case f of DevNull \<Rightarrow> [] | Opened n \<Rightarrow> [n]) (files_to_close s)),
       files_to_close := []\<rparr>"

definition finish_segment :: "world \<Rightarrow> run_state \<Rightarrow> run_state \<times> int" where
  "finish_segment w s =
     (close_files (s\<lparr>waited := waited s @ piped_commands s, piped_commands := []\<rparr>),
      exec_piped_commands (map (status w) (piped_commands s)))"

definition print_exit :: "int \<Rightarrow> run_state \<Rightarrow> run_state" where
  "print_exit r s = s\<lparr>printed := printed s @ [join_with '' '' (display s) @ '': exit code '' @ int_str r]\<rparr>"

text \<open>
  In verbose mode the lines for \<^verbatim>\<open>&&\<close> and \<^verbatim>\<open>||\<close> print \<^verbatim>\<open>retval\<close>, a local
  variable that is assigned only at the end of the pipeline: every such line raises.
\<close>

fun run_loop :: "world \<Rightarrow> bool \<Rightarrow> run_state \<Rightarrow> node list \<Rightarrow> int option act" where
  "run_loop w verbose s [] = (s, Inr None)"
| "run_loop w verbose s [Chdir d] = (s, Inl IndexError)"
| "run_loop w verbose s (Chdir d # next_op # rest) =
     (if next_op \<noteq> And then (s, Inl AssertionError)
      else case d of None \<Rightarrow> (s, Inl AttributeError)
         | Some dir \<Rightarrow> run_loop w verbose
             (show_text verbose (''cd '' @ dir @ '' &&'') (s\<lparr>cwd := path_join (cwd s) dir\<rparr>)) rest)"
| "run_loop w verbose s [Cmd cmd] =
     abind (run_command w verbose cmd s) (\<lambda>s _.
       case finish_segment w s of (s, retval) \<Rightarrow>
         ((if verbose then print_exit retval s else s), Inr (Some retval)))"
| "run_loop w verbose s (Cmd cmd # Pipe # rest) =
     abind (run_command w verbose cmd s) (\<lambda>s _.
       run_loop w verbose (s\<lparr>rstate := RPiped, display := display s @ [''|'']\<rparr>) rest)"
| "run_loop w verbose s (Cmd cmd # Or # rest) =
     abind (run_command w verbose cmd s) (\<lambda>s _.
       case finish_segment w s of (s, this_retval) \<Rightarrow>
         if verbose then (s, Inl UnboundLocalError)
         else if this_retval = 0 then (s, Inr (Some this_retval))
         else run_loop w verbose (s\<lparr>rstate := RBegin, display := []\<rparr>) rest)"
| "run_loop w verbose s (Cmd cmd # And # rest) =
     abind (run_command w verbose cmd s) (\<lambda>s _.
       case finish_segment w s of (s, this_retval) \<Rightarrow>
         if verbose then (s, Inl UnboundLocalError)
         else if this_retval \<noteq> 0 then (s, Inr (Some this_retval))
         else run_loop w verbose (s\<lparr>rstate := RBegin, display := []\<rparr>) rest)"
| "run_loop w verbose s (Cmd cmd # Cmd other # rest) =
     abind (run_command w verbose cmd s) (\<lambda>s _. run_loop w verbose s rest)"
| "run_loop w verbose s (Cmd cmd # Chdir other # rest) =
     abind (run_command w verbose cmd s) (\<lambda>s _. run_loop w verbose s rest)"
| "run_loop w verbose s (op # rest) = (s, Inl AssertionError)"

definition run :: "world \<Rightarrow> bool \<Rightarrow> node list \<Rightarrow> run_state \<times> int option res" where
  "run w verbose p = run_loop w verbose run_init p"

subsection \<open>Files and processes\<close>

text \<open>
  What is open is what was opened and not closed; what is running is what was spawned and
  not waited for.
\<close>

abbreviation handles :: "handle list \<Rightarrow> nat list" where
  "handles fs \<equiv> concat (map (\<lambda>f. case f of DevNull \<Rightarrow> [] | Opened n \<Rightarrow> [n]) fs)"

definition run_ok :: "run_state \<Rightarrow> bool" where
  "run_ok s \<longleftrightarrow> closed s @ handles (files_to_close s) = [0..<opened s] \<and>
     waited s @ piped_commands s = [0..<length (spawned s)]"

lemma run_ok_show [simp]: "run_ok (show_text v m s) \<longleftrightarrow> run_ok s"
  by (simp add: run_ok_def show_text_def)

lemma run_ok_updates [simp]:
  "run_ok (s\<lparr>display := d\<rparr>) \<longleftrightarrow> run_ok s" "run_ok (s\<lparr>rstate := r\<rparr>) \<longleftrightarrow> run_ok s"
  "run_ok (s\<lparr>cwd := c\<rparr>) \<longleftrightarrow> run_ok s" "run_ok (print_exit r' s) \<longleftrightarrow> run_ok s"
  "run_ok (s\<lparr>printed := m\<rparr>) \<longleftrightarrow> run_ok s"
  by (simp_all add: run_ok_def print_exit_def)

lemma run_ok_open: "run_ok s \<Longrightarrow> run_ok (fst (open_file w f s))"
  by (auto simp: run_ok_def open_file_def simp flip: append_assoc)

lemma run_ok_open_out: "run_ok s \<Longrightarrow> run_ok (fst (open_out_file w f s))"
  using run_ok_open by (auto simp: open_out_file_def run_ok_def)

lemma run_ok_abind: "run_ok (fst m) \<Longrightarrow> (\<And>s x. m = (s, Inr x) \<Longrightarrow> run_ok s \<Longrightarrow> run_ok (fst (f s x))) \<Longrightarrow> run_ok (fst (abind m f))"
  by (cases m; cases "snd m") (auto simp: abind_def)

lemma run_ok_streams:
  "run_ok s \<Longrightarrow> run_ok (fst (run_stdin w v c s))"
  "run_ok s \<Longrightarrow> run_ok (fst (run_stdout w v c s))"
  "run_ok s \<Longrightarrow> run_ok (fst (run_stderr w v c s))"
  by (auto simp: run_stdin_def run_stdout_def run_stderr_def split: redirect.splits
      intro!: run_ok_abind run_ok_open run_ok_open_out)

lemma run_ok_popen: "run_ok s \<Longrightarrow> run_ok (fst (run_popen w c i u e s))"
  by (auto simp: run_ok_def run_popen_def Let_def simp flip: append_assoc)

lemma run_ok_command: "run_ok s \<Longrightarrow> run_ok (fst (run_command w v c s))"
  unfolding run_command_def Let_def
  by (intro run_ok_abind run_ok_streams run_ok_popen) simp_all

lemma run_ok_finish: "run_ok s \<Longrightarrow> run_ok (fst (finish_segment w s))"
  by (simp add: run_ok_def finish_segment_def close_files_def)

lemma finish_closed: "files_to_close (fst (finish_segment w s)) = [] \<and> piped_commands (fst (finish_segment w s)) = []"
  by (simp add: finish_segment_def close_files_def)

lemma command_cases:
  assumes "abind (run_command w v c s) f = (t, r)" and "run_ok s"
  obtains (fails) e where "r = Inl e" and "run_ok t"
    | (spawns) s1 where "run_command w v c s = (s1, Inr ())" and "run_ok s1" and "f s1 () = (t, r)"
proof (cases "run_command w v c s")
  case (Pair s1 r1)
  then have ok: "run_ok s1" using run_ok_command [OF assms(2), of w v c] by simp
  show ?thesis
  proof (cases r1)
    case (Inl e)
    then show ?thesis using fails [of e] ok assms(1) Pair by auto
  next
    case (Inr u)
    then show ?thesis using spawns ok assms(1) Pair by simp
  qed
qed

definition run_done :: "run_state \<Rightarrow> int option res \<Rightarrow> bool" where
  "run_done t r \<longleftrightarrow> run_ok t \<and> ((\<exists>x. r = Inr (Some x)) \<longrightarrow> files_to_close t = [] \<and> piped_commands t = [])"

lemma run_done_error: "run_ok t \<Longrightarrow> r = Inl e \<Longrightarrow> run_done t r"
  by (simp add: run_done_def)

lemma run_done_finish: "run_ok s \<Longrightarrow> finish_segment w s = (t, x) \<Longrightarrow> run_ok t \<and> run_done t r"
  using run_ok_finish [of s w] finish_closed [of w s] by (auto simp: run_done_def)

lemma run_done_print: "run_done t r \<Longrightarrow> run_done (print_exit x t) r"
  by (simp add: run_done_def) (simp add: print_exit_def)

lemma run_loop_ok: "run_ok s \<Longrightarrow> run_loop w v s ns = (t, r) \<Longrightarrow> run_done t r"
proof (induction w v s ns arbitrary: t r rule: run_loop.induct)
  case (1 w v s)
  then show ?case by (auto simp: run_done_def)
next
  case (2 w v s d)
  then show ?case by (auto intro: run_done_error)
next
  case (3 w v s d op rest)
  then show ?case by (auto intro: run_done_error split: if_splits option.splits)
next
  case (4 w v s c)
  from "4.prems"(2)[unfolded run_loop.simps] "4.prems"(1) show ?case
  proof (cases rule: command_cases)
    case (spawns s1)
    then show ?thesis using run_done_finish [of s1 w] run_done_print
      by (auto split: prod.splits if_splits)
  qed (rule run_done_error)
next
  case (5 w v s c rest)
  from "5.prems"(2)[unfolded run_loop.simps] "5.prems"(1) show ?case
  proof (cases rule: command_cases)
    case (spawns s1)
    then show ?thesis using "5.IH" [OF _ spawns(3)] by simp
  qed (rule run_done_error)
next
  case (6 w v s c rest)
  from "6.prems"(2)[unfolded run_loop.simps] "6.prems"(1) show ?case
  proof (cases rule: command_cases)
    case (spawns s1)
    obtain s2 x where f: "finish_segment w s1 = (s2, x)" by fastforce
    note d = run_done_finish [OF spawns(2) f]
    show ?thesis
    proof (cases "v \<or> x = 0")
      case True
      then show ?thesis using d spawns(3) f by (auto intro: run_done_error split: if_splits)
    next
      case False
      then have "run_loop w v (s2\<lparr>rstate := RBegin, display := []\<rparr>) rest = (t, r)"
        using spawns(3) f by simp
      then show ?thesis using "6.IH" [OF f [symmetric]] False d by simp
    qed
  qed (rule run_done_error)
next
  case (7 w v s c rest)
  from "7.prems"(2)[unfolded run_loop.simps] "7.prems"(1) show ?case
  proof (cases rule: command_cases)
    case (spawns s1)
    obtain s2 x where f: "finish_segment w s1 = (s2, x)" by fastforce
    note d = run_done_finish [OF spawns(2) f]
    show ?thesis
    proof (cases "v \<or> x \<noteq> 0")
      case True
      then show ?thesis using d spawns(3) f by (auto intro: run_done_error split: if_splits)
    next
      case False
      then have "run_loop w v (s2\<lparr>rstate := RBegin, display := []\<rparr>) rest = (t, r)"
        using spawns(3) f by simp
      then show ?thesis using "7.IH" [OF f [symmetric]] False d by simp
    qed
  qed (rule run_done_error)
next
  case (8 w v s c d rest)
  from "8.prems"(2)[unfolded run_loop.simps] "8.prems"(1) show ?case
    by (cases rule: command_cases) (auto intro: run_done_error "8.IH")
next
  case (9 w v s c d rest)
  from "9.prems"(2)[unfolded run_loop.simps] "9.prems"(1) show ?case
    by (cases rule: command_cases) (auto intro: run_done_error "9.IH")
qed (auto intro: run_done_error)

subsection \<open>The specification of a run\<close>

text \<open>
  The k-th command of the whole pipeline ends with \<open>st k\<close>. A segment has the status of its
  last command; \<^verbatim>\<open>&&\<close> stops the run at the first failure and \<^verbatim>\<open>||\<close> at the first success.
  The result is the status and the number of commands started.
\<close>

fun and_or_eval :: "(nat \<Rightarrow> int) \<Rightarrow> nat \<Rightarrow> node list \<Rightarrow> int \<times> nat" where
  "and_or_eval st k [Cmd c] = (st k, 1)"
| "and_or_eval st k (Chdir d # And # rest) = and_or_eval st k rest"
| "and_or_eval st k (Cmd c # Pipe # rest) = (case and_or_eval st (Suc k) rest of (r, n) \<Rightarrow> (r, Suc n))"
| "and_or_eval st k (Cmd c # And # rest) =
     (if st k \<noteq> 0 then (st k, 1) else case and_or_eval st (Suc k) rest of (r, n) \<Rightarrow> (r, Suc n))"
| "and_or_eval st k (Cmd c # Or # rest) =
     (if st k = 0 then (0, 1) else case and_or_eval st (Suc k) rest of (r, n) \<Rightarrow> (r, Suc n))"
| "and_or_eval st k _ = (0, 0)"

definition commands :: "node list \<Rightarrow> string list list" where
  "commands p = concat (map (\<lambda>n. case n of Cmd c \<Rightarrow> [argv c] | _ \<Rightarrow> []) p)"

definition all_works :: "world \<Rightarrow> bool" where
  "all_works w \<longleftrightarrow> (\<forall>f. openable w f) \<and> (\<forall>sp. spawnable w sp)"

fun runnable :: "node list \<Rightarrow> bool" where
  "runnable [Cmd c] \<longleftrightarrow> wf_command c \<and> stdout c \<noteq> RPipe"
| "runnable (Cmd c # op # rest) \<longleftrightarrow>
     wf_command c \<and> (stdout c = RPipe \<longleftrightarrow> op = Pipe) \<and> op \<in> {Pipe, And, Or} \<and> runnable rest"
| "runnable (Chdir d # op # rest) \<longleftrightarrow> d \<noteq> None \<and> d \<noteq> Some ''&&'' \<and> op = And \<and> runnable rest"
| "runnable _ \<longleftrightarrow> False"

lemma runnable_not_adjacent [simp]: "\<not> runnable (v # Cmd c # r)" "\<not> runnable (v # Chdir d # r)"
  by (cases v; simp)+

lemma runnable_wf: "runnable p \<Longrightarrow> wf_pipeline p"
  by (induction p rule: runnable.induct) auto

lemma exec_piped_last: "exec_piped_commands rs = (if rs = [] then 0 else last rs)"
  by (cases rs rule: rev_cases) (auto simp: exec_piped_commands_def list_ex_iff)

text \<open>What does not change while the streams of a command are set up.\<close>

definition same_core :: "run_state \<Rightarrow> run_state \<Rightarrow> bool" where
  "same_core s t \<longleftrightarrow> piped_commands t = piped_commands s \<and> spawned t = spawned s \<and> rstate t = rstate s"

lemma same_core_trans: "same_core s t \<Longrightarrow> same_core t u \<Longrightarrow> same_core s u"
  by (simp add: same_core_def)

lemma same_core_show [simp]: "same_core s (show_text v m s)"
  by (simp add: same_core_def show_text_def)

lemma all_works_open:
  assumes "all_works w"
  obtains s' h where "open_file w f s = (s', Inr h)" and "same_core s s'"
  using assms by (auto simp: open_file_def all_works_def same_core_def)

lemma all_works_open_out:
  assumes "all_works w"
  obtains s' h where "open_out_file w f s = (s', Inr h)" and "same_core s s'"
proof (cases "f \<in> {''NUL:'', ''/dev/null''}")
  case True
  then show ?thesis using that by (auto simp: open_out_file_def same_core_def)
next
  case False
  then have "open_out_file w f s = open_file w f s" by (simp add: open_out_file_def)
  with all_works_open [OF assms, of f s] that show ?thesis by metis
qed

lemma all_works_stdin:
  assumes "all_works w" and "wf_command c" and "rstate s = RPiped \<Longrightarrow> piped_commands s \<noteq> []"
  shows "\<exists>s' x. run_stdin w v c s = (s', Inr x) \<and> same_core s s'"
proof (cases "rstate s = RPiped")
  case True
  then show ?thesis using assms(3) by (simp add: run_stdin_def same_core_def)
next
  case False
  show ?thesis
  proof (cases "stdin c")
    case (RFile f)
    obtain s' h where "open_file w f s = (s', Inr h)" "same_core s s'" using all_works_open [OF assms(1)] by blast
    with RFile False show ?thesis by (auto simp: run_stdin_def intro: same_core_trans same_core_show)
  qed (use False assms(2) in \<open>auto simp: run_stdin_def same_core_def wf_command_def\<close>)
qed

lemma all_works_stdout:
  assumes "all_works w" and "wf_command c"
  shows "\<exists>s' x. run_stdout w v c s = (s', Inr x) \<and> same_core s s'"
proof (cases "stdout c")
  case (RFile f)
  obtain s' h where "open_out_file w f s = (s', Inr h)" "same_core s s'" using all_works_open_out [OF assms(1)] by blast
  with RFile show ?thesis by (auto simp: run_stdout_def intro: same_core_trans same_core_show)
qed (use assms(2) in \<open>auto simp: run_stdout_def same_core_def wf_command_def\<close>)

lemma all_works_stderr:
  assumes "all_works w"
  shows "\<exists>s' x. run_stderr w v c s = (s', Inr x) \<and> same_core s s'"
proof (cases "stderr c")
  case (RFile f)
  obtain s' h where "open_out_file w f s = (s', Inr h)" "same_core s s'" using all_works_open_out [OF assms(1)] by blast
  with RFile show ?thesis by (auto simp: run_stderr_def intro: same_core_trans same_core_show)
qed (auto simp: run_stderr_def same_core_def show_text_def)

lemma all_works_command:
  assumes "all_works w" and "wf_command c" and "rstate s = RPiped \<Longrightarrow> piped_commands s \<noteq> []"
  shows "\<exists>s'. run_command w v c s = (s', Inr ()) \<and> piped_commands s' = piped_commands s @ [length (spawned s)] \<and>
    map sp_argv (spawned s') = map sp_argv (spawned s) @ [argv c] \<and> rstate s' = rstate s"
proof -
  define s0 where "s0 = show_text v
      ((if env_vars c \<noteq> [] then join_with '' '' (map (\<lambda>(k, v). k @ ''='' @ v) (env_vars c)) @ '' '' else [])
       @ join_with '' '' (argv c)) s"
  have c0: "same_core s s0" by (simp add: s0_def)
  then have "rstate s0 = RPiped \<Longrightarrow> piped_commands s0 \<noteq> []" using assms(3) by (simp add: same_core_def)
  then obtain s1 x1 where 1: "run_stdin w v c s0 = (s1, Inr x1)" "same_core s0 s1"
    using all_works_stdin [OF assms(1,2), of s0 v] by blast
  obtain s2 x2 where 2: "run_stdout w v c s1 = (s2, Inr x2)" "same_core s1 s2"
    using all_works_stdout [OF assms(1,2)] by blast
  obtain s3 x3 where 3: "run_stderr w v c s2 = (s3, Inr x3)" "same_core s2 s3"
    using all_works_stderr [OF assms(1)] by blast
  have "run_command w v c s = run_popen w c x1 x2 x3 s3"
    using 1(1) 2(1) 3(1) by (simp add: run_command_def Let_def s0_def [symmetric])
  moreover have "same_core s s3" using c0 1(2) 2(2) 3(2) same_core_trans by blast
  ultimately show ?thesis
    using assms(1) by (simp add: run_popen_def Let_def all_works_def same_core_def)
qed

lemma finish_segment_status:
  "piped_commands s \<noteq> [] \<Longrightarrow> \<exists>s'. finish_segment w s = (s', status w (last (piped_commands s))) \<and>
     spawned s' = spawned s \<and> piped_commands s' = []"
  by (simp add: finish_segment_def exec_piped_last close_files_def last_map)

lemma run_loop_spec:
  assumes "all_works w" and "runnable p" and "rstate s = RPiped \<longleftrightarrow> piped_commands s \<noteq> []"
    and "and_or_eval (status w) (length (spawned s)) p = (r, n)"
  shows "\<exists>t. run_loop w False s p = (t, Inr (Some r)) \<and>
    map sp_argv (spawned t) = map sp_argv (spawned s) @ take n (commands p)"
  using assms(2-)
proof (induction "status w" "length (spawned s)" p arbitrary: s n rule: and_or_eval.induct)
  case (1 c)
  obtain s1 where c: "run_command w False c s = (s1, Inr ())"
      "piped_commands s1 = piped_commands s @ [length (spawned s)]"
      "map sp_argv (spawned s1) = map sp_argv (spawned s) @ [argv c]"
    using all_works_command [OF assms(1), of c s False] "1.prems" by auto
  then show ?case using finish_segment_status [of s1 w] "1.prems"(3) by (auto simp: commands_def)
next
  case (2 d rest)
  then obtain dir where d: "d = Some dir" by auto
  let ?s = "s\<lparr>cwd := path_join (cwd s) dir\<rparr>"
  have "\<exists>t. run_loop w False ?s rest = (t, Inr (Some r)) \<and>
      map sp_argv (spawned t) = map sp_argv (spawned ?s) @ take n (commands rest)"
    using "2.prems" d by (intro "2.hyps") auto
  then show ?case using d by (simp add: show_text_def commands_def)
next
  case (3 c rest)
  obtain s1 where c: "run_command w False c s = (s1, Inr ())"
      "piped_commands s1 = piped_commands s @ [length (spawned s)]"
      "map sp_argv (spawned s1) = map sp_argv (spawned s) @ [argv c]"
    using all_works_command [OF assms(1), of c s False] "3.prems" by auto
  have len: "length (spawned s1) = Suc (length (spawned s))"
    using arg_cong [OF c(3), of length] by simp
  obtain m where m: "and_or_eval (status w) (Suc (length (spawned s))) rest = (r, m)" "n = Suc m"
    using "3.prems"(3) by (auto split: prod.splits)
  let ?s = "s1\<lparr>rstate := RPiped, display := display s1 @ [''|'']\<rparr>"
  have "\<exists>t. run_loop w False ?s rest = (t, Inr (Some r)) \<and>
      map sp_argv (spawned t) = map sp_argv (spawned ?s) @ take m (commands rest)"
    using "3.prems" c(2) len m by (intro "3.hyps") auto
  then show ?case using c m(2) by (auto simp: commands_def)
next
  case (4 c rest)
  obtain s1 where c: "run_command w False c s = (s1, Inr ())"
      "piped_commands s1 = piped_commands s @ [length (spawned s)]"
      "map sp_argv (spawned s1) = map sp_argv (spawned s) @ [argv c]"
    using all_works_command [OF assms(1), of c s False] "4.prems" by auto
  have len: "length (spawned s1) = Suc (length (spawned s))"
    using arg_cong [OF c(3), of length] by simp
  obtain s2 where f: "finish_segment w s1 = (s2, status w (length (spawned s)))" "spawned s2 = spawned s1"
      "piped_commands s2 = []" using finish_segment_status [of s1 w] c(2) by auto
  show ?case
  proof (cases "status w (length (spawned s)) = 0")
    case True
    obtain m where m: "and_or_eval (status w) (Suc (length (spawned s))) rest = (r, m)" "n = Suc m"
      using "4.prems"(3) True by (auto split: prod.splits)
    let ?s = "s2\<lparr>rstate := RBegin, display := []\<rparr>"
    have "\<exists>t. run_loop w False ?s rest = (t, Inr (Some r)) \<and>
        map sp_argv (spawned t) = map sp_argv (spawned ?s) @ take m (commands rest)"
      using "4.prems" True f len m by (intro "4.hyps") auto
    then show ?thesis using c f True m(2) by (auto simp: commands_def)
  qed (use c f "4.prems"(3) in \<open>auto simp: commands_def\<close>)
next
  case (5 c rest)
  obtain s1 where c: "run_command w False c s = (s1, Inr ())"
      "piped_commands s1 = piped_commands s @ [length (spawned s)]"
      "map sp_argv (spawned s1) = map sp_argv (spawned s) @ [argv c]"
    using all_works_command [OF assms(1), of c s False] "5.prems" by auto
  have len: "length (spawned s1) = Suc (length (spawned s))"
    using arg_cong [OF c(3), of length] by simp
  obtain s2 where f: "finish_segment w s1 = (s2, status w (length (spawned s)))" "spawned s2 = spawned s1"
      "piped_commands s2 = []" using finish_segment_status [of s1 w] c(2) by auto
  show ?case
  proof (cases "status w (length (spawned s)) = 0")
    case False
    obtain m where m: "and_or_eval (status w) (Suc (length (spawned s))) rest = (r, m)" "n = Suc m"
      using "5.prems"(3) False by (auto split: prod.splits)
    let ?s = "s2\<lparr>rstate := RBegin, display := []\<rparr>"
    have "\<exists>t. run_loop w False ?s rest = (t, Inr (Some r)) \<and>
        map sp_argv (spawned t) = map sp_argv (spawned ?s) @ take m (commands rest)"
      using "5.prems" False f len m by (intro "5.hyps") auto
    then show ?thesis using c f False m(2) by (auto simp: commands_def)
  qed (use c f "5.prems"(3) in \<open>auto simp: commands_def\<close>)
qed simp_all

text \<open>A pipeline with \<^verbatim>\<open>&&\<close> or \<^verbatim>\<open>||\<close> after a command.\<close>

fun has_and_or :: "node list \<Rightarrow> bool" where
  "has_and_or (Cmd c # Pipe # rest) \<longleftrightarrow> has_and_or rest"
| "has_and_or (Cmd c # And # rest) \<longleftrightarrow> True"
| "has_and_or (Cmd c # Or # rest) \<longleftrightarrow> True"
| "has_and_or (Chdir d # And # rest) \<longleftrightarrow> has_and_or rest"
| "has_and_or _ \<longleftrightarrow> False"

lemma run_loop_verbose:
  assumes "all_works w" and "runnable p" and "rstate s = RPiped \<longleftrightarrow> piped_commands s \<noteq> []" and "has_and_or p"
  shows "snd (run_loop w True s p) = Inl UnboundLocalError"
  using assms(2-)
proof (induction p arbitrary: s rule: has_and_or.induct)
  case (1 c rest)
  obtain s1 where c: "run_command w True c s = (s1, Inr ())"
      "piped_commands s1 = piped_commands s @ [length (spawned s)]"
    using all_works_command [OF assms(1), of c s True] 1 by auto
  have "snd (run_loop w True (s1\<lparr>rstate := RPiped, display := display s1 @ [''|'']\<rparr>) rest) = Inl UnboundLocalError"
    using 1 c(2) by (intro "1.IH") auto
  with c(1) show ?case by simp
next
  case (2 c rest)
  then show ?case using all_works_command [OF assms(1), of c s True] by (auto split: prod.splits)
next
  case (3 c rest)
  then show ?case using all_works_command [OF assms(1), of c s True] by (auto split: prod.splits)
next
  case (4 d rest)
  then obtain dir where d: "d = Some dir" by auto
  have "snd (run_loop w True (show_text True (''cd '' @ dir @ '' &&'') (s\<lparr>cwd := path_join (cwd s) dir\<rparr>)) rest) =
      Inl UnboundLocalError"
    using 4 by (intro "4.IH") (auto simp: show_text_def)
  with d show ?case by simp
qed simp_all

subsection \<open>Properties\<close>

text \<open>
  C6. The pipelines \<^verbatim>\<open>parse\<close> can return are exactly the well-formed ones:
  commands separated by operators, standard output the constant \<^verbatim>\<open>PIPE\<close> exactly before
  \<^verbatim>\<open>|\<close>, a change of directory followed only by \<^verbatim>\<open>&&\<close>, no operator among the
  arguments; and the printed form of each of them parses back to it.
\<close>

theorem parse_characterised:
  "((\<exists>tokens. parse shlex_split (Inr tokens) = Inr p) \<longleftrightarrow> wf_pipeline p) \<and>
   (wf_pipeline p \<longrightarrow> parse shlex_split (Inr (render p)) = Inr p)"
  using parse_tokens_wf [of _ p] sh.decode_encode [of p] by (auto simp: parse_def)

theorem parse_characterised_witness:
  "parse (\<lambda>s. Inl ValueError) (Inr (render [Cmd ((new_command ''ls'')\<lparr>stdout := RPipe, env_vars := [(''A'', ''1'')]\<rparr>), Pipe, Cmd (new_command ''cat'')])) =
   Inr [Cmd ((new_command ''ls'')\<lparr>stdout := RPipe, env_vars := [(''A'', ''1'')]\<rparr>), Pipe, Cmd (new_command ''cat'')]"
proof -
  have "env_var_match ''ls'' = None" "env_var_match ''cat'' = None" by code_simp+
  then have "wf_pipeline [Cmd ((new_command ''ls'')\<lparr>stdout := RPipe, env_vars := [(''A'', ''1'')]\<rparr>), Pipe, Cmd (new_command ''cat'')]"
    by (simp add: new_command_def wf_command_def wf_env_def dict_ok_def is_word_def is_space_def is_digit_def)
  then show ?thesis using parse_characterised by blast
qed

text \<open>
  C7. When every file opens and every program starts, \<^verbatim>\<open>run\<close> of a runnable pipeline
  returns the value of the pipeline read as a specification (a segment has the status of its last
  command, \<^verbatim>\<open>&&\<close> stops at the first failure, \<^verbatim>\<open>||\<close> at the first success), and has
  started exactly the commands the specification evaluates, in order.
\<close>

theorem run_correct:
  assumes "all_works w" and "runnable p"
  shows "\<exists>t. run w False p = (t, Inr (Some (fst (and_or_eval (status w) 0 p)))) \<and>
    map sp_argv (spawned t) = take (snd (and_or_eval (status w) 0 p)) (commands p)"
  using run_loop_spec [OF assms, of run_init "fst (and_or_eval (status w) 0 p)" "snd (and_or_eval (status w) 0 p)"]
  by (simp add: run_def run_init_def)

definition demo_world :: world where
  "demo_world = \<lparr>status = (\<lambda>k. if k = 0 then 1 else 0), openable = (\<lambda>f. True), spawnable = (\<lambda>sp. True), environ = []\<rparr>"

theorem run_correct_witness:
  "\<exists>t. run demo_world False [Cmd (new_command ''a''), And, Cmd (new_command ''b''), Or, Cmd (new_command ''c'')] = (t, Inr (Some 1)) \<and>
     map sp_argv (spawned t) = [[''a'']]"
proof -
  have "env_var_match ''a'' = None" "env_var_match ''b'' = None" "env_var_match ''c'' = None" by code_simp+
  then have "runnable [Cmd (new_command ''a''), And, Cmd (new_command ''b''), Or, Cmd (new_command ''c'')]"
    by (simp add: new_command_def wf_command_def)
  moreover have "all_works demo_world" by (simp add: all_works_def demo_world_def)
  ultimately show ?thesis
    using run_correct [of demo_world "[Cmd (new_command ''a''), And, Cmd (new_command ''b''), Or, Cmd (new_command ''c'')]"]
    by (simp add: demo_world_def commands_def new_command_def)
qed

text \<open>
  C24. In every run, of any node list and in any world, the files opened are those
  closed followed by those still open, and likewise for processes; and when \<^verbatim>\<open>run\<close> returns a
  status every file it opened is closed once and every process it started was waited for once.
\<close>

theorem run_cleans_up:
  assumes "run w verbose p = (t, r)"
  shows "closed t @ handles (files_to_close t) = [0..<opened t] \<and>
    waited t @ piped_commands t = [0..<length (spawned t)] \<and>
    (\<forall>x. r = Inr (Some x) \<longrightarrow> closed t = [0..<opened t] \<and> waited t = [0..<length (spawned t)])"
proof -
  have "run_ok run_init" by (simp add: run_ok_def run_init_def)
  then have "run_done t r" using assms run_loop_ok by (simp add: run_def)
  then show ?thesis by (auto simp: run_done_def run_ok_def)
qed

theorem run_cleans_up_witness:
  "\<exists>t. run demo_world False [Cmd ((new_command ''a'')\<lparr>stdout := RFile ''out''\<rparr>)] = (t, Inr (Some 1)) \<and> closed t = [0]"
proof -
  obtain t where t: "run demo_world False [Cmd ((new_command ''a'')\<lparr>stdout := RFile ''out''\<rparr>)] = (t, Inr (Some 1))"
      "opened t = 1"
    by (simp add: run_def run_command_def run_stdin_def run_stdout_def run_stderr_def run_popen_def Let_def
        show_text_def open_out_file_def open_file_def finish_segment_def close_files_def exec_piped_commands_def
        demo_world_def new_command_def run_init_def)
  then show ?thesis using run_cleans_up [OF t(1)] by simp
qed

text \<open>
  In verbose mode a runnable pipeline with \<^verbatim>\<open>&&\<close> or \<^verbatim>\<open>||\<close>
  after a command always ends in the UnboundLocalError of the status line.
\<close>

theorem verbose_and_or_raises:
  assumes "all_works w" and "runnable p" and "has_and_or p"
  shows "snd (run w True p) = Inl UnboundLocalError"
  using run_loop_verbose [OF assms(1,2) _ assms(3), of run_init] by (simp add: run_def run_init_def)

theorem verbose_and_or_raises_witness:
  "snd (run demo_world True [Cmd (new_command ''a''), And, Cmd (new_command ''b'')]) = Inl UnboundLocalError"
proof (rule verbose_and_or_raises)
  have "env_var_match ''a'' = None" "env_var_match ''b'' = None" by code_simp+
  then show "runnable [Cmd (new_command ''a''), And, Cmd (new_command ''b'')]"
    by (simp add: new_command_def wf_command_def)
qed (simp_all add: all_works_def demo_world_def)

text \<open>Two facts about the parser that a reader may not expect.\<close>

lemma or_is_not_abbreviated:
  "get_abbreviated_command [Cmd (new_command ''a''), Or, Cmd (new_command ''b'')] = ''a b''"
  by (simp add: get_abbreviated_command_def new_command_def)

lemma trailing_redirect_is_dropped: "parse_tokens [''a'', ''>''] = parse_tokens [''a'']"
  by code_simp

end
