(* ===== verification/CheckStyle.thy ===== *)
theory CheckStyle
  imports Prelude
begin

section \<open>Patches and indentation: \<^verbatim>\<open>utils/check-style.py\<close>\<close>

text \<open>
  The patch reader and writer of \<^verbatim>\<open>check-style.py\<close>, the removal of changes in trailing
  white space, the configuration of \<^verbatim>\<open>uncrustify\<close>, and the functions that indent and compare
  files. The programs the script calls (\<^verbatim>\<open>uncrustify\<close>, \<^verbatim>\<open>difflib\<close>, \<^verbatim>\<open>patch\<close>,
  \<^verbatim>\<open>filecmp\<close>) are parameters.
\<close>

subsection \<open>The configuration levels\<close>

definition level0 :: "string list" where
  "level0 =
  [''sp_after_semi_for=Ignore'',
   ''sp_before_sparen=Ignore'',
   ''sp_type_func=Ignore'',
   ''sp_after_type=Ignore'',
   ''nl_class_leave_one_liners=True'',
   ''nl_enum_leave_one_liners=True'',
   ''nl_func_leave_one_liners=True'',
   ''nl_assign_leave_one_liners=True'',
   ''#nl_collapse_empty_body=False'',
   ''nl_getset_leave_one_liners=True'',
   ''nl_if_leave_one_liners=True'',
   ''nl_fdef_brace=Ignore'',
   ''# finally, indentation configuration'',
   ''indent_with_tabs=0'',
   ''indent_namespace=false'',
   ''indent_columns=2'',
   ''indent_brace=2'',
   ''indent_case_brace=2'',
   ''indent_class=true'',
   ''indent_class_colon=True'',
   ''# alignment'',
   ''indent_align_assign=False'',
   ''align_left_shift=True'',
   ''# comment reformating disabled'',
   ''cmt_reflow_mode=1 # do not touch comments at all'',
   ''cmt_indent_multi=False # really, do not touch them'']"

definition level1 :: "string list" where
  "level1 =
  [''# extra spaces here and there'',
   ''sp_func_proto_paren=Add'',
   ''sp_func_def_paren=Add'',
   ''sp_func_call_paren=Add'',
   ''sp_brace_typedef=Add'',
   ''sp_enum_assign=Add'',
   ''sp_before_sparen=Add'',
   ''sp_after_semi_for=Add'',
   ''sp_arith=Add'',
   ''sp_assign=Add'',
   ''sp_compare=Add'',
   ''sp_cmt_cpp_start=Add'',
   ''sp_func_class_paren=Add'',
   ''sp_after_type=Add'',
   ''sp_type_func=Add'',
   ''sp_angle_paren=Add'']"

definition level2 :: "string list" where
  "level2 =
  [''nl_collapse_empty_body=False'',
   ''nl_if_brace=Add'',
   ''nl_brace_else=Add'',
   ''nl_elseif_brace=Add'',
   ''nl_else_brace=Add'',
   ''nl_while_brace=Add'',
   ''nl_do_brace=Add'',
   ''nl_for_brace=Add'',
   ''nl_brace_while=Add'',
   ''nl_switch_brace=Add'',
   ''nl_after_case=True'',
   ''nl_namespace_brace=Remove'',
   ''nl_after_brace_open=True'',
   ''nl_class_leave_one_liners=False'',
   ''nl_enum_leave_one_liners=False'',
   ''nl_func_leave_one_liners=False'',
   ''nl_if_leave_one_liners=False'',
   ''nl_class_colon=Ignore'',
   ''nl_after_access_spec=1'',
   ''nl_after_semicolon=True'',
   ''pos_class_colon=Lead'',
   ''pos_class_comma=Trail'',
   ''pos_bool=Lead'',
   ''nl_class_init_args=Add'',
   ''nl_template_class=Add'',
   ''nl_class_brace=Add'',
   ''# does not work very well'',
   ''nl_func_type_name=Ignore'',
   ''nl_func_scope_name=Ignore'',
   ''nl_func_type_name_class=Ignore'',
   ''nl_func_proto_type_name=Ignore'',
   ''# function'' @ CHR 0x5C # ''n('',
   ''nl_func_paren=Remove'',
   ''nl_fdef_brace=Add'',
   ''nl_struct_brace=Add'',
   ''nl_enum_brace=Add'',
   ''nl_union_brace=Add'',
   ''mod_full_brace_do=Add'',
   ''mod_full_brace_for=Add'',
   ''mod_full_brace_if=Add'',
   ''mod_full_brace_while=Add'',
   ''mod_full_brace_for=Add'',
   ''mod_remove_extra_semicolon=True'',
   ''# max code width'',
   ''#code_width=128'',
   ''#ls_for_split_full=True'',
   ''#ls_func_split_full=True'']"

definition uncrustify_config_file :: "int \<Rightarrow> string list" where
  "uncrustify_config_file level =
     level0 @ (if level \<ge> 1 then level1 else []) @ (if level \<ge> 2 then level2 else [])"

text \<open>The option a configuration line sets, and the value in force: the last one wins.\<close>

definition config_option :: "string \<Rightarrow> (string \<times> string) option" where
  "config_option l =
     (let t = takeWhile (\<lambda>c. c \<noteq> CHR ''#'') l; k = takeWhile (\<lambda>c. c \<noteq> CHR ''='') t
      in if k = [] \<or> length k = length t then None else Some (k, strip (drop (length k + 1) t)))"

definition config_value :: "string list \<Rightarrow> string \<Rightarrow> string option" where
  "config_value ls k = map_of (rev (List.map_filter config_option ls)) k"

lemma config_value_append:
  "config_value (xs @ ys) k = (case config_value ys k of None \<Rightarrow> config_value xs k | Some v \<Rightarrow> Some v)"
  by (simp add: config_value_def List.map_filter_def map_add_def split: option.splits)

subsection \<open>Patches\<close>

text \<open>
  A line object is shared between the lists \<^verbatim>\<open>src()\<close> and \<^verbatim>\<open>dst()\<close> of its chunk when its type
  is \<^verbatim>\<open>BOTH\<close>; here both lists are lists of positions in the chunk, so that an update through
  one is seen through the other.
\<close>

datatype line_type = NoType | SRC | DST | BOTH

record pline =
  ltype :: line_type
  ltext :: string

record chunk =
  clines :: "pline list"
  src_pos :: nat
  dst_pos :: nat

record patch =
  p_src :: string
  p_dst :: string
  chunks :: "chunk list"

definition is_src :: "pline \<Rightarrow> bool" where
  "is_src l \<longleftrightarrow> ltype l = SRC \<or> ltype l = BOTH"

definition is_dst :: "pline \<Rightarrow> bool" where
  "is_dst l \<longleftrightarrow> ltype l = DST \<or> ltype l = BOTH"

definition chunk_src :: "chunk \<Rightarrow> nat list" where
  "chunk_src c = filter (\<lambda>i. is_src (clines c ! i)) [0..<length (clines c)]"

definition chunk_dst :: "chunk \<Rightarrow> nat list" where
  "chunk_dst c = filter (\<lambda>i. is_dst (clines c ! i)) [0..<length (clines c)]"

definition write_line :: "pline \<Rightarrow> string res" where
  "write_line l =
     (case ltype l of
        SRC \<Rightarrow> Inr (''-'' @ ltext l @ ''\<newline>'')
      | DST \<Rightarrow> Inr (''+'' @ ltext l @ ''\<newline>'')
      | BOTH \<Rightarrow> Inr ('' '' @ ltext l @ ''\<newline>'')
      | NoType \<Rightarrow> Inl (PyException ''invalid patch''))"

definition write_chunk :: "chunk \<Rightarrow> string list res" where
  "write_chunk c =
     rbind (rmap write_line (clines c)) (\<lambda>ls.
       Inr ((''@@ -'' @ nat_str (src_pos c) @ '','' @ nat_str (length (chunk_src c)) @ '' +'' @
             nat_str (dst_pos c) @ '','' @ nat_str (length (chunk_dst c)) @ '' @@\<newline>'') # ls))"

definition write_patch :: "patch \<Rightarrow> string list res" where
  "write_patch p =
     rbind (rmap write_chunk (chunks p)) (\<lambda>css.
       Inr ((''--- '' @ p_src p @ ''\<newline>'') # (''+++ '' @ p_dst p @ ''\<newline>'') # concat css))"

subsection \<open>Reading a patch set\<close>

text \<open>The regular expressions \<^verbatim>\<open>^p(.*)$\<close>: the dot does not match a newline, \<^verbatim>\<open>$\<close> matches before a final one.\<close>

definition chomp :: "string \<Rightarrow> string" where
  "chomp s = (if s \<noteq> [] \<and> last s = CHR ''\<newline>'' then butlast s else s)"

definition match_rest :: "string \<Rightarrow> string \<Rightarrow> string option" where
  "match_rest pre line =
     (let b = chomp line
      in if starts_with b pre \<and> CHR ''\<newline>'' \<notin> set (drop (length pre) b) then Some (drop (length pre) b) else None)"

definition match_chunk_start :: "string \<Rightarrow> (nat \<times> nat) option" where
  "match_chunk_start line =
     Option.bind (eat ''@@ -'' line) (\<lambda>s. Option.bind (eat_number s) (\<lambda>(a, s).
     Option.bind (eat '','' s) (\<lambda>s. Option.bind (eat_number s) (\<lambda>(_, s).
     Option.bind (eat '' +'' s) (\<lambda>s. Option.bind (eat_number s) (\<lambda>(b, s).
     Option.bind (eat '','' s) (\<lambda>s. Option.bind (eat_number s) (\<lambda>(_, s).
     Option.bind (eat '' @@'' s) (\<lambda>_. Some (a, b))))))))))"

text \<open>
  The state of the loop: the patches so far, of which \<^verbatim>\<open>current_patch\<close> is the last, and
  the index of the patch whose last chunk is \<^verbatim>\<open>current_chunk\<close>. A chunk is created after its
  patch, so \<^verbatim>\<open>current_chunk\<close> can still belong to an earlier patch.
\<close>

record reader =
  patchset :: "patch list"
  current_chunk :: "nat option"

definition add_line :: "line_type \<Rightarrow> string \<Rightarrow> reader \<Rightarrow> reader res" where
  "add_line ty s r =
     (case current_chunk r of
        None \<Rightarrow> Inl UnboundLocalError
      | Some k \<Rightarrow>
          let p = patchset r ! k; c = last (chunks p);
              c' = c\<lparr>clines := clines c @ [\<lparr>ltype = ty, ltext = s\<rparr>]\<rparr>
          in Inr (r\<lparr>patchset := (patchset r)[k := p\<lparr>chunks := butlast (chunks p) @ [c']\<rparr>]\<rparr>))"

definition on_current_patch :: "(patch \<Rightarrow> patch) \<Rightarrow> reader \<Rightarrow> reader res" where
  "on_current_patch f r =
     (if patchset r = [] then Inl AttributeError
      else Inr (r\<lparr>patchset := butlast (patchset r) @ [f (last (patchset r))]\<rparr>))"

definition parse_line :: "reader \<Rightarrow> string \<Rightarrow> reader res" where
  "parse_line r line =
     (case match_rest ''--- '' line of
        Some s \<Rightarrow> Inr (r\<lparr>patchset := patchset r @ [\<lparr>p_src = s, p_dst = [], chunks = []\<rparr>]\<rparr>)
      | None \<Rightarrow> (case match_rest ''+++ '' line of
        Some s \<Rightarrow> on_current_patch (\<lambda>p. p\<lparr>p_dst := s\<rparr>) r
      | None \<Rightarrow> (case match_chunk_start line of
        Some (a, b) \<Rightarrow>
          rbind (on_current_patch (\<lambda>p. p\<lparr>chunks := chunks p @ [\<lparr>clines = [], src_pos = a, dst_pos = b\<rparr>]\<rparr>) r)
            (\<lambda>r. Inr (r\<lparr>current_chunk := Some (length (patchset r) - 1)\<rparr>))
      | None \<Rightarrow> (case match_rest ''-'' line of
        Some s \<Rightarrow> add_line SRC s r
      | None \<Rightarrow> (case match_rest ''+'' line of
        Some s \<Rightarrow> add_line DST s r
      | None \<Rightarrow> (case match_rest '' '' line of
        Some s \<Rightarrow> add_line BOTH s r
      | None \<Rightarrow> Inl (PyException [])))))))"

definition parse_patchset :: "string list \<Rightarrow> patch list res" where
  "parse_patchset generator =
     rbind (rfold parse_line \<lparr>patchset = [], current_chunk = None\<rparr> generator) (\<lambda>r. Inr (patchset r))"

subsection \<open>Changes in trailing white space\<close>

text \<open>
  \<^verbatim>\<open>^(.*)([ \t]+)$\<close>: the first group is greedy, so the second is the last character only.
\<close>

definition is_blank :: "char \<Rightarrow> bool" where
  "is_blank c \<longleftrightarrow> c = CHR '' '' \<or> c = CHR 0x09"

definition match_whitespace :: "string \<Rightarrow> (string \<times> string) option" where
  "match_whitespace s = (if s \<noteq> [] \<and> is_blank (last s) then Some (butlast s, [last s]) else None)"

text \<open>One turn of the inner loop; \<open>None\<close> is the IndexError of \<^verbatim>\<open>dst[i]\<close>.\<close>

definition fix_line :: "nat list \<Rightarrow> nat list \<Rightarrow> pline list \<Rightarrow> nat \<Rightarrow> pline list option" where
  "fix_line src dst ls i =
     (if i < length dst then
        (let s = ls ! (src ! i); d = ls ! (dst ! i)
         in Some (case match_whitespace (ltext s) of
               Some (g1, g2) \<Rightarrow>
                 if g1 = ltext d then ls[dst ! i := d\<lparr>ltext := ltext d @ g2\<rparr>] else ls
             | None \<Rightarrow> ls))
      else None)"

fun fix_lines :: "nat list \<Rightarrow> nat list \<Rightarrow> pline list \<Rightarrow> nat list \<Rightarrow> pline list \<times> bool" where
  "fix_lines src dst ls [] = (ls, True)"
| "fix_lines src dst ls (i # is) =
     (case fix_line src dst ls i of None \<Rightarrow> (ls, False) | Some ls' \<Rightarrow> fix_lines src dst ls' is)"

definition fix_chunk :: "chunk \<Rightarrow> chunk \<times> bool" where
  "fix_chunk c =
     (case fix_lines (chunk_src c) (chunk_dst c) (clines c) [0..<length (chunk_src c)] of
        (ls, ok) \<Rightarrow> (c\<lparr>clines := ls\<rparr>, ok))"

text \<open>The handler returns from the function: the chunks and patches that follow are left alone.\<close>

fun fix_chunks :: "chunk list \<Rightarrow> chunk list \<times> bool" where
  "fix_chunks [] = ([], True)"
| "fix_chunks (c # cs) =
     (case fix_chunk c of
        (c', True) \<Rightarrow> (case fix_chunks cs of (cs', ok) \<Rightarrow> (c' # cs', ok))
      | (c', False) \<Rightarrow> (c' # cs, False))"

fun fix_patches :: "patch list \<Rightarrow> patch list" where
  "fix_patches [] = []"
| "fix_patches (p # ps) =
     (case fix_chunks (chunks p) of
        (cs, True) \<Rightarrow> p\<lparr>chunks := cs\<rparr> # fix_patches ps
      | (cs, False) \<Rightarrow> p\<lparr>chunks := cs\<rparr> # ps)"

definition remove_trailing_whitespace_changes :: "string list \<Rightarrow> patch list res" where
  "remove_trailing_whitespace_changes patch_generator =
     rbind (parse_patchset patch_generator) (\<lambda>ps. Inr (fix_patches ps))"

subsection \<open>Reading back what was written\<close>

definition no_newline :: "string \<Rightarrow> bool" where
  "no_newline s \<longleftrightarrow> CHR ''\<newline>'' \<notin> set s"

text \<open>
  A removed line that begins with \<^verbatim>\<open>-- \<close> and an added line that begins with \<^verbatim>\<open>++ \<close> are
  written like the header of a patch.
\<close>

definition line_ok :: "pline \<Rightarrow> bool" where
  "line_ok l \<longleftrightarrow> no_newline (ltext l) \<and> ltype l \<noteq> NoType \<and>
     (ltype l = SRC \<longrightarrow> \<not> starts_with (ltext l) ''-- '') \<and> (ltype l = DST \<longrightarrow> \<not> starts_with (ltext l) ''++ '')"

definition patch_ok :: "patch \<Rightarrow> bool" where
  "patch_ok p \<longleftrightarrow> no_newline (p_src p) \<and> no_newline (p_dst p) \<and> (\<forall>c\<in>set (chunks p). \<forall>l\<in>set (clines c). line_ok l)"

definition write_patches :: "patch list \<Rightarrow> string list" where
  "write_patches ps = concat (map (\<lambda>p. case write_patch p of Inl e \<Rightarrow> [] | Inr ls \<Rightarrow> ls) ps)"

fun line_text :: "pline \<Rightarrow> string" where
  "line_text l = (case ltype l of SRC \<Rightarrow> CHR ''-'' | DST \<Rightarrow> CHR ''+'' | _ \<Rightarrow> CHR '' '') # ltext l @ ''\<newline>''"

definition chunk_header :: "chunk \<Rightarrow> string" where
  "chunk_header c = ''@@ -'' @ nat_str (src_pos c) @ '','' @ nat_str (length (chunk_src c)) @ '' +'' @
     nat_str (dst_pos c) @ '','' @ nat_str (length (chunk_dst c)) @ '' @@\<newline>''"

definition chunk_text :: "chunk \<Rightarrow> string list" where
  "chunk_text c = chunk_header c # map line_text (clines c)"

lemma write_line_ok: "line_ok l \<Longrightarrow> write_line l = Inr (line_text l)"
  by (cases "ltype l") (simp_all add: write_line_def line_ok_def)

lemma write_chunk_ok: "\<forall>l\<in>set (clines c). line_ok l \<Longrightarrow> write_chunk c = Inr (chunk_text c)"
  using rmap_total [of "clines c" write_line line_text] write_line_ok
  by (simp add: write_chunk_def chunk_text_def chunk_header_def)

lemma write_patch_ok:
  "patch_ok p \<Longrightarrow> write_patch p = Inr ((''--- '' @ p_src p @ ''\<newline>'') # (''+++ '' @ p_dst p @ ''\<newline>'') #
     concat (map chunk_text (chunks p)))"
  using rmap_total [of "chunks p" write_chunk chunk_text] write_chunk_ok
  by (simp add: write_patch_def patch_ok_def)

lemma match_rest_same: "no_newline s \<Longrightarrow> match_rest pre (pre @ s @ ''\<newline>'') = Some s"
proof -
  assume "no_newline s"
  moreover have "chomp (pre @ s @ ''\<newline>'') = pre @ s" by (simp add: chomp_def butlast_append)
  ultimately show ?thesis by (simp add: match_rest_def no_newline_def)
qed

lemma match_rest_hd: "c \<noteq> d \<Longrightarrow> match_rest (c # pre) (d # s) = None"
  by (auto simp: match_rest_def chomp_def starts_with_def Let_def)

lemma match_rest_longer:
  assumes "\<not> starts_with s pre"
  shows "match_rest (c # pre) (c # s @ ''\<newline>'') = None"
proof -
  have "chomp (c # s @ ''\<newline>'') = c # s" by (simp add: chomp_def butlast_append)
  then show ?thesis using assms by (simp add: match_rest_def starts_with_def)
qed

lemma match_chunk_header: "match_chunk_start (chunk_header c) = Some (src_pos c, dst_pos c)"
proof -
  have e: "eat '','' (CHR '','' # s) = Some s" "eat '' +'' (CHR '' '' # CHR ''+'' # s) = Some s"
    "eat '' @@'' (CHR '' '' # CHR ''@'' # CHR ''@'' # s) = Some s"
    "eat ''@@ -'' (CHR ''@'' # CHR ''@'' # CHR '' '' # CHR ''-'' # s) = Some s" for s
    by (simp_all add: eat_def starts_with_def)
  show ?thesis by (simp add: match_chunk_start_def chunk_header_def e)
qed

lemma match_chunk_hd: "d \<noteq> CHR ''@'' \<Longrightarrow> match_chunk_start (d # s) = None"
  by (simp add: match_chunk_start_def eat_def starts_with_def)

lemma parse_written_line:
  assumes "line_ok l" and "length P = k"
  shows "parse_line \<lparr>patchset = P @ [p\<lparr>chunks := cs @ [c]\<rparr>], current_chunk = Some k\<rparr> (line_text l) =
     Inr \<lparr>patchset = P @ [p\<lparr>chunks := cs @ [c\<lparr>clines := clines c @ [l]\<rparr>]\<rparr>], current_chunk = Some k\<rparr>"
proof -
  let ?r = "\<lparr>patchset = P @ [p\<lparr>chunks := cs @ [c]\<rparr>], current_chunk = Some k\<rparr>"
  have "parse_line ?r (line_text l) = add_line (ltype l) (ltext l) ?r"
  proof (cases "ltype l")
    case NoType
    then show ?thesis using assms by (simp add: line_ok_def)
  next
    case SRC
    then have s: "\<not> starts_with (ltext l) ''-- ''" "no_newline (ltext l)" "line_text l = CHR ''-'' # ltext l @ ''\<newline>''"
      using assms(1) by (auto simp: line_ok_def)
    show ?thesis using match_rest_longer [OF s(1), of "CHR ''-''"] match_rest_same [OF s(2), of "''-''"] s(3) SRC
      by (simp add: parse_line_def match_rest_hd match_chunk_hd del: line_text.simps)
  next
    case DST
    then have s: "\<not> starts_with (ltext l) ''++ ''" "no_newline (ltext l)" "line_text l = CHR ''+'' # ltext l @ ''\<newline>''"
      using assms(1) by (auto simp: line_ok_def)
    show ?thesis using match_rest_longer [OF s(1), of "CHR ''+''"] match_rest_same [OF s(2), of "''+''"] s(3) DST
      by (simp add: parse_line_def match_rest_hd match_chunk_hd del: line_text.simps)
  next
    case BOTH
    then have s: "no_newline (ltext l)" "line_text l = CHR '' '' # ltext l @ ''\<newline>''"
      using assms(1) by (auto simp: line_ok_def)
    show ?thesis using match_rest_same [OF s(1), of "'' ''"] s(2) BOTH
      by (simp add: parse_line_def match_rest_hd match_chunk_hd del: line_text.simps)
  qed
  moreover have "\<lparr>ltype = ltype l, ltext = ltext l\<rparr> = l" by simp
  ultimately show ?thesis by (simp add: add_line_def Let_def assms(2) [symmetric])
qed

lemma parse_written_lines:
  assumes "\<forall>l\<in>set ls. line_ok l" and "length P = k"
  shows "rfold parse_line \<lparr>patchset = P @ [p\<lparr>chunks := cs @ [c]\<rparr>], current_chunk = Some k\<rparr> (map line_text ls) =
     Inr \<lparr>patchset = P @ [p\<lparr>chunks := cs @ [c\<lparr>clines := clines c @ ls\<rparr>]\<rparr>], current_chunk = Some k\<rparr>"
  using assms
proof (induction ls arbitrary: c)
  case (Cons l ls)
  have "parse_line \<lparr>patchset = P @ [p\<lparr>chunks := cs @ [c]\<rparr>], current_chunk = Some k\<rparr> (line_text l) =
     Inr \<lparr>patchset = P @ [p\<lparr>chunks := cs @ [c\<lparr>clines := clines c @ [l]\<rparr>]\<rparr>], current_chunk = Some k\<rparr>"
    using Cons.prems by (intro parse_written_line) auto
  moreover have "\<forall>l\<in>set ls. line_ok l" using Cons.prems(1) by simp
  ultimately show ?case
    using Cons.IH [of "c\<lparr>clines := clines c @ [l]\<rparr>"] Cons.prems(2) by (simp del: line_text.simps)
qed simp

lemma parse_written_chunk:
  assumes "\<forall>l\<in>set (clines c). line_ok l" and "length P = k"
  shows "rfold parse_line \<lparr>patchset = P @ [p\<lparr>chunks := cs\<rparr>], current_chunk = cc\<rparr> (chunk_text c) =
     Inr \<lparr>patchset = P @ [p\<lparr>chunks := cs @ [c]\<rparr>], current_chunk = Some k\<rparr>"
proof -
  have hd: "match_rest ''--- '' (chunk_header c) = None" "match_rest ''+++ '' (chunk_header c) = None"
    by (simp_all add: chunk_header_def match_rest_hd)
  let ?c = "\<lparr>clines = [], src_pos = src_pos c, dst_pos = dst_pos c\<rparr>"
  have "parse_line \<lparr>patchset = P @ [p\<lparr>chunks := cs\<rparr>], current_chunk = cc\<rparr> (chunk_header c) =
      Inr \<lparr>patchset = P @ [p\<lparr>chunks := cs @ [?c]\<rparr>], current_chunk = Some k\<rparr>"
    using assms(2) by (simp add: parse_line_def hd match_chunk_header on_current_patch_def)
  then show ?thesis
    using parse_written_lines [OF assms, where p = p and cs = cs and c = ?c] by (simp add: chunk_text_def del: line_text.simps)
qed

lemma parse_written_chunks:
  assumes "\<forall>c\<in>set ds. \<forall>l\<in>set (clines c). line_ok l" and "length P = k"
  shows "\<exists>cc'. rfold parse_line \<lparr>patchset = P @ [p\<lparr>chunks := cs\<rparr>], current_chunk = cc\<rparr> (concat (map chunk_text ds)) =
     Inr \<lparr>patchset = P @ [p\<lparr>chunks := cs @ ds\<rparr>], current_chunk = cc'\<rparr>"
  using assms
proof (induction ds arbitrary: cs cc)
  case (Cons d ds)
  then show ?case
    using parse_written_chunk [of d P k, where p = p and cs = cs and cc = cc] Cons.IH [of "cs @ [d]" "Some k"] by (simp add: rfold_append)
qed simp

lemma parse_written_patch:
  assumes "patch_ok p"
  shows "\<exists>cc'. rfold parse_line \<lparr>patchset = P, current_chunk = cc\<rparr> (write_patches [p]) =
     Inr \<lparr>patchset = P @ [p], current_chunk = cc'\<rparr>"
proof -
  let ?p = "\<lparr>p_src = p_src p, p_dst = p_dst p, chunks = []\<rparr>"
  have n: "no_newline (p_src p)" "no_newline (p_dst p)" using assms by (simp_all add: patch_ok_def)
  have "parse_line \<lparr>patchset = P, current_chunk = cc\<rparr> (''--- '' @ p_src p @ ''\<newline>'') =
      Inr \<lparr>patchset = P @ [?p\<lparr>p_dst := []\<rparr>], current_chunk = cc\<rparr>"
    using match_rest_same [OF n(1), of "''--- ''"] by (simp add: parse_line_def)
  moreover have "parse_line \<lparr>patchset = P @ [?p\<lparr>p_dst := []\<rparr>], current_chunk = cc\<rparr> (''+++ '' @ p_dst p @ ''\<newline>'') =
      Inr \<lparr>patchset = P @ [p\<lparr>chunks := []\<rparr>], current_chunk = cc\<rparr>"
    using match_rest_same [OF n(2), of "''+++ ''"] match_rest_hd
    by (cases p) (simp add: parse_line_def on_current_patch_def)
  moreover obtain cc' where "rfold parse_line \<lparr>patchset = P @ [p\<lparr>chunks := []\<rparr>], current_chunk = cc\<rparr>
      (concat (map chunk_text (chunks p))) = Inr \<lparr>patchset = P @ [p\<lparr>chunks := [] @ chunks p\<rparr>], current_chunk = cc'\<rparr>"
    using parse_written_chunks [of "chunks p" P "length P", where p = p and cs = "[]" and cc = cc] assms by (auto simp: patch_ok_def)
  ultimately show ?thesis using write_patch_ok [OF assms] by (simp add: write_patches_def)
qed

lemma parse_written_patches:
  assumes "\<forall>p\<in>set ps. patch_ok p"
  shows "\<exists>cc'. rfold parse_line \<lparr>patchset = P, current_chunk = cc\<rparr> (write_patches ps) =
     Inr \<lparr>patchset = P @ ps, current_chunk = cc'\<rparr>"
  using assms
proof (induction ps arbitrary: P cc)
  case (Cons p ps)
  obtain cc1 where 1: "rfold parse_line \<lparr>patchset = P, current_chunk = cc\<rparr> (write_patches [p]) =
     Inr \<lparr>patchset = P @ [p], current_chunk = cc1\<rparr>" using parse_written_patch Cons.prems by fastforce
  have "write_patches (p # ps) = write_patches [p] @ write_patches ps" by (simp add: write_patches_def)
  then show ?case using 1 Cons.IH [of "P @ [p]" cc1] Cons.prems by (simp add: rfold_append)
qed (simp add: write_patches_def)

interpretation pt: codec write_patches parse_patchset "\<lambda>ps. \<forall>p\<in>set ps. patch_ok p"
proof
  fix ps
  assume "\<forall>p\<in>set ps. patch_ok p"
  then show "parse_patchset (write_patches ps) = Inr ps"
    using parse_written_patches [of ps "[]" None] by (auto simp: parse_patchset_def)
qed

subsection \<open>What the removal of white-space changes does\<close>

text \<open>\<open>blank_ext ls ls'\<close>: the same lines, some of them longer by blanks at the end, none of them a removed one.\<close>

definition line_ext :: "pline \<Rightarrow> pline \<Rightarrow> bool" where
  "line_ext l l' \<longleftrightarrow> ltype l' = ltype l \<and>
     (\<exists>ws. list_all is_blank ws \<and> ltext l' = ltext l @ ws \<and> (ltype l = SRC \<longrightarrow> ws = []))"

definition blank_ext :: "pline list \<Rightarrow> pline list \<Rightarrow> bool" where
  "blank_ext ls ls' \<longleftrightarrow> list_all2 line_ext ls ls'"

lemma line_ext_refl [simp]: "line_ext l l"
  by (auto simp: line_ext_def intro: exI [of _ "[]"])

lemma line_ext_trans:
  assumes "line_ext l m" and "line_ext m n"
  shows "line_ext l n"
proof -
  obtain u v where "list_all is_blank u" "ltext m = ltext l @ u" "list_all is_blank v" "ltext n = ltext m @ v"
      "ltype m = ltype l" "ltype n = ltype m" "ltype l = SRC \<longrightarrow> u = [] \<and> v = []"
    using assms by (auto simp: line_ext_def)
  then show ?thesis by (auto simp: line_ext_def intro: exI [of _ "u @ v"])
qed

lemma blank_ext_refl [simp]: "blank_ext ls ls"
  unfolding blank_ext_def by (rule list_all2_refl) simp

lemma blank_ext_trans: "blank_ext ls ms \<Longrightarrow> blank_ext ms ns \<Longrightarrow> blank_ext ls ns"
  unfolding blank_ext_def by (rule list_all2_trans [OF line_ext_trans])

lemma blank_ext_flags:
  "blank_ext ls ls' \<Longrightarrow> map is_src ls' = map is_src ls \<and> map is_dst ls' = map is_dst ls"
  unfolding blank_ext_def by (induction rule: list_all2_induct) (auto simp: is_src_def is_dst_def line_ext_def)

lemma fix_line_ext:
  assumes "fix_line src dst ls i = Some ls'" and "\<forall>k\<in>set dst. k < length ls \<and> is_dst (ls ! k)"
  shows "blank_ext ls ls'"
proof (cases "ls' = ls")
  case False
  let ?d = "ls ! (dst ! i)"
  have i: "i < length dst" using assms(1) by (auto simp: fix_line_def split: if_splits)
  then have k: "dst ! i < length ls" "is_dst ?d" using assms(2) by auto
  obtain b where "is_blank b" and ls': "ls' = ls[dst ! i := ?d\<lparr>ltext := ltext ?d @ [b]\<rparr>]"
    using assms(1) False i by (auto simp: fix_line_def match_whitespace_def Let_def split: if_splits)
  moreover have "ltype ?d \<noteq> SRC" using k(2) by (auto simp: is_dst_def)
  ultimately have "line_ext ?d (?d\<lparr>ltext := ltext ?d @ [b]\<rparr>)" by (auto simp: line_ext_def)
  then show ?thesis
    unfolding blank_ext_def list_all2_conv_all_nth ls' by (auto simp: nth_list_update k(1))
qed simp

lemma fix_lines_ext:
  assumes "fix_lines src dst ls is = (ls', ok)" and "\<forall>k\<in>set dst. k < length ls \<and> is_dst (ls ! k)"
  shows "blank_ext ls ls'"
  using assms
proof (induction "is" arbitrary: ls)
  case (Cons i "is")
  show ?case
  proof (cases "fix_line src dst ls i")
    case (Some ms)
    then have ext: "blank_ext ls ms" using fix_line_ext Cons.prems(2) by blast
    have "length ms = length ls" using ext unfolding blank_ext_def by (simp add: list_all2_lengthD)
    moreover have "is_dst (ms ! k) = is_dst (ls ! k)" if "k < length ls" for k
      using blank_ext_flags [OF ext] that calculation by (metis nth_map)
    ultimately have "blank_ext ms ls'" using Cons Some by simp
    with ext show ?thesis by (rule blank_ext_trans)
  qed (use Cons.prems(1) in simp)
qed simp

lemma chunk_dst_range: "\<forall>k\<in>set (chunk_dst c). k < length (clines c) \<and> is_dst (clines c ! k)"
  by (auto simp: chunk_dst_def)

definition chunk_ext :: "chunk \<Rightarrow> chunk \<Rightarrow> bool" where
  "chunk_ext c c' \<longleftrightarrow> src_pos c' = src_pos c \<and> dst_pos c' = dst_pos c \<and> blank_ext (clines c) (clines c')"

lemma chunk_ext_refl [simp]: "chunk_ext c c"
  by (simp add: chunk_ext_def)

lemma fix_chunk_ext: "fix_chunk c = (c', ok) \<Longrightarrow> chunk_ext c c'"
  using fix_lines_ext [OF _ chunk_dst_range] by (auto simp: fix_chunk_def chunk_ext_def split: prod.splits)

lemma fix_chunks_ext: "fix_chunks cs = (cs', ok) \<Longrightarrow> list_all2 chunk_ext cs cs'"
proof (induction cs arbitrary: cs' ok)
  case (Cons c cs)
  then show ?case
    by (auto split: prod.splits bool.splits dest: fix_chunk_ext simp: list_all2_refl)
qed simp

lemma chunk_ext_counts:
  assumes "chunk_ext c c'"
  shows "chunk_src c' = chunk_src c" and "chunk_dst c' = chunk_dst c"
proof -
  have ext: "blank_ext (clines c) (clines c')" using assms by (simp add: chunk_ext_def)
  then have len: "length (clines c') = length (clines c)" unfolding blank_ext_def by (simp add: list_all2_lengthD)
  note flags = blank_ext_flags [OF ext]
  show "chunk_src c' = chunk_src c" unfolding chunk_src_def len
    using flags len by (intro filter_cong refl) (metis atLeastLessThan_iff nth_map set_upt)
  show "chunk_dst c' = chunk_dst c" unfolding chunk_dst_def len
    using flags len by (intro filter_cong refl) (metis atLeastLessThan_iff nth_map set_upt)
qed

definition patch_ext :: "patch \<Rightarrow> patch \<Rightarrow> bool" where
  "patch_ext p p' \<longleftrightarrow> p_src p' = p_src p \<and> p_dst p' = p_dst p \<and> list_all2 chunk_ext (chunks p) (chunks p')"

lemma fix_patches_ext: "list_all2 patch_ext ps (fix_patches ps)"
proof (induction ps)
  case (Cons p ps)
  have "patch_ext q q" for q by (simp add: patch_ext_def list_all2_refl)
  then show ?case using Cons fix_chunks_ext [of "chunks p"]
    by (auto simp: patch_ext_def list_all2_refl split: prod.splits bool.splits)
qed simp

text \<open>In a chunk without context lines the change of the i-th line is undone when it is one blank.\<close>

definition undone :: "string \<Rightarrow> string \<Rightarrow> string" where
  "undone s d = (if s \<noteq> [] \<and> is_blank (last s) \<and> butlast s = d then s else d)"

lemma fix_line_undone:
  assumes "i < length dst" and "dst ! i < length ls"
  shows "fix_line src dst ls i = Some (ls[dst ! i := (ls ! (dst ! i))\<lparr>ltext := undone (ltext (ls ! (src ! i))) (ltext (ls ! (dst ! i)))\<rparr>])"
proof -
  define s where "s = ltext (ls ! (src ! i))"
  define d where "d = ltext (ls ! (dst ! i))"
  have same: "ls[dst ! i := (ls ! (dst ! i))\<lparr>ltext := d\<rparr>] = ls"
    using assms(2) by (simp add: d_def)
  show ?thesis
  proof (cases "s \<noteq> [] \<and> is_blank (last s) \<and> butlast s = d")
    case True
    then have "d @ [last s] = s" using append_butlast_last_id by blast
    with True show ?thesis using assms(1)
      by (simp add: fix_line_def match_whitespace_def undone_def Let_def s_def [symmetric] d_def [symmetric])
  next
    case False
    then show ?thesis using assms(1) same
      by (auto simp: fix_line_def match_whitespace_def undone_def Let_def s_def [symmetric] d_def [symmetric])
  qed
qed

lemma fix_lines_append:
  "fix_lines src dst ls (is @ js) =
     (case fix_lines src dst ls is of (ls', True) \<Rightarrow> fix_lines src dst ls' js | (ls', False) \<Rightarrow> (ls', False))"
  by (induction "is" arbitrary: ls) (auto split: option.splits prod.splits bool.splits)

lemma fix_lines_undone:
  assumes "set src \<inter> set dst = {}" and "distinct dst" and "\<forall>k\<in>set dst. k < length ls"
    and "m \<le> length src" and "m \<le> length dst"
  shows "\<exists>ls'. fix_lines src dst ls [0..<m] = (ls', True) \<and> length ls' = length ls \<and>
    (\<forall>j<m. ltext (ls' ! (dst ! j)) = undone (ltext (ls ! (src ! j))) (ltext (ls ! (dst ! j)))) \<and>
    (\<forall>k. k \<notin> set (take m dst) \<longrightarrow> ls' ! k = ls ! k)"
  using assms(4,5)
proof (induction m)
  case (Suc m)
  then obtain ls' where l: "fix_lines src dst ls [0..<m] = (ls', True)" "length ls' = length ls"
      "\<forall>j<m. ltext (ls' ! (dst ! j)) = undone (ltext (ls ! (src ! j))) (ltext (ls ! (dst ! j)))"
      "\<forall>k. k \<notin> set (take m dst) \<longrightarrow> ls' ! k = ls ! k" by auto
  have m: "m < length src" "m < length dst" using Suc.prems by auto
  have k: "dst ! m < length ls'" using assms(3) m l(2) by simp
  have "src ! m \<notin> set (take m dst)" using assms(1) m(1) set_take_subset [of m dst] nth_mem by blast
  then have s: "ls' ! (src ! m) = ls ! (src ! m)" using l(4) by blast
  have "dst ! m \<notin> set (take m dst)"
    using assms(2) m by (auto simp: in_set_conv_nth nth_eq_iff_index_eq)
  then have d: "ls' ! (dst ! m) = ls ! (dst ! m)" using l(4) by blast
  let ?ls = "ls'[dst ! m := (ls ! (dst ! m))\<lparr>ltext := undone (ltext (ls ! (src ! m))) (ltext (ls ! (dst ! m)))\<rparr>]"
  have "fix_lines src dst ls [0..<Suc m] = (?ls, True)"
    using l(1) fix_line_undone [OF m(2) k, of src] s d by (simp add: fix_lines_append)
  moreover have "ltext (?ls ! (dst ! j)) = undone (ltext (ls ! (src ! j))) (ltext (ls ! (dst ! j)))" if "j < Suc m" for j
  proof (cases "j = m")
    case True
    then show ?thesis using k by simp
  next
    case False
    then have "j < m" "dst ! j \<noteq> dst ! m" using that m assms(2) by (auto simp: nth_eq_iff_index_eq)
    then show ?thesis using l(3) by simp
  qed
  moreover have "?ls ! k = ls ! k" if "k \<notin> set (take (Suc m) dst)" for k
    using that l(4) m(2) by (auto simp: take_Suc_conv_app_nth)
  ultimately show ?case using l(2) by (metis length_list_update)
qed (auto intro: exI [of _ ls])

subsection \<open>Indenting and comparing files\<close>

text \<open>
  \<^verbatim>\<open>uncrustify\<close> (\<open>None\<close>: not installed), \<^verbatim>\<open>difflib.unified_diff\<close>, the program
  \<^verbatim>\<open>patch\<close> and \<^verbatim>\<open>filecmp.cmp\<close> are fields of a record. A file is the list of its lines.
\<close>

type_synonym content = "string list"

record tools =
  uncrustify :: "string list \<Rightarrow> content \<Rightarrow> content option"
  unified_diff :: "content \<Rightarrow> content \<Rightarrow> string list"
  patch_tool :: "string list \<Rightarrow> content \<Rightarrow> content"
  file_cmp :: "content \<Rightarrow> content \<Rightarrow> bool"

text \<open>
  The difference is a generator: the copy that \<^verbatim>\<open>--debug\<close> writes to a file consumes it, and
  what is left for the final difference is empty.
\<close>

definition indent :: "tools \<Rightarrow> bool \<Rightarrow> int \<Rightarrow> content \<Rightarrow> content res" where
  "indent t debug level source =
     (case uncrustify t (uncrustify_config_file level) source of
        None \<Rightarrow> Inl (PyException ''uncrustify not installed'')
      | Some output \<Rightarrow>
          let diff = unified_diff t source output;
              diff = (if debug then [] else diff)
          in rbind (if level < 3 then
                 rbind (remove_trailing_whitespace_changes diff) (\<lambda>patchset.
                   if patchset \<noteq> [] then write_patch (patchset ! 0) else Inr [])
               else Inr diff)
             (\<lambda>final_diff. Inr (patch_tool t final_diff source)))"

type_synonym files = "string \<Rightarrow> content option"

definition read_file :: "files \<Rightarrow> string \<Rightarrow> content res" where
  "read_file fs f = (case fs f of None \<Rightarrow> Inl OSError | Some c \<Rightarrow> Inr c)"

definition indent_all :: "tools \<Rightarrow> bool \<Rightarrow> int \<Rightarrow> files \<Rightarrow> string list \<Rightarrow> (string \<times> content) list res" where
  "indent_all t debug level fs names =
     rmap (\<lambda>f. rbind (read_file fs f) (\<lambda>c. rbind (indent t debug level c) (\<lambda>d. Inr (f, d)))) names"

definition indent_files ::
  "tools \<Rightarrow> files \<Rightarrow> string list \<Rightarrow> bool \<Rightarrow> bool \<Rightarrow> int \<Rightarrow> bool \<Rightarrow> (files \<times> string list \<times> bool) res" where
  "indent_files t fs names diff debug level inplace =
     rbind (indent_all t debug level fs names) (\<lambda>output.
       if inplace then Inr (foldl (\<lambda>fs (src, dst). fs(src \<mapsto> dst)) fs output, [], True)
       else
         let failed = filter (\<lambda>(src, dst). \<not> file_cmp t (the (fs src)) dst) output
         in if failed \<noteq> [] then
              Inr (fs,
                (if \<not> diff then
                   (''Found '' @ nat_str (length failed) @ '' badly indented files:'') #
                     map (\<lambda>(src, dst). ''  '' @ src) failed
                 else concat (map (\<lambda>(src, dst). unified_diff t (the (fs src)) dst) failed)),
                False)
            else Inr (fs, [], True))"

definition run_as_hg_hook :: "tools \<Rightarrow> files \<Rightarrow> string list \<Rightarrow> bool res" where
  "run_as_hg_hook t fs modified =
     rbind (indent_files t fs modified False False 0 False) (\<lambda>(fs, out, ok). Inr (\<not> ok))"

record main_options =
  o_debug :: bool
  o_level :: int
  o_hg_hook :: bool
  o_hg :: bool
  o_file :: string
  o_diff :: bool
  o_in_place :: bool

text \<open>The result: the files afterwards, the lines printed and the exit status.\<close>

definition run_as_main :: "tools \<Rightarrow> files \<Rightarrow> string list \<Rightarrow> main_options \<Rightarrow> (files \<times> string list \<times> int) res" where
  "run_as_main t fs modified opts =
     (if o_hg_hook opts then
        rbind (indent_files t fs modified False (o_debug opts) (o_level opts) False)
          (\<lambda>(fs, out, ok). Inr (fs, out, if ok then 0 else 1))
      else if o_hg opts then
        rbind (indent_files t fs modified (o_diff opts) (o_debug opts) (o_level opts) (o_in_place opts))
          (\<lambda>(fs, out, ok). Inr (fs, out, 0))
      else if o_file opts \<noteq> [] then
        (if fs (o_file opts) = None then Inr (fs, [''file '' @ o_file opts @ '' does not exist''], 1)
         else rbind (indent_files t fs [o_file opts] (o_diff opts) (o_debug opts) (o_level opts) (o_in_place opts))
           (\<lambda>(fs, out, ok). Inr (fs, out, 0)))
      else Inr (fs, [], 0))"

lemma indent_all_Inr:
  "indent_all t debug level fs names = Inr outs \<Longrightarrow> map fst outs = names \<and>
     (\<forall>(f, d)\<in>set outs. \<exists>c. fs f = Some c \<and> indent t debug level c = Inr d)"
  unfolding indent_all_def
proof (induction names arbitrary: outs)
  case (Cons f names)
  then obtain x ys where o: "outs = x # ys" "rmap (\<lambda>f. rbind (read_file fs f) (\<lambda>c. rbind (indent t debug level c) (\<lambda>d. Inr (f, d)))) names = Inr ys"
      and x: "rbind (read_file fs f) (\<lambda>c. rbind (indent t debug level c) (\<lambda>d. Inr (f, d))) = Inr x"
    by (simp only: rmap_Inr_Cons) blast
  have "fst x = f \<and> (\<exists>c. fs f = Some c \<and> indent t debug level c = Inr (snd x))"
    using x by (auto simp: read_file_def split: option.splits)
  then show ?case using Cons.IH [OF o(2)] o(1) by auto
qed simp

lemma foldl_files:
  "foldl (\<lambda>fs (src, dst). fs(src \<mapsto> dst)) fs xs f = (case map_of (rev xs) f of None \<Rightarrow> fs f | Some d \<Rightarrow> Some d)"
  by (induction xs arbitrary: fs) (auto simp: map_add_def split: option.splits)

subsection \<open>Properties\<close>

text \<open>
  C23. What the writer prints for patches whose names and lines contain no
  newline, whose removed lines do not begin with \<^verbatim>\<open>-- \<close> and whose added lines do not begin
  with \<^verbatim>\<open>++ \<close>, the reader reads back as the same patches.
\<close>

theorem patchset_roundtrip:
  assumes "list_all patch_ok ps"
  shows "parse_patchset (write_patches ps) = Inr ps"
  using pt.decode_encode [of ps] assms by (simp add: list_all_iff)

definition demo_patch :: "string \<Rightarrow> patch" where
  "demo_patch s = \<lparr>p_src = ''a'', p_dst = ''b'', chunks = [\<lparr>clines =
     [\<lparr>ltype = SRC, ltext = s\<rparr>, \<lparr>ltype = DST, ltext = ''x''\<rparr>], src_pos = 1, dst_pos = 1\<rparr>]\<rparr>"

theorem patchset_roundtrip_witness:
  "parse_patchset (write_patches [demo_patch ''y'']) = Inr [demo_patch ''y'']"
  by (rule patchset_roundtrip) (simp add: demo_patch_def patch_ok_def line_ok_def no_newline_def starts_with_def)

text \<open>The condition on removed lines is needed: the line is read as the header of a second patch.\<close>

lemma removed_dashes_misread:
  "parse_patchset (write_patches [demo_patch ''-- y'']) \<noteq> Inr [demo_patch ''-- y'']"
  by code_simp

text \<open>
  Whatever is read, the correction changes nothing but the ends of added
  and context lines, to which it appends blanks: file names, positions, line types, removed lines
  and the line counts of the headers stay.
\<close>

theorem whitespace_fix_safe:
  assumes "parse_patchset gen = Inr ps"
  shows "\<exists>ps'. remove_trailing_whitespace_changes gen = Inr ps' \<and> list_all2 patch_ext ps ps' \<and>
    list_all2 (\<lambda>p p'. map (\<lambda>c. (length (chunk_src c), length (chunk_dst c))) (chunks p') =
       map (\<lambda>c. (length (chunk_src c), length (chunk_dst c))) (chunks p)) ps ps'"
proof -
  have ext: "list_all2 patch_ext ps (fix_patches ps)" by (rule fix_patches_ext)
  have "map (\<lambda>c. (length (chunk_src c), length (chunk_dst c))) cs' =
      map (\<lambda>c. (length (chunk_src c), length (chunk_dst c))) cs" if "list_all2 chunk_ext cs cs'" for cs cs'
    using that by (induction rule: list_all2_induct) (auto simp: chunk_ext_counts)
  then have "list_all2 (\<lambda>p p'. map (\<lambda>c. (length (chunk_src c), length (chunk_dst c))) (chunks p') =
       map (\<lambda>c. (length (chunk_src c), length (chunk_dst c))) (chunks p)) ps (fix_patches ps)"
    using ext by (auto elim!: list_all2_mono simp: patch_ext_def)
  with ext assms show ?thesis by (simp add: remove_trailing_whitespace_changes_def)
qed

theorem whitespace_fix_safe_witness:
  "\<exists>ps'. remove_trailing_whitespace_changes (write_patches [demo_patch ''x '']) = Inr ps' \<and> list_all2 patch_ext [demo_patch ''x ''] ps'"
proof -
  have "parse_patchset (write_patches [demo_patch ''x '']) = Inr [demo_patch ''x '']" by code_simp
  from whitespace_fix_safe [OF this] show ?thesis by blast
qed

text \<open>
  In a chunk without context lines that removes no more lines than it
  adds, the correction completes and leaves as the i-th added line the i-th removed one when they
  differ by one blank at the end, and the added one otherwise.
\<close>

theorem whitespace_fix_exact:
  assumes "list_all (\<lambda>l. ltype l \<noteq> BOTH) (clines c)" and "length (chunk_src c) \<le> length (chunk_dst c)"
  shows "\<exists>c'. fix_chunk c = (c', True) \<and> (\<forall>j<length (chunk_src c).
    ltext (clines c' ! (chunk_dst c ! j)) =
      (let s = ltext (clines c ! (chunk_src c ! j)); d = ltext (clines c ! (chunk_dst c ! j))
       in if s \<noteq> [] \<and> is_blank (last s) \<and> butlast s = d then s else d))"
proof -
  have "set (chunk_src c) \<inter> set (chunk_dst c) = {}"
    using assms(1) by (auto simp: chunk_src_def chunk_dst_def is_src_def is_dst_def list_all_iff)
  moreover have "distinct (chunk_dst c)" by (simp add: chunk_dst_def)
  moreover have "\<forall>k\<in>set (chunk_dst c). k < length (clines c)" using chunk_dst_range by blast
  ultimately obtain ls' where "fix_lines (chunk_src c) (chunk_dst c) (clines c) [0..<length (chunk_src c)] = (ls', True)"
      "\<forall>j<length (chunk_src c). ltext (ls' ! (chunk_dst c ! j)) =
         undone (ltext (clines c ! (chunk_src c ! j))) (ltext (clines c ! (chunk_dst c ! j)))"
    using fix_lines_undone [of "chunk_src c" "chunk_dst c" "clines c" "length (chunk_src c)"] assms(2) by blast
  then show ?thesis by (simp add: fix_chunk_def undone_def Let_def)
qed

theorem whitespace_fix_exact_witness:
  "fix_chunk (chunks (demo_patch ''x '') ! 0) = (chunks ((demo_patch ''x '')\<lparr>chunks := [\<lparr>clines =
     [\<lparr>ltype = SRC, ltext = ''x ''\<rparr>, \<lparr>ltype = DST, ltext = ''x ''\<rparr>], src_pos = 1, dst_pos = 1\<rparr>]\<rparr>) ! 0, True) \<and>
   (\<exists>c'. fix_chunk (chunks (demo_patch ''x '') ! 0) = (c', True))"
proof
  show "fix_chunk (chunks (demo_patch ''x '') ! 0) = (chunks ((demo_patch ''x '')\<lparr>chunks := [\<lparr>clines =
     [\<lparr>ltype = SRC, ltext = ''x ''\<rparr>, \<lparr>ltype = DST, ltext = ''x ''\<rparr>], src_pos = 1, dst_pos = 1\<rparr>]\<rparr>) ! 0, True)"
    by code_simp
  have "length (chunk_src (chunks (demo_patch ''x '') ! 0)) \<le> length (chunk_dst (chunks (demo_patch ''x '') ! 0))"
    by code_simp
  moreover have "list_all (\<lambda>l. ltype l \<noteq> BOTH) (clines (chunks (demo_patch ''x '') ! 0))" by code_simp
  ultimately show "\<exists>c'. fix_chunk (chunks (demo_patch ''x '') ! 0) = (c', True)"
    using whitespace_fix_exact by blast
qed

text \<open>Two cases the correction gets wrong: two blanks, and a context line that follows the removed one.\<close>

lemma two_blanks_not_undone:
  "fix_chunk (chunks (demo_patch ''x  '') ! 0) = (chunks (demo_patch ''x  '') ! 0, True)"
  by code_simp

definition context_chunk :: chunk where
  "context_chunk = \<lparr>clines = [\<lparr>ltype = SRC, ltext = ''x ''\<rparr>, \<lparr>ltype = BOTH, ltext = ''x''\<rparr>,
     \<lparr>ltype = DST, ltext = ''y''\<rparr>], src_pos = 1, dst_pos = 1\<rparr>"

lemma context_line_changed:
  "clines (fst (fix_chunk context_chunk)) ! 1 = \<lparr>ltype = BOTH, ltext = ''x ''\<rparr>"
  by code_simp

text \<open>
  Without \<^verbatim>\<open>--in-place\<close> no file is written and the result says
  whether every listed file compares equal to its indented version; with it, exactly the listed
  files are replaced by their indented versions. A missing file raises before any file is written.
\<close>

theorem indent_files_correct:
  assumes "indent_files t fs names diff debug level inplace = Inr (fs', out, ok)"
  shows "(if inplace then ok \<and> out = [] \<and> (\<forall>f. f \<notin> set names \<longrightarrow> fs' f = fs f) \<and>
      (\<forall>f\<in>set names. \<exists>c d. fs f = Some c \<and> indent t debug level c = Inr d \<and> fs' f = Some d)
    else fs' = fs \<and> (ok \<longleftrightarrow> (\<forall>f\<in>set names. \<exists>c d. fs f = Some c \<and> indent t debug level c = Inr d \<and> file_cmp t c d)))"
proof -
  obtain outs where o: "indent_all t debug level fs names = Inr outs"
    using assms by (auto simp: indent_files_def)
  note n = indent_all_Inr [OF o]
  have names: "set names = fst ` set outs" using n by (metis set_map)
  show ?thesis
  proof (cases inplace)
    case True
    have fs': "fs' f = (case map_of (rev outs) f of None \<Rightarrow> fs f | Some d \<Rightarrow> Some d)" for f
      using assms o True foldl_files by (auto simp: indent_files_def)
    have "\<exists>c d. fs f = Some c \<and> indent t debug level c = Inr d \<and> fs' f = Some d" if f: "f \<in> set names" for f
    proof -
      have "map_of (rev outs) f \<noteq> None" using f names by (simp add: map_of_eq_None_iff)
      then obtain d where d: "map_of (rev outs) f = Some d" by blast
      then have "(f, d) \<in> set outs" using map_of_SomeD by fastforce
      then show ?thesis using n d fs' by fastforce
    qed
    moreover have "fs' f = fs f" if "f \<notin> set names" for f
      using that names fs' [of f] by (simp add: map_of_eq_None_iff [THEN iffD2])
    ultimately show ?thesis using assms o True by (auto simp: indent_files_def)
  next
    case False
    have "(\<forall>(f, d)\<in>set outs. file_cmp t (the (fs f)) d) \<longleftrightarrow>
        (\<forall>f\<in>set names. \<exists>c d. fs f = Some c \<and> indent t debug level c = Inr d \<and> file_cmp t c d)"
      using n names by fastforce
    then show ?thesis using assms o False
      by (auto simp: indent_files_def Let_def filter_empty_conv split: if_splits)
  qed
qed

definition demo_tools :: tools where
  "demo_tools = \<lparr>uncrustify = (\<lambda>cfg c. Some (map rstrip c)), unified_diff = (\<lambda>a b. []),
     patch_tool = (\<lambda>d c. c), file_cmp = (\<lambda>a b. a = b)\<rparr>"

theorem indent_files_correct_witness:
  "\<exists>fs' out. indent_files demo_tools [''f'' \<mapsto> [''x'']] [''f''] False False 3 False = Inr (fs', out, True) \<and> fs' = [''f'' \<mapsto> [''x'']]"
proof -
  have "indent_files demo_tools [''f'' \<mapsto> [''x'']] [''f''] False False 3 False = Inr ([''f'' \<mapsto> [''x'']], [], True)"
    by (simp add: indent_files_def indent_all_def read_file_def indent_def demo_tools_def Let_def)
  then show ?thesis using indent_files_correct [of demo_tools "[''f'' \<mapsto> [''x'']]" "[''f'']" False False 3 False] by auto
qed

text \<open>
  With \<^verbatim>\<open>--debug\<close> the final difference is always empty, so no file
  is ever changed or reported, whatever \<^verbatim>\<open>uncrustify\<close> does to it.
\<close>

theorem debug_disables_indent:
  assumes "uncrustify t (uncrustify_config_file level) source = Some out"
  shows "indent t True level source = Inr (patch_tool t [] source)"
  using assms by (simp add: indent_def Let_def remove_trailing_whitespace_changes_def parse_patchset_def)

theorem debug_disables_indent_witness:
  "uncrustify demo_tools (uncrustify_config_file 0) [''x ''] = Some [''x''] \<and>
   indent demo_tools True 0 [''x ''] = Inr [''x '']"
  using debug_disables_indent [of demo_tools 0 "[''x '']" "[''x'']"]
  by (simp add: demo_tools_def rstrip_def is_space_def)

text \<open>
  A level sets every option of the levels below it, and never takes the
  value of an option that two levels set from the lower one.
\<close>

theorem config_levels:
  "config_value (uncrustify_config_file 2) k =
     (case config_value level2 k of Some v \<Rightarrow> Some v | None \<Rightarrow> config_value (uncrustify_config_file 1) k) \<and>
   config_value (uncrustify_config_file 1) k =
     (case config_value level1 k of Some v \<Rightarrow> Some v | None \<Rightarrow> config_value (uncrustify_config_file 0) k) \<and>
   config_value (uncrustify_config_file 0) ''nl_fdef_brace'' = Some ''Ignore'' \<and>
   config_value (uncrustify_config_file 2) ''nl_fdef_brace'' = Some ''Add'' \<and>
   config_value (uncrustify_config_file 2) ''indent_columns'' = Some ''2''"
proof (intro conjI)
  have u: "uncrustify_config_file 2 = uncrustify_config_file 1 @ level2" "uncrustify_config_file 1 = uncrustify_config_file 0 @ level1"
    by (simp_all add: uncrustify_config_file_def)
  show "config_value (uncrustify_config_file 2) k =
     (case config_value level2 k of Some v \<Rightarrow> Some v | None \<Rightarrow> config_value (uncrustify_config_file 1) k)"
    unfolding u(1) config_value_append by (simp split: option.split)
  show "config_value (uncrustify_config_file 1) k =
     (case config_value level1 k of Some v \<Rightarrow> Some v | None \<Rightarrow> config_value (uncrustify_config_file 0) k)"
    unfolding u(2) config_value_append by (simp split: option.split)
qed code_simp+

end
