(* ===== verification/PyNum.thy ===== *)
theory PyNum
  imports Prelude Complex_Main
begin

section \<open>Python numbers that mix integers and floats\<close>

text \<open>
  The viewer computes with integers and floats at once, and which of the two a number is
  decides what a division does. A float is the exact rational number the operations would
  give without rounding: rounding errors, infinities and not-a-number are not modelled, so
  what is proved of positions and bounds holds up to the rounding of the processor. A Python \<^verbatim>\<open>long\<close> is an \<^verbatim>\<open>int\<close>.
\<close>

datatype pynum = PyInt int | PyFloat rat

fun nval :: "pynum \<Rightarrow> rat" where
  "nval (PyInt i) = of_int i"
| "nval (PyFloat r) = r"

fun is_float :: "pynum \<Rightarrow> bool" where
  "is_float (PyInt i) = False"
| "is_float (PyFloat r) = True"

text \<open>An operator works on integers when both operands are integers, else on floats.\<close>

fun mixed :: "(int \<Rightarrow> int \<Rightarrow> int) \<Rightarrow> (rat \<Rightarrow> rat \<Rightarrow> rat) \<Rightarrow> pynum \<Rightarrow> pynum \<Rightarrow> pynum" where
  "mixed f g (PyInt a) (PyInt b) = PyInt (f a b)"
| "mixed f g a b = PyFloat (g (nval a) (nval b))"

lemma is_float_mixed [simp]: "is_float (mixed f g a b) \<longleftrightarrow> is_float a \<or> is_float b"
  by (cases a; cases b) auto

lemma mixed_ints: "\<not> is_float a \<Longrightarrow> \<not> is_float b \<Longrightarrow> \<exists>i j. a = PyInt i \<and> b = PyInt j \<and> mixed f g a b = PyInt (f i j)"
  by (cases a; cases b) auto

lemma mixed_float: "is_float a \<or> is_float b \<Longrightarrow> mixed f g a b = PyFloat (g (nval a) (nval b))"
  by (cases a; cases b) auto

instantiation pynum :: comm_monoid_add
begin

definition plus_pynum :: "pynum \<Rightarrow> pynum \<Rightarrow> pynum" where
  "a + b = mixed (+) (+) a b"

definition zero_pynum :: pynum where
  "0 = PyInt 0"

instance
proof
  show "(a + b) + c = a + (b + c)" for a b c :: pynum
    by (cases a; cases b; cases c) (simp_all add: plus_pynum_def)
  show "a + b = b + a" for a b :: pynum
    by (cases a; cases b) (simp_all add: plus_pynum_def)
  show "0 + a = a" for a :: pynum
    by (cases a) (simp_all add: plus_pynum_def zero_pynum_def)
qed

end

instantiation pynum :: "{minus, uminus, times, one}"
begin

definition minus_pynum :: "pynum \<Rightarrow> pynum \<Rightarrow> pynum" where
  "a - b = mixed (-) (-) a b"

definition uminus_pynum :: "pynum \<Rightarrow> pynum" where
  "- a = mixed (-) (-) (PyInt 0) a"

definition times_pynum :: "pynum \<Rightarrow> pynum \<Rightarrow> pynum" where
  "a * b = mixed (*) (*) a b"

definition one_pynum :: pynum where
  "1 = PyInt 1"

instance ..

end

instance pynum :: numeral ..

text \<open>The comparisons are those of the values, so an integer and a float may be equal in
  order without being the same number.\<close>

instantiation pynum :: preorder
begin

definition less_eq_pynum :: "pynum \<Rightarrow> pynum \<Rightarrow> bool" where
  "a \<le> b \<longleftrightarrow> nval a \<le> nval b"

definition less_pynum :: "pynum \<Rightarrow> pynum \<Rightarrow> bool" where
  "a < b \<longleftrightarrow> nval a < nval b"

instance
  by standard (auto simp: less_eq_pynum_def less_pynum_def)

end

lemma pynum_numeral: "(numeral k :: pynum) = PyInt (numeral k)"
proof (induction k)
  case One
  then show ?case by (simp add: numeral_One one_pynum_def)
next
  case (Bit0 k)
  have "PyInt (numeral (num.Bit0 k)) = PyInt (numeral k) + PyInt (numeral k)"
    by (simp only: plus_pynum_def mixed.simps numeral_Bit0 [of k, where ?'a = int])
  then show ?case by (simp only: numeral_Bit0 [of k, where ?'a = pynum] Bit0)
next
  case (Bit1 k)
  have "PyInt (numeral (num.Bit1 k)) = PyInt (numeral k) + PyInt (numeral k) + PyInt 1"
    by (simp only: plus_pynum_def mixed.simps numeral_Bit1 [of k, where ?'a = int])
  then show ?case by (simp only: numeral_Bit1 [of k, where ?'a = pynum] Bit1 one_pynum_def)
qed

lemma nval_plus [simp]: "nval (a + b) = nval a + nval b"
  by (cases a; cases b) (simp_all add: plus_pynum_def)

lemma nval_minus [simp]: "nval (a - b) = nval a - nval b"
  by (cases a; cases b) (simp_all add: minus_pynum_def)

lemma nval_times [simp]: "nval (a * b) = nval a * nval b"
  by (cases a; cases b) (simp_all add: times_pynum_def)

lemma nval_uminus [simp]: "nval (- a) = - nval a"
  by (cases a) (simp_all add: uminus_pynum_def)

lemma nval_consts [simp]: "nval 0 = 0" "nval 1 = 1" "nval (numeral k) = numeral k"
  by (simp_all add: zero_pynum_def one_pynum_def pynum_numeral)

lemma is_float_consts [simp]: "\<not> is_float 0" "\<not> is_float 1" "\<not> is_float (numeral k)"
  by (simp_all add: zero_pynum_def one_pynum_def pynum_numeral)

lemma is_float_ops [simp]:
  "is_float (a + b) \<longleftrightarrow> is_float a \<or> is_float b"
  "is_float (a - b) \<longleftrightarrow> is_float a \<or> is_float b"
  "is_float (a * b) \<longleftrightarrow> is_float a \<or> is_float b"
  by (simp_all add: plus_pynum_def minus_pynum_def times_pynum_def)

lemmas num_le = less_eq_pynum_def less_pynum_def

lemmas num_ops = plus_pynum_def minus_pynum_def times_pynum_def uminus_pynum_def
  zero_pynum_def one_pynum_def pynum_numeral

text \<open>\<^verbatim>\<open>max\<close> and \<^verbatim>\<open>min\<close> return the first of two equal arguments.\<close>

definition nmax :: "pynum \<Rightarrow> pynum \<Rightarrow> pynum" where
  "nmax a b = (if a < b then b else a)"

definition nmin :: "pynum \<Rightarrow> pynum \<Rightarrow> pynum" where
  "nmin a b = (if b < a then b else a)"

lemma nval_max_min [simp]:
  "nval (nmax a b) = max (nval a) (nval b)" "nval (nmin a b) = min (nval a) (nval b)"
  by (auto simp: nmax_def nmin_def num_le max_def min_def)

definition nabs :: "pynum \<Rightarrow> pynum" where
  "nabs a = (if a < 0 then - a else a)"

lemma nval_abs [simp]: "nval (nabs a) = \<bar>nval a\<bar>"
  by (simp add: nabs_def num_le)

text \<open>\<^verbatim>\<open>/\<close> floors on integers, \<^verbatim>\<open>%\<close> has the sign of the divisor, \<^verbatim>\<open>int\<close> truncates.\<close>

definition ndiv :: "pynum \<Rightarrow> pynum \<Rightarrow> pynum res" where
  "ndiv a b = (if nval b = 0 then Inl ZeroDivisionError else Inr (mixed (div) (/) a b))"

definition nmod :: "pynum \<Rightarrow> pynum \<Rightarrow> pynum res" where
  "nmod a b = (if nval b = 0 then Inl ZeroDivisionError
     else Inr (mixed (mod) (\<lambda>x y. x - y * of_int \<lfloor>x / y\<rfloor>) a b))"

fun nint :: "pynum \<Rightarrow> int" where
  "nint (PyInt i) = i"
| "nint (PyFloat r) = (if r < 0 then - \<lfloor>- r\<rfloor> else \<lfloor>r\<rfloor>)"

lemma ndiv_Inl: "ndiv a b = Inl e \<longleftrightarrow> nval b = 0 \<and> e = ZeroDivisionError"
  by (auto simp: ndiv_def)

lemma nmod_Inl: "nmod a b = Inl e \<longleftrightarrow> nval b = 0 \<and> e = ZeroDivisionError"
  by (auto simp: nmod_def)

lemma ndiv_Inr: "ndiv a b = Inr c \<longleftrightarrow> nval b \<noteq> 0 \<and> c = mixed (div) (/) a b"
  by (auto simp: ndiv_def)

lemma nval_div_float: "is_float a \<or> is_float b \<Longrightarrow> nval (mixed (div) (/) a b) = nval a / nval b"
  by (simp add: mixed_float)

lemma nval_div_floor: "nval (mixed (div) (/) a b) \<le> nval a / nval b \<and> nval a / nval b < nval (mixed (div) (/) a b) + 1"
proof (cases "is_float a \<or> is_float b")
  case False
  then obtain i j where ij: "a = PyInt i" "b = PyInt j" by (cases a; cases b) auto
  have "i div j = \<lfloor>of_int i / (of_int j :: rat)\<rfloor>" by (simp add: floor_divide_of_int_eq)
  then show ?thesis by (simp add: ij) linarith
qed (simp add: nval_div_float)

lemma nval_mod:
  assumes "nval b \<noteq> 0"
  shows "\<exists>c. nmod a b = Inr c \<and> nval c = nval a - nval b * of_int \<lfloor>nval a / nval b\<rfloor>"
proof (cases "is_float a \<or> is_float b")
  case False
  then obtain i j where ij: "a = PyInt i" "b = PyInt j" by (cases a; cases b) auto
  have "\<lfloor>of_int i / (of_int j :: rat)\<rfloor> = i div j" by (simp add: floor_divide_of_int_eq)
  then show ?thesis using assms
    by (simp add: ij nmod_def minus_div_mult_eq_mod [symmetric] mult.commute)
qed (use assms in \<open>auto simp: nmod_def mixed_float\<close>)

lemma nint_le: "nval a \<le> nval b \<Longrightarrow> nint a \<le> nint b"
proof (cases a; cases b)
  fix x y assume "a = PyFloat x" "b = PyFloat y" and "nval a \<le> nval b"
  moreover have "- \<lfloor>- x\<rfloor> \<le> \<lfloor>y\<rfloor>" if "x < 0" "\<not> y < 0"
  proof -
    have "0 \<le> \<lfloor>- x\<rfloor>" "0 \<le> \<lfloor>y\<rfloor>" using that by simp_all
    then show ?thesis by linarith
  qed
  ultimately show ?thesis by (auto intro!: floor_mono)
qed (simp_all, linarith+)

lemma nint_near: "nval a - 1 < of_int (nint a) \<and> of_int (nint a) < nval a + 1"
  by (cases a) (simp_all, linarith)

lemma nint_floor: "0 \<le> nval a \<Longrightarrow> nint a = \<lfloor>nval a\<rfloor>"
  by (cases a) auto

text \<open>\<^verbatim>\<open>range(a, b, d)\<close>.\<close>

definition py_range :: "int \<Rightarrow> int \<Rightarrow> int \<Rightarrow> int list res" where
  "py_range a b d =
     (if d = 0 then Inl ValueError
      else Inr (map (\<lambda>i. a + int i * d)
        [0..<nat (if 0 < d then (b - a + d - 1) div d else (b - a + d + 1) div d)]))"

lemma le_quotient: "0 < (d::int) \<Longrightarrow> q \<le> m div d \<longleftrightarrow> q * d \<le> m"
proof
  assume "0 < d" "q * d \<le> m"
  then have "(q * d) div d \<le> m div d" by (intro zdiv_mono1)
  then show "q \<le> m div d" using \<open>0 < d\<close> by simp
next
  assume d: "0 < d" and q: "q \<le> m div d"
  have "q * d \<le> (m div d) * d" using q d by (intro mult_right_mono) auto
  also have "\<dots> \<le> m" using pos_mod_sign [OF d, of m] by (simp add: div_mult_mod_eq minus_mod_eq_div_mult [symmetric])
  finally show "q * d \<le> m" .
qed

lemma py_range_members:
  assumes "0 < d"
  shows "\<exists>xs. py_range a b d = Inr xs \<and> set xs = {x. a \<le> x \<and> x < b \<and> d dvd (x - a)}"
proof -
  define n where "n = nat ((b - a + d - 1) div d)"
  have "x \<in> (\<lambda>i. a + int i * d) ` {0..<n} \<longleftrightarrow> a \<le> x \<and> x < b \<and> d dvd (x - a)" for x
  proof
    assume "x \<in> (\<lambda>i. a + int i * d) ` {0..<n}"
    then obtain i where i: "x = a + int i * d" "i < n" by force
    then have "int i + 1 \<le> (b - a + d - 1) div d" by (simp add: n_def)
    then have "(int i + 1) * d \<le> b - a + d - 1" using assms
      by (simp add: le_quotient)
    then show "a \<le> x \<and> x < b \<and> d dvd (x - a)" using i assms by (simp add: algebra_simps)
  next
    assume x: "a \<le> x \<and> x < b \<and> d dvd (x - a)"
    then obtain k where k: "x = a + d * k" by (metis add.commute diff_add_cancel dvdE)
    then have "0 \<le> k" using x assms by (simp add: zero_le_mult_iff)
    have "(k + 1) * d \<le> b - a + d - 1" using x k by (simp add: algebra_simps)
    then have "k + 1 \<le> (b - a + d - 1) div d" using assms by (simp add: le_quotient)
    then have "nat k < n" using \<open>0 \<le> k\<close> by (simp add: n_def)
    then show "x \<in> (\<lambda>i. a + int i * d) ` {0..<n}"
      using k \<open>0 \<le> k\<close> by (auto simp: mult.commute intro!: image_eqI [of _ _ "nat k"])
  qed
  then show ?thesis using assms
    by (intro exI [of _ "map (\<lambda>i. a + int i * d) [0..<n]"]) (auto simp: py_range_def n_def)
qed

end
