(* ===== verification/Timelines.thy ===== *)
theory Timelines
  imports Prelude PyNum "HOL-Library.Sublist"
begin

section \<open>The data of the grid viewer: \<^verbatim>\<open>utils/grid.py\<close>\<close>

text \<open>
  The classes of \<^verbatim>\<open>utils/grid.py\<close> that hold the data: ranges and events of a timeline with
  their binary searches, the named collections that create what is asked for, the colours, and
  \<^verbatim>\<open>read_data\<close>, which fills them from a file. Times are the non-negative integers the file
  holds; the drawing classes are in \<^theory_text>\<open>GridDraw\<close>.
\<close>

subsection \<open>Ranges and events\<close>

record data_range =
  r_start :: int
  r_end :: int
  r_value :: string

record 'v event =
  e_at :: int
  e_value :: 'v

text \<open>The searches compare with a time that may be a float.\<close>

abbreviation begins :: "data_range \<Rightarrow> rat" where
  "begins r \<equiv> of_int (r_start r)"

abbreviation ends :: "data_range \<Rightarrow> rat" where
  "ends r \<equiv> of_int (r_end r)"

abbreviation time :: "'v event \<Rightarrow> rat" where
  "time e \<equiv> of_int (e_at e)"

definition ranges_cmp :: "data_range \<Rightarrow> data_range \<Rightarrow> int" where
  "ranges_cmp a b = (let diff = r_start a - r_start b in if diff < 0 then -1 else if diff > 0 then 1 else 0)"

definition events_cmp :: "'v event \<Rightarrow> 'v event \<Rightarrow> int" where
  "events_cmp a b = (let diff = e_at a - e_at b in if diff < 0 then -1 else if diff > 0 then 1 else 0)"

text \<open>\<^verbatim>\<open>list.sort(cmp)\<close> is a stable sort; here by insertion.\<close>

fun insert_cmp :: "('a \<Rightarrow> 'a \<Rightarrow> int) \<Rightarrow> 'a \<Rightarrow> 'a list \<Rightarrow> 'a list" where
  "insert_cmp cmp x [] = [x]"
| "insert_cmp cmp x (y # ys) = (if cmp x y \<le> 0 then x # y # ys else y # insert_cmp cmp x ys)"

definition py_sort :: "('a \<Rightarrow> 'a \<Rightarrow> int) \<Rightarrow> 'a list \<Rightarrow> 'a list" where
  "py_sort cmp xs = foldr (insert_cmp cmp) xs []"

record range_line =
  rl_name :: string
  ranges :: "data_range list"

function range_search :: "data_range list \<Rightarrow> rat \<Rightarrow> int \<Rightarrow> int \<Rightarrow> int" where
  "range_search rs key l u =
     (if l \<le> u then
        (let i = (l + u) div 2; r = rs ! nat i in
           if key \<ge> begins r \<and> key \<le> ends r then i
           else if key < begins r then range_search rs key l (i - 1)
           else range_search rs key (i + 1) u)
      else - 1)"
  by pat_completeness auto
termination by (relation "measure (\<lambda>(rs, key, l, u). nat (u + 1 - l))") auto

function event_search :: "'v event list \<Rightarrow> rat \<Rightarrow> int \<Rightarrow> int \<Rightarrow> int" where
  "event_search es key l u =
     (if l \<le> u then
        (let i = (l + u) div 2; a = time (es ! nat i) in
           if key = a then i
           else if key < a then event_search es key l (i - 1)
           else event_search es key (i + 1) u)
      else l)"
  by pat_completeness auto
termination by (relation "measure (\<lambda>(es, key, l, u). nat (u + 1 - l))") auto

declare range_search.simps [simp del] event_search.simps [simp del]

definition get_ranges_bounds :: "data_range list \<Rightarrow> rat \<Rightarrow> rat \<Rightarrow> int \<times> int" where
  "get_ranges_bounds rs start fin =
     (let s = range_search rs start 0 (int (length rs) - 1);
          e = range_search rs fin 0 (int (length rs) - 1)
      in if s = -1 \<and> e = -1 then (0, 0)
         else if s = -1 then (0, e + 1)
         else if e = -1 then (s, int (length rs))
         else (s, e + 1))"

definition get_ranges :: "data_range list \<Rightarrow> rat \<Rightarrow> rat \<Rightarrow> data_range list" where
  "get_ranges rs start fin =
     (let s = range_search rs start 0 (int (length rs) - 1);
          e = range_search rs fin 0 (int (length rs) - 1)
      in if s = -1 \<and> e = -1 then []
         else if s = -1 then py_slice rs 0 (e + 1)
         else if e = -1 then py_slice rs s (int (length rs))
         else py_slice rs s (e + 1))"

definition ranges_get_bounds :: "data_range list \<Rightarrow> int \<times> int" where
  "ranges_get_bounds rs = (if rs \<noteq> [] then (r_start (rs ! 0), r_end (rs ! (length rs - 1))) else (0, 0))"

record 'v event_line =
  el_name :: string
  events :: "'v event list"

definition get_events_bounds :: "'v event list \<Rightarrow> rat \<Rightarrow> rat \<Rightarrow> int \<times> int" where
  "get_events_bounds es start fin =
     (event_search es start 0 (int (length es) - 1), event_search es fin 0 (int (length es) - 1) + 1)"

definition get_events :: "'v event list \<Rightarrow> rat \<Rightarrow> rat \<Rightarrow> 'v event list" where
  "get_events es start fin =
     py_slice es (event_search es start 0 (int (length es) - 1))
       (event_search es fin 0 (int (length es) - 1) + 1)"

definition events_get_bounds :: "'v event list \<Rightarrow> int \<times> int" where
  "events_get_bounds es = (if es \<noteq> [] then (e_at (es ! 0), e_at (last es)) else (0, 0))"

subsection \<open>Named collections\<close>

text \<open>
  \<^verbatim>\<open>get\<close>, \<^verbatim>\<open>get_range\<close>, \<^verbatim>\<open>get_event_str\<close> and \<^verbatim>\<open>get_event_int\<close> return the first object of
  the name, creating one at the end if there is none; the caller then changes that object. Here
  the change \<open>f\<close> is an argument.
\<close>

fun on_named :: "('a \<Rightarrow> string) \<Rightarrow> (string \<Rightarrow> 'a) \<Rightarrow> string \<Rightarrow> ('a \<Rightarrow> 'a) \<Rightarrow> 'a list \<Rightarrow> 'a list" where
  "on_named nm mk n f [] = [f (mk n)]"
| "on_named nm mk n f (x # xs) = (if nm x = n then f x # xs else x # on_named nm mk n f xs)"

record timeline =
  tl_name :: string
  tl_ranges :: "range_line list"
  tl_event_str :: "string event_line list"
  tl_event_int :: "int event_line list"

definition get_range :: "string \<Rightarrow> (range_line \<Rightarrow> range_line) \<Rightarrow> timeline \<Rightarrow> timeline" where
  "get_range n f t = t\<lparr>tl_ranges := on_named rl_name (\<lambda>n. \<lparr>rl_name = n, ranges = []\<rparr>) n f (tl_ranges t)\<rparr>"

definition get_event_str :: "string \<Rightarrow> (string event_line \<Rightarrow> string event_line) \<Rightarrow> timeline \<Rightarrow> timeline" where
  "get_event_str n f t = t\<lparr>tl_event_str := on_named el_name (\<lambda>n. \<lparr>el_name = n, events = []\<rparr>) n f (tl_event_str t)\<rparr>"

definition get_event_int :: "string \<Rightarrow> (int event_line \<Rightarrow> int event_line) \<Rightarrow> timeline \<Rightarrow> timeline" where
  "get_event_int n f t = t\<lparr>tl_event_int := on_named el_name (\<lambda>n. \<lparr>el_name = n, events = []\<rparr>) n f (tl_event_int t)\<rparr>"

definition timeline_sort :: "timeline \<Rightarrow> timeline" where
  "timeline_sort t = t\<lparr>
     tl_ranges := map (\<lambda>r. r\<lparr>ranges := py_sort ranges_cmp (ranges r)\<rparr>) (tl_ranges t),
     tl_event_int := map (\<lambda>e. e\<lparr>events := py_sort events_cmp (events e)\<rparr>) (tl_event_int t),
     tl_event_str := map (\<lambda>e. e\<lparr>events := py_sort events_cmp (events e)\<rparr>) (tl_event_str t)\<rparr>"

text \<open>The running minimum and maximum, started at 0.\<close>

definition widen :: "int \<times> int \<Rightarrow> int \<times> int \<Rightarrow> int \<times> int" where
  "widen b c = (if fst c < fst b then fst c else fst b, if snd c > snd b then snd c else snd b)"

definition timeline_get_bounds :: "timeline \<Rightarrow> int \<times> int" where
  "timeline_get_bounds t =
     foldl widen
       (foldl widen
         (foldl widen (0, 0) (map (\<lambda>r. ranges_get_bounds (ranges r)) (tl_ranges t)))
         (map (\<lambda>e. events_get_bounds (events e)) (tl_event_str t)))
       (map (\<lambda>e. events_get_bounds (events e)) (tl_event_int t))"

definition timelines_get :: "string \<Rightarrow> (timeline \<Rightarrow> timeline) \<Rightarrow> timeline list \<Rightarrow> timeline list" where
  "timelines_get n f ts =
     on_named tl_name (\<lambda>n. \<lparr>tl_name = n, tl_ranges = [], tl_event_str = [], tl_event_int = []\<rparr>) n f ts"

definition timelines_sort :: "timeline list \<Rightarrow> timeline list" where
  "timelines_sort ts = map timeline_sort ts"

definition timelines_get_bounds :: "timeline list \<Rightarrow> int \<times> int" where
  "timelines_get_bounds ts = foldl widen (0, 0) (map timeline_get_bounds ts)"

definition get_all_range_values :: "(string list \<Rightarrow> string list) \<Rightarrow> timeline list \<Rightarrow> string list" where
  "get_all_range_values ko ts =
     ko (dict_keys (foldl (\<lambda>d v. AList.update v (1::nat) d) []
       (concat (map (\<lambda>t. concat (map (\<lambda>r. map r_value (ranges r)) (tl_ranges t))) ts))))"

subsection \<open>Colours\<close>

type_synonym color = "int \<times> int \<times> int"

text \<open>\<^verbatim>\<open>default_colors\<close> belongs to the class: every lookup of a new name takes one away.\<close>

record colors =
  default_colors :: "color list"
  col_dict :: "(string, color) dict"

definition colors_init :: colors where
  "colors_init = \<lparr>default_colors = [(1, 0, 0), (0, 1, 0), (0, 0, 1), (1, 1, 0), (1, 0, 1), (0, 1, 1)], col_dict = []\<rparr>"

definition color_lookup :: "string \<Rightarrow> colors \<Rightarrow> (colors \<times> color) res" where
  "color_lookup n c =
     (if \<not> has_key (col_dict c) n then
        (if default_colors c = [] then Inl IndexError
         else let d = last (default_colors c)
              in Inr (c\<lparr>default_colors := butlast (default_colors c), col_dict := AList.update n d (col_dict c)\<rparr>, d))
      else Inr (c, the (map_of (col_dict c) n)))"

subsection \<open>Reading a file\<close>

datatype entry =
    ERange string string string nat nat
  | EStr string string string nat
  | EInt string string nat nat
  | EColor string nat nat nat

definition hex_val :: "char \<Rightarrow> nat option" where
  "hex_val c =
     (let n = of_char c :: nat
      in if is_digit c then Some (n - 48)
         else if 97 \<le> n \<and> n \<le> 102 then Some (n - 87)
         else if 65 \<le> n \<and> n \<le> 70 then Some (n - 55) else None)"

fun eat_hex2 :: "string \<Rightarrow> (nat \<times> string) option" where
  "eat_hex2 (a # b # s) =
     (case (hex_val a, hex_val b) of (Some x, Some y) \<Rightarrow> Some (16 * x + y, s) | _ \<Rightarrow> None)"
| "eat_hex2 _ = None"

definition match_range :: "string \<Rightarrow> entry option" where
  "match_range line =
     Option.bind (eat ''range '' line) (\<lambda>s. Option.bind (eat_word s) (\<lambda>(a, s).
     Option.bind (eat '' '' s) (\<lambda>s. Option.bind (eat_word s) (\<lambda>(b, s).
     Option.bind (eat '' '' s) (\<lambda>s. Option.bind (eat_word s) (\<lambda>(v, s).
     Option.bind (eat '' '' s) (\<lambda>s. Option.bind (eat_number s) (\<lambda>(m, s).
     Option.bind (eat '' '' s) (\<lambda>s. Option.bind (eat_number s) (\<lambda>(n, s).
       Some (ERange a b v m n)))))))))))"

definition match_event_str :: "string \<Rightarrow> entry option" where
  "match_event_str line =
     Option.bind (eat ''event-str '' line) (\<lambda>s. Option.bind (eat_word s) (\<lambda>(a, s).
     Option.bind (eat '' '' s) (\<lambda>s. Option.bind (eat_word s) (\<lambda>(b, s).
     Option.bind (eat '' '' s) (\<lambda>s. Option.bind (eat_word s) (\<lambda>(v, s).
     Option.bind (eat '' '' s) (\<lambda>s. Option.bind (eat_number s) (\<lambda>(n, s).
       Some (EStr a b v n)))))))))"

definition match_event_int :: "string \<Rightarrow> entry option" where
  "match_event_int line =
     Option.bind (eat ''event-int '' line) (\<lambda>s. Option.bind (eat_word s) (\<lambda>(a, s).
     Option.bind (eat '' '' s) (\<lambda>s. Option.bind (eat_word s) (\<lambda>(b, s).
     Option.bind (eat '' '' s) (\<lambda>s. Option.bind (eat_number s) (\<lambda>(v, s).
     Option.bind (eat '' '' s) (\<lambda>s. Option.bind (eat_number s) (\<lambda>(n, s).
       Some (EInt a b v n)))))))))"

definition match_color :: "string \<Rightarrow> entry option" where
  "match_color line =
     Option.bind (eat ''color '' line) (\<lambda>s. Option.bind (eat_word s) (\<lambda>(a, s).
     Option.bind (eat '' #'' s) (\<lambda>s. Option.bind (eat_hex2 s) (\<lambda>(r, s).
     Option.bind (eat_hex2 s) (\<lambda>(g, s). Option.bind (eat_hex2 s) (\<lambda>(b, s).
       Some (EColor a r g b)))))))"

definition parse_entry :: "string \<Rightarrow> entry option" where
  "parse_entry line =
     (case match_range line of Some e \<Rightarrow> Some e
      | None \<Rightarrow> (case match_event_str line of Some e \<Rightarrow> Some e
      | None \<Rightarrow> (case match_event_int line of Some e \<Rightarrow> Some e
      | None \<Rightarrow> match_color line)))"

text \<open>\<^verbatim>\<open>r / 255\<close> is a division of integers.\<close>

fun add_entry :: "timeline list \<times> colors \<Rightarrow> entry \<Rightarrow> timeline list \<times> colors" where
  "add_entry (ts, cs) (ERange a b v m n) =
     (timelines_get a (get_range b (\<lambda>r. r\<lparr>ranges := ranges r @ [\<lparr>r_start = int m, r_end = int n, r_value = v\<rparr>]\<rparr>)) ts, cs)"
| "add_entry (ts, cs) (EStr a b v n) =
     (timelines_get a (get_event_str b (\<lambda>e. e\<lparr>events := events e @ [\<lparr>e_at = int n, e_value = v\<rparr>]\<rparr>)) ts, cs)"
| "add_entry (ts, cs) (EInt a b v n) =
     (timelines_get a (get_event_int b (\<lambda>e. e\<lparr>events := events e @ [\<lparr>e_at = int n, e_value = int v\<rparr>]\<rparr>)) ts, cs)"
| "add_entry (ts, cs) (EColor a r g b) =
     (ts, cs\<lparr>col_dict := AList.update a (int r div 255, int g div 255, int b div 255) (col_dict cs)\<rparr>)"

definition read_data :: "string list \<Rightarrow> colors \<times> timeline list" where
  "read_data lines =
     (case foldl (\<lambda>st line. case parse_entry line of None \<Rightarrow> st | Some e \<Rightarrow> add_entry st e) ([], colors_init) lines of
        (ts, cs) \<Rightarrow> (cs, timelines_sort ts))"

subsection \<open>The searches\<close>

text \<open>
  Ranges as the viewer expects them: in order, none reaching into the next. In the traces of a
  state machine each range ends where the next one begins; \<^verbatim>\<open>apart\<close> are those that do not even
  touch.
\<close>

definition in_order :: "data_range list \<Rightarrow> bool" where
  "in_order rs \<longleftrightarrow> (\<forall>r\<in>set rs. r_start r \<le> r_end r) \<and> sorted_wrt (\<lambda>a b. r_end a \<le> r_start b) rs"

definition apart :: "data_range list \<Rightarrow> bool" where
  "apart rs \<longleftrightarrow> sorted_wrt (\<lambda>a b. r_end a < r_start b) rs"

lemma in_order_nth:
  assumes "in_order rs" and "i < j" and "j < length rs"
  shows "ends (rs ! i) \<le> begins (rs ! j)"
  using assms by (simp add: in_order_def sorted_wrt_iff_nth_less)

lemma in_order_start_end: "in_order rs \<Longrightarrow> i < length rs \<Longrightarrow> begins (rs ! i) \<le> ends (rs ! i)"
  by (simp add: in_order_def)

definition hit :: "data_range list \<Rightarrow> rat \<Rightarrow> int \<Rightarrow> bool" where
  "hit rs key i \<longleftrightarrow> 0 \<le> i \<and> i < int (length rs) \<and> begins (rs ! nat i) \<le> key \<and> key \<le> ends (rs ! nat i)"

lemma range_search_from:
  assumes "in_order rs" and "0 \<le> l" and "u < int (length rs)"
    and "\<forall>j. hit rs key j \<longrightarrow> l \<le> j \<and> j \<le> u"
  shows "hit rs key (range_search rs key l u) \<or> range_search rs key l u = -1 \<and> (\<forall>j. \<not> hit rs key j)"
  using assms
proof (induction rs key l u rule: range_search.induct)
  case (1 rs' key l u)
  show ?case
  proof (cases "l \<le> u")
    case False
    then show ?thesis using "1.prems"(4) by (subst range_search.simps) fastforce
  next
    case True
    define i where "i = (l + u) div 2"
    have i: "l \<le> i" "i \<le> u" "0 \<le> i" "i < int (length rs')" using True "1.prems"(2,3) by (auto simp: i_def)
    consider "hit rs' key i" | "key < begins (rs' ! nat i)" | "begins (rs' ! nat i) \<le> key" "ends (rs' ! nat i) < key"
      using i by (fastforce simp: hit_def)
    then show ?thesis
    proof cases
      case 1
      then have "range_search rs' key l u = i" using True
        by (subst range_search.simps) (simp add: Let_def hit_def i_def [symmetric])
      with 1 show ?thesis by simp
    next
      case 2
      have eq: "range_search rs' key l u = range_search rs' key l (i - 1)" using True 2
        by (subst range_search.simps) (simp add: Let_def i_def [symmetric])
      have "j \<le> i - 1" if "hit rs' key j" for j
      proof (rule ccontr)
        assume "\<not> j \<le> i - 1"
        then have "i = j \<or> i < j" by linarith
        then have "key < begins (rs' ! nat j)"
        proof
          assume ij: "i < j"
          have "ends (rs' ! nat i) \<le> begins (rs' ! nat j)" "begins (rs' ! nat i) \<le> ends (rs' ! nat i)"
            using in_order_nth [of rs' "nat i" "nat j"] in_order_start_end [of rs' "nat i"] "1.prems"(1) ij i that
            by (auto simp: hit_def)
          with 2 show ?thesis by linarith
        qed (use 2 in simp)
        with that show False by (simp add: hit_def)
      qed
      then show ?thesis using "1.IH"(1) [OF True i_def refl] 2 i "1.prems" eq by (simp add: not_le)
    next
      case 3
      have eq: "range_search rs' key l u = range_search rs' key (i + 1) u" using True 3
        by (subst range_search.simps) (simp add: Let_def i_def [symmetric])
      have "i + 1 \<le> j" if "hit rs' key j" for j
      proof (rule ccontr)
        assume "\<not> i + 1 \<le> j"
        then have "i = j \<or> j < i" by linarith
        then have "ends (rs' ! nat j) < key"
        proof
          assume ij: "j < i"
          have "ends (rs' ! nat j) \<le> begins (rs' ! nat i)" "begins (rs' ! nat i) \<le> ends (rs' ! nat i)"
            using in_order_nth [of rs' "nat j" "nat i"] in_order_start_end [of rs' "nat i"] "1.prems"(1) ij i that
            by (auto simp: hit_def)
          with 3 show ?thesis by linarith
        qed (use 3 in simp)
        with that show False by (simp add: hit_def)
      qed
      then show ?thesis using "1.IH"(2) [OF True i_def refl] 3 i "1.prems" eq by simp
    qed
  qed
qed

lemma range_search_correct:
  assumes "in_order rs"
  shows "hit rs key (range_search rs key 0 (int (length rs) - 1)) \<or>
    range_search rs key 0 (int (length rs) - 1) = -1 \<and> (\<forall>j. \<not> hit rs key j)"
  by (rule range_search_from [OF assms]) (auto simp: hit_def)

lemma get_ranges_slice:
  "get_ranges rs a b = (case get_ranges_bounds rs a b of (lo, hi) \<Rightarrow> py_slice rs lo hi)"
  by (simp add: get_ranges_def get_ranges_bounds_def Let_def py_slice_def py_clip_def)

definition events_in_order :: "'v event list \<Rightarrow> bool" where
  "events_in_order es \<longleftrightarrow> sorted (map e_at es)"

lemma event_nth_mono: "events_in_order es \<Longrightarrow> i \<le> j \<Longrightarrow> j < length es \<Longrightarrow> time (es ! i) \<le> time (es ! j)"
  using sorted_nth_mono [of "map e_at es" i j] by (simp add: events_in_order_def)

text \<open>Where a key is: at an event of that time, or between the earlier and the later ones.\<close>

definition placed :: "'v event list \<Rightarrow> rat \<Rightarrow> int \<Rightarrow> bool" where
  "placed es key i \<longleftrightarrow> 0 \<le> i \<and> i \<le> int (length es) \<and>
     (\<forall>j<length es. (int j < i \<longrightarrow> time (es ! j) \<le> key) \<and> (i \<le> int j \<longrightarrow> key \<le> time (es ! j)))"

lemma event_search_from:
  assumes "events_in_order es" and "0 \<le> l" and "u < int (length es)" and "l \<le> u + 1"
    and "\<forall>j<length es. (int j < l \<longrightarrow> time (es ! j) \<le> key) \<and> (u < int j \<longrightarrow> key \<le> time (es ! j))"
  shows "placed es key (event_search es key l u)"
  using assms
proof (induction es key l u rule: event_search.induct)
  case (1 es key l u)
  show ?case
  proof (cases "l \<le> u")
    case False
    then have "event_search es key l u = l" by (subst event_search.simps) simp
    then show ?thesis using "1.prems" False by (auto simp: placed_def)
  next
    case True
    define i where "i = (l + u) div 2"
    have i: "l \<le> i" "i \<le> u" "0 \<le> i" "i < int (length es)" using True "1.prems"(2,3) by (auto simp: i_def)
    let ?a = "time (es ! nat i)"
    have below: "time (es ! j) \<le> ?a" if "int j \<le> i" for j
      using event_nth_mono [OF "1.prems"(1), of j "nat i"] that i by auto
    have above: "?a \<le> time (es ! j)" if "i \<le> int j" "j < length es" for j
      using event_nth_mono [OF "1.prems"(1), of "nat i" j] that i by auto
    consider "key = ?a" | "key < ?a" | "?a < key" by linarith
    then show ?thesis
    proof cases
      case 1
      then have "event_search es key l u = i" using True
        by (subst event_search.simps) (simp add: Let_def i_def [symmetric])
      then show ?thesis using 1 below above i by (auto simp: placed_def)
    next
      case 2
      have "event_search es key l u = event_search es key l (i - 1)" using True 2
        by (subst event_search.simps) (simp add: Let_def i_def [symmetric])
      moreover have "\<forall>j<length es. (int j < l \<longrightarrow> time (es ! j) \<le> key) \<and> (i - 1 < int j \<longrightarrow> key \<le> time (es ! j))"
      proof (intro allI impI conjI)
        fix j
        assume j: "j < length es"
        show "time (es ! j) \<le> key" if "int j < l" using "1.prems"(5) j that by blast
        show "key \<le> time (es ! j)" if "i - 1 < int j" using above [of j] j that 2 by linarith
      qed
      then have "placed es key (event_search es key l (i - 1))"
        using "1.prems"(1,2) i 2 by (intro "1.IH"(1) [OF True i_def refl]) simp_all
      ultimately show ?thesis by simp
    next
      case 3
      have "event_search es key l u = event_search es key (i + 1) u" using True 3
        by (subst event_search.simps) (simp add: Let_def i_def [symmetric])
      moreover have "\<forall>j<length es. (int j < i + 1 \<longrightarrow> time (es ! j) \<le> key) \<and> (u < int j \<longrightarrow> key \<le> time (es ! j))"
      proof (intro allI impI conjI)
        fix j
        assume j: "j < length es"
        show "time (es ! j) \<le> key" if "int j < i + 1" using below [of j] that 3 by linarith
        show "key \<le> time (es ! j)" if "u < int j" using "1.prems"(5) j that by blast
      qed
      then have "placed es key (event_search es key (i + 1) u)"
        using "1.prems"(1,2,3) i 3 by (intro "1.IH"(2) [OF True i_def refl]) simp_all
      ultimately show ?thesis by simp
    qed
  qed
qed

lemma event_search_placed: "events_in_order es \<Longrightarrow> placed es key (event_search es key 0 (int (length es) - 1))"
  by (rule event_search_from) auto

lemma py_slice_members:
  assumes "0 \<le> a" and "0 \<le> b"
  shows "x \<in> set (py_slice xs a b) \<longleftrightarrow> (\<exists>i<length xs. a \<le> int i \<and> int i < b \<and> xs ! i = x)"
proof
  assume "x \<in> set (py_slice xs a b)"
  then obtain k where k: "k < length (py_slice xs a b)" "py_slice xs a b ! k = x" by (auto simp: in_set_conv_nth)
  then have "nat a + k < length xs" "int (nat a + k) < b" "xs ! (nat a + k) = x"
    using assms by (auto simp: py_slice_def py_clip_def Let_def min_def split: if_splits)
  then show "\<exists>i<length xs. a \<le> int i \<and> int i < b \<and> xs ! i = x" using assms by (intro exI [of _ "nat a + k"]) auto
next
  assume "\<exists>i<length xs. a \<le> int i \<and> int i < b \<and> xs ! i = x"
  then obtain i where i: "i < length xs" "a \<le> int i" "int i < b" "xs ! i = x" by blast
  then have "nat a \<le> i" "i < nat b" using assms by auto
  with i have "i - nat a < length (py_slice xs a b)" "py_slice xs a b ! (i - nat a) = x"
    using assms by (auto simp: py_slice_def py_clip_def Let_def min_def)
  then show "x \<in> set (py_slice xs a b)" by (metis nth_mem)
qed

subsection \<open>Sorting\<close>

lemma insert_cmp_key:
  "(\<And>a b. cmp a b \<le> 0 \<longleftrightarrow> key a \<le> (key b :: int)) \<Longrightarrow> insert_cmp cmp x xs = insort_key key x xs"
  by (induction xs) auto

lemma py_sort_key:
  assumes "\<And>a b. cmp a b \<le> 0 \<longleftrightarrow> key a \<le> (key b :: int)"
  shows "py_sort cmp xs = sort_key key xs"
  unfolding py_sort_def by (induction xs) (simp_all add: insert_cmp_key [of cmp key, OF assms])

lemma sort_ranges: "py_sort ranges_cmp xs = sort_key r_start xs"
  by (rule py_sort_key) (simp add: ranges_cmp_def Let_def)

lemma sort_events: "py_sort events_cmp xs = sort_key e_at xs"
  by (rule py_sort_key) (simp add: events_cmp_def Let_def)

subsection \<open>What a file puts where\<close>

definition find_named :: "('a \<Rightarrow> string) \<Rightarrow> string \<Rightarrow> 'a list \<Rightarrow> 'a option" where
  "find_named nm n xs = find (\<lambda>x. nm x = n) xs"

lemma find_on_named:
  assumes "\<And>x. nm (f x) = nm x" and "\<And>n. nm (mk n) = n"
  shows "find_named nm n' (on_named nm mk n f xs) =
    (if n' = n then Some (f (case find_named nm n xs of None \<Rightarrow> mk n | Some x \<Rightarrow> x)) else find_named nm n' xs)"
  by (induction xs) (auto simp: find_named_def assms)

lemma find_map_named:
  "(\<And>x. nm (g x) = nm x) \<Longrightarrow> find_named nm n (map g xs) = map_option g (find_named nm n xs)"
  by (induction xs) (auto simp: find_named_def)

lemma on_named_names:
  assumes "\<And>x. nm (f x) = nm x" and "\<And>n. nm (mk n) = n"
  shows "map nm (on_named nm mk n f xs) = (if n \<in> set (map nm xs) then map nm xs else map nm xs @ [n])"
  by (induction xs) (auto simp: assms)

definition range_data :: "timeline list \<Rightarrow> string \<Rightarrow> string \<Rightarrow> data_range list" where
  "range_data ts a b =
     (case find_named tl_name a ts of None \<Rightarrow> []
      | Some t \<Rightarrow> (case find_named rl_name b (tl_ranges t) of None \<Rightarrow> [] | Some r \<Rightarrow> ranges r))"

definition event_str_data :: "timeline list \<Rightarrow> string \<Rightarrow> string \<Rightarrow> string event list" where
  "event_str_data ts a b =
     (case find_named tl_name a ts of None \<Rightarrow> []
      | Some t \<Rightarrow> (case find_named el_name b (tl_event_str t) of None \<Rightarrow> [] | Some r \<Rightarrow> events r))"

definition event_int_data :: "timeline list \<Rightarrow> string \<Rightarrow> string \<Rightarrow> int event list" where
  "event_int_data ts a b =
     (case find_named tl_name a ts of None \<Rightarrow> []
      | Some t \<Rightarrow> (case find_named el_name b (tl_event_int t) of None \<Rightarrow> [] | Some r \<Rightarrow> events r))"

fun range_of :: "string \<Rightarrow> string \<Rightarrow> entry \<Rightarrow> data_range list" where
  "range_of a b (ERange a' b' v m n) =
     (if a' = a \<and> b' = b then [\<lparr>r_start = int m, r_end = int n, r_value = v\<rparr>] else [])"
| "range_of a b _ = []"

fun event_str_of :: "string \<Rightarrow> string \<Rightarrow> entry \<Rightarrow> string event list" where
  "event_str_of a b (EStr a' b' v n) = (if a' = a \<and> b' = b then [\<lparr>e_at = int n, e_value = v\<rparr>] else [])"
| "event_str_of a b _ = []"

fun event_int_of :: "string \<Rightarrow> string \<Rightarrow> entry \<Rightarrow> int event list" where
  "event_int_of a b (EInt a' b' v n) = (if a' = a \<and> b' = b then [\<lparr>e_at = int n, e_value = int v\<rparr>] else [])"
| "event_int_of a b _ = []"

lemma find_timelines_get:
  assumes "\<And>t. tl_name (f t) = tl_name t"
  shows "find_named tl_name a (timelines_get n f ts) =
    (if a = n then Some (f (case find_named tl_name n ts of
        None \<Rightarrow> \<lparr>tl_name = n, tl_ranges = [], tl_event_str = [], tl_event_int = []\<rparr> | Some t \<Rightarrow> t))
     else find_named tl_name a ts)"
  unfolding timelines_get_def by (rule find_on_named) (simp_all add: assms)

lemma get_name [simp]:
  "tl_name (get_range b f t) = tl_name t" "tl_name (get_event_str b g t) = tl_name t"
  "tl_name (get_event_int b h t) = tl_name t"
  by (simp_all add: get_range_def get_event_str_def get_event_int_def)

lemma get_others [simp]:
  "tl_event_str (get_range b f t) = tl_event_str t" "tl_event_int (get_range b f t) = tl_event_int t"
  "tl_ranges (get_event_str b g t) = tl_ranges t" "tl_event_int (get_event_str b g t) = tl_event_int t"
  "tl_ranges (get_event_int b h t) = tl_ranges t" "tl_event_str (get_event_int b h t) = tl_event_str t"
  by (simp_all add: get_range_def get_event_str_def get_event_int_def)

lemma find_get_range:
  assumes "\<And>r. rl_name (f r) = rl_name r"
  shows "find_named rl_name a (tl_ranges (get_range n f t)) =
    (if a = n then Some (f (case find_named rl_name n (tl_ranges t) of None \<Rightarrow> \<lparr>rl_name = n, ranges = []\<rparr> | Some r \<Rightarrow> r))
     else find_named rl_name a (tl_ranges t))"
  by (simp add: get_range_def find_on_named assms)

lemma find_get_event_str:
  assumes "\<And>r. el_name (f r) = el_name r"
  shows "find_named el_name a (tl_event_str (get_event_str n f t)) =
    (if a = n then Some (f (case find_named el_name n (tl_event_str t) of None \<Rightarrow> \<lparr>el_name = n, events = []\<rparr> | Some r \<Rightarrow> r))
     else find_named el_name a (tl_event_str t))"
  by (simp add: get_event_str_def find_on_named assms)

lemma find_get_event_int:
  assumes "\<And>r. el_name (f r) = el_name r"
  shows "find_named el_name a (tl_event_int (get_event_int n f t)) =
    (if a = n then Some (f (case find_named el_name n (tl_event_int t) of None \<Rightarrow> \<lparr>el_name = n, events = []\<rparr> | Some r \<Rightarrow> r))
     else find_named el_name a (tl_event_int t))"
  by (simp add: get_event_int_def find_on_named assms)

lemmas find_rules = find_timelines_get find_get_range find_get_event_str find_get_event_int

lemma find_named_Nil [simp]: "find_named nm n [] = None"
  by (simp add: find_named_def)

lemma data_add_entry:
  "range_data (fst (add_entry st e)) a b = range_data (fst st) a b @ range_of a b e"
  "event_str_data (fst (add_entry st e)) a b = event_str_data (fst st) a b @ event_str_of a b e"
  "event_int_data (fst (add_entry st e)) a b = event_int_data (fst st) a b @ event_int_of a b e"
  by (cases "(st, e)" rule: add_entry.cases;
      auto simp: range_data_def event_str_data_def event_int_data_def find_rules split: option.splits)+

definition entries :: "string list \<Rightarrow> entry list" where
  "entries lines = List.map_filter parse_entry lines"

definition load :: "string list \<Rightarrow> timeline list \<times> colors" where
  "load lines = foldl add_entry ([], colors_init) (entries lines)"

lemma load_eq:
  "foldl (\<lambda>st line. case parse_entry line of None \<Rightarrow> st | Some e \<Rightarrow> add_entry st e) st lines =
     foldl add_entry st (entries lines)"
  by (induction lines arbitrary: st) (auto simp: entries_def List.map_filter_def split: option.splits)

lemma data_load:
  "range_data (fst (foldl add_entry ([], c) es)) a b = concat (map (range_of a b) es)"
  "event_str_data (fst (foldl add_entry ([], c) es)) a b = concat (map (event_str_of a b) es)"
  "event_int_data (fst (foldl add_entry ([], c) es)) a b = concat (map (event_int_of a b) es)"
  by (induction es rule: rev_induct)
    (simp_all add: data_add_entry, simp_all add: range_data_def event_str_data_def event_int_data_def)

lemma tl_name_sort [simp]: "tl_name (timeline_sort t) = tl_name t"
  by (simp add: timeline_sort_def)

lemma data_sort:
  "range_data (timelines_sort ts) a b = sort_key r_start (range_data ts a b)"
  "event_str_data (timelines_sort ts) a b = sort_key e_at (event_str_data ts a b)"
  "event_int_data (timelines_sort ts) a b = sort_key e_at (event_int_data ts a b)"
  by (simp_all add: range_data_def event_str_data_def event_int_data_def timelines_sort_def find_map_named split: option.splits)
    (auto simp: timeline_sort_def find_map_named sort_ranges sort_events split: option.splits)

lemma names_add_entry:
  "distinct (map tl_name (fst st)) \<Longrightarrow> distinct (map tl_name (fst (add_entry st e)))"
  by (cases "(st, e)" rule: add_entry.cases) (auto simp: timelines_get_def on_named_names simp del: list.map set_map)

lemma names_load: "distinct (map tl_name (fst (foldl add_entry ([], c) es)))"
  by (induction es rule: rev_induct) (simp_all add: names_add_entry)

subsection \<open>The lines of the file\<close>

definition hex_digit :: "nat \<Rightarrow> char" where
  "hex_digit d = (if d < 10 then digit_chr d else char_of (87 + d))"

fun render_entry :: "entry \<Rightarrow> string" where
  "render_entry (ERange a b v m n) = ''range '' @ a @ '' '' @ b @ '' '' @ v @ '' '' @ nat_str m @ '' '' @ nat_str n"
| "render_entry (EStr a b v n) = ''event-str '' @ a @ '' '' @ b @ '' '' @ v @ '' '' @ nat_str n"
| "render_entry (EInt a b v n) = ''event-int '' @ a @ '' '' @ b @ '' '' @ nat_str v @ '' '' @ nat_str n"
| "render_entry (EColor a r g b) = ''color '' @ a @ '' #'' @
     [hex_digit (r div 16), hex_digit (r mod 16), hex_digit (g div 16), hex_digit (g mod 16),
      hex_digit (b div 16), hex_digit (b mod 16)]"

definition word_ok :: "string \<Rightarrow> bool" where
  "word_ok w \<longleftrightarrow> w \<noteq> [] \<and> CHR '' '' \<notin> set w"

fun entry_ok :: "entry \<Rightarrow> bool" where
  "entry_ok (ERange a b v m n) \<longleftrightarrow> word_ok a \<and> word_ok b \<and> word_ok v"
| "entry_ok (EStr a b v n) \<longleftrightarrow> word_ok a \<and> word_ok b \<and> word_ok v"
| "entry_ok (EInt a b v n) \<longleftrightarrow> word_ok a \<and> word_ok b"
| "entry_ok (EColor a r g b) \<longleftrightarrow> word_ok a \<and> r < 256 \<and> g < 256 \<and> b < 256"

lemma hex_val_digit:
  assumes "d < 16"
  shows "hex_val (hex_digit d) = Some d"
proof (cases "d < 10")
  case True
  then show ?thesis by (simp add: hex_val_def hex_digit_def Let_def)
next
  case False
  with assms have c: "(of_char (hex_digit d) :: nat) = 87 + d" by (simp add: hex_digit_def)
  with False have "\<not> is_digit (hex_digit d)" by (simp add: is_digit_def)
  with assms False c show ?thesis by (simp add: hex_val_def Let_def)
qed

lemma eat_hex2_digits: "n < 256 \<Longrightarrow> eat_hex2 (hex_digit (n div 16) # hex_digit (n mod 16) # s) = Some (n, s)"
  by (simp add: hex_val_digit)

lemma eat_space [simp]: "eat '' '' (CHR '' '' # s) = Some s"
  by (simp add: eat_def starts_with_def)

lemma parse_render_entry:
  assumes "entry_ok e"
  shows "parse_entry (render_entry e) = Some e"
proof (cases e)
  case (ERange a b v m n)
  have "eat ''range '' (''range '' @ s) = Some s" for s by (rule eat_same)
  then have "match_range (render_entry e) = Some e"
    using assms by (simp add: ERange match_range_def word_ok_def del: append_Cons) simp
  then show ?thesis by (simp add: parse_entry_def)
next
  case (EStr a b v n)
  have "eat ''range '' (''event-str '' @ s) = None" for s by (simp add: eat_def starts_with_def)
  moreover have "eat ''event-str '' (''event-str '' @ s) = Some s" for s by (rule eat_same)
  ultimately show ?thesis
    using assms by (simp add: EStr parse_entry_def match_range_def match_event_str_def word_ok_def)
next
  case (EInt a b v n)
  have "eat ''range '' (''event-int '' @ s) = None" "eat ''event-str '' (''event-int '' @ s) = None" for s
    by (simp_all add: eat_def starts_with_def)
  moreover have "eat ''event-int '' (''event-int '' @ s) = Some s" for s by (rule eat_same)
  ultimately show ?thesis
    using assms by (simp add: EInt parse_entry_def match_range_def match_event_str_def match_event_int_def word_ok_def)
next
  case (EColor a r g b)
  have "eat ''range '' (''color '' @ s) = None" "eat ''event-str '' (''color '' @ s) = None"
    "eat ''event-int '' (''color '' @ s) = None" for s
    by (simp_all add: eat_def starts_with_def)
  moreover have "eat ''color '' (''color '' @ s) = Some s" "eat '' #'' ('' #'' @ s) = Some s" for s
    by (rule eat_same)+
  ultimately show ?thesis
    using assms by (simp add: EColor parse_entry_def match_range_def match_event_str_def match_event_int_def
        match_color_def word_ok_def eat_hex2_digits del: eat_hex2.simps)
qed

definition decode_entry :: "string \<Rightarrow> unit + entry" where
  "decode_entry line = (case parse_entry line of None \<Rightarrow> Inl () | Some e \<Rightarrow> Inr e)"

interpretation en: codec render_entry decode_entry entry_ok
  by unfold_locales (simp add: decode_entry_def parse_render_entry)

lemma entries_render: "list_all entry_ok es \<Longrightarrow> entries (map render_entry es) = es"
  by (induction es) (simp_all add: entries_def List.map_filter_def parse_render_entry)

subsection \<open>Windows\<close>

lemma slice_between:
  assumes "\<And>k. k < length xs \<Longrightarrow> P (xs ! k) \<Longrightarrow> i \<le> k \<and> k < j"
    and "\<And>k. k < length xs \<Longrightarrow> i \<le> k \<Longrightarrow> k < j \<Longrightarrow> Q (xs ! k)"
  shows "subseq (filter P xs) (drop i (take j xs)) \<and> subseq (drop i (take j xs)) (filter Q xs)"
proof
  let ?m = "drop i (take j xs)"
  have "\<not> P x" if "x \<in> set (drop j xs)" for x
  proof -
    from that obtain k where "k < length xs - j" "xs ! (j + k) = x" by (auto simp: in_set_conv_nth)
    then show ?thesis using assms(1) [of "j + k"] by (auto simp: less_diff_conv add.commute)
  qed
  then have "filter P (drop j xs) = []" by (simp add: filter_empty_conv)
  moreover have "\<not> P x" if "x \<in> set (take i (take j xs))" for x
  proof -
    from that obtain k where "k < i" "k < length xs" "xs ! k = x" by (auto simp: in_set_conv_nth)
    then show ?thesis using assms(1) [of k] by auto
  qed
  then have "filter P (take i (take j xs)) = []" by (simp add: filter_empty_conv)
  ultimately have "filter P xs = filter P ?m"
    by (metis append_Nil append_Nil2 append_take_drop_id filter_append)
  then show "subseq (filter P xs) ?m" by (simp add: subseq_filter_left)
  have "subseq ?m xs"
    by (metis append_take_drop_id list_emb_append2 subseq_drop_many subseq_order.order_refl subseq_rev_drop_many)
  then have "subseq (filter Q ?m) (filter Q xs)" by (rule subseq_filter)
  moreover have "Q x" if "x \<in> set ?m" for x
  proof -
    from that obtain n where n: "n < length ?m" "?m ! n = x" by (auto simp: in_set_conv_nth)
    then have "?m ! n = xs ! (i + n)" by (subst nth_drop) auto
    with n show ?thesis using assms(2) [of "i + n"] by auto
  qed
  then have "filter Q ?m = ?m" by (simp add: filter_id_conv)
  ultimately show "subseq ?m (filter Q xs)" by simp
qed

text \<open>Where the ranges lie of which one holds the key.\<close>

lemma hit_from:
  assumes "in_order rs" and "hit rs key (int i)" and "k < length rs"
  shows "k < i \<Longrightarrow> ends (rs ! k) \<le> key" and "i \<le> k \<Longrightarrow> key \<le> ends (rs ! k)"
    and "k \<le> i \<Longrightarrow> begins (rs ! k) \<le> key" and "i < k \<Longrightarrow> key \<le> begins (rs ! k)"
proof -
  have i: "i < length rs" "begins (rs ! i) \<le> key" "key \<le> ends (rs ! i)" using assms(2) by (auto simp: hit_def)
  note k = in_order_start_end [OF assms(1) assms(3)]
  have lt: "k < i \<Longrightarrow> ends (rs ! k) \<le> begins (rs ! i)" and gt: "i < k \<Longrightarrow> ends (rs ! i) \<le> begins (rs ! k)"
    using in_order_nth [OF assms(1)] i(1) assms(3) by blast+
  show "k < i \<Longrightarrow> ends (rs ! k) \<le> key" using lt i k by linarith
  show "i < k \<Longrightarrow> key \<le> begins (rs ! k)" using gt i k by linarith
  show "i \<le> k \<Longrightarrow> key \<le> ends (rs ! k)" using gt i k by (cases "i = k") auto
  show "k \<le> i \<Longrightarrow> begins (rs ! k) \<le> key" using lt i k by (cases "i = k") auto
qed

lemma hit_apart:
  assumes "apart rs" and "hit rs key (int i)" and "k < length rs"
  shows "k < i \<Longrightarrow> ends (rs ! k) < key" and "i < k \<Longrightarrow> key < begins (rs ! k)"
proof -
  have i: "i < length rs" "begins (rs ! i) \<le> key" "key \<le> ends (rs ! i)" using assms(2) by (auto simp: hit_def)
  have lt: "k < i \<Longrightarrow> ends (rs ! k) < begins (rs ! i)" and gt: "i < k \<Longrightarrow> ends (rs ! i) < begins (rs ! k)"
    using assms i(1) by (simp_all add: apart_def sorted_wrt_iff_nth_less)
  show "k < i \<Longrightarrow> ends (rs ! k) < key" using lt i by linarith
  show "i < k \<Longrightarrow> key < begins (rs ! k)" using gt i by linarith
qed

definition covers :: "data_range list \<Rightarrow> rat \<Rightarrow> bool" where
  "covers rs key \<longleftrightarrow> list_ex (\<lambda>r. begins r \<le> key \<and> key \<le> ends r) rs"

lemma covers_search:
  assumes "in_order rs"
  shows "if covers rs key then \<exists>i. range_search rs key 0 (int (length rs) - 1) = int i \<and> hit rs key (int i)
    else range_search rs key 0 (int (length rs) - 1) = -1"
proof -
  define s where "s = range_search rs key 0 (int (length rs) - 1)"
  have cov: "covers rs key \<longleftrightarrow> (\<exists>j. hit rs key j)"
  proof
    assume "covers rs key"
    then obtain i where "i < length rs" "begins (rs ! i) \<le> key" "key \<le> ends (rs ! i)"
      by (auto simp: covers_def list_ex_length)
    then show "\<exists>j. hit rs key j" by (intro exI [of _ "int i"]) (simp add: hit_def)
  qed (auto simp: covers_def hit_def list_ex_iff)
  show ?thesis
  proof (cases "covers rs key")
    case True
    then have h: "hit rs key s" using range_search_correct [OF assms(1), of key] cov by (auto simp: s_def)
    then have "s = int (nat s)" by (simp add: hit_def)
    with h True show ?thesis by (metis s_def)
  next
    case False
    then show ?thesis using range_search_correct [OF assms(1), of key] cov by (auto simp: s_def)
  qed
qed

lemma slice_slice: "py_slice xs (int a) (int b + 1) = drop a (take (b + 1) xs)"
  by (simp add: py_slice_def py_clip_def Let_def min_def nat_add_distrib)

text \<open>
  The ranges asked for: those that meet the window, where a comparison is made only for an end of
  the window that lies in a range.
\<close>

definition asked :: "(rat \<Rightarrow> rat \<Rightarrow> bool) \<Rightarrow> data_range list \<Rightarrow> rat \<Rightarrow> rat \<Rightarrow> data_range list" where
  "asked before rs start fin =
     (if covers rs start \<and> covers rs fin then filter (\<lambda>r. before start (ends r) \<and> before (begins r) fin) rs
      else if covers rs fin then filter (\<lambda>r. before (begins r) fin) rs
      else if covers rs start then filter (\<lambda>r. before start (ends r)) rs
      else [])"

lemma get_ranges_between:
  assumes "in_order rs" and "before = (<) \<or> before = (\<le>) \<and> apart rs"
  shows "subseq (asked before rs start fin) (get_ranges rs start fin) \<and>
    subseq (get_ranges rs start fin) (asked (\<le>) rs start fin)"
proof -
  let ?s = "range_search rs start 0 (int (length rs) - 1)" and ?e = "range_search rs fin 0 (int (length rs) - 1)"
  have ahead: "\<not> before key (ends (rs ! k))" if "hit rs key (int i)" "k < length rs" "k < i" for key i k
    using hit_from(1) [OF assms(1) that(1,2)] hit_apart(1) [OF _ that(1,2)] that assms(2) by (auto simp: not_less not_le)
  have behind: "\<not> before (begins (rs ! k)) key" if "hit rs key (int i)" "k < length rs" "i < k" for key i k
    using hit_from(4) [OF assms(1) that(1,2)] hit_apart(2) [OF _ that(1,2)] that assms(2) by (auto simp: not_less not_le)
  have first: "i \<le> k" if "hit rs key (int i)" "k < length rs" "before key (ends (rs ! k))" for key i k
    using ahead [OF that(1,2)] that(3) by (meson leI)
  have last': "k < Suc i" if "hit rs key (int i)" "k < length rs" "before (begins (rs ! k)) key" for key i k
    using behind [OF that(1,2)] that(3) by (meson leI less_Suc_eq_le)
  consider (both) i j where "covers rs start" "covers rs fin" "?s = int i" "hit rs start (int i)" "?e = int j" "hit rs fin (int j)"
    | (only_end) j where "\<not> covers rs start" "covers rs fin" "?s = -1" "?e = int j" "hit rs fin (int j)"
    | (only_start) i where "covers rs start" "\<not> covers rs fin" "?s = int i" "hit rs start (int i)" "?e = -1"
    | (neither) "\<not> covers rs start" "\<not> covers rs fin" "?s = -1" "?e = -1"
    using covers_search [OF assms(1), of start] covers_search [OF assms(1), of fin] by (auto split: if_splits)
  then show ?thesis
  proof cases
    case both
    have "get_ranges rs start fin = drop i (take (j + 1) rs)" using both by (simp add: get_ranges_def slice_slice)
    moreover have "subseq (filter (\<lambda>r. before start (ends r) \<and> before (begins r) fin) rs) (drop i (take (j + 1) rs)) \<and>
      subseq (drop i (take (j + 1) rs)) (filter (\<lambda>r. start \<le> ends r \<and> begins r \<le> fin) rs)"
    proof (rule slice_between)
      fix k
      assume k: "k < length rs"
      show "i \<le> k \<and> k < j + 1" if "before start (ends (rs ! k)) \<and> before (begins (rs ! k)) fin"
        using first [OF both(4) k] last' [OF both(6) k] that by simp
      show "start \<le> ends (rs ! k) \<and> begins (rs ! k) \<le> fin" if "i \<le> k" "k < j + 1"
        using hit_from(2) [OF assms(1) both(4) k] hit_from(3) [OF assms(1) both(6) k] that by simp
    qed
    ultimately show ?thesis using both(1,2) by (simp add: asked_def)
  next
    case only_end
    have "get_ranges rs start fin = drop 0 (take (j + 1) rs)"
      using only_end slice_slice [of rs 0 j] by (simp add: get_ranges_def)
    moreover have "subseq (filter (\<lambda>r. before (begins r) fin) rs) (drop 0 (take (j + 1) rs)) \<and>
      subseq (drop 0 (take (j + 1) rs)) (filter (\<lambda>r. begins r \<le> fin) rs)"
      using last' [OF only_end(5)] hit_from(3) [OF assms(1) only_end(5)] by (intro slice_between) simp_all
    ultimately show ?thesis using only_end(1,2) by (simp add: asked_def)
  next
    case only_start
    have "get_ranges rs start fin = drop i (take (length rs) rs)"
      using only_start by (simp add: get_ranges_def py_slice_def py_clip_def Let_def min_def)
    moreover have "subseq (filter (\<lambda>r. before start (ends r)) rs) (drop i (take (length rs) rs)) \<and>
      subseq (drop i (take (length rs) rs)) (filter (\<lambda>r. start \<le> ends r) rs)"
      using first [OF only_start(4)] hit_from(2) [OF assms(1) only_start(4)] by (intro slice_between) simp_all
    ultimately show ?thesis using only_start(1,2) by (simp add: asked_def)
  next
    case neither
    then show ?thesis by (simp add: get_ranges_def asked_def)
  qed
qed

lemma butlast_slice:
  assumes "x \<in> set (butlast (py_slice xs a (b + 1)))" and "0 \<le> a" and "0 \<le> b"
  shows "\<exists>k<length xs. a \<le> int k \<and> int k < b \<and> xs ! k = x"
proof -
  let ?s = "py_slice xs a (b + 1)"
  obtain k where k: "k < length ?s - 1" "?s ! k = x"
    using assms(1) by (auto simp: in_set_conv_nth nth_butlast)
  have s: "?s = drop (min (length xs) (nat a)) (take (min (length xs) (nat b + 1)) xs)"
    using assms(2,3) by (simp add: py_slice_def py_clip_def Let_def nat_add_distrib)
  then have "nat a + k < length xs" "nat a + k < nat b" "xs ! (nat a + k) = x"
    using k by (auto simp: min_def split: if_splits)
  then show ?thesis using assms(2) by (intro exI [of _ "nat a + k"]) auto
qed

subsection \<open>Properties\<close>

text \<open>
  C30. For ranges in order, which may touch as the states of a trace do,
  \<^verbatim>\<open>get_ranges\<close> is the slice that \<^verbatim>\<open>get_ranges_bounds\<close> describes. When both ends of the window
  lie in a range it holds every range that has more than a bound in common with the window, and
  none that does not meet it; when only one end does, the other one is not used at all; and when
  both lie in gaps nothing is returned, whatever lies between them. A range that meets the window
  only in a common bound is in or out as the search happens to fall, so for ranges that do not
  touch each other the result is exactly the ranges that meet the window.
\<close>

theorem get_ranges_window:
  assumes "in_order rs"
  shows "get_ranges rs start fin = (case get_ranges_bounds rs start fin of (lo, hi) \<Rightarrow> py_slice rs lo hi) \<and>
    subseq (asked (<) rs start fin) (get_ranges rs start fin) \<and>
    subseq (get_ranges rs start fin) (asked (\<le>) rs start fin) \<and>
    (apart rs \<longrightarrow> get_ranges rs start fin = asked (\<le>) rs start fin)"
  using get_ranges_slice get_ranges_between [OF assms] subseq_order.antisym by blast

definition demo_ranges :: "data_range list" where
  "demo_ranges = [\<lparr>r_start = 2, r_end = 4, r_value = ''a''\<rparr>, \<lparr>r_start = 6, r_end = 8, r_value = ''b''\<rparr>]"

definition demo_states :: "data_range list" where
  "demo_states = [\<lparr>r_start = 0, r_end = 4, r_value = ''a''\<rparr>, \<lparr>r_start = 4, r_end = 8, r_value = ''b''\<rparr>]"

theorem get_ranges_window_witness:
  "in_order demo_ranges \<and> get_ranges demo_ranges 1 9 = [] \<and> get_ranges demo_ranges 3 7 = demo_ranges \<and>
   in_order demo_states \<and> \<not> apart demo_states \<and> get_ranges demo_states 1 5 = demo_states"
proof -
  have o: "in_order demo_ranges" "apart demo_ranges" "in_order demo_states" "\<not> apart demo_states"
    by (simp_all add: demo_ranges_def demo_states_def in_order_def apart_def)
  have "get_ranges demo_ranges a b = asked (\<le>) demo_ranges a b" for a b
    using get_ranges_window [OF o(1)] o(2) by blast
  then have r: "get_ranges demo_ranges 1 9 = []" "get_ranges demo_ranges 3 7 = demo_ranges"
    by (simp_all add: asked_def demo_ranges_def covers_def)
  have "asked (<) demo_states 1 5 = demo_states" "asked (\<le>) demo_states 1 5 = demo_states"
    by (simp_all add: asked_def demo_states_def covers_def)
  then have "get_ranges demo_states 1 5 = demo_states"
    using get_ranges_window [OF o(3), of 1 5] subseq_order.antisym by metis
  with o r show ?thesis by blast
qed

text \<open>
  For events in order of time, \<^verbatim>\<open>get_events\<close> returns every event strictly
  inside the window, nothing before its start, and at most one event, the last, after its end.
\<close>

theorem get_events_window:
  assumes "events_in_order es" and "start \<le> fin"
  shows "(\<forall>e\<in>set es. start < time e \<and> time e < fin \<longrightarrow> e \<in> set (get_events es start fin)) \<and>
    (\<forall>e\<in>set (get_events es start fin). start \<le> time e) \<and>
    (\<forall>e\<in>set (butlast (get_events es start fin)). time e \<le> fin)"
proof -
  let ?s = "event_search es start 0 (int (length es) - 1)" and ?e = "event_search es fin 0 (int (length es) - 1)"
  have s: "placed es start ?s" and e: "placed es fin ?e" using event_search_placed [OF assms(1)] by blast+
  have pos: "0 \<le> ?s" "0 \<le> ?e" using s e by (simp_all add: placed_def)
  note mem = py_slice_members [of ?s "?e + 1" _ es]
  have "x \<in> set (get_events es start fin)" if "x \<in> set es" "start < time x" "time x < fin" for x
  proof -
    obtain k where k: "k < length es" "es ! k = x" using \<open>x \<in> set es\<close> by (auto simp: in_set_conv_nth)
    have "?s \<le> int k" using s k that(2) by (fastforce simp: placed_def)
    moreover have "int k < ?e" using e k that(3) by (fastforce simp: placed_def)
    ultimately show ?thesis using k mem [of x] pos by (auto simp: get_events_def)
  qed
  moreover have "start \<le> time x" if "x \<in> set (get_events es start fin)" for x
    using that mem [of x] pos s by (auto simp: get_events_def placed_def)
  moreover have "time x \<le> fin" if "x \<in> set (butlast (get_events es start fin))" for x
    using butlast_slice [OF that [unfolded get_events_def] pos] e by (auto simp: placed_def)
  ultimately show ?thesis by blast
qed

theorem get_events_window_witness:
  "events_in_order [\<lparr>e_at = 1, e_value = ''a''\<rparr>, \<lparr>e_at = 5, e_value = ''b''\<rparr>] \<and>
   \<lparr>e_at = 5, e_value = ''b''\<rparr> \<in> set (get_events [\<lparr>e_at = 1, e_value = ''a''\<rparr>, \<lparr>e_at = 5, e_value = ''b''\<rparr>] 2 6)"
proof -
  have "events_in_order [\<lparr>e_at = 1, e_value = ''a''\<rparr>, \<lparr>e_at = 5, e_value = ''b''\<rparr>]" by (simp add: events_in_order_def)
  then show ?thesis using get_events_window [of "[\<lparr>e_at = 1, e_value = ''a''\<rparr>, \<lparr>e_at = 5, e_value = ''b''\<rparr>]" 2 6] by simp
qed

text \<open>The strict bounds are needed: of several events at the start of the window some are lost.\<close>

lemma equal_events_lost:
  "length (get_events [\<lparr>e_at = 5, e_value = ''a''\<rparr>, \<lparr>e_at = 5, e_value = ''b''\<rparr>, \<lparr>e_at = 5, e_value = ''c''\<rparr>] 5 9) = 2"
  by code_simp

text \<open>
  C29. After \<^verbatim>\<open>read_data\<close> every timeline and line holds exactly the data of
  its entries in the file, sorted by time and otherwise in file order; timelines have distinct
  names; and every well-formed entry is read from the line that prints it.
\<close>

theorem read_data_correct:
  "(case read_data lines of (cs, ts) \<Rightarrow>
      distinct (map tl_name ts) \<and>
      range_data ts a b = sort_key r_start (concat (map (range_of a b) (entries lines))) \<and>
      event_str_data ts a b = sort_key e_at (concat (map (event_str_of a b) (entries lines))) \<and>
      event_int_data ts a b = sort_key e_at (concat (map (event_int_of a b) (entries lines)))) \<and>
   (list_all entry_ok es \<longrightarrow> entries (map render_entry es) = es)"
proof -
  obtain ts cs where l: "foldl add_entry ([], colors_init) (entries lines) = (ts, cs)" by fastforce
  have r: "read_data lines = (cs, timelines_sort ts)" by (simp add: read_data_def load_eq l)
  have "map tl_name (timelines_sort ts) = map tl_name ts" by (simp add: timelines_sort_def)
  then show ?thesis
    using entries_render [of es] data_load [of colors_init "entries lines" a b] names_load [of colors_init "entries lines"]
    by (simp add: r l data_sort del: set_map)
qed

theorem read_data_correct_witness:
  "entries [render_entry (ERange ''node'' ''cpu'' ''busy'' 3 7)] = [ERange ''node'' ''cpu'' ''busy'' 3 7] \<and>
   range_data (snd (read_data [render_entry (ERange ''node'' ''cpu'' ''busy'' 3 7)])) ''node'' ''cpu'' =
     [\<lparr>r_start = 3, r_end = 7, r_value = ''busy''\<rparr>]"
proof -
  have e: "entries [render_entry (ERange ''node'' ''cpu'' ''busy'' 3 7)] = [ERange ''node'' ''cpu'' ''busy'' 3 7]"
    using read_data_correct [where es = "[ERange ''node'' ''cpu'' ''busy'' 3 7]"] by (simp add: word_ok_def del: render_entry.simps)
  then show ?thesis
    using read_data_correct [where lines = "[render_entry (ERange ''node'' ''cpu'' ''busy'' 3 7)]" and a = "''node''" and b = "''cpu''" and es = "[]"]
    by (cases "read_data [render_entry (ERange ''node'' ''cpu'' ''busy'' 3 7)]") (simp del: render_entry.simps)
qed

text \<open>
  Looking up distinct names that have no colour succeeds exactly as long as
  there are default colours left, and raises an IndexError after that; with fresh tables the names
  get different colours.
\<close>

theorem color_lookup_limit:
  assumes "distinct names" and "set names \<inter> set (map fst (col_dict c)) = {}"
  shows "rfold (\<lambda>(c, ds) n. rbind (color_lookup n c) (\<lambda>(c', d). Inr (c', ds @ [d]))) (c, []) names =
    (if length names \<le> length (default_colors c) then
       Inr (c\<lparr>default_colors := take (length (default_colors c) - length names) (default_colors c),
             col_dict := col_dict c @ zip names (rev (default_colors c))\<rparr>,
            take (length names) (rev (default_colors c)))
     else Inl IndexError)"
proof -
  have "rfold (\<lambda>(c, ds) n. rbind (color_lookup n c) (\<lambda>(c', d). Inr (c', ds @ [d]))) (c, ds) names =
    (if length names \<le> length (default_colors c) then
       Inr (c\<lparr>default_colors := take (length (default_colors c) - length names) (default_colors c),
             col_dict := col_dict c @ zip names (rev (default_colors c))\<rparr>,
            ds @ take (length names) (rev (default_colors c)))
     else Inl IndexError)" for ds
    using assms
  proof (induction names arbitrary: c ds)
    case (Cons n names)
    have nk: "\<not> has_key (col_dict c) n" using Cons.prems(2) by (auto simp: has_key_def)
    show ?case
    proof (cases "default_colors c" rule: rev_cases)
      case Nil
      then show ?thesis using nk by (simp add: color_lookup_def)
    next
      case (snoc cs d)
      let ?c = "c\<lparr>default_colors := cs, col_dict := col_dict c @ [(n, d)]\<rparr>"
      have upd: "AList.update n d (col_dict c) = col_dict c @ [(n, d)]"
        using nk by (intro update_absent) (simp add: has_key_def)
      have "color_lookup n c = Inr (?c, d)" using nk snoc upd by (simp add: color_lookup_def)
      moreover have "set names \<inter> set (map fst (col_dict ?c)) = {}" using Cons.prems by auto
      ultimately show ?thesis using Cons.IH [of ?c "ds @ [d]"] Cons.prems(1) snoc by simp
    qed
  qed simp
  from this [of "[]"] show ?thesis by simp
qed

theorem color_lookup_limit_witness:
  "rfold (\<lambda>(c, ds) n. rbind (color_lookup n c) (\<lambda>(c', d). Inr (c', ds @ [d]))) (colors_init, [])
     [''a'', ''b'', ''c'', ''d'', ''e'', ''f'', ''g''] = Inl IndexError"
  using color_lookup_limit [of "[''a'', ''b'', ''c'', ''d'', ''e'', ''f'', ''g'']" colors_init]
  by (simp add: colors_init_def)

end
