(* ===== verification/TestJobs.thy ===== *)
theory TestJobs
  imports PyPath Complex_Main
begin

section \<open>The test runner, part one: configuration and jobs (\<^verbatim>\<open>test.py\<close>)\<close>

text \<open>
  The tables of examples, the configuration read from the waf cache, the paths put into
  the environment, the class \<^verbatim>\<open>Job\<close>, the way a job is run as a child process, and the
  part of \<^verbatim>\<open>run_tests\<close> that decides what waf builds and which jobs are queued. The
  global names of the script are a dictionary; executing a line of the waf cache, starting
  a child process and the files are parameters. The text printed with \<^verbatim>\<open>--verbose\<close> is not
  modelled, but the reads of unset names it causes are.
\<close>

subsection \<open>The conversion with three decimals\<close>

definition round_half_even :: "rat \<Rightarrow> int" where
  "round_half_even x =
     (let f = \<lfloor>x\<rfloor>; d = x - of_int f
      in if d < 1 / 2 then f else if 1 / 2 < d then f + 1 else if even f then f else f + 1)"

definition fixed3 :: "rat \<Rightarrow> string" where
  "fixed3 x =
     (let n = nat (round_half_even (\<bar>x\<bar> * 1000)); f = n mod 1000
      in (if x < 0 then ''-'' else []) @ nat_str (n div 1000) @ ''.''
         @ [digit_chr (f div 100), digit_chr (f div 10 mod 10), digit_chr (f mod 10)])"

lemma round_half_even_near: "\<bar>of_int (round_half_even x) - x\<bar> \<le> 1 / 2"
proof -
  define f where "f = rat_of_int \<lfloor>x\<rfloor>"
  have "f \<le> x" "x < f + 1" unfolding f_def by linarith+
  then show ?thesis by (auto simp: round_half_even_def Let_def abs_le_iff simp flip: f_def)
qed

lemma round_half_even_int [simp]: "round_half_even (of_int n) = n"
  by (simp add: round_half_even_def)

subsection \<open>Global names and the tables\<close>

datatype pyval = PBool bool | PStr string | PList "string list"

type_synonym globals = "(string, pyval) dict"

definition truthy :: "pyval \<Rightarrow> bool" where
  "truthy v = (case v of PBool b \<Rightarrow> b | PStr s \<Rightarrow> s \<noteq> [] | PList xs \<Rightarrow> xs \<noteq> [])"

definition get_global :: "globals \<Rightarrow> string \<Rightarrow> pyval res" where
  "get_global g n = (case map_of g n of None \<Rightarrow> Inl NameError | Some v \<Rightarrow> Inr v)"

text \<open>A name that the code uses as a string or as a list of strings.\<close>

definition get_str :: "globals \<Rightarrow> string \<Rightarrow> string res" where
  "get_str g n = rbind (get_global g n) (\<lambda>v. case v of PStr s \<Rightarrow> Inr s | _ \<Rightarrow> Inl AttributeError)"

definition get_strs :: "globals \<Rightarrow> string \<Rightarrow> string list res" where
  "get_strs g n = rbind (get_global g n) (\<lambda>v. case v of PList xs \<Rightarrow> Inr xs
     | PStr s \<Rightarrow> Inr (map (\<lambda>c. [c]) s) | PBool b \<Rightarrow> Inl TypeError)"

definition interesting_config_items :: "string list" where
  "interesting_config_items = [''NS3_BUILDDIR'', ''NS3_MODULE_PATH'', ''ENABLE_NSC'', ''ENABLE_REAL_TIME'',
     ''ENABLE_EXAMPLES'', ''ENABLE_PYTHON_BINDINGS'']"

definition initial_globals :: globals where
  "initial_globals = [(''ENABLE_NSC'', PBool False), (''ENABLE_REAL_TIME'', PBool False),
     (''ENABLE_EXAMPLES'', PBool True)]"

definition core_kinds :: "string list" where
  "core_kinds = [''bvt'', ''core'', ''system'', ''unit'']"

definition core_valgrind_skip_tests :: "string list" where
  "core_valgrind_skip_tests = [''ns3-tcp-cwnd'', ''nsc-tcp-loss'', ''ns3-tcp-interoperability'']"

text \<open>An example, the condition to run it, the condition to run it under valgrind.\<close>

definition example_tests :: "(string \<times> string \<times> string) list" where
  "example_tests =
    [(''csma/csma-bridge'', ''True'', ''True''),
     (''csma/csma-bridge-one-hop'', ''True'', ''True''),
     (''csma/csma-broadcast'', ''True'', ''True''),
     (''csma/csma-multicast'', ''True'', ''True''),
     (''csma/csma-one-subnet'', ''True'', ''True''),
     (''csma/csma-packet-socket'', ''True'', ''True''),
     (''csma/csma-ping'', ''True'', ''True''),
     (''csma/csma-raw-ip-socket'', ''True'', ''True''),
     (''csma/csma-star'', ''True'', ''True''),
     (''emulation/emu-ping'', ''False'', ''True''),
     (''emulation/emu-udp-echo'', ''False'', ''True''),
     (''error-model/simple-error-model'', ''True'', ''True''),
     (''ipv6/icmpv6-redirect'', ''True'', ''True''),
     (''ipv6/ping6'', ''True'', ''True''),
     (''ipv6/radvd'', ''True'', ''True''),
     (''ipv6/radvd-two-prefix'', ''True'', ''True''),
     (''ipv6/test-ipv6'', ''True'', ''True''),
     (''mesh/mesh'', ''True'', ''True''),
     (''naming/object-names'', ''True'', ''True''),
     (''realtime/realtime-udp-echo'', ''ENABLE_REAL_TIME == True'', ''True''),
     (''routing/dynamic-global-routing'', ''True'', ''True''),
     (''routing/global-injection-slash32'', ''True'', ''True''),
     (''routing/global-routing-slash32'', ''True'', ''True''),
     (''routing/mixed-global-routing'', ''True'', ''True''),
     (''routing/nix-simple'', ''True'', ''True''),
     (''routing/nms-p2p-nix'', ''False'', ''True''),
     (''routing/simple-alternate-routing'', ''True'', ''True''),
     (''routing/simple-global-routing'', ''True'', ''True''),
     (''routing/simple-point-to-point-olsr'', ''True'', ''True''),
     (''routing/simple-routing-ping6'', ''True'', ''True''),
     (''routing/static-routing-slash32'', ''True'', ''True''),
     (''routing/aodv'', ''True'', ''True''),
     (''spectrum/adhoc-aloha-ideal-phy'', ''True'', ''True''),
     (''spectrum/adhoc-aloha-ideal-phy-with-microwave-oven'', ''True'', ''True''),
     (''stats/wifi-example-sim'', ''True'', ''True''),
     (''tap/tap-wifi-dumbbell'', ''False'', ''True''),
     (''tcp/star'', ''True'', ''True''),
     (''tcp/tcp-large-transfer'', ''True'', ''True''),
     (''tcp/tcp-nsc-lfn'', ''ENABLE_NSC == True'', ''True''),
     (''tcp/tcp-nsc-zoo'', ''ENABLE_NSC == True'', ''True''),
     (''tcp/tcp-star-server'', ''True'', ''True''),
     (''topology-read/topology-read --input=../../examples/topology-read/Inet_small_toposample.txt'', ''True'', ''True''),
     (''topology-read/topology-read --format=Rocketfuel --input=../../examples/topology-read/RocketFuel_toposample_1239_weights.txt'', ''True'', ''True''),
     (''tunneling/virtual-net-device'', ''True'', ''True''),
     (''tutorial/first'', ''True'', ''True''),
     (''tutorial/hello-simulator'', ''True'', ''True''),
     (''tutorial/second'', ''True'', ''True''),
     (''tutorial/third'', ''True'', ''True''),
     (''tutorial/fourth'', ''True'', ''True''),
     (''tutorial/fifth'', ''True'', ''True''),
     (''tutorial/sixth'', ''True'', ''True''),
     (''udp/udp-echo'', ''True'', ''True''),
     (''wireless/mixed-wireless'', ''True'', ''True''),
     (''wireless/multirate --totalTime=0.3s --rateManager=ns3::AarfcdWifiManager'', ''True'', ''True''),
     (''wireless/multirate --totalTime=0.3s --rateManager=ns3::AmrrWifiManager'', ''True'', ''True''),
     (''wireless/multirate --totalTime=0.3s --rateManager=ns3::CaraWifiManager'', ''True'', ''True''),
     (''wireless/multirate --totalTime=0.3s --rateManager=ns3::IdealWifiManager'', ''True'', ''True''),
     (''wireless/multirate --totalTime=0.3s --rateManager=ns3::MinstrelWifiManager'', ''True'', ''True''),
     (''wireless/multirate --totalTime=0.3s --rateManager=ns3::OnoeWifiManager'', ''True'', ''True''),
     (''wireless/multirate --totalTime=0.3s --rateManager=ns3::RraaWifiManager'', ''True'', ''True''),
     (''wireless/simple-wifi-frame-aggregation'', ''True'', ''True''),
     (''wireless/wifi-adhoc'', ''False'', ''True''),
     (''wireless/wifi-ap --verbose=0'', ''True'', ''True''),
     (''wireless/wifi-clear-channel-cmu'', ''False'', ''True''),
     (''wireless/wifi-simple-adhoc'', ''True'', ''True''),
     (''wireless/wifi-simple-adhoc-grid'', ''True'', ''True''),
     (''wireless/wifi-simple-infra'', ''True'', ''True''),
     (''wireless/wifi-simple-interference'', ''True'', ''True''),
     (''wireless/wifi-wired-bridging'', ''True'', ''True''),
     (''wimax/wimax-simple'', ''True'', ''True''),
     (''wimax/wimax-ipv4'', ''True'', ''True''),
     (''wimax/wimax-multicast'', ''True'', ''True'')]"

definition python_tests :: "(string \<times> string) list" where
  "python_tests =
    [(''csma/csma-bridge.py'', ''True''),
     (''flowmon/wifi-olsr-flowmon.py'', ''True''),
     (''routing/simple-routing-ping6.py'', ''True''),
     (''tap/tap-csma-virtual-machine.py'', ''False''),
     (''tap/tap-wifi-virtual-machine.py'', ''False''),
     (''tutorial/first.py'', ''True''),
     (''wireless/wifi-ap.py'', ''True''),
     (''wireless/mixed-wireless.py'', ''True'')]"

text \<open>
  \<^verbatim>\<open>eval\<close> of a condition: the tables hold \<^verbatim>\<open>True\<close>, \<^verbatim>\<open>False\<close> and \<^verbatim>\<open>NAME == True\<close>
  (\<open>example_conditions\<close> below).
\<close>

definition eval_cond :: "globals \<Rightarrow> string \<Rightarrow> bool res" where
  "eval_cond g s =
     (if s = ''True'' then Inr True else if s = ''False'' then Inr False
      else rbind (get_global g (take (length s - 8) s)) (\<lambda>v. Inr (v = PBool True)))"

subsection \<open>Reading the waf configuration\<close>

text \<open>
  The tests poke into the cache files of waf and execute the lines that start with an
  interesting name. \<open>exec_line\<close> is Python's \<^verbatim>\<open>exec(line, globals())\<close>.
\<close>

type_synonym exec_fun = "string \<Rightarrow> globals \<Rightarrow> globals res"

type_synonym readlines = "string \<Rightarrow> string list res"

fun exec_active :: "exec_fun \<Rightarrow> string list \<Rightarrow> globals \<Rightarrow> globals res" where
  "exec_active exec_line [] g = Inr g"
| "exec_active exec_line (line # ls) g =
     (if starts_with line ''NS3_ACTIVE_VARIANT'' then exec_line line g
      else exec_active exec_line ls g)"

definition read_waf_active_variant :: "exec_fun \<Rightarrow> readlines \<Rightarrow> bool \<Rightarrow> globals \<Rightarrow> globals res" where
  "read_waf_active_variant exec_line fs verbose g =
     rbind (fs ''build/c4che/default.cache.py'') (\<lambda>ls.
     rbind (exec_active exec_line ls g) (\<lambda>g'.
     if verbose then rbind (get_global g' ''NS3_ACTIVE_VARIANT'') (\<lambda>_. Inr g') else Inr g'))"

definition exec_interesting :: "exec_fun \<Rightarrow> string \<Rightarrow> globals \<Rightarrow> globals res" where
  "exec_interesting exec_line line g =
     rfold (\<lambda>g item. if starts_with line item then exec_line line g else Inr g) g interesting_config_items"

definition read_waf_config :: "exec_fun \<Rightarrow> readlines \<Rightarrow> bool \<Rightarrow> globals \<Rightarrow> globals res" where
  "read_waf_config exec_line fs verbose g =
     rbind (get_str g ''NS3_ACTIVE_VARIANT'') (\<lambda>v.
     rbind (fs (''build/c4che/'' @ v @ ''.cache.py'')) (\<lambda>ls.
     rbind (rfold (\<lambda>g line. exec_interesting exec_line line g) g ls) (\<lambda>g'.
     if verbose then rfold (\<lambda>g'' item. rbind (get_global g'' item) (\<lambda>_. Inr g'')) g' interesting_config_items
     else Inr g')))"

subsection \<open>The paths in the environment\<close>

definition add_paths :: "string \<Rightarrow> string \<Rightarrow> string list \<Rightarrow> environ \<Rightarrow> environ res" where
  "add_paths var sep paths env =
     rfold (\<lambda>e path. env_append var (sep @ path) e) (env_default var [] env) paths"

text \<open>
  The first assignment of \<^verbatim>\<open>PYTHONPATH\<close> comes before the test whether the user has set it,
  as in the code.
\<close>

definition make_paths :: "string \<Rightarrow> globals \<Rightarrow> environ \<Rightarrow> environ res" where
  "make_paths platform g env =
     (let have_PYTHONPATH = has_key env ''PYTHONPATH'' in
      rbind (get_str g ''NS3_BUILDDIR'') (\<lambda>builddir.
      rbind (get_str g ''NS3_ACTIVE_VARIANT'') (\<lambda>variant.
      let pypath = path_joins builddir [variant, ''bindings'', ''python''];
          env = AList.update ''PYTHONPATH'' pypath env in
      rbind (if \<not> have_PYTHONPATH then Inr (AList.update ''PYTHONPATH'' pypath env)
             else env_append ''PYTHONPATH'' ('':'' @ pypath) env) (\<lambda>env.
      rbind (get_strs g ''NS3_MODULE_PATH'') (\<lambda>paths.
      if platform = ''darwin'' then add_paths ''DYLD_LIBRARY_PATH'' '':'' paths env
      else if platform = ''win32'' then add_paths ''PATH'' '';'' paths env
      else if platform = ''cygwin'' then add_paths ''PATH'' '':'' paths env
      else add_paths ''LD_LIBRARY_PATH'' '':'' paths env)))))"

subsection \<open>Jobs and their execution\<close>

text \<open>
  \<^verbatim>\<open>returncode\<close> starts as \<^verbatim>\<open>False\<close>, which Python compares like 0; the elapsed time is the
  number the clock difference gives.
\<close>

record job =
  is_break :: bool
  is_skip :: bool
  is_example :: bool
  is_pyexample :: bool
  shell_command :: string
  display_name :: string
  basedir :: string
  tempdir :: string
  job_cwd :: string
  tmp_file_name :: string
  returncode :: int
  elapsed_time :: rat

definition new_job :: job where
  "new_job = \<lparr>is_break = False, is_skip = False, is_example = False, is_pyexample = False,
     shell_command = [], display_name = [], basedir = [], tempdir = [], job_cwd = [], tmp_file_name = [],
     returncode = 0, elapsed_time = 0\<rparr>"

text \<open>What a child process leaves: return code, both outputs, elapsed time.\<close>

record proc_result =
  pr_code :: int
  pr_stdout :: string
  pr_stderr :: string
  pr_time :: rat

text \<open>
  The command line and the directory determine what \<^verbatim>\<open>subprocess.Popen\<close> gives: what the
  process leaves, or the exception that starting it raises.
\<close>

type_synonym popen = "string \<Rightarrow> string \<Rightarrow> proc_result res"

record build_config =
  builddir :: string
  variant :: string

definition child_cmd :: "build_config \<Rightarrow> string \<Rightarrow> bool \<Rightarrow> bool \<Rightarrow> string" where
  "child_cmd cfg command valgrind is_python =
     (let base = path_dir (builddir cfg);
          suppressions_path = path_join base ''testpy.supp'';
          path_cmd = (if is_python then ''python '' @ path_join base command
                      else path_joins (builddir cfg) [variant cfg, command])
      in if valgrind
         then ''valgrind --suppressions='' @ suppressions_path
              @ '' --leak-check=full --show-reachable=yes --error-exitcode=2 '' @ path_cmd
         else path_cmd)"

definition run_job_synchronously ::
  "popen \<Rightarrow> build_config \<Rightarrow> string \<Rightarrow> string \<Rightarrow> bool \<Rightarrow> bool \<Rightarrow> proc_result res" where
  "run_job_synchronously popen cfg command directory valgrind is_python =
     rbind (popen (child_cmd cfg command valgrind is_python) directory) (\<lambda>r.
     Inr (if valgrind \<and> pr_code r = 0 \<and> has_infix ''== LEAK SUMMARY:'' (pr_stderr r)
          then r\<lparr>pr_code := 2\<rparr> else r))"

text \<open>The part of the worker's loop that runs one job.\<close>

definition run_job :: "popen \<Rightarrow> build_config \<Rightarrow> bool \<Rightarrow> job \<Rightarrow> job res" where
  "run_job popen cfg valgrind j =
     rbind (if is_example j \<or> is_pyexample j
               then run_job_synchronously popen cfg (shell_command j) (job_cwd j) valgrind (is_pyexample j)
               else run_job_synchronously popen cfg
                      (shell_command j @ '' --basedir='' @ basedir j @ '' --tempdir='' @ tempdir j
                       @ '' --out='' @ tmp_file_name j)
                      (job_cwd j) valgrind False) (\<lambda>r.
     Inr (j\<lparr>returncode := pr_code r, elapsed_time := pr_time r\<rparr>))"

subsection \<open>The options and the command for waf\<close>

text \<open>The values \<^verbatim>\<open>optparse\<close> stores, with the defaults the table of options gives.\<close>

record options =
  constrain :: string
  example :: string
  valgrind :: bool
  kinds :: bool
  list_tests :: bool
  multiple :: bool
  nowaf :: bool
  pyexample :: string
  retain :: bool
  suite :: string
  text_file :: string
  verbose :: bool
  html_file :: string
  xml_file :: string

definition default_options :: options where
  "default_options = \<lparr>constrain = [], example = [], valgrind = False, kinds = False, list_tests = False,
     multiple = False, nowaf = False, pyexample = [], retain = False, suite = [], text_file = [],
     verbose = False, html_file = [], xml_file = []\<rparr>"

definition waf_cmd :: "string \<Rightarrow> options \<Rightarrow> string option" where
  "waf_cmd platform opt =
     (if nowaf opt then None
      else let waf = (if platform = ''win32'' then ''waf'' else ''./waf'') in
        if kinds opt \<or> list_tests opt \<or> (constrain opt \<noteq> [] \<and> constrain opt \<in> set core_kinds)
        then Some (waf @ '' --target=test-runner'')
        else if example opt \<noteq> [] then Some (waf @ '' --target='' @ path_base (example opt))
        else Some waf)"

subsection \<open>The queue of jobs\<close>

text \<open>
  Where a run happens: the current directory and the directory \<^verbatim>\<open>testpy_output_dir\<close> made
  from the time of day.
\<close>

record place =
  cur_dir :: string
  out_dir :: string

definition run_runner :: "popen \<Rightarrow> build_config \<Rightarrow> string \<Rightarrow> string \<Rightarrow> proc_result res" where
  "run_runner popen cfg cwd args =
     run_job_synchronously popen cfg (path_join ''utils'' (''test-runner '' @ args)) cwd False False"

definition suite_list :: "popen \<Rightarrow> build_config \<Rightarrow> place \<Rightarrow> options \<Rightarrow> string list res" where
  "suite_list popen cfg pl opt =
     rbind (if suite opt \<noteq> [] then Inr (suite opt @ [CHR ''\<newline>''])
            else if example opt = [] \<and> pyexample opt = [] then
              rbind (run_runner popen cfg (cur_dir pl)
                (if constrain opt \<noteq> [] then ''--list --constrain='' @ constrain opt else ''--list''))
                (\<lambda>r. Inr (pr_stdout r))
            else Inr [])
       (\<lambda>suites. Inr (split_on (CHR ''\<newline>'') suites))"

definition suite_job :: "place \<Rightarrow> options \<Rightarrow> string \<Rightarrow> job" where
  "suite_job pl opt test =
     (let j = new_job\<lparr>display_name := test,
            tmp_file_name := path_join (out_dir pl) (test @ ''.xml''),
            job_cwd := cur_dir pl, basedir := cur_dir pl, tempdir := out_dir pl,
            shell_command := path_join ''utils'' (''test-runner --suite='' @ test
               @ (if multiple opt then '' --multiple'' else []))\<rparr>
      in if valgrind opt \<and> test \<in> set core_valgrind_skip_tests then j\<lparr>is_skip := True\<rparr> else j)"

definition suite_jobs :: "place \<Rightarrow> options \<Rightarrow> string list \<Rightarrow> job list" where
  "suite_jobs pl opt tests =
     map (suite_job pl opt) (filter (\<lambda>t. t \<noteq> []) (map strip tests))"

definition example_job :: "place \<Rightarrow> string \<Rightarrow> job" where
  "example_job pl test = new_job\<lparr>display_name := test, job_cwd := out_dir pl, basedir := cur_dir pl,
     tempdir := out_dir pl, shell_command := ''examples/'' @ test\<rparr>"

fun example_step :: "globals \<Rightarrow> place \<Rightarrow> options \<Rightarrow> job list \<Rightarrow> string \<times> string \<times> string \<Rightarrow> job list res" where
  "example_step g pl opt jobs (test, do_run, do_valgrind_run) =
     rbind (eval_cond g do_run) (\<lambda>run.
     if run then
       rbind (if valgrind opt then eval_cond g do_valgrind_run else Inr True) (\<lambda>vrun.
       let j = (example_job pl test)\<lparr>is_example := True\<rparr>
       in Inr (jobs @ [if valgrind opt \<and> \<not> vrun then j\<lparr>is_skip := True\<rparr> else j]))
     else Inr jobs)"

definition example_jobs :: "globals \<Rightarrow> place \<Rightarrow> options \<Rightarrow> job list res" where
  "example_jobs g pl opt =
     (if suite opt = [] \<and> example opt = [] \<and> pyexample opt = [] then
        if constrain opt = [] \<or> constrain opt = ''example'' then
          rbind (get_global g ''ENABLE_EXAMPLES'') (\<lambda>en.
          if truthy en then
            rfold (example_step g pl opt) [] example_tests
          else Inr [])
        else Inr []
      else if example opt \<noteq> [] then Inr [(example_job pl (example opt))\<lparr>is_example := True\<rparr>]
      else Inr [])"

fun pyexample_step :: "globals \<Rightarrow> place \<Rightarrow> options \<Rightarrow> job list \<Rightarrow> string \<times> string \<Rightarrow> job list res" where
  "pyexample_step g pl opt jobs (test, do_run) =
     rbind (eval_cond g do_run) (\<lambda>run.
     if run then
       let j = (example_job pl test)\<lparr>is_pyexample := True\<rparr>;
           j = (if valgrind opt then j\<lparr>is_skip := True\<rparr> else j)
       in rbind (get_global g ''ENABLE_PYTHON_BINDINGS'') (\<lambda>b.
          Inr (jobs @ [if \<not> truthy b then j\<lparr>is_skip := True\<rparr> else j]))
     else Inr jobs)"

definition pyexample_jobs :: "globals \<Rightarrow> place \<Rightarrow> options \<Rightarrow> job list res" where
  "pyexample_jobs g pl opt =
     (if suite opt = [] \<and> example opt = [] \<and> pyexample opt = [] then
        if constrain opt = [] \<or> constrain opt = ''pyexample'' then
          rbind (get_global g ''ENABLE_EXAMPLES'') (\<lambda>en.
          if truthy en then
            rfold (pyexample_step g pl opt) [] python_tests
          else Inr [])
        else Inr []
      else if pyexample opt \<noteq> [] then Inr [(example_job pl (pyexample opt))\<lparr>is_pyexample := True\<rparr>]
      else Inr [])"

definition queue_jobs :: "globals \<Rightarrow> place \<Rightarrow> options \<Rightarrow> string list \<Rightarrow> job list res" where
  "queue_jobs g pl opt suites =
     rbind (example_jobs g pl opt) (\<lambda>exs.
     rbind (pyexample_jobs g pl opt) (\<lambda>pys.
     Inr (suite_jobs pl opt suites @ exs @ pys)))"

definition dispatch :: "popen \<Rightarrow> build_config \<Rightarrow> globals \<Rightarrow> place \<Rightarrow> options \<Rightarrow> job list res" where
  "dispatch popen cfg g pl opt = rbind (suite_list popen cfg pl opt) (queue_jobs g pl opt)"

definition break_jobs :: "nat \<Rightarrow> job list" where
  "break_jobs processors = replicate processors (new_job\<lparr>is_break := True\<rparr>)"

definition count_processors :: "string \<Rightarrow> int option \<Rightarrow> proc_result res \<Rightarrow> int res" where
  "count_processors platform sysconf sysctl =
     (if platform = ''win32'' then Inr 1
      else case sysconf of Some n \<Rightarrow> Inr n
        | None \<Rightarrow> rbind sysctl (\<lambda>r. if pr_stderr r = [] then py_int (pr_stdout r) else Inr 1))"

subsection \<open>Facts about the configuration\<close>

lemma example_conditions:
  "\<forall>e\<in>set example_tests. fst (snd e) \<in> {''True'', ''False'', ''ENABLE_REAL_TIME == True'', ''ENABLE_NSC == True''}
     \<and> snd (snd e) = ''True''"
  by code_simp

lemma python_conditions: "\<forall>e\<in>set python_tests. snd e \<in> {''True'', ''False''}"
  by code_simp

lemma eval_cond_simps [simp]:
  "eval_cond g ''True'' = Inr True" "eval_cond g ''False'' = Inr False"
  "eval_cond g ''ENABLE_REAL_TIME == True'' = rbind (get_global g ''ENABLE_REAL_TIME'') (\<lambda>v. Inr (v = PBool True))"
  "eval_cond g ''ENABLE_NSC == True'' = rbind (get_global g ''ENABLE_NSC'') (\<lambda>v. Inr (v = PBool True))"
  by (simp_all add: eval_cond_def)

text \<open>The kind of value every name of the configuration has.\<close>

definition kind_ok :: "string \<Rightarrow> pyval \<Rightarrow> bool" where
  "kind_ok n v =
     (if n \<in> {''NS3_BUILDDIR'', ''NS3_ACTIVE_VARIANT''} then \<exists>s. v = PStr s
      else if n = ''NS3_MODULE_PATH'' then \<exists>xs. v = PList xs
      else if n \<in> set interesting_config_items then \<exists>b. v = PBool b
      else True)"

definition conforms :: "globals \<Rightarrow> bool" where
  "conforms g \<longleftrightarrow> (\<forall>n v. map_of g n = Some v \<longrightarrow> kind_ok n v)"

definition complete :: "globals \<Rightarrow> bool" where
  "complete g \<longleftrightarrow> (\<forall>n\<in>set (''NS3_ACTIVE_VARIANT'' # interesting_config_items). has_key g n)"

lemma conforms_initial: "conforms initial_globals"
  by (auto simp: conforms_def initial_globals_def kind_ok_def interesting_config_items_def split: if_splits)

lemma conforms_update: "conforms g \<Longrightarrow> kind_ok n v \<Longrightarrow> conforms (AList.update n v g)"
  by (simp add: conforms_def dict_simps)

lemma rfold_reads: "rfold (\<lambda>g n. rbind (get_global g n) (\<lambda>_. Inr g)) g ns = Inr g' \<longleftrightarrow>
    g' = g \<and> (\<forall>n\<in>set ns. has_key g n)"
  by (induction ns) (auto simp: get_global_def has_key_map_of split: option.splits)

lemma verbose_config_complete:
  assumes "read_waf_config exec_line fs True g = Inr g'"
  shows "\<forall>n\<in>set interesting_config_items. has_key g' n"
  using assms by (auto simp: read_waf_config_def rfold_reads)

lemma conforming_get:
  assumes "conforms g" and "complete g"
  shows "\<exists>s. get_str g ''NS3_BUILDDIR'' = Inr s" "\<exists>s. get_str g ''NS3_ACTIVE_VARIANT'' = Inr s"
    "\<exists>xs. get_strs g ''NS3_MODULE_PATH'' = Inr xs"
    "n \<in> set interesting_config_items \<Longrightarrow> \<exists>v. get_global g n = Inr v"
proof -
  have k: "\<exists>v. map_of g n = Some v \<and> kind_ok n v"
    if "n \<in> set (''NS3_ACTIVE_VARIANT'' # interesting_config_items)" for n
    using assms that by (auto simp: complete_def conforms_def has_key_map_of)
  show "\<exists>s. get_str g ''NS3_BUILDDIR'' = Inr s"
    using k [of "''NS3_BUILDDIR''"] by (auto simp: interesting_config_items_def kind_ok_def get_str_def get_global_def)
  show "\<exists>s. get_str g ''NS3_ACTIVE_VARIANT'' = Inr s"
    using k [of "''NS3_ACTIVE_VARIANT''"] by (auto simp: kind_ok_def get_str_def get_global_def)
  show "\<exists>xs. get_strs g ''NS3_MODULE_PATH'' = Inr xs"
    using k [of "''NS3_MODULE_PATH''"] by (auto simp: interesting_config_items_def kind_ok_def get_strs_def get_global_def)
  show "\<exists>v. get_global g n = Inr v" if "n \<in> set interesting_config_items"
    using k [of n] that by (auto simp: get_global_def)
qed

lemma add_paths_ok:
  "\<exists>env'. add_paths var sep paths env = Inr env' \<and>
     map_of env' var = Some (dict_get env var [] @ concat (map (\<lambda>p. sep @ p) paths)) \<and>
     (\<forall>k. k \<noteq> var \<longrightarrow> map_of env' k = map_of env k)"
proof -
  have d: "map_of (env_default var [] env) var = Some (dict_get env var [])"
    by (auto simp: env_default_def dict_get_def has_key_map_of dict_simps)
  have o: "k \<noteq> var \<Longrightarrow> map_of (env_default var [] env) k = map_of env k" for k
    by (simp add: env_default_def dict_simps)
  from env_append_all [OF d, of "\<lambda>p. sep @ p" paths] o show ?thesis
    by (auto simp: add_paths_def)
qed

subsection \<open>What is queued\<close>

definition enabled :: "globals \<Rightarrow> (string \<times> string) list \<Rightarrow> string list" where
  "enabled g ts = map fst (filter (\<lambda>(t, c). eval_cond g c = Inr True) ts)"

definition explicit :: "options \<Rightarrow> bool" where
  "explicit opt \<longleftrightarrow> suite opt \<noteq> [] \<or> example opt \<noteq> [] \<or> pyexample opt \<noteq> []"

definition table_on :: "globals \<Rightarrow> options \<Rightarrow> string \<Rightarrow> bool" where
  "table_on g opt kind \<longleftrightarrow> (constrain opt = [] \<or> constrain opt = kind) \<and>
     (\<exists>v. get_global g ''ENABLE_EXAMPLES'' = Inr v \<and> truthy v)"

lemma example_loop:
  assumes "\<forall>e\<in>set es. snd (snd e) = ''True''"
    and "rfold (example_step g pl opt) js es = Inr out"
  shows "out = js @ map (\<lambda>t. (example_job pl t)\<lparr>is_example := True\<rparr>)
                     (enabled g (map (\<lambda>(t, c, v). (t, c)) es))"
  using assms
proof (induction es arbitrary: js)
  case (Cons e es)
  obtain t c v where e: "e = (t, c, v)" by (cases e)
  with Cons.prems have v: "v = ''True''" by simp
  from Cons.prems e obtain run where run: "eval_cond g c = Inr run" by auto
  from Cons.prems e v run
  have "rfold (example_step g pl opt)
          (if run then js @ [(example_job pl t)\<lparr>is_example := True\<rparr>] else js) es = Inr out"
    by (auto split: if_splits)
  from Cons.IH [OF _ this] Cons.prems e run show ?case
    by (auto simp: enabled_def)
qed (simp add: enabled_def)

lemma pyexample_step_eq:
  assumes "eval_cond g c = Inr True" and "get_global g ''ENABLE_PYTHON_BINDINGS'' = Inr b"
  shows "pyexample_step g pl opt js (t, c) = Inr (js @ [(example_job pl t)\<lparr>is_pyexample := True,
           is_skip := valgrind opt \<or> \<not> truthy (projr (get_global g ''ENABLE_PYTHON_BINDINGS''))\<rparr>])"
  using assms by (simp add: Let_def example_job_def new_job_def)

lemma pyexample_loop:
  assumes "rfold (pyexample_step g pl opt) js es = Inr out"
  shows "out = js @ map (\<lambda>t. (example_job pl t)\<lparr>is_pyexample := True, is_skip := valgrind opt \<or>
                       \<not> truthy (projr (get_global g ''ENABLE_PYTHON_BINDINGS''))\<rparr>) (enabled g es)"
  using assms
proof (induction es arbitrary: js)
  case (Cons e es)
  obtain t c where e: "e = (t, c)" by (cases e)
  from Cons.prems e obtain run where run: "eval_cond g c = Inr run" by auto
  show ?case
  proof (cases run)
    case True
    with Cons.prems e run obtain b where b: "get_global g ''ENABLE_PYTHON_BINDINGS'' = Inr b" by (auto simp: Let_def)
    with Cons.prems e run True have "rfold (pyexample_step g pl opt) (js @ [(example_job pl t)\<lparr>is_pyexample := True,
           is_skip := valgrind opt \<or> \<not> truthy (projr (get_global g ''ENABLE_PYTHON_BINDINGS''))\<rparr>]) es = Inr out"
      using pyexample_step_eq [of g c b pl opt js t] by simp
    from Cons.IH [OF this] e run True show ?thesis by (simp add: enabled_def)
  next
    case False
    with Cons.prems e run Cons.IH show ?thesis by (auto simp: enabled_def)
  qed
qed (simp add: enabled_def)

lemma table_gate:
  assumes "(if c then rbind (get_global g ''ENABLE_EXAMPLES'') (\<lambda>en. if truthy en then L else Inr []) else Inr [])
     = Inr jobs"
  shows "if c \<and> (\<exists>v. get_global g ''ENABLE_EXAMPLES'' = Inr v \<and> truthy v) then L = Inr jobs else jobs = []"
proof (cases "get_global g ''ENABLE_EXAMPLES''")
  case (Inr v)
  with assms show ?thesis by (cases c; cases "truthy v") simp_all
qed (use assms in \<open>cases c; simp\<close>)

lemma example_jobs_eq:
  assumes "example_jobs g pl opt = Inr jobs"
  shows "jobs = map (\<lambda>t. (example_job pl t)\<lparr>is_example := True\<rparr>)
     (if explicit opt then (if example opt = [] then [] else [example opt])
      else if table_on g opt ''example'' then enabled g (map (\<lambda>(t, c, v). (t, c)) example_tests) else [])"
proof -
  have "\<forall>e\<in>set example_tests. snd (snd e) = ''True''" using example_conditions by blast
  note loop = example_loop [OF this, where js = "[]", simplified]
  show ?thesis
  proof (cases "explicit opt")
    case True
    with assms show ?thesis by (auto simp: example_jobs_def explicit_def split: if_splits)
  next
    case False
    with assms have "if (constrain opt = [] \<or> constrain opt = ''example'') \<and>
        (\<exists>v. get_global g ''ENABLE_EXAMPLES'' = Inr v \<and> truthy v)
      then rfold (example_step g pl opt) [] example_tests = Inr jobs else jobs = []"
      unfolding example_jobs_def explicit_def by (intro table_gate) simp
    then have "if table_on g opt ''example'' then rfold (example_step g pl opt) [] example_tests = Inr jobs else jobs = []"
      unfolding table_on_def .
    with False loop show ?thesis by (cases "table_on g opt ''example''") simp_all
  qed
qed

lemma pyexample_jobs_eq:
  assumes "pyexample_jobs g pl opt = Inr jobs"
  shows "jobs = map (\<lambda>t. (example_job pl t)\<lparr>is_pyexample := True, is_skip := \<not> explicit opt \<and>
         (valgrind opt \<or> \<not> truthy (projr (get_global g ''ENABLE_PYTHON_BINDINGS'')))\<rparr>)
     (if explicit opt then (if pyexample opt = [] then [] else [pyexample opt])
      else if table_on g opt ''pyexample'' then enabled g python_tests else [])"
proof -
  note loop = pyexample_loop [where js = "[]", simplified]
  show ?thesis
  proof (cases "explicit opt")
    case True
    with assms show ?thesis by (auto simp: pyexample_jobs_def explicit_def example_job_def new_job_def split: if_splits)
  next
    case False
    with assms have "if (constrain opt = [] \<or> constrain opt = ''pyexample'') \<and>
        (\<exists>v. get_global g ''ENABLE_EXAMPLES'' = Inr v \<and> truthy v)
      then rfold (pyexample_step g pl opt) [] python_tests = Inr jobs else jobs = []"
      unfolding pyexample_jobs_def explicit_def by (intro table_gate) simp
    then have "if table_on g opt ''pyexample'' then rfold (pyexample_step g pl opt) [] python_tests = Inr jobs else jobs = []"
      unfolding table_on_def .
    with False loop show ?thesis by (cases "table_on g opt ''pyexample''") simp_all
  qed
qed

lemma suite_job_fields [simp]:
  "display_name (suite_job pl opt t) = t" "\<not> is_break (suite_job pl opt t)"
  "\<not> is_example (suite_job pl opt t)" "\<not> is_pyexample (suite_job pl opt t)"
  "is_skip (suite_job pl opt t) \<longleftrightarrow> valgrind opt \<and> t \<in> set core_valgrind_skip_tests"
  "tmp_file_name (suite_job pl opt t) = path_join (out_dir pl) (t @ ''.xml'')"
  by (simp_all add: suite_job_def new_job_def Let_def)

lemma example_job_fields [simp]:
  "display_name (example_job pl t) = t" "\<not> is_break (example_job pl t)"
  "\<not> is_example (example_job pl t)" "\<not> is_pyexample (example_job pl t)" "\<not> is_skip (example_job pl t)"
  by (simp_all add: example_job_def new_job_def)

text \<open>
  Property C25: an explicit selection queues exactly the selected suite, example and
  Python example; otherwise the suites the runner lists come first, then the enabled
  examples of the tables that the constraint admits. No queued job is a break job; a job
  is queued to be skipped exactly for a suite valgrind cannot run, or a Python example of
  the table under valgrind or without Python bindings.
\<close>

theorem dispatch_selects:
  assumes "dispatch popen cfg g pl opt = Inr jobs"
  shows "(\<exists>suites. suite_list popen cfg pl opt = Inr suites \<and> map display_name jobs =
      filter (\<lambda>t. t \<noteq> []) (map strip suites) @
      (if explicit opt then filter (\<lambda>t. t \<noteq> []) [example opt, pyexample opt]
       else (if table_on g opt ''example'' then enabled g (map (\<lambda>(t, c, v). (t, c)) example_tests) else [])
          @ (if table_on g opt ''pyexample'' then enabled g python_tests else []))) \<and>
    list_all (\<lambda>j. \<not> is_break j \<and>
      is_skip j = (if is_pyexample j then \<not> explicit opt \<and>
                     (valgrind opt \<or> \<not> truthy (projr (get_global g ''ENABLE_PYTHON_BINDINGS'')))
                   else \<not> is_example j \<and> valgrind opt \<and> display_name j \<in> set core_valgrind_skip_tests)) jobs"
proof -
  from assms obtain suites exs pys where s: "suite_list popen cfg pl opt = Inr suites"
    and e: "example_jobs g pl opt = Inr exs" and p: "pyexample_jobs g pl opt = Inr pys"
    and j: "jobs = suite_jobs pl opt suites @ exs @ pys"
    by (auto simp: dispatch_def queue_jobs_def)
  show ?thesis unfolding j example_jobs_eq [OF e] pyexample_jobs_eq [OF p] s sum.inject
    by (auto simp: suite_jobs_def list_all_iff comp_def)
qed

lemma dispatch_selects_witness:
  "\<exists>jobs. dispatch (\<lambda>c d. Inl OSError)
       \<lparr>builddir = ''/r/build'', variant = ''debug''\<rparr> initial_globals \<lparr>cur_dir = ''/r'', out_dir = ''out''\<rparr>
       (default_options\<lparr>suite := ''ns3-tcp-cwnd'', pyexample := ''tutorial/first.py'', valgrind := True\<rparr>) = Inr jobs \<and>
     map display_name jobs = [''ns3-tcp-cwnd'', ''tutorial/first.py''] \<and> map is_skip jobs = [True, False]"
proof -
  let ?popen = "\<lambda>c d. Inl OSError"
  let ?cfg = "\<lparr>builddir = ''/r/build'', variant = ''debug''\<rparr>" and ?pl = "\<lparr>cur_dir = ''/r'', out_dir = ''out''\<rparr>"
  let ?opt = "default_options\<lparr>suite := ''ns3-tcp-cwnd'', pyexample := ''tutorial/first.py'', valgrind := True\<rparr>"
  let ?jobs = "[suite_job ?pl ?opt ''ns3-tcp-cwnd'', (example_job ?pl ''tutorial/first.py'')\<lparr>is_pyexample := True\<rparr>]"
  have st: "strip ''ns3-tcp-cwnd'' = ''ns3-tcp-cwnd''" "strip [] = []"
    by (rule strip_no_space, simp add: is_space_def)+
  have sl: "suite_list ?popen ?cfg ?pl ?opt = Inr [''ns3-tcp-cwnd'', []]"
    by (simp add: suite_list_def default_options_def)
  have "suite_jobs ?pl ?opt [''ns3-tcp-cwnd'', []] = [suite_job ?pl ?opt ''ns3-tcp-cwnd'']"
    by (simp add: suite_jobs_def st)
  moreover have "example_jobs initial_globals ?pl ?opt = Inr []"
    "pyexample_jobs initial_globals ?pl ?opt = Inr [(example_job ?pl ''tutorial/first.py'')\<lparr>is_pyexample := True\<rparr>]"
    by (simp_all add: example_jobs_def pyexample_jobs_def default_options_def)
  ultimately have j: "dispatch ?popen ?cfg initial_globals ?pl ?opt = Inr ?jobs"
    by (simp add: dispatch_def queue_jobs_def sl)
  have s: "map is_skip ?jobs = [True, False]"
    by (simp add: core_valgrind_skip_tests_def default_options_def)
  have ex: "explicit ?opt" and ns: "[t\<leftarrow>[example ?opt, pyexample ?opt] . t \<noteq> []] = [''tutorial/first.py'']"
    by (simp_all add: explicit_def default_options_def)
  have n: "map display_name ?jobs = [''ns3-tcp-cwnd'', ''tutorial/first.py'']"
    using dispatch_selects [OF j, THEN conjunct1] unfolding sl if_P [OF ex] ns by (elim exE conjE) (simp add: st)
  show ?thesis by (rule exI [of _ ?jobs], intro conjI) (rule j, rule n, rule s)
qed

subsection \<open>What \<^verbatim>\<open>make_paths\<close> leaves\<close>

definition lib_var :: "string \<Rightarrow> string \<times> string" where
  "lib_var platform = (if platform = ''darwin'' then (''DYLD_LIBRARY_PATH'', '':'')
     else if platform = ''win32'' then (''PATH'', '';'') else if platform = ''cygwin'' then (''PATH'', '':'')
     else (''LD_LIBRARY_PATH'', '':''))"

lemma make_paths_lib:
  "make_paths platform g env =
      rbind (get_str g ''NS3_BUILDDIR'') (\<lambda>b. rbind (get_str g ''NS3_ACTIVE_VARIANT'') (\<lambda>v.
      rbind (get_strs g ''NS3_MODULE_PATH'') (\<lambda>ps.
        let p = path_joins b [v, ''bindings'', ''python''] in
        add_paths (fst (lib_var platform)) (snd (lib_var platform)) ps
          (AList.update ''PYTHONPATH'' (if has_key env ''PYTHONPATH'' then p @ '':'' @ p else p) env))))"
proof -
  have py: "rbind (if \<not> h then Inr (AList.update k p (AList.update k p env)) else env_append k s (AList.update k p env)) f
      = f (AList.update k (if h then p @ s else p) env)" for h k p s env and f :: "environ \<Rightarrow> environ res"
    by (simp add: env_append_def dict_simps)
  show ?thesis unfolding make_paths_def Let_def py
    by (cases "platform = ''darwin''"; cases "platform = ''win32''"; cases "platform = ''cygwin''")
      (simp_all add: lib_var_def del: path_joins_simps)
qed

text \<open>
  Further property: \<^verbatim>\<open>make_paths\<close> appends every module path, each after a separator,
  to the library variable of the platform, leaves all other variables alone, and sets
  \<^verbatim>\<open>PYTHONPATH\<close> to the bindings directory: once, or twice if the user had set the
  variable, whose value is lost.
\<close>

theorem make_paths_effect:
  assumes "make_paths platform g env = Inr env'"
  shows "\<exists>b v ps. get_str g ''NS3_BUILDDIR'' = Inr b \<and> get_str g ''NS3_ACTIVE_VARIANT'' = Inr v \<and>
      get_strs g ''NS3_MODULE_PATH'' = Inr ps \<and>
      map_of env' ''PYTHONPATH'' = Some (let p = path_joins b [v, ''bindings'', ''python'']
         in if has_key env ''PYTHONPATH'' then p @ '':'' @ p else p) \<and>
      map_of env' (fst (lib_var platform)) = Some (dict_get env (fst (lib_var platform)) []
         @ concat (map (\<lambda>q. snd (lib_var platform) @ q) ps)) \<and>
      (\<forall>k. k \<noteq> ''PYTHONPATH'' \<and> k \<noteq> fst (lib_var platform) \<longrightarrow> map_of env' k = map_of env k)"
proof -
  from assms obtain b v ps where g: "get_str g ''NS3_BUILDDIR'' = Inr b"
      "get_str g ''NS3_ACTIVE_VARIANT'' = Inr v" "get_strs g ''NS3_MODULE_PATH'' = Inr ps"
    by (auto simp: make_paths_lib)
  define p where "p = path_joins b [v, ''bindings'', ''python'']"
  define e where "e = AList.update ''PYTHONPATH'' (if has_key env ''PYTHONPATH'' then p @ '':'' @ p else p) env"
  have lib: "fst (lib_var platform) \<noteq> ''PYTHONPATH''" by (simp add: lib_var_def)
  from assms have "add_paths (fst (lib_var platform)) (snd (lib_var platform)) ps e = Inr env'"
    unfolding make_paths_lib g rbind_simps Let_def e_def p_def .
  with add_paths_ok [of "fst (lib_var platform)" "snd (lib_var platform)" ps e]
  have r: "map_of env' (fst (lib_var platform)) = Some (dict_get e (fst (lib_var platform)) []
         @ concat (map (\<lambda>q. snd (lib_var platform) @ q) ps))"
    "\<And>k. k \<noteq> fst (lib_var platform) \<Longrightarrow> map_of env' k = map_of e k" by auto
  have d: "dict_get e (fst (lib_var platform)) [] = dict_get env (fst (lib_var platform)) []"
    "map_of e ''PYTHONPATH'' = Some (if has_key env ''PYTHONPATH'' then p @ '':'' @ p else p)"
    "\<And>k. k \<noteq> ''PYTHONPATH'' \<Longrightarrow> map_of e k = map_of env k"
    using lib by (auto simp: e_def dict_get_def dict_simps)
  have "map_of env' ''PYTHONPATH'' = Some (let p = path_joins b [v, ''bindings'', ''python'']
         in if has_key env ''PYTHONPATH'' then p @ '':'' @ p else p)"
    using r(2) [OF lib [symmetric]] d(2) unfolding p_def Let_def by simp
  with g r d show ?thesis by auto
qed

lemma make_paths_effect_witness:
  "\<exists>env'. make_paths ''linux2'' [(''NS3_BUILDDIR'', PStr ''/r/build''), (''NS3_ACTIVE_VARIANT'', PStr ''debug''),
        (''NS3_MODULE_PATH'', PList [''/a'', ''/b''])] [(''PYTHONPATH'', ''/home/me/lib'')] = Inr env' \<and>
     map_of env' ''PYTHONPATH'' = Some ''/r/build/debug/bindings/python:/r/build/debug/bindings/python'' \<and>
     map_of env' ''LD_LIBRARY_PATH'' = Some '':/a:/b''"
proof -
  let ?g = "[(''NS3_BUILDDIR'', PStr ''/r/build''), (''NS3_ACTIVE_VARIANT'', PStr ''debug''),
        (''NS3_MODULE_PATH'', PList [''/a'', ''/b''])]"
  let ?e = "[(''PYTHONPATH'', ''/home/me/lib'')]"
  let ?p = "''/r/build/debug/bindings/python:/r/build/debug/bindings/python''"
  have "make_paths ''linux2'' ?g ?e = Inr [(''PYTHONPATH'', ?p), (''LD_LIBRARY_PATH'', '':/a:/b'')]"
    by code_simp
  then obtain env' where e: "make_paths ''linux2'' ?g ?e = Inr env'" by blast
  have g: "get_str ?g ''NS3_BUILDDIR'' = Inr ''/r/build''" "get_str ?g ''NS3_ACTIVE_VARIANT'' = Inr ''debug''"
    "get_strs ?g ''NS3_MODULE_PATH'' = Inr [''/a'', ''/b'']" by code_simp+
  have l: "lib_var ''linux2'' = (''LD_LIBRARY_PATH'', '':'')" "has_key ?e ''PYTHONPATH'' = True"
    "dict_get ?e ''LD_LIBRARY_PATH'' [] = []"
    "path_joins ''/r/build'' [''debug'', ''bindings'', ''python''] = ''/r/build/debug/bindings/python''" by code_simp+
  from make_paths_effect [OF e] have
    "map_of env' ''PYTHONPATH'' = Some ?p \<and> map_of env' ''LD_LIBRARY_PATH'' = Some '':/a:/b''"
    unfolding g l fst_conv snd_conv Let_def if_True by (elim exE conjE) (simp only: sum.inject, hypsubst, simp add: l del: path_joins_simps)
  with e show ?thesis by blast
qed

subsection \<open>A well-typed configuration raises nothing\<close>

lemma rfold_ok: "(\<And>s x. x \<in> set xs \<Longrightarrow> \<exists>s'. f s x = Inr s') \<Longrightarrow> \<exists>t. rfold f s xs = Inr t"
proof (induction xs arbitrary: s)
  case (Cons x xs)
  from Cons.prems [of x s] obtain s' where "f s x = Inr s'" by auto
  moreover have "\<exists>t. rfold f s' xs = Inr t" by (rule Cons.IH) (simp add: Cons.prems)
  ultimately show ?case by auto
qed simp

lemma eval_cond_ok:
  assumes "conforms g" and "complete g"
    and "c \<in> {''True'', ''False'', ''ENABLE_REAL_TIME == True'', ''ENABLE_NSC == True''}"
  shows "\<exists>b. eval_cond g c = Inr b"
proof -
  have "''ENABLE_REAL_TIME'' \<in> set interesting_config_items" "''ENABLE_NSC'' \<in> set interesting_config_items"
    by (simp_all add: interesting_config_items_def)
  with conforming_get(4) [OF assms(1,2)] obtain v w where
    "get_global g ''ENABLE_REAL_TIME'' = Inr v" "get_global g ''ENABLE_NSC'' = Inr w" by blast
  with assms(3) show ?thesis by auto
qed

lemma example_step_ok:
  assumes "conforms g" and "complete g" and "e \<in> set example_tests"
  shows "\<exists>js'. example_step g pl opt js e = Inr js'"
proof -
  obtain t c v where e: "e = (t, c, v)" by (cases e)
  have v: "v = ''True''" and c: "c \<in> {''True'', ''False'', ''ENABLE_REAL_TIME == True'', ''ENABLE_NSC == True''}"
    using example_conditions assms(3) unfolding e by auto
  from eval_cond_ok [OF assms(1,2) c] obtain b where "eval_cond g c = Inr b" ..
  with e v show ?thesis by (cases b) (auto simp: Let_def)
qed

lemma pyexample_step_ok:
  assumes "conforms g" and "complete g" and "e \<in> set python_tests"
  shows "\<exists>js'. pyexample_step g pl opt js e = Inr js'"
proof -
  obtain t c where e: "e = (t, c)" by (cases e)
  have c: "c \<in> {''True'', ''False'', ''ENABLE_REAL_TIME == True'', ''ENABLE_NSC == True''}"
    using python_conditions assms(3) unfolding e by auto
  from eval_cond_ok [OF assms(1,2) c] obtain b where b: "eval_cond g c = Inr b" ..
  have "''ENABLE_PYTHON_BINDINGS'' \<in> set interesting_config_items" by (simp add: interesting_config_items_def)
  with conforming_get(4) [OF assms(1,2)] obtain v where "get_global g ''ENABLE_PYTHON_BINDINGS'' = Inr v" by blast
  with e b show ?thesis by (cases b) (auto simp: Let_def)
qed

lemma queue_jobs_ok:
  assumes "conforms g" and "complete g"
  shows "\<exists>jobs. queue_jobs g pl opt suites = Inr jobs"
proof -
  have "''ENABLE_EXAMPLES'' \<in> set interesting_config_items" by (simp add: interesting_config_items_def)
  with conforming_get(4) [OF assms] obtain v where v: "get_global g ''ENABLE_EXAMPLES'' = Inr v" by blast
  have "\<exists>js. rfold (example_step g pl opt) [] example_tests = Inr js"
    by (rule rfold_ok) (rule example_step_ok [OF assms])
  then obtain js where "rfold (example_step g pl opt) [] example_tests = Inr js" ..
  then have e: "\<exists>js. example_jobs g pl opt = Inr js" using v by (simp add: example_jobs_def)
  have "\<exists>js. rfold (pyexample_step g pl opt) [] python_tests = Inr js"
    by (rule rfold_ok) (rule pyexample_step_ok [OF assms])
  then obtain js where "rfold (pyexample_step g pl opt) [] python_tests = Inr js" ..
  then have "\<exists>js. pyexample_jobs g pl opt = Inr js" using v by (simp add: pyexample_jobs_def)
  with e show ?thesis by (auto simp: queue_jobs_def)
qed

lemma make_paths_ok:
  assumes "conforms g" and "complete g"
  shows "\<exists>env'. make_paths platform g env = Inr env'"
proof -
  from conforming_get(1-3) [OF assms] obtain b v ps where g: "get_str g ''NS3_BUILDDIR'' = Inr b"
    "get_str g ''NS3_ACTIVE_VARIANT'' = Inr v" "get_strs g ''NS3_MODULE_PATH'' = Inr ps" by blast
  show ?thesis unfolding make_paths_lib g rbind_simps Let_def using add_paths_ok by blast
qed

subsection \<open>The configuration that the cache files hold\<close>

text \<open>
  waf writes its cache as lines \<^verbatim>\<open>NAME = literal\<close>. An entry is a name, the text of the literal
  and the value Python reads from it; executing the line of an entry binds the name to the
  value.
\<close>

type_synonym cache_entry = "string \<times> string \<times> pyval"

fun cache_line :: "cache_entry \<Rightarrow> string" where
  "cache_line (n, lit, v) = n @ '' = '' @ lit @ [CHR ''\<newline>'']"

fun assigns :: "exec_fun \<Rightarrow> cache_entry \<Rightarrow> bool" where
  "assigns exec_line (n, lit, v) \<longleftrightarrow> (\<forall>g. exec_line (cache_line (n, lit, v)) g = Inr (AList.update n v g)) \<and> kind_ok n v"

fun interesting :: "cache_entry \<Rightarrow> bool" where
  "interesting (n, lit, v) \<longleftrightarrow> list_ex (starts_with n) interesting_config_items"

definition last_binding :: "cache_entry list \<Rightarrow> string \<Rightarrow> pyval option" where
  "last_binding cache = map_of (rev (map (\<lambda>(n, lit, v). (n, v)) cache))"

lemma starts_with_spaced: "CHR '' '' \<notin> set item \<Longrightarrow> starts_with (n @ CHR '' '' # rest) item = starts_with n item"
proof (induction item arbitrary: n)
  case (Cons c item)
  then show ?case by (cases n) (auto simp: starts_with_def)
qed (simp add: starts_with_def)

lemma items_unspaced: "item \<in> set (''NS3_ACTIVE_VARIANT'' # interesting_config_items) \<Longrightarrow> CHR '' '' \<notin> set item"
  by (auto simp: interesting_config_items_def)

lemma line_item:
  assumes "item \<in> set (''NS3_ACTIVE_VARIANT'' # interesting_config_items)"
  shows "starts_with (cache_line (n, lit, v)) item = starts_with n item"
  using starts_with_spaced [OF items_unspaced [OF assms], of n "''= '' @ lit @ [CHR ''\<newline>'']"] by simp

lemma entry_loop:
  assumes "assigns exec_line (n, lit, v)" and "set items \<subseteq> set interesting_config_items" and "conforms g"
  shows "\<exists>h. rfold (\<lambda>g item. if starts_with (cache_line (n, lit, v)) item then exec_line (cache_line (n, lit, v)) g
        else Inr g) g items = Inr h \<and> conforms h \<and>
      map_of h = (if list_ex (starts_with n) items then (map_of g)(n \<mapsto> v) else map_of g)"
  using assms(2,3)
proof (induction items arbitrary: g)
  case (Cons item items)
  have i: "starts_with (cache_line (n, lit, v)) item = starts_with n item"
    by (rule line_item) (use Cons.prems in auto)
  define g' where "g' = (if starts_with n item then AList.update n v g else g)"
  have k: "kind_ok n v" and x: "exec_line (cache_line (n, lit, v)) g = Inr (AList.update n v g)"
    using assms(1) by (simp_all del: cache_line.simps)
  have c: "conforms g'" using Cons.prems conforms_update k by (simp add: g'_def)
  from Cons.IH [OF _ c] Cons.prems obtain h where h: "rfold (\<lambda>g item. if starts_with (cache_line (n, lit, v)) item
        then exec_line (cache_line (n, lit, v)) g else Inr g) g' items = Inr h" "conforms h"
      "map_of h = (if list_ex (starts_with n) items then (map_of g')(n \<mapsto> v) else map_of g')" by auto
  have "map_of g' = (if starts_with n item then (map_of g)(n \<mapsto> v) else map_of g)"
    by (simp add: g'_def update_conv')
  with h i x show ?case
    by (intro exI [of _ h], cases "starts_with n item") (auto simp: g'_def simp del: cache_line.simps)
qed simp

lemma cache_loop:
  assumes "list_all (assigns exec_line) cache" and "conforms g"
  shows "\<exists>h. rfold (\<lambda>g line. exec_interesting exec_line line g) g (map cache_line cache) = Inr h \<and> conforms h \<and>
      map_of h = map_of g ++ last_binding (filter interesting cache)"
  using assms
proof (induction cache arbitrary: g)
  case (Cons e cache)
  obtain n lit v where e: "e = (n, lit, v)" by (cases e)
  from Cons.prems have a: "assigns exec_line (n, lit, v)" by (simp add: e)
  from entry_loop [OF a subset_refl Cons.prems(2)] obtain g' where
    g': "exec_interesting exec_line (cache_line (n, lit, v)) g = Inr g'" "conforms g'"
      "map_of g' = (if interesting e then (map_of g)(n \<mapsto> v) else map_of g)"
    unfolding exec_interesting_def e interesting.simps by blast
  from Cons.IH [OF _ g'(2)] Cons.prems obtain h where
    h: "rfold (\<lambda>g line. exec_interesting exec_line line g) g' (map cache_line cache) = Inr h" "conforms h"
      "map_of h = map_of g' ++ last_binding (filter interesting cache)" by auto
  have "map_of h = map_of g ++ last_binding (filter interesting (e # cache))"
    using h(3) g'(3) unfolding e by (auto simp: last_binding_def map_add_def fun_eq_iff split: option.splits)
  with h g'(1) show ?case by (simp add: e del: cache_line.simps)
qed (simp add: last_binding_def)

lemma active_loop:
  assumes "find (\<lambda>(n, e). starts_with n ''NS3_ACTIVE_VARIANT'') defaults = Some (n, lit, v)" and "assigns exec_line (n, lit, v)"
  shows "exec_active exec_line (map cache_line defaults) g = Inr (AList.update n v g)"
  using assms(1)
proof (induction defaults)
  case (Cons e es)
  obtain m l w where e: "e = (m, l, w)" by (cases e)
  have "starts_with (cache_line (m, l, w)) ''NS3_ACTIVE_VARIANT'' = starts_with m ''NS3_ACTIVE_VARIANT''"
    by (rule line_item) simp
  with Cons assms(2) show ?case unfolding e by (simp del: cache_line.simps split: if_splits)
qed simp

text \<open>
  Property C26: for cache files of assignments whose values have the kind of their
  name (a string, a list of strings, a boolean), where the first line on the variant names
  it and every interesting name without a default is assigned in the file of the variant,
  both readers succeed, with and without \<^verbatim>\<open>--verbose\<close>; every interesting name then has the
  value of its last assignment, or else its default, and a value of its kind; and neither
  setting the paths nor queueing the jobs raises an exception, whatever the options.
\<close>

theorem config_type_sound:
  assumes "fs ''build/c4che/default.cache.py'' = Inr (map cache_line defaults)"
    and "find (\<lambda>(n, e). starts_with n ''NS3_ACTIVE_VARIANT'') defaults = Some (''NS3_ACTIVE_VARIANT'', lit, PStr vt)"
    and "assigns exec_line (''NS3_ACTIVE_VARIANT'', lit, PStr vt)"
    and "fs (''build/c4che/'' @ vt @ ''.cache.py'') = Inr (map cache_line cache)"
    and "list_all (assigns exec_line) cache"
    and "set interesting_config_items \<subseteq> set (map fst (filter interesting cache)) \<union> set (map fst initial_globals)"
  shows "\<exists>g1 g. read_waf_active_variant exec_line fs vb initial_globals = Inr g1 \<and>
    read_waf_config exec_line fs vb g1 = Inr g \<and> conforms g \<and>
    (\<forall>n\<in>set interesting_config_items. map_of g n = (case last_binding (filter interesting cache) n of
       Some v \<Rightarrow> Some v | None \<Rightarrow> map_of initial_globals n)) \<and>
    (\<exists>env'. make_paths platform g env = Inr env') \<and> (\<exists>jobs. queue_jobs g pl opt suites = Inr jobs)"
proof -
  define g1 where "g1 = AList.update ''NS3_ACTIVE_VARIANT'' (PStr vt) initial_globals"
  have act: "''NS3_ACTIVE_VARIANT'' \<notin> set interesting_config_items" by (simp add: interesting_config_items_def)
  have n1: "get_global g1 ''NS3_ACTIVE_VARIANT'' = Inr (PStr vt)" by (simp add: g1_def get_global_def dict_simps)
  have c1: "conforms g1" unfolding g1_def using conforms_update [OF conforms_initial] by (simp add: kind_ok_def)
  have r1: "read_waf_active_variant exec_line fs vb initial_globals = Inr g1"
    using active_loop [OF assms(2,3)] n1 by (simp add: read_waf_active_variant_def assms(1) g1_def)
  from cache_loop [OF assms(5) c1] obtain g where
    g: "rfold (\<lambda>g line. exec_interesting exec_line line g) g1 (map cache_line cache) = Inr g" "conforms g"
      "map_of g = map_of g1 ++ last_binding (filter interesting cache)" by blast
  have val: "map_of g n = (case last_binding (filter interesting cache) n of
       Some v \<Rightarrow> Some v | None \<Rightarrow> map_of initial_globals n)" if "n \<in> set interesting_config_items" for n
    using that act unfolding g(3) by (auto simp: g1_def dict_simps map_add_def split: option.splits)
  have bound: "n \<in> dom (last_binding es)" if "n \<in> set (map fst es)" for n es
    using that by (auto simp: last_binding_def dom_map_of_conv_image_fst image_iff) force
  have items: "has_key g n" if n: "n \<in> set interesting_config_items" for n
  proof (cases "n \<in> set (map fst (filter interesting cache))")
    case True
    with bound [OF this] val [OF n] show ?thesis by (auto simp: has_key_map_of)
  next
    case False
    with assms(6) n have "map_of initial_globals n \<noteq> None" unfolding map_of_eq_None_iff by auto
    with val [OF n] show ?thesis by (auto simp: has_key_map_of split: option.splits)
  qed
  have "has_key g ''NS3_ACTIVE_VARIANT''"
    unfolding has_key_map_of g(3) by (simp add: g1_def dict_simps map_add_None)
  with items have co: "complete g" by (simp add: complete_def)
  have "read_waf_config exec_line fs vb g1 = Inr g"
    using n1 assms(4) g(1) items by (auto simp: read_waf_config_def get_str_def rfold_reads)
  with r1 g(2) val make_paths_ok [OF g(2) co] queue_jobs_ok [OF g(2) co] show ?thesis by blast
qed

text \<open>A cache as the configuration of the tree writes it.\<close>

definition demo_cache :: "cache_entry list" where
  "demo_cache = [(''CC'', ''[gcc]'', PList [''gcc'']), (''ENABLE_EXAMPLES'', ''False'', PBool False),
     (''ENABLE_PYTHON_BINDINGS'', ''True'', PBool True), (''NS3_ACTIVE_VARIANT'', ''d'', PStr ''d''),
     (''NS3_BUILDDIR'', ''/b'', PStr ''/b''), (''NS3_MODULE_PATH'', ''[]'', PList [])]"

definition demo_exec :: exec_fun where
  "demo_exec l g = (case map_of (map (\<lambda>(n, lit, v). (cache_line (n, lit, v), (n, v))) demo_cache) l of
     None \<Rightarrow> Inl NameError | Some (n, v) \<Rightarrow> Inr (AList.update n v g))"

definition demo_lines :: readlines where
  "demo_lines f = (if f \<in> {''build/c4che/default.cache.py'', ''build/c4che/d.cache.py''}
     then Inr (map cache_line demo_cache) else Inl IOError)"

lemma demo_assigns: "list_all (assigns demo_exec) demo_cache"
proof -
  have "list_all (\<lambda>(n, lit, v). map_of (map (\<lambda>(n, lit, v). (cache_line (n, lit, v), (n, v))) demo_cache)
      (cache_line (n, lit, v)) = Some (n, v)) demo_cache" by code_simp
  then have x: "list_all (\<lambda>(n, lit, v). \<forall>g. demo_exec (cache_line (n, lit, v)) g = Inr (AList.update n v g)) demo_cache"
    by (auto simp: demo_exec_def list_all_iff simp del: cache_line.simps)
  have k: "list_all (\<lambda>(n, lit, v). kind_ok n v) demo_cache"
    by (simp add: demo_cache_def kind_ok_def interesting_config_items_def) blast
  show ?thesis unfolding list_all_iff
  proof
    fix e assume e: "e \<in> set demo_cache"
    obtain n lit v where "e = (n, lit, v)" by (cases e)
    with e x k show "assigns demo_exec e" unfolding list_all_iff by (auto simp del: cache_line.simps)
  qed
qed

lemma config_type_sound_witness:
  "\<exists>g1 g. read_waf_active_variant demo_exec demo_lines True initial_globals = Inr g1 \<and>
     read_waf_config demo_exec demo_lines True g1 = Inr g \<and> map_of g ''ENABLE_EXAMPLES'' = Some (PBool False) \<and>
     (\<exists>jobs. queue_jobs g \<lparr>cur_dir = ''/'', out_dir = ''o''\<rparr> default_options [] = Inr jobs)"
proof -
  have f: "demo_lines ''build/c4che/default.cache.py'' = Inr (map cache_line demo_cache)"
    "demo_lines (''build/c4che/'' @ ''d'' @ ''.cache.py'') = Inr (map cache_line demo_cache)"
    by (simp_all add: demo_lines_def)
  have a: "assigns demo_exec (''NS3_ACTIVE_VARIANT'', ''d'', PStr ''d'')"
    using demo_assigns by (simp add: demo_cache_def del: assigns.simps)
  have n: "find (\<lambda>(n, e). starts_with n ''NS3_ACTIVE_VARIANT'') demo_cache = Some (''NS3_ACTIVE_VARIANT'', ''d'', PStr ''d'')"
    by code_simp
  have i: "set interesting_config_items \<subseteq> set (map fst (filter interesting demo_cache)) \<union> set (map fst initial_globals)"
    by code_simp
  have e: "''ENABLE_EXAMPLES'' \<in> set interesting_config_items" "last_binding (filter interesting demo_cache) ''ENABLE_EXAMPLES'' = Some (PBool False)"
    by code_simp+
  from config_type_sound [OF f(1) n a f(2) demo_assigns i, of True _ _ "\<lparr>cur_dir = ''/'', out_dir = ''o''\<rparr>" default_options "[]"]
  obtain g1 g where g: "read_waf_active_variant demo_exec demo_lines True initial_globals = Inr g1"
     "read_waf_config demo_exec demo_lines True g1 = Inr g"
     "\<forall>n\<in>set interesting_config_items. map_of g n = (case last_binding (filter interesting demo_cache) n of
       Some v \<Rightarrow> Some v | None \<Rightarrow> map_of initial_globals n)"
     "\<exists>jobs. queue_jobs g \<lparr>cur_dir = ''/'', out_dir = ''o''\<rparr> default_options [] = Inr jobs" by blast
  from bspec [OF g(3) e(1)] e(2) have "map_of g ''ENABLE_EXAMPLES'' = Some (PBool False)" by simp
  with g(1,2,4) show ?thesis by blast
qed

subsection \<open>The return code of a job\<close>

text \<open>
  Further property: running a job raises exactly if the child cannot be started, and then
  what starting it raised; otherwise it changes the job's return code and its time only: the code is that
  of the child, except that a successful run under valgrind whose error output has a leak
  summary counts as 2. Under valgrind the command starts with \<^verbatim>\<open>valgrind\<close>.
\<close>

theorem run_job_code:
  "\<exists>cmd. run_job popen cfg vg j = rbind (popen cmd (job_cwd j)) (\<lambda>r. Inr (j\<lparr>elapsed_time := pr_time r,
       returncode := if vg \<and> pr_code r = 0 \<and> has_infix ''== LEAK SUMMARY:'' (pr_stderr r) then 2 else pr_code r\<rparr>)) \<and>
     (starts_with cmd ''valgrind --suppressions='' \<or> \<not> vg)"
proof -
  have "\<exists>c py. run_job popen cfg vg j = rbind (run_job_synchronously popen cfg c (job_cwd j) vg py)
      (\<lambda>r. Inr (j\<lparr>returncode := pr_code r, elapsed_time := pr_time r\<rparr>))"
    unfolding run_job_def by (cases "is_example j \<or> is_pyexample j") (simp_all only: if_True if_False, blast+)
  then obtain c py where j: "run_job popen cfg vg j = rbind (run_job_synchronously popen cfg c (job_cwd j) vg py)
      (\<lambda>r. Inr (j\<lparr>returncode := pr_code r, elapsed_time := pr_time r\<rparr>))" by blast
  have v: "starts_with (child_cmd cfg c vg py) ''valgrind --suppressions='' \<or> \<not> vg"
    by (simp add: child_cmd_def Let_def starts_with_def del: path_joins_simps)
  show ?thesis
    by (rule exI [of _ "child_cmd cfg c vg py"], cases "popen (child_cmd cfg c vg py) (job_cwd j)")
      (use v in \<open>simp_all add: j run_job_synchronously_def\<close>)
qed

lemma run_job_code_witness:
  "\<exists>r. run_job (\<lambda>c d. Inr \<lparr>pr_code = 0, pr_stdout = [], pr_stderr = ''== LEAK SUMMARY:'', pr_time = 1\<rparr>)
      \<lparr>builddir = ''/b'', variant = ''d''\<rparr> True new_job = Inr r \<and> returncode r = 2"
proof -
  have h: "has_infix ''== LEAK SUMMARY:'' ''== LEAK SUMMARY:'' = True" by code_simp
  from run_job_code [of "\<lambda>c d. Inr \<lparr>pr_code = 0, pr_stdout = [], pr_stderr = ''== LEAK SUMMARY:'', pr_time = 1\<rparr>"
      "\<lparr>builddir = ''/b'', variant = ''d''\<rparr>" True new_job]
  obtain r where "run_job (\<lambda>c d. Inr \<lparr>pr_code = 0, pr_stdout = [], pr_stderr = ''== LEAK SUMMARY:'', pr_time = 1\<rparr>)
      \<lparr>builddir = ''/b'', variant = ''d''\<rparr> True new_job = Inr r"
    and "r = new_job\<lparr>elapsed_time := 1, returncode := 2\<rparr>"
    unfolding rbind_simps proc_result.simps h simp_thms if_True by blast
  moreover have "returncode (new_job\<lparr>elapsed_time := 1, returncode := 2\<rparr>) = 2" by simp
  ultimately show ?thesis by blast
qed

end
