(* ===== verification/TestPool.thy ===== *)
theory TestPool
  imports TestJobs
begin

section \<open>The test runner, part two: worker threads (\<^verbatim>\<open>test.py\<close>)\<close>

text \<open>
  The main thread puts the queued jobs and then one break job per worker into the input
  queue and takes one result per job from the output queue; the workers take jobs, run
  them and put them into the output queue until a break job stops them; an interrupt sets
  \<^verbatim>\<open>thread_exit\<close> at any moment. The interleavings are a step relation; the state holds the
  two queues, the state of every worker and what the main thread still has to put and has
  collected.
\<close>

subsection \<open>States and steps\<close>

text \<open>
  A worker waits for a job, holds one it has taken, runs one, has stopped, or has died of an
  exception in the job it ran, which is lost with it.
\<close>

datatype worker = Waiting | Taken job | Running job | Stopped | Dead job

record pool =
  todo :: "job list"
  in_queue :: "job list"
  out_queue :: "job list"
  workers :: "worker list"
  thread_exit :: bool
  missing :: nat
  collected :: "job list"
  joined :: bool

text \<open>What a worker puts into the output queue for a job it runs, or the exception it dies of.\<close>

definition work :: "(job \<Rightarrow> job res) \<Rightarrow> job \<Rightarrow> job res" where
  "work run j = (if is_skip j then Inr j else run j)"

definition ended :: "worker \<Rightarrow> bool" where
  "ended w \<longleftrightarrow> (case w of Stopped \<Rightarrow> True | Dead j \<Rightarrow> True | _ \<Rightarrow> False)"

text \<open>
  \<open>run\<close> is \<open>run_job\<close> with its parameters. \<open>take_job\<close> is the blocking \<^verbatim>\<open>get\<close> of a worker with
  the test for a break job; then \<^verbatim>\<open>thread_exit\<close> is tested, once per job: the job is given
  back marked as a break, or started, and no later interrupt stops it. A started job is put
  into the output queue, unless running it raises: nothing in \<^verbatim>\<open>run\<close> catches the exception,
  so the thread ends and the job never comes back.
\<close>

inductive pool_step :: "(job \<Rightarrow> job res) \<Rightarrow> pool \<Rightarrow> pool \<Rightarrow> bool" for run :: "job \<Rightarrow> job res" where
  put_job: "todo p = j # js \<Longrightarrow>
     pool_step run p (p\<lparr>todo := js, in_queue := in_queue p @ [j]\<rparr>)"
| take_job: "in_queue p = j # q \<Longrightarrow> i < length (workers p) \<Longrightarrow> workers p ! i = Waiting \<Longrightarrow>
     pool_step run p (p\<lparr>in_queue := q,
       workers := (workers p)[i := if is_break j then Stopped else Taken j]\<rparr>)"
| give_back: "i < length (workers p) \<Longrightarrow> workers p ! i = Taken j \<Longrightarrow> thread_exit p \<Longrightarrow>
     pool_step run p (p\<lparr>workers := (workers p)[i := Waiting],
       out_queue := out_queue p @ [j\<lparr>is_break := True\<rparr>]\<rparr>)"
| start_job: "i < length (workers p) \<Longrightarrow> workers p ! i = Taken j \<Longrightarrow> \<not> thread_exit p \<Longrightarrow>
     pool_step run p (p\<lparr>workers := (workers p)[i := Running j]\<rparr>)"
| finish_job: "i < length (workers p) \<Longrightarrow> workers p ! i = Running j \<Longrightarrow> work run j = Inr r \<Longrightarrow>
     pool_step run p (p\<lparr>workers := (workers p)[i := Waiting], out_queue := out_queue p @ [r]\<rparr>)"
| die: "i < length (workers p) \<Longrightarrow> workers p ! i = Running j \<Longrightarrow> work run j = Inl e \<Longrightarrow>
     pool_step run p (p\<lparr>workers := (workers p)[i := Dead j]\<rparr>)"
| collect: "todo p = [] \<Longrightarrow> missing p = Suc n \<Longrightarrow> out_queue p = j # q \<Longrightarrow>
     pool_step run p (p\<lparr>missing := n, out_queue := q, collected := collected p @ [j]\<rparr>)"
| join_all: "todo p = [] \<Longrightarrow> missing p = 0 \<Longrightarrow> \<not> joined p \<Longrightarrow> list_all ended (workers p) \<Longrightarrow>
     pool_step run p (p\<lparr>joined := True\<rparr>)"

text \<open>\<^verbatim>\<open>sigint_hook\<close> may run between any two steps.\<close>

definition sigint_hook :: "pool \<Rightarrow> pool" where
  "sigint_hook p = p\<lparr>thread_exit := True\<rparr>"

definition any_step :: "(job \<Rightarrow> job res) \<Rightarrow> pool \<Rightarrow> pool \<Rightarrow> bool" where
  "any_step run p q \<longleftrightarrow> pool_step run p q \<or> (\<not> thread_exit p \<and> q = sigint_hook p)"

definition pool_start :: "job list \<Rightarrow> nat \<Rightarrow> pool" where
  "pool_start jobs processors =
     \<lparr>todo = jobs @ break_jobs processors, in_queue = [], out_queue = [], workers = replicate processors Waiting,
      thread_exit = False, missing = length jobs, collected = [], joined = False\<rparr>"

inductive_cases pool_stepE: "pool_step run p q"

subsection \<open>The invariant\<close>

fun held :: "worker \<Rightarrow> job list" where
  "held (Taken j) = [j]"
| "held (Running j) = [j]"
| "held Waiting = []"
| "held Stopped = []"
| "held (Dead j) = []"

fun lost :: "worker \<Rightarrow> job list" where
  "lost (Dead j) = [j]"
| "lost Waiting = []"
| "lost Stopped = []"
| "lost (Taken j) = []"
| "lost (Running j) = []"

definition holding :: "worker list \<Rightarrow> job list" where
  "holding ws = concat (map held ws)"

definition lost_jobs :: "worker list \<Rightarrow> job list" where
  "lost_jobs ws = concat (map lost ws)"

definition live :: "worker list \<Rightarrow> nat" where
  "live ws = length (filter (\<lambda>w. w \<noteq> Stopped) ws)"

fun effort :: "worker \<Rightarrow> nat" where
  "effort (Taken j) = 3"
| "effort (Running j) = 2"
| "effort Waiting = 0"
| "effort Stopped = 0"
| "effort (Dead j) = 0"

lemma concat_map_update:
  "i < length ws \<Longrightarrow> mset (concat (map f (ws[i := w]))) + mset (f (ws ! i)) = mset (concat (map f ws)) + mset (f w)"
proof (induction ws arbitrary: i)
  case (Cons v ws)
  then show ?case by (cases i) auto
qed simp

lemmas holding_update = concat_map_update [where f = held, folded holding_def]
lemmas lost_update = concat_map_update [where f = lost, folded lost_jobs_def]

lemma live_update:
  "i < length ws \<Longrightarrow> live (ws[i := w]) + (if ws ! i = Stopped then 0 else 1) = live ws + (if w = Stopped then 0 else 1)"
proof (induction ws arbitrary: i)
  case (Cons v ws)
  show ?case
  proof (cases i)
    case (Suc k)
    with Cons.prems Cons.IH [of k] show ?thesis by (simp add: live_def split: if_splits)
  qed (simp add: live_def)
qed simp

lemma effort_update:
  "i < length ws \<Longrightarrow> sum_list (map effort (ws[i := w])) + effort (ws ! i) = sum_list (map effort ws) + effort w"
proof (induction ws arbitrary: i)
  case (Cons v ws)
  then show ?case by (cases i) auto
qed simp

lemma stopped_update: "Stopped \<in> set (ws[i := w]) \<Longrightarrow> w \<noteq> Stopped \<Longrightarrow> Stopped \<in> set ws"
  using set_update_subset_insert [of ws i w] by auto

lemma lost_Nil: "lost_jobs ws = [] \<longleftrightarrow> (\<forall>w\<in>set ws. lost w = [])"
  by (simp add: lost_jobs_def)

lemma pool_start_workers [simp]:
  "holding (replicate n Waiting) = []" "lost_jobs (replicate n Waiting) = []" "live (replicate n Waiting) = n"
  by (induction n) (simp_all add: holding_def lost_jobs_def live_def)

text \<open>What may come back for a queued job: its result, or after an interrupt the job marked as a break.\<close>

definition outcome :: "(job \<Rightarrow> job res) \<Rightarrow> bool \<Rightarrow> job \<Rightarrow> job \<Rightarrow> bool" where
  "outcome run interrupted j r \<longleftrightarrow> work run j = Inr r \<or> interrupted \<and> r = j\<lparr>is_break := True\<rparr>"

lemma outcome_mono: "outcome run b j r \<Longrightarrow> outcome run True j r"
  by (auto simp: outcome_def)

definition raises :: "(job \<Rightarrow> job res) \<Rightarrow> job \<Rightarrow> bool" where
  "raises run j \<longleftrightarrow> \<not> is_skip j \<and> isl (run j)"

lemma raises_work: "raises run j \<longleftrightarrow> isl (work run j)"
  by (simp add: raises_def work_def)

text \<open>
  All jobs are somewhere: in front of the break jobs, with a worker, lost with a worker, or
  done, and what was done is collected or in the output queue, in the order of finishing.
  There are as many break jobs on the way as workers that have not stopped, and no worker
  has stopped while a real job is in front.
\<close>

definition queues_ok :: "pool \<Rightarrow> job list \<Rightarrow> job list \<Rightarrow> bool" where
  "queues_ok p rs bs \<longleftrightarrow> in_queue p @ todo p = rs @ bs \<and> list_all (\<lambda>j. \<not> is_break j) rs \<and> list_all is_break bs \<and>
     length bs = live (workers p) \<and> (Stopped \<in> set (workers p) \<longrightarrow> rs = [])"

definition jobs_ok :: "(job \<Rightarrow> job res) \<Rightarrow> job list \<Rightarrow> pool \<Rightarrow> job list \<Rightarrow> job list \<Rightarrow> bool" where
  "jobs_ok run jobs p rs ds \<longleftrightarrow>
     mset jobs = mset rs + mset (holding (workers p)) + mset (lost_jobs (workers p)) + mset ds \<and>
     list_all2 (outcome run (thread_exit p)) ds (collected p @ out_queue p) \<and>
     list_all (raises run) (lost_jobs (workers p))"

definition counts_ok :: "job list \<Rightarrow> nat \<Rightarrow> pool \<Rightarrow> bool" where
  "counts_ok jobs n p \<longleftrightarrow> length (workers p) = n \<and> missing p + length (collected p) = length jobs \<and>
     (joined p \<longrightarrow> todo p = [] \<and> missing p = 0 \<and> list_all ended (workers p))"

definition pool_inv :: "(job \<Rightarrow> job res) \<Rightarrow> job list \<Rightarrow> nat \<Rightarrow> pool \<Rightarrow> bool" where
  "pool_inv run jobs n p \<longleftrightarrow> (\<exists>rs bs ds. queues_ok p rs bs \<and> jobs_ok run jobs p rs ds) \<and> counts_ok jobs n p"

lemma pool_invI:
  "queues_ok p rs bs \<Longrightarrow> jobs_ok run jobs p rs ds \<Longrightarrow> counts_ok jobs n p \<Longrightarrow> pool_inv run jobs n p"
  unfolding pool_inv_def by blast

lemma pool_invE:
  assumes "pool_inv run jobs n p"
  obtains rs bs ds where "queues_ok p rs bs" "jobs_ok run jobs p rs ds" "counts_ok jobs n p"
  using assms unfolding pool_inv_def by blast

lemmas pool_parts = queues_ok_def jobs_ok_def counts_ok_def

lemma inv_start:
  assumes "list_all (\<lambda>j. \<not> is_break j) jobs"
  shows "pool_inv run jobs n (pool_start jobs n)"
  by (rule pool_invI [where rs = jobs and bs = "break_jobs n" and ds = "[]"])
    (use assms in \<open>auto simp: pool_start_def pool_parts break_jobs_def list_all_iff\<close>)

subsection \<open>Every step keeps the invariant\<close>

lemma inv_put:
  assumes "pool_inv run jobs n p" and "todo p = j # js"
  shows "pool_inv run jobs n (p\<lparr>todo := js, in_queue := in_queue p @ [j]\<rparr>)"
  using assms(1) by (rule pool_invE, intro pool_invI) (use assms(2) in \<open>auto simp: pool_parts\<close>)

lemma inv_take_break:
  assumes "pool_inv run jobs n p" and q: "in_queue p = j # q" and i: "i < length (workers p)"
    and w: "workers p ! i = Waiting" and b: "is_break j"
  shows "pool_inv run jobs n (p\<lparr>in_queue := q, workers := (workers p)[i := Stopped]\<rparr>)"
proof -
  from assms(1) obtain rs bs ds where I: "queues_ok p rs bs" "jobs_ok run jobs p rs ds" "counts_ok jobs n p"
    by (rule pool_invE)
  from I(1) q b obtain bs' where rs: "rs = []" and bs: "bs = j # bs'"
    by (cases rs) (auto simp: queues_ok_def)
  have l: "live ((workers p)[i := Stopped]) + 1 = live (workers p)" using live_update [OF i, of Stopped] w by simp
  have h: "mset (holding ((workers p)[i := Stopped])) = mset (holding (workers p))"
    using holding_update [OF i, of Stopped] w by simp
  have d: "mset (lost_jobs ((workers p)[i := Stopped])) = mset (lost_jobs (workers p))"
    using lost_update [OF i, of Stopped] w by simp
  have r: "list_all (raises run) (lost_jobs ((workers p)[i := Stopped]))"
    using I(2) mset_eq_setD [OF d] by (simp add: jobs_ok_def list_all_iff)
  have e: "\<not> joined p" using I(3) i w by (auto simp: counts_ok_def list_all_length ended_def split: worker.splits)
  show ?thesis
    by (rule pool_invI [where rs = "[]" and bs = bs' and ds = ds])
      (use I q rs bs l h d r e in \<open>auto simp: pool_parts\<close>)
qed

text \<open>
  A step that changes one worker, which has not ended and does not stop, and puts \<open>new\<close> into the output
  queue: it keeps the invariant if the jobs that leave the worker are accounted for.
\<close>

lemma inv_worker:
  assumes inv: "pool_inv run jobs n p" and i: "i < length (workers p)" and w: "\<not> ended (workers p ! i)"
    and v: "v \<noteq> Stopped" and l: "list_all (raises run) (lost v)"
    and h: "mset (held (workers p ! i)) = mset (held v) + mset (lost v) + mset ds'"
    and o: "list_all2 (outcome run (thread_exit p)) ds' new"
  shows "pool_inv run jobs n (p\<lparr>workers := (workers p)[i := v], out_queue := out_queue p @ new\<rparr>)"
proof -
  from inv obtain rs bs ds where I: "queues_ok p rs bs" "jobs_ok run jobs p rs ds" "counts_ok jobs n p"
    by (rule pool_invE)
  have ns: "workers p ! i \<noteq> Stopped" "lost (workers p ! i) = []" using w by (auto simp: ended_def split: worker.splits)
  have lv: "live ((workers p)[i := v]) = live (workers p)" using live_update [OF i, of v] ns v by simp
  have d: "mset (lost_jobs ((workers p)[i := v])) = mset (lost_jobs (workers p)) + mset (lost v)"
    using lost_update [OF i, of v] ns by simp
  have hh: "mset (holding (workers p)) = mset (holding ((workers p)[i := v])) + mset (lost v) + mset ds'"
    using holding_update [OF i, of v] unfolding h by (simp add: algebra_simps)
  have r: "list_all (raises run) (lost_jobs ((workers p)[i := v]))"
    using I(2) l arg_cong [OF d, of set_mset] unfolding jobs_ok_def list_all_iff by auto
  have out: "list_all2 (outcome run (thread_exit p)) (ds @ ds') (collected p @ out_queue p @ new)"
    using list_all2_appendI [OF _ o, of ds "collected p @ out_queue p"] I(2) by (simp add: jobs_ok_def)
  have e: "\<not> joined p" using I(3) i w by (auto simp: counts_ok_def list_all_length)
  have "queues_ok (p\<lparr>workers := (workers p)[i := v], out_queue := out_queue p @ new\<rparr>) rs bs"
    using I(1) lv stopped_update [OF _ v] by (auto simp: queues_ok_def)
  moreover have "jobs_ok run jobs (p\<lparr>workers := (workers p)[i := v], out_queue := out_queue p @ new\<rparr>) rs (ds @ ds')"
    using I(2) d hh r out by (simp add: jobs_ok_def algebra_simps)
  moreover have "counts_ok jobs n (p\<lparr>workers := (workers p)[i := v], out_queue := out_queue p @ new\<rparr>)"
    using I(3) e by (simp add: counts_ok_def)
  ultimately show ?thesis by (rule pool_invI)
qed

lemma inv_take_job:
  assumes "pool_inv run jobs n p" and q: "in_queue p = j # q" and i: "i < length (workers p)"
    and w: "workers p ! i = Waiting" and b: "\<not> is_break j"
  shows "pool_inv run jobs n (p\<lparr>in_queue := q, workers := (workers p)[i := Taken j]\<rparr>)"
proof -
  from assms(1) obtain rs bs ds where I: "queues_ok p rs bs" "jobs_ok run jobs p rs ds" "counts_ok jobs n p"
    by (rule pool_invE)
  from I(1) q b obtain rs' where rs: "rs = j # rs'"
    by (cases rs) (auto simp: queues_ok_def)
  have l: "live ((workers p)[i := Taken j]) = live (workers p)" using live_update [OF i, of "Taken j"] w by simp
  have h: "mset (holding ((workers p)[i := Taken j])) = mset (holding (workers p)) + {#j#}"
    using holding_update [OF i, of "Taken j"] w by simp
  have d: "mset (lost_jobs ((workers p)[i := Taken j])) = mset (lost_jobs (workers p))"
    using lost_update [OF i, of "Taken j"] w by simp
  have r: "list_all (raises run) (lost_jobs ((workers p)[i := Taken j]))"
    using I(2) mset_eq_setD [OF d] by (simp add: jobs_ok_def list_all_iff)
  have s: "Stopped \<notin> set ((workers p)[i := Taken j])"
    using I(1) rs stopped_update [of "workers p" i "Taken j"] by (auto simp: queues_ok_def)
  have e: "\<not> joined p" using I(3) i w by (auto simp: counts_ok_def list_all_length ended_def split: worker.splits)
  show ?thesis
    by (rule pool_invI [where rs = rs' and bs = bs and ds = ds])
      (use I q rs l h d r s e in \<open>auto simp: pool_parts\<close>)
qed

lemma inv_give_back:
  assumes "pool_inv run jobs n p" and "i < length (workers p)" and "workers p ! i = Taken j" and "thread_exit p"
  shows "pool_inv run jobs n (p\<lparr>workers := (workers p)[i := Waiting],
           out_queue := out_queue p @ [j\<lparr>is_break := True\<rparr>]\<rparr>)"
  by (rule inv_worker [OF assms(1,2), where ds' = "[j]"])
    (use assms(3,4) in \<open>auto simp: ended_def outcome_def\<close>)

lemma inv_start_job:
  assumes "pool_inv run jobs n p" and "i < length (workers p)" and "workers p ! i = Taken j"
  shows "pool_inv run jobs n (p\<lparr>workers := (workers p)[i := Running j]\<rparr>)"
  using inv_worker [OF assms(1,2), where v = "Running j" and ds' = "[]" and new = "[]"] assms(3)
  by (simp add: ended_def)

lemma inv_finish:
  assumes "pool_inv run jobs n p" and "i < length (workers p)" and "workers p ! i = Running j" and "work run j = Inr r"
  shows "pool_inv run jobs n (p\<lparr>workers := (workers p)[i := Waiting], out_queue := out_queue p @ [r]\<rparr>)"
  by (rule inv_worker [OF assms(1,2), where ds' = "[j]"])
    (use assms(3,4) in \<open>auto simp: ended_def outcome_def\<close>)

lemma inv_die:
  assumes "pool_inv run jobs n p" and "i < length (workers p)" and "workers p ! i = Running j" and "work run j = Inl e"
  shows "pool_inv run jobs n (p\<lparr>workers := (workers p)[i := Dead j]\<rparr>)"
  using inv_worker [OF assms(1,2), where v = "Dead j" and ds' = "[]" and new = "[]"] assms(3,4)
  by (simp add: ended_def raises_work)

lemma inv_collect:
  assumes "pool_inv run jobs n p" and "todo p = []" and "missing p = Suc m" and "out_queue p = j # q"
  shows "pool_inv run jobs n (p\<lparr>missing := m, out_queue := q, collected := collected p @ [j]\<rparr>)"
  using assms(1) by (rule pool_invE, intro pool_invI) (use assms(2-4) in \<open>auto simp: pool_parts\<close>)

lemma inv_join:
  assumes "pool_inv run jobs n p" and "todo p = []" and "missing p = 0" and "list_all ended (workers p)"
  shows "pool_inv run jobs n (p\<lparr>joined := True\<rparr>)"
  using assms(1) by (rule pool_invE, intro pool_invI) (use assms(2-4) in \<open>auto simp: pool_parts\<close>)

lemma inv_interrupt:
  assumes "pool_inv run jobs n p"
  shows "pool_inv run jobs n (sigint_hook p)"
  using assms by (rule pool_invE, intro pool_invI)
    (auto simp: pool_parts sigint_hook_def intro: list_all2_mono outcome_mono)

lemma inv_step:
  assumes "pool_inv run jobs n p" and "pool_step run p q"
  shows "pool_inv run jobs n q"
  using assms(2)
proof (cases rule: pool_step.cases)
  case (take_job j q i)
  with assms(1) show ?thesis by (cases "is_break j") (simp_all add: inv_take_break inv_take_job)
qed (use assms(1) in \<open>simp_all add: inv_put inv_give_back inv_start_job inv_finish inv_die inv_collect inv_join\<close>)

definition pool_rank :: "pool \<Rightarrow> nat" where
  "pool_rank p = 5 * length (todo p) + 4 * length (in_queue p) + sum_list (map effort (workers p)) +
     length (out_queue p) + (if joined p then 0 else 1) + (if thread_exit p then 0 else 1)"

lemma rank_step:
  assumes "pool_step run p q"
  shows "pool_rank q < pool_rank p"
  using assms
proof (cases rule: pool_step.cases)
  case (take_job j q i)
  then show ?thesis
    using effort_update [of i "workers p" Stopped] effort_update [of i "workers p" "Taken j"]
    by (auto simp: pool_rank_def)
next
  case (give_back i j)
  then show ?thesis using effort_update [of i "workers p" Waiting] by (auto simp: pool_rank_def)
next
  case (start_job i j)
  then show ?thesis using effort_update [of i "workers p" "Running j"] by (auto simp: pool_rank_def)
next
  case (finish_job i j)
  then show ?thesis using effort_update [of i "workers p" Waiting] by (auto simp: pool_rank_def)
next
  case (die i j)
  then show ?thesis using effort_update [of i "workers p" "Dead j"] by (auto simp: pool_rank_def)
qed (auto simp: pool_rank_def)

text \<open>
  For any jobs and any number of workers the runner is a terminating system with this
  invariant.
\<close>

interpretation pl: terminating_system
  "\<lambda>p. list_all (\<lambda>j. \<not> is_break j) jobs \<and> p = pool_start jobs n" "any_step run" "pool_inv run jobs n" pool_rank
  for run :: "job \<Rightarrow> job res" and jobs :: "job list" and n :: nat
proof
  show "pool_inv run jobs n p" if "list_all (\<lambda>j. \<not> is_break j) jobs \<and> p = pool_start jobs n" for p
    using that inv_start by blast
  show "pool_inv run jobs n q" if "pool_inv run jobs n p" and "any_step run p q" for p q
    using that unfolding any_step_def by (auto intro: inv_step inv_interrupt)
  show "pool_rank q < pool_rank p" if "pool_inv run jobs n p" and "any_step run p q" for p q
    using that(2) rank_step [of run p q] unfolding any_step_def
    by (auto simp: pool_rank_def sigint_hook_def simp del: One_nat_def)
qed

subsection \<open>What a run ends in\<close>

text \<open>
  A state in which no thread can move and the main thread has not joined the workers: a
  worker has died, or there is no worker at all.
\<close>

lemma stuck_queues:
  assumes inv: "pool_inv run jobs n p" and stuck: "\<And>q. \<not> pool_step run p q"
  shows "todo p = []" and "list_all ended (workers p)"
proof -
  show td: "todo p = []" using stuck put_job by (cases "todo p") blast+
  from inv obtain rs bs ds where Q: "queues_ok p rs bs" by (rule pool_invE)
  have "ended w" if w: "w \<in> set (workers p)" for w
  proof -
    from w obtain i where i: "i < length (workers p)" "workers p ! i = w" by (auto simp: in_set_conv_nth)
    show ?thesis
    proof (cases w)
      case Waiting
      with w have "live (workers p) \<noteq> 0" by (auto simp: live_def filter_empty_conv)
      with Q td obtain j q where "in_queue p = j # q" by (cases "in_queue p") (auto simp: queues_ok_def)
      with stuck take_job i Waiting show ?thesis by blast
    next
      case (Taken j)
      with stuck give_back start_job i show ?thesis by blast
    next
      case (Running j)
      with stuck finish_job die i show ?thesis by (cases "work run j") blast+
    qed (simp_all add: ended_def)
  qed
  then show "list_all ended (workers p)" by (simp add: list_all_iff)
qed

lemma ended_holding: "list_all ended ws \<Longrightarrow> holding ws = []"
  by (induction ws) (auto simp: holding_def ended_def split: worker.splits)

lemma ended_lost: "list_all ended ws \<Longrightarrow> lost_jobs ws = [] \<Longrightarrow> \<forall>w\<in>set ws. w = Stopped"
  by (induction ws) (auto simp: lost_jobs_def ended_def split: worker.splits)

lemma stuck_lost:
  assumes inv: "pool_inv run jobs n p" and stuck: "\<And>q. \<not> pool_step run p q" and nj: "\<not> joined p"
  shows "lost_jobs (workers p) \<noteq> [] \<or> n = 0 \<and> jobs \<noteq> []"
proof (rule ccontr)
  assume neg: "\<not> (lost_jobs (workers p) \<noteq> [] \<or> n = 0 \<and> jobs \<noteq> [])"
  note td = stuck_queues(1) [OF inv stuck] and en = stuck_queues(2) [OF inv stuck]
  from inv obtain rs bs ds where I: "queues_ok p rs bs" "jobs_ok run jobs p rs ds" "counts_ok jobs n p"
    by (rule pool_invE)
  obtain m where m: "missing p = Suc m" using join_all [OF td _ nj en] stuck by (cases "missing p") blast+
  have o: "out_queue p = []" using collect [OF td m] stuck by (cases "out_queue p") blast+
  have "n \<noteq> 0" using neg I(3) m by (auto simp: counts_ok_def)
  then have "Stopped \<in> set (workers p)"
    using ended_lost [OF en] neg I(3) by (cases "workers p") (auto simp: counts_ok_def)
  with I(1) have "rs = []" by (simp add: queues_ok_def)
  with I(2) neg ended_holding [OF en] have "mset jobs = mset ds" by (simp add: jobs_ok_def)
  then have "length jobs = length ds" by (metis size_mset)
  with I(2) o list_all2_lengthD [of _ ds] have "length jobs = length (collected p)" by (fastforce simp: jobs_ok_def)
  with I(3) m show False by (simp add: counts_ok_def)
qed

text \<open>When the workers are joined no worker has died and every job has come back exactly once.\<close>

lemma joined_complete:
  assumes "pool_inv run jobs n p" and "joined p"
  shows "\<exists>ds. mset ds = mset jobs \<and> list_all2 (outcome run (thread_exit p)) ds (collected p)"
    and "\<forall>w\<in>set (workers p). w = Stopped"
proof -
  from assms(1) obtain rs bs ds where I: "queues_ok p rs bs" "jobs_ok run jobs p rs ds" "counts_ok jobs n p"
    by (rule pool_invE)
  let ?rest = "rs @ holding (workers p) @ lost_jobs (workers p)"
  from I(2) have "mset jobs = mset (?rest @ ds)" by (simp add: jobs_ok_def)
  then have len: "length jobs = length ?rest + length ds" by (metis size_mset length_append)
  have "length ds = length (collected p) + length (out_queue p)"
    using I(2) list_all2_lengthD by (fastforce simp: jobs_ok_def)
  with len I(3) assms(2) have e: "?rest = []" "out_queue p = []" by (auto simp: counts_ok_def)
  show "\<exists>ds. mset ds = mset jobs \<and> list_all2 (outcome run (thread_exit p)) ds (collected p)"
    using I(2) e by (intro exI [of _ ds]) (simp add: jobs_ok_def)
  show "\<forall>w\<in>set (workers p). w = Stopped"
    using ended_lost [of "workers p"] I(3) e(1) assms(2) by (simp add: counts_ok_def)
qed

lemma outcome_normal: "list_all2 (outcome run False) ds rs \<longleftrightarrow> map (work run) ds = map Inr rs"
proof (induction ds arbitrary: rs)
  case (Cons d ds)
  then show ?case by (cases rs) (auto simp: outcome_def)
qed simp

lemma outcome_raises: "list_all2 (outcome run False) ds rs \<Longrightarrow> list_all (\<lambda>j. \<not> raises run j) ds"
  by (induction rule: list_all2_induct) (auto simp: outcome_def raises_work)

lemma joined_raises:
  assumes "pool_inv run jobs n p" and "joined p" and "\<not> thread_exit p" and "j \<in> set jobs"
  shows "\<not> raises run j"
proof -
  from joined_complete(1) [OF assms(1,2)] assms(3) obtain ds where
    "mset ds = mset jobs" "list_all2 (outcome run False) ds (collected p)" by auto
  with outcome_raises [OF this(2)] assms(4) show ?thesis by (metis list_all_iff mset_eq_setD)
qed

lemma stuck_raises:
  assumes "pool_inv run jobs n p" and "\<And>q. \<not> pool_step run p q" and "\<not> joined p"
  shows "n = 0 \<and> jobs \<noteq> [] \<or> (\<exists>j\<in>set jobs. raises run j)"
proof -
  from assms(1) obtain rs bs ds where I: "jobs_ok run jobs p rs ds" by (rule pool_invE)
  from I have "mset jobs = mset rs + mset (holding (workers p)) + mset (lost_jobs (workers p)) + mset ds"
    by (simp add: jobs_ok_def)
  from arg_cong [OF this, of set_mset] have "set (lost_jobs (workers p)) \<subseteq> set jobs" by auto
  with I have "lost_jobs (workers p) \<noteq> [] \<Longrightarrow> \<exists>j\<in>set jobs. raises run j"
    by (cases "lost_jobs (workers p)") (auto simp: jobs_ok_def)
  with stuck_lost [OF assms] show ?thesis by blast
qed

text \<open>
  Property C3: with at least one worker, no schedule of the threads and of the
  interrupt runs forever; a reachable state in which no thread can move is the end of the
  run, where all workers have stopped and are joined, or one that waits forever, which needs
  a job whose run raises. If such a job is queued and there is no interrupt, the workers are
  never joined.
\<close>

theorem workers_finish:
  assumes "0 < n" and "list_all (\<lambda>j. \<not> is_break j) jobs"
  shows "(\<nexists>f. f 0 = pool_start jobs n \<and> (\<forall>i. any_step run (f i) (f (Suc i)))) \<and>
    (\<forall>p. (any_step run)\<^sup>*\<^sup>* (pool_start jobs n) p \<longrightarrow>
       ((\<exists>q. pool_step run p q) \<or> joined p \<and> (\<forall>w\<in>set (workers p). w = Stopped)
          \<or> \<not> joined p \<and> (\<exists>j\<in>set jobs. raises run j)) \<and>
       (joined p \<longrightarrow> thread_exit p \<or> (\<forall>j\<in>set jobs. \<not> raises run j)))"
proof (intro conjI allI impI)
  have start: "pool_inv run jobs n (pool_start jobs n)" using inv_start [OF assms(2)] .
  then show "\<nexists>f. f 0 = pool_start jobs n \<and> (\<forall>i. any_step run (f i) (f (Suc i)))"
    using pl.no_infinite_run by metis
  fix p assume "(any_step run)\<^sup>*\<^sup>* (pool_start jobs n) p"
  then have inv: "pool_inv run jobs n p" using pl.steps_inv [OF start] by blast
  show "(\<exists>q. pool_step run p q) \<or> joined p \<and> (\<forall>w\<in>set (workers p). w = Stopped)
      \<or> \<not> joined p \<and> (\<exists>j\<in>set jobs. raises run j)"
    using joined_complete(2) [OF inv] stuck_raises [OF inv] assms(1) by (cases "joined p") auto
  show "thread_exit p \<or> (\<forall>j\<in>set jobs. \<not> raises run j)" if "joined p"
    using joined_raises [OF inv that] by blast
qed

lemma workers_finish_witness:
  "\<nexists>f. f 0 = pool_start [new_job] 2 \<and> (\<forall>i. any_step Inr (f i) (f (Suc i)))"
  using workers_finish [of 2 "[new_job]" Inr] by (simp add: new_job_def)

text \<open>
  Property C2: in every reachable state the jobs that were queued are, as a multiset,
  those still in front of the break jobs, those a worker has taken or runs, those whose run
  raised and ended its worker, and those finished, and the finished ones are collected or
  waiting in the output queue in the order of finishing, each with the result of its run or,
  after an interrupt only, marked as a break.
\<close>

theorem every_job_once:
  assumes "list_all (\<lambda>j. \<not> is_break j) jobs" and "(any_step run)\<^sup>*\<^sup>* (pool_start jobs n) p"
  shows "\<exists>rs bs ds. in_queue p @ todo p = rs @ bs \<and> list_all (\<lambda>j. \<not> is_break j) rs \<and> list_all is_break bs \<and>
    mset jobs = mset rs + mset (holding (workers p)) + mset (lost_jobs (workers p)) + mset ds \<and>
    list_all (raises run) (lost_jobs (workers p)) \<and>
    list_all2 (outcome run (thread_exit p)) ds (collected p @ out_queue p)"
  using pl.steps_inv [OF inv_start [OF assms(1)] assms(2)]
  by (rule pool_invE) (auto simp: queues_ok_def jobs_ok_def)

lemma every_job_once_witness:
  "\<exists>p rs ds. (any_step Inr)\<^sup>*\<^sup>* (pool_start [new_job] 1) p \<and> in_queue p = [new_job] \<and>
     mset [new_job] = mset rs + mset (holding (workers p)) + mset (lost_jobs (workers p)) + mset ds"
proof -
  let ?s = "pool_start [new_job] 1"
  have td: "todo ?s = new_job # break_jobs 1" by (simp add: pool_start_def)
  let ?p = "?s\<lparr>todo := break_jobs 1, in_queue := in_queue ?s @ [new_job]\<rparr>"
  have r: "(any_step Inr)\<^sup>*\<^sup>* ?s ?p"
    by (rule r_into_rtranclp) (unfold any_step_def, rule disjI1, rule put_job [OF td])
  have "list_all (\<lambda>j. \<not> is_break j) [new_job]" by (simp add: new_job_def)
  from every_job_once [OF this r] obtain rs ds where
    "mset [new_job] = mset rs + mset (holding (workers ?p)) + mset (lost_jobs (workers ?p)) + mset ds"
    by blast
  moreover have "in_queue ?p = [new_job]" by (simp add: pool_start_def)
  ultimately show ?thesis using r by blast
qed

subsection \<open>The schedule in order\<close>

text \<open>One run possible if no job raises: the first worker does all jobs in order, then all stop.\<close>

definition pst :: "job list \<Rightarrow> job list \<Rightarrow> job list \<Rightarrow> worker list \<Rightarrow> nat \<Rightarrow> job list \<Rightarrow> bool \<Rightarrow> pool" where
  "pst t i out ws m c d = \<lparr>todo = t, in_queue = i, out_queue = out, workers = ws,
      thread_exit = False, missing = m, collected = c, joined = d\<rparr>"

lemma pst_sel [simp]:
  "todo (pst t i out ws m c d) = t" "in_queue (pst t i out ws m c d) = i" "out_queue (pst t i out ws m c d) = out"
  "workers (pst t i out ws m c d) = ws" "\<not> thread_exit (pst t i out ws m c d)" "missing (pst t i out ws m c d) = m"
  "collected (pst t i out ws m c d) = c" "joined (pst t i out ws m c d) = d"
  by (simp_all add: pst_def)

lemma st_step: "pool_step run p q \<Longrightarrow> (any_step run)\<^sup>*\<^sup>* q r \<Longrightarrow> (any_step run)\<^sup>*\<^sup>* p r"
  by (meson any_step_def converse_rtranclp_into_rtranclp)

lemma run_puts: "(any_step run)\<^sup>*\<^sup>* (pst js q out ws m c d) (pst [] (q @ js) out ws m c d)"
proof (induction js arbitrary: q)
  case (Cons j js)
  have "pool_step run (pst (j # js) q out ws m c d) (pst js (q @ [j]) out ws m c d)"
    using put_job [of "pst (j # js) q out ws m c d" j js run] by (simp add: pst_def)
  from st_step [OF this Cons.IH] show ?case by simp
qed simp

lemma run_works:
  assumes "list_all (\<lambda>j. \<not> is_break j) js" and "ws \<noteq> []" and "ws ! 0 = Waiting" and "map (work run) js = map Inr rs"
  shows "(any_step run)\<^sup>*\<^sup>* (pst [] (js @ bs) out ws m c d) (pst [] bs (out @ rs) ws m c d)"
  using assms(1,4)
proof (induction js arbitrary: out rs)
  case (Cons j js)
  from Cons.prems(2) obtain r rs' where rs: "rs = r # rs'" "work run j = Inr r" "map (work run) js = map Inr rs'"
    by (cases rs) auto
  define take where "take = ws[0 := Taken j]"
  define busy where "busy = ws[0 := Running j]"
  have bk: "take[0 := Running j] = busy" "busy[0 := Waiting] = ws" "take ! 0 = Taken j" "busy ! 0 = Running j"
    "take \<noteq> []" "busy \<noteq> []"
    using assms(2,3) list_update_id [of ws 0] by (simp_all add: take_def busy_def)
  have 1: "pool_step run (pst [] (j # js @ bs) out ws m c d) (pst [] (js @ bs) out take m c d)"
    using take_job [of "pst [] (j # js @ bs) out ws m c d" j "js @ bs" 0 run] assms(2,3) Cons.prems
    by (simp add: pst_def take_def)
  have 2: "pool_step run (pst [] (js @ bs) out take m c d) (pst [] (js @ bs) out busy m c d)"
    using start_job [of 0 "pst [] (js @ bs) out take m c d" j run] bk by (simp add: pst_def)
  have 3: "pool_step run (pst [] (js @ bs) out busy m c d) (pst [] (js @ bs) (out @ [r]) ws m c d)"
    using finish_job [of 0 "pst [] (js @ bs) out busy m c d" j run r] bk rs(2) by (simp add: pst_def)
  have "(any_step run)\<^sup>*\<^sup>* (pst [] (js @ bs) (out @ [r]) ws m c d) (pst [] bs ((out @ [r]) @ rs') ws m c d)"
    by (rule Cons.IH) (use Cons.prems rs in simp_all)
  from st_step [OF 1 st_step [OF 2 st_step [OF 3 this]]] rs(1) show ?case by simp
qed simp

lemma run_stops:
  "(any_step run)\<^sup>*\<^sup>* (pst [] (break_jobs k) out (replicate i Stopped @ replicate k Waiting) m c d)
     (pst [] [] out (replicate (i + k) Stopped) m c d)"
proof (induction k arbitrary: i)
  case 0
  then show ?case by (simp add: break_jobs_def)
next
  case (Suc k)
  let ?b = "new_job\<lparr>is_break := True\<rparr>" and ?ws = "replicate i Stopped @ Waiting # replicate k Waiting"
  have w: "?ws[i := Stopped] = replicate (Suc i) Stopped @ replicate k Waiting"
    by (simp add: list_update_append replicate_append_same)
  have "pool_step run (pst [] (?b # break_jobs k) out ?ws m c d) (pst [] (break_jobs k) out (?ws[i := Stopped]) m c d)"
    using take_job [of "pst [] (?b # break_jobs k) out ?ws m c d" ?b "break_jobs k" i run] by (simp add: pst_def nth_append)
  from st_step [OF this [unfolded w] Suc.IH] show ?case by (simp add: break_jobs_def)
qed

lemma run_collects: "(any_step run)\<^sup>*\<^sup>* (pst [] [] js ws (length js) c d) (pst [] [] [] ws 0 (c @ js) d)"
proof (induction js arbitrary: c)
  case (Cons j js)
  have "pool_step run (pst [] [] (j # js) ws (Suc (length js)) c d) (pst [] [] js ws (length js) (c @ [j]) d)"
    using collect [of "pst [] [] (j # js) ws (Suc (length js)) c d" "length js" j js run] by (simp add: pst_def)
  from st_step [OF this Cons.IH] show ?case by simp
qed simp

lemma in_order_run:
  assumes "list_all (\<lambda>j. \<not> is_break j) jobs" and "0 < n \<or> jobs = []" and "map (work run) jobs = map Inr rs"
  shows "\<exists>p. (any_step run)\<^sup>*\<^sup>* (pool_start jobs n) p \<and> joined p \<and> collected p = rs \<and> \<not> thread_exit p"
proof -
  let ?b = "break_jobs n" and ?w = "replicate n Waiting" and ?l = "length jobs"
  have len: "?l = length rs" using assms(3) map_eq_imp_length_eq by blast
  have s0: "pool_start jobs n = pst (jobs @ ?b) [] [] ?w ?l [] False" by (simp add: pool_start_def pst_def)
  have 1: "(any_step run)\<^sup>*\<^sup>* (pool_start jobs n) (pst [] (jobs @ ?b) [] ?w ?l [] False)"
    unfolding s0 using run_puts [of run "jobs @ ?b" "[]"] by simp
  have 2: "(any_step run)\<^sup>*\<^sup>* (pst [] (jobs @ ?b) [] ?w ?l [] False) (pst [] ?b rs ?w ?l [] False)"
  proof (cases "0 < n")
    case True
    then show ?thesis using run_works [OF assms(1) _ _ assms(3), of ?w ?b "[]"] by simp
  qed (use assms(2,3) in simp)
  have 3: "(any_step run)\<^sup>*\<^sup>* (pst [] ?b rs ?w ?l [] False) (pst [] [] rs (replicate n Stopped) ?l [] False)"
    using run_stops [of run n rs 0 ?l "[]" False] by simp
  have 4: "(any_step run)\<^sup>*\<^sup>* (pst [] [] rs (replicate n Stopped) ?l [] False) (pst [] [] [] (replicate n Stopped) 0 rs False)"
    using run_collects [of run rs "replicate n Stopped" "[]" False] by (simp add: len)
  have "list_all ended (replicate n Stopped)" by (simp add: list_all_iff ended_def)
  then have "pool_step run (pst [] [] [] (replicate n Stopped) 0 rs False) (pst [] [] [] (replicate n Stopped) 0 rs True)"
    using join_all [of "pst [] [] [] (replicate n Stopped) 0 rs False" run] by (simp add: pst_def)
  from st_step [OF this rtranclp.rtrancl_refl] 1 2 3 4
  have "(any_step run)\<^sup>*\<^sup>* (pool_start jobs n) (pst [] [] [] (replicate n Stopped) 0 rs True)" by (meson rtranclp_trans)
  then show ?thesis by (intro exI [of _ "pst [] [] [] (replicate n Stopped) 0 rs True"]) simp
qed

text \<open>
  A job whose process cannot be started leaves the runner waiting for ever, if there is no
  interrupt.
\<close>

lemma unstartable_job_hangs:
  assumes "list_all (\<lambda>j. \<not> is_break j) jobs" and "j \<in> set jobs" and "raises run j"
  shows "\<exists>p. (pool_step run)\<^sup>*\<^sup>* (pool_start jobs n) p \<and> \<not> joined p \<and> (\<nexists>q. pool_step run p q)"
proof -
  have "\<exists>q. (pool_step run)\<^sup>*\<^sup>* p q \<and> (\<nexists>r. pool_step run q r)" for p
  proof (induction "pool_rank p" arbitrary: p rule: less_induct)
    case less
    then show ?case by (metis converse_rtranclp_into_rtranclp rank_step rtranclp.rtrancl_refl)
  qed
  then obtain p where p: "(pool_step run)\<^sup>*\<^sup>* (pool_start jobs n) p" "\<nexists>q. pool_step run p q" by blast
  have "(any_step run)\<^sup>*\<^sup>* (pool_start jobs n) p"
    using p(1) by (rule rtranclp_mono [THEN predicate2D, rotated]) (auto simp: any_step_def)
  note inv = pl.steps_inv [OF inv_start [OF assms(1)] this]
  have "\<not> thread_exit q" if "(pool_step run)\<^sup>*\<^sup>* (pool_start jobs n) q" for q
    using that by (induction rule: rtranclp_induct) (auto simp: pool_start_def elim: pool_stepE)
  with p joined_raises [OF inv _ _ assms(2)] assms(3) show ?thesis by blast
qed

text \<open>Without a worker the run is stuck as soon as the jobs are queued.\<close>

lemma no_worker_hangs:
  assumes "jobs \<noteq> []"
  shows "\<exists>p. (pool_step run)\<^sup>*\<^sup>* (pool_start jobs 0) p \<and> \<not> joined p \<and> (\<nexists>q. pool_step run p q)"
proof -
  define s where "s = (\<lambda>js q. (pool_start jobs 0)\<lparr>todo := js, in_queue := q\<rparr>)"
  have "(pool_step run)\<^sup>*\<^sup>* (s js q) (s [] (q @ js))" for js q
  proof (induction js arbitrary: q)
    case (Cons j js)
    have "pool_step run (s (j # js) q) (s js (q @ [j]))"
      using put_job [of "s (j # js) q" j js run] by (simp add: s_def)
    with Cons show ?case by (metis append.assoc append_Cons append_Nil converse_rtranclp_into_rtranclp)
  qed simp
  from this [of jobs "[]"] have r: "(pool_step run)\<^sup>*\<^sup>* (pool_start jobs 0) (s [] jobs)"
    by (simp add: s_def pool_start_def break_jobs_def)
  have "\<not> pool_step run (s [] jobs) q" for q
    using assms by (auto simp: s_def pool_start_def elim!: pool_stepE)
  moreover have "\<not> joined (s [] jobs)" by (simp add: s_def pool_start_def)
  ultimately show ?thesis using r by blast
qed

end
