(* ===== verification/TestReport.thy ===== *)
theory TestReport
  imports TestPool
begin

section \<open>The test runner, part three: results and reports (\<^verbatim>\<open>test.py\<close>)\<close>

text \<open>
  The results of the collected jobs: the tally, the XML file and the exit code of
  \<^verbatim>\<open>run_tests\<close>, and the translations of the results to text and HTML. The parsed document
  is a tree; parsing is a library's and not modelled. The HTML is a list of tokens whose
  rendering is the text the code writes, so that its nesting can be checked.
\<close>

subsection \<open>The results of the jobs\<close>

record report =
  passed_tests :: nat
  failed_tests :: nat
  crashed_tests :: nat
  valgrind_errors :: nat
  skipped_tests :: nat
  console :: "string list"
  xml_results :: "string list"

definition empty_report :: report where
  "empty_report = \<lparr>passed_tests = 0, failed_tests = 0, crashed_tests = 0, valgrind_errors = 0,
     skipped_tests = 0, console = [],
     xml_results = [''<?xml version=\"1.0\"?>\<newline>'', ''<TestResults>\<newline>'']\<rparr>"

definition job_status :: "job \<Rightarrow> string" where
  "job_status j =
     (if is_skip j then ''SKIP''
      else if returncode j = 0 then ''PASS''
      else if returncode j = 1 then ''FAIL''
      else if returncode j = 2 then ''VALGR''
      else ''CRASH'')"

definition count_job :: "job \<Rightarrow> report \<Rightarrow> report" where
  "count_job j r =
     (if is_skip j then r\<lparr>skipped_tests := skipped_tests r + 1\<rparr>
      else if returncode j = 0 then r\<lparr>passed_tests := passed_tests r + 1\<rparr>
      else if returncode j = 1 then r\<lparr>failed_tests := failed_tests r + 1\<rparr>
      else if returncode j = 2 then r\<lparr>valgrind_errors := valgrind_errors r + 1\<rparr>
      else r\<lparr>crashed_tests := crashed_tests r + 1\<rparr>)"

definition example_xml :: "job \<Rightarrow> string list" where
  "example_xml j =
     [''<Example>\<newline>'', ''  <Name>'' @ display_name j @ ''</Name>\<newline>'',
      ''  <Result>'' @ job_status j @ ''</Result>\<newline>'',
      ''  <ElapsedTime>'' @ fixed3 (elapsed_time j) @ ''</ElapsedTime>\<newline>'', ''</Example>\<newline>'']"

definition suite_stub :: "job \<Rightarrow> string \<Rightarrow> string list" where
  "suite_stub j status =
     [''<TestSuite>\<newline>'', ''  <SuiteName>'' @ display_name j @ ''</SuiteName>\<newline>'',
      ''  <SuiteResult>'' @ status @ ''</SuiteResult>\<newline>'',
      ''  <SuiteTime>Execution times not available</SuiteTime>\<newline>'', ''</TestSuite>\<newline>'']"

text \<open>\<open>fs\<close> reads a file, or raises.\<close>

definition suite_xml :: "(string \<Rightarrow> string res) \<Rightarrow> job \<Rightarrow> string list res" where
  "suite_xml fs j =
     (if is_skip j then Inr (suite_stub j ''SKIP'')
      else if returncode j = 0 \<or> returncode j = 1 \<or> returncode j = 2
      then rbind (fs (tmp_file_name j)) (\<lambda>c. Inr [c])
      else Inr (suite_stub j ''CRASH'' @ (if returncode j = 2 then suite_stub j ''VALGR'' else [])))"

definition process_result :: "(string \<Rightarrow> string res) \<Rightarrow> report \<Rightarrow> job \<Rightarrow> report res" where
  "process_result fs r j =
     (if is_break j then Inr r
      else
        let kind = (if is_example j \<or> is_pyexample j then ''Example'' else ''TestSuite'');
            r = count_job j r;
            r = r\<lparr>console := console r @ [job_status j @ '': '' @ kind @ '' '' @ display_name j]\<rparr>
        in if is_example j \<or> is_pyexample j
           then Inr (r\<lparr>xml_results := xml_results r @ example_xml j\<rparr>)
           else rbind (suite_xml fs j) (\<lambda>x. Inr (r\<lparr>xml_results := xml_results r @ x\<rparr>)))"

definition close_report :: "nat \<Rightarrow> report \<Rightarrow> report" where
  "close_report total_jobs r =
     r\<lparr>xml_results := xml_results r @ [''</TestResults>\<newline>''],
       console := console r @ [nat_str (passed_tests r) @ '' of '' @ nat_str total_jobs @ '' tests passed (''
         @ nat_str (passed_tests r) @ '' passed, '' @ nat_str (skipped_tests r) @ '' skipped, ''
         @ nat_str (failed_tests r) @ '' failed, '' @ nat_str (crashed_tests r) @ '' crashed, ''
         @ nat_str (valgrind_errors r) @ '' valgrind errors)'']\<rparr>"

definition collect_results :: "(string \<Rightarrow> string res) \<Rightarrow> nat \<Rightarrow> job list \<Rightarrow> report res" where
  "collect_results fs total_jobs js =
     rbind (rfold (process_result fs) empty_report js) (\<lambda>r. Inr (close_report total_jobs r))"

definition exit_code :: "nat \<Rightarrow> report \<Rightarrow> int" where
  "exit_code total_jobs r = (if passed_tests r + skipped_tests r = total_jobs then 0 else 1)"

subsection \<open>The tally\<close>

definition with_status :: "string \<Rightarrow> job list \<Rightarrow> nat" where
  "with_status s js = length (filter (\<lambda>j. \<not> is_break j \<and> job_status j = s) js)"

lemma job_status_cases:
  "job_status j = ''SKIP'' \<longleftrightarrow> is_skip j" "job_status j = ''PASS'' \<longleftrightarrow> \<not> is_skip j \<and> returncode j = 0"
  "job_status j = ''FAIL'' \<longleftrightarrow> \<not> is_skip j \<and> returncode j = 1"
  "job_status j = ''VALGR'' \<longleftrightarrow> \<not> is_skip j \<and> returncode j = 2"
  "job_status j = ''CRASH'' \<longleftrightarrow> \<not> is_skip j \<and> returncode j \<notin> {0, 1, 2}"
  by (auto simp: job_status_def)

lemma process_result_counts:
  assumes "process_result fs r j = Inr r'"
  shows "passed_tests r' = passed_tests r + with_status ''PASS'' [j]"
    "failed_tests r' = failed_tests r + with_status ''FAIL'' [j]"
    "crashed_tests r' = crashed_tests r + with_status ''CRASH'' [j]"
    "valgrind_errors r' = valgrind_errors r + with_status ''VALGR'' [j]"
    "skipped_tests r' = skipped_tests r + with_status ''SKIP'' [j]"
  using assms
  by (auto simp: process_result_def Let_def count_job_def with_status_def job_status_cases split: if_splits)

lemma with_status_Cons: "with_status s (j # js) = with_status s [j] + with_status s js"
  by (simp add: with_status_def)

lemma results_counts:
  assumes "rfold (process_result fs) r js = Inr r'"
  shows "passed_tests r' = passed_tests r + with_status ''PASS'' js \<and>
    failed_tests r' = failed_tests r + with_status ''FAIL'' js \<and>
    crashed_tests r' = crashed_tests r + with_status ''CRASH'' js \<and>
    valgrind_errors r' = valgrind_errors r + with_status ''VALGR'' js \<and>
    skipped_tests r' = skipped_tests r + with_status ''SKIP'' js"
  using assms
proof (induction js arbitrary: r)
  case (Cons j js)
  then obtain r1 where 1: "process_result fs r j = Inr r1" and 2: "rfold (process_result fs) r1 js = Inr r'" by auto
  from Cons.IH [OF 2] process_result_counts [OF 1] show ?case
    by (simp add: with_status_Cons [of _ j js])
qed (simp add: with_status_def)

lemma collect_counts:
  assumes "collect_results fs total_jobs js = Inr r"
  shows "passed_tests r = with_status ''PASS'' js" "failed_tests r = with_status ''FAIL'' js"
    "crashed_tests r = with_status ''CRASH'' js" "valgrind_errors r = with_status ''VALGR'' js"
    "skipped_tests r = with_status ''SKIP'' js"
proof -
  from assms obtain r1 where "rfold (process_result fs) empty_report js = Inr r1" and "r = close_report total_jobs r1"
    by (auto simp: collect_results_def)
  with results_counts [OF this(1)]
  show "passed_tests r = with_status ''PASS'' js" "failed_tests r = with_status ''FAIL'' js"
    "crashed_tests r = with_status ''CRASH'' js" "valgrind_errors r = with_status ''VALGR'' js"
    "skipped_tests r = with_status ''SKIP'' js"
    by (simp_all add: close_report_def empty_report_def)
qed

lemma with_status_mset: "mset js = mset ks \<Longrightarrow> with_status s js = with_status s ks"
  unfolding with_status_def by (metis mset_filter size_mset)

lemma statuses_sum:
  "with_status ''PASS'' js + with_status ''FAIL'' js + with_status ''CRASH'' js + with_status ''VALGR'' js
     + with_status ''SKIP'' js + length (filter is_break js) = length js"
proof (induction js)
  case (Cons j js)
  have "with_status ''PASS'' [j] + with_status ''FAIL'' [j] + with_status ''CRASH'' [j] + with_status ''VALGR'' [j]
     + with_status ''SKIP'' [j] + length (filter is_break [j]) = 1"
    by (auto simp: with_status_def job_status_def)
  with Cons show ?case by (simp add: with_status_Cons [of _ j js] del: filter.simps(2) split: if_splits)
      (simp split: if_splits)
qed (simp add: with_status_def)

lemma all_good:
  "with_status ''PASS'' js + with_status ''SKIP'' js = length js \<longleftrightarrow>
     list_all (\<lambda>j. \<not> is_break j \<and> (is_skip j \<or> returncode j = 0)) js"
proof (induction js)
  case (Cons j js)
  have le: "with_status ''PASS'' js + with_status ''SKIP'' js \<le> length js" using statuses_sum [of js] by linarith
  have one: "with_status ''PASS'' [j] + with_status ''SKIP'' [j] =
      (if \<not> is_break j \<and> (is_skip j \<or> returncode j = 0) then 1 else 0)"
    by (auto simp: with_status_def job_status_def)
  have "with_status ''PASS'' (j # js) + with_status ''SKIP'' (j # js) =
      (if \<not> is_break j \<and> (is_skip j \<or> returncode j = 0) then 1 else 0)
        + (with_status ''PASS'' js + with_status ''SKIP'' js)"
    using one by (simp add: with_status_Cons [of _ j js])
  with Cons le show ?case by (cases "\<not> is_break j \<and> (is_skip j \<or> returncode j = 0)") (simp_all, linarith?)
qed (simp add: with_status_def)

lemma map_results_mset:
  assumes "map f ds = map Inr cs" and "mset ds = mset js"
  shows "\<exists>rs. map f js = map Inr rs \<and> mset cs = mset rs"
proof (intro exI conjI)
  have cs: "cs = map (projr \<circ> f) ds" using arg_cong [OF assms(1), of "map projr"] by (simp add: comp_def)
  show "mset cs = mset (map (projr \<circ> f) js)" unfolding cs using assms(2) by simp
  have "f d = Inr (projr (f d))" if "d \<in> set ds" for d
  proof -
    from that have "f d \<in> set (map Inr cs)" unfolding assms(1) [symmetric] by auto
    then show ?thesis by auto
  qed
  with mset_eq_setD [OF assms(2)] show "map f js = map Inr (map (projr \<circ> f) js)" by auto
qed

text \<open>
  Property C4: when the workers are joined, the exit code is 0 exactly if no collected
  job was interrupted and each was skipped or returned 0, and the five counts and the
  interrupted jobs add up to the jobs queued. If there was no interrupt no job raised and the
  counts are those of running the jobs one after the other, whatever the schedule was.
\<close>

theorem report_of_run:
  assumes "list_all (\<lambda>j. \<not> is_break j) jobs"
    and "(any_step (run_job popen cfg vg))\<^sup>*\<^sup>* (pool_start jobs n) p" and "joined p"
    and "collect_results fs (length jobs) (collected p) = Inr r"
  shows "exit_code (length jobs) r =
      (if list_all (\<lambda>j. \<not> is_break j \<and> (is_skip j \<or> returncode j = 0)) (collected p) then 0 else 1) \<and>
    passed_tests r + failed_tests r + crashed_tests r + valgrind_errors r + skipped_tests r
      + length (filter is_break (collected p)) = length jobs \<and>
    (thread_exit p \<or> (\<exists>rs. map (work (run_job popen cfg vg)) jobs = map Inr rs \<and>
      passed_tests r = with_status ''PASS'' rs \<and> failed_tests r = with_status ''FAIL'' rs \<and>
      crashed_tests r = with_status ''CRASH'' rs \<and> valgrind_errors r = with_status ''VALGR'' rs \<and>
      skipped_tests r = with_status ''SKIP'' rs))"
proof -
  let ?run = "run_job popen cfg vg"
  have "pool_inv ?run jobs n p" using pl.steps_inv [OF inv_start [OF assms(1)] assms(2)] .
  from joined_complete(1) [OF this assms(3)] obtain ds where
    ds: "mset ds = mset jobs" "list_all2 (outcome ?run (thread_exit p)) ds (collected p)" by blast
  have len: "length (collected p) = length jobs"
    using ds list_all2_lengthD by (metis size_mset)
  note counts = collect_counts [OF assms(4)]
  have 1: "exit_code (length jobs) r =
      (if list_all (\<lambda>j. \<not> is_break j \<and> (is_skip j \<or> returncode j = 0)) (collected p) then 0 else 1)"
    unfolding exit_code_def counts len [symmetric] all_good ..
  have 2: "passed_tests r + failed_tests r + crashed_tests r + valgrind_errors r + skipped_tests r
      + length (filter is_break (collected p)) = length jobs"
    using statuses_sum [of "collected p"] len by (simp add: counts)
  show ?thesis
  proof (cases "thread_exit p")
    case True
    with 1 2 show ?thesis by (intro conjI disjI1)
  next
    case False
    with ds(2) have "map (work ?run) ds = map Inr (collected p)" by (simp add: outcome_normal)
    from map_results_mset [OF this ds(1)] obtain rs where
      rs: "map (work ?run) jobs = map Inr rs" "mset (collected p) = mset rs" by blast
    show ?thesis using 1 2 rs(1) unfolding counts with_status_mset [OF rs(2)] by blast
  qed
qed

lemma report_of_run_witness:
  "\<exists>p r. (any_step (run_job (\<lambda>c d. Inr \<lparr>pr_code = 3, pr_stdout = [], pr_stderr = [], pr_time = 0\<rparr>)
         \<lparr>builddir = ''/b'', variant = ''d''\<rparr> False))\<^sup>*\<^sup>* (pool_start [new_job\<lparr>is_example := True\<rparr>] 1) p \<and> joined p \<and>
     collect_results (\<lambda>f. Inl IOError) 1 (collected p) = Inr r \<and> exit_code 1 r = 1"
proof -
  let ?run = "run_job (\<lambda>c d. Inr \<lparr>pr_code = 3, pr_stdout = [], pr_stderr = [], pr_time = 0\<rparr>)
         \<lparr>builddir = ''/b'', variant = ''d''\<rparr> False"
  let ?j = "new_job\<lparr>is_example := True\<rparr>" and ?r = "new_job\<lparr>is_example := True, returncode := 3, elapsed_time := 0\<rparr>"
  have nb: "list_all (\<lambda>j. \<not> is_break j) [?j]" by (simp add: new_job_def)
  have w: "map (work ?run) [?j] = map Inr [?r]"
    by (simp add: work_def run_job_def run_job_synchronously_def new_job_def Let_def)
  from in_order_run [OF nb _ w, of 1] obtain p where p: "(any_step ?run)\<^sup>*\<^sup>* (pool_start [?j] 1) p" "joined p"
    "collected p = [?r]" by auto
  obtain r where r: "collect_results (\<lambda>f. Inl IOError) 1 (collected p) = Inr r"
    by (simp add: p(3) collect_results_def process_result_def Let_def new_job_def)
  from report_of_run [OF nb p(1,2)] r have "exit_code 1 r =
      (if list_all (\<lambda>j. \<not> is_break j \<and> (is_skip j \<or> returncode j = 0)) (collected p) then 0 else 1)" by simp
  with p r show ?thesis by (auto simp: new_job_def)
qed

text \<open>
  A test suite that valgrind rejects shows up in the results file with what it wrote itself
  only: the entry with the result VALGR is never added.
\<close>

lemma valgrind_suite_entry:
  assumes "returncode j = 2" and "\<not> is_skip j" and "fs (tmp_file_name j) = Inr c"
  shows "suite_xml fs j = Inr [c]"
  using assms by (simp add: suite_xml_def)

text \<open>A suite that returns 0, 1 or 2 without having written its file ends the whole run.\<close>

lemma missing_results_file:
  assumes "returncode j \<in> {0, 1, 2}" and "\<not> is_skip j" "\<not> is_break j" "\<not> is_example j" "\<not> is_pyexample j"
    and "fs (tmp_file_name j) = Inl IOError"
  shows "process_result fs r j = Inl IOError"
  using assms by (auto simp: process_result_def suite_xml_def Let_def)

subsection \<open>The parsed results\<close>

datatype xml = Elem string "xml list" | Text string

fun by_tag :: "string \<Rightarrow> xml \<Rightarrow> xml list" where
  "by_tag t (Elem n cs) =
     concat (map (\<lambda>c. (case c of Elem m ds \<Rightarrow> if m = t then [c] else [] | Text s \<Rightarrow> []) @ by_tag t c) cs)"
| "by_tag t (Text s) = []"

fun get_node_text :: "xml \<Rightarrow> string" where
  "get_node_text (Elem n cs) =
     (case filter (\<lambda>c. case c of Text s \<Rightarrow> True | Elem m ds \<Rightarrow> False) cs of
        Text s # _ \<Rightarrow> s | _ \<Rightarrow> ''None'')"
| "get_node_text (Text s) = ''None''"

text \<open>\<^verbatim>\<open>get_node_text(node.getElementsByTagName(tag)[0])\<close>.\<close>

definition field :: "xml \<Rightarrow> string \<Rightarrow> string res" where
  "field node t = (case by_tag t node of [] \<Rightarrow> Inl IndexError | x # _ \<Rightarrow> Inr (get_node_text x))"

definition has_fields :: "xml \<Rightarrow> string list \<Rightarrow> bool" where
  "has_fields node ts \<longleftrightarrow> (\<forall>t\<in>set ts. by_tag t node \<noteq> [])"

definition detail_tags :: "string list" where
  "detail_tags = [''Message'', ''Condition'', ''Actual'', ''Limit'', ''File'', ''Line'']"

text \<open>\<open>emit\<close> maps a writer over the nodes and joins what they write.\<close>

definition emit :: "('b \<Rightarrow> 'a list res) \<Rightarrow> 'b list \<Rightarrow> 'a list res" where
  "emit f xs = rbind (rmap f xs) (\<lambda>ys. Inr (concat ys))"

subsection \<open>The text report\<close>

definition details_text :: "xml \<Rightarrow> string list res" where
  "details_text d =
     rbind (field d ''Message'') (\<lambda>m. rbind (field d ''Condition'') (\<lambda>c. rbind (field d ''Actual'') (\<lambda>a.
     rbind (field d ''Limit'') (\<lambda>l. rbind (field d ''File'') (\<lambda>f. rbind (field d ''Line'') (\<lambda>n.
     Inr [''    Details:\<newline>'', ''      Message:   '' @ m @ ''\<newline>'', ''      Condition: '' @ c @ ''\<newline>'',
          ''      Actual:    '' @ a @ ''\<newline>'', ''      Limit:     '' @ l @ ''\<newline>'',
          ''      File:      '' @ f @ ''\<newline>'', ''      Line:      '' @ n @ ''\<newline>'']))))))"

definition case_text :: "xml \<Rightarrow> string list res" where
  "case_text c =
     rbind (field c ''CaseResult'') (\<lambda>r. rbind (field c ''CaseName'') (\<lambda>n. rbind (field c ''CaseTime'') (\<lambda>t.
     rbind (if r = ''FAIL'' then emit details_text (by_tag ''FailureDetails'' c) else Inr []) (\<lambda>ds.
     Inr ((''  '' @ r @ '': Test Case \"'' @ n @ ''\" ('' @ t @ '')\<newline>'') # ds)))))"

definition suite_text :: "xml \<Rightarrow> string list res" where
  "suite_text s =
     rbind (field s ''SuiteResult'') (\<lambda>r. rbind (field s ''SuiteName'') (\<lambda>n. rbind (field s ''SuiteTime'') (\<lambda>t.
     rbind (if r = ''CRASH'' then Inr [] else emit case_text (by_tag ''TestCase'' s)) (\<lambda>cs.
     Inr ((r @ '': Test Suite \"'' @ n @ ''\" ('' @ t @ '')\<newline>'') # cs)))))"

definition example_text :: "xml \<Rightarrow> string list res" where
  "example_text e =
     rbind (field e ''Result'') (\<lambda>r. rbind (field e ''Name'') (\<lambda>n. rbind (field e ''ElapsedTime'') (\<lambda>t.
     Inr [r @ '': Example \"'' @ n @ ''\" ('' @ t @ '')\<newline>''])))"

definition translate_to_text :: "xml \<Rightarrow> string list res" where
  "translate_to_text doc =
     rbind (emit suite_text (by_tag ''TestSuite'' doc)) (\<lambda>ss.
     rbind (emit example_text (by_tag ''Example'' doc)) (\<lambda>es. Inr (ss @ es)))"

subsection \<open>The HTML report\<close>

datatype tok = Open string string | Close string | Txt string

fun tok_str :: "tok \<Rightarrow> string" where
  "tok_str (Open t a) = ''<'' @ t @ a @ ''>''"
| "tok_str (Close t) = ''</'' @ t @ ''>''"
| "tok_str (Txt s) = s"

definition html_str :: "tok list \<Rightarrow> string" where
  "html_str ts = concat (map tok_str ts)"

abbreviation nl :: tok where "nl \<equiv> Txt ''\<newline>''"

definition green :: string where "green = '' style=\"color:green\"''"
definition orange :: string where "orange = '' style=\"color:#ff6600\"''"
definition red :: string where "red = '' style=\"color:red\"''"

definition elem :: "string \<Rightarrow> string \<Rightarrow> tok list \<Rightarrow> tok list" where
  "elem t a body = [Open t a] @ body @ [Close t]"

definition line :: "string \<Rightarrow> string \<Rightarrow> string \<Rightarrow> tok list" where
  "line t a s = elem t a [Txt s] @ [nl]"

text \<open>The row of a failure ends in a second \<^verbatim>\<open></td>\<close>, as in the code.\<close>

definition details_html :: "string \<Rightarrow> string \<Rightarrow> string \<Rightarrow> bool \<Rightarrow> xml \<Rightarrow> tok list res" where
  "details_html result name time first_row d =
     rbind (field d ''Message'') (\<lambda>m. rbind (field d ''Condition'') (\<lambda>c. rbind (field d ''Actual'') (\<lambda>a.
     rbind (field d ''Limit'') (\<lambda>l. rbind (field d ''File'') (\<lambda>f. rbind (field d ''Line'') (\<lambda>n.
     Inr ([Open ''tr'' [], nl]
       @ (if first_row then line ''td'' red result @ line ''td'' [] name @ line ''td'' [] time
          else line ''td'' [] [] @ line ''td'' [] [] @ line ''td'' [] [])
       @ [Open ''td'' []]
       @ elem ''b'' [] [Txt ''Message: ''] @ [Txt (m @ '', '')]
       @ elem ''b'' [] [Txt ''Condition: ''] @ [Txt (c @ '', '')]
       @ elem ''b'' [] [Txt ''Actual: ''] @ [Txt (a @ '', '')]
       @ elem ''b'' [] [Txt ''Limit: ''] @ [Txt (l @ '', '')]
       @ elem ''b'' [] [Txt ''File: ''] @ [Txt (f @ '', '')]
       @ elem ''b'' [] [Txt ''Line: ''] @ [Txt n]
       @ [Close ''td'', nl]
       @ [Close ''td'', nl])))))))"

fun details_rows :: "string \<Rightarrow> string \<Rightarrow> string \<Rightarrow> bool \<Rightarrow> xml list \<Rightarrow> tok list res" where
  "details_rows result name time first_row [] = Inr []"
| "details_rows result name time first_row (d # ds) =
     rbind (details_html result name time first_row d) (\<lambda>row.
     rbind (details_rows result name time False ds) (\<lambda>rows. Inr (row @ rows)))"

definition case_html :: "xml \<Rightarrow> tok list res" where
  "case_html c =
     rbind (field c ''CaseName'') (\<lambda>name. rbind (field c ''CaseResult'') (\<lambda>result.
     rbind (field c ''CaseTime'') (\<lambda>time.
     if result = ''FAIL'' then details_rows result name time True (by_tag ''FailureDetails'' c)
     else Inr ([Open ''tr'' [], nl] @ line ''td'' green result @ line ''td'' [] name @ line ''td'' [] time
               @ line ''td'' [] [] @ [Close ''tr'', nl]))))"

definition suite_head :: "string \<Rightarrow> string \<Rightarrow> string \<Rightarrow> tok list" where
  "suite_head name result time =
     line ''h3'' (if result = ''PASS'' then green else if result = ''SKIP'' then orange else red)
       (result @ '': '' @ name @ '' ('' @ time @ '')'')
     @ [Open ''table'' '' border=\"1\"'', nl] @ line ''th'' [] '' Result ''
     @ (if result \<in> {''CRASH'', ''SKIP'', ''VALGR''}
        then [Open ''tr'' [], nl] @ line ''td'' (if result = ''SKIP'' then orange else red) result
             @ [Close ''tr'', nl, Close ''table'', nl]
        else line ''th'' [] ''Test Case Name'' @ line ''th'' [] '' Time ''
             @ (if result = ''FAIL'' then line ''th'' [] ''Failure Details'' else []))"

definition suite_html :: "xml \<Rightarrow> tok list res" where
  "suite_html s =
     rbind (field s ''SuiteName'') (\<lambda>name. rbind (field s ''SuiteResult'') (\<lambda>result.
     rbind (field s ''SuiteTime'') (\<lambda>time.
     if result \<in> {''CRASH'', ''SKIP'', ''VALGR''} then Inr (suite_head name result time)
     else rbind (emit case_html (by_tag ''TestCase'' s)) (\<lambda>cs.
       Inr (suite_head name result time @ cs @ [Close ''table'', nl])))))"

text \<open>The cell of a skipped example is closed with \<^verbatim>\<open></fd>\<close>, as in the code.\<close>

definition example_html :: "xml \<Rightarrow> tok list res" where
  "example_html e =
     rbind (field e ''Result'') (\<lambda>result. rbind (field e ''Name'') (\<lambda>name. rbind (field e ''ElapsedTime'') (\<lambda>time.
     Inr ([Open ''tr'' [], nl]
       @ (if result = ''PASS'' then line ''td'' green result
          else if result = ''SKIP'' then [Open ''td'' orange, Txt result, Close ''fd'', nl]
          else line ''td'' red result)
       @ line ''td'' [] name @ line ''td'' [] time @ [Close ''tr'', nl]))))"

definition html_page :: "tok list \<Rightarrow> tok list \<Rightarrow> tok list" where
  "html_page suites examples =
     [Open ''html'' [], nl, Open ''body'' [], nl]
     @ elem ''center'' [] (elem ''h1'' [] [Txt ''ns-3 Test Results'']) @ [nl]
     @ line ''h2'' [] ''Test Suites'' @ suites
     @ line ''h2'' [] ''Examples'' @ [Open ''table'' '' border=\"1\"'', nl]
     @ line ''th'' [] '' Result '' @ line ''th'' [] ''Example Name'' @ line ''th'' [] ''Elapsed Time''
     @ examples @ [Close ''table'', nl, Close ''body'', nl, Close ''html'', nl]"

definition translate_to_html :: "xml \<Rightarrow> tok list res" where
  "translate_to_html doc =
     rbind (emit suite_html (by_tag ''TestSuite'' doc)) (\<lambda>ss.
     rbind (emit example_html (by_tag ''Example'' doc)) (\<lambda>es. Inr (html_page ss es)))"

subsection \<open>Nesting of the HTML report\<close>

text \<open>A reader of tags with the stack of open elements.\<close>

fun nest :: "tok list \<Rightarrow> string list \<Rightarrow> string list option" where
  "nest [] st = Some st"
| "nest (Open t a # ts) st = nest ts (t # st)"
| "nest (Close t # ts) st = (case st of [] \<Rightarrow> None | u # us \<Rightarrow> if u = t then nest ts us else None)"
| "nest (Txt s # ts) st = nest ts st"

lemma nest_append: "nest (xs @ ys) st = Option.bind (nest xs st) (nest ys)"
  by (induction xs st rule: nest.induct) (auto split: list.splits)

text \<open>A piece that leaves the stack alone, or that breaks the nesting on any stack.\<close>

definition tidy :: "tok list \<Rightarrow> bool \<Rightarrow> bool" where
  "tidy xs ok \<longleftrightarrow> (\<forall>st. nest xs st = (if ok then Some st else None))"

named_theorems tidy_intros \<open>how tidy pieces compose\<close>

lemma tidy_append: "tidy xs a \<Longrightarrow> tidy ys b \<Longrightarrow> tidy (xs @ ys) (a \<and> b)"
  by (simp add: tidy_def nest_append)

lemma tidy_append_True [tidy_intros]: "tidy xs True \<Longrightarrow> tidy ys b \<Longrightarrow> tidy (xs @ ys) b"
  using tidy_append by fastforce

lemma tidy_Nil [tidy_intros]: "tidy [] True"
  by (simp add: tidy_def)

lemma tidy_Txt [tidy_intros]: "tidy xs a \<Longrightarrow> tidy (Txt s # xs) a"
  by (simp add: tidy_def)

lemma tidy_elem [tidy_intros]: "tidy body a \<Longrightarrow> tidy (elem t s body) a"
  by (simp add: tidy_def elem_def nest_append)

lemma tidy_line [tidy_intros]: "tidy (line t s v) True"
  by (simp add: tidy_def line_def elem_def)

lemma tidy_wrap: "tidy xs a \<Longrightarrow> tidy (Open t s # xs @ Close t # ys) a" if "tidy ys True"
  using that by (simp add: tidy_def nest_append)

lemma tidy_emit:
  assumes "emit f xs = Inr ys" and "\<And>x y. x \<in> set xs \<Longrightarrow> f x = Inr y \<Longrightarrow> tidy y (g x)"
  shows "tidy ys (list_all g xs)"
  using assms
proof (induction xs arbitrary: ys)
  case (Cons x xs)
  from Cons.prems(1) obtain ws where "rmap f (x # xs) = Inr ws" "ys = concat ws"
    by (auto simp: emit_def simp del: rmap.simps)
  then obtain y zs where y: "f x = Inr y" and zs: "rmap f xs = Inr zs" and ys: "ys = y @ concat zs"
    by (auto simp del: rmap.simps)
  have "tidy (concat zs) (list_all g xs)" using Cons zs by (simp add: emit_def)
  with tidy_append [OF Cons.prems(2) [OF _ y]] show ?case by (simp add: ys)
qed (simp add: emit_def tidy_Nil)

definition clean_case :: "xml \<Rightarrow> bool" where
  "clean_case c \<longleftrightarrow> field c ''CaseResult'' \<noteq> Inr ''FAIL'' \<or> by_tag ''FailureDetails'' c = []"

definition clean_suite :: "xml \<Rightarrow> bool" where
  "clean_suite s \<longleftrightarrow> field s ''SuiteResult'' \<in> {Inr ''CRASH'', Inr ''SKIP'', Inr ''VALGR''} \<or>
     list_all clean_case (by_tag ''TestCase'' s)"

definition clean_example :: "xml \<Rightarrow> bool" where
  "clean_example e \<longleftrightarrow> field e ''Result'' \<noteq> Inr ''SKIP''"

lemma details_broken: "details_html r n t first d = Inr ts \<Longrightarrow> tidy ts False"
  by (auto simp: details_html_def tidy_def line_def elem_def)

lemma details_rows_tidy: "details_rows r n t first ds = Inr ts \<Longrightarrow> tidy ts (ds = [])"
proof (cases ds)
  case (Cons d es)
  assume "details_rows r n t first ds = Inr ts"
  with Cons obtain row rows where "details_html r n t first d = Inr row" "ts = row @ rows" by auto
  with details_broken Cons show ?thesis by (fastforce simp: tidy_def nest_append)
qed (simp add: tidy_Nil)

lemma row_tidy: "tidy ([Open ''tr'' [], nl] @ xs @ [Close ''tr'', nl]) a" if "tidy xs a"
  using that by (simp add: tidy_def nest_append)

lemma case_tidy:
  assumes "case_html c = Inr ts"
  shows "tidy ts (clean_case c)"
proof -
  from assms obtain n r t where f: "field c ''CaseResult'' = Inr r"
    and ts: "(if r = ''FAIL'' then details_rows r n t True (by_tag ''FailureDetails'' c)
      else Inr ([Open ''tr'' [], nl] @ line ''td'' green r @ line ''td'' [] n @ line ''td'' [] t @ line ''td'' [] []
             @ [Close ''tr'', nl])) = Inr ts"
    unfolding case_html_def rbind_Inr_iff by blast
  show ?thesis
  proof (cases "r = ''FAIL''")
    case True
    with ts details_rows_tidy [of r n t True _ ts] have "tidy ts (by_tag ''FailureDetails'' c = [])" by simp
    with True f show ?thesis by (simp add: clean_case_def)
  next
    case False
    with f have "clean_case c" by (simp add: clean_case_def)
    moreover have "tidy (line ''td'' green r @ line ''td'' [] n @ line ''td'' [] t @ line ''td'' [] []) True"
      by (intro tidy_intros)
    moreover have "ts = [Open ''tr'' [], nl] @ (line ''td'' green r @ line ''td'' [] n @ line ''td'' [] t @ line ''td'' [] [])
             @ [Close ''tr'', nl]" using ts False by simp
    ultimately show ?thesis using row_tidy [of "line ''td'' green r @ line ''td'' [] n @ line ''td'' [] t @ line ''td'' [] []" True] by simp
  qed
qed

lemma suite_tidy:
  assumes "suite_html s = Inr ts"
  shows "tidy ts (clean_suite s)"
proof -
  from assms obtain n r t where f: "field s ''SuiteResult'' = Inr r"
    and ts: "(if r \<in> {''CRASH'', ''SKIP'', ''VALGR''} then Inr (suite_head n r t)
      else rbind (emit case_html (by_tag ''TestCase'' s)) (\<lambda>cs. Inr (suite_head n r t @ cs @ [Close ''table'', nl])))
      = Inr ts"
    unfolding suite_html_def rbind_Inr_iff by blast
  show ?thesis
  proof (cases "r \<in> {''CRASH'', ''SKIP'', ''VALGR''}")
    case True
    with f have "clean_suite s" by (auto simp: clean_suite_def)
    moreover have "tidy (suite_head n r t) True"
      using True by (simp add: suite_head_def tidy_def line_def elem_def)
    ultimately show ?thesis using ts True by simp
  next
    case False
    with ts obtain cs where cs: "emit case_html (by_tag ''TestCase'' s) = Inr cs"
      and t2: "ts = suite_head n r t @ cs @ [Close ''table'', nl]" by auto
    have "tidy cs (list_all clean_case (by_tag ''TestCase'' s))" using tidy_emit [OF cs] case_tidy by blast
    moreover have "clean_suite s = list_all clean_case (by_tag ''TestCase'' s)"
      using False f by (auto simp: clean_suite_def)
    ultimately show ?thesis using False unfolding t2
      by (simp add: suite_head_def tidy_def line_def elem_def nest_append)
  qed
qed

lemma example_tidy:
  assumes "example_html e = Inr ts"
  shows "tidy ts (clean_example e)"
  using assms by (auto simp: example_html_def clean_example_def tidy_def line_def elem_def)

subsection \<open>The nesting of the text that is written\<close>

text \<open>
  What a reader of the file sees is the text of the tokens, in which the texts of the results
  stand as they are, without escaping. \<open>read_tags\<close> reads that text: a tag goes from \<open><\<close> to
  the next \<open>>\<close>, its name ends at the first blank.
\<close>

function read_tags :: "string \<Rightarrow> string list \<Rightarrow> string list option" where
  "read_tags [] st = Some st"
| "read_tags (c # s) st =
     (if c \<noteq> CHR ''<'' then read_tags s st
      else case dropWhile (\<lambda>d. d \<noteq> CHR ''>'') s of
          [] \<Rightarrow> None
        | _ # rest \<Rightarrow> let tag = takeWhile (\<lambda>d. d \<noteq> CHR ''>'') s in
            if starts_with tag ''/'' then
              (case st of [] \<Rightarrow> None | u # us \<Rightarrow> if u = tl tag then read_tags rest us else None)
            else read_tags rest (takeWhile (\<lambda>d. d \<noteq> CHR '' '') tag # st))"
  by pat_completeness auto
termination
proof (relation "measure (\<lambda>(s, st). length s)", simp_all)
  fix s d and rest :: string
  assume "dropWhile (\<lambda>d. d \<noteq> CHR ''>'') s = d # rest"
  with length_dropWhile_le [of "\<lambda>d. d \<noteq> CHR ''>''" s] show "length rest < Suc (length s)" by simp
  from this show "length rest < Suc (length s)" .
qed

definition plain :: "string \<Rightarrow> bool" where
  "plain s \<longleftrightarrow> CHR ''<'' \<notin> set s"

definition tag_name :: "string \<Rightarrow> bool" where
  "tag_name t \<longleftrightarrow> \<not> starts_with t ''/'' \<and> CHR '' '' \<notin> set t \<and> CHR ''>'' \<notin> set t"

fun plain_tok :: "tok \<Rightarrow> bool" where
  "plain_tok (Open t a) \<longleftrightarrow> tag_name t \<and> CHR ''>'' \<notin> set a \<and> (a = [] \<or> t \<noteq> [] \<and> hd a = CHR '' '')"
| "plain_tok (Close t) \<longleftrightarrow> tag_name t"
| "plain_tok (Txt s) \<longleftrightarrow> plain s"

lemma read_plain: "plain s \<Longrightarrow> read_tags (s @ r) st = read_tags r st"
  by (induction s) (auto simp: plain_def)

lemma until_close:
  "CHR ''>'' \<notin> set t \<Longrightarrow> takeWhile (\<lambda>d. d \<noteq> CHR ''>'') (t @ CHR ''>'' # r) = t"
  "CHR ''>'' \<notin> set t \<Longrightarrow> dropWhile (\<lambda>d. d \<noteq> CHR ''>'') (t @ CHR ''>'' # r) = CHR ''>'' # r"
  by (induction t) auto

lemma tag_of_open:
  assumes "tag_name t" and "a = [] \<or> t \<noteq> [] \<and> hd a = CHR '' ''"
  shows "\<not> starts_with (t @ a) ''/''" "takeWhile (\<lambda>d. d \<noteq> CHR '' '') (t @ a) = t"
proof -
  have "takeWhile (\<lambda>d. d \<noteq> CHR '' '') (t @ a) = t @ takeWhile (\<lambda>d. d \<noteq> CHR '' '') a"
    using assms(1) by (intro takeWhile_append2) (auto simp: tag_name_def)
  with assms(2) show "takeWhile (\<lambda>d. d \<noteq> CHR '' '') (t @ a) = t" by (cases a) auto
  show "\<not> starts_with (t @ a) ''/''" using assms by (cases t) (auto simp: tag_name_def starts_with_def)
qed

lemma read_html: "list_all plain_tok ts \<Longrightarrow> read_tags (html_str ts) st = nest ts st"
proof (induction ts st rule: nest.induct)
  case (2 t a ts st)
  then have "CHR ''>'' \<notin> set (t @ a)" by (simp add: tag_name_def)
  note u = until_close [OF this, of "html_str ts"]
  from 2 have "tag_name t" "a = [] \<or> t \<noteq> [] \<and> hd a = CHR '' ''" by simp_all
  note o = tag_of_open [OF this]
  have "html_str (Open t a # ts) = CHR ''<'' # (t @ a) @ CHR ''>'' # html_str ts" by (simp add: html_str_def)
  with u o 2 show ?case by (simp add: Let_def del: append_assoc)
next
  case (3 t ts st)
  then have "CHR ''>'' \<notin> set (CHR ''/'' # t)" by (simp add: tag_name_def)
  note u = until_close [OF this, of "html_str ts"]
  have "html_str (Close t # ts) = CHR ''<'' # (CHR ''/'' # t) @ CHR ''>'' # html_str ts" by (simp add: html_str_def)
  with u 3 show ?case by (simp add: Let_def starts_with_def split: list.splits del: append_Cons)
next
  case (4 s ts st)
  then show ?case using read_plain [of s "html_str ts"] by (simp add: html_str_def)
qed (simp add: html_str_def)

text \<open>No text of the results has a \<open><\<close>.\<close>

fun plain_doc :: "xml \<Rightarrow> bool" where
  "plain_doc (Elem n cs) \<longleftrightarrow> list_all plain_doc cs"
| "plain_doc (Text s) \<longleftrightarrow> plain s"

lemma plain_by_tag: "plain_doc d \<Longrightarrow> list_all plain_doc (by_tag t d)"
proof (induction t d rule: by_tag.induct)
  case (1 t n cs)
  then show ?case by (auto simp: list_all_iff split: xml.splits if_splits)
qed simp

lemma plain_node_text: "plain_doc d \<Longrightarrow> plain (get_node_text d)"
proof (cases d)
  case (Elem n cs)
  assume "plain_doc d"
  with Elem have c: "\<forall>c\<in>set cs. plain_doc c" by (simp add: list_all_iff)
  show ?thesis
  proof (cases "filter (\<lambda>c. case c of Text s \<Rightarrow> True | Elem m ds \<Rightarrow> False) cs")
    case (Cons x xs)
    then have "x \<in> set (filter (\<lambda>c. case c of Text s \<Rightarrow> True | Elem m ds \<Rightarrow> False) cs)" by simp
    then have x: "x \<in> set cs" "case x of Text s \<Rightarrow> True | Elem m ds \<Rightarrow> False" by (simp_all only: set_filter mem_Collect_eq)
    from x(2) obtain v where v: "x = Text v" by (cases rule: xml.exhaust [of x]) simp_all
    with c x(1) have "plain v" by fastforce
    then show ?thesis by (simp only: Elem get_node_text.simps Cons v list.case xml.case)
  qed (simp add: Elem plain_def)
qed (simp add: plain_def)

lemma plain_field: "field d t = Inr s \<Longrightarrow> plain_doc d \<Longrightarrow> plain s"
  using plain_by_tag [of d t] plain_node_text by (auto simp: field_def split: list.splits)

lemma plain_emit:
  assumes "emit f xs = Inr ys" and "list_all plain_doc xs" and "\<And>x y. plain_doc x \<Longrightarrow> f x = Inr y \<Longrightarrow> list_all plain_tok y"
  shows "list_all plain_tok ys"
proof -
  have "rmap f xs = Inr zs \<Longrightarrow> list_all plain_tok (concat zs)" for zs
    using assms(2) by (induction xs arbitrary: zs) (auto intro: assms(3) split: sum.splits)
  with assms(1) show ?thesis by (auto simp: emit_def)
qed

lemmas plain_html = line_def elem_def plain_def tag_name_def starts_with_def green_def orange_def red_def

lemma plain_details:
  assumes "plain_doc d" and "plain r" and "plain n" and "plain t" and "details_html r n t first d = Inr ts"
  shows "list_all plain_tok ts"
proof -
  from assms(5) obtain m c a l f k where e: "field d ''Message'' = Inr m" "field d ''Condition'' = Inr c"
    "field d ''Actual'' = Inr a" "field d ''Limit'' = Inr l" "field d ''File'' = Inr f" "field d ''Line'' = Inr k"
    by (auto simp: details_html_def)
  note p = e [THEN plain_field, OF assms(1)]
  have c: "plain (s @ '', '')" if "plain s" for s using that by (simp add: plain_def)
  have b: "plain ''Message: ''" "plain ''Condition: ''" "plain ''Actual: ''" "plain ''Limit: ''" "plain ''File: ''"
    "plain ''Line: ''" "plain ''\<newline>''" "plain []" by (simp_all add: plain_def)
  have g: "tag_name ''tr''" "tag_name ''td''" "tag_name ''b''" "CHR ''>'' \<notin> set red" "hd red = CHR '' ''"
    by (simp_all add: tag_name_def starts_with_def red_def)
  show ?thesis using assms(5) unfolding details_html_def e rbind_simps
    by (auto simp: line_def elem_def b g p c assms(2-4))
qed

lemma plain_rows:
  assumes "plain r" and "plain n" and "plain t"
  shows "list_all plain_doc ds \<Longrightarrow> details_rows r n t first ds = Inr ts \<Longrightarrow> list_all plain_tok ts"
  by (induction ds arbitrary: first ts) (auto dest: plain_details [OF _ assms])

lemma plain_case: "plain_doc c \<Longrightarrow> case_html c = Inr ts \<Longrightarrow> list_all plain_tok ts"
proof -
  assume d: "plain_doc c" and h: "case_html c = Inr ts"
  then obtain n r t where e: "field c ''CaseName'' = Inr n" "field c ''CaseResult'' = Inr r" "field c ''CaseTime'' = Inr t"
    by (auto simp: case_html_def)
  note p = e [THEN plain_field, OF d]
  have g: "tag_name ''tr''" "tag_name ''td''" "CHR ''>'' \<notin> set green" "hd green = CHR '' ''" "plain ''\<newline>''" "plain []"
    by (simp_all add: tag_name_def starts_with_def green_def plain_def)
  show ?thesis
  proof (cases "r = ''FAIL''")
    case True
    with h have "details_rows r n t True (by_tag ''FailureDetails'' c) = Inr ts" unfolding case_html_def e by simp
    from plain_rows [OF p(2,1,3) plain_by_tag [OF d] this] show ?thesis .
  next
    case False
    with h show ?thesis unfolding case_html_def e by (auto simp: line_def elem_def g p)
  qed
qed

lemma plain_head:
  assumes "plain n" and "plain r" and "plain t"
  shows "list_all plain_tok (suite_head n r t)"
  using assms by (auto simp: suite_head_def plain_html)

lemma plain_suite:
  assumes "plain_doc d" and "suite_html d = Inr ts"
  shows "list_all plain_tok ts"
proof -
  from assms(2) obtain n r t where f: "field d ''SuiteName'' = Inr n" "field d ''SuiteResult'' = Inr r" "field d ''SuiteTime'' = Inr t"
    and ts: "(if r \<in> {''CRASH'', ''SKIP'', ''VALGR''} then Inr (suite_head n r t)
     else rbind (emit case_html (by_tag ''TestCase'' d)) (\<lambda>cs. Inr (suite_head n r t @ cs @ [Close ''table'', nl]))) = Inr ts"
    unfolding suite_html_def rbind_Inr_iff by blast
  have h: "list_all plain_tok (suite_head n r t)" using f plain_field [OF _ assms(1)] plain_head by blast
  have "list_all plain_tok cs" if "emit case_html (by_tag ''TestCase'' d) = Inr cs" for cs
    using plain_emit [OF that plain_by_tag [OF assms(1)]] plain_case by blast
  with h ts show ?thesis by (auto simp: plain_html split: if_splits)
qed

lemma plain_example: "plain_doc e \<Longrightarrow> example_html e = Inr ts \<Longrightarrow> list_all plain_tok ts"
  using plain_field [of e] by (fastforce simp: example_html_def plain_html split: if_splits)

lemma plain_report:
  assumes "plain_doc doc" and "translate_to_html doc = Inr ts"
  shows "list_all plain_tok ts"
proof -
  from assms(2) obtain ss es where "emit suite_html (by_tag ''TestSuite'' doc) = Inr ss"
    and "emit example_html (by_tag ''Example'' doc) = Inr es" and ts: "ts = html_page ss es"
    by (auto simp: translate_to_html_def)
  then have "list_all plain_tok ss" "list_all plain_tok es"
    using plain_emit plain_by_tag [OF assms(1)] plain_suite plain_example by blast+
  then show ?thesis by (simp add: ts html_page_def plain_html)
qed

lemma html_tokens_nest:
  assumes "translate_to_html doc = Inr ts"
  shows "nest ts [] = (if list_all clean_suite (by_tag ''TestSuite'' doc) \<and>
           list_all clean_example (by_tag ''Example'' doc) then Some [] else None)"
proof -
  from assms obtain ss es where ss: "emit suite_html (by_tag ''TestSuite'' doc) = Inr ss"
    and es: "emit example_html (by_tag ''Example'' doc) = Inr es" and ts: "ts = html_page ss es"
    by (auto simp: translate_to_html_def)
  have 1: "tidy ss (list_all clean_suite (by_tag ''TestSuite'' doc))" using tidy_emit [OF ss] suite_tidy by blast
  have 2: "tidy es (list_all clean_example (by_tag ''Example'' doc))" using tidy_emit [OF es] example_tidy by blast
  from 1 2 show ?thesis
    by (simp add: ts html_page_def tidy_def line_def elem_def nest_append)
qed

text \<open>
  Property C27: if no text of the results has a \<open><\<close>, the elements of the written HTML
  text are nested and closed properly exactly if no reported test case failed with details
  and no example was skipped.
\<close>

theorem html_nesting:
  assumes "plain_doc doc" and "translate_to_html doc = Inr ts"
  shows "read_tags (html_str ts) [] = (if list_all clean_suite (by_tag ''TestSuite'' doc) \<and>
           list_all clean_example (by_tag ''Example'' doc) then Some [] else None)"
  unfolding read_html [OF plain_report [OF assms]] by (rule html_tokens_nest [OF assms(2)])

definition demo_doc :: xml where
  "demo_doc = Elem ''TestResults'' [Elem ''Example''
     [Elem ''Name'' [Text ''a''], Elem ''Result'' [Text ''SKIP''], Elem ''ElapsedTime'' [Text ''0.000'']]]"

lemma html_nesting_witness: "\<exists>ts. translate_to_html demo_doc = Inr ts \<and> read_tags (html_str ts) [] = None"
proof -
  have t: "plain_doc demo_doc" "\<not> list_all clean_example (by_tag ''Example'' demo_doc)" by code_simp+
  have "\<not> isl (translate_to_html demo_doc)" by code_simp
  then obtain ts where ts: "translate_to_html demo_doc = Inr ts" by (cases "translate_to_html demo_doc") auto
  from html_nesting [OF t(1) this] t(2) ts show ?thesis by auto
qed

text \<open>
  The texts are written without escaping, so markup in a name breaks the nesting of a
  report in which everything passed; \<^verbatim>\<open>src/core/object.cc\<close> has a test case of this name.
\<close>

definition markup_doc :: xml where
  "markup_doc = Elem ''TestResults'' [Elem ''TestSuite''
     [Elem ''SuiteName'' [Text ''object''], Elem ''SuiteResult'' [Text ''PASS''], Elem ''SuiteTime'' [Text ''t''],
      Elem ''TestCase'' [Elem ''CaseName'' [Text ''Check CreateObject<Type> template function''],
        Elem ''CaseResult'' [Text ''PASS''], Elem ''CaseTime'' [Text ''t'']]]]"

lemma markup_breaks_report:
  "list_all clean_suite (by_tag ''TestSuite'' markup_doc) \<and>
   (case translate_to_html markup_doc of Inr ts \<Rightarrow> read_tags (html_str ts) [] = None | Inl e \<Rightarrow> False)"
  by code_simp

subsection \<open>When the translations fail\<close>

definition text_case_ok :: "xml \<Rightarrow> bool" where
  "text_case_ok c \<longleftrightarrow> has_fields c [''CaseResult'', ''CaseName'', ''CaseTime''] \<and>
     (field c ''CaseResult'' = Inr ''FAIL'' \<longrightarrow> list_all (\<lambda>d. has_fields d detail_tags) (by_tag ''FailureDetails'' c))"

definition text_suite_ok :: "string list \<Rightarrow> xml \<Rightarrow> bool" where
  "text_suite_ok silent s \<longleftrightarrow> has_fields s [''SuiteResult'', ''SuiteName'', ''SuiteTime''] \<and>
     (field s ''SuiteResult'' \<in> Inr ` set silent \<or> list_all text_case_ok (by_tag ''TestCase'' s))"

definition doc_ok :: "string list \<Rightarrow> xml \<Rightarrow> bool" where
  "doc_ok silent doc \<longleftrightarrow> list_all (text_suite_ok silent) (by_tag ''TestSuite'' doc) \<and>
     list_all (\<lambda>e. has_fields e [''Result'', ''Name'', ''ElapsedTime'']) (by_tag ''Example'' doc)"

lemma field_cases: "field n t = (if by_tag t n = [] then Inl IndexError else Inr (get_node_text (hd (by_tag t n))))"
  by (cases "by_tag t n") (simp_all add: field_def)

definition succeeds :: "'a res \<Rightarrow> bool \<Rightarrow> bool" where
  "succeeds m ok \<longleftrightarrow> (if ok then \<exists>x. m = Inr x else m = Inl IndexError)"

lemma succeeds_bind: "succeeds m a \<Longrightarrow> (\<And>x. m = Inr x \<Longrightarrow> succeeds (f x) b) \<Longrightarrow> succeeds (rbind m f) (a \<and> b)"
  by (auto simp: succeeds_def split: if_splits)

lemma succeeds_Inr: "succeeds (Inr x) True"
  by (simp add: succeeds_def)

lemma succeeds_field: "succeeds (field n t) (by_tag t n \<noteq> [])"
  by (simp add: succeeds_def field_cases)

lemma succeeds_emit: "(\<And>x. x \<in> set xs \<Longrightarrow> succeeds (f x) (g x)) \<Longrightarrow> succeeds (emit f xs) (list_all g xs)"
proof (induction xs)
  case (Cons x xs)
  then have "succeeds (f x) (g x)" "succeeds (emit f xs) (list_all g xs)" by auto
  then show ?case by (cases "f x"; cases "rmap f xs") (auto simp: succeeds_def emit_def split: if_splits)
qed (simp add: succeeds_def emit_def)

lemma rbind_field: "rbind (field n t) f = (if by_tag t n = [] then Inl IndexError else f (get_node_text (hd (by_tag t n))))"
  by (simp add: field_cases)

lemma details_succeed:
  "succeeds (details_text d) (has_fields d detail_tags)"
  "succeeds (details_html r n t first d) (has_fields d detail_tags)"
  by (simp_all add: details_text_def details_html_def rbind_field succeeds_def has_fields_def detail_tags_def)

lemma rows_succeed: "succeeds (details_rows r n t first ds) (list_all (\<lambda>d. has_fields d detail_tags) ds)"
proof (induction ds arbitrary: first)
  case (Cons d ds)
  have "succeeds (rbind (details_html r n t first d) (\<lambda>row.
     rbind (details_rows r n t False ds) (\<lambda>rows. Inr (row @ rows))))
     (has_fields d detail_tags \<and> list_all (\<lambda>d. has_fields d detail_tags) ds \<and> True)"
    by (intro succeeds_bind details_succeed Cons.IH succeeds_Inr)
  then show ?case by simp
qed (simp add: succeeds_def)

lemma case_succeeds: "succeeds (case_text c) (text_case_ok c)" "succeeds (case_html c) (text_case_ok c)"
proof -
  let ?d = "list_all (\<lambda>d. has_fields d detail_tags) (by_tag ''FailureDetails'' c)"
  have e: "succeeds (emit details_text (by_tag ''FailureDetails'' c)) ?d"
    by (rule succeeds_emit) (rule details_succeed)
  have h: "succeeds (details_rows r n t True (by_tag ''FailureDetails'' c)) ?d" for r n t
    by (rule rows_succeed)
  show "succeeds (case_text c) (text_case_ok c)"
    using e by (auto simp: case_text_def rbind_field text_case_ok_def has_fields_def succeeds_def field_cases)
  show "succeeds (case_html c) (text_case_ok c)"
    using h by (auto simp: case_html_def rbind_field text_case_ok_def has_fields_def succeeds_def field_cases)
qed

lemma suite_succeeds:
  "succeeds (suite_text s) (text_suite_ok [''CRASH''] s)"
  "succeeds (suite_html s) (text_suite_ok [''CRASH'', ''SKIP'', ''VALGR''] s)"
proof -
  have t: "succeeds (emit case_text (by_tag ''TestCase'' s)) (list_all text_case_ok (by_tag ''TestCase'' s))"
    by (rule succeeds_emit) (rule case_succeeds)
  have h: "succeeds (emit case_html (by_tag ''TestCase'' s)) (list_all text_case_ok (by_tag ''TestCase'' s))"
    by (rule succeeds_emit) (rule case_succeeds)
  show "succeeds (suite_text s) (text_suite_ok [''CRASH''] s)"
    using t by (auto simp: suite_text_def rbind_field text_suite_ok_def has_fields_def succeeds_def field_cases)
  show "succeeds (suite_html s) (text_suite_ok [''CRASH'', ''SKIP'', ''VALGR''] s)"
    using h by (auto simp: suite_html_def rbind_field text_suite_ok_def has_fields_def succeeds_def field_cases)
qed

lemma example_succeeds:
  "succeeds (example_text e) (has_fields e [''Result'', ''Name'', ''ElapsedTime''])"
  "succeeds (example_html e) (has_fields e [''Result'', ''Name'', ''ElapsedTime''])"
  by (simp_all add: example_text_def example_html_def rbind_field succeeds_def has_fields_def)

text \<open>
  Further property: a translation returns a report exactly if every node it reads has the
  elements it names, and raises IndexError otherwise. The text report reads the cases of
  all suites but crashed ones, the HTML report leaves out those of skipped and
  valgrind-rejected suites too.
\<close>

theorem reports_complete:
  "(if doc_ok [''CRASH''] doc then \<exists>out. translate_to_text doc = Inr out else translate_to_text doc = Inl IndexError) \<and>
   (if doc_ok [''CRASH'', ''SKIP'', ''VALGR''] doc then \<exists>out. translate_to_html doc = Inr out
    else translate_to_html doc = Inl IndexError)"
proof -
  have e: "succeeds (emit f (by_tag ''Example'' doc)) (list_all (\<lambda>e. has_fields e [''Result'', ''Name'', ''ElapsedTime''])
      (by_tag ''Example'' doc))" if "f = example_text" for f
    unfolding that by (rule succeeds_emit) (rule example_succeeds)
  have eh: "succeeds (emit f (by_tag ''Example'' doc)) (list_all (\<lambda>e. has_fields e [''Result'', ''Name'', ''ElapsedTime''])
      (by_tag ''Example'' doc))" if "f = example_html" for f
    unfolding that by (rule succeeds_emit) (rule example_succeeds)
  have s: "succeeds (emit suite_text (by_tag ''TestSuite'' doc)) (list_all (text_suite_ok [''CRASH'']) (by_tag ''TestSuite'' doc))"
    by (rule succeeds_emit) (rule suite_succeeds)
  have h: "succeeds (emit suite_html (by_tag ''TestSuite'' doc))
      (list_all (text_suite_ok [''CRASH'', ''SKIP'', ''VALGR'']) (by_tag ''TestSuite'' doc))"
    by (rule succeeds_emit) (rule suite_succeeds)
  have "succeeds (translate_to_text doc) (doc_ok [''CRASH''] doc)"
    unfolding translate_to_text_def doc_ok_def
    using succeeds_bind [OF s succeeds_bind [OF e [OF refl] succeeds_Inr]] by simp
  moreover have "succeeds (translate_to_html doc) (doc_ok [''CRASH'', ''SKIP'', ''VALGR''] doc)"
    unfolding translate_to_html_def doc_ok_def
    using succeeds_bind [OF h succeeds_bind [OF eh [OF refl] succeeds_Inr]] by simp
  ultimately show ?thesis unfolding succeeds_def by blast
qed

text \<open>The entries \<^verbatim>\<open>run_tests\<close> writes itself, as the parser reads them, are complete.\<close>

definition stub_tree :: "job \<Rightarrow> string \<Rightarrow> xml" where
  "stub_tree j status = Elem ''TestSuite'' [Elem ''SuiteName'' [Text (display_name j)],
     Elem ''SuiteResult'' [Text status], Elem ''SuiteTime'' [Text ''Execution times not available'']]"

lemma stub_tree_ok: "text_suite_ok silent (stub_tree j status)"
  by (simp add: text_suite_ok_def stub_tree_def has_fields_def)

end
