(* ===== verification/TestRun.thy ===== *)
theory TestRun
  imports TestReport
begin

section \<open>The test runner, part four: \<^verbatim>\<open>run_tests\<close> as a whole\<close>

text \<open>
  The parts put together in the order of \<^verbatim>\<open>run_tests\<close>: waf, configuration, the options that
  end early, the dispatch, the worker threads, the results, the reports and the exit code.
  What the threads do is a parameter, constrained by the step relation of the workers.
\<close>

text \<open>
  The surroundings: waf's return code, Python's \<^verbatim>\<open>exec\<close>, the files, child processes, the
  number of processors, and the XML parser.
\<close>

record world =
  platform :: string
  waf_run :: "string \<Rightarrow> int res"
  exec_line :: exec_fun
  cache_files :: readlines
  popen_fun :: popen
  where_run :: place
  sysconf :: "int option"
  sysctl :: "proc_result res"
  tmp_files :: "string \<Rightarrow> string res"
  parse_xml :: "string list \<Rightarrow> xml res"

text \<open>
  The output queue as the main thread sees it: for a way to run jobs, a number of workers
  and the queued jobs, the collected jobs, or \<open>None\<close> if the run never ends.
\<close>

type_synonym schedule = "(job \<Rightarrow> job res) \<Rightarrow> nat \<Rightarrow> job list \<Rightarrow> job list option"

datatype ending = Returned "int option" | Hangs

record files_written =
  html_out :: "string option"
  text_out :: "string option"
  xml_out :: "string option"

definition prepare :: "world \<Rightarrow> options \<Rightarrow> environ \<Rightarrow> (globals \<times> build_config \<times> environ) res" where
  "prepare w opt env =
     rbind (read_waf_active_variant (exec_line w) (cache_files w) (verbose opt) initial_globals) (\<lambda>g.
     rbind (read_waf_config (exec_line w) (cache_files w) (verbose opt) g) (\<lambda>g.
     rbind (make_paths (platform w) g env) (\<lambda>env.
     rbind (get_str g ''NS3_BUILDDIR'') (\<lambda>b.
     rbind (get_str g ''NS3_ACTIVE_VARIANT'') (\<lambda>v.
     Inr (g, \<lparr>builddir = b, variant = v\<rparr>, AList.update ''NS_LOG'' [] env))))))"

definition write_reports :: "world \<Rightarrow> options \<Rightarrow> report \<Rightarrow> files_written res" where
  "write_reports w opt r =
     rbind (if html_file opt = [] then Inr None
            else rbind (parse_xml w (xml_results r)) (\<lambda>d.
                 rbind (translate_to_html d) (\<lambda>ts. Inr (Some (html_str ts))))) (\<lambda>h.
     rbind (if text_file opt = [] then Inr None
            else rbind (parse_xml w (xml_results r)) (\<lambda>d.
                 rbind (translate_to_text d) (\<lambda>ts. Inr (Some (concat ts))))) (\<lambda>t.
     Inr \<lparr>html_out = h, text_out = t,
          xml_out = (if xml_file opt = [] then None else Some (concat (xml_results r)))\<rparr>))"

text \<open>The lists the test runner prints with \<^verbatim>\<open>--kinds\<close> and \<^verbatim>\<open>--list\<close>.\<close>

definition print_lists :: "popen \<Rightarrow> build_config \<Rightarrow> string \<Rightarrow> options \<Rightarrow> string list res" where
  "print_lists popen cfg cwd opt =
     rbind (if kinds opt then rbind (run_runner popen cfg cwd ''--kinds'') (\<lambda>r. Inr [pr_stdout r]) else Inr []) (\<lambda>ks.
     rbind (if list_tests opt then rbind (run_runner popen cfg cwd ''--list'') (\<lambda>r. Inr [pr_stdout r]) else Inr []) (\<lambda>ls.
     Inr (ks @ ls)))"

definition run_tests :: "world \<Rightarrow> schedule \<Rightarrow> options \<Rightarrow> environ \<Rightarrow> ending res" where
  "run_tests w sched opt env =
     rbind (case waf_cmd (platform w) opt of None \<Rightarrow> Inr 0 | Some c \<Rightarrow> waf_run w c) (\<lambda>waf.
     if waf \<noteq> 0 then Inr (Returned (Some waf))
     else
        rbind (prepare w opt env) (\<lambda>(g, cfg, env).
        rbind (print_lists (popen_fun w) cfg (cur_dir (where_run w)) opt) (\<lambda>_.
        if kinds opt \<or> list_tests opt then Inr (Returned None)
        else
          rbind (suite_list (popen_fun w) cfg (where_run w) opt) (\<lambda>suites.
          rbind (count_processors (platform w) (sysconf w) (sysctl w)) (\<lambda>n.
          rbind (queue_jobs g (where_run w) opt suites) (\<lambda>jobs.
          case sched (run_job (popen_fun w) cfg (valgrind opt)) (nat n) jobs of
            None \<Rightarrow> Inr Hangs
          | Some fin \<Rightarrow>
              rbind (collect_results (tmp_files w) (length jobs) fin) (\<lambda>r.
              rbind (write_reports w opt r) (\<lambda>_.
              Inr (Returned (Some (exit_code (length jobs) r)))))))))))"

text \<open>
  A possible schedule gives what the step relation admits: the collected jobs of a run that
  has joined the workers, or \<open>None\<close> for a run that comes to a state in which no thread can
  move and the main thread still waits.
\<close>

definition possible :: "schedule \<Rightarrow> bool" where
  "possible sched \<longleftrightarrow> (\<forall>run n jobs. list_all (\<lambda>j. \<not> is_break j) jobs \<longrightarrow>
     (case sched run n jobs of
        Some fin \<Rightarrow> \<exists>p. (any_step run)\<^sup>*\<^sup>* (pool_start jobs n) p \<and> joined p \<and> fin = collected p
      | None \<Rightarrow> \<exists>p. (any_step run)\<^sup>*\<^sup>* (pool_start jobs n) p \<and> \<not> joined p \<and> (\<nexists>q. pool_step run p q)))"

lemma possible_Some:
  assumes "possible sched" and "list_all (\<lambda>j. \<not> is_break j) jobs" and "sched run n jobs = Some fin"
  obtains p where "(any_step run)\<^sup>*\<^sup>* (pool_start jobs n) p" "joined p" "fin = collected p"
  using assms(1) [unfolded possible_def, rule_format, OF assms(2), of run n] assms(3) by auto

lemma possible_None:
  assumes "possible sched" and "list_all (\<lambda>j. \<not> is_break j) jobs" and "sched run n jobs = None"
  shows "n = 0 \<and> jobs \<noteq> [] \<or> (\<exists>j\<in>set jobs. raises run j)"
proof -
  from assms(1) [unfolded possible_def, rule_format, OF assms(2), of run n] assms(3)
  obtain p where p: "(any_step run)\<^sup>*\<^sup>* (pool_start jobs n) p" "\<not> joined p" "\<nexists>q. pool_step run p q" by auto
  from stuck_raises [OF pl.steps_inv [OF inv_start [OF assms(2)] p(1)] _ p(2)] p(3) show ?thesis by blast
qed

lemma dispatch_no_breaks: "dispatch popen cfg g pl opt = Inr jobs \<Longrightarrow> list_all (\<lambda>j. \<not> is_break j) jobs"
  by (auto simp: dispatch_def queue_jobs_def suite_jobs_def list_all_iff dest!: example_jobs_eq pyexample_jobs_eq)

text \<open>A schedule never drops or invents results.\<close>

lemma possible_outcomes:
  assumes "possible sched" and "list_all (\<lambda>j. \<not> is_break j) jobs" and "sched run n jobs = Some fin"
  shows "\<exists>ds b. mset ds = mset jobs \<and> list_all2 (outcome run b) ds fin"
proof -
  from assms obtain p where p: "(any_step run)\<^sup>*\<^sup>* (pool_start jobs n) p" "joined p" "fin = collected p"
    by (rule possible_Some)
  from joined_complete(1) [OF pl.steps_inv [OF inv_start [OF assms(2)] p(1)] p(2)] p(3) show ?thesis by blast
qed

text \<open>A job is good if it is skipped or its process starts and counts as 0.\<close>

definition good :: "popen \<Rightarrow> build_config \<Rightarrow> bool \<Rightarrow> job \<Rightarrow> bool" where
  "good popen cfg vg j \<longleftrightarrow> is_skip j \<or> (\<exists>r. run_job popen cfg vg j = Inr r \<and> returncode r = 0)"

lemma run_job_keeps: "run_job popen cfg vg j = Inr r \<Longrightarrow> is_skip r = is_skip j"
  by (auto simp: run_job_def)

lemma good_outcomes:
  assumes "list_all2 (outcome (run_job popen cfg vg) b) ds rs"
    and "list_all (\<lambda>j. \<not> is_break j \<and> (is_skip j \<or> returncode j = 0)) rs"
  shows "list_all (good popen cfg vg) ds"
  using assms
proof (induction rule: list_all2_induct)
  case (Cons d ds r rs)
  then have "\<not> is_break r" "is_skip r \<or> returncode r = 0" by simp_all
  with Cons(1) have "work (run_job popen cfg vg) d = Inr r" by (auto simp: outcome_def)
  with \<open>is_skip r \<or> returncode r = 0\<close> have "good popen cfg vg d"
    using run_job_keeps [of popen cfg vg d r] by (auto simp: work_def good_def split: if_splits)
  with Cons show ?case by simp
qed simp

definition waf_done :: "world \<Rightarrow> options \<Rightarrow> bool" where
  "waf_done w opt \<longleftrightarrow> (case waf_cmd (platform w) opt of None \<Rightarrow> True | Some c \<Rightarrow> waf_run w c = Inr 0)"

lemma run_tests_cases:
  assumes "run_tests w sched opt env = Inr e" and "e = Hangs \<or> e = Returned (Some 0)"
  obtains g cfg env' n jobs where "waf_done w opt" "prepare w opt env = Inr (g, cfg, env')"
    "count_processors (platform w) (sysconf w) (sysctl w) = Inr n"
    "dispatch (popen_fun w) cfg g (where_run w) opt = Inr jobs"
    "case sched (run_job (popen_fun w) cfg (valgrind opt)) (nat n) jobs of
          None \<Rightarrow> e = Hangs
        | Some fin \<Rightarrow> \<exists>r. collect_results (tmp_files w) (length jobs) fin = Inr r \<and>
            e = Returned (Some (exit_code (length jobs) r))"
proof -
  from assms have wd: "waf_done w opt"
    by (auto simp: run_tests_def waf_done_def split: if_splits option.splits)
  from assms obtain g cfg env' where p: "prepare w opt env = Inr (g, cfg, env')"
    by (auto simp: run_tests_def split: if_splits)
  from assms p have k: "\<not> (kinds opt \<or> list_tests opt)"
    by (auto simp: run_tests_def split: if_splits)
  from assms p k obtain suites n jobs where "suite_list (popen_fun w) cfg (where_run w) opt = Inr suites"
    and c: "count_processors (platform w) (sysconf w) (sysctl w) = Inr n"
    and "queue_jobs g (where_run w) opt suites = Inr jobs"
    and r: "(case sched (run_job (popen_fun w) cfg (valgrind opt)) (nat n) jobs of
            None \<Rightarrow> Inr Hangs
          | Some fin \<Rightarrow>
              rbind (collect_results (tmp_files w) (length jobs) fin) (\<lambda>r.
              rbind (write_reports w opt r) (\<lambda>_.
              Inr (Returned (Some (exit_code (length jobs) r)))))) = Inr e"
    by (auto simp: run_tests_def split: if_splits)
  then have d: "dispatch (popen_fun w) cfg g (where_run w) opt = Inr jobs" by (simp add: dispatch_def)
  from r show ?thesis by (intro that [OF wd p c d]) (auto split: option.splits)
qed

text \<open>
  Property C1: with any possible schedule, exit code 0 means that waf succeeded, a
  configuration was read, and every job dispatched for it was skipped or its process could
  be started and counted as 0; the run hangs only if jobs are queued and the number of
  processors is not positive, or a queued job is not skipped and starting its process raises
  in a worker.
\<close>

theorem run_tests_outcome:
  assumes "possible sched" and "run_tests w sched opt env = Inr e"
  shows "(e = Returned (Some 0) \<longrightarrow> waf_done w opt \<and> (\<exists>g cfg env' jobs. prepare w opt env = Inr (g, cfg, env') \<and>
      dispatch (popen_fun w) cfg g (where_run w) opt = Inr jobs \<and>
      list_all (good (popen_fun w) cfg (valgrind opt)) jobs)) \<and>
    (e = Hangs \<longrightarrow> (\<exists>g cfg env' n jobs. prepare w opt env = Inr (g, cfg, env') \<and>
      count_processors (platform w) (sysconf w) (sysctl w) = Inr n \<and>
      dispatch (popen_fun w) cfg g (where_run w) opt = Inr jobs \<and>
      (n \<le> 0 \<and> jobs \<noteq> [] \<or> (\<exists>j\<in>set jobs. \<not> is_skip j \<and> isl (run_job (popen_fun w) cfg (valgrind opt) j)))))"
proof (intro conjI impI)
  show "waf_done w opt" if e: "e = Returned (Some 0)"
    by (rule run_tests_cases [OF assms(2)]) (use e in simp_all)
  show "\<exists>g cfg env' jobs. prepare w opt env = Inr (g, cfg, env') \<and>
      dispatch (popen_fun w) cfg g (where_run w) opt = Inr jobs \<and>
      list_all (good (popen_fun w) cfg (valgrind opt)) jobs" if e: "e = Returned (Some 0)"
  proof -
    from e have ec: "e = Hangs \<or> e = Returned (Some 0)" by simp
    obtain g cfg env' n jobs where "waf_done w opt" and i: "prepare w opt env = Inr (g, cfg, env')"
      and "count_processors (platform w) (sysconf w) (sysctl w) = Inr n" and j:
      "dispatch (popen_fun w) cfg g (where_run w) opt = Inr jobs"
      and c: "case sched (run_job (popen_fun w) cfg (valgrind opt)) (nat n) jobs of
          None \<Rightarrow> e = Hangs
        | Some fin \<Rightarrow> \<exists>r. collect_results (tmp_files w) (length jobs) fin = Inr r \<and>
            e = Returned (Some (exit_code (length jobs) r))"
      by (rule run_tests_cases [OF assms(2) ec])
    from c e obtain fin r where f: "sched (run_job (popen_fun w) cfg (valgrind opt)) (nat n) jobs = Some fin"
      "collect_results (tmp_files w) (length jobs) fin = Inr r" "exit_code (length jobs) r = 0"
      by (auto split: option.splits)
    from possible_outcomes [OF assms(1) dispatch_no_breaks [OF j] f(1)] obtain ds b where
      ds: "mset ds = mset jobs" "list_all2 (outcome (run_job (popen_fun w) cfg (valgrind opt)) b) ds fin" by blast
    have "length fin = length jobs" using ds list_all2_lengthD by (metis size_mset)
    with f(3) collect_counts [OF f(2)] all_good [of fin]
    have "list_all (\<lambda>j. \<not> is_break j \<and> (is_skip j \<or> returncode j = 0)) fin"
      by (simp add: exit_code_def split: if_splits)
    from good_outcomes [OF ds(2) this] ds(1)
    have "list_all (good (popen_fun w) cfg (valgrind opt)) jobs"
      unfolding list_all_iff using mset_eq_setD by metis
    with i j show ?thesis by blast
  qed
  show "\<exists>g cfg env' n jobs. prepare w opt env = Inr (g, cfg, env') \<and>
      count_processors (platform w) (sysconf w) (sysctl w) = Inr n \<and>
      dispatch (popen_fun w) cfg g (where_run w) opt = Inr jobs \<and>
      (n \<le> 0 \<and> jobs \<noteq> [] \<or> (\<exists>j\<in>set jobs. \<not> is_skip j \<and> isl (run_job (popen_fun w) cfg (valgrind opt) j)))"
    if e: "e = Hangs"
  proof -
    from e have ec: "e = Hangs \<or> e = Returned (Some 0)" by simp
    obtain g cfg env' n jobs where "waf_done w opt" and i: "prepare w opt env = Inr (g, cfg, env')"
      "count_processors (platform w) (sysconf w) (sysctl w) = Inr n"
      "dispatch (popen_fun w) cfg g (where_run w) opt = Inr jobs"
      and c: "case sched (run_job (popen_fun w) cfg (valgrind opt)) (nat n) jobs of
          None \<Rightarrow> e = Hangs
        | Some fin \<Rightarrow> \<exists>r. collect_results (tmp_files w) (length jobs) fin = Inr r \<and>
            e = Returned (Some (exit_code (length jobs) r))"
      by (rule run_tests_cases [OF assms(2) ec])
    from c e have f: "sched (run_job (popen_fun w) cfg (valgrind opt)) (nat n) jobs = None"
      by (auto split: option.splits)
    from possible_None [OF assms(1) dispatch_no_breaks [OF i(3)] f]
    have "n \<le> 0 \<and> jobs \<noteq> [] \<or> (\<exists>j\<in>set jobs. \<not> is_skip j \<and> isl (run_job (popen_fun w) cfg (valgrind opt) j))"
      by (auto simp: raises_def)
    with i show ?thesis by blast
  qed
qed

text \<open>
  A possible schedule: the jobs are run in order, and the run hangs if one of them raises or
  if there is no worker for them.
\<close>

definition in_order :: schedule where
  "in_order run n jobs =
     (if n = 0 \<and> jobs \<noteq> [] \<or> list_ex (\<lambda>j. isl (work run j)) jobs then None
      else Some (map (projr \<circ> work run) jobs))"

lemma in_order_possible: "possible in_order"
proof -
  have mono: "(any_step run)\<^sup>*\<^sup>* p q" if "(pool_step run)\<^sup>*\<^sup>* p q" for run p q
    using that by (rule rtranclp_mono [THEN predicate2D, rotated]) (auto simp: any_step_def)
  have "case in_order run n jobs of
        Some fin \<Rightarrow> \<exists>p. (any_step run)\<^sup>*\<^sup>* (pool_start jobs n) p \<and> joined p \<and> fin = collected p
      | None \<Rightarrow> \<exists>p. (any_step run)\<^sup>*\<^sup>* (pool_start jobs n) p \<and> \<not> joined p \<and> (\<nexists>q. pool_step run p q)"
    if j: "list_all (\<lambda>j. \<not> is_break j) jobs" for run n jobs
  proof (cases "n = 0 \<and> jobs \<noteq> [] \<or> list_ex (\<lambda>j. isl (work run j)) jobs")
    case False
    then have "map (work run) jobs = map Inr (map (projr \<circ> work run) jobs)" by (auto simp: list_ex_iff)
    from in_order_run [OF j _ this, of n] False obtain p where "(any_step run)\<^sup>*\<^sup>* (pool_start jobs n) p" "joined p"
      "collected p = map (projr \<circ> work run) jobs" by auto
    with False show ?thesis by (auto simp: in_order_def)
  next
    case True
    then have "\<exists>p. (pool_step run)\<^sup>*\<^sup>* (pool_start jobs n) p \<and> \<not> joined p \<and> (\<nexists>q. pool_step run p q)"
      using no_worker_hangs [of jobs run] unstartable_job_hangs [OF j, of _ run n]
      by (auto simp: list_ex_iff raises_work)
    with True mono show ?thesis by (auto simp: in_order_def)
  qed
  then show ?thesis by (simp add: possible_def)
qed

definition demo_world :: world where
  "demo_world = \<lparr>platform = ''linux2'', waf_run = (\<lambda>c. Inr 0), exec_line = demo_exec, cache_files = demo_lines,
     popen_fun = (\<lambda>c d. Inr \<lparr>pr_code = 0, pr_stdout = [], pr_stderr = [], pr_time = 0\<rparr>),
     where_run = \<lparr>cur_dir = ''/'', out_dir = ''o''\<rparr>, sysconf = Some 2,
     sysctl = Inl OSError, tmp_files = (\<lambda>f. Inl IOError),
     parse_xml = (\<lambda>t. Inl (PyException ''ExpatError''))\<rparr>"

lemma demo_world_run:
  "run_tests demo_world in_order (default_options\<lparr>example := ''udp/udp-echo''\<rparr>) [] = Inr (Returned (Some 0))"
  by code_simp

lemma run_tests_outcome_witness:
  "\<exists>g cfg env' jobs. run_tests demo_world in_order (default_options\<lparr>example := ''udp/udp-echo''\<rparr>) [] = Inr (Returned (Some 0)) \<and>
     dispatch (popen_fun demo_world) cfg g (where_run demo_world) (default_options\<lparr>example := ''udp/udp-echo''\<rparr>) = Inr jobs \<and>
     prepare demo_world (default_options\<lparr>example := ''udp/udp-echo''\<rparr>) [] = Inr (g, cfg, env') \<and>
     list_all (good (popen_fun demo_world) cfg False) jobs"
proof -
  have "valgrind (default_options\<lparr>example := ''udp/udp-echo''\<rparr>) = False" by (simp add: default_options_def)
  with demo_world_run run_tests_outcome [OF in_order_possible demo_world_run] show ?thesis by auto
qed

end
