(* ===== verification/FlowData.thy ===== *)
theory FlowData
  imports Prelude
begin

section \<open>Flow logs and wireless allocations: \<^verbatim>\<open>scratch/*.py\<close>\<close>

text \<open>
  The scripts of the data-centre experiment: the generators of flow logs and of the
  allocations of wireless links, the simulation commands, the conversion of allocations to
  matrices, the layout of the racks and the choice of the best allocation. Random choices,
  \<^verbatim>\<open>glob\<close>, numpy's arrays and floating-point numbers are parameters. A file is the list of
  its lines with their newlines.
\<close>

subsection \<open>Writing flows\<close>

definition nl :: char where "nl = CHR ''\<newline>''"

definition chomp_nl :: "string \<Rightarrow> string" where
  "chomp_nl s = hd (split_on nl s)"

text \<open>All ordered pairs of different racks, in the order of \<^verbatim>\<open>itertools.permutations\<close>.\<close>

definition all_pairs :: "nat \<Rightarrow> (nat \<times> nat) list" where
  "all_pairs n = concat (map (\<lambda>i. map (\<lambda>j. (i, j)) (filter (\<lambda>j. j \<noteq> i) [0..<n])) [0..<n])"

definition flow_words :: "nat \<Rightarrow> nat \<Rightarrow> nat \<Rightarrow> string list" where
  "flow_words time_step from_node to_node =
     [nat_str time_step, nat_str from_node, nat_str to_node, ''Tcp'', nat_str 100000000,
      nat_str 1 @ ''Gbps'']"

definition create_flow_entry :: "nat \<Rightarrow> nat \<Rightarrow> nat \<Rightarrow> string" where
  "create_flow_entry time_step from_node to_node =
     join_with '' '' (flow_words time_step from_node to_node) @ [nl]"

text \<open>The flow log of one time step, for the indices \<^verbatim>\<open>numpy.random.choice\<close> draws.\<close>

definition flow_log :: "nat \<Rightarrow> nat list \<Rightarrow> string list res" where
  "flow_log num_tors flowidxs_to_use =
     rmap (\<lambda>idx. rbind (py_nth (all_pairs num_tors) (int idx)) (\<lambda>p.
       Inr (create_flow_entry 0 (fst p) (snd p)))) flowidxs_to_use"

text \<open>One allocation: the first three flows of a random permutation become wireless.\<close>

definition alloc_file :: "nat list \<Rightarrow> string list \<Rightarrow> string list" where
  "alloc_file permutation flow_lines =
     (let num_wireless = 3; wireless_allocations = take num_wireless permutation
      in map (\<lambda>(i, line). chomp_nl line @ '' '' @ nat_str (if i \<in> set wireless_allocations then 1 else 2) @ [nl])
           (List.enumerate 0 flow_lines))"

definition flow_files :: "nat \<Rightarrow> nat list \<Rightarrow> nat list list \<Rightarrow> (string list \<times> string list list) res" where
  "flow_files num_tors flowidxs_to_use permutations =
     rbind (flow_log num_tors flowidxs_to_use) (\<lambda>flows.
     Inr (flows, map (\<lambda>p. alloc_file p flows) permutations))"

text \<open>
  The older generator writes both files at once and marks the chosen flows with 2.
\<close>

definition create_alloc_entry :: "nat \<Rightarrow> nat \<Rightarrow> nat \<Rightarrow> nat \<Rightarrow> string" where
  "create_alloc_entry time_step from_node to_node link =
     join_with '' '' (flow_words time_step from_node to_node @ [nat_str link]) @ [nl]"

definition gen_data_alloc :: "nat \<Rightarrow> nat list \<Rightarrow> nat list \<Rightarrow> string list res" where
  "gen_data_alloc num_tors flowidxs_to_use chosen =
     rmap (\<lambda>(idx, flow). rbind (py_nth (all_pairs num_tors) (int flow)) (\<lambda>p.
       Inr (create_alloc_entry 0 (fst p) (snd p) ((if idx \<in> set chosen then 1 else 0) + 1))))
       (List.enumerate 0 flowidxs_to_use)"

subsection \<open>Reading flows\<close>

definition int_at :: "string list \<Rightarrow> int \<Rightarrow> int res" where
  "int_at data i = rbind (py_nth data i) py_int"

definition parseAllocFileLine :: "string \<Rightarrow> (int \<times> int \<times> int) res" where
  "parseAllocFileLine line =
     (let data = split_on (CHR '' '') line in
      rbind (int_at data 0) (\<lambda>ts. rbind (int_at data 1) (\<lambda>from_node. rbind (int_at data 2) (\<lambda>to_node.
      rbind (int_at data (-1)) (\<lambda>link_t. rbind (int_at data 4) (\<lambda>data_size.
      Inr (from_node, to_node, link_t)))))))"

definition parseFlowFileLine :: "string \<Rightarrow> (int \<times> int) res" where
  "parseFlowFileLine line =
     (let data = split_on (CHR '' '') line in
      rbind (int_at data 0) (\<lambda>ts. rbind (int_at data 1) (\<lambda>from_node. rbind (int_at data 2) (\<lambda>to_node.
      rbind (int_at data 4) (\<lambda>data_size. Inr (from_node, to_node))))))"

text \<open>
  The operations of numpy the conversion uses: a zero matrix, an assignment (which raises
  outside the matrix), and the reshaping to one column.
\<close>

record ('m, 'c) arrays =
  zeros :: "nat \<Rightarrow> 'm"
  put :: "'m \<Rightarrow> int \<Rightarrow> int \<Rightarrow> 'm res"
  to_column :: "'m \<Rightarrow> 'c"

definition alloc_step :: "('m, 'c) arrays \<Rightarrow> 'm \<times> 'm \<Rightarrow> string \<Rightarrow> ('m \<times> 'm) res" where
  "alloc_step np XY line =
     rbind (parseAllocFileLine line) (\<lambda>(from_node, to_node, link_t).
     rbind (put np (fst XY) from_node to_node) (\<lambda>X.
     rbind (if link_t = 1 then put np (snd XY) from_node to_node else Inr (snd XY)) (\<lambda>Y.
     Inr (X, Y))))"

definition convertAllocFileToXY :: "('m, 'c) arrays \<Rightarrow> nat \<Rightarrow> string list \<Rightarrow> ('m \<times> 'c) res" where
  "convertAllocFileToXY np num_tors lines =
     rbind (rfold (alloc_step np) (zeros np num_tors, zeros np num_tors) lines) (\<lambda>(X, Y).
     Inr (X, to_column np Y))"

text \<open>Without a file the array of matrices has one dimension, and asking for its second one raises.\<close>

definition parseAllFlowFiles :: "('m, 'c) arrays \<Rightarrow> nat \<Rightarrow> string list list \<Rightarrow> ('m list \<times> 'c list) res" where
  "parseAllFlowFiles np num_tors files =
     rbind (rmap (convertAllocFileToXY np num_tors) files) (\<lambda>XYs.
     if XYs = [] then Inl IndexError else Inr (map fst XYs, map snd XYs))"

subsection \<open>The layout of the racks\<close>

definition nodeToXY :: "int \<Rightarrow> int \<Rightarrow> int \<Rightarrow> int \<Rightarrow> (int \<times> int) res" where
  "nodeToXY idx racks_per_row x_spacing y_spacing =
     (if racks_per_row = 0 then Inl ZeroDivisionError
      else Inr (idx mod racks_per_row * x_spacing, idx div racks_per_row * y_spacing))"

definition calcDistance :: "int \<Rightarrow> int \<Rightarrow> int \<Rightarrow> int \<Rightarrow> int \<times> int" where
  "calcDistance from_x_pos from_y_pos to_x_pos to_y_pos = (to_x_pos - from_x_pos, to_y_pos - from_y_pos)"

text \<open>An arrow of the plot: start, distance, and whether it is drawn as a wireless link.\<close>

definition plot_arrow :: "int \<Rightarrow> int \<Rightarrow> int \<Rightarrow> string \<Rightarrow> ((int \<times> int) \<times> (int \<times> int) \<times> bool) res" where
  "plot_arrow racks_per_row x_spacing y_spacing line =
     rbind (parseAllocFileLine line) (\<lambda>(from_idx, to_idx, link_t).
     rbind (nodeToXY from_idx racks_per_row x_spacing y_spacing) (\<lambda>(fx, fy).
     rbind (nodeToXY to_idx racks_per_row x_spacing y_spacing) (\<lambda>(tx, ty).
     Inr ((fx, fy), calcDistance fx fy tx ty, link_t = 1))))"

subsection \<open>The best allocation\<close>

text \<open>
  Numbers are a parameter: \<open>to_float\<close> reads one, \<open>mean15\<close> is the sum divided by 15. A file
  is read line by line; \<^verbatim>\<open>readline\<close> returns the empty string at the end.
\<close>

definition read_line :: "string list \<Rightarrow> nat \<Rightarrow> string" where
  "read_line lines i = (if i < length lines then lines ! i else [])"

definition strip_char :: "char \<Rightarrow> string \<Rightarrow> string" where
  "strip_char c s = rev (dropWhile (\<lambda>d. d = c) (rev (dropWhile (\<lambda>d. d = c) s)))"

definition str_at :: "string list \<Rightarrow> int \<Rightarrow> string res" where
  "str_at xs i = py_nth xs i"

definition calcAllocValue :: "(string \<Rightarrow> 'f res) \<Rightarrow> ('f list \<Rightarrow> 'f) \<Rightarrow> string list option \<Rightarrow> ('f::zero) res" where
  "calcAllocValue to_float mean15 file =
     (case file of None \<Rightarrow> Inr 0
      | Some lines \<Rightarrow>
          let l1 = read_line lines 0 in
          rbind (if has_infix ''Sim:'' l1
                 then rbind (str_at (split_on (CHR '','') l1) 1) (\<lambda>w.
                      rbind (str_at (split_on (CHR '':'') w) 1) (\<lambda>v. rbind (to_float v) (\<lambda>_. Inr ())))
                 else Inr ()) (\<lambda>_.
          rbind (rmap (\<lambda>i.
              let all_data = split_on (CHR '' '') (read_line lines (i + 1)) in
              rbind (str_at all_data (-1)) (\<lambda>w. rbind (to_float (strip_char (CHR '']'') (strip_char nl w))) (\<lambda>tp.
              rbind (str_at all_data 1) to_float)))
            [0..<15]) (\<lambda>data_arr. Inr (mean15 data_arr))))"

definition best_of :: "(nat \<Rightarrow> ('f::{linorder,zero}) res) \<Rightarrow> ('f \<times> nat) res" where
  "best_of value =
     rfold (\<lambda>(max_val, max_val_idx) i. rbind (value i) (\<lambda>val.
       Inr (if val > max_val then (val, i) else (max_val, max_val_idx)))) (0, 0) [0..<15]"

text \<open>\<^verbatim>\<open>s.split(sep)\<close> for a separator of several characters.\<close>

function split_str :: "string \<Rightarrow> string \<Rightarrow> string list" where
  "split_str sep [] = [[]]"
| "split_str sep (c # cs) =
     (if starts_with (c # cs) sep then [] # split_str sep (drop (length sep - 1) cs)
      else (case split_str sep cs of [] \<Rightarrow> [[c]] | w # ws \<Rightarrow> (c # w) # ws))"
  by pat_completeness auto
termination by (relation "measure (length \<circ> snd)") auto

definition flow_id_str :: "string \<Rightarrow> string res" where
  "flow_id_str flow_file = rbind (str_at (split_str ''__'' flow_file) 1) (\<lambda>w. str_at (split_on (CHR ''.'') w) 0)"

definition getBestAllocs ::
  "(string \<Rightarrow> 'f res) \<Rightarrow> ('f list \<Rightarrow> 'f) \<Rightarrow> (string \<Rightarrow> string list option) \<Rightarrow> string \<Rightarrow> string
     \<Rightarrow> (('f::{linorder,zero}) \<times> nat) res" where
  "getBestAllocs to_float mean15 files results_dir flow_file =
     rbind (flow_id_str flow_file) (\<lambda>base.
     best_of (\<lambda>i. calcAllocValue to_float mean15
       (files (results_dir @ ''/'' @ base @ ''_'' @ nat_str i @ ''.txt''))))"

subsection \<open>The simulation commands\<close>

text \<open>
  \<open>glob\<close> lists the allocations of a flow log. The gain of the command line is parsed and
  then overwritten, as in the code.
\<close>

definition quote :: char where "quote = CHR 34"

definition flow_command :: "string \<Rightarrow> int \<Rightarrow> string \<Rightarrow> string res" where
  "flow_command results_base flow_log_id link_config =
     rbind (str_at (split_on (CHR ''_'') link_config) (-1)) (\<lambda>w.
     rbind (str_at (split_on (CHR ''.'') w) 0) (\<lambda>v.
     rbind (py_int v) (\<lambda>link_config_id.
     let output_fn = results_base @ ''/'' @ int_str flow_log_id @ ''_'' @ int_str link_config_id @ ''.txt'';
         pad = replicate 24 (CHR '' '')
     in Inr (''./waf --run '' @ [quote] @ ''flyway-data '' @ pad @ ''--topo=scratch/topo-search.dat ''
         @ pad @ ''--flow=scratch/'' @ link_config @ '' '' @ pad @ ''--outfile=scratch/'' @ output_fn @ '' ''
         @ pad @ ''--gain=25.000000'' @ [quote]))))"

definition run_flows :: "(string \<Rightarrow> string list) \<Rightarrow> string \<Rightarrow> string \<Rightarrow> string \<Rightarrow> string list res" where
  "run_flows glob flow_dir results_base gain =
     rbind (rmap (\<lambda>flow_log.
        rbind (flow_id_str flow_log) (\<lambda>s. rbind (py_int s) (\<lambda>flow_log_id.
        rmap (flow_command results_base flow_log_id)
          (glob (flow_dir @ ''/alloc__'' @ int_str flow_log_id @ ''_*'')))))
       (glob (flow_dir @ ''/flows*.dat''))) (\<lambda>cmds. Inr (concat cmds))"

subsection \<open>Flows are read back\<close>

lemma join_last: "ws \<noteq> [] \<Longrightarrow> join_with s ws @ x = join_with s (butlast ws @ [last ws @ x])"
  by (induction s ws rule: join_with.induct) auto

lemma nl_no_digit: "\<not> is_digit nl" "nl \<noteq> CHR ''-''"
  by (simp_all add: nl_def is_digit_def)

lemma space_no_digit: "\<not> is_digit (CHR '' '')"
  by (simp add: is_digit_def)

lemma flow_words_no_nl: "w \<in> set (flow_words a b c) \<Longrightarrow> nl \<notin> set w"
  using nat_str_no_sep [OF nl_no_digit(1)] by (auto simp: flow_words_def nl_def)

lemma set_join: "set (join_with s ws) \<subseteq> set s \<union> (\<Union>w\<in>set ws. set w)"
  by (induction s ws rule: join_with.induct) auto

lemma chomp_entry: "chomp_nl (create_flow_entry a b c) = join_with '' '' (flow_words a b c)"
proof -
  have "nl \<notin> set (join_with '' '' (flow_words a b c))"
    using set_join [of "'' ''" "flow_words a b c"] flow_words_no_nl by (fastforce simp: nl_def)
  from split_on_app [OF this, of "[]"] show ?thesis by (simp add: chomp_nl_def create_flow_entry_def)
qed

lemma alloc_line_eq:
  "chomp_nl (create_flow_entry a b c) @ CHR '' '' # nat_str l @ [nl] = create_alloc_entry a b c l"
  using join_snoc [of "flow_words a b c" "'' ''" "nat_str l"]
  by (simp add: chomp_entry create_alloc_entry_def) (simp add: flow_words_def)

lemma parse_alloc_entry: "parseAllocFileLine (create_alloc_entry a b c l) = Inr (int b, int c, int l)"
proof -
  let ?ws = "[nat_str a, nat_str b, nat_str c, ''Tcp'', nat_str 100000000, nat_str 1 @ ''Gbps'', nat_str l @ [nl]]"
  have e: "create_alloc_entry a b c l = join_with [CHR '' ''] ?ws"
    by (simp add: create_alloc_entry_def flow_words_def)
  have "\<forall>w\<in>set ?ws. CHR '' '' \<notin> set w"
    using nat_str_no_sep [OF space_no_digit] by (auto simp: nl_def)
  from split_join [OF _ this] have s: "split_on (CHR '' '') (create_alloc_entry a b c l) = ?ws"
    unfolding e by blast
  have "py_int (nat_str l @ [nl]) = Inr (int l)" using py_int_newline [of "nat_str l"] by (simp add: nl_def)
  then show ?thesis unfolding parseAllocFileLine_def s Let_def
    by (simp add: int_at_def py_nth_def py_index_def)
qed

definition pair_at :: "nat \<Rightarrow> nat \<Rightarrow> nat \<times> nat" where
  "pair_at n i = all_pairs n ! i"

lemma all_pairs_mem: "p \<in> set (all_pairs n) \<Longrightarrow> fst p < n \<and> snd p < n \<and> fst p \<noteq> snd p"
  by (auto simp: all_pairs_def)

lemma distinct_all_pairs: "distinct (all_pairs n)"
proof -
  have "distinct (concat (map (\<lambda>i. map (\<lambda>j. (i, j)) (filter (\<lambda>j. j \<noteq> i) [0..<n])) xs))" if "distinct xs" for xs
    using that by (induction xs) (auto simp: distinct_map inj_on_def)
  then show ?thesis by (simp add: all_pairs_def)
qed

lemma flow_log_eq:
  assumes "flow_log n idxs = Inr flows"
  shows "flows = map (\<lambda>i. create_flow_entry 0 (fst (pair_at n i)) (snd (pair_at n i))) idxs \<and>
    list_all (\<lambda>i. i < length (all_pairs n)) idxs"
  using assms
proof (induction idxs arbitrary: flows)
  case (Cons i idxs)
  then obtain fs p where "flow_log n idxs = Inr fs" "py_nth (all_pairs n) (int i) = Inr p"
    "flows = create_flow_entry 0 (fst p) (snd p) # fs"
    by (auto simp: flow_log_def simp del: rmap.simps py_nth_nat)
  with Cons.IH [of fs] show ?case by (auto simp: pair_at_def split: if_splits)
qed (simp add: flow_log_def)

definition links :: "nat list \<Rightarrow> nat \<Rightarrow> nat" where
  "links wireless i = (if i \<in> set wireless then 1 else 2)"

lemma enumerate_map: "List.enumerate k (map f xs) = map (\<lambda>(i, x). (i, f x)) (List.enumerate k xs)"
  by (induction xs arbitrary: k) auto

lemma map_enumerate_snd: "map (\<lambda>(k, i). h i) (List.enumerate n xs) = map h xs"
  by (induction xs arbitrary: n) auto

lemma map_enumerate_fst: "map (\<lambda>(k, i). h k) (List.enumerate n xs) = map h [n..<n + length xs]"
proof (induction xs arbitrary: n)
  case (Cons x xs)
  have "[n..<n + length (x # xs)] = n # [Suc n..<n + length (x # xs)]" by (rule upt_conv_Cons) simp
  with Cons show ?case by simp
qed simp

lemma alloc_file_entries:
  "alloc_file perm (map (\<lambda>i. create_flow_entry 0 (fst (g i)) (snd (g i))) idxs) =
     map (\<lambda>(k, i). create_alloc_entry 0 (fst (g i)) (snd (g i)) (links (take 3 perm) k)) (List.enumerate 0 idxs)"
  unfolding alloc_file_def Let_def enumerate_map map_map
  by (rule map_cong) (auto simp: alloc_line_eq links_def)

lemma parse_allocs:
  "rmap parseAllocFileLine (map (\<lambda>(k, i). create_alloc_entry 0 (fst (g i)) (snd (g i)) (h k)) kis) =
     Inr (map (\<lambda>(k, i). (int (fst (g i)), int (snd (g i)), int (h k))) kis)"
  by (induction kis) (auto simp: parse_alloc_entry)

lemma count_enumerate:
  assumes "distinct ws" and "set ws \<subseteq> {k..<k + length xs}"
  shows "length (filter (\<lambda>(i, x). i \<in> set ws) (List.enumerate k xs)) = length ws"
proof -
  have "length (filter (\<lambda>(i, x). i \<in> set ws) (List.enumerate k xs)) = length (filter (\<lambda>i. i \<in> set ws) (map fst (List.enumerate k xs)))"
    by (simp only: filter_map length_map comp_def case_prod_unfold)
  also have "\<dots> = card (set ws \<inter> {k..<k + length xs})"
    by (subst distinct_card [symmetric]) (auto intro: arg_cong [of _ _ card])
  also have "\<dots> = length ws" using assms by (simp add: Int_absorb2 distinct_card)
  finally show ?thesis .
qed

text \<open>
  Property C39: an allocation of a generated flow log, read back by the parser of
  the learning data, has the drawn flows in order, each between two different racks, and
  exactly three wireless links: the first three flows of the permutation.
\<close>

theorem allocation_correct:
  assumes "flow_log n idxs = Inr flows" and "distinct perm" and "set perm = {0..<length idxs}" and "3 \<le> length idxs"
  shows "\<exists>ps. rmap parseAllocFileLine (alloc_file perm flows) = Inr ps \<and>
    map (\<lambda>(f, t, l). (f, t)) ps = map (\<lambda>i. (int (fst (pair_at n i)), int (snd (pair_at n i)))) idxs \<and>
    list_all (\<lambda>(f, t, l). 0 \<le> f \<and> f < int n \<and> 0 \<le> t \<and> t < int n \<and> f \<noteq> t) ps \<and>
    map (\<lambda>(f, t, l). l = 1) ps = map (\<lambda>k. k \<in> set (take 3 perm)) [0..<length idxs] \<and>
    length (filter (\<lambda>(f, t, l). l = 1) ps) = 3"
proof -
  have f: "flows = map (\<lambda>i. create_flow_entry 0 (fst (pair_at n i)) (snd (pair_at n i))) idxs"
    and r: "list_all (\<lambda>i. i < length (all_pairs n)) idxs"
    using flow_log_eq [OF assms(1)] by auto
  let ?ps = "map (\<lambda>(k, i). (int (fst (pair_at n i)), int (snd (pair_at n i)), int (links (take 3 perm) k))) (List.enumerate 0 idxs)"
  have 1: "rmap parseAllocFileLine (alloc_file perm flows) = Inr ?ps"
    unfolding f alloc_file_entries parse_allocs ..
  have 2: "map (\<lambda>(f, t, l). (f, t)) ?ps = map (\<lambda>i. (int (fst (pair_at n i)), int (snd (pair_at n i)))) idxs"
    unfolding map_enumerate_snd [of _ 0 idxs, symmetric] by (simp add: case_prod_unfold)
  have 3: "list_all (\<lambda>(f, t, l). 0 \<le> f \<and> f < int n \<and> 0 \<le> t \<and> t < int n \<and> f \<noteq> t) ?ps"
    using r all_pairs_mem [OF nth_mem] by (fastforce simp: list_all_iff pair_at_def dest: in_set_enumerate_eq [THEN iffD1])
  have "length perm = length idxs" using assms(2,3) distinct_card [of perm] by simp
  with assms(4) have lw: "length (take 3 perm) = 3" by simp
  have sub: "set (take 3 perm) \<subseteq> {0..<0 + length idxs}" using assms(3) set_take_subset [of 3 perm] by auto
  have one: "int (links (take 3 perm) k) = 1 \<longleftrightarrow> k \<in> set (take 3 perm)" for k by (simp add: links_def)
  have 5: "length (filter (\<lambda>(f, t, l). l = 1) ?ps) = 3"
    using count_enumerate [OF distinct_take [OF assms(2)] sub] lw one
    by (simp add: filter_map comp_def case_prod_unfold)
  have 4: "map (\<lambda>(f, t, l). l = 1) ?ps = map (\<lambda>k. k \<in> set (take 3 perm)) [0..<length idxs]"
    using map_enumerate_fst [of "\<lambda>k. k \<in> set (take 3 perm)" 0 idxs] one by (simp add: case_prod_unfold comp_def)
  show ?thesis using 1 2 3 4 5 by blast
qed

lemma allocation_correct_witness:
  "\<exists>flows ps. flow_log 2 [0, 1, 0] = Inr flows \<and> rmap parseAllocFileLine (alloc_file [2, 0, 1] flows) = Inr ps \<and>
     length (filter (\<lambda>(f, t, l). l = 1) ps) = 3"
proof -
  have "all_pairs 2 = [(0, 1), (1, 0)]" by code_simp
  then have "\<not> isl (flow_log 2 [0, 1, 0])" by (simp add: flow_log_def py_nth_def py_index_def)
  then obtain flows where f: "flow_log 2 [0, 1, 0] = Inr flows" by (cases "flow_log 2 [0, 1, 0]") auto
  have "distinct [2, 0, 1 :: nat]" "set [2, 0, 1] = {0..<length [0, 1, 0 :: nat]}" "3 \<le> length [0, 1, 0 :: nat]"
    by auto
  from allocation_correct [OF f this] f show ?thesis by blast
qed

text \<open>
  The older generator adds 1 to a vector of zeros and ones, so the four flows it chooses
  for wireless links are written with 2, which the parser and the plot take as wired, and
  all others become wireless.
\<close>

lemma gen_data_swapped:
  assumes "gen_data_alloc n idxs chosen = Inr lines" and "distinct chosen" and "set chosen \<subseteq> {0..<length idxs}"
  shows "\<exists>ps. rmap parseAllocFileLine lines = Inr ps \<and>
    length (filter (\<lambda>(f, t, l). l = 1) ps) = length idxs - length chosen"
proof -
  have e: "rmap parseAllocFileLine ls = Inr (map (\<lambda>(k, i). (int (fst (pair_at n i)), int (snd (pair_at n i)),
        if k \<in> set chosen then 2 else 1)) kis)"
    if "rmap (\<lambda>(idx, flow). rbind (py_nth (all_pairs n) (int flow)) (\<lambda>p.
       Inr (create_alloc_entry 0 (fst p) (snd p) ((if idx \<in> set chosen then 1 else 0) + 1)))) kis = Inr ls" for kis ls
    using that
  proof (induction kis arbitrary: ls)
    case (Cons ki kis)
    obtain k i where ki: "ki = (k, i)" by (cases ki)
    from Cons.prems obtain ls' where l: "ls = create_alloc_entry 0 (fst (pair_at n i)) (snd (pair_at n i))
        ((if k \<in> set chosen then 1 else 0) + 1) # ls'"
      and r: "rmap (\<lambda>(idx, flow). rbind (py_nth (all_pairs n) (int flow)) (\<lambda>p.
       Inr (create_alloc_entry 0 (fst p) (snd p) ((if idx \<in> set chosen then 1 else 0) + 1)))) kis = Inr ls'"
      unfolding ki rmap_Inr_Cons by (auto simp: pair_at_def split: if_splits)
    show ?case unfolding l ki using Cons.IH [OF r] parse_alloc_entry [of 0 "fst (pair_at n i)" "snd (pair_at n i)" 2]
        parse_alloc_entry [of 0 "fst (pair_at n i)" "snd (pair_at n i)" 1]
      by (simp add: numeral_2_eq_2)
  qed simp
  let ?e = "List.enumerate 0 idxs"
  have "length (filter (\<lambda>(i, x). i \<in> set chosen) ?e) = length chosen"
    using count_enumerate [OF assms(2), of 0 idxs] assms(3) by simp
  moreover have "length (filter (\<lambda>(i, x). i \<in> set chosen) ?e) + length (filter (\<lambda>p. \<not> (case p of (i, x) \<Rightarrow> i \<in> set chosen)) ?e)
      = length ?e" by (rule sum_length_filter_compl)
  ultimately have "length (filter (\<lambda>p. \<not> (case p of (i, x) \<Rightarrow> i \<in> set chosen)) ?e) = length idxs - length chosen"
    by simp
  moreover have "filter (\<lambda>(f, t, l). l = 1) (map (\<lambda>(k, i). (int (fst (pair_at n i)), int (snd (pair_at n i)),
        if k \<in> set chosen then 2 else 1 :: int)) ?e) =
      map (\<lambda>(k, i). (int (fst (pair_at n i)), int (snd (pair_at n i)), if k \<in> set chosen then 2 else 1))
        (filter (\<lambda>p. \<not> (case p of (i, x) \<Rightarrow> i \<in> set chosen)) ?e)"
    by (simp add: filter_map comp_def case_prod_unfold)
  ultimately show ?thesis using e [OF assms(1) [unfolded gen_data_alloc_def]] by simp
qed

subsection \<open>Matrices\<close>

text \<open>
  What the conversion relies on: \<open>get\<close> tells whether an entry of a matrix is 1, \<open>get_row\<close> the
  same for a row of the column vector.
\<close>

locale matrices =
  fixes np :: "('m, 'c) arrays" and size_of :: "'m \<Rightarrow> nat" and get :: "'m \<Rightarrow> nat \<Rightarrow> nat \<Rightarrow> bool"
    and get_row :: "'c \<Rightarrow> nat \<Rightarrow> bool"
  assumes zeros_size: "size_of (zeros np n) = n"
    and zeros_get: "i < n \<Longrightarrow> j < n \<Longrightarrow> \<not> get (zeros np n) i j"
    and put_ok: "i < size_of m \<Longrightarrow> j < size_of m \<Longrightarrow>
      \<exists>m'. put np m (int i) (int j) = Inr m' \<and> size_of m' = size_of m \<and>
        (\<forall>a b. a < size_of m \<longrightarrow> b < size_of m \<longrightarrow> get m' a b = (get m a b \<or> (a, b) = (i, j)))"
    and column_get: "i < size_of m \<Longrightarrow> j < size_of m \<Longrightarrow> get_row (to_column np m) (i * size_of m + j) = get m i j"
begin

definition holds :: "nat \<Rightarrow> 'm \<Rightarrow> (nat \<times> nat) set \<Rightarrow> bool" where
  "holds n m S \<longleftrightarrow> size_of m = n \<and> (\<forall>i j. i < n \<longrightarrow> j < n \<longrightarrow> get m i j = ((i, j) \<in> S))"

lemma holds_zeros: "holds n (zeros np n) {}"
  by (simp add: holds_def zeros_size zeros_get)

lemma holds_put:
  assumes "holds n m S" and "i < n" and "j < n"
  shows "\<exists>m'. put np m (int i) (int j) = Inr m' \<and> holds n m' (insert (i, j) S)"
proof -
  from assms have s: "size_of m = n" by (simp add: holds_def)
  from put_ok [of i m j] assms(2,3) s obtain m' where p: "put np m (int i) (int j) = Inr m'" "size_of m' = n"
    "\<forall>a b. a < n \<longrightarrow> b < n \<longrightarrow> get m' a b = (get m a b \<or> (a, b) = (i, j))" by auto
  with assms(1) have "holds n m' (insert (i, j) S)" by (auto simp: holds_def)
  with p show ?thesis by blast
qed

lemma convert_fold:
  assumes "holds n X S" and "holds n Y T"
    and "list_all (\<lambda>(i, j, l). i < n \<and> j < n) es"
  shows "\<exists>X' Y'. rfold (alloc_step np) (X, Y) (map (\<lambda>(i, j, l). create_alloc_entry 0 i j l) es) = Inr (X', Y') \<and>
    holds n X' (S \<union> {(i, j). \<exists>l. (i, j, l) \<in> set es}) \<and> holds n Y' (T \<union> {(i, j). (i, j, 1) \<in> set es})"
  using assms
proof (induction es arbitrary: X Y S T)
  case (Cons e es)
  obtain i j l where e: "e = (i, j, l)" by (cases e)
  with Cons.prems have ij: "i < n" "j < n" by auto
  from holds_put [OF Cons.prems(1) ij] obtain X1 where X1: "put np X (int i) (int j) = Inr X1" "holds n X1 (insert (i, j) S)" by blast
  obtain Y1 where Y1: "(if int l = 1 then put np Y (int i) (int j) else Inr Y) = Inr Y1"
    "holds n Y1 (T \<union> (if l = 1 then {(i, j)} else {}))"
    using holds_put [OF Cons.prems(2) ij] Cons.prems(2) by (cases "l = 1") auto
  have step: "alloc_step np (X, Y) (create_alloc_entry 0 i j l) = Inr (X1, Y1)"
    using X1(1) Y1(1) by (simp add: alloc_step_def parse_alloc_entry split: if_splits)
  from Cons.IH [OF X1(2) Y1(2)] Cons.prems(3) e obtain X' Y' where
    "rfold (alloc_step np) (X1, Y1) (map (\<lambda>(i, j, l). create_alloc_entry 0 i j l) es) = Inr (X', Y')"
    "holds n X' (insert (i, j) S \<union> {(i, j). \<exists>l. (i, j, l) \<in> set es})"
    "holds n Y' (T \<union> (if l = 1 then {(i, j)} else {}) \<union> {(i, j). (i, j, 1) \<in> set es})" by auto
  moreover have "insert (i, j) S \<union> {(i, j). \<exists>l. (i, j, l) \<in> set es} = S \<union> {(i, j). \<exists>l. (i, j, l) \<in> set (e # es)}"
    "T \<union> (if l = 1 then {(i, j)} else {}) \<union> {(i, j). (i, j, 1) \<in> set es} = T \<union> {(i, j). (i, j, 1) \<in> set (e # es)}"
    by (auto simp: e)
  ultimately show ?case using step by (simp add: e)
qed simp

lemma convert_entries:
  assumes "list_all (\<lambda>(i, j, l). i < n \<and> j < n) es"
  shows "\<exists>X Y. convertAllocFileToXY np n (map (\<lambda>(i, j, l). create_alloc_entry 0 i j l) es) = Inr (X, Y) \<and>
    (\<forall>i j. i < n \<longrightarrow> j < n \<longrightarrow> get X i j = (\<exists>l. (i, j, l) \<in> set es) \<and> get_row Y (i * n + j) = ((i, j, 1) \<in> set es))"
proof -
  from convert_fold [OF holds_zeros holds_zeros assms] obtain X Y where
    r: "rfold (alloc_step np) (zeros np n, zeros np n) (map (\<lambda>(i, j, l). create_alloc_entry 0 i j l) es) = Inr (X, Y)"
    and X: "holds n X ({} \<union> {(i, j). \<exists>l. (i, j, l) \<in> set es})" and Y: "holds n Y ({} \<union> {(i, j). (i, j, 1) \<in> set es})"
    by blast
  have "get_row (to_column np Y) (i * n + j) = get Y i j" if "i < n" "j < n" for i j
    using column_get [of i Y j] that Y by (simp add: holds_def)
  with X Y r show ?thesis
    by (intro exI [of _ X] exI [of _ "to_column np Y"]) (auto simp: convertAllocFileToXY_def holds_def)
qed

end

text \<open>numpy's arrays as lists of rows of numbers, indices as in numpy.\<close>

definition list_arrays :: "(int list list, int list) arrays" where
  "list_arrays = \<lparr>zeros = (\<lambda>n. replicate n (replicate n 0)),
     put = (\<lambda>m i j. case py_index (length m) i of None \<Rightarrow> Inl IndexError
       | Some a \<Rightarrow> (case py_index (length (m ! a)) j of None \<Rightarrow> Inl IndexError
           | Some b \<Rightarrow> Inr (m[a := (m ! a)[b := 1]]))),
     to_column = concat\<rparr>"

definition square :: "int list list \<Rightarrow> nat" where
  "square m = (if list_all (\<lambda>r. length r = length m) m then length m else 0)"

lemma concat_nth: "list_all (\<lambda>r. length r = n) m \<Longrightarrow> i < length m \<Longrightarrow> j < n \<Longrightarrow> concat m ! (i * n + j) = m ! i ! j"
proof (induction m arbitrary: i)
  case (Cons r m)
  then show ?case by (cases i) (auto simp: nth_append)
qed simp

interpretation lm: matrices list_arrays square "\<lambda>m i j. m ! i ! j = 1" "\<lambda>c k. c ! k = 1"
proof
  show "square (zeros list_arrays n) = n" for n
    by (simp add: list_arrays_def square_def list_all_iff)
  show "\<not> zeros list_arrays n ! i ! j = 1" if "i < n" "j < n" for i j n
    using that by (simp add: list_arrays_def)
  show "\<exists>m'. put list_arrays m (int i) (int j) = Inr m' \<and> square m' = square m \<and>
        (\<forall>a b. a < square m \<longrightarrow> b < square m \<longrightarrow> (m' ! a ! b = 1) = (m ! a ! b = 1 \<or> (a, b) = (i, j)))"
    if ij: "i < square m" "j < square m" for i j m
  proof -
    from ij have sq: "list_all (\<lambda>r. length r = length m) m" and s: "square m = length m"
      by (auto simp: square_def split: if_splits)
    have row: "length (m ! a) = length m" if "a < length m" for a
      using sq that by (simp add: list_all_length)
    have p: "put list_arrays m (int i) (int j) = Inr (m[i := (m ! i)[j := 1]])"
      using ij s row [of i] by (simp add: list_arrays_def py_index_def)
    have "list_all (\<lambda>r. length r = length m) (m[i := (m ! i)[j := 1]])"
      using row ij s by (auto simp: list_all_length nth_list_update)
    then have "square (m[i := (m ! i)[j := 1]]) = square m" by (simp add: square_def s sq)
    moreover have "(m[i := (m ! i)[j := 1]] ! a ! b = 1) = (m ! a ! b = 1 \<or> (a, b) = (i, j))"
      if "a < square m" "b < square m" for a b
      using that s row [of i] by (cases "a = i"; cases "b = j") simp_all
    ultimately show ?thesis using p by blast
  qed
  show "(to_column list_arrays m ! (i * square m + j) = 1) = (m ! i ! j = 1)" if "i < square m" "j < square m" for i j m
  proof -
    from that have sq: "list_all (\<lambda>r. length r = length m) m" "square m = length m"
      by (auto simp: square_def split: if_splits)
    then show ?thesis using that concat_nth [OF sq(1)] by (simp add: list_arrays_def)
  qed
qed

text \<open>
  Further property: converting an allocation of a generated flow log gives the matrix that is
  1 exactly at the drawn flows, and the column that is 1 exactly at the wireless ones.
\<close>

theorem matrices_correct:
  assumes "flow_log n idxs = Inr flows"
  shows "\<exists>X Y. convertAllocFileToXY list_arrays n (alloc_file perm flows) = Inr (X, Y) \<and>
    (\<forall>i<n. \<forall>j<n. (X ! i ! j = 1) = ((i, j) \<in> pair_at n ` set idxs) \<and>
      (Y ! (i * n + j) = 1) = (\<exists>k<length idxs. k \<in> set (take 3 perm) \<and> pair_at n (idxs ! k) = (i, j)))"
proof -
  have f: "flows = map (\<lambda>i. create_flow_entry 0 (fst (pair_at n i)) (snd (pair_at n i))) idxs"
    and r: "list_all (\<lambda>i. i < length (all_pairs n)) idxs"
    using flow_log_eq [OF assms] by auto
  let ?es = "map (\<lambda>(k, i). (fst (pair_at n i), snd (pair_at n i), links (take 3 perm) k)) (List.enumerate 0 idxs)"
  have a: "alloc_file perm flows = map (\<lambda>(i, j, l). create_alloc_entry 0 i j l) ?es"
    unfolding f alloc_file_entries by (simp add: comp_def case_prod_unfold)
  have "pair_at n i \<in> set (all_pairs n)" if "i \<in> set idxs" for i
    using r that by (auto simp: list_all_iff pair_at_def)
  then have "fst (pair_at n i) < n \<and> snd (pair_at n i) < n" if "i \<in> set idxs" for i
    using all_pairs_mem that by blast
  then have "list_all (\<lambda>(i, j, l). i < n \<and> j < n) ?es"
    by (auto simp: list_all_iff in_set_enumerate_eq)
  from lm.convert_entries [OF this] obtain X Y where
    c: "convertAllocFileToXY list_arrays n (alloc_file perm flows) = Inr (X, Y)" and
    g: "\<forall>i j. i < n \<longrightarrow> j < n \<longrightarrow> (X ! i ! j = 1) = (\<exists>l. (i, j, l) \<in> set ?es) \<and> (Y ! (i * n + j) = 1) = ((i, j, 1) \<in> set ?es)"
    unfolding a by blast
  have e: "((i, j, l) \<in> set ?es) = (\<exists>k<length idxs. pair_at n (idxs ! k) = (i, j) \<and> l = links (take 3 perm) k)" for i j l
  proof -
    have "((i, j, l) \<in> set ?es) = (\<exists>p\<in>set (List.enumerate 0 idxs). pair_at n (snd p) = (i, j) \<and> l = links (take 3 perm) (fst p))"
      unfolding set_map image_iff by (rule bex_cong [OF refl]) (auto simp: case_prod_unfold)
    also have "\<dots> = (\<exists>k<length idxs. pair_at n (idxs ! k) = (i, j) \<and> l = links (take 3 perm) k)"
      by (auto simp: in_set_enumerate_eq Bex_def)
    finally show ?thesis .
  qed
  have x: "(\<exists>l. (i, j, l) \<in> set ?es) = ((i, j) \<in> pair_at n ` set idxs)" for i j
    unfolding e by (metis (no_types, lifting) image_iff in_set_conv_nth)
  have y: "((i, j, 1) \<in> set ?es) = (\<exists>k<length idxs. k \<in> set (take 3 perm) \<and> pair_at n (idxs ! k) = (i, j))" for i j
    unfolding e by (auto simp: links_def split: if_splits)
  show ?thesis using c g unfolding x y by blast
qed

lemma matrices_correct_witness:
  "\<exists>flows X Y. flow_log 2 [1] = Inr flows \<and> convertAllocFileToXY list_arrays 2 (alloc_file [0] flows) = Inr (X, Y) \<and>
     X ! 1 ! 0 = 1 \<and> Y ! 2 = 1"
proof -
  have ap: "all_pairs 2 = [(0, 1), (1, 0)]" by code_simp
  then have "\<not> isl (flow_log 2 [1])" by (simp add: flow_log_def py_nth_def py_index_def)
  then obtain flows where f: "flow_log 2 [1] = Inr flows" by (cases "flow_log 2 [1]") auto
  from matrices_correct [OF f, of "[0]"] obtain X Y where
    c: "convertAllocFileToXY list_arrays 2 (alloc_file [0] flows) = Inr (X, Y)" and
    g: "\<forall>i<2. \<forall>j<2. (X ! i ! j = 1) = ((i, j) \<in> pair_at 2 ` set [1]) \<and>
      (Y ! (i * 2 + j) = 1) = (\<exists>k<length [1::nat]. k \<in> set (take 3 [0]) \<and> pair_at 2 ([1] ! k) = (i, j))" by blast
  from g [rule_format, of 1 0] have "X ! 1 ! 0 = 1 \<and> Y ! 2 = 1" by (simp add: pair_at_def ap)
  with f c show ?thesis by blast
qed

subsection \<open>Layout and choice\<close>

lemma nodeToXY_inj:
  assumes "nodeToXY i r xs ys = Inr p" and "nodeToXY j r xs ys = Inr p" and "xs \<noteq> 0" and "ys \<noteq> 0"
  shows "i = j"
proof -
  from assms have "i mod r = j mod r" "i div r = j div r" by (auto simp: nodeToXY_def split: if_splits)
  then show ?thesis by (metis div_mult_mod_eq)
qed

text \<open>
  Further property: if the value of every allocation can be computed, the choice returns the
  largest value and the first allocation that has it, or 0 and the first allocation if no
  value is positive.
\<close>

theorem best_of_correct:
  fixes f :: "nat \<Rightarrow> 'f::{linorder, zero}"
  assumes "\<And>i. i < 15 \<Longrightarrow> value i = Inr (f i)"
  shows "\<exists>v k. best_of value = Inr (v, k) \<and> (\<forall>i<15. f i \<le> v) \<and> 0 \<le> v \<and>
    (if \<exists>i<15. 0 < f i then k < 15 \<and> f k = v \<and> (\<forall>i<k. f i < v) else v = 0 \<and> k = 0)"
proof -
  let ?step = "\<lambda>(max_val, max_val_idx) i. rbind (value i) (\<lambda>val.
       Inr (if val > max_val then (val, i) else (max_val, max_val_idx)))"
  have "\<exists>v k. rfold ?step (0, 0) [0..<m] = Inr (v, k) \<and> (\<forall>i<m. f i \<le> v) \<and> 0 \<le> v \<and>
      (if \<exists>i<m. 0 < f i then k < m \<and> f k = v \<and> (\<forall>i<k. f i < v) else v = 0 \<and> k = 0)" if "m \<le> 15" for m
    using that
  proof (induction m)
    case (Suc m)
    then obtain v k where vk: "rfold ?step (0, 0) [0..<m] = Inr (v, k)" "\<forall>i<m. f i \<le> v" "0 \<le> v"
      "if \<exists>i<m. 0 < f i then k < m \<and> f k = v \<and> (\<forall>i<k. f i < v) else v = 0 \<and> k = 0" by auto
    have s: "rfold ?step (0, 0) [0..<Suc m] = Inr (if f m > v then (f m, m) else (v, k))"
      using vk(1) assms [of m] Suc.prems by (simp add: rfold_append)
    show ?case
    proof (cases "f m > v")
      case True
      with vk(3) have "\<exists>i<Suc m. 0 < f i" by (intro exI [of _ m]) auto
      moreover have "\<forall>i<m. f i < f m" using vk(2) True by fastforce
      moreover have "\<forall>i<Suc m. f i \<le> f m" using calculation(2) by (auto simp: less_Suc_eq less_imp_le)
      ultimately show ?thesis using s True vk(3) by (intro exI [of _ "f m"] exI [of _ m]) auto
    next
      case False
      then have le: "f m \<le> v" by simp
      have "(\<exists>i<Suc m. 0 < f i) = (\<exists>i<m. 0 < f i)"
      proof (cases "\<exists>i<m. 0 < f i")
        case False
        with vk(4) have "v = 0" by simp
        with le False show ?thesis by (auto simp: less_Suc_eq)
      qed (auto simp: less_Suc_eq)
      with s False vk le show ?thesis
        by (intro exI [of _ v] exI [of _ k]) (auto simp: less_Suc_eq split: if_splits)
    qed
  qed simp
  from this [of 15] show ?thesis unfolding best_of_def by blast
qed

lemma best_of_correct_witness:
  "\<exists>v k. best_of (\<lambda>i. Inr (if i = 4 then 7 else 0 :: int)) = Inr (v, k) \<and> v = 7 \<and> k = 4"
proof -
  from best_of_correct [of "\<lambda>i. Inr (if i = 4 then 7 else 0 :: int)" "\<lambda>i. if i = 4 then 7 else 0"]
  obtain v k where b: "best_of (\<lambda>i. Inr (if i = 4 then 7 else 0 :: int)) = Inr (v, k)"
    and m: "if \<exists>i<15::nat. 0 < (if i = 4 then 7 else 0 :: int) then k < 15 \<and> (if k = 4 then 7 else 0) = v \<and>
       (\<forall>i<k. (if i = 4 then 7 else 0) < v) else v = 0 \<and> k = 0" and le: "\<forall>i<15::nat. (if i = 4 then 7 else 0 :: int) \<le> v" by auto
  from le [rule_format, of 4] have "7 \<le> v" by simp
  with m have "v = 7 \<and> k = 4" by (auto split: if_splits)
  with b show ?thesis by blast
qed

text \<open>The gain given on the command line never reaches a command.\<close>

lemma gain_ignored: "run_flows glob flow_dir results_base gain = run_flows glob flow_dir results_base gain'"
  by (simp add: run_flows_def)

end
