(* ===== verification/FlowRun.thy ===== *)
theory FlowRun
  imports FlowData
begin

section \<open>The experiment as a whole: \<^verbatim>\<open>scratch/*.py\<close>\<close>

text \<open>
  The scripts around the functions of \<^theory_text>\<open>FlowData\<close>: the names of the files of a generated
  data set, the question before a directory is used again, the plot of an allocation, and
  how the simulation commands and the evaluation find the files of the generator. The
  directory that holds the data is a list of names in the arbitrary order of the system.
\<close>

subsection \<open>The generator\<close>

definition out_dir_ready :: "bool \<Rightarrow> string \<Rightarrow> bool res" where
  "out_dir_ready exists_dir answer =
     (if \<not> exists_dir then Inr True
      else if answer = ''y'' then Inr False
      else Inl AssertionError)"

definition flows_name :: "nat \<Rightarrow> string" where
  "flows_name file_num = ''flows__'' @ nat_str file_num @ ''.dat''"

definition alloc_name :: "nat \<Rightarrow> nat \<Rightarrow> string" where
  "alloc_name file_num k = ''alloc__'' @ nat_str file_num @ ''_'' @ nat_str k @ ''.dat''"

text \<open>
  The files of one flow log: \<open>draw\<close> is the choice of 15 indices of pairs, which numpy refuses
  when there are fewer pairs, \<open>perm\<close> the random permutation of each of the 15 allocations.
\<close>

definition flow_log_files ::
  "nat \<Rightarrow> (nat \<Rightarrow> nat list res) \<Rightarrow> (nat \<Rightarrow> nat \<Rightarrow> nat list) \<Rightarrow> nat \<Rightarrow> (string \<times> string list) list res" where
  "flow_log_files num_tors draw perm file_num =
     rbind (draw file_num) (\<lambda>idxs.
     rbind (flow_files num_tors idxs (map (perm file_num) [0..<15])) (\<lambda>(flows, allocs).
     Inr ((flows_name file_num, flows) # map (\<lambda>(k, a). (alloc_name file_num k, a)) (List.enumerate 0 allocs))))"

definition gen_multiflow ::
  "bool \<Rightarrow> string \<Rightarrow> nat \<Rightarrow> int \<Rightarrow> (nat \<Rightarrow> nat list res) \<Rightarrow> (nat \<Rightarrow> nat \<Rightarrow> nat list)
     \<Rightarrow> (string \<times> string list) list res" where
  "gen_multiflow exists_dir answer num_tors num_files draw perm =
     rbind (out_dir_ready exists_dir answer) (\<lambda>_.
     rbind (rmap (flow_log_files num_tors draw perm) [0..<nat num_files]) (\<lambda>fss. Inr (concat fss)))"

subsection \<open>Plots\<close>

definition convertXYToAllocFile :: "'m \<Rightarrow> 'c \<Rightarrow> string \<Rightarrow> unit res" where
  "convertXYToAllocFile X Y fle_name = Inl AssertionError"

text \<open>The squares of the racks, row by row.\<close>

definition rack_markers :: "int \<Rightarrow> int \<Rightarrow> int \<Rightarrow> int \<Rightarrow> (int \<times> int) list" where
  "rack_markers x_spacing y_spacing num_rows racks_per_row =
     concat (map (\<lambda>row. map (\<lambda>rack. (rack * x_spacing, row * y_spacing)) [0..racks_per_row - 1]) [0..num_rows - 1])"

definition plotConnectionGraph ::
  "(string \<Rightarrow> string list option) \<Rightarrow> string \<Rightarrow> string \<Rightarrow> int \<Rightarrow> int \<Rightarrow> int \<Rightarrow> int
     \<Rightarrow> ((int \<times> int) list \<times> ((int \<times> int) \<times> (int \<times> int) \<times> bool) list) res" where
  "plotConnectionGraph files flow_dir flow_file x_spacing y_spacing num_rows racks_per_row =
     (case files (flow_dir @ ''/'' @ flow_file) of None \<Rightarrow> Inl IOError
      | Some lines \<Rightarrow>
          rbind (rmap (plot_arrow racks_per_row x_spacing y_spacing) lines) (\<lambda>arrows.
          Inr (rack_markers x_spacing y_spacing num_rows racks_per_row, arrows)))"

definition plotBestAlloc ::
  "(string \<Rightarrow> ('f::{linorder,zero}) res) \<Rightarrow> ('f list \<Rightarrow> 'f) \<Rightarrow> (string \<Rightarrow> string list option) \<Rightarrow> string \<Rightarrow> string
     \<Rightarrow> ((int \<times> int) list \<times> ((int \<times> int) \<times> (int \<times> int) \<times> bool) list) res" where
  "plotBestAlloc to_float mean15 files flow_file flow_dir =
     rbind (getBestAllocs to_float mean15 files ''results-3-200-1'' flow_file) (\<lambda>(val, best_idx).
     rbind (flow_id_str flow_file) (\<lambda>s. rbind (py_int s) (\<lambda>flow_id.
     plotConnectionGraph files flow_dir (''alloc__'' @ int_str flow_id @ ''_'' @ nat_str best_idx @ ''.dat'') 1 3 3 4)))"

subsection \<open>Running the simulations\<close>

definition run_flows_main ::
  "bool \<Rightarrow> string \<Rightarrow> (string \<Rightarrow> string list) \<Rightarrow> string \<Rightarrow> string \<Rightarrow> string \<Rightarrow> string list res" where
  "run_flows_main exists_dir answer glob flow_dir results_base gain =
     rbind (out_dir_ready exists_dir answer) (\<lambda>_. run_flows glob flow_dir results_base gain)"

text \<open>
  \<^verbatim>\<open>glob\<close> on a directory \<open>d\<close> whose name has no wildcard: the names that match, in the order of
  the listing. Only \<^verbatim>\<open>*\<close> occurs in the patterns.
\<close>

fun fnmatch :: "string \<Rightarrow> string \<Rightarrow> bool" where
  "fnmatch [] s = (s = [])"
| "fnmatch (p # ps) s =
     (if p = CHR ''*'' then fnmatch ps s \<or> (case s of [] \<Rightarrow> False | c # cs \<Rightarrow> fnmatch (p # ps) cs)
      else (case s of [] \<Rightarrow> False | c # cs \<Rightarrow> c = p \<and> fnmatch ps cs))"

definition dir_glob :: "string \<Rightarrow> string list \<Rightarrow> string \<Rightarrow> string list" where
  "dir_glob d listing pat =
     (if starts_with pat (d @ ''/'')
      then map (\<lambda>n. d @ ''/'' @ n) (filter (fnmatch (drop (length (d @ ''/'')) pat)) listing)
      else [])"

lemma fnmatch_literal:
  "CHR ''*'' \<notin> set p \<Longrightarrow> fnmatch (p @ q) s = (\<exists>t. s = p @ t \<and> fnmatch q t)"
proof (induction p arbitrary: s)
  case (Cons c p)
  then show ?case by (cases s) auto
qed simp

lemma fnmatch_same: "CHR ''*'' \<notin> set p \<Longrightarrow> fnmatch p s = (s = p)"
  using fnmatch_literal [of p "[]" s] by auto

lemma fnmatch_star:
  assumes "CHR ''*'' \<notin> set q"
  shows "fnmatch (CHR ''*'' # q) s = (\<exists>t. s = t @ q)"
proof (induction s)
  case Nil
  then show ?case using fnmatch_same [OF assms] by auto
next
  case (Cons c s)
  have "(\<exists>t. c # s = t @ q) = (c # s = q \<or> (\<exists>t. s = t @ q))"
    by (metis append_Cons append_Nil append_eq_Cons_conv)
  with Cons show ?case using fnmatch_same [OF assms] by simp
qed

lemma dir_glob_eq:
  "dir_glob d listing (d @ CHR ''/'' # pat) = map (\<lambda>n. d @ ''/'' @ n) (filter (fnmatch pat) listing)"
  by (simp add: dir_glob_def starts_with_iff)

subsection \<open>Names are read back\<close>

lemma no_star [simp]: "CHR ''*'' \<notin> set (nat_str n)" "CHR ''_'' \<notin> set (nat_str n)" "CHR ''.'' \<notin> set (nat_str n)"
  by (rule nat_str_no_sep, simp add: is_digit_def)+

lemma flows_match: "fnmatch ''flows*.dat'' (flows_name n)" "\<not> fnmatch ''flows*.dat'' (alloc_name n k)"
proof -
  have p: "''flows*.dat'' = ''flows'' @ CHR ''*'' # ''.dat''" by simp
  show "fnmatch ''flows*.dat'' (flows_name n)"
    unfolding p by (subst fnmatch_literal) (auto simp: flows_name_def fnmatch_star simp del: fnmatch.simps)
  show "\<not> fnmatch ''flows*.dat'' (alloc_name n k)" by (simp add: alloc_name_def)
qed

lemma number_prefix:
  assumes "nat_str m @ CHR ''_'' # u = nat_str n @ CHR ''_'' # v"
  shows "m = n"
  using arg_cong [OF assms, of "takeWhile (\<lambda>c. c \<noteq> CHR ''_'')"]
  by (subst (asm) (1 2) takeWhile_append2) (auto simp: nat_str_inj)

lemma allocs_match: "fnmatch (''alloc__'' @ nat_str n @ ''_*'') (alloc_name m k) = (m = n)"
  "\<not> fnmatch (''alloc__'' @ nat_str n @ ''_*'') (flows_name m)"
proof -
  have p: "''alloc__'' @ nat_str n @ ''_*'' = (''alloc__'' @ nat_str n @ ''_'') @ ''*''" by simp
  have f: "fnmatch (''alloc__'' @ nat_str n @ ''_*'') s = (\<exists>t. s = ''alloc__'' @ nat_str n @ CHR ''_'' # t)" for s
    unfolding p by (subst fnmatch_literal) (auto simp: fnmatch_star simp del: fnmatch.simps)
  show "fnmatch (''alloc__'' @ nat_str n @ ''_*'') (alloc_name m k) = (m = n)"
    unfolding f by (auto simp: alloc_name_def dest: number_prefix)
  show "\<not> fnmatch (''alloc__'' @ nat_str n @ ''_*'') (flows_name m)"
    unfolding f by (simp add: flows_name_def)
qed

lemma split_uu_first:
  "\<not> has_infix ''__'' u \<Longrightarrow> (u = [] \<or> last u \<noteq> CHR ''_'') \<Longrightarrow>
     split_str ''__'' (u @ CHR ''_'' # CHR ''_'' # v) = u # split_str ''__'' v"
proof (induction u)
  case Nil
  then show ?case by (simp add: starts_with_def)
next
  case (Cons c u)
  have "\<not> starts_with ((c # u) @ CHR ''_'' # CHR ''_'' # v) ''__''"
    using Cons.prems by (cases u) (auto simp: starts_with_def split: if_splits)
  with Cons show ?case by (auto split: if_splits)
qed

lemma split_uu_none: "CHR ''_'' \<notin> set s \<Longrightarrow> split_str ''__'' s = [s]"
  by (induction s) (auto simp: starts_with_def)

lemma no_uu_after: "\<not> has_infix ''__'' d \<Longrightarrow> CHR ''_'' \<notin> set w \<Longrightarrow> \<not> has_infix ''__'' (d @ CHR ''/'' # w)"
proof (induction d)
  case Nil
  then have "\<not> has_infix ''__'' w" by (auto simp: has_infix_iff)
  then show ?case by (simp add: starts_with_def)
next
  case (Cons c d)
  then show ?case by (cases d) (auto simp: starts_with_def)
qed

lemma number_dot: "py_nth (split_on (CHR ''.'') (nat_str n @ ''.dat'')) 0 = Inr (nat_str n)"
  by (simp add: split_on_app py_nth_def py_index_def)

lemma flow_id_flows:
  assumes "\<not> has_infix ''__'' d"
  shows "flow_id_str (d @ CHR ''/'' # flows_name n) = Inr (nat_str n)"
proof -
  have e: "d @ CHR ''/'' # flows_name n = (d @ CHR ''/'' # ''flows'') @ CHR ''_'' # CHR ''_'' # (nat_str n @ ''.dat'')"
    by (simp add: flows_name_def)
  have s: "split_str ''__'' (d @ CHR ''/'' # flows_name n) = [d @ CHR ''/'' # ''flows'', nat_str n @ ''.dat'']"
    unfolding e by (subst split_uu_first) (use no_uu_after [OF assms, of "''flows''"] in \<open>auto simp: split_uu_none\<close>)
  show ?thesis unfolding flow_id_str_def s by (simp add: str_at_def py_nth_def py_index_def split_on_app)
qed

lemma flow_id_base: "flow_id_str (flows_name n) = Inr (nat_str n)"
proof -
  have e: "flows_name n = ''flows'' @ CHR ''_'' # CHR ''_'' # (nat_str n @ ''.dat'')" by (simp add: flows_name_def)
  have s: "split_str ''__'' (flows_name n) = [''flows'', nat_str n @ ''.dat'']"
    unfolding e by (subst split_uu_first) (auto simp: split_uu_none starts_with_def)
  show ?thesis unfolding flow_id_str_def s by (simp add: str_at_def py_nth_def py_index_def split_on_app)
qed

definition result_name :: "string \<Rightarrow> nat \<Rightarrow> nat \<Rightarrow> string" where
  "result_name results_base n k = results_base @ ''/'' @ nat_str n @ ''_'' @ nat_str k @ ''.txt''"

text \<open>The command that simulates allocation \<open>k\<close> of flow log \<open>n\<close>.\<close>

definition sim_command :: "string \<Rightarrow> string \<Rightarrow> nat \<Rightarrow> nat \<Rightarrow> string" where
  "sim_command d results_base n k =
     (let pad = replicate 24 (CHR '' '')
      in ''./waf --run '' @ [quote] @ ''flyway-data '' @ pad @ ''--topo=scratch/topo-search.dat ''
         @ pad @ ''--flow=scratch/'' @ d @ ''/'' @ alloc_name n k @ '' '' @ pad
         @ ''--outfile=scratch/'' @ result_name results_base n k @ '' '' @ pad @ ''--gain=25.000000'' @ [quote])"

lemma flow_command_eq: "flow_command rb (int n) (d @ CHR ''/'' # alloc_name n k) = Inr (sim_command d rb n k)"
proof -
  have e: "d @ CHR ''/'' # alloc_name n k = (d @ ''/alloc__'' @ nat_str n) @ CHR ''_'' # (nat_str k @ ''.dat'')"
    by (simp add: alloc_name_def)
  have s: "\<exists>ws. split_on (CHR ''_'') (d @ CHR ''/'' # alloc_name n k) = ws @ [nat_str k @ ''.dat'']"
    unfolding e split_on_append_sep by (simp add: split_on_no_sep)
  have i: "int_str (int m) = nat_str m" for m by (simp add: int_str_def)
  from s obtain ws where "split_on (CHR ''_'') (d @ CHR ''/'' # alloc_name n k) = ws @ [nat_str k @ ''.dat'']" by blast
  then show ?thesis
    unfolding flow_command_def sim_command_def
    by (simp add: str_at_def py_nth_last number_dot result_name_def i Let_def)
qed

lemma best_allocs_eq:
  "getBestAllocs to_float mean15 files rb (flows_name n) =
     best_of (\<lambda>k. calcAllocValue to_float mean15 (files (result_name rb n k)))"
  unfolding getBestAllocs_def flow_id_base by (simp add: result_name_def)

subsection \<open>The simulations of a data set\<close>

lemma flow_files_allocs: "flow_files t idxs perms = Inr (flows, allocs) \<Longrightarrow> length allocs = length perms"
  by (auto simp: flow_files_def)

lemma flow_log_names:
  assumes "flow_log_files t draw perm n = Inr fs"
  shows "map fst fs = flows_name n # map (alloc_name n) [0..<15]"
proof -
  from assms obtain flows allocs where fs: "fs = (flows_name n, flows) # map (\<lambda>(k, a). (alloc_name n k, a)) (List.enumerate 0 allocs)"
    and l: "length allocs = 15"
    unfolding flow_log_files_def by (auto dest: flow_files_allocs)
  have "map fst (map (\<lambda>(k, a). (alloc_name n k, a)) (List.enumerate 0 allocs)) = map (alloc_name n) [0..<15]"
    using map_enumerate_fst [of "alloc_name n" 0 allocs] by (simp add: comp_def case_prod_unfold l)
  then show ?thesis by (simp add: fs)
qed

lemma gen_names:
  assumes "gen_multiflow ex ans t (int N) draw perm = Inr files"
  shows "set (map fst files) = flows_name ` {0..<N} \<union> (\<Union>n\<in>{0..<N}. alloc_name n ` {0..<15})"
proof -
  have names: "set (map fst (concat fss)) = flows_name ` set ns \<union> (\<Union>n\<in>set ns. alloc_name n ` {0..<15})"
    if "rmap (flow_log_files t draw perm) ns = Inr fss" for ns fss
    using that
  proof (induction ns arbitrary: fss)
    case (Cons n ns)
    then obtain fs fss' where "flow_log_files t draw perm n = Inr fs" "rmap (flow_log_files t draw perm) ns = Inr fss'"
      "fss = fs # fss'" unfolding rmap_Inr_Cons by auto
    with Cons.IH [of fss'] flow_log_names [of t draw perm n fs] show ?case
      by (simp only: concat.simps map_append set_append list.set set_map) auto
  qed simp
  from assms obtain fss where r: "rmap (flow_log_files t draw perm) [0..<N] = Inr fss" and c: "files = concat fss"
    unfolding gen_multiflow_def by auto
  show ?thesis unfolding c using names [OF r] by (simp only: set_upt)
qed

lemma number_prefix_dot:
  assumes "nat_str m @ CHR ''.'' # u = nat_str n @ CHR ''.'' # v"
  shows "m = n"
  using arg_cong [OF assms, of "takeWhile (\<lambda>c. c \<noteq> CHR ''.'')"]
  by (subst (asm) (1 2) takeWhile_append2) (auto simp: nat_str_inj)

lemma flows_name_inj: "flows_name m = flows_name n \<longleftrightarrow> m = n"
  by (auto simp: flows_name_def nat_str_inj)

lemma alloc_name_inj:
  assumes "alloc_name m j @ u = alloc_name n k @ v"
  shows "m = n \<and> j = k"
proof -
  from assms have e: "nat_str m @ CHR ''_'' # nat_str j @ CHR ''.'' # ''dat'' @ u = nat_str n @ CHR ''_'' # nat_str k @ CHR ''.'' # ''dat'' @ v"
    by (simp add: alloc_name_def)
  from number_prefix [OF this] have m: "m = n" .
  with e have "nat_str j @ CHR ''.'' # ''dat'' @ u = nat_str k @ CHR ''.'' # ''dat'' @ v" by simp
  with m number_prefix_dot show ?thesis by blast
qed

lemma sim_command_inj:
  assumes "sim_command d rb m j = sim_command d rb n k"
  shows "m = n \<and> j = k"
  using assms unfolding sim_command_def Let_def
  by (simp only: append_assoc same_append_eq) (rule alloc_name_inj, assumption)

text \<open>The names that match are those of the numbers of the flow logs, in some order.\<close>

lemma image_list:
  assumes "distinct xs" and "set xs = f ` A" and "\<And>x y. f x = f y \<Longrightarrow> x = y"
  shows "\<exists>ys. xs = map f ys \<and> distinct ys \<and> set ys = A"
proof -
  from assms(2) have "\<forall>x\<in>set xs. \<exists>y. x = f y" by auto
  then obtain ys where ys: "xs = map f ys" unfolding ex_map_conv [symmetric] by blast
  with assms(2,3) have "set ys = A" by (auto simp: image_iff)
  with ys assms(1) show ?thesis by (auto simp: distinct_map)
qed

lemma concat_distinct:
  assumes "distinct ns" and "\<And>n. n \<in> set ns \<Longrightarrow> distinct (ks n)" and "\<And>m j n k. g m j = g n k \<Longrightarrow> m = n \<and> j = k"
  shows "distinct (concat (map (\<lambda>n. map (g n) (ks n)) ns))"
  using assms(1,2)
proof (induction ns)
  case (Cons n ns)
  have "distinct (map (g n) (ks n))" using Cons.prems(2) [of n] assms(3) by (auto simp: distinct_map intro!: inj_onI)
  moreover have "set (map (g n) (ks n)) \<inter> set (concat (map (\<lambda>n. map (g n) (ks n)) ns)) = {}"
    using Cons.prems(1) assms(3) by (auto dest!: assms(3))
  ultimately show ?case using Cons by (simp only: list.map concat.simps distinct_append) auto
qed simp

lemma rmap_all_Inr: "list_all (\<lambda>x. f x = Inr (g x)) xs \<Longrightarrow> rmap f xs = Inr (map g xs)"
  by (induction xs) auto

lemma run_flows_eq:
  assumes d: "\<not> has_infix ''__'' d"
    and f: "glob (d @ ''/flows*.dat'') = map (\<lambda>n. d @ ''/'' @ flows_name n) ns"
    and a: "list_all (\<lambda>n. glob (d @ ''/alloc__'' @ nat_str n @ ''_*'') = map (\<lambda>k. d @ ''/'' @ alloc_name n k) (ks n)) ns"
  shows "run_flows glob d rb gain = Inr (concat (map (\<lambda>n. map (sim_command d rb n) (ks n)) ns))"
proof -
  have 1: "rmap (flow_command rb (int n)) (map (\<lambda>k. d @ ''/'' @ alloc_name n k) xs) = Inr (map (sim_command d rb n) xs)" for n xs
    by (induction xs) (simp_all add: flow_command_eq)
  have i: "int_str (int m) = nat_str m" for m by (simp add: int_str_def)
  have 2: "rmap (\<lambda>flow_log. rbind (flow_id_str flow_log) (\<lambda>s. rbind (py_int s) (\<lambda>flow_log_id.
        rmap (flow_command rb flow_log_id) (glob (d @ ''/alloc__'' @ int_str flow_log_id @ ''_*'')))))
      (map (\<lambda>n. d @ ''/'' @ flows_name n) ns) = Inr (map (\<lambda>n. map (sim_command d rb n) (ks n)) ns)"
    using a
  proof (induction ns)
    case (Cons n ns)
    have "flow_id_str (d @ ''/'' @ flows_name n) = Inr (nat_str n)" using flow_id_flows [OF d, of n] by simp
    with Cons show ?case by (simp only: list.map rmap.simps rbind_simps py_int_nat_str i list.pred_inject(2) 1 sum.case)
  qed simp
  show ?thesis unfolding run_flows_def f 2 by simp
qed

text \<open>
  Property C38: after the generator has written a data set of \<open>N\<close> flow logs, whatever
  the order in which the system lists the directory, the simulation script produces exactly
  one command for each of the 15 allocations of each flow log, each with that allocation as
  its flow file; and the evaluation of a flow log reads exactly the files these commands
  write.
\<close>

theorem experiment_complete:
  assumes "gen_multiflow ex ans t (int N) draw perm = Inr files"
    and "distinct listing" and "set listing = set (map fst files)" and "\<not> has_infix ''__'' d"
  shows "\<exists>cmds. run_flows (dir_glob d listing) d rb gain = Inr cmds \<and> distinct cmds \<and>
    set cmds = {sim_command d rb n k |n k. n < N \<and> k < 15} \<and>
    getBestAllocs to_float mean15 outputs rb (flows_name n) =
      best_of (\<lambda>k. calcAllocValue to_float mean15 (outputs (result_name rb n k)))"
proof -
  have L: "set listing = flows_name ` {0..<N} \<union> (\<Union>n\<in>{0..<N}. alloc_name n ` {0..<15})"
    using assms(3) gen_names [OF assms(1)] by simp
  have "set (filter (fnmatch ''flows*.dat'') listing) = flows_name ` {0..<N}"
    unfolding set_filter L using flows_match by auto
  from image_list [OF distinct_filter [OF assms(2)] this flows_name_inj [THEN iffD1]] obtain ns where
    ns: "filter (fnmatch ''flows*.dat'') listing = map flows_name ns" "distinct ns" "set ns = {0..<N}" by blast
  have "set (filter (fnmatch (''alloc__'' @ nat_str n @ ''_*'')) listing) = alloc_name n ` {0..<15}" if "n < N" for n
    unfolding set_filter L using allocs_match that by auto
  then have "\<exists>ks. filter (fnmatch (''alloc__'' @ nat_str n @ ''_*'')) listing = map (alloc_name n) ks \<and> distinct ks \<and> set ks = {0..<15}"
    if "n < N" for n
    using image_list [OF distinct_filter [OF assms(2)], of _ "alloc_name n"] alloc_name_inj [of n _ "[]" n _ "[]"] that by simp
  then obtain ks where ks: "n < N \<Longrightarrow> filter (fnmatch (''alloc__'' @ nat_str n @ ''_*'')) listing = map (alloc_name n) (ks n)
      \<and> distinct (ks n) \<and> set (ks n) = {0..<15}" for n by metis
  have r: "run_flows (dir_glob d listing) d rb gain = Inr (concat (map (\<lambda>n. map (sim_command d rb n) (ks n)) ns))"
    using ns(1,3) ks dir_glob_eq [of d listing] by (intro run_flows_eq [OF assms(4)]) (auto simp: list_all_iff)
  have "distinct (concat (map (\<lambda>n. map (sim_command d rb n) (ks n)) ns))"
    using ns(3) ks by (intro concat_distinct [OF ns(2)]) (auto dest: sim_command_inj)
  moreover have "set (concat (map (\<lambda>n. map (sim_command d rb n) (ks n)) ns)) = {sim_command d rb n k |n k. n < N \<and> k < 15}"
    using ns(3) ks by (auto simp: set_eq_iff) (metis atLeastLessThan_iff image_eqI le0)+
  ultimately show ?thesis using r best_allocs_eq by blast
qed

lemma experiment_complete_witness:
  "\<exists>files cmds. gen_multiflow False '''' 2 1 (\<lambda>_. Inr [0]) (\<lambda>_ _. [0]) = Inr files \<and>
     run_flows (dir_glob ''data'' (remdups (map fst files))) ''data'' ''results'' ''25'' = Inr cmds \<and>
     distinct cmds \<and> sim_command ''data'' ''results'' 0 14 \<in> set cmds"
proof -
  have "all_pairs 2 = [(0, 1), (1, 0)]" by code_simp
  then have "\<not> isl (gen_multiflow False '''' 2 (int 1) (\<lambda>_. Inr [0]) (\<lambda>_ _. [0]))"
    by (simp add: gen_multiflow_def out_dir_ready_def flow_log_files_def flow_files_def flow_log_def py_nth_def py_index_def)
  then obtain files where g: "gen_multiflow False '''' 2 (int 1) (\<lambda>_. Inr [0]) (\<lambda>_ _. [0]) = Inr files"
    by (cases "gen_multiflow False '''' 2 (int 1) (\<lambda>_. Inr [0]) (\<lambda>_ _. [0])") auto
  have "\<not> has_infix ''__'' ''data''" by (simp add: starts_with_def)
  from experiment_complete [OF g distinct_remdups set_remdups this, of "''results''" "''25''" "\<lambda>_. Inr (0 :: int)" "\<lambda>_. 0" "\<lambda>_. None" 0]
  obtain cmds where c: "run_flows (dir_glob ''data'' (remdups (map fst files))) ''data'' ''results'' ''25'' = Inr cmds"
    "distinct cmds" "set cmds = {sim_command ''data'' ''results'' n k |n k. n < 1 \<and> k < 15}" by blast
  have "sim_command ''data'' ''results'' 0 14 \<in> set cmds" unfolding c(3)
    by (rule CollectI, rule exI [of _ 0], rule exI [of _ 14]) simp
  with g c(1,2) show ?thesis by (intro exI conjI) (simp only: of_nat_1, assumption+)
qed

subsection \<open>Plots of generated allocations\<close>

text \<open>
  The arrow of a flow between two of the racks that are drawn starts at the square of the
  one and ends at the square of the other.
\<close>

lemma node_marker:
  assumes "0 \<le> i" and "i < num_rows * per_row" and "0 < per_row"
  shows "\<exists>p. nodeToXY i per_row x_spacing y_spacing = Inr p \<and> p \<in> set (rack_markers x_spacing y_spacing num_rows per_row)"
proof -
  have "i div per_row * per_row + i mod per_row = i" by simp
  with assms have "i div per_row * per_row < num_rows * per_row" using pos_mod_sign [of per_row i] by linarith
  with assms(3) have "i div per_row < num_rows" by simp
  moreover have "0 \<le> i div per_row" "0 \<le> i mod per_row" "i mod per_row < per_row"
    using assms by (simp_all add: pos_imp_zdiv_nonneg_iff)
  ultimately have "i div per_row \<in> {0..num_rows - 1}" "i mod per_row \<in> {0..per_row - 1}" by simp_all
  then have "(i mod per_row * x_spacing, i div per_row * y_spacing) \<in> set (rack_markers x_spacing y_spacing num_rows per_row)"
    unfolding rack_markers_def set_concat set_map set_upto image_image by blast
  then show ?thesis using assms(3) by (simp add: nodeToXY_def)
qed

lemma plot_arrow_markers:
  assumes "plot_arrow per_row xs ys line = Inr ((fx, fy), (dx, dy), w)" and "parseAllocFileLine line = Inr (f, t, l)"
    and "0 \<le> f" and "f < num_rows * per_row" and "0 \<le> t" and "t < num_rows * per_row" and "0 < per_row"
  shows "(fx, fy) \<in> set (rack_markers xs ys num_rows per_row)" and "(fx + dx, fy + dy) \<in> set (rack_markers xs ys num_rows per_row)"
    and "w = (l = 1)"
  using assms(1,2) node_marker [OF assms(3,4,7), of xs ys] node_marker [OF assms(5,6,7), of xs ys]
  by (auto simp: plot_arrow_def calcDistance_def)

end
