(* ===== verification/GridDraw.thy ===== *)
theory GridDraw
  imports Timelines "HOL-Library.While_Combinator"
begin

section \<open>Layout and drawing of the grid viewer: \<^verbatim>\<open>utils/grid.py\<close>\<close>

text \<open>
  The renderers of \<^verbatim>\<open>utils/grid.py\<close>: the legend, the timelines, the scales and the graphic
  they make up. A drawing is the list of the calls made on the cairo context; the size of a text
  is a parameter. An attribute that the constructor does not set is an option, and reading it
  before it is set raises AttributeError. When a drawing raises, the calls it made before are
  not kept.
\<close>

subsection \<open>The drawing context\<close>

datatype draw_cmd =
    CSave | CRestore | CTranslate pynum pynum
  | CRectangle pynum pynum pynum pynum | CMoveTo pynum pynum | CLineTo pynum pynum | CRelLineTo pynum pynum
  | CClosePath | CStroke | CStrokePreserve | CFill | CClip
  | CSourceRGB pynum pynum pynum | COperatorSource | CLineWidth pynum | CDash "pynum list" pynum
  | CShowText string | CSourceSurface "draw_cmd list" | CPaint

record text_extents =
  y_bearing :: rat
  t_width :: rat
  t_height :: rat

definition attr :: "'a option \<Rightarrow> 'a res" where
  "attr x = (case x of None \<Rightarrow> Inl AttributeError | Some v \<Rightarrow> Inr v)"

lemma attr_simps [simp]: "attr None = Inl AttributeError" "attr (Some v) = Inr v"
  by (simp_all add: attr_def)

definition half :: "pynum \<Rightarrow> pynum" where
  "half a = mixed (div) (/) a 2"

text \<open>A call that may raise inside a method that has already changed its object.\<close>

definition call :: "'s \<Rightarrow> 'a res \<Rightarrow> ('a \<Rightarrow> 's \<times> 'b res) \<Rightarrow> 's \<times> 'b res" where
  "call s r k = (case r of Inl e \<Rightarrow> (s, Inl e) | Inr x \<Rightarrow> k x)"

lemma call_simps [simp]: "call s (Inl e) k = (s, Inl e)" "call s (Inr x) k = k x"
  by (simp_all add: call_def)

subsection \<open>The legend\<close>

record legend_renderer =
  lg_padding :: pynum
  lg_legends :: "(string list \<times> color list) option"
  lg_size :: "(int \<times> pynum) option"

definition new_legend :: legend_renderer where
  "new_legend = \<lparr>lg_padding = 10, lg_legends = None, lg_size = None\<rparr>"

type_synonym legend_pos = "pynum \<times> pynum \<times> pynum"

text \<open>
  The position is the height of the line, the height used so far and the width used in the
  line. \<^verbatim>\<open>layout\<close> and \<^verbatim>\<open>draw\<close> compute it with the same lines.
\<close>

definition item_width :: "pynum \<Rightarrow> text_extents \<Rightarrow> pynum" where
  "item_width p e = p + p + PyFloat (t_width e) + p"

definition item_height :: "pynum \<Rightarrow> text_extents \<Rightarrow> pynum" where
  "item_height p e = PyFloat (t_height e) + p"

definition legend_step :: "pynum \<Rightarrow> pynum \<Rightarrow> legend_pos \<Rightarrow> text_extents \<Rightarrow> legend_pos" where
  "legend_step p width st e =
     (case st of (line_height, total_height, line_used) \<Rightarrow>
        let iw = item_width p e; ih = item_height p e;
            lh = (if ih > line_height then ih else line_height)
        in if line_used + iw > width then (lh, total_height + lh, p + iw)
           else (lh, total_height, line_used + iw))"

definition legend_layout :: "(string \<Rightarrow> text_extents) \<Rightarrow> legend_renderer \<Rightarrow> int \<Rightarrow> legend_renderer res" where
  "legend_layout ext l width =
     rbind (attr (lg_legends l)) (\<lambda>(legends, colors).
       case foldl (legend_step (lg_padding l) (PyInt width)) (0, lg_padding l, lg_padding l) (map ext legends) of
         (line_height, total_height, line_used) \<Rightarrow>
           Inr (l\<lparr>lg_size := Some (width, total_height + line_height)\<rparr>))"

definition legend_height :: "legend_renderer \<Rightarrow> pynum res" where
  "legend_height l = rbind (attr (lg_size l)) (\<lambda>(w, h). Inr h)"

definition legend_item :: "pynum \<Rightarrow> color \<Rightarrow> string \<Rightarrow> text_extents \<Rightarrow> pynum \<Rightarrow> pynum \<Rightarrow> draw_cmd list" where
  "legend_item p col legend e x y =
     (case col of (r, g, b) \<Rightarrow>
       [CRectangle x y p p, CSourceRGB 0 0 0, CLineWidth 2, CStrokePreserve,
        CSourceRGB (PyInt r) (PyInt g) (PyInt b), CFill,
        CMoveTo (x + p * 2) (y + PyFloat (t_height e)), CSourceRGB 0 0 0, CShowText legend])"

fun legend_items :: "(string \<Rightarrow> text_extents) \<Rightarrow> pynum \<Rightarrow> pynum \<Rightarrow> color list \<Rightarrow> nat \<Rightarrow> legend_pos \<Rightarrow> string list
    \<Rightarrow> draw_cmd list res" where
  "legend_items ext p width colors i st [] = Inr []"
| "legend_items ext p width colors i st (legend # rest) =
     (case legend_step p width st (ext legend) of (line_height, total_height, line_used) \<Rightarrow>
        let x = line_used - item_width p (ext legend) in
          rbind (py_nth colors (int i)) (\<lambda>col.
          rbind (legend_items ext p width colors (i + 1) (line_height, total_height, line_used) rest) (\<lambda>cs.
            Inr (legend_item p col legend (ext legend) x total_height @ cs))))"

definition legend_draw :: "(string \<Rightarrow> text_extents) \<Rightarrow> legend_renderer \<Rightarrow> draw_cmd list res" where
  "legend_draw ext l =
     rbind (attr (lg_legends l)) (\<lambda>(legends, colors).
     if legends = [] then Inr [] else
     rbind (attr (lg_size l)) (\<lambda>(width, height).
       legend_items ext (lg_padding l) (PyInt width) colors 0 (0, lg_padding l, lg_padding l) legends))"

subsection \<open>The timelines\<close>

record timelines_layout =
  left_width :: pynum
  right_width :: pynum
  max_text_height :: pynum
  lay_width :: pynum
  lay_height :: pynum

record timelines_renderer =
  tr_padding :: pynum
  tr_timelines :: "(timeline list \<times> colors) option"
  tr_range :: "(pynum \<times> pynum) option"
  tr_laid :: "timelines_layout option"

definition new_timelines :: timelines_renderer where
  "new_timelines = \<lparr>tr_padding = 10, tr_timelines = None, tr_range = None, tr_laid = None\<rparr>"

definition get_data_x_start :: "timelines_renderer \<Rightarrow> pynum res" where
  "get_data_x_start t = rbind (attr (tr_laid t)) (\<lambda>y.
     Inr (half (tr_padding t) + left_width y + tr_padding t + right_width y + half (tr_padding t)))"

definition timelines_height :: "timelines_renderer \<Rightarrow> pynum res" where
  "timelines_height t = rbind (attr (tr_laid t)) (\<lambda>y. Inr (lay_height y))"

definition alphabet :: string where
  "alphabet = ''ABCDEFGHIJKLMNOPQRSTUVWXYZabcedefghijklmnopqrstuvwxyz0123456789''"

definition widest :: "(string \<Rightarrow> text_extents) \<Rightarrow> string list \<Rightarrow> pynum" where
  "widest ext names = foldl (\<lambda>w n. nmax w (PyFloat (t_width (ext n)))) 0 names"

text \<open>The names of the lines of a timeline, in the order of the loops of \<^verbatim>\<open>layout\<close>.\<close>

definition line_names :: "timeline \<Rightarrow> string list" where
  "line_names t = map rl_name (tl_ranges t) @ map el_name (tl_event_int t) @ map el_name (tl_event_str t)"

definition timelines_layout :: "(string \<Rightarrow> text_extents) \<Rightarrow> timelines_renderer \<Rightarrow> int \<Rightarrow> timelines_renderer res" where
  "timelines_layout ext t width =
     rbind (attr (tr_timelines t)) (\<lambda>(ts, colors).
       let mth = PyFloat (t_height (ext alphabet));
           left = widest ext (map tl_name ts);
           right = widest ext (concat (map line_names ts));
           left_n = PyInt (int (length ts));
           range_n = PyInt (int (sum_list (map (length \<circ> tl_ranges) ts)));
           eventint_n = PyInt (int (sum_list (map (length \<circ> tl_event_int) ts)));
           eventstr_n = PyInt (int (sum_list (map (length \<circ> tl_event_str) ts)));
           p = tr_padding t;
           left_height = left_n * mth + (left_n - 1) * p;
           right_n = range_n + eventint_n + eventstr_n;
           right_height = (right_n - 1) * p + right_n * mth;
           data_height = (eventint_n + eventstr_n) * (mth + 5) + range_n * 10 + (right_n - 1) * p;
           height = nmax (nmax left_height right_height) data_height
       in Inr (t\<lparr>tr_laid := Some \<lparr>left_width = left, right_width = right, max_text_height = mth,
                                  lay_width = PyInt width, lay_height = height + p\<rparr>\<rparr>))"

definition draw_line :: "pynum \<Rightarrow> pynum \<Rightarrow> pynum \<Rightarrow> pynum \<Rightarrow> draw_cmd list" where
  "draw_line x y width height =
     [CMoveTo x y, CRelLineTo width height, CClosePath, COperatorSource, CLineWidth (PyFloat 1), CSourceRGB 0 0 0, CStroke]"

definition grey :: draw_cmd where
  "grey = CSourceRGB (PyFloat (9/10)) (PyFloat (9/10)) (PyFloat (9/10))"

definition background :: "int \<Rightarrow> pynum \<Rightarrow> pynum \<Rightarrow> pynum \<Rightarrow> pynum \<Rightarrow> pynum \<Rightarrow> draw_cmd list" where
  "background grey_background p x y width height =
     (if grey_background mod 2 = 0 then [CRectangle x (y - half p) width (height + p), grey, CFill] else [])"

text \<open>The pixel at which a time is drawn: \<^verbatim>\<open>int(x + (t - start) * width / (end - start))\<close>.\<close>

definition pixel :: "pynum \<Rightarrow> pynum \<Rightarrow> pynum \<Rightarrow> pynum \<Rightarrow> pynum \<Rightarrow> int res" where
  "pixel x width start fin t = rbind (ndiv ((t - start) * width) (fin - start)) (\<lambda>d. Inr (nint (x + d)))"

definition event_step :: "('v \<Rightarrow> string) \<Rightarrow> pynum \<Rightarrow> pynum \<Rightarrow> pynum \<Rightarrow> pynum \<Rightarrow> pynum \<Rightarrow> pynum
    \<Rightarrow> int \<times> draw_cmd list \<Rightarrow> 'v event \<Rightarrow> (int \<times> draw_cmd list) res" where
  "event_step txt start fin mth x y width st ev =
     (case st of (last_x, cs) \<Rightarrow>
        rbind (pixel x width start fin (PyInt (e_at ev))) (\<lambda>real_x.
          if real_x > last_x + 2 then
            Inr (real_x, cs @ [CRectangle (PyInt real_x) y 1 1, CSourceRGB 1 0 0, CStroke,
                               CMoveTo (PyInt real_x) (y + mth), CSourceRGB 0 0 0, CShowText (txt (e_value ev))])
          else Inr (last_x, cs)))"

definition draw_events :: "('v \<Rightarrow> string) \<Rightarrow> timelines_renderer \<Rightarrow> int \<Rightarrow> 'v event list \<Rightarrow> pynum \<Rightarrow> pynum \<Rightarrow> pynum \<Rightarrow> pynum
    \<Rightarrow> draw_cmd list res" where
  "draw_events txt t grey_background es x y width height =
     rbind (attr (tr_range t)) (\<lambda>(start, fin).
     rbind (attr (tr_laid t)) (\<lambda>lay.
       case get_events_bounds es (nval start) (nval fin) of (lo, hi) \<Rightarrow>
         rbind (rfold (event_step txt start fin (max_text_height lay) x y width) (nint x, []) (py_slice es lo hi))
           (\<lambda>(last_x, cs). Inr (background grey_background (tr_padding t) x y width height @ cs))))"

definition range_step :: "pynum \<Rightarrow> pynum \<Rightarrow> pynum \<Rightarrow> pynum \<Rightarrow> pynum
    \<Rightarrow> colors \<times> int \<times> draw_cmd list \<Rightarrow> data_range \<Rightarrow> (colors \<times> int \<times> draw_cmd list) res" where
  "range_step start fin x y width st r =
     (case st of (cols, last_x, cs) \<Rightarrow>
        let s = nmax (PyInt (r_start r)) start; e = nmin (PyInt (r_end r)) fin in
        rbind (pixel x width start fin s) (\<lambda>x_start.
        rbind (pixel x width start fin e) (\<lambda>x_end.
          if x_end > last_x then
            rbind (color_lookup (r_value r) cols) (\<lambda>(cols', (cr, cg, cb)).
              Inr (cols', x_end, cs @ [CRectangle (PyInt x_start) y (PyInt (x_end - x_start)) 10, CSourceRGB 0 0 0,
                                       CStrokePreserve, CSourceRGB (PyInt cr) (PyInt cg) (PyInt cb), CFill]))
          else Inr (cols, last_x, cs))))"

definition draw_ranges :: "timelines_renderer \<Rightarrow> colors \<Rightarrow> int \<Rightarrow> data_range list \<Rightarrow> pynum \<Rightarrow> pynum \<Rightarrow> pynum \<Rightarrow> pynum
    \<Rightarrow> (colors \<times> draw_cmd list) res" where
  "draw_ranges t cols grey_background rs x y width height =
     rbind (attr (tr_range t)) (\<lambda>(start, fin).
       case get_ranges_bounds rs (nval start) (nval fin) of (lo, hi) \<Rightarrow>
         rbind (rfold (range_step start fin x y width) (cols, nint (x - 1), []) (py_slice rs lo hi))
           (\<lambda>(cols', last_x, cs). Inr (cols', background grey_background (tr_padding t) x y width height @ cs)))"

text \<open>
  \<^verbatim>\<open>draw\<close> goes down the lines: the state is the colours, the number of lines so far and the
  height of the next. The columns are the starts of the names and the data, and the width of
  the names of the lines.
\<close>

type_synonym draw_pos = "colors \<times> int \<times> pynum \<times> draw_cmd list"

definition line_label :: "(string \<Rightarrow> text_extents) \<Rightarrow> pynum \<Rightarrow> pynum \<Rightarrow> pynum \<Rightarrow> string \<Rightarrow> draw_cmd list" where
  "line_label ext x cur_y mth name =
     [CMoveTo x (cur_y + mth - (PyFloat (t_height (ext name)) + PyFloat (y_bearing (ext name)))), CShowText name]"

definition draw_event_line :: "(string \<Rightarrow> text_extents) \<Rightarrow> ('v \<Rightarrow> string) \<Rightarrow> timelines_renderer \<Rightarrow> timelines_layout
    \<Rightarrow> pynum \<Rightarrow> pynum \<Rightarrow> pynum \<Rightarrow> draw_pos \<Rightarrow> 'v event_line \<Rightarrow> draw_pos res" where
  "draw_event_line ext txt t lay right_x data_x data_width st line =
     (case st of (cols, n, cur_y, cs) \<Rightarrow>
        let p = tr_padding t; mth = max_text_height lay; next_y = cur_y + (mth + 5 + p) in
        rbind (draw_events txt t n (events line) data_x cur_y data_width (mth + 5)) (\<lambda>ds.
          Inr (cols, n + 1, next_y, cs @ line_label ext right_x cur_y mth (el_name line) @ ds @
                 draw_line (right_x - half p) (next_y - half p) (right_width lay + p) 0)))"

definition draw_range_line :: "(string \<Rightarrow> text_extents) \<Rightarrow> timelines_renderer \<Rightarrow> timelines_layout
    \<Rightarrow> pynum \<Rightarrow> pynum \<Rightarrow> pynum \<Rightarrow> draw_pos \<Rightarrow> range_line \<Rightarrow> draw_pos res" where
  "draw_range_line ext t lay right_x data_x data_width st line =
     (case st of (cols, n, cur_y, cs) \<Rightarrow>
        let p = tr_padding t; mth = max_text_height lay; next_y = cur_y + (mth + p) in
        rbind (draw_ranges t cols n (ranges line) data_x cur_y data_width 10) (\<lambda>(cols', ds).
          Inr (cols', n + 1, next_y, cs @ line_label ext right_x cur_y mth (rl_name line) @ ds @
                 draw_line (right_x - half p) (next_y - half p) (right_width lay + p) 0)))"

definition draw_timeline :: "(string \<Rightarrow> text_extents) \<Rightarrow> timelines_renderer \<Rightarrow> timelines_layout
    \<Rightarrow> pynum \<Rightarrow> pynum \<Rightarrow> pynum \<Rightarrow> pynum \<Rightarrow> draw_pos \<Rightarrow> timeline \<Rightarrow> draw_pos res" where
  "draw_timeline ext t lay left_x right_x data_x data_width st tml =
     (case st of (cols, n, cur_y, cs) \<Rightarrow>
        rbind (rfold (draw_event_line ext int_str t lay right_x data_x data_width)
                 (cols, n, cur_y, cs @ line_label ext left_x cur_y (max_text_height lay) (tl_name tml)) (tl_event_int tml)) (\<lambda>st.
        rbind (rfold (draw_event_line ext id t lay right_x data_x data_width) st (tl_event_str tml)) (\<lambda>st.
        rbind (rfold (draw_range_line ext t lay right_x data_x data_width) st (tl_ranges tml)) (\<lambda>(cols', n', y', cs').
          Inr (cols', n', y', cs' @ draw_line 0 (y' - half (tr_padding t)) (lay_width lay) 0)))))"

definition timelines_draw :: "(string \<Rightarrow> text_extents) \<Rightarrow> timelines_renderer \<Rightarrow> (timelines_renderer \<times> draw_cmd list) res" where
  "timelines_draw ext t =
     rbind (attr (tr_laid t)) (\<lambda>lay.
     rbind (attr (tr_timelines t)) (\<lambda>(ts, cols).
       let p = tr_padding t;
           left_x_start = half p; left_x_end = left_x_start + left_width lay;
           right_x_start = left_x_end + p; right_x_end = right_x_start + right_width lay;
           data_x_start = right_x_end + half p; data_width = lay_width lay - data_x_start
       in rbind (rfold (draw_timeline ext t lay left_x_start right_x_start data_x_start data_width)
                   (cols, 1, half p, draw_line 0 0 (lay_width lay) 0) ts) (\<lambda>(cols', n, cur_y, cs).
            let bot_y = cur_y - half p in
            Inr (t\<lparr>tr_timelines := Some (ts, cols')\<rparr>,
                 cs @ draw_line (left_x_end + half p) 0 0 bot_y @ draw_line (right_x_end + half p) 0 0 bot_y))))"

subsection \<open>The scales\<close>

record scale_layout =
  s_delta :: int
  s_width :: pynum
  s_text_height :: pynum

record scale_renderer =
  s_top :: int
  s_bounds :: "(pynum \<times> pynum) option"
  s_laid :: "scale_layout option"

definition new_scale :: "int \<Rightarrow> scale_renderer" where
  "new_scale tp = \<lparr>s_top = tp, s_bounds = None, s_laid = None\<rparr>"

definition set_bounds :: "scale_renderer \<Rightarrow> pynum \<Rightarrow> pynum \<Rightarrow> scale_renderer" where
  "set_bounds s lo hi = s\<lparr>s_bounds := Some (lo, hi)\<rparr>"

definition get_position :: "scale_renderer \<Rightarrow> pynum \<Rightarrow> pynum res" where
  "get_position s x =
     rbind (attr (s_bounds s)) (\<lambda>(lo, hi).
     rbind (attr (s_laid s)) (\<lambda>lay. ndiv ((x - lo) * s_width lay) (hi - lo)))"

text \<open>\<^verbatim>\<open>while (closest*10) < data_delta: closest *= 10\<close>.\<close>

definition closest_loop :: "pynum \<Rightarrow> int option" where
  "closest_loop data_delta = while_option (\<lambda>c. PyInt (c * 10) < data_delta) (\<lambda>c. c * 10) 1"

definition scale_delta :: "pynum \<Rightarrow> int \<Rightarrow> int res" where
  "scale_delta data_delta closest =
     rbind (ndiv data_delta (PyInt closest)) (\<lambda>q.
       Inr (if nval q = 0 then closest else if nval q = 1 then closest div 10 else closest))"

text \<open>The first tick after \<^verbatim>\<open>lo\<close> and the last tick up to \<^verbatim>\<open>hi\<close>.\<close>

definition tick_bounds :: "pynum \<Rightarrow> pynum \<Rightarrow> int \<Rightarrow> (pynum \<times> pynum) res" where
  "tick_bounds lo hi delta =
     rbind (nmod lo (PyInt delta)) (\<lambda>ml.
     rbind (nmod hi (PyInt delta)) (\<lambda>mh. Inr (lo - ml + PyInt delta, hi - mh)))"

definition scale_layout :: "(string \<Rightarrow> text_extents) \<Rightarrow> scale_renderer \<Rightarrow> pynum \<Rightarrow> scale_renderer res" where
  "scale_layout ext s width =
     rbind (attr (s_bounds s)) (\<lambda>(lo, hi).
       let data_delta = hi - lo in
       rbind (scale_delta data_delta (the (closest_loop data_delta))) (\<lambda>delta.
       rbind (tick_bounds lo hi delta) (\<lambda>(start, fin).
         Inr (s\<lparr>s_laid := Some \<lparr>s_delta = delta, s_width = width, s_text_height = PyFloat (t_height (ext alphabet))\<rparr>\<rparr>))))"

definition scale_height :: "scale_renderer \<Rightarrow> pynum res" where
  "scale_height s = rbind (attr (s_laid s)) (\<lambda>lay. Inr (s_text_height lay + 10))"

definition scale_ticks :: "pynum \<Rightarrow> pynum \<Rightarrow> int \<Rightarrow> int list res" where
  "scale_ticks lo hi delta =
     rbind (tick_bounds lo hi delta) (\<lambda>(start, fin). py_range (nint start) (nint (fin + PyInt delta)) delta)"

definition tick_mark :: "scale_renderer \<Rightarrow> pynum \<Rightarrow> int \<Rightarrow> (pynum \<times> draw_cmd list) res" where
  "tick_mark s depth x =
     rbind (get_position s (PyInt x)) (\<lambda>real_x.
       Inr (real_x, [CMoveTo real_x 0, CLineTo real_x depth, CClosePath, CStroke]))"

definition draw_tick :: "(string \<Rightarrow> text_extents) \<Rightarrow> scale_renderer \<Rightarrow> pynum \<Rightarrow> int \<Rightarrow> draw_cmd list res" where
  "draw_tick ext s sg x =
     rbind (tick_mark s (5 * sg) x) (\<lambda>(real_x, cs).
       let e = ext (int_str x);
           text_delta = (if s_top s \<noteq> 0 then PyFloat (t_height e) + PyFloat (y_bearing e) else - PyFloat (y_bearing e))
       in Inr (cs @ [CMoveTo (real_x - half (PyFloat (t_width e))) ((5 + 5 + text_delta) * sg), CShowText (int_str x)]))"

definition scale_draw :: "(string \<Rightarrow> text_extents) \<Rightarrow> scale_renderer \<Rightarrow> draw_cmd list res" where
  "scale_draw ext s =
     rbind (attr (s_laid s)) (\<lambda>lay.
     rbind (attr (s_bounds s)) (\<lambda>(lo, hi).
       let delta = s_delta lay; sg = (if s_top s = 1 then -1 else 1 :: pynum); sub = delta div 10 in
       rbind (scale_ticks lo hi delta) (\<lambda>ticks.
       rbind (rmap (draw_tick ext s sg) ticks) (\<lambda>marks.
       rbind (if sub > 0 then rbind (scale_ticks lo hi sub) (rmap (tick_mark s (3 * sg))) else Inr []) (\<lambda>subs.
         Inr ([CSourceRGB 0 0 0, CLineWidth (PyFloat 1)] @ concat marks @ concat (map snd subs)))))))"

subsection \<open>The graphic\<close>

record graphic =
  g_start :: rat
  g_end :: rat
  g_mid :: scale_renderer
  g_bot :: scale_renderer
  g_width :: int
  g_height :: int
  g_range :: "(pynum \<times> pynum) option"
  g_data :: "timelines_renderer option"
  g_legend :: "legend_renderer option"

definition new_graphic :: "int \<Rightarrow> int \<Rightarrow> graphic" where
  "new_graphic start fin =
     \<lparr>g_start = of_int start, g_end = of_int fin, g_mid = new_scale 1,
      g_bot = set_bounds (new_scale 0) (PyInt start) (PyInt fin),
      g_width = 1, g_height = 1, g_range = None, g_data = None, g_legend = None\<rparr>"

text \<open>The heights the parts report.\<close>

definition legend_size :: "graphic \<Rightarrow> pynum res" where
  "legend_size g = rbind (attr (g_legend g)) legend_height"

definition data_size :: "graphic \<Rightarrow> pynum res" where
  "data_size g = rbind (attr (g_data g)) timelines_height"

definition data_x_start :: "graphic \<Rightarrow> pynum res" where
  "data_x_start g = rbind (attr (g_data g)) get_data_x_start"

definition get_data_rectangle :: "graphic \<Rightarrow> (pynum \<times> pynum \<times> pynum \<times> pynum) res" where
  "get_data_rectangle g =
     rbind (legend_size g) (\<lambda>y_start. rbind (data_x_start g) (\<lambda>x_start. rbind (data_size g) (\<lambda>h.
       Inr (x_start, y_start, PyInt (g_width g) - x_start, h))))"

definition scale_data :: "graphic \<Rightarrow> pynum \<Rightarrow> pynum res" where
  "scale_data g x =
     rbind (data_x_start g) (\<lambda>x_start.
     rbind (ndiv x (PyInt (g_width g) - x_start)) (\<lambda>q.
     rbind (attr (g_range g)) (\<lambda>(rs, re). Inr (q * (re - rs)))))"

definition get_selection_rectangle :: "graphic \<Rightarrow> (pynum \<times> pynum \<times> pynum \<times> pynum) res" where
  "get_selection_rectangle g =
     rbind (legend_size g) (\<lambda>h1. rbind (data_size g) (\<lambda>h2. rbind (scale_height (g_mid g)) (\<lambda>h3.
     rbind (scale_height (g_bot g)) (\<lambda>h4. rbind (attr (g_range g)) (\<lambda>(rs, re).
     rbind (get_position (g_bot g) rs) (\<lambda>x_start. rbind (get_position (g_bot g) re) (\<lambda>x_end.
       Inr (x_start, h1 + h2 + h3 + 20, x_end - x_start, h4 + 20))))))))"

definition scale_selection :: "graphic \<Rightarrow> pynum \<Rightarrow> pynum res" where
  "scale_selection g x =
     rbind (ndiv x (PyInt (g_width g))) (\<lambda>q. Inr (q * (PyFloat (g_end g) - PyFloat (g_start g))))"

definition graphic_layout :: "(string \<Rightarrow> text_extents) \<Rightarrow> graphic \<Rightarrow> int \<Rightarrow> int \<Rightarrow> graphic \<times> unit res" where
  "graphic_layout ext g width height =
     (let g = g\<lparr>g_width := width, g_height := height\<rparr> in
      call g (rbind (attr (g_legend g)) (\<lambda>l. legend_layout ext l width)) (\<lambda>l.
      let g = g\<lparr>g_legend := Some l\<rparr> in
      call g (rbind (attr (g_data g)) (\<lambda>d. timelines_layout ext d width)) (\<lambda>d.
      let g = g\<lparr>g_data := Some d\<rparr> in
      call g (rbind (get_data_x_start d) (\<lambda>x. scale_layout ext (g_mid g) (PyInt width - x))) (\<lambda>m.
      let g = g\<lparr>g_mid := m\<rparr> in
      call g (scale_layout ext (g_bot g) (PyInt width)) (\<lambda>b.
        (g\<lparr>g_bot := b\<rparr>, Inr ()))))))"

definition set_range :: "(string \<Rightarrow> text_extents) \<Rightarrow> graphic \<Rightarrow> pynum \<Rightarrow> pynum \<Rightarrow> graphic \<times> unit res" where
  "set_range ext g start fin =
     (let s = nmin start fin; e = nmax start fin;
          start = nmax (PyFloat (g_start g)) s; fin = nmin (PyFloat (g_end g)) e;
          g = g\<lparr>g_range := Some (start, fin)\<rparr>
      in call g (attr (g_data g)) (\<lambda>d.
         let g = g\<lparr>g_data := Some (d\<lparr>tr_range := Some (start, fin)\<rparr>), g_mid := set_bounds (g_mid g) start fin\<rparr>
         in graphic_layout ext g (g_width g) (g_height g)))"


text \<open>The three heights that position the lower half: of the legend, the data and the middle scale.\<close>

definition height_used :: "graphic \<Rightarrow> pynum res" where
  "height_used g = rbind (legend_size g) (\<lambda>a. rbind (data_size g) (\<lambda>b. rbind (scale_height (g_mid g)) (\<lambda>c. Inr (a + b + c))))"

definition draw_upper :: "(string \<Rightarrow> text_extents) \<Rightarrow> graphic \<Rightarrow> (graphic \<times> draw_cmd list) res" where
  "draw_upper ext g =
     rbind (attr (g_legend g)) (\<lambda>l. rbind (legend_draw ext l) (\<lambda>legend_cs. rbind (legend_height l) (\<lambda>top.
     rbind (attr (g_data g)) (\<lambda>d. rbind (timelines_draw ext d) (\<lambda>(d', data_cs).
     rbind (get_data_x_start d) (\<lambda>data_x. rbind (scale_height (g_mid g)) (\<lambda>mid_height.
     rbind (height_used g) (\<lambda>used. rbind (scale_draw ext (g_mid g)) (\<lambda>mid_cs.
       let w = PyInt (g_width g) in
       Inr (g\<lparr>g_data := Some d'\<rparr>,
         [CSave] @ legend_cs @ [CRestore,
          CMoveTo 0 top, CLineTo w top, CClosePath, CLineWidth 2, CSourceRGB 0 0 0, CStroke,
          CSave, CTranslate 0 top] @ data_cs @ [CRestore,
          CSave, CTranslate data_x used] @ mid_cs @ [CRestore,
          CMoveTo data_x used, CRelLineTo 0 (- mid_height), CClosePath, CSourceRGB 0 0 0, CLineWidth 2, CStroke,
          CMoveTo 0 used, CLineTo w used, CClosePath, CLineWidth 2, CSourceRGB 0 0 0, CStroke]))))))))))"

definition draw_connections :: "pynum \<Rightarrow> pynum \<Rightarrow> pynum \<Rightarrow> pynum \<Rightarrow> pynum \<Rightarrow> draw_cmd list" where
  "draw_connections w used data_x select_start select_end =
     [CMoveTo 0 used, CLineTo data_x used, CLineTo select_start (used + 20), CLineTo 0 (used + 20), CLineTo 0 used,
      CSourceRGB 0 0 0, CLineWidth 1, CStrokePreserve, grey, CFill,
      CMoveTo w used, CLineTo w (used + 20), CLineTo select_end (used + 20), CLineTo w used,
      CSourceRGB 0 0 0, CLineWidth 1, CStrokePreserve, grey, CFill]"

definition draw_unused :: "pynum \<Rightarrow> pynum \<Rightarrow> pynum \<Rightarrow> pynum \<Rightarrow> pynum \<Rightarrow> draw_cmd list" where
  "draw_unused w used unused_start unused_end unused_height =
     [CRectangle 0 used unused_start unused_height, CRectangle unused_end used (w - unused_end) unused_height, grey, CFill,
      CMoveTo unused_end used, CLineTo w used, CLineTo w (used + unused_height), CLineTo 0 (used + unused_height),
      CLineTo 0 used, CLineTo unused_start used, CClosePath, CLineWidth 2, CSourceRGB 0 0 0, CStroke,
      CMoveTo unused_start used, CLineTo unused_end used, CClosePath, CLineWidth 1, grey, CStroke,
      CSave, CMoveTo (nmax unused_start 2) used, CRelLineTo 0 unused_height,
      CMoveTo (nmin unused_end (w - 2)) used, CRelLineTo 0 unused_height,
      CDash [5] 0, CSourceRGB 0 0 0, CLineWidth 1, CStroke, CRestore]"

definition graphic_draw :: "(string \<Rightarrow> text_extents) \<Rightarrow> graphic \<Rightarrow> (graphic \<times> draw_cmd list) res" where
  "graphic_draw ext g =
     rbind (draw_upper ext g) (\<lambda>(g', upper).
     rbind (attr (g_range g)) (\<lambda>(rs, re).
     rbind (get_position (g_bot g) rs) (\<lambda>select_start. rbind (get_position (g_bot g) re) (\<lambda>select_end.
     rbind (height_used g) (\<lambda>used. rbind (data_x_start g) (\<lambda>data_x.
     rbind (scale_height (g_bot g)) (\<lambda>bot_height. rbind (scale_draw ext (g_bot g)) (\<lambda>bot_cs.
       let w = PyInt (g_width g) in
       Inr (g', [CSave, CSourceRGB 1 1 1, COperatorSource, CRectangle 0 0 w (PyInt (g_height g)), CFill] @ upper @
         draw_connections w used data_x select_start select_end @
         draw_unused w (used + 20) select_start select_end (bot_height + 20) @
         [CSave, CTranslate 0 (used + 20)] @ bot_cs @ [CRestore])))))))))"


subsection \<open>The scales are right\<close>

lemma closest_terminates:
  "\<exists>k. closest_loop d = Some (10 ^ k) \<and> nval d \<le> 10 * 10 ^ k \<and> (k = 0 \<or> 10 ^ k < nval d)"
proof -
  let ?b = "\<lambda>c. PyInt (c * 10) < d" and ?c = "\<lambda>c :: int. c * 10"
  let ?P = "\<lambda>c. \<exists>k. c = 10 ^ k \<and> (k = 0 \<or> 10 ^ k < nval d)"
  have step: "?P (?c c)" if "?P c" "?b c" for c
  proof -
    from that obtain k where "c = 10 ^ k" by blast
    with that(2) show ?thesis by (intro exI [of _ "Suc k"]) (simp add: num_le mult.commute)
  qed
  have "\<exists>t. while_option ?b ?c 1 = Some t"
  proof (rule measure_while_option_Some [where P = "\<lambda>c. 1 \<le> c" and f = "\<lambda>c. nat (\<lceil>nval d\<rceil> - c)"])
    fix c :: int
    assume c: "1 \<le> c" "?b c"
    then have "c * 10 < \<lceil>nval d\<rceil>" by (simp add: num_le less_ceiling_iff)
    with c(1) show "1 \<le> ?c c \<and> nat (\<lceil>nval d\<rceil> - ?c c) < nat (\<lceil>nval d\<rceil> - c)" by simp
  qed simp
  then obtain t where t: "while_option ?b ?c 1 = Some t" by blast
  have "?P t" by (rule while_option_rule [OF _ t]) (use step in \<open>auto intro: exI [of _ 0]\<close>)
  moreover have "\<not> ?b t" by (rule while_option_stop [OF t])
  ultimately show ?thesis using t by (auto simp: closest_loop_def num_le mult.commute)
qed

text \<open>The distance of the ticks: none for a scale of length 1, else a power of ten.\<close>

lemma scale_delta_cases:
  "\<exists>delta. scale_delta d (the (closest_loop d)) = Inr delta \<and>
     (if nval d = 1 then delta = 0 else (\<exists>k. delta = 10 ^ k) \<and> nval d \<le> 20 * of_int delta)"
proof -
  obtain k where k: "closest_loop d = Some (10 ^ k)" "nval d \<le> 10 * 10 ^ k" "k = 0 \<or> 10 ^ k < nval d"
    using closest_terminates by blast
  define c :: int where "c = 10 ^ k"
  define q where "q = mixed (div) (/) d (PyInt c)"
  have c: "0 < c" by (simp add: c_def)
  have q: "nval q \<le> nval d / of_int c" "nval d / of_int c < nval q + 1"
    using nval_div_floor [of d "PyInt c"] by (simp_all add: q_def)
  have eq: "scale_delta d (the (closest_loop d)) = Inr (if nval q = 0 then c else if nval q = 1 then c div 10 else c)"
    using c k(1) by (simp add: scale_delta_def ndiv_def q_def c_def)
  have d10: "nval d \<le> 10 * of_int c" using k(2) by (simp add: c_def)
  show ?thesis
  proof (cases "nval q = 1")
    case False
    then have "nval d \<noteq> 1"
    proof (rule contrapos_nn)
      assume d: "nval d = 1"
      have "(1::rat) \<le> 10 ^ k" by simp
      then have "k = 0" using k(3) d by linarith
      then have "c = 1" by (simp add: c_def)
      then show "nval q = 1" using d by (cases d) (auto simp: q_def)
    qed
    moreover have "nval d \<le> 20 * of_int c" using d10 c by simp
    ultimately show ?thesis using eq False by (auto simp: c_def)
  next
    case True
    then have lt: "of_int c \<le> nval d" "nval d < 2 * of_int c"
      using q c by (simp_all add: field_simps)
    show ?thesis
    proof (cases k)
      case 0
      then have "c = 1" by (simp add: c_def)
      have "nval d = 1"
        using True \<open>c = 1\<close> by (cases d) (auto simp: q_def)
      then show ?thesis using eq True \<open>c = 1\<close> by simp
    next
      case (Suc j)
      then have "1 < nval d" using k(3) one_le_power [of "10::rat" k] by simp
      moreover have "c div 10 = 10 ^ j" "c = 10 * 10 ^ j" using Suc by (simp_all add: c_def)
      ultimately show ?thesis using eq True lt by (auto simp: c_def)
    qed
  qed
qed

lemma tick_bounds_eq:
  assumes "0 < delta"
  shows "\<exists>start fin. tick_bounds lo hi delta = Inr (start, fin) \<and>
    nval start = of_int (delta * (\<lfloor>nval lo / of_int delta\<rfloor> + 1)) \<and> nval fin = of_int (delta * \<lfloor>nval hi / of_int delta\<rfloor>)"
  using nval_mod [of "PyInt delta" lo] nval_mod [of "PyInt delta" hi] assms
  by (auto simp: tick_bounds_def algebra_simps)

lemma nint_int_val: "nval a = of_int i \<Longrightarrow> nint a = i"
  by (cases a) auto

lemma scale_ticks_members:
  assumes "0 < delta"
  shows "\<exists>xs. scale_ticks lo hi delta = Inr xs \<and>
    set xs = {x. nval lo < of_int x \<and> of_int x \<le> nval hi \<and> delta dvd x}"
proof -
  let ?l = "\<lfloor>nval lo / of_int delta\<rfloor>" and ?h = "\<lfloor>nval hi / of_int delta\<rfloor>"
  obtain start fin where b: "tick_bounds lo hi delta = Inr (start, fin)"
    "nval start = of_int (delta * (?l + 1))" "nval fin = of_int (delta * ?h)"
    using tick_bounds_eq [OF assms] by blast
  have n: "nint start = delta * (?l + 1)" "nint (fin + PyInt delta) = delta * (?h + 1)"
    by (rule nint_int_val, simp add: b(2,3) algebra_simps)+
  obtain xs where xs: "py_range (delta * (?l + 1)) (delta * (?h + 1)) delta = Inr xs"
    "set xs = {x. delta * (?l + 1) \<le> x \<and> x < delta * (?h + 1) \<and> delta dvd (x - delta * (?l + 1))}"
    using py_range_members [OF assms] by blast
  have "delta * (?l + 1) \<le> x \<and> x < delta * (?h + 1) \<and> delta dvd (x - delta * (?l + 1)) \<longleftrightarrow>
      nval lo < of_int x \<and> of_int x \<le> nval hi \<and> delta dvd x" for x
  proof (cases "delta dvd x")
    case True
    then obtain k where k: "x = delta * k" by blast
    have "?l + 1 \<le> k \<longleftrightarrow> nval lo / of_int delta < of_int k" by linarith
    moreover have "k < ?h + 1 \<longleftrightarrow> of_int k \<le> nval hi / of_int delta" by linarith
    ultimately show ?thesis using assms True
      by (simp add: k pos_divide_less_eq pos_le_divide_eq mult.commute)
  qed (simp add: dvd_diff_left_iff)
  then show ?thesis using xs by (simp add: scale_ticks_def b(1) n)
qed

lemma scale_layout_outcome:
  "\<exists>delta. scale_layout ext (set_bounds s lo hi) width =
       (if nval hi - nval lo = 1 then Inl ZeroDivisionError
        else Inr (set_bounds s lo hi\<lparr>s_laid := Some \<lparr>s_delta = delta, s_width = width,
                    s_text_height = PyFloat (t_height (ext alphabet))\<rparr>\<rparr>)) \<and>
     (nval hi - nval lo = 1 \<or> (\<exists>k. delta = 10 ^ k) \<and> nval hi - nval lo \<le> 20 * of_int delta)"
proof -
  obtain delta where d: "scale_delta (hi - lo) (the (closest_loop (hi - lo))) = Inr delta"
    "if nval (hi - lo) = 1 then delta = 0 else (\<exists>k. delta = 10 ^ k) \<and> nval (hi - lo) \<le> 20 * of_int delta"
    using scale_delta_cases by blast
  have lay: "scale_layout ext (set_bounds s lo hi) width =
    rbind (tick_bounds lo hi delta) (\<lambda>p. Inr (set_bounds s lo hi\<lparr>s_laid := Some \<lparr>s_delta = delta, s_width = width,
                    s_text_height = PyFloat (t_height (ext alphabet))\<rparr>\<rparr>))"
    by (cases "tick_bounds lo hi delta") (auto simp: scale_layout_def set_bounds_def d(1))
  show ?thesis
  proof (cases "nval hi - nval lo = 1")
    case True
    then have "tick_bounds lo hi delta = Inl ZeroDivisionError" using d(2) by (simp add: tick_bounds_def nmod_def)
    then show ?thesis using True by (simp add: lay)
  next
    case False
    then obtain k where "delta = 10 ^ k" using d(2) by auto
    then have pos: "0 < delta" by simp
    then obtain p where "tick_bounds lo hi delta = Inr p" using tick_bounds_eq by blast
    then show ?thesis using d(2) False by (intro exI [of _ delta]) (simp add: lay)
  qed
qed

text \<open>
  The search for the distance of the ticks ends; laying out a scale raises
  ZeroDivisionError when its bounds differ by 1 and succeeds otherwise, with a power of ten as
  distance and at most twenty distances between the bounds; and the ticks drawn are then exactly
  the multiples of the distance after the lower bound and up to the upper one.
\<close>

theorem scale_correct:
  "(\<exists>c. closest_loop (hi - lo) = Some c) \<and>
   (\<exists>delta. scale_layout ext (set_bounds s lo hi) width =
       (if nval hi - nval lo = 1 then Inl ZeroDivisionError
        else Inr (set_bounds s lo hi\<lparr>s_laid := Some \<lparr>s_delta = delta, s_width = width,
                    s_text_height = PyFloat (t_height (ext alphabet))\<rparr>\<rparr>)) \<and>
     (nval hi - nval lo = 1 \<or>
        (\<exists>k. delta = 10 ^ k) \<and> nval hi - nval lo \<le> 20 * of_int delta \<and>
        (\<exists>xs. scale_ticks lo hi delta = Inr xs \<and>
           set xs = {x. nval lo < of_int x \<and> of_int x \<le> nval hi \<and> delta dvd x})))"
proof -
  have c: "\<exists>c. closest_loop (hi - lo) = Some c" using closest_terminates by blast
  obtain delta where d: "scale_layout ext (set_bounds s lo hi) width =
       (if nval hi - nval lo = 1 then Inl ZeroDivisionError
        else Inr (set_bounds s lo hi\<lparr>s_laid := Some \<lparr>s_delta = delta, s_width = width,
                    s_text_height = PyFloat (t_height (ext alphabet))\<rparr>\<rparr>))"
    "nval hi - nval lo = 1 \<or> (\<exists>k. delta = 10 ^ k) \<and> nval hi - nval lo \<le> 20 * of_int delta"
    using scale_layout_outcome by blast
  have "\<exists>xs. scale_ticks lo hi delta = Inr xs \<and> set xs = {x. nval lo < of_int x \<and> of_int x \<le> nval hi \<and> delta dvd x}"
    if "\<exists>k. delta = 10 ^ k"
    using that by (intro scale_ticks_members) auto
  with d show ?thesis by (intro conjI [OF c] exI [of _ delta]) blast+
qed

subsection \<open>The legend fits\<close>

text \<open>The boxes of the items: their corner, and the text whose size makes the item's.\<close>

fun legend_boxes :: "pynum \<Rightarrow> pynum \<Rightarrow> legend_pos \<Rightarrow> text_extents list \<Rightarrow> (pynum \<times> pynum \<times> text_extents) list" where
  "legend_boxes p width st [] = []"
| "legend_boxes p width st (e # es) =
     (case legend_step p width st e of (lh, th, lu) \<Rightarrow>
        (lu - item_width p e, th, e) # legend_boxes p width (lh, th, lu) es)"

definition box_before :: "pynum \<Rightarrow> pynum \<times> pynum \<times> text_extents \<Rightarrow> pynum \<times> pynum \<times> text_extents \<Rightarrow> bool" where
  "box_before p b c = (case b of (x, y, e) \<Rightarrow> case c of (x', y', e') \<Rightarrow>
     y + item_height p e \<le> y' \<or> (nval y' = nval y \<and> x + item_width p e \<le> x'))"

lemma legend_items_boxes:
  "i + length legends \<le> length colors \<Longrightarrow>
   legend_items ext p width colors i st legends =
     Inr (concat (map (\<lambda>(legend, col, x, y, e). legend_item p col legend e x y)
       (zip legends (zip (drop i colors) (legend_boxes p width st (map ext legends))))))"
proof (induction legends arbitrary: i st)
  case (Cons legend legends)
  then have "drop i colors = colors ! i # drop (i + 1) colors" by (simp add: Cons_nth_drop_Suc)
  then show ?case using Cons by (simp split: prod.split)
qed simp

definition size_ok :: "pynum \<Rightarrow> pynum \<Rightarrow> text_extents \<Rightarrow> bool" where
  "size_ok p width e \<longleftrightarrow> 0 \<le> t_width e \<and> 0 \<le> t_height e \<and> p + item_width p e \<le> width"

lemma legend_boxes_placed:
  assumes "list_all (size_ok p width) es" and "0 \<le> p"
    and "0 \<le> nval lh" and "p \<le> lu"
    and "foldl (legend_step p width) (lh, th, lu) es = (lh', th', lu')"
  shows "lh \<le> lh' \<and> th \<le> th' \<and>
    list_all (\<lambda>(x, y, e). p \<le> x \<and> x + item_width p e \<le> width \<and> th \<le> y \<and> y + item_height p e \<le> th' + lh' \<and>
                (nval y = nval th \<and> lu \<le> x \<or> th + lh \<le> y)) (legend_boxes p width (lh, th, lu) es) \<and>
    sorted_wrt (box_before p) (legend_boxes p width (lh, th, lu) es)"
  using assms
proof (induction es arbitrary: lh th lu)
  case Nil
  then show ?case by (simp add: num_le)
next
  case (Cons e es)
  define lh2 where "lh2 = (if item_height p e > lh then item_height p e else lh)"
  define wrap where "wrap \<longleftrightarrow> lu + item_width p e > width"
  define th2 where "th2 = (if wrap then th + lh2 else th)"
  define lu2 where "lu2 = (if wrap then p + item_width p e else lu + item_width p e)"
  have st: "legend_step p width (lh, th, lu) e = (lh2, th2, lu2)"
    by (simp add: legend_step_def Let_def lh2_def th2_def lu2_def wrap_def)
  have ok: "size_ok p width e" and p: "0 \<le> nval p" using Cons.prems by (simp_all add: num_le)
  have iw: "0 \<le> nval (item_width p e)" using ok p by (simp add: size_ok_def item_width_def)
  have h: "nval lh \<le> nval lh2" "nval (item_height p e) \<le> nval lh2" by (auto simp: lh2_def num_le)
  have l: "nval p \<le> nval lu2" using iw Cons.prems(4) by (auto simp: lu2_def num_le)
  have t: "nval th \<le> nval th2" using h Cons.prems(3) by (auto simp: th2_def)
  have fold: "foldl (legend_step p width) (lh2, th2, lu2) es = (lh', th', lu')" using Cons.prems(5) st by simp
  note IH = Cons.IH [OF _ Cons.prems(2) _ _ fold]
  have ih: "lh2 \<le> lh'" "th2 \<le> th'"
    "list_all (\<lambda>(x, y, e). p \<le> x \<and> x + item_width p e \<le> width \<and> th2 \<le> y \<and> y + item_height p e \<le> th' + lh' \<and>
        (nval y = nval th2 \<and> lu2 \<le> x \<or> th2 + lh2 \<le> y)) (legend_boxes p width (lh2, th2, lu2) es)"
    "sorted_wrt (box_before p) (legend_boxes p width (lh2, th2, lu2) es)"
    using IH Cons.prems(1,3) h l by (auto simp: num_le)
  define x where "x = lu2 - item_width p e"
  have x: "nval p \<le> nval x" "nval x + nval (item_width p e) \<le> nval width"
    using Cons.prems(4) ok by (auto simp: x_def lu2_def wrap_def num_le size_ok_def)
  have place: "nval th2 = nval th \<and> nval lu \<le> nval x \<or> nval th + nval lh \<le> nval th2"
    using h by (auto simp: x_def lu2_def th2_def)
  have rest: "list_all (\<lambda>(x, y, e). p \<le> x \<and> x + item_width p e \<le> width \<and> th \<le> y \<and> y + item_height p e \<le> th' + lh' \<and>
        (nval y = nval th \<and> lu \<le> x \<or> th + lh \<le> y)) (legend_boxes p width (lh2, th2, lu2) es)"
    by (rule list.pred_mono_strong [OF ih(3)]) (use h t iw in \<open>auto simp: num_le th2_def lu2_def split: if_splits\<close>)
  have before: "list_all (\<lambda>c. box_before p (x, th2, e) c) (legend_boxes p width (lh2, th2, lu2) es)"
    by (rule list.pred_mono_strong [OF ih(3)]) (use h in \<open>auto simp: box_before_def num_le x_def\<close>)
  show ?case using ih(1,2,4) rest before h t x place
    by (simp add: st x_def [symmetric] list_all_iff num_le)
qed

text \<open>
  C35. If every item fits in a line of its own, the drawing of the legend is one item
  per value in its colour; the items lie inside the width and the height that the layout
  reports, and no two of them overlap.
\<close>

theorem legend_fits:
  assumes "lg_legends l = Some (legends, colors)" and "length colors = length legends" and "0 \<le> lg_padding l"
    and "list_all (size_ok (lg_padding l) (PyInt width) \<circ> ext) legends"
  shows "\<exists>l' height boxes cs. legend_layout ext l width = Inr l' \<and> legend_height l' = Inr height \<and> legend_draw ext l' = Inr cs \<and>
    map (snd \<circ> snd) boxes = map ext legends \<and>
    cs = concat (map (\<lambda>(legend, col, x, y, e). legend_item (lg_padding l) col legend e x y) (zip legends (zip colors boxes))) \<and>
    list_all (\<lambda>(x, y, e). lg_padding l \<le> x \<and> x + item_width (lg_padding l) e \<le> PyInt width \<and>
                lg_padding l \<le> y \<and> y + item_height (lg_padding l) e \<le> height) boxes \<and>
    sorted_wrt (box_before (lg_padding l)) boxes"
proof -
  define p where "p = lg_padding l"
  obtain lh th lu where f: "foldl (legend_step p (PyInt width)) (0, p, p) (map ext legends) = (lh, th, lu)"
    using prod_cases3 by blast
  define boxes where "boxes = legend_boxes p (PyInt width) (0, p, p) (map ext legends)"
  have ok: "list_all (size_ok p (PyInt width)) (map ext legends)" using assms(4) by (simp add: list.pred_map p_def)
  note placed = legend_boxes_placed [OF ok _ _ _ f, folded boxes_def]
  have inside: "list_all (\<lambda>(x, y, e). p \<le> x \<and> x + item_width p e \<le> PyInt width \<and> p \<le> y \<and> y + item_height p e \<le> th + lh) boxes"
    "sorted_wrt (box_before p) boxes"
    using placed assms(3) by (auto simp: p_def num_le list_all_iff)
  have exts: "map (snd \<circ> snd) (legend_boxes p w st es) = es" for w st es
    by (induction es arbitrary: st) (auto split: prod.split)
  define l' where "l' = l\<lparr>lg_size := Some (width, th + lh)\<rparr>"
  have lay: "legend_layout ext l width = Inr l'"
    by (simp add: legend_layout_def assms(1) l'_def f [unfolded p_def] p_def)
  have "legend_draw ext l' = Inr (concat (map (\<lambda>(legend, col, x, y, e). legend_item p col legend e x y)
      (zip legends (zip colors boxes))))"
    using legend_items_boxes [of 0 legends colors ext p "PyInt width" "(0, p, p)"] assms(1,2)
    by (simp add: legend_draw_def l'_def p_def [symmetric] boxes_def)
  then show ?thesis using lay inside exts
    by (intro exI [of _ l'] exI [of _ "th + lh"] exI [of _ boxes])
      (simp add: legend_height_def p_def l'_def boxes_def)
qed


definition demo_ext :: "string \<Rightarrow> text_extents" where
  "demo_ext s = \<lparr>y_bearing = -8, t_width = 6 * of_nat (length s), t_height = 8\<rparr>"

definition demo_legend :: legend_renderer where
  "demo_legend = new_legend\<lparr>lg_legends := Some ([''idle'', ''busy''], [(1, 0, 0), (0, 1, 0)])\<rparr>"

theorem legend_fits_witness:
  "list_all (size_ok 10 (PyInt 100) \<circ> demo_ext) [''idle'', ''busy''] \<and>
   (\<exists>l' height cs. legend_layout demo_ext demo_legend 100 = Inr l' \<and> legend_height l' = Inr height \<and>
      legend_draw demo_ext l' = Inr cs)"
proof -
  have ok: "list_all (size_ok 10 (PyInt 100) \<circ> demo_ext) [''idle'', ''busy'']"
    by (simp add: size_ok_def item_width_def demo_ext_def num_le)
  then show ?thesis
    using legend_fits [of demo_legend "[''idle'', ''busy'']" "[(1, 0, 0), (0, 1, 0)]" 100 demo_ext]
    by (simp add: demo_legend_def new_legend_def num_le) blast
qed


end
