(* ===== verification/GridShape.thy ===== *)
theory GridShape
  imports GridDraw
begin

section \<open>When the drawing of the grid viewer raises\<close>

text \<open>
  The states of the renderers once \<^verbatim>\<open>main\<close> has set them up, and what layout and drawing do
  there: the only exception left is a division by zero, and drawing changes nothing.
\<close>

subsection \<open>Results that fail at most by a division by zero\<close>

named_theorems safe_rules \<open>rules for results that fail at most by a division by zero\<close>

definition safe :: "bool \<Rightarrow> ('a \<Rightarrow> bool) \<Rightarrow> 'a res \<Rightarrow> bool" where
  "safe P Q r \<longleftrightarrow> (case r of Inl e \<Rightarrow> P \<and> e = ZeroDivisionError | Inr x \<Rightarrow> Q x)"

lemma safe_Inr [simp]: "safe P Q (Inr x) \<longleftrightarrow> Q x"
  by (simp add: safe_def)

lemma safe_Inl [simp]: "safe P Q (Inl e) \<longleftrightarrow> P \<and> e = ZeroDivisionError"
  by (simp add: safe_def)

lemma safe_bind [safe_rules]:
  "safe P R m \<Longrightarrow> (\<And>x. R x \<Longrightarrow> safe P Q (f x)) \<Longrightarrow> safe P Q (rbind m f)"
  by (cases m) auto

lemma safe_fold:
  "I s \<Longrightarrow> (\<And>s x. I s \<Longrightarrow> x \<in> set xs \<Longrightarrow> safe P I (f s x)) \<Longrightarrow> safe P I (rfold f s xs)"
proof (induction xs arbitrary: s)
  case (Cons x xs)
  show ?case by (simp, rule safe_bind [of P I]) (use Cons in auto)
qed simp

lemma safe_map: "(\<And>x. safe P (\<lambda>y. True) (f x)) \<Longrightarrow> safe P (\<lambda>ys. True) (rmap f xs)"
proof (induction xs)
  case (Cons x xs)
  then show ?case using Cons.prems [of x] by (cases "f x"; cases "rmap f xs") auto
qed simp

lemma safe_ndiv: "(nval b = 0 \<Longrightarrow> P) \<Longrightarrow> safe P (\<lambda>c. True) (ndiv a b)"
  by (simp add: ndiv_def)

lemma safe_mono: "safe P Q r \<Longrightarrow> (P \<Longrightarrow> P') \<Longrightarrow> (\<And>x. Q x \<Longrightarrow> Q' x) \<Longrightarrow> safe P' Q' r"
  by (cases r) auto

subsection \<open>Renderers that are set up\<close>

definition scale_ok :: "scale_renderer \<Rightarrow> bool" where
  "scale_ok s \<longleftrightarrow> s_bounds s \<noteq> None \<and> (\<exists>lay. s_laid s = Some lay \<and> 0 < s_delta lay)"

definition legend_set :: "legend_renderer \<Rightarrow> bool" where
  "legend_set l \<longleftrightarrow> (\<exists>legends cols. lg_legends l = Some (legends, cols) \<and> length legends \<le> length cols)"

text \<open>Every value of a range has a colour.\<close>

definition known_values :: "colors \<Rightarrow> timeline list \<Rightarrow> bool" where
  "known_values cols ts \<longleftrightarrow>
     (\<forall>t\<in>set ts. \<forall>l\<in>set (tl_ranges t). \<forall>r\<in>set (ranges l). has_key (col_dict cols) (r_value r))"

definition timelines_set :: "timelines_renderer \<Rightarrow> bool" where
  "timelines_set t \<longleftrightarrow> (\<exists>ts cols. tr_timelines t = Some (ts, cols) \<and> known_values cols ts)"

lemma position_safe:
  assumes "scale_ok s" and "s_bounds s = Some (lo, hi)" and "nval lo = nval hi \<Longrightarrow> P"
  shows "safe P (\<lambda>c. True) (get_position s x)"
  using assms by (auto simp: scale_ok_def get_position_def intro!: safe_ndiv)

lemma ticks_safe: "0 < delta \<Longrightarrow> safe P (\<lambda>c. True) (scale_ticks lo hi delta)"
  using scale_ticks_members [of delta lo hi] by auto

lemma mark_safe:
  assumes "scale_ok s" and "s_bounds s = Some (lo, hi)" and "nval lo = nval hi \<Longrightarrow> P"
  shows "safe P (\<lambda>c. True) (tick_mark s d x)"
  unfolding tick_mark_def by (rule safe_bind [OF position_safe [OF assms]]) simp_all

lemma tick_safe:
  assumes "scale_ok s" and "s_bounds s = Some (lo, hi)" and "nval lo = nval hi \<Longrightarrow> P"
  shows "safe P (\<lambda>c. True) (draw_tick ext s d x)"
  unfolding draw_tick_def by (rule safe_bind [OF mark_safe [OF assms]]) (auto simp: Let_def)

lemma scale_draw_safe:
  assumes "scale_ok s" and "s_bounds s = Some (lo, hi)" and "nval lo = nval hi \<Longrightarrow> P"
  shows "safe P (\<lambda>c. True) (scale_draw ext s)"
proof -
  obtain lay where lay: "s_laid s = Some lay" "0 < s_delta lay" using assms(1) by (auto simp: scale_ok_def)
  define sg :: pynum where "sg = (if s_top s = 1 then -1 else 1)"
  define sub where "sub = s_delta lay div 10"
  have marks: "safe P (\<lambda>c. True) (rmap (draw_tick ext s sg) ts)" for ts
    by (rule safe_map) (rule tick_safe [OF assms])
  have ms: "safe P (\<lambda>c. True) (rmap (tick_mark s (3 * sg)) ts)" for ts
    by (rule safe_map) (rule mark_safe [OF assms])
  have subs: "safe P (\<lambda>c. True) (if sub > 0 then rbind (scale_ticks lo hi sub) (rmap (tick_mark s (3 * sg))) else Inr [])"
  proof (cases "sub > 0")
    case True
    then show ?thesis using safe_bind [OF ticks_safe [OF True] ms] by simp
  qed simp
  show ?thesis
    unfolding scale_draw_def
    unfolding lay(1) assms(2) attr_simps rbind_simps prod.case Let_def sg_def [symmetric] sub_def [symmetric]
    by (intro safe_bind [OF ticks_safe [OF lay(2)]] safe_bind [OF marks] safe_bind [OF subs]) simp
qed

lemma legend_draw_safe: "legend_set l \<Longrightarrow> lg_size l \<noteq> None \<Longrightarrow> safe P (\<lambda>c. True) (legend_draw ext l)"
  by (auto simp: legend_set_def legend_draw_def legend_items_boxes)

lemma lookup_known: "has_key (col_dict c) n \<Longrightarrow> \<exists>d. color_lookup n c = Inr (c, d)"
  by (rule exI [of _ "the (map_of (col_dict c) n)"]) (simp add: color_lookup_def)

lemma pixel_safe: "(nval start = nval fin \<Longrightarrow> P) \<Longrightarrow> safe P (\<lambda>c. True) (pixel x w start fin t)"
  unfolding pixel_def by (rule safe_bind [OF safe_ndiv]) auto

lemma event_step_safe:
  assumes "nval start = nval fin \<Longrightarrow> P"
  shows "safe P (\<lambda>c. True) (event_step txt start fin mth x y w st ev)"
  by (cases st) (auto simp: event_step_def intro!: safe_bind [OF pixel_safe [OF assms]])

lemma range_step_safe:
  assumes "nval start = nval fin \<Longrightarrow> P" and "has_key (col_dict cols) (r_value r)" and "fst st = cols"
  shows "safe P (\<lambda>st'. fst st' = cols) (range_step start fin x y w st r)"
proof -
  obtain d where "color_lookup (r_value r) cols = Inr (cols, d)" using lookup_known [OF assms(2)] by blast
  then show ?thesis using assms(3)
    by (cases st; cases d) (auto simp: range_step_def intro!: safe_bind [OF pixel_safe [OF assms(1)]])
qed

lemma py_slice_subset: "set (py_slice xs a b) \<subseteq> set xs"
  unfolding py_slice_def Let_def by (meson dual_order.trans set_drop_subset set_take_subset)

lemma draw_events_safe:
  assumes "tr_laid t \<noteq> None" and "tr_range t = Some (start, fin)" and "nval start = nval fin \<Longrightarrow> P"
  shows "safe P (\<lambda>c. True) (draw_events txt t n es x y w h)"
proof -
  have "safe P (\<lambda>c. True) (rfold (event_step txt start fin mth x y w) st evs)" for mth st evs
    by (rule safe_fold) (auto intro: event_step_safe [OF assms(3)])
  then show ?thesis using assms(1,2)
    by (auto simp: draw_events_def split: prod.split intro!: safe_bind [of P "\<lambda>c. True"])
qed

lemma draw_ranges_safe:
  assumes "tr_range t = Some (start, fin)" and "nval start = nval fin \<Longrightarrow> P"
    and "\<And>r. r \<in> set rs \<Longrightarrow> has_key (col_dict cols) (r_value r)"
  shows "safe P (\<lambda>p. fst p = cols) (draw_ranges t cols n rs x y w h)"
proof -
  have "safe P (\<lambda>st. fst st = cols) (rfold (range_step start fin x y w) (cols, last_x, cs) evs)"
    if "set evs \<subseteq> set rs" for last_x cs evs
    by (rule safe_fold) (use that assms(3) in \<open>auto intro!: range_step_safe assms(2)\<close>)
  from this [OF py_slice_subset] show ?thesis using assms(1)
    by (auto simp: draw_ranges_def split: prod.split intro!: safe_bind [of P "\<lambda>st. fst st = cols"])
qed

lemma event_lines_safe:
  assumes "tr_laid t \<noteq> None" and "tr_range t = Some (start, fin)" and "nval start = nval fin \<Longrightarrow> P" and "fst st = cols"
  shows "safe P (\<lambda>st. fst st = cols) (rfold (draw_event_line ext f t lay rx dx dw) st ls)"
proof (rule safe_fold [where I = "\<lambda>st. fst st = cols", OF assms(4)])
  fix st :: draw_pos and line
  assume "fst st = cols"
  then show "safe P (\<lambda>st. fst st = cols) (draw_event_line ext f t lay rx dx dw st line)"
    by (cases st) (auto simp: draw_event_line_def Let_def intro!: safe_bind [OF draw_events_safe [OF assms(1-3)]])
qed

lemma range_lines_safe:
  assumes "tr_range t = Some (start, fin)" and "nval start = nval fin \<Longrightarrow> P" and "fst st = cols"
    and "\<And>l r. l \<in> set ls \<Longrightarrow> r \<in> set (ranges l) \<Longrightarrow> has_key (col_dict cols) (r_value r)"
  shows "safe P (\<lambda>st. fst st = cols) (rfold (draw_range_line ext t lay rx dx dw) st ls)"
proof (rule safe_fold [where I = "\<lambda>st. fst st = cols", OF assms(3)])
  fix st :: draw_pos and line
  assume "fst st = cols" "line \<in> set ls"
  then show "safe P (\<lambda>st. fst st = cols) (draw_range_line ext t lay rx dx dw st line)"
    by (cases st) (auto simp: draw_range_line_def Let_def intro!: safe_bind [OF draw_ranges_safe [OF assms(1,2) assms(4)]])
qed

lemma timelines_draw_safe:
  assumes "timelines_set t" and "tr_laid t \<noteq> None" and "tr_range t = Some (start, fin)" and "nval start = nval fin \<Longrightarrow> P"
  shows "safe P (\<lambda>p. fst p = t) (timelines_draw ext t)"
proof -
  obtain ts cols where ts: "tr_timelines t = Some (ts, cols)" "known_values cols ts" using assms(1) by (auto simp: timelines_set_def)
  obtain lay where lay: "tr_laid t = Some lay" using assms(2) by blast
  let ?I = "\<lambda>st :: draw_pos. fst st = cols"
  have tl: "safe P ?I (draw_timeline ext t lay lx rx dx dw st tml)" if "?I st" "tml \<in> set ts" for lx rx dx dw st tml
  proof -
    note rgs = range_lines_safe [OF assms(3,4), where ls = "tl_ranges tml" and cols = cols]
    have known: "has_key (col_dict cols) (r_value r)" if "l \<in> set (tl_ranges tml)" "r \<in> set (ranges l)" for l r
      using that \<open>tml \<in> set ts\<close> ts(2) by (simp add: known_values_def)
    show ?thesis using that(1)
      by (cases st) (auto simp: draw_timeline_def intro!: safe_bind [OF event_lines_safe [OF assms(2-4)]] safe_bind [OF rgs] known)
  qed
  have "safe P ?I (rfold (draw_timeline ext t lay lx rx dx dw) st ts)" if "?I st" for lx rx dx dw st
    by (rule safe_fold) (use that tl in auto)
  then show ?thesis
    by (auto simp: timelines_draw_def ts(1) lay Let_def intro!: safe_bind [of P ?I])
qed

subsection \<open>The graphic\<close>

text \<open>
  The attributes \<^verbatim>\<open>main\<close> sets before the first \<^verbatim>\<open>set_range\<close>, and those a layout adds. The
  bounds of the lower scale are the integers of the data.
\<close>

definition graphic_set :: "graphic \<Rightarrow> bool" where
  "graphic_set g \<longleftrightarrow>
     (\<exists>l. g_legend g = Some l \<and> legend_set l) \<and> (\<exists>d. g_data g = Some d \<and> timelines_set d) \<and>
     (\<exists>lo hi. s_bounds (g_bot g) = Some (PyInt lo, PyInt hi) \<and> of_int lo = g_start g \<and> of_int hi = g_end g)"

definition graphic_ok :: "graphic \<Rightarrow> bool" where
  "graphic_ok g \<longleftrightarrow> graphic_set g \<and>
     (\<exists>l. g_legend g = Some l \<and> lg_size l \<noteq> None) \<and>
     (\<exists>d. g_data g = Some d \<and> tr_laid d \<noteq> None \<and> tr_range d = g_range g) \<and>
     scale_ok (g_mid g) \<and> s_bounds (g_mid g) = g_range g \<and> scale_ok (g_bot g) \<and>
     (\<exists>rs re. g_range g = Some (rs, re) \<and> g_start g \<le> nval rs \<and> nval re \<le> g_end g) \<and>
     g_end g - g_start g \<noteq> 1"

lemma graphic_okE:
  assumes "graphic_ok g"
  obtains l d lo hi rs re where "g_legend g = Some l" "legend_set l" "lg_size l \<noteq> None"
    "g_data g = Some d" "timelines_set d" "tr_laid d \<noteq> None" "tr_range d = Some (rs, re)"
    "scale_ok (g_mid g)" "s_bounds (g_mid g) = Some (rs, re)"
    "scale_ok (g_bot g)" "s_bounds (g_bot g) = Some (PyInt lo, PyInt hi)" "of_int lo = g_start g" "of_int hi = g_end g"
    "g_range g = Some (rs, re)" "g_start g \<le> nval rs" "nval re \<le> g_end g"
  using assms by (auto simp: graphic_ok_def graphic_set_def)

text \<open>A window of no length, or data of no length.\<close>

definition degenerate :: "graphic \<Rightarrow> bool" where
  "degenerate g \<longleftrightarrow> g_start g = g_end g \<or> (\<exists>rs re. g_range g = Some (rs, re) \<and> nval rs = nval re)"

lemma height_used_ok: "graphic_ok g \<Longrightarrow> \<exists>h. height_used g = Inr h"
  by (erule graphic_okE) (auto simp: height_used_def legend_size_def legend_height_def data_size_def timelines_height_def
      scale_height_def scale_ok_def)

lemma data_x_start_ok: "graphic_ok g \<Longrightarrow> \<exists>x. data_x_start g = Inr x"
  by (erule graphic_okE) (auto simp: data_x_start_def get_data_x_start_def)

lemma selection_safe: "graphic_ok g \<Longrightarrow> safe (g_start g = g_end g) (\<lambda>c. True) (get_selection_rectangle g)"
proof (erule graphic_okE)
  fix l d lo hi rs re
  assume g: "g_legend g = Some l" "lg_size l \<noteq> None" "g_data g = Some d" "tr_laid d \<noteq> None" "scale_ok (g_mid g)"
    and bot: "scale_ok (g_bot g)" "s_bounds (g_bot g) = Some (PyInt lo, PyInt hi)" "of_int lo = g_start g" "of_int hi = g_end g"
    and rng: "g_range g = Some (rs, re)"
  have pos: "safe (g_start g = g_end g) (\<lambda>c. True) (get_position (g_bot g) x)" for x
    by (rule position_safe [OF bot(1,2)]) (simp add: bot(3,4))
  show ?thesis using g bot(1) rng
    by (auto simp: get_selection_rectangle_def legend_size_def legend_height_def data_size_def timelines_height_def
        scale_height_def scale_ok_def intro!: safe_bind [OF pos])
qed

lemma data_rectangle_ok: "graphic_ok g \<Longrightarrow> \<exists>r. get_data_rectangle g = Inr r"
  by (erule graphic_okE) (auto simp: get_data_rectangle_def legend_size_def legend_height_def data_size_def timelines_height_def
      data_x_start_def get_data_x_start_def)

lemma draw_upper_safe: "graphic_ok g \<Longrightarrow> safe (degenerate g) (\<lambda>p. fst p = g) (draw_upper ext g)"
proof -
  assume ok: "graphic_ok g"
  then obtain l d lo hi rs re where g: "g_legend g = Some l" "legend_set l" "lg_size l \<noteq> None"
    "g_data g = Some d" "timelines_set d" "tr_laid d \<noteq> None" "tr_range d = Some (rs, re)"
    "scale_ok (g_mid g)" "s_bounds (g_mid g) = Some (rs, re)" and rng: "g_range g = Some (rs, re)"
    by (rule graphic_okE)
  have deg: "nval rs = nval re \<Longrightarrow> degenerate g" using rng by (auto simp: degenerate_def)
  obtain h where h: "height_used g = Inr h" using height_used_ok [OF ok] by blast
  obtain s where s: "legend_height l = Inr s" using g(3) by (auto simp: legend_height_def)
  obtain x where x: "get_data_x_start d = Inr x" using g(6) by (auto simp: get_data_x_start_def)
  obtain m where m: "scale_height (g_mid g) = Inr m" using g(8) by (auto simp: scale_height_def scale_ok_def)
  have upd: "g\<lparr>g_data := Some d\<rparr> = g" using g(4) by simp
  note legend = legend_draw_safe [OF g(2,3), where P = "degenerate g" and ext = ext]
  note lines = timelines_draw_safe [OF g(5-7) deg, where ext = ext]
  note mid = scale_draw_safe [OF g(8,9) deg, where ext = ext]
  show ?thesis unfolding draw_upper_def g(1,4) attr_simps rbind_simps
    by (rule safe_bind [OF legend], unfold s rbind_simps, rule safe_bind [OF lines])
      (auto simp: h x m upd Let_def intro!: safe_bind [OF mid])
qed

text \<open>
  Drawing a graphic that is set up changes nothing, and raises only for a window or data of no
  length.
\<close>

lemma graphic_draw_safe: "graphic_ok g \<Longrightarrow> safe (degenerate g) (\<lambda>p. fst p = g) (graphic_draw ext g)"
proof -
  assume ok: "graphic_ok g"
  then obtain lo hi rs re where g: "scale_ok (g_bot g)" "s_bounds (g_bot g) = Some (PyInt lo, PyInt hi)"
    "of_int lo = g_start g" "of_int hi = g_end g" and rng: "g_range g = Some (rs, re)"
    by (rule graphic_okE)
  have deg: "nval (PyInt lo) = nval (PyInt hi) \<Longrightarrow> degenerate g" using g(3,4) by (simp add: degenerate_def)
  obtain h where h: "height_used g = Inr h" using height_used_ok [OF ok] by blast
  obtain x where x: "data_x_start g = Inr x" using data_x_start_ok [OF ok] by blast
  obtain b where b: "scale_height (g_bot g) = Inr b" using g(1) by (auto simp: scale_height_def scale_ok_def)
  note pos = position_safe [OF g(1,2) deg]
  note bot = scale_draw_safe [OF g(1,2) deg, where ext = ext]
  show ?thesis unfolding graphic_draw_def
    by (rule safe_bind [OF draw_upper_safe [OF ok]])
      (auto simp: rng h x b Let_def intro!: safe_bind [OF pos] safe_bind [OF bot])
qed


subsection \<open>Layout and range\<close>

lemma scale_layout_ok:
  assumes "s_bounds s = Some (lo, hi)"
  shows "scale_layout ext s w = Inl ZeroDivisionError \<and> nval hi - nval lo = 1 \<or>
    nval hi - nval lo \<noteq> 1 \<and> (\<exists>s' lay. scale_layout ext s w = Inr s' \<and> s_bounds s' = Some (lo, hi) \<and> s_top s' = s_top s \<and>
       s_laid s' = Some lay \<and> 0 < s_delta lay \<and> s_width lay = w)"
proof -
  have s: "set_bounds s lo hi = s" using assms by (simp add: set_bounds_def)
  obtain delta where d: "scale_layout ext s w =
       (if nval hi - nval lo = 1 then Inl ZeroDivisionError
        else Inr (s\<lparr>s_laid := Some \<lparr>s_delta = delta, s_width = w, s_text_height = PyFloat (t_height (ext alphabet))\<rparr>\<rparr>))"
    "nval hi - nval lo = 1 \<or> (\<exists>k. delta = 10 ^ k) \<and> nval hi - nval lo \<le> 20 * of_int delta"
    using scale_layout_outcome [of ext s lo hi w] unfolding s by blast
  show ?thesis using d assms by (cases "nval hi - nval lo = 1") auto
qed

lemma legend_layout_ok:
  "legend_set l \<Longrightarrow> \<exists>l' h. legend_layout ext l w = Inr l' \<and> legend_set l' \<and> lg_size l' = Some (w, h)"
proof -
  assume "legend_set l"
  then obtain legends cols where l: "lg_legends l = Some (legends, cols)" "length legends \<le> length cols"
    by (auto simp: legend_set_def)
  obtain a b c where "foldl (legend_step (lg_padding l) (PyInt w)) (0, lg_padding l, lg_padding l) (map ext legends) = (a, b, c)"
    using prod_cases3 by blast
  with l show ?thesis by (simp add: legend_layout_def legend_set_def)
qed

lemma timelines_layout_ok:
  "timelines_set t \<Longrightarrow> \<exists>t' lay. timelines_layout ext t w = Inr t' \<and> timelines_set t' \<and> tr_laid t' = Some lay \<and> tr_range t' = tr_range t"
  by (auto simp: timelines_set_def timelines_layout_def Let_def)

text \<open>
  A layout raises when the window or the data has length 1, for one of the scales; the parts
  before that scale have been laid out by then.
\<close>

lemma graphic_layout_outcome:
  assumes "graphic_set g" and "s_bounds (g_mid g) = Some (lo, hi)" and "graphic_layout ext g w h = (g', r)"
  shows "graphic_set g' \<and> g_start g' = g_start g \<and> g_end g' = g_end g \<and> g_range g' = g_range g \<and>
    g_width g' = w \<and> g_height g' = h \<and>
    (\<exists>l. g_legend g' = Some l \<and> lg_size l \<noteq> None) \<and>
    (\<exists>d d'. g_data g = Some d \<and> g_data g' = Some d' \<and> tr_laid d' \<noteq> None \<and> tr_range d' = tr_range d) \<and>
    s_bounds (g_mid g') = Some (lo, hi) \<and> s_bounds (g_bot g') = s_bounds (g_bot g) \<and>
    (if nval hi - nval lo = 1 then g_mid g' = g_mid g else scale_ok (g_mid g')) \<and>
    r = (if nval hi - nval lo = 1 \<or> g_end g - g_start g = 1 then Inl ZeroDivisionError else Inr ()) \<and>
    (if r = Inr () then scale_ok (g_bot g') \<and> (\<exists>lay. s_laid (g_bot g') = Some lay \<and> s_width lay = PyInt w) else g_bot g' = g_bot g)"
proof -
  from assms(1) obtain l d lo' hi' where g: "g_legend g = Some l" "legend_set l" "g_data g = Some d" "timelines_set d"
    "s_bounds (g_bot g) = Some (PyInt lo', PyInt hi')" "of_int lo' = g_start g" "of_int hi' = g_end g"
    by (auto simp: graphic_set_def)
  obtain l' lh where l': "legend_layout ext l w = Inr l'" "legend_set l'" "lg_size l' = Some (w, lh)"
    using legend_layout_ok [OF g(2)] by blast
  obtain d' lay where d': "timelines_layout ext d w = Inr d'" "timelines_set d'" "tr_laid d' = Some lay" "tr_range d' = tr_range d"
    using timelines_layout_ok [OF g(4)] by blast
  obtain x where x: "get_data_x_start d' = Inr x" using d'(3) by (simp add: get_data_x_start_def)
  note parts = g l' d' x assms(2)
  note shape = graphic_layout_def Let_def graphic_set_def scale_ok_def
  consider (mid) "nval hi - nval lo = 1" "scale_layout ext (g_mid g) (PyInt w - x) = Inl ZeroDivisionError"
    | (bot) m lm where "nval hi - nval lo \<noteq> 1" "g_end g - g_start g = 1" "scale_layout ext (g_bot g) (PyInt w) = Inl ZeroDivisionError"
        "scale_layout ext (g_mid g) (PyInt w - x) = Inr m" "s_bounds m = Some (lo, hi)" "s_laid m = Some lm" "0 < s_delta lm"
    | (fine) m lm b lb where "nval hi - nval lo \<noteq> 1" "g_end g - g_start g \<noteq> 1" 
        "scale_layout ext (g_mid g) (PyInt w - x) = Inr m" "s_bounds m = Some (lo, hi)" "s_laid m = Some lm" "0 < s_delta lm"
        "scale_layout ext (g_bot g) (PyInt w) = Inr b" "s_bounds b = Some (PyInt lo', PyInt hi')" "s_laid b = Some lb" "0 < s_delta lb"
        "s_width lb = PyInt w"
    using scale_layout_ok [OF assms(2), of ext "PyInt w - x"] scale_layout_ok [OF g(5), of ext "PyInt w"] g(6,7) by auto
  then show ?thesis
  proof cases
    case mid
    then show ?thesis using assms(3) parts by (auto simp: shape)
  next
    case bot
    then show ?thesis using assms(3) parts by (auto simp: shape)
  next
    case fine
    then show ?thesis using assms(3) parts by (auto simp: shape)
  qed
qed

lemma graphic_set_mid [simp]: "graphic_set (g\<lparr>g_mid := m\<rparr>) = graphic_set g"
  by (simp add: graphic_set_def)

text \<open>
  \<^verbatim>\<open>set_range\<close> on a graphic that is set up, or that is set up once this call returns: both
  ends are put inside the data, each for itself.
\<close>

lemma set_range_outcome:
  assumes "graphic_set g" and "set_range ext g a b = (g', r)" and "graphic_ok g \<or> r = Inr ()"
  shows "graphic_ok g' \<and> g_start g' = g_start g \<and> g_end g' = g_end g \<and> g_width g' = g_width g \<and> g_height g' = g_height g \<and>
    g_range g' = Some (nmax (PyFloat (g_start g)) (nmin a b), nmin (PyFloat (g_end g)) (nmax a b)) \<and>
    (if r = Inr () then \<exists>lay. s_laid (g_bot g') = Some lay \<and> s_width lay = PyInt (g_width g) else g_bot g' = g_bot g) \<and>
    r = (if nval (nmin (PyFloat (g_end g)) (nmax a b)) - nval (nmax (PyFloat (g_start g)) (nmin a b)) = 1
         then Inl ZeroDivisionError else Inr ())"
proof -
  define rs where "rs = nmax (PyFloat (g_start g)) (nmin a b)"
  define re where "re = nmin (PyFloat (g_end g)) (nmax a b)"
  have inside: "g_start g \<le> nval rs" "nval re \<le> g_end g" by (simp_all add: rs_def re_def)
  obtain d where d: "g_data g = Some d" "timelines_set d" using assms(1) by (auto simp: graphic_set_def)
  define g1 where "g1 = g\<lparr>g_range := Some (rs, re), g_data := Some (d\<lparr>tr_range := Some (rs, re)\<rparr>), g_mid := set_bounds (g_mid g) rs re\<rparr>"
  have lay: "graphic_layout ext g1 (g_width g) (g_height g) = (g', r)"
    using assms(2) by (simp add: set_range_def Let_def rs_def [symmetric] re_def [symmetric] d(1) g1_def)
  have set1: "graphic_set g1" using assms(1) d by (auto simp: graphic_set_def g1_def timelines_set_def)
  have b1: "s_bounds (g_mid g1) = Some (rs, re)" by (simp add: g1_def set_bounds_def)
  note out = graphic_layout_outcome [OF set1 b1 lay]
  have same: "g_start g1 = g_start g" "g_end g1 = g_end g" "g_range g1 = Some (rs, re)" "g_bot g1 = g_bot g"
    "s_laid (g_mid g1) = s_laid (g_mid g)" "s_bounds (g_mid g1) = Some (rs, re)" "g_data g1 = Some (d\<lparr>tr_range := Some (rs, re)\<rparr>)"
    by (simp_all add: g1_def set_bounds_def)
  have mid: "scale_ok (g_mid g')"
  proof (cases "graphic_ok g")
    case True
    then have "scale_ok (g_mid g1)" by (auto simp: graphic_ok_def scale_ok_def same)
    then show ?thesis using out by (auto split: if_splits)
  qed (use assms(3) out in \<open>auto split: if_splits\<close>)
  have bot: "scale_ok (g_bot g')" "g_end g - g_start g \<noteq> 1"
    using assms(3) out same by (auto simp: graphic_ok_def split: if_splits)
  show ?thesis using out mid bot inside same unfolding rs_def [symmetric] re_def [symmetric]
    by (auto simp: graphic_ok_def)
qed


lemma set_range_result:
  assumes "graphic_set g" and "set_range ext g a b = (g', r)"
  shows "r = (if nval (nmin (PyFloat (g_end g)) (nmax a b)) - nval (nmax (PyFloat (g_start g)) (nmin a b)) = 1 \<or>
      g_end g - g_start g = 1 then Inl ZeroDivisionError else Inr ())"
proof -
  define rs where "rs = nmax (PyFloat (g_start g)) (nmin a b)"
  define re where "re = nmin (PyFloat (g_end g)) (nmax a b)"
  obtain d where d: "g_data g = Some d" "timelines_set d" using assms(1) by (auto simp: graphic_set_def)
  define g1 where "g1 = g\<lparr>g_range := Some (rs, re), g_data := Some (d\<lparr>tr_range := Some (rs, re)\<rparr>), g_mid := set_bounds (g_mid g) rs re\<rparr>"
  have lay: "graphic_layout ext g1 (g_width g) (g_height g) = (g', r)"
    using assms(2) by (simp add: set_range_def Let_def rs_def [symmetric] re_def [symmetric] d(1) g1_def)
  have set1: "graphic_set g1" using assms(1) d by (auto simp: graphic_set_def g1_def timelines_set_def)
  have b1: "s_bounds (g_mid g1) = Some (rs, re)" by (simp add: g1_def set_bounds_def)
  show ?thesis using graphic_layout_outcome [OF set1 b1 lay]
    by (simp add: g1_def rs_def [symmetric] re_def [symmetric])
qed

end
