(* ===== verification/GridView.thy ===== *)
theory GridView
  imports GridShape
begin

section \<open>The window of the grid viewer: \<^verbatim>\<open>utils/grid.py\<close>\<close>

text \<open>
  The drawing area of the viewer with its mouse and zoom handlers, and \<^verbatim>\<open>main\<close>. A handler
  returns the widget it leaves, with what it returns or the exception it raises: an exception in
  a handler does not end the program, which goes on with the half-changed widget. The
  attributes of the drag in progress do not exist before they are first assigned. The windows
  and buttons of GTK are left out; their events are the steps of the program.
\<close>

subsection \<open>The drawing area\<close>

datatype cursor = DoubleArrow | Fleur | NoCursor

datatype request = QueueDraw | QueueDrawArea int int int int | SetCursor cursor

record widget =
  w_data :: graphic
  moving_left :: bool
  moving_right :: bool
  moving_both :: bool
  moving_top :: bool
  left_cur :: "pynum option"
  right_cur :: "pynum option"
  both_drag :: "(pynum \<times> pynum) option"
  top_start :: "pynum option"
  top_cur :: "pynum option"
  force_full_redraw :: bool
  w_size :: "(int \<times> int) option"
  w_buffer :: "(int \<times> int \<times> draw_cmd list) option"
  requests :: "request list"

definition new_widget :: "graphic \<Rightarrow> widget" where
  "new_widget g =
     \<lparr>w_data = g, moving_left = False, moving_right = False, moving_both = False, moving_top = False,
      left_cur = None, right_cur = None, both_drag = None, top_start = None, top_cur = None,
      force_full_redraw = True, w_size = None, w_buffer = None, requests = []\<rparr>"

type_synonym 'a handler = "widget \<Rightarrow> widget \<times> 'a res"

definition queue_draw :: "widget \<Rightarrow> widget" where
  "queue_draw w = w\<lparr>requests := requests w @ [QueueDraw]\<rparr>"

text \<open>\<^verbatim>\<open>set_range\<close> on the graphic, and if it returns a full redraw.\<close>

definition change_range :: "(string \<Rightarrow> text_extents) \<Rightarrow> pynum \<Rightarrow> pynum \<Rightarrow> 'a \<Rightarrow> 'a handler" where
  "change_range ext a b r w =
     (case set_range ext (w_data w) a b of (g, res) \<Rightarrow>
        call (w\<lparr>w_data := g\<rparr>) res (\<lambda>u. (queue_draw (w\<lparr>w_data := g, force_full_redraw := True\<rparr>), Inr r)))"

definition set_smaller_zoom :: "(string \<Rightarrow> text_extents) \<Rightarrow> unit handler" where
  "set_smaller_zoom ext w =
     call w (attr (g_range (w_data w))) (\<lambda>(start, fin). change_range ext start (start + (fin - start) * 2) () w)"

definition set_bigger_zoom :: "(string \<Rightarrow> text_extents) \<Rightarrow> unit handler" where
  "set_bigger_zoom ext w =
     call w (attr (g_range (w_data w))) (\<lambda>(start, fin). change_range ext start (start + half (fin - start)) () w)"

text \<open>
  The context of \<^verbatim>\<open>output_png\<close> belongs to the buffer, not to the new surface that is
  written: the result is the size and the drawing of the file.
\<close>

definition output_png :: "(string \<Rightarrow> text_extents) \<Rightarrow> (int \<times> int \<times> draw_cmd list) handler" where
  "output_png ext w =
     (let surface = (g_width (w_data w), g_height (w_data w), []) in
      call w (attr (w_buffer w)) (\<lambda>(bw, bh, cs).
      call w (graphic_draw ext (w_data w)) (\<lambda>(g, ds).
        (w\<lparr>w_data := g, w_buffer := Some (bw, bh, cs @ ds)\<rparr>, Inr surface))))"

definition inside :: "pynum \<Rightarrow> pynum \<Rightarrow> pynum \<Rightarrow> bool" where
  "inside v lo len \<longleftrightarrow> v > lo \<and> v < lo + len"

definition button_press :: "pynum \<Rightarrow> pynum \<Rightarrow> bool handler" where
  "button_press ex ey w =
     call w (get_selection_rectangle (w_data w)) (\<lambda>(x, y, width, height).
     call w (get_data_rectangle (w_data w)) (\<lambda>(d_x, d_y, d_width, d_height).
       if inside ey y height \<and> nabs (ex - x) < 5 then (w\<lparr>moving_left := True\<rparr>, Inr True)
       else if inside ey y height \<and> nabs (ex - (x + width)) < 5 then (w\<lparr>moving_right := True\<rparr>, Inr True)
       else if inside ey y height \<and> inside ex x width then (w\<lparr>moving_both := True, both_drag := Some (ex, ex)\<rparr>, Inr True)
       else if inside ey d_y d_height \<and> inside ex d_x d_width then
         (w\<lparr>moving_top := True, top_start := Some ex, top_cur := Some ex\<rparr>, Inr True)
       else (w, Inr False)))"

definition button_release :: "(string \<Rightarrow> text_extents) \<Rightarrow> bool handler" where
  "button_release ext w =
     (if moving_left w then
        let w = w\<lparr>moving_left := False\<rparr> in
        call w (rbind (attr (left_cur w)) (scale_selection (w_data w))) (\<lambda>left.
        call w (attr (g_range (w_data w))) (\<lambda>(l, right). change_range ext left right True w))
      else if moving_right w then
        let w = w\<lparr>moving_right := False\<rparr> in
        call w (rbind (attr (right_cur w)) (scale_selection (w_data w))) (\<lambda>right.
        call w (attr (g_range (w_data w))) (\<lambda>(left, r). change_range ext left right True w))
      else if moving_both w then
        let w = w\<lparr>moving_both := False\<rparr> in
        call w (rbind (attr (both_drag w)) (\<lambda>(start, cur). scale_selection (w_data w) (cur - start))) (\<lambda>delta.
        call w (attr (g_range (w_data w))) (\<lambda>(left, right). change_range ext (left + delta) (right + delta) True w))
      else (w\<lparr>moving_top := False\<rparr>, Inr False))"

definition clamp :: "pynum \<Rightarrow> pynum \<Rightarrow> pynum \<Rightarrow> pynum" where
  "clamp lo hi v = (if v < lo then lo else if v > hi then hi else v)"

definition queue_strip :: "pynum \<Rightarrow> pynum \<Rightarrow> bool handler" where
  "queue_strip y height w =
     call w (attr (w_size w)) (\<lambda>(width, h).
       (w\<lparr>requests := requests w @ [QueueDrawArea 0 (nint y) width (nint height)]\<rparr>, Inr True))"

definition hover :: "pynum \<Rightarrow> pynum \<Rightarrow> pynum \<times> pynum \<times> pynum \<times> pynum \<Rightarrow> pynum \<times> pynum \<times> pynum \<times> pynum \<Rightarrow> cursor" where
  "hover ex ey sel dat =
     (case sel of (x, y, width, height) \<Rightarrow> case dat of (d_x, d_y, d_width, d_height) \<Rightarrow>
        if inside ey y height \<and> (nabs (ex - x) < 5 \<or> nabs (ex - (x + width)) < 5) then DoubleArrow
        else if inside ey y height \<and> inside ex x width then Fleur
        else if inside ey d_y d_height \<and> inside ex d_x d_width then Fleur
        else NoCursor)"

text \<open>
  Past the right border the width is assigned to \<^verbatim>\<open>moving_right\<close>, not to its position: the
  flag stays set (the width is not 0) and the position is not updated.
\<close>

definition drag_motion :: "(string \<Rightarrow> text_extents) \<Rightarrow> pynum \<Rightarrow> pynum \<Rightarrow> pynum \<times> pynum \<times> pynum \<times> pynum \<Rightarrow> bool handler" where
  "drag_motion ext ex ey sel w =
     (case sel of (x, y, width, height) \<Rightarrow>
       if moving_left w then
         queue_strip y height (w\<lparr>left_cur := Some (if ex \<le> 0 then 0 else if ex \<ge> x + width then x + width else ex)\<rparr>)
       else if moving_right w then
         call w (attr (w_size w)) (\<lambda>(win, h).
           queue_strip y height
             (if ex \<ge> PyInt win then w\<lparr>moving_right := win \<noteq> 0\<rparr>
              else if ex < x then w\<lparr>right_cur := Some x\<rparr>
              else w\<lparr>right_cur := Some ex\<rparr>))
       else if moving_both w then
         call w (attr (w_size w)) (\<lambda>(win, h).
         call w (attr (both_drag w)) (\<lambda>(start, cur).
           let cur_e = PyInt win - (x + width - start); cur_s = start - x in
           queue_strip y height (w\<lparr>both_drag := Some (start, clamp cur_s cur_e ex)\<rparr>)))
       else if moving_top w then
         let w = w\<lparr>top_cur := Some ex\<rparr> in
         call w (rbind (attr (top_start w)) (\<lambda>start. scale_data (w_data w) (start - ex))) (\<lambda>delta.
         call w (attr (g_range (w_data w))) (\<lambda>(left, right).
           case set_range ext (w_data w) (left + delta) (right + delta) of (g, res) \<Rightarrow>
             call (w\<lparr>w_data := g\<rparr>) res (\<lambda>u.
               (queue_draw (w\<lparr>w_data := g, force_full_redraw := True, top_start := Some ex\<rparr>), Inr True))))
       else
         call w (get_data_rectangle (w_data w)) (\<lambda>dat.
           let c = hover ex ey (x, y, width, height) dat in
           (w\<lparr>requests := requests w @ [SetCursor c]\<rparr>, Inr (c \<noteq> NoCursor))))"

definition motion_notify :: "(string \<Rightarrow> text_extents) \<Rightarrow> pynum \<Rightarrow> pynum \<Rightarrow> bool handler" where
  "motion_notify ext ex ey w =
     call w (get_selection_rectangle (w_data w)) (\<lambda>sel. drag_motion ext ex ey sel w)"

definition size_allocate :: "(string \<Rightarrow> text_extents) \<Rightarrow> int \<Rightarrow> int \<Rightarrow> unit handler" where
  "size_allocate ext width height w =
     (case graphic_layout ext (w_data w) width height of (g, res) \<Rightarrow>
        let w = w\<lparr>w_size := Some (width, height), w_data := g\<rparr> in
        call w res (\<lambda>u. (queue_draw (w\<lparr>force_full_redraw := True\<rparr>), Inr ())))"

definition refresh_buffer :: "(string \<Rightarrow> text_extents) \<Rightarrow> unit handler" where
  "refresh_buffer ext w =
     (if force_full_redraw w then
        let bw = g_width (w_data w); bh = g_height (w_data w); w = w\<lparr>w_buffer := Some (bw, bh, [])\<rparr> in
        call w (graphic_draw ext (w_data w)) (\<lambda>(g, cs).
          (w\<lparr>w_data := g, w_buffer := Some (bw, bh, cs), force_full_redraw := False\<rparr>, Inr ()))
      else (w, Inr ()))"

definition handle_line :: "pynum \<Rightarrow> pynum \<Rightarrow> pynum \<Rightarrow> draw_cmd list" where
  "handle_line x y height = [CMoveTo x y, CRelLineTo 0 height, CClosePath]"

text \<open>What is drawn over the buffer while a handle or the selection is dragged.\<close>

definition drag_marks :: "widget \<Rightarrow> pynum \<times> pynum \<times> pynum \<times> pynum \<Rightarrow> draw_cmd list res" where
  "drag_marks w sel =
     (case sel of (x, y, width, height) \<Rightarrow>
       rbind (if moving_left w then rbind (attr (left_cur w)) (\<lambda>c.
                Inr (handle_line (nmax c 2) y height @ [CLineWidth 1, CSourceRGB 0 0 0, CStroke])) else Inr []) (\<lambda>l.
       rbind (if moving_right w then rbind (attr (right_cur w)) (\<lambda>c. rbind (attr (w_size w)) (\<lambda>(win, h).
                Inr (handle_line (nmin c (PyInt win - 2)) y height @ [CLineWidth 1, CSourceRGB 0 0 0, CStroke]))) else Inr []) (\<lambda>r.
       rbind (if moving_both w then rbind (attr (both_drag w)) (\<lambda>(start, cur).
                Inr (handle_line (x + (cur - start)) y height @ handle_line (x + width + (cur - start)) y height @
                     [CSourceRGB 0 0 0, CLineWidth 1, CStroke])) else Inr []) (\<lambda>b.
         Inr (l @ r @ b)))))"

text \<open>The calls made on the context of the window, for the exposed area.\<close>

definition expose :: "(string \<Rightarrow> text_extents) \<Rightarrow> int \<times> int \<times> int \<times> int \<Rightarrow> draw_cmd list handler" where
  "expose ext area w =
     (case refresh_buffer ext w of (w, res) \<Rightarrow>
      call w res (\<lambda>u. case area of (ax, ay, aw, ah) \<Rightarrow>
      call w (attr (w_buffer w)) (\<lambda>(bw, bh, cs).
      call w (get_selection_rectangle (w_data w)) (\<lambda>sel.
      call w (drag_marks w sel) (\<lambda>marks.
        (w, Inr ([CRectangle (PyInt ax) (PyInt ay) (PyInt aw) (PyInt ah), CClip, CSourceSurface cs, CPaint] @ marks)))))))"

subsection \<open>The program\<close>

text \<open>The arguments are the text sizes, the order of the keys of a dictionary and the lines of the file.\<close>

definition lookup_all :: "colors \<Rightarrow> string list \<Rightarrow> (colors \<times> color list) res" where
  "lookup_all cols names =
     rfold (\<lambda>(c, ds) n. rbind (color_lookup n c) (\<lambda>(c', d). Inr (c', ds @ [d]))) (cols, []) names"

definition grid_main :: "(string \<Rightarrow> text_extents) \<Rightarrow> (string list \<Rightarrow> string list) \<Rightarrow> string list \<Rightarrow> graphic res" where
  "grid_main ext ko lines =
     (case read_data lines of (colors, timelines) \<Rightarrow>
      case timelines_get_bounds timelines of (lower_bound, upper_bound) \<Rightarrow>
      let range_values = get_all_range_values ko timelines in
      rbind (lookup_all colors range_values) (\<lambda>(colors, range_colors).
      let top_legend = new_legend\<lparr>lg_legends := Some (range_values, range_colors)\<rparr>;
          data = new_timelines\<lparr>tr_timelines := Some (timelines, colors)\<rparr>;
          graphic = (new_graphic lower_bound upper_bound)\<lparr>g_legend := Some top_legend, g_data := Some data\<rparr>;
          range_mid = (upper_bound - lower_bound) div 2;
          range_width = (upper_bound - lower_bound) div 10;
          range_lo = range_mid - range_width div 2;
          range_hi = range_mid + range_width div 2
      in case set_range ext graphic (PyInt range_lo) (PyInt range_hi) of (graphic, res) \<Rightarrow>
           rbind res (\<lambda>u. Inr graphic)))"

text \<open>The buttons and the file dialogue of \<^verbatim>\<open>MainWindow\<close>: response 1 is Save.\<close>

datatype ui_event =
    Press rat rat | Release | Motion rat rat | Allocate int int | Expose "int \<times> int \<times> int \<times> int"
  | ZoomOut | ZoomIn | DialogResponse int

fun handle_event :: "(string \<Rightarrow> text_extents) \<Rightarrow> ui_event \<Rightarrow> unit handler" where
  "handle_event ext (Press x y) w = (case button_press (PyFloat x) (PyFloat y) w of (w', r) \<Rightarrow> call w' r (\<lambda>b. (w', Inr ())))"
| "handle_event ext Release w = (case button_release ext w of (w', r) \<Rightarrow> call w' r (\<lambda>b. (w', Inr ())))"
| "handle_event ext (Motion x y) w = (case motion_notify ext (PyFloat x) (PyFloat y) w of (w', r) \<Rightarrow> call w' r (\<lambda>b. (w', Inr ())))"
| "handle_event ext (Allocate width height) w = size_allocate ext width height w"
| "handle_event ext (Expose area) w = (case expose ext area w of (w', r) \<Rightarrow> call w' r (\<lambda>cs. (w', Inr ())))"
| "handle_event ext ZoomOut w = set_smaller_zoom ext w"
| "handle_event ext ZoomIn w = set_bigger_zoom ext w"
| "handle_event ext (DialogResponse r) w =
     (if r = 1 then case output_png ext w of (w', r) \<Rightarrow> call w' r (\<lambda>s. (w', Inr ())) else (w, Inr ()))"

text \<open>The main loop: one event after the other, whether or not the handler raises.\<close>

inductive view_step :: "(string \<Rightarrow> text_extents) \<Rightarrow> widget \<Rightarrow> widget \<Rightarrow> bool" for ext where
  view_event: "handle_event ext ev w = (w', r) \<Longrightarrow> (case ev of Allocate width height \<Rightarrow> 0 < width | _ \<Rightarrow> True)
    \<Longrightarrow> view_step ext w w'"

inductive_cases view_stepE: "view_step ext w w'"

text \<open>The first event is the allocation of the size. Python lists the keys of a dictionary in some order.\<close>

inductive view_start :: "(string \<Rightarrow> text_extents) \<Rightarrow> (string list \<Rightarrow> string list) \<Rightarrow> string list \<Rightarrow> widget \<Rightarrow> bool"
  for ext ko lines where
  view_main: "(\<forall>ks. mset (ko ks) = mset ks) \<Longrightarrow> grid_main ext ko lines = Inr g \<Longrightarrow> 0 < width
    \<Longrightarrow> view_start ext ko lines (fst (size_allocate ext width height (new_widget g)))"

subsection \<open>The invariant of the window\<close>

definition view_ok :: "widget \<Rightarrow> bool" where
  "view_ok w \<longleftrightarrow> graphic_ok (w_data w) \<and> 0 < g_width (w_data w) \<and>
     w_size w = Some (g_width (w_data w), g_height (w_data w)) \<and>
     (moving_both w \<longrightarrow> both_drag w \<noteq> None) \<and> (moving_top w \<longrightarrow> top_start w \<noteq> None) \<and>
     (force_full_redraw w \<or> w_buffer w \<noteq> None)"

text \<open>The ways a handler can raise: a drag handle that has no position yet, or no buffer for the file.\<close>

fun unset :: "ui_event \<Rightarrow> widget \<Rightarrow> bool" where
  "unset Release w \<longleftrightarrow> (if moving_left w then left_cur w = None else moving_right w \<and> right_cur w = None)"
| "unset (Expose area) w \<longleftrightarrow> moving_left w \<and> left_cur w = None \<or> moving_right w \<and> right_cur w = None"
| "unset (DialogResponse r) w \<longleftrightarrow> r = 1 \<and> w_buffer w = None"
| "unset ev w \<longleftrightarrow> False"

definition unit_window :: "graphic \<Rightarrow> bool" where
  "unit_window g \<longleftrightarrow> (\<exists>rs re. g_range g = Some (rs, re) \<and> nval re - nval rs = 1)"

text \<open>The data is dragged in a window that leaves no width for it.\<close>

definition no_data_width :: "graphic \<Rightarrow> bool" where
  "no_data_width g \<longleftrightarrow> (\<exists>x. data_x_start g = Inr x \<and> nval x = of_int (g_width g))"

definition division_by_zero :: "widget \<Rightarrow> widget \<Rightarrow> bool" where
  "division_by_zero w w' \<longleftrightarrow>
     degenerate (w_data w) \<or> unit_window (w_data w') \<or> moving_top w \<and> no_data_width (w_data w)"

definition expected :: "ui_event \<Rightarrow> widget \<Rightarrow> widget \<Rightarrow> 'a res \<Rightarrow> bool" where
  "expected ev w w' r \<longleftrightarrow>
     (case r of Inr x \<Rightarrow> True
      | Inl e \<Rightarrow> e = AttributeError \<and> unset ev w \<or> e = ZeroDivisionError \<and> division_by_zero w w')"

lemma expected_simps [simp]:
  "expected ev w w' (Inr x)"
  "expected ev w w' (Inl e) \<longleftrightarrow> e = AttributeError \<and> unset ev w \<or> e = ZeroDivisionError \<and> division_by_zero w w'"
  by (simp_all add: expected_def)

text \<open>Reading something that is safe when the data has a length.\<close>

lemma call_safe:
  assumes "safe P Q m" and "P \<Longrightarrow> R (s, Inl ZeroDivisionError)" and "\<And>x. Q x \<Longrightarrow> R (k x)"
  shows "R (call s m k)"
  using assms by (cases m) auto

definition handled :: "ui_event \<Rightarrow> widget \<Rightarrow> widget \<times> 'a res \<Rightarrow> bool" where
  "handled ev w p \<longleftrightarrow> (case p of (w', r) \<Rightarrow> view_ok w' \<and> expected ev w w' r)"

lemma handled_pair [simp]: "handled ev w (w', r) \<longleftrightarrow> view_ok w' \<and> expected ev w w' r"
  by (simp add: handled_def)

lemma range_known: "view_ok w \<Longrightarrow> \<exists>rs re. g_range (w_data w) = Some (rs, re)"
  by (auto simp: view_ok_def graphic_ok_def)

lemma graphic_ok_set: "graphic_ok g \<Longrightarrow> graphic_set g"
  by (simp add: graphic_ok_def)

lemma view_range:
  assumes "view_ok w" and "set_range ext (w_data w) a b = (g, r)"
  shows "view_ok (w\<lparr>w_data := g\<rparr>) \<and> (r = Inr () \<or> r = Inl ZeroDivisionError \<and> unit_window g)"
proof -
  have ok: "graphic_ok (w_data w)" using assms(1) by (simp add: view_ok_def)
  note out = set_range_outcome [OF graphic_ok_set [OF ok] assms(2) disjI1 [OF ok]]
  show ?thesis using out assms(1) by (auto simp: view_ok_def unit_window_def)
qed

lemma change_range_handled:
  assumes "view_ok w" and "division_by_zero v = division_by_zero w"
  shows "handled ev v (change_range ext a b x w)"
proof -
  obtain g r where g: "set_range ext (w_data w) a b = (g, r)" by fastforce
  note out = view_range [OF assms(1) g]
  have "unit_window g \<Longrightarrow> division_by_zero v (w\<lparr>w_data := g\<rparr>)" by (simp add: division_by_zero_def)
  then show ?thesis using out by (auto simp: change_range_def g view_ok_def queue_draw_def)
qed

lemma zoom_handled: "view_ok w \<Longrightarrow> handled ev w (set_smaller_zoom ext w) \<and> handled ev w (set_bigger_zoom ext w)"
  using range_known [of w] by (auto simp: set_smaller_zoom_def set_bigger_zoom_def intro!: change_range_handled)

lemma selection_zero: "graphic_ok g \<Longrightarrow> safe (degenerate g) (\<lambda>c. True) (get_selection_rectangle g)"
  by (rule safe_mono [OF selection_safe]) (auto simp: degenerate_def)

lemma press_handled:
  assumes "view_ok w"
  shows "handled (Press x y) w (button_press ex ey w)"
proof -
  have ok: "graphic_ok (w_data w)" using assms by (simp add: view_ok_def)
  obtain dx dy dw dh where d: "get_data_rectangle (w_data w) = Inr (dx, dy, dw, dh)"
    using data_rectangle_ok [OF ok] by (metis prod.exhaust)
  show ?thesis unfolding button_press_def
    by (rule call_safe [OF selection_zero [OF ok]])
      (use assms in \<open>auto simp: d division_by_zero_def view_ok_def split: prod.split\<close>)
qed

lemma scale_selection_ok: "view_ok w \<Longrightarrow> \<exists>v. scale_selection (w_data w) p = Inr v"
  by (auto simp: scale_selection_def ndiv_def view_ok_def)

lemma release_handled:
  assumes "view_ok w"
  shows "handled Release w (button_release ext w)"
proof -
  obtain rs re where r: "g_range (w_data w) = Some (rs, re)" using range_known [OF assms] by blast
  have sel: "\<exists>v. scale_selection (w_data w) p = Inr v" for p by (rule scale_selection_ok [OF assms])
  have drag: "handled Release w (change_range ext a b x v)"
    if "w_data v = w_data w" "moving_top v = moving_top w" "view_ok v" for a b x v
    by (rule change_range_handled [OF that(3)]) (simp add: division_by_zero_def fun_eq_iff that(1,2))
  consider (left) "moving_left w" | (right) "\<not> moving_left w" "moving_right w" | (both) "\<not> moving_left w" "\<not> moving_right w" "moving_both w"
    | (none) "\<not> moving_left w" "\<not> moving_right w" "\<not> moving_both w" by blast
  then show ?thesis
  proof cases
    case left
    show ?thesis
    proof (cases "left_cur w")
      case None
      then show ?thesis using left assms by (simp add: button_release_def view_ok_def)
    next
      case (Some p)
      then show ?thesis using left assms sel [of p] r
        by (auto simp: button_release_def view_ok_def intro!: drag)
    qed
  next
    case right
    show ?thesis
    proof (cases "right_cur w")
      case None
      then show ?thesis using right assms by (simp add: button_release_def view_ok_def)
    next
      case (Some p)
      then show ?thesis using right assms sel [of p] r
        by (auto simp: button_release_def view_ok_def intro!: drag)
    qed
  next
    case both
    then obtain start cur where d: "both_drag w = Some (start, cur)" using assms by (auto simp: view_ok_def)
    then show ?thesis using both assms sel [of "cur - start"] r
      by (auto simp: button_release_def view_ok_def intro!: drag)
  next
    case none
    then show ?thesis using assms by (simp add: button_release_def view_ok_def)
  qed
qed


lemma strip_handled: "view_ok v \<Longrightarrow> handled ev w (queue_strip y h v)"
  by (auto simp: queue_strip_def view_ok_def)

lemma scale_data_safe:
  assumes "graphic_ok g"
  shows "safe (no_data_width g) (\<lambda>v. True) (scale_data g p)"
proof -
  obtain x where x: "data_x_start g = Inr x" using data_x_start_ok [OF assms] by blast
  obtain rs re where r: "g_range g = Some (rs, re)" using assms by (auto simp: graphic_ok_def)
  show ?thesis unfolding scale_data_def x rbind_simps
    by (rule safe_bind [OF safe_ndiv]) (auto simp: r no_data_width_def x)
qed

text \<open>Dragging the data: the window moves while the button is down.\<close>

lemma pan_handled:
  assumes "view_ok w" and "moving_top w"
  shows "handled (Motion mx my) w
    (case set_range ext (w_data w) a b of (g, res) \<Rightarrow>
       call (w\<lparr>top_cur := c, w_data := g\<rparr>) res (\<lambda>u.
         (queue_draw (w\<lparr>top_cur := c, w_data := g, force_full_redraw := True, top_start := Some ex\<rparr>), Inr True)))"
proof -
  obtain g r where g: "set_range ext (w_data w) a b = (g, r)" by fastforce
  then show ?thesis using view_range [OF assms(1) g]
    by (auto simp: view_ok_def queue_draw_def division_by_zero_def)
qed

lemma motion_handled:
  assumes "view_ok w"
  shows "handled (Motion mx my) w (motion_notify ext ex ey w)"
proof -
  have ok: "graphic_ok (w_data w)" using assms by (simp add: view_ok_def)
  obtain rs re where r: "g_range (w_data w) = Some (rs, re)" using range_known [OF assms] by blast
  obtain win hgt where sz: "w_size w = Some (win, hgt)" "win \<noteq> 0" using assms by (auto simp: view_ok_def)
  obtain dat where d: "get_data_rectangle (w_data w) = Inr dat" using data_rectangle_ok [OF ok] by blast
  have ok_left: "view_ok (w\<lparr>left_cur := p\<rparr>)" for p using assms by (simp add: view_ok_def)
  have ok_right: "view_ok (w\<lparr>right_cur := p\<rparr>)" "view_ok (w\<lparr>moving_right := b\<rparr>)" for p b using assms by (simp_all add: view_ok_def)
  have ok_both: "view_ok (w\<lparr>both_drag := Some p\<rparr>)" for p using assms by (simp add: view_ok_def)
  show ?thesis
    unfolding motion_notify_def
  proof (rule call_safe [OF selection_zero [OF ok]])
    show "handled (Motion mx my) w (w, Inl ZeroDivisionError)" if "degenerate (w_data w)"
      using assms that by (simp add: division_by_zero_def)
  next
    fix sel :: "pynum \<times> pynum \<times> pynum \<times> pynum"
    obtain x y width height where sel: "sel = (x, y, width, height)" by (cases sel)
    consider (left) "moving_left w" | (right) "\<not> moving_left w" "moving_right w"
      | (both) "\<not> moving_left w" "\<not> moving_right w" "moving_both w"
      | (top) "\<not> moving_left w" "\<not> moving_right w" "\<not> moving_both w" "moving_top w"
      | (none) "\<not> moving_left w" "\<not> moving_right w" "\<not> moving_both w" "\<not> moving_top w" by blast
    then show "handled (Motion mx my) w (drag_motion ext ex ey sel w)"
    proof cases
      case left
      then show ?thesis by (simp add: drag_motion_def sel strip_handled ok_left split del: if_split)
    next
      case right
      then show ?thesis using assms by (simp add: drag_motion_def sel sz strip_handled ok_right)
    next
      case both
      then obtain start cur where "both_drag w = Some (start, cur)" using assms by (auto simp: view_ok_def)
      then show ?thesis using both by (simp add: drag_motion_def sel sz Let_def strip_handled ok_both)
    next
      case top
      then obtain start where start: "top_start w = Some start" using assms by (auto simp: view_ok_def)
      have cur: "view_ok (w\<lparr>top_cur := Some ex\<rparr>)" using assms by (simp add: view_ok_def)
      show ?thesis
        using top unfolding drag_motion_def sel prod.case Let_def
        by (simp add: start r) (rule call_safe [OF scale_data_safe [OF ok]],
          use cur pan_handled [OF assms top(4)] in \<open>auto simp: division_by_zero_def r\<close>)
    next
      case none
      then show ?thesis using assms by (simp add: drag_motion_def sel d Let_def view_ok_def)
    qed
  qed
qed

lemma allocate_handled:
  assumes "view_ok w" and "0 < width"
  shows "handled (Allocate width height) w (size_allocate ext width height w)"
proof -
  have ok: "graphic_ok (w_data w)" using assms by (simp add: view_ok_def)
  obtain rs re where r: "g_range (w_data w) = Some (rs, re)" "s_bounds (g_mid (w_data w)) = Some (rs, re)"
    using ok by (auto simp: graphic_ok_def)
  obtain g res where g: "graphic_layout ext (w_data w) width height = (g, res)" by fastforce
  note out = graphic_layout_outcome [OF graphic_ok_set [OF ok] r(2) g]
  have "graphic_ok g" using out ok r by (auto simp: graphic_ok_def split: if_splits)
  moreover have "res = Inr () \<or> res = Inl ZeroDivisionError \<and> unit_window g"
    using out ok r by (auto simp: unit_window_def graphic_ok_def)
  ultimately show ?thesis using assms out
    by (auto simp: size_allocate_def g Let_def view_ok_def queue_draw_def division_by_zero_def)
qed


lemma refresh_outcome:
  assumes "view_ok w" and "refresh_buffer ext w = (w', r)"
  shows "view_ok w' \<and> w_data w' = w_data w \<and> moving_left w' = moving_left w \<and> moving_right w' = moving_right w \<and>
    moving_both w' = moving_both w \<and> left_cur w' = left_cur w \<and> right_cur w' = right_cur w \<and> both_drag w' = both_drag w \<and>
    w_size w' = w_size w \<and> (r = Inr () \<and> w_buffer w' \<noteq> None \<or> r = Inl ZeroDivisionError \<and> degenerate (w_data w))"
proof (cases "force_full_redraw w")
  case False
  then show ?thesis using assms by (auto simp: refresh_buffer_def view_ok_def)
next
  case True
  have ok: "graphic_ok (w_data w)" using assms(1) by (simp add: view_ok_def)
  have "safe (degenerate (w_data w)) (\<lambda>p. fst p = w_data w) (graphic_draw ext (w_data w))" by (rule graphic_draw_safe [OF ok])
  then show ?thesis using True assms
    by (cases "graphic_draw ext (w_data w)") (auto simp: refresh_buffer_def Let_def view_ok_def)
qed

lemma expose_handled:
  assumes "view_ok w"
  shows "handled (Expose area') w (expose ext area w)"
proof -
  obtain w1 r where w1: "refresh_buffer ext w = (w1, r)" by fastforce
  note out = refresh_outcome [OF assms w1]
  obtain ax ay aw ah where area: "area = (ax, ay, aw, ah)" by (cases area)
  have ok: "graphic_ok (w_data w1)" using out unfolding view_ok_def by blast
  show ?thesis
  proof (cases "r = Inr ()")
    case False
    then show ?thesis using out by (auto simp: expose_def w1 division_by_zero_def)
  next
    case True
    then obtain bw bh cs where buf: "w_buffer w1 = Some (bw, bh, cs)" using out by auto
    obtain win hgt where sz: "w_size w1 = Some (win, hgt)" using out by (auto simp: view_ok_def)
    have marks: "(\<exists>ms. drag_marks w1 sel = Inr ms) \<or> drag_marks w1 sel = Inl AttributeError \<and> unset (Expose area') w" for sel
      using out sz by (cases sel) (auto simp: drag_marks_def view_ok_def attr_def split: option.split)
    have "handled (Expose area') w (call w1 (drag_marks w1 sel)
        (\<lambda>marks. (w1, Inr ([CRectangle (PyInt ax) (PyInt ay) (PyInt aw) (PyInt ah), CClip, CSourceSurface cs, CPaint] @ marks))))" for sel
      using marks [of sel] out by auto
    then show ?thesis
      by (simp add: expose_def w1 True area buf del: append.simps)
        (rule call_safe [OF selection_zero [OF ok]], use out in \<open>auto simp: division_by_zero_def\<close>)
  qed
qed

lemma png_handled:
  assumes "view_ok w"
  shows "handled (DialogResponse 1) w (output_png ext w)"
proof (cases "w_buffer w")
  case None
  then show ?thesis using assms by (simp add: output_png_def)
next
  case (Some b)
  have ok: "graphic_ok (w_data w)" using assms by (simp add: view_ok_def)
  obtain bw bh cs where b: "b = (bw, bh, cs)" by (cases b)
  show ?thesis unfolding output_png_def Some b attr_simps call_simps Let_def prod.case
    by (rule call_safe [OF graphic_draw_safe [OF ok]])
      (use assms in \<open>auto simp: division_by_zero_def view_ok_def split: prod.split\<close>)
qed

lemma handled_unit: "handled ev w p \<Longrightarrow> handled ev w (case p of (w', r) \<Rightarrow> call w' r (\<lambda>x. (w', Inr ())))"
  by (cases p; cases "snd p") auto

lemma event_handled:
  assumes "view_ok w" and "case ev of Allocate width height \<Rightarrow> 0 < width | _ \<Rightarrow> True"
  shows "handled ev w (handle_event ext ev w)"
proof (cases ev)
  case (DialogResponse r)
  then show ?thesis using handled_unit [OF png_handled [OF assms(1)]] assms(1) by (cases "r = 1") simp_all
qed (use assms in \<open>simp_all add: handled_unit press_handled release_handled motion_handled allocate_handled expose_handled zoom_handled\<close>)

subsection \<open>The start of the program\<close>

lemma lookups_known:
  "rfold (\<lambda>(c, ds) n. rbind (color_lookup n c) (\<lambda>(c', d). Inr (c', ds @ [d]))) (c, ds) names = Inr (c', ds') \<Longrightarrow>
   length ds' = length ds + length names \<and>
   (\<forall>n. has_key (col_dict c) n \<or> n \<in> set names \<longrightarrow> has_key (col_dict c') n)"
proof (induction names arbitrary: c ds)
  case (Cons n names)
  then obtain c1 d where l: "color_lookup n c = Inr (c1, d)"
    and rest: "rfold (\<lambda>(c, ds) n. rbind (color_lookup n c) (\<lambda>(c', d). Inr (c', ds @ [d]))) (c1, ds @ [d]) names = Inr (c', ds')"
    by auto
  have "has_key (col_dict c1) m" if "has_key (col_dict c) m \<or> m = n" for m
    using l that by (auto simp: color_lookup_def Let_def has_key_def keys_update simp del: set_map split: if_splits)
  then show ?case using Cons.IH [OF rest] by auto
qed simp

lemma range_values_keys:
  assumes "\<forall>ks. mset (ko ks) = mset ks"
  shows "set (get_all_range_values ko ts) = (\<Union>t\<in>set ts. \<Union>l\<in>set (tl_ranges t). r_value ` set (ranges l))"
proof -
  have keys: "set (map fst (foldl (\<lambda>d v. AList.update v (1::nat) d) d vs)) = set (map fst d) \<union> set vs" for d and vs :: "string list"
    by (induction vs arbitrary: d) (simp_all add: dict_simps del: set_map)
  show ?thesis using keys [of "[]"] mset_eq_setD [OF assms [rule_format]]
    by (simp add: get_all_range_values_def dict_keys_def)
qed

text \<open>The graphic that \<^verbatim>\<open>main\<close> sets up, and the window it asks for.\<close>

definition first_window :: "int \<Rightarrow> int \<Rightarrow> pynum \<times> pynum" where
  "first_window lo hi =
     (PyInt ((hi - lo) div 2 - (hi - lo) div 10 div 2), PyInt ((hi - lo) div 2 + (hi - lo) div 10 div 2))"

lemma grid_main_shape:
  assumes "\<forall>ks. mset (ko ks) = mset ks" and "timelines_get_bounds (snd (read_data lines)) = (lo, hi)"
    and "lookup_all (fst (read_data lines)) (get_all_range_values ko (snd (read_data lines))) = Inr cd"
  shows "\<exists>g0. graphic_set g0 \<and> g_start g0 = of_int lo \<and> g_end g0 = of_int hi \<and>
    grid_main ext ko lines =
      (case set_range ext g0 (fst (first_window lo hi)) (snd (first_window lo hi)) of (g, r) \<Rightarrow> rbind r (\<lambda>u. Inr g))"
proof -
  obtain cols ts where rd: "read_data lines = (cols, ts)" by fastforce
  obtain cols' ds where cd: "cd = (cols', ds)" by (cases cd)
  let ?names = "get_all_range_values ko ts"
  have look: "lookup_all cols ?names = Inr (cols', ds)" using assms(3) rd cd by simp
  have b: "timelines_get_bounds ts = (lo, hi)" using assms(2) rd by simp
  define g0 where "g0 = (new_graphic lo hi)\<lparr>g_legend := Some (new_legend\<lparr>lg_legends := Some (?names, ds)\<rparr>),
    g_data := Some (new_timelines\<lparr>tr_timelines := Some (ts, cols')\<rparr>)\<rparr>"
  note known = lookups_known [OF look [unfolded lookup_all_def]]
  have "known_values cols' ts"
    using known range_values_keys [OF assms(1), of ts] by (fastforce simp: known_values_def)
  then have "graphic_set g0"
    using known by (auto simp: graphic_set_def g0_def new_graphic_def set_bounds_def legend_set_def timelines_set_def)
  moreover have "g_start g0 = of_int lo" "g_end g0 = of_int hi" by (simp_all add: g0_def new_graphic_def)
  moreover have "grid_main ext ko lines =
      (case set_range ext g0 (fst (first_window lo hi)) (snd (first_window lo hi)) of (g, r) \<Rightarrow> rbind r (\<lambda>u. Inr g))"
    by (simp add: grid_main_def rd b look Let_def g0_def first_window_def)
  ultimately show ?thesis by blast
qed

lemma grid_main_ok:
  assumes "\<forall>ks. mset (ko ks) = mset ks" and "grid_main ext ko lines = Inr g"
    and "timelines_get_bounds (snd (read_data lines)) = (lo, hi)"
  shows "graphic_ok g \<and> g_start g = of_int lo \<and> g_end g = of_int hi \<and>
    g_range g = Some
      (nmax (PyFloat (of_int lo)) (nmin (fst (first_window lo hi)) (snd (first_window lo hi))),
       nmin (PyFloat (of_int hi)) (nmax (fst (first_window lo hi)) (snd (first_window lo hi))))"
proof -
  obtain cols ts where rd: "read_data lines = (cols, ts)" by fastforce
  from assms(2,3) obtain cd where look: "lookup_all (fst (read_data lines)) (get_all_range_values ko (snd (read_data lines))) = Inr cd"
    by (cases "lookup_all cols (get_all_range_values ko ts)") (auto simp: grid_main_def rd)
  obtain g0 where g0: "graphic_set g0" "g_start g0 = of_int lo" "g_end g0 = of_int hi"
    "grid_main ext ko lines =
      (case set_range ext g0 (fst (first_window lo hi)) (snd (first_window lo hi)) of (g, r) \<Rightarrow> rbind r (\<lambda>u. Inr g))"
    using grid_main_shape [OF assms(1,3) look] by blast
  obtain g1 r where sr: "set_range ext g0 (fst (first_window lo hi)) (snd (first_window lo hi)) = (g1, r)" by fastforce
  then have "r = Inr ()" "g1 = g" using g0(4) assms(2) by (cases r; simp)+
  then show ?thesis using set_range_outcome [OF g0(1) sr] g0(2,3) by simp
qed

lemma view_start_ok: "view_start ext ko lines w \<Longrightarrow> view_ok w"
proof (induction rule: view_start.induct)
  case (view_main g width height)
  have ok: "graphic_ok g" using grid_main_ok [OF view_main(1,2) prod.collapse [symmetric]] by simp
  obtain rs re where r: "s_bounds (g_mid g) = Some (rs, re)" using ok by (auto simp: graphic_ok_def)
  obtain g' res where g': "graphic_layout ext g width height = (g', res)" by fastforce
  note out = graphic_layout_outcome [OF graphic_ok_set [OF ok] r g']
  have "graphic_ok g'" using out ok r by (auto simp: graphic_ok_def split: if_splits)
  then show ?case using out view_main(3)
    by (cases res) (auto simp: size_allocate_def new_widget_def g' Let_def view_ok_def queue_draw_def)
qed

interpretation view: invariant_system "view_start ext ko lines" "view_step ext" view_ok for ext ko lines
proof
  show "view_start ext ko lines w \<Longrightarrow> view_ok w" for w by (rule view_start_ok)
  show "view_ok w \<Longrightarrow> view_step ext w w' \<Longrightarrow> view_ok w'" for w w'
    by (auto elim!: view_stepE dest: event_handled [of w _ ext])
qed


end
