(* ===== verification/GridUse.thy ===== *)
theory GridUse
  imports GridView
begin

section \<open>Using the grid viewer: \<^verbatim>\<open>utils/grid.py\<close>\<close>

text \<open>
  What a user of the viewer sees: which files it opens and with which window, that no event
  stops it or leaves the data, and what zooming and dragging do to the window; and the cases in
  which the code does something else.
\<close>

definition demo_lines :: "string list" where
  "demo_lines = [''range node cpu busy 0 100'']"

definition demo_graphic :: graphic where
  "demo_graphic = (case grid_main demo_ext id demo_lines of Inr g \<Rightarrow> g | Inl e \<Rightarrow> new_graphic 0 0)"

lemma demo_values: "get_all_range_values id (snd (read_data demo_lines)) = [''busy'']"
  by code_simp

lemma demo_bounds: "timelines_get_bounds (snd (read_data demo_lines)) = (0, 100)"
  by code_simp

lemma demo_main: "grid_main demo_ext id demo_lines = Inr demo_graphic"
  by code_simp

subsection \<open>No event stops the viewer\<close>


definition demo_widget :: widget where
  "demo_widget = fst (size_allocate demo_ext 400 200 (new_widget demo_graphic))"

lemma demo_start: "view_start demo_ext id demo_lines demo_widget"
  unfolding demo_widget_def by (rule view_main [OF _ demo_main]) simp_all


text \<open>
  Dragging the data past its end leaves a window that starts after it ends, and after the data.
\<close>

lemma window_past_data:
  "map_option (map_prod nval nval) (g_range (w_data (fst (handle_event demo_ext Release (fst (handle_event demo_ext (Motion (-2000) 40)
     (fst (handle_event demo_ext (Press 300 40) demo_widget)))))))) = Some (19105 / 169, 100)"
  by code_simp

text \<open>A click on a handle without a motion: the release finds no position.\<close>

lemma click_on_handle:
  "snd (handle_event demo_ext Release (fst (handle_event demo_ext (Press 180 95) demo_widget))) = Inl AttributeError"
  by code_simp

text \<open>
  A motion past the right border does not move the handle: it stays where it was, and without an
  earlier motion the release raises.
\<close>

lemma right_border_lost:
  "snd (handle_event demo_ext Release (fst (handle_event demo_ext (Motion 500 95)
     (fst (handle_event demo_ext (Press 220 95) demo_widget))))) = Inl AttributeError"
  by code_simp

text \<open>The file written holds no drawing, whatever is on the screen.\<close>

lemma png_blank: "output_png ext w = (w', Inr (width, height, cs)) \<Longrightarrow> cs = []"
  by (auto simp: output_png_def Let_def call_def attr_def split: option.splits prod.splits sum.splits)

subsection \<open>Zooming\<close>




subsection \<open>Starting the viewer\<close>

text \<open>The times of a file are not negative, so the data of the viewer starts at 0.\<close>

definition from_zero :: "timeline \<Rightarrow> bool" where
  "from_zero t \<longleftrightarrow>
     list_all (\<lambda>l. list_all (\<lambda>r. 0 \<le> r_start r \<and> 0 \<le> r_end r) (ranges l)) (tl_ranges t) \<and>
     list_all (\<lambda>l. list_all (\<lambda>e. 0 \<le> e_at e) (events l)) (tl_event_str t) \<and>
     list_all (\<lambda>l. list_all (\<lambda>e. 0 \<le> e_at e) (events l)) (tl_event_int t)"

lemma on_named_all:
  "list_all P xs \<Longrightarrow> (\<And>x. P x \<Longrightarrow> P (f x)) \<Longrightarrow> P (mk n) \<Longrightarrow> list_all P (on_named nm mk n f xs)"
  by (induction xs) auto

lemma add_entry_from_zero:
  "list_all from_zero (fst st) \<Longrightarrow> list_all from_zero (fst (add_entry st e))"
proof (cases st; cases e)
  fix ts cs
  assume st: "list_all from_zero (fst st)" "st = (ts, cs)"
  have tl: "list_all from_zero (timelines_get a f ts)" if "\<And>t. from_zero t \<Longrightarrow> from_zero (f t)" for a f
    using st unfolding timelines_get_def by (intro on_named_all) (simp_all add: that, simp add: from_zero_def)
  show "list_all from_zero (fst (add_entry st e))" if "e = ERange a b v m n" for a b v m n
    by (simp add: that st, rule tl) (auto simp: from_zero_def get_range_def intro!: on_named_all)
  show "list_all from_zero (fst (add_entry st e))" if "e = EStr a b v n" for a b v n
    by (simp add: that st, rule tl) (auto simp: from_zero_def get_event_str_def intro!: on_named_all)
  show "list_all from_zero (fst (add_entry st e))" if "e = EInt a b v n" for a b v n
    by (simp add: that st, rule tl) (auto simp: from_zero_def get_event_int_def intro!: on_named_all)
qed simp

lemma widen_zero:
  "list_all (\<lambda>b. 0 \<le> fst b) bs \<Longrightarrow> fst b = 0 \<Longrightarrow> 0 \<le> snd b \<Longrightarrow> fst (foldl widen b bs) = 0 \<and> 0 \<le> snd (foldl widen b bs)"
proof (induction bs arbitrary: b)
  case (Cons c bs)
  then show ?case using Cons.IH [of "widen b c"] by (simp add: widen_def)
qed simp

lemma timeline_bounds_zero:
  assumes "from_zero t"
  shows "fst (timeline_get_bounds t) = 0 \<and> 0 \<le> snd (timeline_get_bounds t)"
proof -
  have "list_all (\<lambda>b. 0 \<le> fst b) (map (\<lambda>r. ranges_get_bounds (ranges r)) (tl_ranges t))"
    using assms by (auto simp: from_zero_def list_all_iff ranges_get_bounds_def)
  moreover have "list_all (\<lambda>b. 0 \<le> fst b) (map (\<lambda>e. events_get_bounds (events e)) (tl_event_str t))"
    "list_all (\<lambda>b. 0 \<le> fst b) (map (\<lambda>e. events_get_bounds (events e)) (tl_event_int t))"
    using assms by (auto simp: from_zero_def list_all_iff events_get_bounds_def)
  ultimately show ?thesis unfolding timeline_get_bounds_def
    using widen_zero by simp
qed

lemma sorted_from_zero: "from_zero t \<Longrightarrow> from_zero (timeline_sort t)"
  by (auto simp: from_zero_def timeline_sort_def list_all_iff sort_ranges sort_events)

lemma data_bounds_zero:
  "fst (timelines_get_bounds (snd (read_data lines))) = 0 \<and> 0 \<le> snd (timelines_get_bounds (snd (read_data lines)))"
proof -
  obtain ts cs where l: "foldl add_entry ([], colors_init) (entries lines) = (ts, cs)" by fastforce
  have "list_all from_zero (fst (foldl add_entry st es))" if "list_all from_zero (fst st)" for st es
    using that by (induction es arbitrary: st) (simp_all add: add_entry_from_zero)
  from this [of "([], colors_init)" "entries lines"] have "list_all from_zero (timelines_sort ts)"
    by (auto simp: l timelines_sort_def list_all_iff sorted_from_zero)
  then have "list_all (\<lambda>b. 0 \<le> fst b) (map timeline_get_bounds (timelines_sort ts))"
    by (simp add: list_all_iff timeline_bounds_zero)
  then show ?thesis using widen_zero [of _ "(0, 0)"] by (simp add: read_data_def load_eq l timelines_get_bounds_def)
qed

text \<open>The colours suffice for the values that the file gives none.\<close>

lemma lookup_all_outcome:
  "distinct names \<Longrightarrow>
   (if length (filter (\<lambda>n. \<not> has_key (col_dict c) n) names) \<le> length (default_colors c)
    then \<exists>c' ds'. rfold (\<lambda>(c, ds) n. rbind (color_lookup n c) (\<lambda>(c', d). Inr (c', ds @ [d]))) (c, ds) names = Inr (c', ds')
    else rfold (\<lambda>(c, ds) n. rbind (color_lookup n c) (\<lambda>(c', d). Inr (c', ds @ [d]))) (c, ds) names = Inl IndexError)"
proof (induction names arbitrary: c ds)
  case (Cons n names)
  show ?case
  proof (cases "has_key (col_dict c) n")
    case True
    obtain d where d: "color_lookup n c = Inr (c, d)" using lookup_known [OF True] by blast
    show ?thesis using Cons.IH [of c "ds @ [d]"] Cons.prems True by (simp add: d)
  next
    case False
    show ?thesis
    proof (cases "default_colors c" rule: rev_cases)
      case Nil
      then show ?thesis using False by (simp add: color_lookup_def)
    next
      case (snoc cs d)
      define c1 where "c1 = c\<lparr>default_colors := cs, col_dict := AList.update n d (col_dict c)\<rparr>"
      have l: "color_lookup n c = Inr (c1, d)" using False snoc by (simp add: color_lookup_def c1_def Let_def)
      have dc: "default_colors c1 = cs" by (simp add: c1_def)
      have "filter (\<lambda>m. \<not> has_key (col_dict c1) m) names = filter (\<lambda>m. \<not> has_key (col_dict c) m) names"
        using Cons.prems by (intro filter_cong) (auto simp: c1_def dict_simps)
      then show ?thesis using Cons.IH [of c1 "ds @ [d]"] Cons.prems False snoc dc by (simp add: l)
    qed
  qed
qed simp

lemma default_colors_read: "length (default_colors (fst (read_data lines))) = 6"
proof -
  have step: "default_colors (snd (add_entry st e)) = default_colors (snd st)" for st e
    by (cases st; cases e) simp_all
  have "default_colors (snd (foldl add_entry st es)) = default_colors (snd st)" for st es
    by (induction es arbitrary: st) (simp_all add: step)
  then have "default_colors (snd (foldl add_entry ([], colors_init) (entries lines))) = default_colors colors_init" by simp
  then show ?thesis by (simp add: read_data_def load_eq case_prod_beta colors_init_def)
qed

lemma range_values_distinct:
  assumes "\<forall>ks. mset (ko ks) = mset ks"
  shows "distinct (get_all_range_values ko ts)"
proof -
  have "distinct (map fst (foldl (\<lambda>d v. AList.update v (1::nat) d) d vs))" if "distinct (map fst d)" for d and vs :: "string list"
    using that by (induction vs arbitrary: d) (simp_all add: distinct_update)
  from this [of "[]"] show ?thesis
    using mset_eq_imp_distinct_iff [OF assms [rule_format]] by (simp add: get_all_range_values_def dict_keys_def)
qed


text \<open>
  C33. The viewer opens a file unless more than six of its range values have no
  colour of their own (IndexError) or its data ends at 1 (ZeroDivisionError). The data then
  starts at 0, and the first window lies in it and reaches from its middle (half of the end,
  rounded down) the same distance to both sides: half of a tenth of the data, both rounded
  down.
\<close>

theorem main_outcome:
  assumes "\<forall>ks. mset (ko ks) = mset ks" and "read_data lines = (cols, ts)"
  shows "fst (timelines_get_bounds ts) = 0 \<and>
    (case grid_main ext ko lines of
       Inl e \<Rightarrow>
         if 6 < length (filter (\<lambda>n. \<not> has_key (col_dict cols) n) (get_all_range_values ko ts)) then e = IndexError
         else e = ZeroDivisionError \<and> snd (timelines_get_bounds ts) = 1
     | Inr g \<Rightarrow>
         length (filter (\<lambda>n. \<not> has_key (col_dict cols) n) (get_all_range_values ko ts)) \<le> 6 \<and>
         snd (timelines_get_bounds ts) \<noteq> 1 \<and> g_start g = 0 \<and> g_end g = of_int (snd (timelines_get_bounds ts)) \<and>
         (\<exists>rs re. g_range g = Some (rs, re) \<and> 0 \<le> nval rs \<and> nval rs \<le> nval re \<and> nval re \<le> g_end g \<and>
            nval rs = of_int (snd (timelines_get_bounds ts) div 2 - snd (timelines_get_bounds ts) div 10 div 2) \<and>
            nval re = of_int (snd (timelines_get_bounds ts) div 2 + snd (timelines_get_bounds ts) div 10 div 2)))"
proof -
  obtain hi where b: "timelines_get_bounds ts = (0, hi)" "0 \<le> hi"
    using data_bounds_zero [of lines] assms(2) by (cases "timelines_get_bounds ts") auto
  have b': "timelines_get_bounds (snd (read_data lines)) = (0, hi)" using b(1) assms(2) by simp
  let ?n = "length (filter (\<lambda>n. \<not> has_key (col_dict cols) n) (get_all_range_values ko ts))"
  have six: "length (default_colors cols) = 6" using default_colors_read [of lines] assms(2) by simp
  note look = lookup_all_outcome [OF range_values_distinct [OF assms(1), of ts], of cols "[]"]
  define a where "a = hi div 2 - hi div 10 div 2"
  define c where "c = hi div 2 + hi div 10 div 2"
  have ac: "0 \<le> a" "a \<le> c" "c \<le> hi" "c - a = 2 * (hi div 10 div 2)" using b(2) by (simp_all add: a_def c_def)
  have win: "first_window 0 hi = (PyInt a, PyInt c)" by (simp add: first_window_def a_def c_def)
  have range: "nval (nmax (PyFloat 0) (nmin (PyInt a) (PyInt c))) = of_int a"
    "nval (nmin (PyFloat (of_int hi)) (nmax (PyInt a) (PyInt c))) = of_int c"
    using ac by (simp_all add: max_def min_def)
  show ?thesis
  proof (cases "6 < ?n")
    case True
    then have "grid_main ext ko lines = Inl IndexError"
      using look six by (simp add: grid_main_def assms(2) b(1) lookup_all_def)
    then show ?thesis using True b(1) by simp
  next
    case False
    then obtain cd where cd: "lookup_all (fst (read_data lines)) (get_all_range_values ko (snd (read_data lines))) = Inr cd"
      using look six by (auto simp: lookup_all_def assms(2))
    obtain g0 where g0: "graphic_set g0" "g_start g0 = 0" "g_end g0 = of_int hi"
      "grid_main ext ko lines = (case set_range ext g0 (PyInt a) (PyInt c) of (g, r) \<Rightarrow> rbind r (\<lambda>u. Inr g))"
      using grid_main_shape [OF assms(1) b' cd, of ext] by (auto simp: win)
    obtain g r where sr: "set_range ext g0 (PyInt a) (PyInt c) = (g, r)" by fastforce
    have "(of_int c :: rat) - of_int a \<noteq> 1"
    proof -
      have "2 * k \<noteq> 1" for k :: int by presburger
      then have "c - a \<noteq> 1" unfolding ac(4) .
      then have "(of_int (c - a) :: rat) \<noteq> of_int 1" by (simp only: of_int_eq_iff not_False_eq_True)
      then show ?thesis by simp
    qed
    then have r: "r = (if hi = 1 then Inl ZeroDivisionError else Inr ())"
      using set_range_result [OF g0(1) sr] ac(1-3) by (simp add: g0(2,3) max_def min_def)
    show ?thesis
    proof (cases "hi = 1")
      case True
      then show ?thesis using False b(1) g0(4) sr r by simp
    next
      case hi: False
      then have main: "grid_main ext ko lines = Inr g" using g0(4) sr r by simp
      define rs where "rs = nmax (PyFloat 0) (nmin (PyInt a) (PyInt c))"
      define re where "re = nmin (PyFloat (of_int hi)) (nmax (PyInt a) (PyInt c))"
      have g: "g_start g = 0" "g_end g = of_int hi" "g_range g = Some (rs, re)"
        using grid_main_ok [OF assms(1) main b'] by (simp_all add: win rs_def re_def)
      have "nval rs = of_int a" "nval re = of_int c" using range unfolding rs_def re_def by simp_all
      then have "0 \<le> nval rs \<and> nval rs \<le> nval re \<and> nval re \<le> g_end g \<and> nval rs = of_int (hi div 2 - hi div 10 div 2) \<and>
          nval re = of_int (hi div 2 + hi div 10 div 2)"
        using ac(1-3) g(2) by (simp only: a_def [symmetric] c_def [symmetric]) simp
      then show ?thesis unfolding main sum.case b(1) fst_conv snd_conv using False hi g
        by (intro conjI exI [of _ rs] exI [of _ re]) (auto simp only: not_less)
    qed
  qed
qed

theorem main_outcome_witness:
  "read_data demo_lines = (colors_init, snd (read_data demo_lines)) \<and>
   g_start demo_graphic = 0 \<and> g_end demo_graphic = 100 \<and>
   map_option (map_prod nval nval) (g_range demo_graphic) = Some (45, 55)"
proof -
  have rd: "read_data demo_lines = (colors_init, snd (read_data demo_lines))" by code_simp
  have "\<forall>ks. mset (id ks) = mset ks" by simp
  from main_outcome [OF this rd, where ext = demo_ext] show ?thesis
    using rd unfolding demo_main demo_bounds sum.case fst_conv snd_conv by auto
qed


subsection \<open>Dragging\<close>

lemma position_value:
  assumes "graphic_ok g" and "s_laid (g_bot g) = Some lay" and "s_width lay = PyInt width"
    and "is_float v" and "g_start g < g_end g"
  shows "\<exists>x. get_position (g_bot g) v = Inr x \<and> nval x = (nval v - g_start g) * of_int width / (g_end g - g_start g)"
proof -
  from assms(1) obtain lo hi where b: "s_bounds (g_bot g) = Some (PyInt lo, PyInt hi)" "of_int lo = g_start g" "of_int hi = g_end g"
    by (rule graphic_okE)
  have "nval (PyInt hi - PyInt lo) \<noteq> 0" using assms(5) b by simp
  then show ?thesis using assms(2-4) b
    by (simp add: get_position_def ndiv_def nval_div_float)
qed

lemma selection_value:
  assumes "view_ok w" and "is_float p"
  shows "\<exists>v. scale_selection (w_data w) p = Inr v \<and> is_float v \<and>
    nval v = nval p / of_int (g_width (w_data w)) * (g_end (w_data w) - g_start (w_data w))"
  using assms by (auto simp: scale_selection_def ndiv_def view_ok_def nval_div_float)

text \<open>
  C22. Dragging the selection in the lower scale moves the window by the distance of
  the mouse, as far as the data goes, and does not change its length, for float bounds.
\<close>

theorem selection_drag:
  assumes "view_ok w" and "moving_both w" and "\<not> moving_left w" and "\<not> moving_right w"
    and "both_drag w = Some (PyFloat p, c)"
    and "g_range (w_data w) = Some (rs, re)" and "is_float rs" and "is_float re" and "nval rs \<le> nval re"
    and "g_start (w_data w) < g_end (w_data w)"
    and "s_laid (g_bot (w_data w)) = Some lay" and "s_width lay = PyInt (g_width (w_data w))"
    and "handle_event ext (Motion mx my) w = (w1, r1)" and "handle_event ext Release w1 = (w2, r2)"
  shows "\<exists>a b d. g_range (w_data w2) = Some (a, b) \<and> nval a = nval rs + d \<and> nval b = nval re + d \<and>
    d = max (g_start (w_data w) - nval rs) (min (g_end (w_data w) - nval re)
          ((mx - p) / of_int (g_width (w_data w)) * (g_end (w_data w) - g_start (w_data w))))"
proof -
  let ?g = "w_data w"
  define W :: rat where "W = of_int (g_width ?g)"
  define S where "S = g_start ?g"
  define L where "L = g_end ?g - S"
  have ok: "graphic_ok ?g" and W: "0 < W" and sz: "w_size w = Some (g_width ?g, g_height ?g)"
    using assms(1) by (simp_all add: view_ok_def W_def)
  have L: "0 < L" "g_end ?g = S + L" using assms(10) by (simp_all add: L_def S_def)
  have inside: "S \<le> nval rs" "nval re \<le> S + L"
    using ok assms(6) L(2) by (auto simp: graphic_ok_def S_def)
  obtain x where x: "get_position (g_bot ?g) rs = Inr x" "nval x = (nval rs - S) * W / L"
    using position_value [OF ok assms(11,12,7,10)] by (auto simp: S_def L_def W_def)
  obtain xe where xe: "get_position (g_bot ?g) re = Inr xe" "nval xe = (nval re - S) * W / L"
    using position_value [OF ok assms(11,12,8,10)] by (auto simp: S_def L_def W_def)
  have "\<exists>y h. get_selection_rectangle ?g = Inr (x, y, xe - x, h)"
    using ok x(1) xe(1) assms(6)
    by (auto elim!: graphic_okE simp: get_selection_rectangle_def legend_size_def legend_height_def data_size_def
        timelines_height_def scale_height_def scale_ok_def)
  then obtain y h where sel: "get_selection_rectangle ?g = Inr (x, y, xe - x, h)" by blast
  define cur where "cur = clamp (PyFloat p - x) (PyInt (g_width ?g) - (x + (xe - x) - PyFloat p)) (PyFloat mx)"
  have w1: "w_data w1 = ?g" "both_drag w1 = Some (PyFloat p, cur)" "moving_both w1" "\<not> moving_left w1" "\<not> moving_right w1"
    using assms(13) by (auto simp: motion_notify_def drag_motion_def sel assms(2-5) sz Let_def queue_strip_def cur_def)
  have v1: "view_ok w1" using event_handled [OF assms(1), of "Motion mx my" ext] assms(13) by simp
  obtain d where d: "scale_selection ?g (cur - PyFloat p) = Inr d" "is_float d" "nval d = (nval cur - p) / W * L"
    using selection_value [OF v1, of "cur - PyFloat p"] w1(1) by (auto simp: W_def L_def S_def)
  have nd: "nval d = max (S - nval rs) (min (S + L - nval re) ((mx - p) / W * L))"
  proof -
    define u where "u = (mx - p) / W * L"
    define k where "k = W / L"
    have k: "0 < k" "W = k * L" using W L(1) by (simp_all add: k_def)
    have diff: "mx - (p - nval x) = (u - (S - nval rs)) * k" "mx - (W - (nval xe - p)) = (u - (S + L - nval re)) * k"
      using W L(1) by (simp_all add: x(2) xe(2) k_def u_def field_simps)
    have "mx - (p - nval x) < 0 \<longleftrightarrow> u - (S - nval rs) < 0" "0 < mx - (W - (nval xe - p)) \<longleftrightarrow> 0 < u - (S + L - nval re)"
      using k(1) unfolding diff by (simp_all add: mult_less_0_iff zero_less_mult_iff)
    then have lo: "mx < p - nval x \<longleftrightarrow> u < S - nval rs" and hi: "mx > W - (nval xe - p) \<longleftrightarrow> u > S + L - nval re"
      by linarith+
    have "nval cur = (if u < S - nval rs then p - nval x else if u > S + L - nval re then W - (nval xe - p) else mx)"
      using lo hi by (simp add: cur_def clamp_def num_le W_def)
    moreover have "(p - nval x - p) / W * L = S - nval rs" "(W - (nval xe - p) - p) / W * L = S + L - nval re"
      using W L(1) by (simp_all add: x(2) xe(2) field_simps)
    ultimately have "nval d = (if u < S - nval rs then S - nval rs else if u > S + L - nval re then S + L - nval re else u)"
      using d(3) by (simp add: u_def)
    then show ?thesis using inside assms(9) unfolding u_def [symmetric] by (simp add: max_def min_def)
  qed
  obtain g r where sr: "set_range ext ?g (rs + d) (re + d) = (g, r)" by fastforce
  note out = set_range_outcome [OF graphic_ok_set [OF ok] sr disjI1 [OF ok]]
  have "w_data w2 = g"
    using assms(14) w1 d(1) assms(6) by (cases r) (auto simp: button_release_def change_range_def sr Let_def queue_draw_def)
  moreover have "S \<le> nval rs + nval d" "nval re + nval d \<le> S + L"
    using nd inside assms(9) by (simp_all add: max_def min_def)
  ultimately show ?thesis using out nd assms(9) L(2)
    by (auto simp: S_def [symmetric] W_def [symmetric] L_def [symmetric])
qed

definition drag_widget :: widget where
  "drag_widget = (fst (change_range demo_ext (PyFloat 20) (PyFloat 60) () demo_widget))
     \<lparr>moving_both := True, both_drag := Some (PyFloat 150, PyFloat 150)\<rparr>"

lemma drag_widget_ok: "view_ok drag_widget"
proof -
  have "handled ZoomIn demo_widget (change_range demo_ext (PyFloat 20) (PyFloat 60) () demo_widget)"
    by (rule change_range_handled [OF view_start_ok [OF demo_start]]) simp
  then show ?thesis
    by (cases "change_range demo_ext (PyFloat 20) (PyFloat 60) () demo_widget") (simp add: drag_widget_def view_ok_def)
qed

theorem selection_drag_witness:
  "map_option (map_prod nval nval) (g_range (w_data (fst (handle_event demo_ext Release
     (fst (handle_event demo_ext (Motion 190 95) drag_widget)))))) = Some (30, 70)"
proof -
  have w: "moving_both drag_widget" "\<not> moving_left drag_widget" "\<not> moving_right drag_widget"
    "both_drag drag_widget = Some (PyFloat 150, PyFloat 150)" "g_range (w_data drag_widget) = Some (PyFloat 20, PyFloat 60)"
    "g_start (w_data drag_widget) = 0" "g_end (w_data drag_widget) = 100" "g_width (w_data drag_widget) = 400"
    "map_option s_width (s_laid (g_bot (w_data drag_widget))) = Some (PyInt 400)"
    by code_simp+
  then obtain lay where lay: "s_laid (g_bot (w_data drag_widget)) = Some lay" "s_width lay = PyInt 400" by auto
  show ?thesis
    using selection_drag [OF drag_widget_ok w(1-5) _ _ _ _ lay(1) _ prod.collapse [symmetric] prod.collapse [symmetric],
        where ext = demo_ext and mx = 190 and my = 95]
    by (auto simp: w lay(2))
qed

text \<open>
  A position of the mouse, scaled to a time of data that starts at 0, is drawn at
  that position again: the handle of the window stays where it is dropped.
\<close>

theorem handle_drop:
  assumes "view_ok w" and "g_start (w_data w) = 0" and "0 < g_end (w_data w)"
    and "s_laid (g_bot (w_data w)) = Some lay" and "s_width lay = PyInt (g_width (w_data w))"
  shows "\<exists>v x. scale_selection (w_data w) (PyFloat p) = Inr v \<and> get_position (g_bot (w_data w)) v = Inr x \<and> nval x = p"
proof -
  obtain v where v: "scale_selection (w_data w) (PyFloat p) = Inr v" "is_float v"
    "nval v = p / of_int (g_width (w_data w)) * g_end (w_data w)"
    using selection_value [OF assms(1), of "PyFloat p"] assms(2) by auto
  have ok: "graphic_ok (w_data w)" "0 < g_width (w_data w)" using assms(1) by (simp_all add: view_ok_def)
  show ?thesis using position_value [OF ok(1) assms(4,5) v(2)] assms(2,3) v ok(2) by auto
qed

theorem handle_drop_witness:
  "\<exists>v x. scale_selection (w_data demo_widget) (PyFloat 100) = Inr v \<and> get_position (g_bot (w_data demo_widget)) v = Inr x \<and> nval x = 100"
proof -
  have w: "g_start (w_data demo_widget) = 0" "g_end (w_data demo_widget) = 100" "g_width (w_data demo_widget) = 400"
    "map_option s_width (s_laid (g_bot (w_data demo_widget))) = Some (PyInt 400)"
    by code_simp+
  then obtain lay where lay: "s_laid (g_bot (w_data demo_widget)) = Some lay" "s_width lay = PyInt 400" by auto
  show ?thesis
    using handle_drop [OF view_start_ok [OF demo_start] w(1) _ lay(1), of 100] by (simp add: w lay(2))
qed

text \<open>
  With the first window, whose bounds are integers, the positions of the selection are integers
  too and the division by the width floors: dragging the left handle past the right one sets the
  window to start at 0 instead of closing it.
\<close>

lemma handle_jumps:
  "map_option (map_prod nval nval) (g_range (w_data (fst (handle_event demo_ext Release
     (fst (handle_event demo_ext (Motion 300 95) (fst (handle_event demo_ext (Press 180 95) demo_widget)))))))) = Some (0, 55)"
  by code_simp

text \<open>
  Dragging the data cuts the window off at the end of the data: it gets shorter by what would
  lie behind the end, and is not that long again when it is dragged back.
\<close>

lemma pan_shrinks:
  assumes "graphic_ok g" and "g_range g = Some (rs, re)" and "nval rs \<le> nval re" and "0 < nval d"
    and "g_end g < nval re + nval d" and "nval rs + nval d \<le> g_end g"
    and "set_range ext g (rs + d) (re + d) = (g', r)"
  shows "\<exists>a b. g_range g' = Some (a, b) \<and> nval b - nval a = (nval re - nval rs) - (nval re + nval d - g_end g)"
  using set_range_outcome [OF graphic_ok_set [OF assms(1)] assms(7) disjI1 [OF assms(1)]] assms
  by (auto simp: graphic_ok_def)


end
