(* ===== verification/BindScan.thy ===== *)
theory BindScan
  imports PyLib Topsort "HOL-Library.List_Lexorder" "HOL-Library.Char_ord"
begin

section \<open>Scanning the headers for the Python bindings\<close>

text \<open>
  \<^verbatim>\<open>bindings/python/ns3modulescan.py\<close> with the functions of the \<^verbatim>\<open>wscript\<close> beside it
  that prepare its input. The declarations gccxml finds are records with the fields the
  code reads; pygccxml is not part of the repository and pybindgen is a vendored library. The
  table
  \<^verbatim>\<open>type_annotations\<close> is module state that \<^verbatim>\<open>pre_scan_hook\<close> changes, so the hook takes
  it and returns it.
\<close>

subsection \<open>Paths below \<^verbatim>\<open>ns3\<close>\<close>

text \<open>\<^verbatim>\<open>os.path.join(*l)\<close> needs at least one argument.\<close>

definition join_parts :: "string list \<Rightarrow> string res" where
  "join_parts l = (case l of [] \<Rightarrow> Inl TypeError | w # ws \<Rightarrow> Inr (path_joins w ws))"

text \<open>The loop does not end for some paths: its value is \<^const>\<open>None\<close> there.\<close>

partial_function (option) relative_loop :: "string list \<Rightarrow> string \<Rightarrow> string res option" where
  "relative_loop l head =
     (if head = [] then Some (Inl AssertionError)
      else if snd (path_split head) = ''ns3'' then Some (join_parts l)
      else relative_loop (snd (path_split head) # l) (fst (path_split head)))"

definition get_ns3_relative_path :: "string \<Rightarrow> string res option" where
  "get_ns3_relative_path path = relative_loop [] path"

definition components :: "string \<Rightarrow> string set" where
  "components p = set (split_on CHR ''/'' p)"

lemma base_decomp:
  obtains h where "p = h @ path_base p" and "h = [] \<or> ends_with h ''/''"
proof -
  let ?P = "\<lambda>c. c \<noteq> CHR ''/''"
  have r: "rev p = takeWhile ?P (rev p) @ dropWhile ?P (rev p)" by simp
  then have "p = rev (dropWhile ?P (rev p)) @ path_base p"
    unfolding path_base_def by (metis rev_append rev_rev_ident)
  moreover have "rev (dropWhile ?P (rev p)) = [] \<or> ends_with (rev (dropWhile ?P (rev p))) ''/''"
  proof (cases "dropWhile ?P (rev p)")
    case (Cons c cs)
    then have "c = CHR ''/''" using hd_dropWhile [of ?P "rev p"] by auto
    with Cons show ?thesis by (auto simp: ends_with_iff)
  qed simp
  ultimately show thesis using that by blast
qed

lemma strip_slashes:
  obtains k where "h = rev (dropWhile (\<lambda>c. c = CHR ''/'') (rev h)) @ replicate k (CHR ''/'')"
proof -
  let ?P = "\<lambda>c. c = CHR ''/''"
  have "rev h = takeWhile ?P (rev h) @ dropWhile ?P (rev h)" by simp
  then have "h = rev (dropWhile ?P (rev h)) @ rev (takeWhile ?P (rev h))" by (metis rev_append rev_rev_ident)
  moreover have "takeWhile ?P (rev h) = replicate (length (takeWhile ?P (rev h))) (CHR ''/'')"
    by (rule replicate_eqI) (auto dest: set_takeWhileD)
  ultimately show thesis using that by (metis rev_replicate)
qed

lemma components_slashes: "components (u @ replicate k (CHR ''/'')) \<subseteq> insert [] (components u)"
  and components_slashes': "components u \<subseteq> components (u @ replicate k (CHR ''/''))"
proof (induction k)
  case (Suc k)
  have "u @ replicate (Suc k) (CHR ''/'') = (u @ replicate k (CHR ''/'')) @ CHR ''/'' # []"
    by (simp add: replicate_append_same)
  then have "components (u @ replicate (Suc k) (CHR ''/'')) = insert [] (components (u @ replicate k (CHR ''/'')))"
    unfolding components_def by (simp only: split_on_append_sep) simp
  with Suc show "components (u @ replicate (Suc k) (CHR ''/'')) \<subseteq> insert [] (components u)"
    "components u \<subseteq> components (u @ replicate (Suc k) (CHR ''/''))" by blast+
qed auto

text \<open>One call of \<^verbatim>\<open>os.path.split\<close> takes the last component off.\<close>

lemma dir_of: "p = h @ path_base p \<Longrightarrow>
    path_dir p = (if list_all (\<lambda>c. c = CHR ''/'') h then h else rev (dropWhile (\<lambda>c. c = CHR ''/'') (rev h)))"
proof -
  assume "p = h @ path_base p"
  then have "take (length p - length (path_base p)) p = h"
    by (metis append_eq_conv_conj diff_add_inverse2 length_append)
  then show ?thesis by (simp add: path_dir_def)
qed

lemma components_step:
  assumes "w \<noteq> []"
  shows "w \<in> components p \<longleftrightarrow> w = path_base p \<or> w \<in> components (path_dir p)"
proof -
  obtain h where h: "p = h @ path_base p" "h = [] \<or> ends_with h ''/''" by (rule base_decomp)
  obtain k where k: "h = rev (dropWhile (\<lambda>c. c = CHR ''/'') (rev h)) @ replicate k (CHR ''/'')"
    by (rule strip_slashes)
  have same: "w \<in> components h \<longleftrightarrow> w \<in> components (path_dir p)"
    using components_slashes [of "rev (dropWhile (\<lambda>c. c = CHR ''/'') (rev h))" k]
      components_slashes' [of "rev (dropWhile (\<lambda>c. c = CHR ''/'') (rev h))" k] assms
    unfolding dir_of [OF h(1)] k [symmetric] by auto
  have b: "split_on (CHR ''/'') (path_base p) = [path_base p]"
    by (rule split_on_no_sep) (rule path_base_no_slash)
  show ?thesis
  proof (cases "h = []")
    case True
    then have "components p = {path_base p}" using h(1) b by (simp add: components_def)
    moreover have "components (path_dir p) = {[]}"
      using True dir_of [OF h(1)] by (simp add: components_def)
    ultimately show ?thesis using assms by auto
  next
    case False
    then obtain u where u: "h = u @ CHR ''/'' # []" using h(2) by (auto simp: ends_with_iff)
    define q where "q = path_base p"
    have sp: "split_on (CHR ''/'') (u @ CHR ''/'' # q) = split_on (CHR ''/'') u @ [q]"
      by (simp add: split_on_append_sep b q_def)
    have "p = u @ CHR ''/'' # q" unfolding q_def by (subst h(1)) (simp add: u)
    then have "components p = set (split_on (CHR ''/'') (u @ CHR ''/'' # q))" by (simp only: components_def)
    then have "components p = insert (path_base p) (components u)"
      unfolding sp by (simp add: components_def q_def)
    moreover have "components h = insert [] (components u)"
      unfolding components_def u by (simp add: split_on_append_sep)
    ultimately show ?thesis using same assms by auto
  qed
qed

lemma path_dir_shorter:
  assumes "\<not> list_all (\<lambda>c. c = CHR ''/'') p"
  shows "length (path_dir p) < length p"
proof -
  obtain h where h: "p = h @ path_base p" "h = [] \<or> ends_with h ''/''" by (rule base_decomp)
  let ?s = "rev (dropWhile (\<lambda>c. c = CHR ''/'') (rev h))"
  obtain k where k: "h = ?s @ replicate k (CHR ''/'')" by (rule strip_slashes)
  have le: "length (path_dir p) \<le> length h"
    unfolding dir_of [OF h(1)] using length_dropWhile_le [of "\<lambda>c. c = CHR ''/''" "rev h"] by simp
  show ?thesis
  proof (cases "path_base p = []")
    case False
    then show ?thesis using le arg_cong [OF h(1), of length] by (simp only: length_append length_greater_0_conv [symmetric])
  next
    case True
    then have ph: "p = h" using h(1) by simp
    then have na: "\<not> list_all (\<lambda>c. c = CHR ''/'') h" using assms by simp
    then obtain u where u: "rev h = CHR ''/'' # rev u" using h(2) by (auto simp: ends_with_iff)
    have "length h = Suc (length u)" using arg_cong [OF u, of length] by simp
    then have "length (dropWhile (\<lambda>c. c = CHR ''/'') (rev h)) < length h"
      using length_dropWhile_le [of "\<lambda>c. c = CHR ''/''" "rev u"] by (simp add: u)
    then show ?thesis using na ph dir_of [OF h(1)] by simp
  qed
qed

lemma relative_dir:
  assumes "p \<noteq> []" shows "starts_with (path_dir p) ''/'' \<longleftrightarrow> starts_with p ''/''"
proof -
  obtain h where h: "p = h @ path_base p" "h = [] \<or> ends_with h ''/''" by (rule base_decomp)
  obtain k where k: "h = rev (dropWhile (\<lambda>c. c = CHR ''/'') (rev h)) @ replicate k (CHR ''/'')"
    by (rule strip_slashes)
  have sw: "starts_with s ''/'' \<longleftrightarrow> s \<noteq> [] \<and> hd s = CHR ''/''" for s
    by (cases s) (auto simp: starts_with_def)
  show ?thesis
  proof (cases "h = []")
    case True
    then have "p = path_base p" "path_dir p = []" using h(1) dir_of [OF h(1)] by simp_all
    moreover have "CHR ''/'' \<notin> set p" using calculation(1) path_base_no_slash by metis
    ultimately show ?thesis using assms by (auto simp: sw dest: hd_in_set)
  next
    case False
    then have hp: "hd p = hd h" using h(1) by (metis hd_append)
    show ?thesis
    proof (cases "list_all (\<lambda>c. c = CHR ''/'') h")
      case True
      then show ?thesis using False hp assms dir_of [OF h(1)] by (simp add: sw)
    next
      case na: False
      then have "dropWhile (\<lambda>c. c = CHR ''/'') (rev h) \<noteq> []"
        by (auto simp: dropWhile_eq_Nil_conv list_all_iff)
      then have "hd (rev (dropWhile (\<lambda>c. c = CHR ''/'') (rev h))) = hd h"
        using k by (metis hd_append rev_is_Nil_conv)
      then show ?thesis using na hp assms dir_of [OF h(1)] \<open>dropWhile _ _ \<noteq> []\<close> by (simp add: sw)
    qed
  qed
qed

lemma relative_loop_diverges:
  assumes "relative_loop l h = Some y"
  shows "\<not> (starts_with h ''/'' \<and> ''ns3'' \<notin> components h)"
proof (rule relative_loop.raw_induct [where P = "\<lambda>l h y. \<not> (starts_with h ''/'' \<and> ''ns3'' \<notin> components h)",
    OF _ assms])
  fix f :: "string list \<Rightarrow> string \<Rightarrow> string res option" and l h y
  assume IH: "\<And>l h y. f l h = Some y \<Longrightarrow> \<not> (starts_with h ''/'' \<and> ''ns3'' \<notin> components h)"
    and eq: "(if h = [] then Some (Inl AssertionError)
      else if snd (path_split h) = ''ns3'' then Some (join_parts l)
      else f (snd (path_split h) # l) (fst (path_split h))) = Some y"
  show "\<not> (starts_with h ''/'' \<and> ''ns3'' \<notin> components h)"
  proof (cases "h = [] \<or> path_base h = ''ns3''")
    case True
    then show ?thesis using components_step [of "''ns3''" h] by (auto simp: starts_with_def)
  next
    case False
    then have "\<not> (starts_with (path_dir h) ''/'' \<and> ''ns3'' \<notin> components (path_dir h))"
      using eq IH [of "path_base h # l" "path_dir h" y] by (simp add: path_split_def)
    then show ?thesis using False relative_dir [of h] components_step [of "''ns3''" h] by auto
  qed
qed

lemma relative_loop_returns:
  assumes "\<not> (starts_with h ''/'' \<and> ''ns3'' \<notin> components h)"
  shows "\<exists>y. relative_loop l h = Some y \<and> (y = Inl AssertionError \<longleftrightarrow> ''ns3'' \<notin> components h)"
  using assms
proof (induction "length h" arbitrary: h l rule: less_induct)
  case less
  note eq = relative_loop.simps [of l h]
  show ?case
  proof (cases "h = [] \<or> path_base h = ''ns3''")
    case True
    then show ?thesis
    proof
      assume "h = []"
      then show ?thesis by (subst eq) (simp add: components_def)
    next
      assume b: "path_base h = ''ns3''"
      then have "h \<noteq> []" by (auto simp: path_base_def)
      moreover have "join_parts l \<noteq> Inl AssertionError" by (cases l) (simp_all add: join_parts_def)
      moreover have "''ns3'' \<in> components h" using b components_step [of "''ns3''" h] by simp
      ultimately show ?thesis using b by (subst eq) (simp add: path_split_def)
    qed
  next
    case False
    have c: "''ns3'' \<in> components h \<longleftrightarrow> ''ns3'' \<in> components (path_dir h)"
      using False components_step [of "''ns3''" h] by auto
    have "\<not> list_all (\<lambda>c. c = CHR ''/'') h"
    proof
      assume all: "list_all (\<lambda>c. c = CHR ''/'') h"
      then have "starts_with h ''/''" using False by (cases h) (auto simp: starts_with_def)
      then have "''ns3'' \<in> components h" using less.prems by blast
      moreover have "path_dir h = h"
      proof -
        obtain k where k: "h = k @ path_base h" by (rule base_decomp)
        have "path_base h = []"
          using all path_base_no_slash [of h] arg_cong [OF k, of set] by (cases "path_base h") (auto simp: list_all_iff)
        then show ?thesis using dir_of [OF k] k all by simp
      qed
      moreover have "components h = {[]}" if "list_all (\<lambda>c. c = CHR ''/'') h" for h
        using that unfolding components_def by (induction h) auto
      ultimately show False using all by auto
    qed
    then have "length (path_dir h) < length h" by (rule path_dir_shorter)
    moreover have "\<not> (starts_with (path_dir h) ''/'' \<and> ''ns3'' \<notin> components (path_dir h))"
      using less.prems c False relative_dir [of h] by auto
    ultimately have "\<exists>y. relative_loop (path_base h # l) (path_dir h) = Some y \<and>
        (y = Inl AssertionError \<longleftrightarrow> ''ns3'' \<notin> components (path_dir h))" by (rule less.hyps)
    then show ?thesis using False c by (subst eq) (simp add: path_split_def)
  qed
qed

lemma not_ends_last: "last x \<noteq> c \<Longrightarrow> \<not> ends_with x [c]"
  by (auto simp: ends_with_iff simp del: append_assoc)

lemma path_split_last:
  assumes "CHR ''/'' \<notin> set w" and "x \<noteq> []" and "\<not> ends_with x ''/''"
  shows "path_split (x @ CHR ''/'' # w) = (x, w)"
proof -
  let ?P = "\<lambda>c. c \<noteq> CHR ''/''"
  have rw: "\<forall>c\<in>set (rev w). c \<noteq> CHR ''/''" using assms(1) by auto
  then have "takeWhile ?P (rev w @ CHR ''/'' # rev x) = rev w" by (simp add: takeWhile_append)
  then have b: "path_base (x @ CHR ''/'' # w) = w" by (simp add: path_base_def)
  have nx: "last x \<noteq> CHR ''/''" using assms(2,3) by (cases x rule: rev_cases) (auto simp: ends_with_iff)
  moreover have "last x \<in> set x" using assms(2) by (rule last_in_set)
  ultimately have na: "\<not> list_all (\<lambda>c. c = CHR ''/'') (x @ [CHR ''/''])" unfolding list_all_iff by auto
  have "rev (dropWhile (\<lambda>c. c = CHR ''/'') (rev (x @ [CHR ''/'']))) = x"
    using nx assms(2) by (cases x rule: rev_cases) auto
  moreover have "x @ CHR ''/'' # w = (x @ [CHR ''/'']) @ path_base (x @ CHR ''/'' # w)" by (simp add: b)
  note dir_of [OF this]
  ultimately have "path_dir (x @ CHR ''/'' # w) = x" using na by (simp only: if_False)
  with b show ?thesis by (simp add: path_split_def)
qed

lemma relative_loop_value:
  assumes "a = [] \<or> ends_with a ''/''"
    and "\<forall>w\<in>set ws. w \<noteq> [] \<and> w \<noteq> ''ns3'' \<and> CHR ''/'' \<notin> set w"
  shows "relative_loop l (a @ ''ns3'' @ concat (map (\<lambda>w. CHR ''/'' # w) ws)) = Some (join_parts (ws @ l))"
  using assms(2)
proof (induction ws arbitrary: l rule: rev_induct)
  case Nil
  have "path_base (a @ ''ns3'') = ''ns3''"
    using assms(1) by (auto simp: path_base_def ends_with_iff)
  then show ?case by (subst relative_loop.simps) (simp add: path_split_def)
next
  case (snoc w ws)
  let ?x = "a @ ''ns3'' @ concat (map (\<lambda>w. CHR ''/'' # w) ws)"
  have "last ?x \<noteq> CHR ''/''"
  proof (cases ws rule: rev_cases)
    case (snoc vs v)
    then have "v \<noteq> [] \<and> CHR ''/'' \<notin> set v" using snoc.prems by simp
    then show ?thesis using snoc by (auto dest: last_in_set)
  qed simp
  then have "\<not> ends_with ?x ''/''" by (rule not_ends_last)
  then have "path_split (?x @ CHR ''/'' # w) = (?x, w)" using snoc.prems by (intro path_split_last) auto
  moreover have "relative_loop (w # l) ?x = Some (join_parts (ws @ w # l))" using snoc by simp
  ultimately show ?case using snoc.prems by (subst relative_loop.simps) simp
qed

lemma join_parts_clean:
  "ws \<noteq> [] \<Longrightarrow> \<forall>w\<in>set ws. w \<noteq> [] \<and> CHR ''/'' \<notin> set w \<Longrightarrow> join_parts ws = Inr (join_with ''/'' ws)"
  by (cases ws) (auto simp: join_parts_def path_joins_clean)

text \<open>
  What follows the last component \<^verbatim>\<open>ns3\<close> of a path, and the names in it: repeated slashes
  count once, a slash at the end leaves an empty last name.
\<close>

definition after_ns3 :: "string \<Rightarrow> string list" where
  "after_ns3 p = rev (takeWhile (\<lambda>w. w \<noteq> ''ns3'') (rev (split_on CHR ''/'' p)))"

definition names_of :: "string list \<Rightarrow> string list" where
  "names_of ws = (if ws = [] then [] else filter (\<lambda>w. w \<noteq> []) (butlast ws) @ [last ws])"

text \<open>A path whose last component is not its only one: one step of the loop takes that component off.\<close>

lemma path_last_step:
  assumes "''ns3'' \<in> components h" and "path_base h \<noteq> ''ns3''"
  obtains x k where "h = x @ replicate (Suc k) (CHR ''/'') @ path_base h" "path_split h = (x, path_base h)"
    "x \<noteq> []" "\<not> ends_with x ''/''" "''ns3'' \<in> components x"
proof -
  obtain hh where hh: "h = hh @ path_base h" "hh = [] \<or> ends_with hh ''/''" by (rule base_decomp)
  define x where "x = rev (dropWhile (\<lambda>c. c = CHR ''/'') (rev hh))"
  obtain k where k: "hh = x @ replicate k (CHR ''/'')" unfolding x_def by (rule strip_slashes)
  have nx: "\<not> ends_with x ''/''"
  proof (cases "dropWhile (\<lambda>c. c = CHR ''/'') (rev hh)")
    case (Cons c cs)
    then have "c \<noteq> CHR ''/''" using hd_dropWhile [of "\<lambda>c. c = CHR ''/''" "rev hh"] by simp
    then show ?thesis by (auto simp: x_def Cons ends_with_iff)
  next
    case Nil
    show ?thesis unfolding x_def Nil by (simp add: ends_with_iff)
  qed
  have b: "split_on CHR ''/'' (path_base h) = [path_base h]" by (rule split_on_no_sep) (rule path_base_no_slash)
  have "hh \<noteq> []" using hh(1) assms b by (auto simp: components_def)
  with hh(2) nx k obtain m where m: "k = Suc m" by (cases k) auto
  have c: "''ns3'' \<in> components x"
  proof -
    have d: "''ns3'' \<in> components (path_dir h)" using components_step [of "''ns3''" h] assms by auto
    have "components hh = {[]}" if "list_all (\<lambda>c. c = CHR ''/'') hh"
      using that unfolding components_def by (induction hh) auto
    with d show ?thesis unfolding dir_of [OF hh(1)] x_def by (auto split: if_splits)
  qed
  then have xn: "x \<noteq> []" by (auto simp: components_def)
  then have "\<not> list_all (\<lambda>c. c = CHR ''/'') hh"
    using nx last_in_set [OF xn] unfolding k by (cases x rule: rev_cases) (auto simp: ends_with_iff)
  then have "path_split h = (x, path_base h)" unfolding path_split_def dir_of [OF hh(1)] x_def by simp
  moreover have "h = x @ replicate (Suc m) (CHR ''/'') @ path_base h" using hh(1) k m by (metis append.assoc)
  ultimately show thesis using that xn nx c by blast
qed

lemma split_slashes: "split_on c (x @ replicate (Suc k) c @ w) = split_on c x @ replicate k [] @ split_on c w"
proof -
  have "split_on c (replicate k c @ w) = replicate k [] @ split_on c w" by (induction k) simp_all
  then show ?thesis using split_on_append_sep [of c x "replicate k c @ w"] by simp
qed

lemma last_split: "last (split_on c x) = [] \<longleftrightarrow> x = [] \<or> ends_with x [c]"
proof (cases x rule: rev_cases)
  case (snoc u d)
  show ?thesis
  proof (cases "d = c")
    case True
    then show ?thesis using split_on_append_sep [of c u "[]"] snoc by (simp add: ends_with_iff)
  next
    case False
    have "last (split_on c (u @ [d])) \<noteq> []"
    proof (induction u)
      case (Cons e u)
      then show ?case by (cases "split_on c (u @ [d])") (auto split: if_splits)
    qed (simp add: False)
    then show ?thesis using False snoc by (auto simp: ends_with_iff)
  qed
qed simp

lemma after_step:
  assumes "path_base h \<noteq> ''ns3''" and "h = x @ replicate (Suc k) (CHR ''/'') @ path_base h" and "x \<noteq> []" and "\<not> ends_with x ''/''"
  shows "names_of (after_ns3 h) = names_of (after_ns3 x) @ [path_base h]"
proof -
  let ?P = "\<lambda>w. w \<noteq> ''ns3''"
  have b: "split_on CHR ''/'' (path_base h) = [path_base h]" by (rule split_on_no_sep) (rule path_base_no_slash)
  have s: "split_on CHR ''/'' h = split_on CHR ''/'' x @ replicate k [] @ [path_base h]"
    by (subst assms(2)) (simp only: split_slashes b)
  have r: "takeWhile ?P (replicate k [] @ ys) = replicate k [] @ takeWhile ?P ys" for ys by (induction k) simp_all
  have a: "after_ns3 h = after_ns3 x @ replicate k [] @ [path_base h]"
    using assms(1) unfolding after_ns3_def s by (simp add: r)
  have l: "last (split_on CHR ''/'' x) \<noteq> []" using assms(3,4) by (simp add: last_split)
  have "after_ns3 x = [] \<or> last (after_ns3 x) = last (split_on CHR ''/'' x)"
  proof (cases "split_on CHR ''/'' x" rule: rev_cases)
    case (snoc ys y)
    then show ?thesis by (simp add: after_ns3_def)
  qed simp
  with l have "after_ns3 x = [] \<or> last (after_ns3 x) \<noteq> []" by auto
  then have f: "filter (\<lambda>w. w \<noteq> []) (after_ns3 x) = names_of (after_ns3 x)"
    by (cases "after_ns3 x" rule: rev_cases) (auto simp: names_of_def)
  show ?thesis unfolding a names_of_def [of "after_ns3 x @ replicate k [] @ [path_base h]"]
    by (simp add: butlast_append f)
qed

lemma relative_loop_names:
  assumes "''ns3'' \<in> components h"
  shows "relative_loop l h = Some (join_parts (names_of (after_ns3 h) @ l))"
  using assms
proof (induction "length h" arbitrary: h l rule: less_induct)
  case less
  note eq = relative_loop.simps [of l h]
  have n: "h \<noteq> []" using less.prems by (auto simp: components_def)
  show ?case
  proof (cases "path_base h = ''ns3''")
    case True
    obtain hh where hh: "h = hh @ path_base h" "hh = [] \<or> ends_with hh ''/''" by (rule base_decomp)
    have "after_ns3 h = []"
    proof (cases "hh = []")
      case True
      with hh(1) \<open>path_base h = ''ns3''\<close> have "h = ''ns3''" by simp
      then show ?thesis by (simp add: after_ns3_def)
    next
      case False
      with hh(2) obtain u where u: "hh = u @ ''/''" by (auto simp: ends_with_iff)
      have "h = u @ CHR ''/'' # path_base h" by (subst hh(1)) (simp add: u)
      then have "split_on CHR ''/'' h = split_on CHR ''/'' u @ [''ns3'']"
        unfolding True using split_on_append_sep [of "CHR ''/''" u "''ns3''"] by simp
      then show ?thesis by (simp add: after_ns3_def)
    qed
    with True n show ?thesis by (subst eq) (simp add: path_split_def names_of_def)
  next
    case False
    obtain x k where x: "h = x @ replicate (Suc k) (CHR ''/'') @ path_base h" "path_split h = (x, path_base h)"
      "x \<noteq> []" "\<not> ends_with x ''/''" "''ns3'' \<in> components x" using path_last_step [OF less.prems False] by blast
    have "length x < length h" using arg_cong [OF x(1), of length] by simp
    from less.hyps [OF this x(5), of "path_base h # l"] after_step [OF False x(1,3,4)] False n x(2)
    show ?thesis by (subst eq) simp
  qed
qed

lemma join_parts_names:
  assumes "ws \<noteq> []" and "list_all (\<lambda>w. CHR ''/'' \<notin> set w) ws" and "list_all (\<lambda>w. w \<noteq> []) (butlast ws)"
  shows "join_parts ws = Inr (join_with ''/'' ws)"
proof -
  have j: "path_joins w vs = join_with ''/'' (w # vs)" if "w \<noteq> [] \<or> vs = []" "last w \<noteq> CHR ''/''"
    "list_all (\<lambda>w. CHR ''/'' \<notin> set w) vs" "list_all (\<lambda>w. w \<noteq> []) (butlast vs)" for w vs
    using that
  proof (induction vs arbitrary: w)
    case (Cons v vs)
    then have n: "w \<noteq> []" by simp
    have pj: "path_join w v = w @ CHR ''/'' # v"
      using Cons.prems n
      by (cases w rule: rev_cases; cases v) (auto simp: path_join_def starts_with_def ends_with_iff)
    have "path_joins (w @ CHR ''/'' # v) vs = join_with ''/'' ((w @ CHR ''/'' # v) # vs)"
    proof (cases "vs = []")
      case False
      with Cons.prems have "v \<noteq> []" by simp
      with Cons.prems have "last (w @ CHR ''/'' # v) \<noteq> CHR ''/''" by (auto simp: list_all_iff dest: last_in_set)
      with Cons.prems False show ?thesis by (intro Cons.IH) (auto split: if_splits)
    qed simp
    then show ?case by (cases vs) (simp_all add: pj)
  qed simp
  obtain w vs where w: "ws = w # vs" using assms(1) by (cases ws) auto
  show ?thesis
  proof (cases "vs = []")
    case False
    with assms w have "w \<noteq> []" "CHR ''/'' \<notin> set w" by auto
    then have "last w \<noteq> CHR ''/''" by (auto dest: last_in_set)
    with j [of w vs] assms w False \<open>w \<noteq> []\<close> show ?thesis by (auto simp: join_parts_def)
  qed (simp add: w join_parts_def)
qed

lemma names_clean:
  "list_all (\<lambda>w. CHR ''/'' \<notin> set w) (names_of (after_ns3 p))"
  "list_all (\<lambda>w. w \<noteq> []) (butlast (names_of (after_ns3 p)))"
proof -
  have "w \<in> set (split_on CHR ''/'' p)" if "w \<in> set (after_ns3 p)" for w
    using that by (auto simp: after_ns3_def dest: set_takeWhileD)
  then have a: "list_all (\<lambda>w. CHR ''/'' \<notin> set w) (after_ns3 p)"
    unfolding list_all_iff using split_on_no_sep_in [of _ "CHR ''/''" p] by blast
  then show "list_all (\<lambda>w. CHR ''/'' \<notin> set w) (names_of (after_ns3 p))"
    by (auto simp: names_of_def list_all_iff dest: in_set_butlastD last_in_set)
  show "list_all (\<lambda>w. w \<noteq> []) (butlast (names_of (after_ns3 p)))" by (simp add: names_of_def list_all_iff)
qed

subsection \<open>Annotations\<close>

text \<open>
  The values of annotations: \<^verbatim>\<open>None\<close>, \<^verbatim>\<open>True\<close>, a string, or the dictionary of the
  parameters under the key \<^verbatim>\<open>params\<close>.
\<close>

datatype ann_value = NoneV | TrueV | StrV string | Params "(string, (string, string) dict) dict"

type_synonym annotations = "(string, ann_value) dict"

definition type_annotations :: "(string, annotations) dict" where
  "type_annotations =
    [
     (''::ns3::AttributeChecker'',
      [(''automatic_type_narrowing'', StrV ''true''), (''allow_subclassing'', StrV ''false'')]),
     (''::ns3::AttributeValue'',
      [(''automatic_type_narrowing'', StrV ''true''), (''allow_subclassing'', StrV ''false'')]),
     (''::ns3::CommandLine'',
      [(''allow_subclassing'', StrV ''true'')]),
     (''::ns3::NscTcpL4Protocol'',
      [(''ignore'', StrV ''true'')]),
     (''ns3::RandomVariable::RandomVariable(ns3::RandomVariableBase const & variable) [constructor]'',
      [(''ignore'', NoneV)]),
     (''ns3::RandomVariableBase * ns3::RandomVariable::Peek() const [member function]'',
      [(''ignore'', NoneV)]),
     (''void ns3::RandomVariable::GetSeed(uint32_t * seed) const [member function]'',
      [(''params'', Params [(''seed'', [(''direction'', ''out''), (''array_length'', ''6'')])])]),
     (''bool ns3::TypeId::LookupAttributeByName(std::string name, ns3::TypeId::AttributeInfo * info) const [member function]'',
      [(''params'', Params [(''info'', [(''transfer_ownership'', ''false'')])])]),
     (''static bool ns3::TypeId::LookupByNameFailSafe(std::string name, ns3::TypeId * tid) [member function]'',
      [(''ignore'', NoneV)]),
     (''bool ns3::TraceSourceAccessor::ConnectWithoutContext(ns3::ObjectBase * obj, ns3::CallbackBase const & cb) const [member function]'',
      [(''params'', Params [(''obj'', [(''transfer_ownership'', ''false'')])])]),
     (''bool ns3::TraceSourceAccessor::Connect(ns3::ObjectBase * obj, std::string context, ns3::CallbackBase const & cb) const [member function]'',
      [(''params'', Params [(''obj'', [(''transfer_ownership'', ''false'')])])]),
     (''bool ns3::TraceSourceAccessor::DisconnectWithoutContext(ns3::ObjectBase * obj, ns3::CallbackBase const & cb) const [member function]'',
      [(''params'', Params [(''obj'', [(''transfer_ownership'', ''false'')])])]),
     (''bool ns3::TraceSourceAccessor::Disconnect(ns3::ObjectBase * obj, std::string context, ns3::CallbackBase const & cb) const [member function]'',
      [(''params'', Params [(''obj'', [(''transfer_ownership'', ''false'')])])]),
     (''bool ns3::AttributeAccessor::Set(ns3::ObjectBase * object, ns3::AttributeValue const & value) const [member function]'',
      [(''params'', Params [(''object'', [(''transfer_ownership'', ''false'')])])]),
     (''ns3::EmpiricalVariable::EmpiricalVariable(ns3::RandomVariableBase const & variable) [constructor]'',
      [(''ignore'', NoneV)]),
     (''static ns3::AttributeList * ns3::AttributeList::GetGlobal() [member function]'',
      [(''caller_owns_return'', StrV ''false'')]),
     (''void ns3::CommandLine::Parse(int argc, char * * argv) const [member function]'',
      [(''ignore'', NoneV)]),
     (''extern void ns3::PythonCompleteConstruct(ns3::Ptr<ns3::Object> object, ns3::TypeId typeId, ns3::AttributeList const & attributes) [free function]'',
      [(''ignore'', NoneV)]),
     (''ns3::Ptr<ns3::Ipv4RoutingProtocol> ns3::Ipv4ListRouting::GetRoutingProtocol(uint32_t index, int16_t & priority) const [member function]'',
      [(''params'', Params [(''priority'', [(''direction'', ''out'')])])]),
     (''ns3::Ipv4RoutingTableEntry * ns3::GlobalRouter::GetInjectedRoute(uint32_t i) [member function]'',
      [(''params'', Params [(''return'', [(''caller_owns_return'', ''false'')])])]),
     (''ns3::Ipv4RoutingTableEntry * ns3::Ipv4GlobalRouting::GetRoute(uint32_t i) [member function]'',
      [(''params'', Params [(''return'', [(''caller_owns_return'', ''false'')])])])]"

definition dict_update :: "('k, 'v) dict \<Rightarrow> ('k, 'v) dict \<Rightarrow> ('k, 'v) dict" where
  "dict_update d e = foldl (\<lambda>d (k, v). AList.update k v d) d e"

text \<open>
  A declaration: pygccxml's class of it, the file, the names, \<^verbatim>\<open>str(definition)\<close>, the
  template arguments of the demangled name and the default values of the parameters.
\<close>

datatype decl_kind = MemberFunction | Constructor | FreeFunction | OtherCallable | ClassDecl | OtherDecl

record decl =
  kind :: decl_kind
  file_name :: string
  decl_name :: string
  parent_name :: string
  decl_string :: string
  full_name :: string
  template_args :: "string list"
  default_values :: "string option list"

record hook_state =
  table :: "(string, annotations) dict"
  global_annotations :: annotations
  parameter_annotations :: "(string, (string, string) dict) dict"
  arg_defaults :: "string option list"

definition annotate :: "string \<Rightarrow> ann_value \<Rightarrow> hook_state \<Rightarrow> hook_state" where
  "annotate k v st = st\<lparr>global_annotations := AList.update k v (global_annotations st)\<rparr>"

definition member_hook :: "decl \<Rightarrow> hook_state \<Rightarrow> hook_state" where
  "member_hook d st =
     (let is_member = (kind d = MemberFunction);
          st1 = (if is_member \<and> parent_name d = ''Object'' \<and> decl_name d = ''GetObject'' then
                   (if template_args d = [''ns3::Object'']
                    then annotate ''template_instance_names'' (StrV ''ns3::Object=>GetObject'') st else st)
                 else st);
          st2 = (if is_member \<and> parent_name d = ''Simulator'' \<and> starts_with (decl_name d) ''Schedule''
                 then annotate ''ignore'' NoneV st1 else st1)
      in if is_member \<and> parent_name d = ''Simulator'' \<and> decl_name d = ''Run''
         then annotate ''ignore'' TrueV st2 else st2)"

definition is_callable :: "decl \<Rightarrow> bool" where
  "is_callable d \<longleftrightarrow> kind d \<in> {MemberFunction, Constructor, FreeFunction, OtherCallable}"

definition fix_default :: "string option \<Rightarrow> string option" where
  "fix_default v =
     (case v of None \<Rightarrow> None
      | Some s \<Rightarrow> if ''ns3::MilliSeconds( )'' = s then Some ''ns3::MilliSeconds(0)'' else Some s)"

definition defaults_hook :: "decl \<Rightarrow> hook_state \<Rightarrow> hook_state" where
  "defaults_hook d st =
     (if is_callable d then st\<lparr>arg_defaults := map fix_default (arg_defaults st)\<rparr> else st)"

text \<open>The classes; the flag says that the hook has returned.\<close>

definition class_hook :: "decl \<Rightarrow> hook_state \<Rightarrow> bool \<times> hook_state" where
  "class_hook d st =
     (let s = decl_string d in
      if starts_with s ''::ns3::SimpleRefCount<'' then
        (True, annotate ''automatic_type_narrowing'' (StrV ''true'')
          (annotate ''peekref_method'' (StrV ''GetReferenceCount'')
            (annotate ''decref_method'' (StrV ''Unref'') (annotate ''incref_method'' (StrV ''Ref'') st))))
      else if starts_with s ''::ns3::Callback<'' then (True, annotate ''ignore'' NoneV st)
      else if starts_with s ''::ns3::TracedCallback<'' then (True, annotate ''ignore'' NoneV st)
      else if starts_with s ''::ns3::Ptr<'' then (True, annotate ''ignore'' NoneV st)
      else (False, case map_of (table st) s of None \<Rightarrow> st
        | Some a \<Rightarrow> st\<lparr>global_annotations := dict_update (global_annotations st) a\<rparr>))"

text \<open>
  The loop over \<^verbatim>\<open>annotations.items()\<close>, a copy of the pairs; it deletes \<^verbatim>\<open>params\<close> from the
  dictionary of the table itself.
\<close>

definition take_params ::
  "annotations \<Rightarrow> annotations \<times> (string, (string, string) dict) dict
     \<Rightarrow> annotations \<times> (string, (string, string) dict) dict" where
  "take_params items st =
     foldl (\<lambda>(a, ps) (k, v). if k = ''params'' then
         (AList.delete ''params'' a, case v of Params q \<Rightarrow> dict_update ps q | _ \<Rightarrow> ps)
       else (a, ps)) st items"

definition table_hook :: "decl \<Rightarrow> hook_state \<Rightarrow> hook_state" where
  "table_hook d st =
     (case map_of (table st) (full_name d) of None \<Rightarrow> st
      | Some a \<Rightarrow> (case take_params a (a, parameter_annotations st) of (a', ps) \<Rightarrow>
          st\<lparr>table := AList.update (full_name d) a' (table st), parameter_annotations := ps,
             global_annotations := dict_update (global_annotations st) a'\<rparr>))"

definition hook_body :: "string \<Rightarrow> decl \<Rightarrow> hook_state \<Rightarrow> hook_state" where
  "hook_body ns3_header d st =
     (let st1 = annotate ''pygen_comment'' (StrV (ns3_header @ '': '' @ full_name d)) st;
          st2 = defaults_hook d (member_hook d st1);
          (returned, st3) = (if kind d = ClassDecl then class_hook d st2 else (False, st2))
      in if returned then st3
         else if kind d = FreeFunction \<and> decl_name d = ''PeekPointer'' then annotate ''ignore'' NoneV st3
         else if kind d \<in> {FreeFunction, MemberFunction, Constructor} then table_hook d st3
         else st3)"

definition pre_scan_hook :: "decl \<Rightarrow> hook_state \<Rightarrow> hook_state res option" where
  "pre_scan_hook d st =
     map_option (\<lambda>r. rbind r (\<lambda>h. Inr (hook_body h d st))) (get_ns3_relative_path (file_name d))"

definition scan_start :: "(string, annotations) dict \<Rightarrow> decl \<Rightarrow> hook_state" where
  "scan_start t d = \<lparr>table = t, global_annotations = [], parameter_annotations = [], arg_defaults = default_values d\<rparr>"

subsection \<open>Sections of the generated code\<close>

definition get_modules_and_headers ::
  "(string \<times> string list) list \<Rightarrow> (string \<times> string list) list \<Rightarrow> (string, string list \<times> string list) dict" where
  "get_modules_and_headers modules ns3headers =
     foldl (\<lambda>retval (name, deps).
       if \<not> starts_with name ''ns3-'' then retval
       else let module_name = drop 4 name;
                headers = concat (map snd (filter (\<lambda>(m, _). m = module_name) ns3headers))
            in AList.update module_name (deps, headers) retval) [] modules"

definition get_header_prio :: "string \<Rightarrow> int" where
  "get_header_prio header =
     (if header \<in> {''string.h''} then -2
      else if header \<in> {''propagation-delay-model.h'', ''propagation-loss-model.h'', ''net-device.h'',
                         ''ipv4-interface.h''} then -1
      else 1)"

text \<open>Both keys of the comparison take the priority of the first header.\<close>

definition sort_func :: "string \<Rightarrow> string \<Rightarrow> int" where
  "sort_func h1 h2 =
     (let k1 = (get_header_prio h1, h1); k2 = (get_header_prio h1, h2)
      in if fst k1 < fst k2 \<or> (fst k1 = fst k2 \<and> snd k1 < snd k2) then -1
         else if k1 = k2 then 0 else 1)"

text \<open>\<^verbatim>\<open>list.sort(cmp)\<close>: a stable sort.\<close>

fun cmp_insert :: "('a \<Rightarrow> 'a \<Rightarrow> int) \<Rightarrow> 'a \<Rightarrow> 'a list \<Rightarrow> 'a list" where
  "cmp_insert c x [] = [x]"
| "cmp_insert c x (y # ys) = (if c x y \<le> 0 then x # y # ys else y # cmp_insert c x ys)"

definition cmp_sort :: "('a \<Rightarrow> 'a \<Rightarrow> int) \<Rightarrow> 'a list \<Rightarrow> 'a list" where
  "cmp_sort c xs = foldr (cmp_insert c) xs []"

definition module_graph :: "(string, string list \<times> string list) dict \<Rightarrow> (string \<times> string) list" where
  "module_graph ns3_modules =
     concat (map (\<lambda>m. map (\<lambda>dep. (dep, m)) (sort (fst (dict_get ns3_modules m ([], [])))))
       (sort (dict_keys ns3_modules)))"

definition dash_to_underscore :: "string \<Rightarrow> string" where
  "dash_to_underscore = map (\<lambda>c. if c = CHR ''-'' then CHR ''_'' else c)"

definition section_name :: "string \<Rightarrow> string" where
  "section_name m = ''ns3_module_'' @ dash_to_underscore m"

text \<open>A section with the file it is written to and the name of its local module.\<close>

record scan_plan =
  sections :: "(string \<times> string \<times> string option) list"
  headers_map :: "(string, string) dict"
  section_precedences :: "(string, int) dict"

datatype scan_exc = SortError "string sort_exc" | PyError py_exc

definition plan_module ::
  "(string, string list \<times> string list) dict \<Rightarrow> string \<Rightarrow> scan_plan \<Rightarrow> nat \<times> string \<Rightarrow> scan_exc + scan_plan" where
  "plan_module ns3_modules pygen_file_name p pm =
     (case pm of (prec, m) \<Rightarrow>
       let s = section_name m;
           file_name = path_join (path_dir pygen_file_name) (s @ ''.py'');
           secs = sections p @ [(s, file_name, Some (s @ ''__local''))]
       in case map_of ns3_modules m of
            None \<Rightarrow> Inl (PyError KeyError)
          | Some (deps, headers) \<Rightarrow>
              Inr \<lparr>sections = secs,
                   headers_map = foldl (\<lambda>h header. AList.update header s h) (headers_map p) headers,
                   section_precedences = AList.update s (int prec) (section_precedences p)\<rparr>)"

definition ns3_module_scan ::
  "(string list \<Rightarrow> string list) \<Rightarrow> (string, string list \<times> string list) dict \<Rightarrow> string \<Rightarrow> scan_exc + scan_plan" where
  "ns3_module_scan ko ns3_modules pygen_file_name =
     (case topsort ko (module_graph ns3_modules) of
        Inl e \<Rightarrow> Inl (SortError e)
      | Inr sorted_ns3_modules \<Rightarrow>
          rfold (plan_module ns3_modules pygen_file_name)
            \<lparr>sections = [(''__main__'', pygen_file_name, None)], headers_map = [], section_precedences = []\<rparr>
            (enumerate 0 sorted_ns3_modules))"

definition classify :: "scan_plan \<Rightarrow> string \<Rightarrow> string" where
  "classify p path = dict_get (headers_map p) (path_base path) ''__main__''"

definition get_section_precedence :: "scan_plan \<Rightarrow> string \<Rightarrow> int res" where
  "get_section_precedence p s =
     (if s = ''__main__'' then Inr (-1)
      else case map_of (section_precedences p) s of None \<Rightarrow> Inl KeyError | Some i \<Rightarrow> Inr i)"

subsection \<open>The list of callback classes\<close>

text \<open>
  A class of the module namespace is its name and \<^verbatim>\<open>decl_string\<close>; \<open>inst\<close> and \<open>args_of\<close>
  stand for \<^verbatim>\<open>templates.is_instantiation\<close> and \<^verbatim>\<open>templates.split\<close> of pygccxml. The lines
  are those written before the assertion fails, if it does.
\<close>

fun callback_lines ::
  "(string \<Rightarrow> bool) \<Rightarrow> (string \<Rightarrow> string list) \<Rightarrow> (string \<times> string) list \<Rightarrow> string list \<times> py_exc option" where
  "callback_lines inst args_of [] = (['']\<newline>''], None)"
| "callback_lines inst args_of ((name, cls) # classes) =
     (if \<not> starts_with name ''Callback<'' then callback_lines inst args_of classes
      else if \<not> inst cls then ([], Some AssertionError)
      else case callback_lines inst args_of classes of (ls, e) \<Rightarrow>
        ((''    '' @ repr_list (args_of cls) @ '',\<newline>'') # ls, e))"

definition scan_callback_classes ::
  "(string \<Rightarrow> bool) \<Rightarrow> (string \<Rightarrow> string list) \<Rightarrow> (string \<times> string) list \<Rightarrow> string list \<times> py_exc option" where
  "scan_callback_classes inst args_of classes =
     (case callback_lines inst args_of classes of (ls, e) \<Rightarrow> (''callback_classes = [\<newline>'' # ls, e))"

subsection \<open>What the hook does\<close>

lemma map_of_dict_update: "map_of (dict_update d e) = map_of d ++ map_of (rev e)"
  by (induction e rule: rev_induct) (auto simp: dict_update_def update_conv' map_add_def fun_eq_iff)

lemma dict_ok_dict_update [simp, intro]: "dict_ok d \<Longrightarrow> dict_ok (dict_update d e)"
  by (induction e arbitrary: d) (auto simp: dict_update_def)

text \<open>The entries of \<^verbatim>\<open>params\<close> are the only ones the loop touches.\<close>

definition params_of :: "annotations \<Rightarrow> (string, (string, string) dict) dict" where
  "params_of a = (case map_of a ''params'' of Some (Params q) \<Rightarrow> q | _ \<Rightarrow> [])"

lemma take_params_absent: "''params'' \<notin> set (map fst items) \<Longrightarrow> take_params items st = st"
  by (induction items arbitrary: st) (auto simp: take_params_def)

lemma take_params_result:
  assumes "dict_ok a"
  shows "take_params a (a, ps) = (AList.delete ''params'' a, dict_update ps (params_of a))"
proof (cases "map_of a ''params''")
  case None
  then have "''params'' \<notin> set (map fst a)" by (simp add: map_of_eq_None_iff)
  then show ?thesis using None take_params_absent [of a "(a, ps)"]
    by (simp add: params_of_def dict_update_def delete_id)
next
  case (Some v)
  then obtain xs ys where a: "a = xs @ (''params'', v) # ys" using map_of_SomeD split_list by metis
  have x: "''params'' \<notin> set (map fst xs)" and y: "''params'' \<notin> set (map fst ys)"
    using assms by (auto simp: a dict_ok_def)
  have "take_params (xs @ (''params'', v) # ys) st = take_params [(''params'', v)] st" for st
    using take_params_absent [OF x, of st] take_params_absent [OF y]
    by (simp add: take_params_def split: prod.split)
  from this [of "(a, ps)", folded a] show ?thesis
    using Some by (simp add: take_params_def params_of_def dict_update_def split: ann_value.splits)
qed

definition uses_table :: "decl \<Rightarrow> bool" where
  "uses_table d \<longleftrightarrow> kind d \<in> {FreeFunction, MemberFunction, Constructor} \<and>
     \<not> (kind d = FreeFunction \<and> decl_name d = ''PeekPointer'')"

lemma hook_frame [simp]:
  "table (annotate k v st) = table st" "parameter_annotations (annotate k v st) = parameter_annotations st"
  "table (member_hook d st) = table st" "parameter_annotations (member_hook d st) = parameter_annotations st"
  "table (defaults_hook d st) = table st"
  "parameter_annotations (defaults_hook d st) = parameter_annotations st"
  "table (snd (class_hook d st)) = table st"
  "parameter_annotations (snd (class_hook d st)) = parameter_annotations st"
  by (simp_all add: annotate_def member_hook_def defaults_hook_def class_hook_def Let_def split: option.split)

text \<open>The annotations before the table is read.\<close>

definition before_table :: "string \<Rightarrow> decl \<Rightarrow> hook_state \<Rightarrow> hook_state" where
  "before_table h d st = defaults_hook d (member_hook d
     (annotate ''pygen_comment'' (StrV (h @ '': '' @ full_name d)) st))"

lemma before_table_frame [simp]:
  "table (before_table h d st) = table st"
  "parameter_annotations (before_table h d st) = parameter_annotations st"
  by (simp_all add: before_table_def)

lemma hook_body_table:
  "uses_table d \<Longrightarrow> hook_body h d st = table_hook d (before_table h d st)"
  by (auto simp: hook_body_def before_table_def uses_table_def)

lemma hook_body_no_table:
  assumes "\<not> uses_table d"
  shows "table (hook_body h d st) = table st"
    and "parameter_annotations (hook_body h d st) = parameter_annotations st"
  using assms by (auto simp: hook_body_def uses_table_def Let_def split: prod.split)
    (metis hook_frame snd_conv)+

lemma table_hook_result:
  assumes "map_of (table st) (full_name d) = Some a" and "dict_ok a"
  shows "table_hook d st = st\<lparr>table := AList.update (full_name d) (AList.delete ''params'' a) (table st),
      parameter_annotations := dict_update (parameter_annotations st) (params_of a),
      global_annotations := dict_update (global_annotations st) (AList.delete ''params'' a)\<rparr>"
  using assms by (simp add: table_hook_def take_params_result)

lemma before_table_start:
  "global_annotations (before_table h d (scan_start t d)) = global_annotations (before_table h d (scan_start t' d))"
  by (simp add: before_table_def scan_start_def annotate_def member_hook_def defaults_hook_def Let_def)

subsection \<open>The plan of the sections\<close>

text \<open>The headers with their sections, in the order in which they are entered.\<close>

definition header_entries :: "(string, string list \<times> string list) dict \<Rightarrow> string list \<Rightarrow> (string \<times> string) list" where
  "header_entries ms xs =
     concat (map (\<lambda>m. map (\<lambda>h. (h, section_name m)) (snd (dict_get ms m ([], [])))) xs)"

lemma header_fold: "foldl (\<lambda>h header. AList.update header s h) d hs = dict_update d (map (\<lambda>h. (h, s)) hs)"
  by (induction hs arbitrary: d) (auto simp: dict_update_def)

lemma dict_update_append: "dict_update d (xs @ ys) = dict_update (dict_update d xs) ys"
  by (simp add: dict_update_def)

lemma plan_fold:
  "rfold (plan_module ms f) p (enumerate k xs) =
     (if \<forall>m\<in>set xs. has_key ms m then Inr
        \<lparr>sections = sections p @ map (\<lambda>m. (section_name m, path_join (path_dir f) (section_name m @ ''.py''),
             Some (section_name m @ ''__local''))) xs,
         headers_map = dict_update (headers_map p) (header_entries ms xs),
         section_precedences = dict_update (section_precedences p)
           (map (\<lambda>(i, m). (section_name m, int i)) (enumerate k xs))\<rparr>
      else Inl (PyError KeyError))"
proof (induction xs arbitrary: k p)
  case Nil
  then show ?case by (simp add: dict_update_def header_entries_def)
next
  case (Cons m xs)
  show ?case
  proof (cases "map_of ms m")
    case None
    then show ?thesis by (simp add: plan_module_def Let_def has_key_map_of)
  next
    case (Some dh)
    then have k: "has_key ms m" by (simp add: has_key_map_of)
    let ?p = "\<lparr>sections = sections p @ [(section_name m, path_join (path_dir f) (section_name m @ ''.py''),
          Some (section_name m @ ''__local''))],
        headers_map = dict_update (headers_map p) (map (\<lambda>h. (h, section_name m)) (snd dh)),
        section_precedences = AList.update (section_name m) (int k) (section_precedences p)\<rparr>"
    have "plan_module ms f p (k, m) = Inr ?p"
      using Some by (simp add: plan_module_def Let_def header_fold split: prod.split)
    then have "rfold (plan_module ms f) p (enumerate k (m # xs)) =
        rfold (plan_module ms f) ?p (enumerate (Suc k) xs)"
      by simp
    also have "\<dots> = (if \<forall>m\<in>set (m # xs). has_key ms m then Inr
        \<lparr>sections = sections p @ map (\<lambda>m. (section_name m, path_join (path_dir f) (section_name m @ ''.py''),
             Some (section_name m @ ''__local''))) (m # xs),
         headers_map = dict_update (headers_map p) (header_entries ms (m # xs)),
         section_precedences = dict_update (section_precedences p)
           (map (\<lambda>(i, m). (section_name m, int i)) (enumerate k (m # xs)))\<rparr>
      else Inl (PyError KeyError))"
      unfolding Cons.IH using k Some
      by (simp add: header_entries_def dict_update_append dict_get_def dict_update_def)
    finally show ?thesis .
  qed
qed

lemma precedence_lookup:
  assumes "distinct (map section_name xs)" and "i < length xs"
  shows "map_of (dict_update [] (map (\<lambda>(i, m). (section_name m, int i)) (enumerate 0 xs))) (section_name (xs ! i)) = Some (int i)"
proof -
  let ?es = "map (\<lambda>(i, m). (section_name m, int i)) (enumerate 0 xs)"
  have "map fst ?es = map section_name (map snd (enumerate 0 xs))"
    unfolding map_map by (rule map_cong) auto
  then have "distinct (map fst (rev ?es))" using assms(1) by (simp add: rev_map [symmetric] del: map_map)
  moreover have "(section_name (xs ! i), int i) \<in> set (rev ?es)"
    using assms(2) by (force simp: in_set_enumerate_eq)
  ultimately have "map_of (rev ?es) (section_name (xs ! i)) = Some (int i)" by (rule map_of_is_SomeI)
  then show ?thesis by (simp add: map_of_dict_update)
qed

lemma dict_get_keys: "dict_ok d \<Longrightarrow> (k, v) \<in> set d \<Longrightarrow> dict_get d k w = v"
  by (simp add: dict_get_def dict_ok_def)

lemma module_graph_set:
  assumes "dict_ok ms"
  shows "set (module_graph ms) = {(dep, m). \<exists>hs deps. (m, deps, hs) \<in> set ms \<and> dep \<in> set deps}"
proof -
  have "fst (dict_get ms m ([], [])) = deps" if "(m, deps, hs) \<in> set ms" for m deps hs
    using dict_get_keys [OF assms that] by simp
  then show ?thesis by (force simp: module_graph_def dict_keys_def)
qed

lemma graph_keys: "nodes (module_graph ms) \<subseteq> set (map fst ms) \<union> fst ` set (module_graph ms)"
  by (force simp: nodes_def module_graph_def dict_keys_def)

text \<open>The scan succeeds exactly for acyclic dependencies on modules that exist.\<close>

lemma scan_result:
  assumes "key_order ko"
  shows "acyclic (set (module_graph ms)) \<and> nodes (module_graph ms) \<subseteq> set (map fst ms) \<Longrightarrow>
      \<exists>xs p. distinct xs \<and> set xs = nodes (module_graph ms) \<and> topsort ko (module_graph ms) = Inr xs \<and>
        ns3_module_scan ko ms f = Inr p \<and>
        map fst (sections p) = ''__main__'' # map section_name xs \<and>
        headers_map p = dict_update [] (header_entries ms xs) \<and>
        section_precedences p = dict_update [] (map (\<lambda>(i, m). (section_name m, int i)) (enumerate 0 xs))"
    and "\<not> (acyclic (set (module_graph ms)) \<and> nodes (module_graph ms) \<subseteq> set (map fst ms)) \<Longrightarrow>
      isl (ns3_module_scan ko ms f)"
proof -
  show "\<exists>xs p. distinct xs \<and> set xs = nodes (module_graph ms) \<and> topsort ko (module_graph ms) = Inr xs \<and>
        ns3_module_scan ko ms f = Inr p \<and>
        map fst (sections p) = ''__main__'' # map section_name xs \<and>
        headers_map p = dict_update [] (header_entries ms xs) \<and>
        section_precedences p = dict_update [] (map (\<lambda>(i, m). (section_name m, int i)) (enumerate 0 xs))"
    if ok: "acyclic (set (module_graph ms)) \<and> nodes (module_graph ms) \<subseteq> set (map fst ms)"
  proof -
    obtain xs where xs: "topsort ko (module_graph ms) = Inr xs"
      using ts.sort_complete [OF assms] ok by blast
    note s = ts.sort_sound [OF assms xs]
    have "\<forall>m\<in>set xs. has_key ms m" using s ok by (auto simp: has_key_def)
    then show ?thesis using s xs by (simp add: ns3_module_scan_def plan_fold comp_def)
  qed
  show "isl (ns3_module_scan ko ms f)"
    if no: "\<not> (acyclic (set (module_graph ms)) \<and> nodes (module_graph ms) \<subseteq> set (map fst ms))"
  proof (cases "topsort ko (module_graph ms)")
    case (Inr xs)
    note s = ts.sort_sound [OF assms Inr]
    have "acyclic (set (module_graph ms))" using ts.sorts_iff_acyclic [OF assms] Inr by blast
    then have "\<not> (\<forall>m\<in>set xs. has_key ms m)" using s no by (auto simp: has_key_def)
    then have "ns3_module_scan ko ms f = Inl (PyError KeyError)"
      by (simp add: ns3_module_scan_def Inr plan_fold)
    then show ?thesis by simp
  qed (simp add: ns3_module_scan_def)
qed

lemma map_of_rev_None: "map_of (rev d) k = None \<longleftrightarrow> k \<notin> fst ` set d"
  by (simp add: map_of_eq_None_iff)

lemma classify_cases:
  assumes "headers_map p = dict_update [] (header_entries ms xs)"
  shows "classify p path = ''__main__'' \<and> (\<forall>m\<in>set xs. path_base path \<notin> set (snd (dict_get ms m ([], [])))) \<or>
    (\<exists>m\<in>set xs. classify p path = section_name m \<and> path_base path \<in> set (snd (dict_get ms m ([], []))))"
proof (cases "map_of (rev (header_entries ms xs)) (path_base path)")
  case None
  then have "\<forall>m\<in>set xs. path_base path \<notin> set (snd (dict_get ms m ([], [])))"
    unfolding map_of_rev_None by (force simp: header_entries_def)
  then show ?thesis using None assms by (simp add: classify_def dict_get_def map_of_dict_update)
next
  case (Some s)
  then have "(path_base path, s) \<in> set (header_entries ms xs)" by (auto dest: map_of_SomeD)
  then obtain m where "m \<in> set xs" "s = section_name m" "path_base path \<in> set (snd (dict_get ms m ([], [])))"
    by (auto simp: header_entries_def)
  then show ?thesis using Some assms by (auto simp: classify_def dict_get_def map_of_dict_update)
qed

lemma section_not_main: "section_name m \<noteq> ''__main__''"
  by (simp add: section_name_def)

lemma dict_ok_foldl: "(\<And>d x. dict_ok d \<Longrightarrow> dict_ok (f d x)) \<Longrightarrow> dict_ok d \<Longrightarrow> dict_ok (foldl f d xs)"
  by (induction xs arbitrary: d) auto

lemma dict_ok_modules: "dict_ok (get_modules_and_headers mods hdrs)"
  unfolding get_modules_and_headers_def by (rule dict_ok_foldl) (auto simp: Let_def)

text \<open>The comparison of two headers is that of their names.\<close>

lemma sort_func_cmp: "sort_func a b = (if a < b then -1 else if a = b then 0 else 1)"
  by (simp add: sort_func_def Let_def)

lemma cmp_sort_sort: "cmp_sort sort_func hs = sort hs"
proof -
  have "cmp_insert sort_func x ys = insort x ys" for x ys
    by (induction ys) (auto simp: sort_func_cmp)
  then have "cmp_insert sort_func = insort" by (intro ext)
  then show ?thesis by (simp add: cmp_sort_def sort_key_def)
qed

subsection \<open>Properties\<close>

lemma relative_path_value:
  "get_ns3_relative_path p =
     (if ''ns3'' \<notin> components p then (if starts_with p ''/'' then None else Some (Inl AssertionError))
      else Some (if after_ns3 p = [] then Inl TypeError else Inr (join_with ''/'' (names_of (after_ns3 p)))))"
proof (cases "''ns3'' \<in> components p")
  case False
  then show ?thesis
    using relative_loop_diverges [of "[]" p] relative_loop_returns [of p "[]"]
    unfolding get_ns3_relative_path_def by (cases "relative_loop [] p") auto
next
  case True
  have "names_of (after_ns3 p) = [] \<longleftrightarrow> after_ns3 p = []" by (simp add: names_of_def)
  then show ?thesis using True relative_loop_names [OF True, of "[]"] join_parts_names [OF _ names_clean, of p]
    by (cases "after_ns3 p = []") (simp_all add: get_ns3_relative_path_def join_parts_def names_of_def)
qed

text \<open>
  C32. \<^verbatim>\<open>get_ns3_relative_path\<close> runs forever exactly for absolute paths
  without a component \<^verbatim>\<open>ns3\<close>: \<^verbatim>\<open>os.path.split\<close> does not shorten \<^verbatim>\<open>/\<close>, so the
  AssertionError at the end is raised for relative paths only. For any path through
  \<^verbatim>\<open>ns3\<close> it returns the names after the last \<^verbatim>\<open>ns3\<close>, joined by single slashes, but a
  path that ends in \<^verbatim>\<open>ns3\<close> raises TypeError, because nothing is left to join.
\<close>

theorem relative_path_correct:
  "get_ns3_relative_path p =
     (if ''ns3'' \<notin> components p then (if starts_with p ''/'' then None else Some (Inl AssertionError))
      else Some (if after_ns3 p = [] then Inl TypeError else Inr (join_with ''/'' (names_of (after_ns3 p)))))"
  by (rule relative_path_value)

lemma relative_path_examples:
  "get_ns3_relative_path ''/build/ns3/tcp//socket.h'' = Some (Inr ''tcp/socket.h'') \<and>
   get_ns3_relative_path ''/home/me/ns3'' = Some (Inl TypeError) \<and> get_ns3_relative_path ''/usr/include/stdio.h'' = None"
  unfolding relative_path_value by code_simp

text \<open>
  The hook changes the table of the module only at the key of the
  declaration, where it takes the entry \<^verbatim>\<open>params\<close> out: the first scan of a declaration
  gets the parameter annotations of the table, a second scan of it gets the same global
  annotations but none for its parameters.
\<close>

theorem pre_scan_table:
  assumes "get_ns3_relative_path (file_name d) = Some (Inr h)" and "uses_table d"
    and "map_of t (full_name d) = Some a" and "dict_ok a"
  shows "\<exists>st st'. pre_scan_hook d (scan_start t d) = Some (Inr st) \<and>
    pre_scan_hook d (scan_start (table st) d) = Some (Inr st') \<and>
    parameter_annotations st = dict_update [] (params_of a) \<and> parameter_annotations st' = [] \<and>
    global_annotations st' = global_annotations st \<and>
    map_of (table st) = (map_of t)(full_name d \<mapsto> AList.delete ''params'' a)"
proof -
  define b where "b = AList.delete ''params'' a"
  have hook: "pre_scan_hook d st = Some (Inr (table_hook d (before_table h d st)))" for st
    by (simp add: pre_scan_hook_def assms(1) hook_body_table [OF assms(2)])
  have st1: "table (scan_start u d) = u" "parameter_annotations (scan_start u d) = []" for u
    by (simp_all add: scan_start_def)
  have r: "table_hook d (before_table h d (scan_start u d)) = (before_table h d (scan_start u d))
      \<lparr>table := AList.update (full_name d) (AList.delete ''params'' c) u,
       parameter_annotations := dict_update [] (params_of c),
       global_annotations := dict_update (global_annotations (before_table h d (scan_start u d))) (AList.delete ''params'' c)\<rparr>"
    if "map_of u (full_name d) = Some c" "dict_ok c" for u c
    using table_hook_result [of "before_table h d (scan_start u d)" d c] that by (simp add: st1)
  let ?t = "AList.update (full_name d) b t"
  have b: "map_of ?t (full_name d) = Some b" "dict_ok b" "AList.delete ''params'' b = b" "params_of b = []"
    using assms(4) by (simp_all add: b_def map_of_update_iff params_of_def map_of_delete_iff delete_idem)
  note r1 = r [OF assms(3,4), folded b_def] and r2 = r [OF b(1,2), unfolded b(3,4)]
  define st where "st = table_hook d (before_table h d (scan_start t d))"
  define st' where "st' = table_hook d (before_table h d (scan_start ?t d))"
  have "pre_scan_hook d (scan_start t d) = Some (Inr st)" by (simp only: hook st_def)
  moreover have "table st = ?t" by (simp add: st_def r1)
  then have "pre_scan_hook d (scan_start (table st) d) = Some (Inr st')" by (simp only: hook st'_def)
  moreover have "parameter_annotations st = dict_update [] (params_of a)" by (simp add: st_def r1)
  moreover have "parameter_annotations st' = []" by (simp add: st'_def r2 dict_update_def)
  moreover have "global_annotations st' = global_annotations st"
    using before_table_start [of h d ?t t] by (simp add: st_def st'_def r1 r2)
  moreover have "map_of (table st) = (map_of t)(full_name d \<mapsto> b)"
    by (simp add: \<open>table st = ?t\<close> update_conv')
  ultimately show ?thesis unfolding b_def by blast
qed

definition get_seed_decl :: decl where
  "get_seed_decl = \<lparr>kind = MemberFunction, file_name = ''ns3/random-variable.h'', decl_name = ''GetSeed'',
     parent_name = ''RandomVariable'', decl_string = [],
     full_name = ''void ns3::RandomVariable::GetSeed(uint32_t * seed) const [member function]'',
     template_args = [], default_values = [None]\<rparr>"

theorem pre_scan_table_witness:
  "\<exists>st st'. pre_scan_hook get_seed_decl (scan_start type_annotations get_seed_decl) = Some (Inr st) \<and>
    pre_scan_hook get_seed_decl (scan_start (table st) get_seed_decl) = Some (Inr st') \<and>
    parameter_annotations st = [(''seed'', [(''direction'', ''out''), (''array_length'', ''6'')])] \<and>
    parameter_annotations st' = []"
proof -
  define q where "q = [(''seed'', [(''direction'', ''out''), (''array_length'', ''6'')])]"
  let ?a = "[(''params'', Params q)]"
  have "relative_loop [] ([] @ ''ns3'' @ concat (map (\<lambda>w. CHR ''/'' # w) [''random-variable.h''])) =
      Some (join_parts ([''random-variable.h''] @ []))"
    by (rule relative_loop_value) simp_all
  then have "get_ns3_relative_path (file_name get_seed_decl) = Some (Inr ''random-variable.h'')"
    by (simp add: get_ns3_relative_path_def join_parts_def get_seed_decl_def)
  moreover have "uses_table get_seed_decl" by code_simp
  moreover have "map_of type_annotations (full_name get_seed_decl) = Some ?a" unfolding q_def by code_simp
  moreover have "dict_ok ?a" by (simp add: dict_ok_def)
  ultimately obtain st st' where "pre_scan_hook get_seed_decl (scan_start type_annotations get_seed_decl) = Some (Inr st)"
      "pre_scan_hook get_seed_decl (scan_start (table st) get_seed_decl) = Some (Inr st')"
      "parameter_annotations st = dict_update [] (params_of ?a)" "parameter_annotations st' = []"
    using pre_scan_table [of get_seed_decl "''random-variable.h''" type_annotations ?a] by blast
  moreover have "dict_update [] (params_of ?a) = q" unfolding q_def by code_simp
  ultimately show ?thesis unfolding q_def [symmetric] by (intro exI [of _ st] exI [of _ st'] conjI) (simp_all only:)
qed

text \<open>
  C9. With distinct section names the plan of \<^verbatim>\<open>ns3_module_scan\<close> exists
  exactly when the dependencies are acyclic and name modules of the build. Then a module
  comes after everything it depends on, sections exist for the modules that have or are a
  dependency (and for no others, so the headers of an isolated module go to
  \<^verbatim>\<open>__main__\<close>), and every file is classified into a section that has a precedence: one
  of a module that lists its header, or \<^verbatim>\<open>__main__\<close> when there is none.
\<close>

theorem scan_sections_correct:
  assumes "key_order ko" and "ms = get_modules_and_headers mods hdrs"
    and "inj_on section_name (set (map fst ms))"
  shows "case ns3_module_scan ko ms f of
      Inl e \<Rightarrow> \<not> (acyclic (set (module_graph ms)) \<and> nodes (module_graph ms) \<subseteq> set (map fst ms))
    | Inr p \<Rightarrow> acyclic (set (module_graph ms)) \<and> nodes (module_graph ms) \<subseteq> set (map fst ms) \<and>
        (\<forall>(m, deps, hs)\<in>set ms. \<forall>dep\<in>set deps. \<exists>i j. get_section_precedence p (section_name dep) = Inr i \<and>
           get_section_precedence p (section_name m) = Inr j \<and> -1 < i \<and> i < j) \<and>
        set (map fst (sections p)) = insert ''__main__'' (section_name ` nodes (module_graph ms)) \<and>
        (\<forall>path. (\<exists>i. get_section_precedence p (classify p path) = Inr i) \<and>
          (if classify p path = ''__main__''
           then \<forall>m\<in>nodes (module_graph ms). path_base path \<notin> set (snd (dict_get ms m ([], [])))
           else \<exists>m\<in>nodes (module_graph ms). classify p path = section_name m \<and>
             path_base path \<in> set (snd (dict_get ms m ([], [])))))"
proof (cases "acyclic (set (module_graph ms)) \<and> nodes (module_graph ms) \<subseteq> set (map fst ms)")
  case False
  then show ?thesis using scan_result(2) [OF assms(1) False, of f]
    by (cases "ns3_module_scan ko ms f") simp_all
next
  case True
  obtain xs p where x: "distinct xs" "set xs = nodes (module_graph ms)" "topsort ko (module_graph ms) = Inr xs"
      "ns3_module_scan ko ms f = Inr p" "map fst (sections p) = ''__main__'' # map section_name xs"
      "headers_map p = dict_update [] (header_entries ms xs)"
      "section_precedences p = dict_update [] (map (\<lambda>(i, m). (section_name m, int i)) (enumerate 0 xs))"
    using scan_result(1) [OF assms(1) True, of f] by (elim exE conjE) (rule that; assumption)
  have "inj_on section_name (set xs)" using assms(3) True x(2) by (metis inj_on_subset)
  then have d: "distinct (map section_name xs)" using x(1) by (simp add: distinct_map)
  have prec: "get_section_precedence p (section_name m) = Inr (int (list_index m xs))" if "m \<in> set xs" for m
    using precedence_lookup [OF d list_index_less [OF that]] section_not_main [of m]
    by (simp add: get_section_precedence_def x(7) list_index_nth [OF that])
  have main: "get_section_precedence p ''__main__'' = Inr (-1)" by (simp add: get_section_precedence_def)
  have "\<exists>i j. get_section_precedence p (section_name dep) = Inr i \<and>
      get_section_precedence p (section_name m) = Inr j \<and> -1 < i \<and> i < j"
    if "(m, deps, hs) \<in> set ms" "dep \<in> set deps" for m deps hs dep
  proof -
    have "dict_ok ms" using assms(2) dict_ok_modules by simp
    then have "(dep, m) \<in> set (module_graph ms)" using that by (auto simp: module_graph_set)
    note b = ts.ancestors_before [OF assms(1) x(3) r_into_trancl [OF this]]
    show ?thesis using prec [OF b(1)] prec [OF b(2)] b(3) by simp
  qed
  moreover have "(\<exists>i. get_section_precedence p (classify p path) = Inr i) \<and>
      (if classify p path = ''__main__''
       then \<forall>m\<in>nodes (module_graph ms). path_base path \<notin> set (snd (dict_get ms m ([], [])))
       else \<exists>m\<in>nodes (module_graph ms). classify p path = section_name m \<and>
         path_base path \<in> set (snd (dict_get ms m ([], []))))" for path
    using classify_cases [OF x(6), of path] section_not_main prec main unfolding x(2) [symmetric] by metis
  moreover have "set (map fst (sections p)) = insert ''__main__'' (section_name ` nodes (module_graph ms))"
    unfolding x(5) x(2) [symmetric] by simp
  ultimately show ?thesis using True unfolding x(4) by (simp only: sum.case case_prod_unfold) force
qed

definition example_modules :: "(string \<times> string list) list" where
  "example_modules = [(''ns3-node'', [''core'']), (''ns3-core'', []), (''ns3-flow-monitor'', [''node''])]"

definition example_headers :: "(string \<times> string list) list" where
  "example_headers = [(''core'', [''ptr.h'']), (''node'', [''node.h'', ''socket.h'']), (''flow-monitor'', [''flow.h''])]"

theorem scan_sections_correct_witness:
  "case ns3_module_scan rev (get_modules_and_headers example_modules example_headers) ''out/gen.py'' of
      Inl e \<Rightarrow> False
    | Inr p \<Rightarrow> classify p ''/usr/include/socket.h'' = ''ns3_module_node'' \<and>
        set (map fst (sections p)) = insert ''__main__'' (section_name ` nodes (module_graph
          (get_modules_and_headers example_modules example_headers)))"
proof -
  let ?ms = "get_modules_and_headers example_modules example_headers"
  have "inj_on section_name (set (map fst ?ms))" by code_simp
  note c = scan_sections_correct [OF key_order_rev refl this, of "''out/gen.py''"]
  have "\<not> isl (ns3_module_scan rev ?ms ''out/gen.py'')" by code_simp
  then obtain p where p: "ns3_module_scan rev ?ms ''out/gen.py'' = Inr p" by (cases "ns3_module_scan rev ?ms ''out/gen.py''") auto
  have "classify (projr (ns3_module_scan rev ?ms ''out/gen.py'')) ''/usr/include/socket.h'' = ''ns3_module_node''"
    by code_simp
  then show ?thesis using c unfolding p by (simp only: sum.case sum.sel)
qed

end
