(* ===== verification/RadFloat.thy ===== *)
theory RadFloat
  imports PyNum PyPath
begin

section \<open>The number helpers on floats: \<^verbatim>\<open>rad_util.py\<close>\<close>

text \<open>
  \<^verbatim>\<open>quantile\<close>, \<^verbatim>\<open>trim\<close>, \<^verbatim>\<open>float_range\<close> and \<^verbatim>\<open>nice_units\<close>, on the numbers of
  \<^theory_text>\<open>PyNum\<close>: a list may mix integers and floats, and a float is the rational number it stands
  for.
\<close>

subsection \<open>\<^verbatim>\<open>quantile\<close> and \<^verbatim>\<open>trim\<close>\<close>

text \<open>\<^verbatim>\<open>list.sort()\<close> is stable: equal numbers stay in order, be they integers or floats.\<close>

definition num_sort :: "pynum list \<Rightarrow> pynum list" where
  "num_sort l = sort_key nval l"

definition quantile :: "pynum list \<Rightarrow> pynum \<Rightarrow> pynum res" where
  "quantile l p =
     (let l_sort = num_sort l; n = int (length l);
          r = 1 + (PyInt n - 1) * p; i = nint r; f = r - PyInt i
      in if i < n then
           rbind (py_nth l_sort (i - 1)) (\<lambda>a. rbind (py_nth l_sort i) (\<lambda>b. Inr ((1 - f) * a + f * b)))
         else py_nth l_sort (i - 1))"

text \<open>The median is computed and not used; for no values it raises IndexError.\<close>

definition trim_median :: "pynum list \<Rightarrow> pynum res" where
  "trim_median l_sort =
     (let index = int (length l_sort div 2) in
      if length l_sort mod 2 = 0 then
        rbind (py_nth l_sort index) (\<lambda>a. rbind (py_nth l_sort (index - 1)) (\<lambda>b.
          Inr (PyFloat (nval (a + b) / 2))))
      else py_nth l_sort index)"

definition trim :: "pynum list \<Rightarrow> pynum list res" where
  "trim l =
     (let l_sort = num_sort l in
      rbind (trim_median l_sort) (\<lambda>median.
      rbind (quantile l_sort (PyFloat (1/4))) (\<lambda>q1.
      rbind (quantile l_sort (PyFloat (3/4))) (\<lambda>q3.
        let i = (q3 - q1) * PyFloat (3/2) in
        Inr (filter (\<lambda>x. x \<ge> q1 - i \<and> x \<le> q3 + i) l_sort)))))"

lemma num_sort_simps [simp]: "length (num_sort l) = length l" "mset (num_sort l) = mset l" "set (num_sort l) = set l"
  by (simp_all add: num_sort_def)

lemma num_sort_sorted: "sorted (map nval (num_sort l))"
  by (simp add: num_sort_def)

lemma num_sort_idem [simp]: "num_sort (num_sort l) = num_sort l"
  by (simp add: num_sort_def sort_key_id_if_sorted)

lemma num_sort_mono: "i \<le> j \<Longrightarrow> j < length l \<Longrightarrow> nval (num_sort l ! i) \<le> nval (num_sort l ! j)"
  using sorted_nth_mono [OF num_sort_sorted [of l], of i j] by simp

text \<open>The quantile interpolates between two neighbours in the sorted list.\<close>

lemma quantile_between:
  assumes "l \<noteq> []" and "0 \<le> nval p" and "nval p \<le> 1"
  shows "\<exists>q k. quantile l p = Inr q \<and> k < length l \<and> k = nat \<lfloor>(of_nat (length l) - 1) * nval p\<rfloor> \<and>
    nval q = nval (num_sort l ! k) +
      ((of_nat (length l) - 1) * nval p - of_nat k) * (nval (num_sort l ! min (k + 1) (length l - 1)) - nval (num_sort l ! k))"
proof -
  define n where "n = length l"
  define v where "v = (of_nat n - 1) * nval p"
  define k where "k = nat \<lfloor>v\<rfloor>"
  define r where "r = 1 + (PyInt (int n) - 1) * p"
  have n: "0 < n" using assms(1) by (simp add: n_def)
  then have n1: "(1::rat) \<le> of_nat n" by simp
  have v: "0 \<le> v" "v \<le> of_nat n - 1" using assms(2,3) n1 mult_left_mono [of "nval p" 1 "of_nat n - 1"] by (simp_all add: v_def)
  have r: "nval r = 1 + v" by (simp add: r_def v_def)
  have i: "nint r = int (Suc k)" using v(1) nint_floor [of r] by (simp add: r k_def)
  have kv: "of_nat k \<le> v" "v < of_nat k + 1"
  proof -
    have "of_nat k = (of_int \<lfloor>v\<rfloor> :: rat)" using v(1) by (simp add: k_def)
    then show "of_nat k \<le> v" "v < of_nat k + 1" using of_int_floor_le [of v] floor_correct [of v] by auto
  qed
  have "of_nat (Suc k) \<le> (of_nat n :: rat)" using kv(1) v(2) by simp
  then have kn: "Suc k \<le> n" by (simp only: of_nat_le_iff)
  define S where "S = num_sort l"
  have S: "length S = n" by (simp add: S_def n_def)
  have q: "quantile l p = (if Suc k < n then
      rbind (py_nth S (int k)) (\<lambda>a. rbind (py_nth S (int (Suc k))) (\<lambda>b. Inr ((1 - (r - PyInt (int (Suc k)))) * a + (r - PyInt (int (Suc k))) * b)))
      else py_nth S (int k))"
  proof -
    have "int (Suc k) - 1 = int k" "int (Suc k) < int n \<longleftrightarrow> Suc k < n" by (simp, linarith)
    then show ?thesis unfolding quantile_def Let_def n_def [symmetric] r_def [symmetric] i S_def [symmetric] by presburger
  qed
  show ?thesis
  proof (cases "Suc k < n")
    case True
    have "nval ((1 - (r - PyInt (int (Suc k)))) * S ! k + (r - PyInt (int (Suc k))) * S ! Suc k) =
        nval (S ! k) + (v - of_nat k) * (nval (S ! Suc k) - nval (S ! k))"
      by (simp add: r algebra_simps)
    moreover have "min (k + 1) (n - 1) = Suc k" using True by simp
    ultimately show ?thesis using q True kn
      by (auto simp: S k_def [symmetric] v_def [symmetric] n_def [symmetric] S_def [symmetric] simp del: of_nat_Suc)
  next
    case False
    then have "v = of_nat k" "Suc k = n" using kv(1) v(2) kn by auto
    then show ?thesis using q False
      by (auto simp: S k_def [symmetric] v_def [symmetric] n_def [symmetric] S_def [symmetric] simp del: of_nat_Suc)
  qed
qed

text \<open>
  For 0 <= p <= 1 the quantile of a non-empty list exists, lies between its
  least and greatest value and is the linear interpolation at position (n - 1) p of the sorted
  list; \<^verbatim>\<open>trim\<close> keeps, in order, the values within one and a half inter-quartile ranges of the
  quartiles, and raises IndexError exactly for the empty list.
\<close>

theorem quantile_correct:
  assumes "0 \<le> nval p" and "nval p \<le> 1"
  shows "(if l = [] then trim l = Inl IndexError
    else \<exists>q k q1 q3. quantile l p = Inr q \<and> k < length l \<and> k = nat \<lfloor>(of_nat (length l) - 1) * nval p\<rfloor> \<and>
      nval q = nval (num_sort l ! k) +
        ((of_nat (length l) - 1) * nval p - of_nat k) * (nval (num_sort l ! min (k + 1) (length l - 1)) - nval (num_sort l ! k)) \<and>
      nval (num_sort l ! 0) \<le> nval q \<and> nval q \<le> nval (num_sort l ! (length l - 1)) \<and>
      quantile l (PyFloat (1/4)) = Inr q1 \<and> quantile l (PyFloat (3/4)) = Inr q3 \<and>
      trim l = Inr (filter (\<lambda>x. nval q1 - 3/2 * (nval q3 - nval q1) \<le> nval x \<and> nval x \<le> nval q3 + 3/2 * (nval q3 - nval q1)) (num_sort l)))"
proof (cases "l = []")
  case True
  then show ?thesis by (simp add: trim_def trim_median_def num_sort_def py_nth_def py_index_def)
next
  case False
  define n where "n = length l"
  define S where "S = num_sort l"
  have n: "0 < n" "length S = n" using False by (simp_all add: n_def S_def)
  obtain q k where q: "quantile l p = Inr q" "k < n" "k = nat \<lfloor>(of_nat n - 1) * nval p\<rfloor>"
    "nval q = nval (S ! k) + ((of_nat n - 1) * nval p - of_nat k) * (nval (S ! min (k + 1) (n - 1)) - nval (S ! k))"
    using quantile_between [OF False assms] unfolding n_def [symmetric] S_def [symmetric] by blast
  obtain q1 where q1: "quantile l (PyFloat (1/4)) = Inr q1" using quantile_between [OF False, of "PyFloat (1/4)"] by auto
  obtain q3 where q3: "quantile l (PyFloat (3/4)) = Inr q3" using quantile_between [OF False, of "PyFloat (3/4)"] by auto
  define f where "f = (of_nat n - 1) * nval p - of_nat k"
  have pos: "0 \<le> (of_nat n - 1) * nval p" using n assms(1) by simp
  have "of_nat k = (of_int \<lfloor>(of_nat n - 1) * nval p\<rfloor> :: rat)" using pos q(3) by simp
  then have f: "0 \<le> f" "f \<le> 1"
    using of_int_floor_le [of "(of_nat n - 1) * nval p"] floor_correct [of "(of_nat n - 1) * nval p"] by (auto simp: f_def)
  define a where "a = nval (S ! k)"
  define b where "b = nval (S ! min (k + 1) (n - 1))"
  have ab: "nval (S ! 0) \<le> a" "a \<le> b" "b \<le> nval (S ! (n - 1))"
    using num_sort_mono [of _ _ l] q(2) n unfolding a_def b_def S_def n_def by auto
  have "0 \<le> f * (b - a)" "f * (b - a) \<le> b - a" using f ab mult_left_le_one_le [of "b - a" f] by auto
  moreover have qv: "nval q = a + f * (b - a)" using q(4) by (simp add: a_def b_def f_def)
  ultimately have between: "nval (S ! 0) \<le> nval q" "nval q \<le> nval (S ! (n - 1))" using ab by linarith+
  have quant: "quantile S x = quantile l x" for x by (simp add: quantile_def S_def n_def Let_def)
  have "\<exists>m. trim_median S = Inr m"
  proof -
    have "n div 2 < n" using n(1) by simp
    moreover have "py_nth S (int (n div 2) - 1) = py_nth S (int (n div 2 - 1))" if "n mod 2 = 0"
      using n(1) that by (cases "n div 2") auto
    ultimately show ?thesis using n by (auto simp: trim_median_def Let_def)
  qed
  then obtain m where m: "trim_median S = Inr m" by blast
  have "trim l = Inr (filter (\<lambda>x. nval q1 - 3/2 * (nval q3 - nval q1) \<le> nval x \<and> nval x \<le> nval q3 + 3/2 * (nval q3 - nval q1)) S)"
    using m q1 q3 by (simp add: trim_def S_def [symmetric] quant Let_def num_le mult.commute)
  then show ?thesis unfolding S_def [symmetric] n_def [symmetric] if_not_P [OF False]
    using q q1 q3 between by (intro exI conjI)
qed

theorem quantile_correct_witness:
  "\<exists>q. quantile [PyInt 4, PyInt 1, PyFloat 2] (PyFloat (1/4)) = Inr q \<and> nval q = 3/2"
  using quantile_correct [of "PyFloat (1/4)" "[PyInt 4, PyInt 1, PyFloat 2]"]
  by (auto simp: num_sort_def insort_key.simps)

subsection \<open>\<^verbatim>\<open>float_range\<close>\<close>

partial_function (option) float_loop :: "rat \<Rightarrow> rat \<Rightarrow> rat \<Rightarrow> rat list option" where
  "float_loop stop step cur =
     (if cur < stop then Option.bind (float_loop stop step (cur + step)) (\<lambda>l. Some (cur # l)) else Some [])"

definition float_range :: "pynum \<Rightarrow> pynum option \<Rightarrow> pynum option \<Rightarrow> rat list option" where
  "float_range start stop step =
     (let (stop', start') = (case stop of None \<Rightarrow> (nval start, 0) | Some x \<Rightarrow> (nval x, nval start));
          step' = (case step of None \<Rightarrow> 1 | Some x \<Rightarrow> nval x)
      in float_loop stop' step' start')"

lemma float_loop_steps:
  assumes "0 < step"
  shows "float_loop stop step cur = Some (map (\<lambda>i. cur + of_nat i * step) [0..<nat \<lceil>(stop - cur) / step\<rceil>])"
  using assms
proof (induction "nat \<lceil>(stop - cur) / step\<rceil>" arbitrary: cur)
  case 0
  then have "\<lceil>(stop - cur) / step\<rceil> \<le> 0" by simp
  then have "(stop - cur) / step \<le> 0" by (simp add: ceiling_le_iff)
  then have "\<not> cur < stop" using assms by (simp add: divide_le_0_iff)
  then show ?case using 0 by (subst float_loop.simps) simp
next
  case (Suc n)
  have "0 < \<lceil>(stop - cur) / step\<rceil>" using Suc.hyps(2) by linarith
  then have "0 < (stop - cur) / step" by (simp only: zero_less_ceiling)
  then have lt: "cur < stop" using Suc.prems by (simp add: zero_less_divide_iff)
  have next_n: "nat \<lceil>(stop - (cur + step)) / step\<rceil> = n"
  proof -
    have "(stop - (cur + step)) / step = (stop - cur) / step - 1" using Suc.prems by (simp add: field_simps)
    then have "\<lceil>(stop - (cur + step)) / step\<rceil> = \<lceil>(stop - cur) / step\<rceil> - 1" by (simp only: ceiling_diff_one)
    then show ?thesis using Suc.hyps(2) by simp
  qed
  have "float_loop stop step (cur + step) = Some (map (\<lambda>i. cur + step + of_nat i * step) [0..<n])"
    using Suc.hyps(1) [of "cur + step"] next_n Suc.prems by simp
  then have "float_loop stop step cur = Some (cur # map (\<lambda>i. cur + step + of_nat i * step) [0..<n])"
    using lt by (subst float_loop.simps) simp
  also have "cur # map (\<lambda>i. cur + step + of_nat i * step) [0..<n] = map (\<lambda>i. cur + of_nat i * step) [0..<Suc n]"
    by (subst upt_conv_Cons) (simp_all add: map_Suc_upt [symmetric] algebra_simps comp_def del: upt_Suc)
  finally show ?case using Suc.hyps(2) by simp
qed

lemma float_loop_diverges:
  assumes "float_loop stop step cur = Some l"
  shows "0 < step \<or> stop \<le> cur"
proof (rule float_loop.raw_induct [where P = "\<lambda>stop step cur l. 0 < step \<or> stop \<le> cur", OF _ assms])
  fix rec :: "rat \<Rightarrow> rat \<Rightarrow> rat \<Rightarrow> rat list option" and stop step cur l
  assume ih: "\<And>stop step cur l. rec stop step cur = Some l \<Longrightarrow> 0 < step \<or> stop \<le> cur"
    and body: "(if cur < stop then Option.bind (rec stop step (cur + step)) (\<lambda>l. Some (cur # l)) else Some []) = Some l"
  show "0 < step \<or> stop \<le> cur"
  proof (cases "cur < stop")
    case True
    then obtain k where "rec stop step (cur + step) = Some k" using body by (cases "rec stop step (cur + step)") auto
    then show ?thesis using ih True by fastforce
  qed simp
qed

text \<open>
  Without rounding, \<^verbatim>\<open>float_range\<close> ends exactly when the step is positive
  or the start is not below the stop, and then lists the start plus the multiples of the step
  below the stop.
\<close>

theorem float_range_correct:
  "float_range start (Some stop) (Some step) =
    (if nval stop \<le> nval start then Some []
     else if 0 < nval step then
       Some (map (\<lambda>i. nval start + of_nat i * nval step) [0..<nat \<lceil>(nval stop - nval start) / nval step\<rceil>])
     else None)"
proof -
  have "float_loop (nval stop) (nval step) (nval start) = Some []" if "nval stop \<le> nval start"
    using that by (subst float_loop.simps) simp
  moreover have "float_loop (nval stop) (nval step) (nval start) = None" if "\<not> nval stop \<le> nval start" "\<not> 0 < nval step"
    using float_loop_diverges [of "nval stop" "nval step" "nval start"] that by (cases "float_loop (nval stop) (nval step) (nval start)") auto
  ultimately show ?thesis using float_loop_steps [of "nval step"] by (simp add: float_range_def)
qed


end
