(* ===== verification/PyFormat.thy ===== *)
theory PyFormat
  imports PyNum
begin

section \<open>Numbers as decimal text\<close>

text \<open>
  \<^verbatim>\<open>round\<close> and the formats \<^verbatim>\<open>%.<n>f\<close> and \<^verbatim>\<open>%.<n>g\<close> of Python, on rational numbers: \<^verbatim>\<open>round\<close>
  takes halves away from zero, the formats to even, as they do on exact values.
\<close>

subsection \<open>Rounding\<close>

definition round_even :: "rat \<Rightarrow> int" where
  "round_even r =
     (let f = \<lfloor>r\<rfloor>; d = r - of_int f
      in if d < 1/2 then f else if 1/2 < d then f + 1 else if even f then f else f + 1)"

definition py_round :: "rat \<Rightarrow> nat \<Rightarrow> rat" where
  "py_round x dp = (let r = (\<lambda>y. of_int \<lfloor>y * 10 ^ dp + 1/2\<rfloor> / 10 ^ dp) in if x < 0 then - r (- x) else r x)"

lemma round_even_near: "\<bar>of_int (round_even r) - r\<bar> \<le> 1/2"
  unfolding round_even_def Let_def using floor_correct [of r] by (auto simp: abs_le_iff)

lemma round_even_lower: "of_int k - 1/2 < r \<Longrightarrow> k \<le> round_even r"
proof -
  assume "of_int k - 1/2 < r"
  moreover have "r \<le> of_int (round_even r) + 1/2" using round_even_near [of r] by linarith
  ultimately have "of_int k < (of_int (round_even r + 1) :: rat)" by simp
  then show ?thesis by (simp only: of_int_less_iff)
qed

lemma round_even_nonneg: "0 \<le> r \<Longrightarrow> 0 \<le> round_even r"
  using round_even_lower [of 0 r] by simp

lemma round_even_upper: "r < of_int k + 1/2 \<Longrightarrow> round_even r \<le> k"
proof -
  assume "r < of_int k + 1/2"
  moreover have "of_int (round_even r) \<le> r + 1/2" using round_even_near [of r] by linarith
  ultimately have "of_int (round_even r) < (of_int (k + 1) :: rat)" by simp
  then show ?thesis by (simp only: of_int_less_iff)
qed

subsection \<open>The format \<^verbatim>\<open>f\<close>\<close>

definition pad_digits :: "nat \<Rightarrow> nat \<Rightarrow> string" where
  "pad_digits dp k = replicate (dp - length (nat_str k)) CHR ''0'' @ nat_str k"

text \<open>\<open>n\<close> units of the last of \<open>dp\<close> places.\<close>

definition fixed_text :: "bool \<Rightarrow> nat \<Rightarrow> nat \<Rightarrow> string" where
  "fixed_text neg n dp =
     (if neg then ''-'' else []) @ nat_str (n div 10 ^ dp) @ (if dp = 0 then [] else CHR ''.'' # pad_digits dp (n mod 10 ^ dp))"

definition fmt_f :: "nat \<Rightarrow> rat \<Rightarrow> string" where
  "fmt_f dp q = fixed_text (q < 0) (nat (round_even (\<bar>q\<bar> * 10 ^ dp))) dp"

subsection \<open>The format \<^verbatim>\<open>g\<close>\<close>

text \<open>The decimal exponent of a positive number, from the lengths of its numerator and denominator.\<close>

definition pow10 :: "int \<Rightarrow> rat" where
  "pow10 k = (if 0 \<le> k then 10 ^ nat k else 1 / 10 ^ nat (- k))"

definition exponent10 :: "rat \<Rightarrow> int" where
  "exponent10 q =
     (let (a, b) = quotient_of q; k = int (length (nat_str (nat a))) - int (length (nat_str (nat b)))
      in if pow10 k \<le> q then k else k - 1)"

definition strip_zeros :: "string \<Rightarrow> string" where
  "strip_zeros s =
     (if CHR ''.'' \<in> set s then
        (let t = rev (dropWhile (\<lambda>c. c = CHR ''0'') (rev s)) in if last t = CHR ''.'' then butlast t else t)
      else s)"

text \<open>At least one significant digit is used; small and large numbers get an exponent.\<close>

definition fmt_g :: "nat \<Rightarrow> rat \<Rightarrow> string" where
  "fmt_g sigfigs q =
     (if q = 0 then ''0''
      else let p = max 1 sigfigs; e0 = exponent10 \<bar>q\<bar>;
               m0 = nat (round_even (\<bar>q\<bar> / pow10 (e0 - int p + 1)));
               (m, e) = (if m0 = 10 ^ p then (10 ^ (p - 1), e0 + 1) else (m0, e0))
           in if - 4 \<le> e \<and> e < int p then
                strip_zeros (fixed_text (q < 0) m (nat (int p - 1 - e)))
              else strip_zeros (fixed_text (q < 0) m (p - 1)) @ ''e'' @
                (if e < 0 then ''-'' else ''+'') @ pad_digits 2 (nat \<bar>e\<bar>))"

lemma fmt_examples:
  "fmt_f 2 (1/8) = ''0.12''" "fmt_f 0 (- 1/2) = ''-0''" "fmt_f 1 (999/10) = ''99.9''"
  "fmt_g 3 (1/3) = ''0.333''" "fmt_g 2 1000 = ''1e+03''" "fmt_g 4 100 = ''100''" "fmt_g 2 (999/1000) = ''1''"
  by code_simp+

subsection \<open>Reading decimals back\<close>

definition read_decimal :: "string \<Rightarrow> rat" where
  "read_decimal s =
     (let (neg, s) = (if starts_with s ''-'' then (True, drop 1 s) else (False, s));
          frac = tl (dropWhile is_digit s);
          x = of_nat (digits_val (takeWhile is_digit s)) + of_nat (digits_val frac) / 10 ^ length frac
      in if neg then - x else x)"


lemma nat_str_length: "0 < d \<Longrightarrow> k < 10 ^ d \<Longrightarrow> length (nat_str k) \<le> d"
proof (induction d arbitrary: k)
  case (Suc d)
  show ?case
  proof (cases "k < 10")
    case True
    then show ?thesis by (subst nat_str.simps) simp
  next
    case False
    then have "0 < d" using Suc.prems by (cases d) auto
    moreover have "k div 10 < 10 ^ d" using Suc.prems(2) by (simp add: less_mult_imp_div_less mult.commute)
    ultimately show ?thesis using Suc.IH [of "k div 10"] False by (subst nat_str.simps) simp
  qed
qed simp

lemma digits_val_zeros [simp]: "digits_val (replicate m CHR ''0'' @ s) = digits_val s"
  by (induction m) (simp_all add: digits_val_def digit_val_def)

lemma pad_digits_props:
  "0 < dp \<Longrightarrow> k < 10 ^ dp \<Longrightarrow> length (pad_digits dp k) = dp" "digits_val (pad_digits dp k) = k"
  using nat_str_length [of dp k] by (simp_all add: pad_digits_def)

lemma read_fixed_text: "read_decimal (fixed_text neg n dp) = (if neg then - 1 else 1) * (of_nat n / 10 ^ dp)"
proof -
  let ?i = "nat_str (n div 10 ^ dp)" and ?f = "if dp = 0 then [] else CHR ''.'' # pad_digits dp (n mod 10 ^ dp)"
  have d: "\<forall>c\<in>set ?i. is_digit c" using nat_str_digits by blast
  have nd: "\<not> is_digit CHR ''.''" by (simp add: is_digit_def)
  have s: "takeWhile is_digit (?i @ ?f) = ?i" "dropWhile is_digit (?i @ ?f) = ?f"
    using d nd by (auto simp: takeWhile_append dropWhile_append takeWhile_eq_all_conv)
  have m: "\<not> starts_with (?i @ ?f) ''-''"
    using nat_str_digits [of "hd ?i" "n div 10 ^ dp"] digit_neq_minus by (cases ?i) (auto simp: starts_with_def)
  have v: "of_nat (digits_val ?i) + of_nat (digits_val (tl ?f)) / 10 ^ length (tl ?f) = (of_nat n / 10 ^ dp :: rat)"
  proof (cases "dp = 0")
    case False
    have "of_nat n = (of_nat (n div 10 ^ dp) * 10 ^ dp + of_nat (n mod 10 ^ dp) :: rat)"
      using arg_cong [OF div_mult_mod_eq [of n "10 ^ dp", symmetric], of "of_nat :: nat \<Rightarrow> rat"]
      by (simp only: of_nat_add of_nat_mult of_nat_power of_nat_numeral)
    then show ?thesis using False pad_digits_props [of dp "n mod 10 ^ dp"] by (simp add: field_simps)
  next
    case True
    have "digits_val [] = 0" by (simp add: digits_val_def)
    then show ?thesis using True by simp
  qed
  show ?thesis
  proof (cases neg)
    case True
    have "starts_with (CHR ''-'' # ?i @ ?f) ''-''" by (simp add: starts_with_def)
    then show ?thesis using True v unfolding read_decimal_def fixed_text_def Let_def by (simp only: if_True append.simps drop_Suc_Cons drop_0 prod.case One_nat_def s)
  next
    case False
    then show ?thesis using v m unfolding read_decimal_def fixed_text_def Let_def by (simp only: if_False append.simps prod.case s mult_1)
  qed
qed

lemma read_fmt_f:
  assumes "0 \<le> q"
  shows "read_decimal (fmt_f dp q) = of_int (round_even (q * 10 ^ dp)) / 10 ^ dp"
proof -
  have "0 \<le> round_even (q * 10 ^ dp)" using assms by (intro round_even_nonneg) simp
  then show ?thesis using assms by (simp add: fmt_f_def read_fixed_text)
qed

text \<open>The text of \<^verbatim>\<open>%.<n>f\<close> is the number up to half a unit of its last place.\<close>

lemma fmt_f_near: "\<bar>read_decimal (fmt_f dp q) - q\<bar> \<le> 1 / (2 * 10 ^ dp)"
proof -
  define r where "r = round_even (\<bar>q\<bar> * 10 ^ dp)"
  have r: "0 \<le> r" unfolding r_def by (intro round_even_nonneg) simp
  have "\<bar>of_int r - \<bar>q\<bar> * 10 ^ dp\<bar> / 10 ^ dp \<le> (1/2) / 10 ^ dp"
    unfolding r_def using round_even_near by (intro divide_right_mono) simp_all
  moreover have "\<bar>of_int r - \<bar>q\<bar> * 10 ^ dp\<bar> / 10 ^ dp = \<bar>of_int r / 10 ^ dp - \<bar>q\<bar>\<bar>"
    by (simp add: diff_divide_distrib [symmetric] field_simps)
  moreover have "read_decimal (fmt_f dp q) = (if q < 0 then - 1 else 1) * (of_int r / 10 ^ dp)"
    using r by (simp add: fmt_f_def read_fixed_text r_def)
  ultimately show ?thesis by (cases "q < 0") (auto simp: abs_if split: if_splits)
qed

end
