(* ===== verification/RadUnits.thy ===== *)
theory RadUnits
  imports RadFloat PyFormat
begin

section \<open>Units and other helpers: \<^verbatim>\<open>rad_util.py\<close>\<close>

text \<open>
  \<^verbatim>\<open>nice_units\<close>, which shows a number with a unit prefix, and the helpers \<^verbatim>\<open>pt2str\<close>,
  \<^verbatim>\<open>timestamp\<close> and \<^verbatim>\<open>getmodule\<close>.
\<close>

subsection \<open>Prefixes\<close>

text \<open>
  The fractional multipliers are the exact powers of ten; the code has the floats next to
  them (\<^verbatim>\<open>1e-3\<close> is not exactly a thousandth), so the last digits it shows can differ.
\<close>

type_synonym prefix_table = "(pynum \<times> string \<times> string) list"

definition si_prefixes :: prefix_table where
  "si_prefixes =
    [(PyFloat (10 ^ 24), ''Y'', ''yotta''), (PyFloat (10 ^ 21), ''Z'', ''zetta''), (PyFloat (10 ^ 18), ''E'', ''exa''),
     (PyFloat (10 ^ 15), ''P'', ''peta''), (PyFloat (10 ^ 12), ''T'', ''tera''), (PyFloat (10 ^ 9), ''G'', ''giga''),
     (PyFloat (10 ^ 6), ''M'', ''mega''), (PyFloat (10 ^ 3), ''k'', ''kilo''), (PyFloat (1 / 10 ^ 3), ''m'', ''milli''),
     (PyFloat (1 / 10 ^ 6), ''u'', ''micro''), (PyFloat (1 / 10 ^ 9), ''n'', ''nano''), (PyFloat (1 / 10 ^ 12), ''p'', ''pico''),
     (PyFloat (1 / 10 ^ 15), ''f'', ''femto''), (PyFloat (1 / 10 ^ 18), ''a'', ''atto''), (PyFloat (1 / 10 ^ 21), ''z'', ''zepto''),
     (PyFloat (1 / 10 ^ 24), ''y'', ''yocto'')]"

definition extra_prefixes :: prefix_table where
  "extra_prefixes =
    [(PyFloat (10 ^ 2), ''h'', ''hecto''), (PyFloat 10, ''da'', ''deka''), (PyFloat (1 / 10), ''d'', ''deci''),
     (PyFloat (1 / 10 ^ 2), ''c'', ''centi'')]"

definition bin_prefixes :: prefix_table where
  "bin_prefixes =
    [(PyInt (2 ^ 10), ''K'', ''kilo''), (PyInt (2 ^ 20), ''M'', ''mega''), (PyInt (2 ^ 30), ''G'', ''mega''),
     (PyInt (2 ^ 40), ''T'', ''tera''), (PyInt (2 ^ 50), ''P'', ''peta''), (PyInt (2 ^ 60), ''E'', ''exa'')]"

definition unit_prefixes :: "bool \<Rightarrow> string \<Rightarrow> prefix_table" where
  "unit_prefixes use_extra_prefixes mode =
     (if mode = ''bin'' then bin_prefixes
      else if use_extra_prefixes then si_prefixes @ extra_prefixes else si_prefixes) @ [(PyInt 1, [], [])]"

subsection \<open>The multiplier\<close>

text \<open>The loop: the first multiplier with the value between it and the next.\<close>

fun find_mult :: "nat \<Rightarrow> pynum list \<Rightarrow> pynum \<Rightarrow> nat option" where
  "find_mult i (lower # upper # ms) value =
     (if lower \<le> value \<and> value < upper then Some i else find_mult (Suc i) (upper # ms) value)"
| "find_mult i ms value = None"

text \<open>
  \<^verbatim>\<open>mult\<close> is still \<^verbatim>\<open>None\<close> after the loop, so the tests that follow are always made; they
  override what the loop found.
\<close>

definition multiplier_index :: "pynum list \<Rightarrow> pynum \<Rightarrow> nat res" where
  "multiplier_index multipliers value =
     rbind (py_nth multipliers 0) (\<lambda>first. rbind (py_nth multipliers (-1)) (\<lambda>last_m.
       if value < first then Inr 0
       else if value \<ge> last_m then Inr (length multipliers - 1)
       else (case find_mult 0 multipliers value of None \<Rightarrow> Inl UnboundLocalError | Some i \<Rightarrow> Inr i)))"

text \<open>
  A text of rounded numbers; a negative number of digits is no valid format. The special case:
  where the value rounds to the next multiplier, that one is taken.
\<close>

definition round_up_multiplier :: "pynum list \<Rightarrow> int \<Rightarrow> pynum \<Rightarrow> nat \<Rightarrow> (nat \<times> pynum) res" where
  "round_up_multiplier multipliers dp value i =
     rbind (ndiv value (multipliers ! i)) (\<lambda>new_value.
       if i < length multipliers - 1 then
         rbind (ndiv (multipliers ! (i + 1)) (multipliers ! i)) (\<lambda>ratio.
           if py_round (nval new_value) (nat dp) = py_round (nval ratio) (nat dp)
           then rbind (ndiv value (multipliers ! (i + 1))) (\<lambda>new_value. Inr (i + 1, new_value))
           else Inr (i, new_value))
       else Inr (i, new_value))"

definition nice_units ::
  "pynum \<Rightarrow> int \<Rightarrow> int option \<Rightarrow> string \<Rightarrow> string \<Rightarrow> bool \<Rightarrow> bool \<Rightarrow> string \<Rightarrow> string res" where
  "nice_units value dp sigfigs suffix space use_extra_prefixes use_full_name mode =
     (let prefixes = unit_prefixes use_extra_prefixes mode;
          multipliers = num_sort (map fst prefixes)
      in rbind (multiplier_index multipliers value) (\<lambda>mult_i.
         rbind (case sigfigs of
                  None \<Rightarrow> round_up_multiplier multipliers dp value mult_i
                | Some d \<Rightarrow> rbind (ndiv value (multipliers ! mult_i)) (\<lambda>new_value. Inr (mult_i, new_value))) (\<lambda>(i, new_value).
         rbind (case sigfigs of
                  None \<Rightarrow> if dp < 0 then Inl ValueError else Inr (fmt_f (nat dp) (nval new_value))
                | Some d \<Rightarrow> if d < 0 then Inl ValueError else Inr (fmt_g (nat d) (nval new_value))) (\<lambda>str_value.
         (case map_of prefixes (multipliers ! i) of None \<Rightarrow> Inl KeyError
          | Some (label, full_name) \<Rightarrow> Inr (str_value @ space @ (if use_full_name then full_name else label) @ suffix))))))"

subsection \<open>Points, time and modules\<close>

text \<open>\<^verbatim>\<open>str\<close> of a coordinate and the clock are parameters.\<close>

definition pt2str :: "('a \<Rightarrow> string) \<Rightarrow> 'a list \<Rightarrow> string res" where
  "pt2str str_of point =
     rbind (py_nth point 0) (\<lambda>x. rbind (py_nth point 1) (\<lambda>y.
       Inr (''('' @ str_of x @ '', '' @ str_of y @ '')'')))"

definition timestamp :: "(unit \<Rightarrow> string) \<Rightarrow> string" where
  "timestamp asctime = asctime ()"

text \<open>
  An object: the \<^verbatim>\<open>__name__\<close> in its \<^verbatim>\<open>func_globals\<close> if it is a function, with an inner
  \<^verbatim>\<open>None\<close> where that dictionary has no name, and the values of its \<^verbatim>\<open>__dict__\<close>, in the order
  of the dictionary, if it has one.
\<close>

datatype py_object = PyObject (func_name: "string option option") (dict_values: "py_object list option")

definition getmodule :: "(string, 'm) dict \<Rightarrow> py_object \<Rightarrow> 'm res" where
  "getmodule sys_modules obj =
     rbind (if func_name obj \<noteq> None then Inr obj
            else (case dict_values obj of
                    None \<Rightarrow> Inl AttributeError
                  | Some items \<Rightarrow>
                      (case find (\<lambda>item. func_name item \<noteq> None) items of None \<Rightarrow> Inl ValueError | Some f \<Rightarrow> Inr f)))
       (\<lambda>func. case the (func_name func) of
          None \<Rightarrow> Inl KeyError
        | Some n \<Rightarrow> (case map_of sys_modules n of None \<Rightarrow> Inl KeyError | Some m \<Rightarrow> Inr m))"

subsection \<open>Three digits and an exact error\<close>

definition si_multipliers :: "pynum list" where
  "si_multipliers =
    [PyFloat (1 / 10 ^ 24), PyFloat (1 / 10 ^ 21), PyFloat (1 / 10 ^ 18), PyFloat (1 / 10 ^ 15), PyFloat (1 / 10 ^ 12),
     PyFloat (1 / 10 ^ 9), PyFloat (1 / 10 ^ 6), PyFloat (1 / 10 ^ 3), PyInt 1, PyFloat (10 ^ 3), PyFloat (10 ^ 6), PyFloat (10 ^ 9),
     PyFloat (10 ^ 12), PyFloat (10 ^ 15), PyFloat (10 ^ 18), PyFloat (10 ^ 21), PyFloat (10 ^ 24)]"

lemma si_multipliers_sorted: "num_sort (map fst (unit_prefixes False ''si'')) = si_multipliers"
  by code_simp

text \<open>Each multiplier is a thousand times the one before; dividing by one is exact.\<close>

lemma si_multipliers_props:
  "list_all (\<lambda>i. nval (si_multipliers ! Suc i) = 1000 * nval (si_multipliers ! i)) [0..<16]"
  "list_all (\<lambda>m. 0 < nval m \<and> (is_float m \<or> m = PyInt 1)) si_multipliers"
  "list_all (\<lambda>i. is_float (si_multipliers ! i) \<or> is_float (si_multipliers ! Suc i)) [0..<16]"
  "list_all (\<lambda>m. map_of (unit_prefixes False ''si'') m \<noteq> None) si_multipliers"
  by code_simp+

lemma si_step:
  assumes "i < 16"
  shows "nval (si_multipliers ! Suc i) = 1000 * nval (si_multipliers ! i)" and "0 < nval (si_multipliers ! i)"
proof -
  have len: "length si_multipliers = 17" by (simp add: si_multipliers_def)
  show "nval (si_multipliers ! Suc i) = 1000 * nval (si_multipliers ! i)"
    using si_multipliers_props(1) assms unfolding list_all_iff by simp
  show "0 < nval (si_multipliers ! i)"
    using si_multipliers_props(2) assms nth_mem [of i si_multipliers] unfolding list_all_iff by (simp add: len)
qed

lemma ndiv_si:
  assumes "m \<in> set si_multipliers"
  shows "\<exists>c. ndiv value m = Inr c \<and> nval c = nval value / nval m"
proof -
  have m: "0 < nval m" "is_float m \<or> m = PyInt 1" using si_multipliers_props(2) assms by (auto simp: list_all_iff)
  then show ?thesis
  proof (cases "is_float value \<or> is_float m")
    case True
    then show ?thesis using m(1) nval_div_float by (simp add: ndiv_def)
  next
    case False
    then show ?thesis using m by (cases "value") (auto simp: ndiv_def)
  qed
qed

lemma find_mult_spec:
  assumes "2 \<le> length ms" and "nval (hd ms) \<le> nval v" and "nval v < nval (last ms)"
  shows "\<exists>k. find_mult i ms v = Some (i + k) \<and> Suc k < length ms \<and> nval (ms ! k) \<le> nval v \<and> nval v < nval (ms ! Suc k)"
  using assms
proof (induction i ms v rule: find_mult.induct)
  case (1 i lower upper ms v)
  show ?case
  proof (cases "lower \<le> v \<and> v < upper")
    case True
    then show ?thesis by (intro exI [of _ 0]) (simp add: num_le)
  next
    case False
    then have u: "nval upper \<le> nval v" using "1.prems"(2) by (simp add: num_le)
    then have "ms \<noteq> []" using "1.prems"(3) by auto
    then obtain k where "find_mult (Suc i) (upper # ms) v = Some (Suc i + k)" "Suc k < length (upper # ms)"
        "nval ((upper # ms) ! k) \<le> nval v" "nval v < nval ((upper # ms) ! Suc k)"
      using "1.IH" [OF False] u "1.prems"(3) by (auto simp: Suc_le_eq)
    then show ?thesis using False by (intro exI [of _ "Suc k"]) simp
  qed
qed simp_all

lemma decimal_bounds:
  assumes "10 ^ dp \<le> k" and "k \<le> 1000 * 10 ^ dp - 1"
  shows "1 \<le> (of_int k / 10 ^ dp :: rat)" and "(of_int k / 10 ^ dp :: rat) < 1000"
proof -
  have "(of_int (10 ^ dp) :: rat) \<le> of_int k" "(of_int k :: rat) < of_int (1000 * 10 ^ dp)"
    using assms by (simp_all only: of_int_le_iff of_int_less_iff)
  then show "1 \<le> (of_int k / 10 ^ dp :: rat)" "(of_int k / 10 ^ dp :: rat) < 1000" by (simp_all add: field_simps)
qed

text \<open>The special case keeps the number below the next multiplier.\<close>

lemma round_up_si:
  assumes i: "i < 16" and v: "nval (si_multipliers ! i) \<le> nval value" "nval value < nval (si_multipliers ! Suc i)"
  shows "\<exists>j x. round_up_multiplier si_multipliers (int dp) value i = Inr (j, x) \<and> j < 17 \<and>
    nval x = nval value / nval (si_multipliers ! j) \<and>
    1 \<le> read_decimal (fmt_f dp (nval x)) \<and> read_decimal (fmt_f dp (nval x)) < 1000"
proof -
  define m where "m = si_multipliers ! i"
  define m' where "m' = si_multipliers ! Suc i"
  have len: "length si_multipliers = 17" by (simp add: si_multipliers_def)
  have in_set: "m \<in> set si_multipliers" "m' \<in> set si_multipliers" using i len by (auto simp: m_def m'_def)
  have m: "nval m' = 1000 * nval m" "0 < nval m" using si_step [OF i] by (simp_all add: m_def m'_def)
  obtain n where n: "ndiv value m = Inr n" "nval n = nval value / nval m" using ndiv_si [OF in_set(1)] by blast
  obtain n' where n': "ndiv value m' = Inr n'" "nval n' = nval value / nval m'" using ndiv_si [OF in_set(2)] by blast
  obtain r where r: "ndiv m' m = Inr r" "nval r = 1000" using ndiv_si [OF in_set(1), of m'] m by auto
  define y where "y = nval n * 10 ^ dp"
  have y: "10 ^ dp \<le> y" "y < 1000 * 10 ^ dp"
    using v m by (simp_all add: y_def n(2) m_def [symmetric] m'_def [symmetric] field_simps)
  have nn: "0 \<le> nval n" using v(1) m by (simp add: n(2) m_def [symmetric])
  have up: "round_up_multiplier si_multipliers (int dp) value i =
      (if py_round (nval n) dp = py_round 1000 dp then Inr (Suc i, n') else Inr (i, n))"
    using i by (simp add: round_up_multiplier_def len m_def [symmetric] m'_def [symmetric] n(1) r n'(1))
  have round: "py_round (nval n) dp = py_round 1000 dp \<longleftrightarrow> \<lfloor>y + 1/2\<rfloor> = 1000 * 10 ^ dp"
  proof -
    have "\<lfloor>1000 * 10 ^ dp + 1/2 :: rat\<rfloor> = 1000 * 10 ^ dp" by (rule floor_unique) simp_all
    then have "py_round (nval n) dp = py_round 1000 dp \<longleftrightarrow> of_int \<lfloor>y + 1/2\<rfloor> / 10 ^ dp = (of_int (1000 * 10 ^ dp) / 10 ^ dp :: rat)"
      using nn unfolding py_round_def Let_def y_def by (simp only: linorder_not_less [symmetric] if_False) simp
    also have "\<dots> \<longleftrightarrow> of_int \<lfloor>y + 1/2\<rfloor> = (of_int (1000 * 10 ^ dp) :: rat)" by (simp add: field_simps)
    finally show ?thesis by (simp only: of_int_eq_iff)
  qed
  show ?thesis
  proof (cases "\<lfloor>y + 1/2\<rfloor> = 1000 * 10 ^ dp")
    case True
    then have y': "1000 * 10 ^ dp - 1/2 \<le> y" using floor_correct [of "y + 1/2"] by simp
    have x: "nval n' * 10 ^ dp = y / 1000" by (simp add: n'(2) n(2) m(1) y_def)
    have "(1::rat) \<le> 10 ^ dp" by simp
    then have "of_int (10 ^ dp) - 1/2 < nval n' * 10 ^ dp" "nval n' * 10 ^ dp < of_int (10 ^ dp) + 1/2"
      using y' y(2) by (simp_all add: x)
    then have "round_even (nval n' * 10 ^ dp) = 10 ^ dp" by (intro antisym round_even_lower round_even_upper)
    moreover have "0 \<le> nval n'" using y'  v(1) m by (simp add: n'(2) m_def [symmetric])
    ultimately have "read_decimal (fmt_f dp (nval n')) = 1" by (simp add: read_fmt_f)
    then show ?thesis using up round True i n'(2) by (simp add: m'_def)
  next
    case False
    have "\<lfloor>y + 1/2\<rfloor> < 1000 * 10 ^ dp"
    proof -
      have "y + 1/2 < of_int (1000 * 10 ^ dp + 1)" using y(2) by simp
      then have "\<lfloor>y + 1/2\<rfloor> < 1000 * 10 ^ dp + 1" by (simp only: floor_less_iff)
      then show ?thesis using False by simp
    qed
    then have "y + 1/2 < of_int (1000 * 10 ^ dp)" by (simp only: floor_less_iff)
    then have "y < of_int (1000 * 10 ^ dp - 1) + 1/2" by simp
    then have "round_even y \<le> 1000 * 10 ^ dp - 1" by (rule round_even_upper)
    moreover have "10 ^ dp \<le> round_even y" using y(1) by (intro round_even_lower) simp
    ultimately have "1 \<le> read_decimal (fmt_f dp (nval n)) \<and> read_decimal (fmt_f dp (nval n)) < 1000"
      unfolding read_fmt_f [OF nn] y_def [symmetric] using decimal_bounds [of dp "round_even y"] by blast
    then show ?thesis using up round False i n(2) by (simp add: m_def)
  qed
qed


text \<open>
  A number from 1e-24 up to 1e24 is shown with a prefix whose
  multiplier leaves it at least 1 and below 1000 after rounding, and the text times the
  multiplier is the number up to half a unit of its last place.
\<close>

theorem nice_units_correct:
  assumes "1 / 10 ^ 24 \<le> nval value" and "nval value < 10 ^ 24"
  shows "\<exists>t m label. nice_units value (int dp) None suffix space False use_full_name ''si'' = Inr (t @ space @ label @ suffix) \<and>
    (\<exists>names. (m, names) \<in> set (unit_prefixes False ''si'') \<and> label = (if use_full_name then snd names else fst names)) \<and>
    \<bar>read_decimal t * nval m - nval value\<bar> \<le> nval m / (2 * 10 ^ dp) \<and>
    1 \<le> read_decimal t \<and> read_decimal t < 1000"
proof -
  let ?M = si_multipliers
  have M: "length ?M = 17" "nval (hd ?M) = 1 / 10 ^ 24" "nval (last ?M) = 10 ^ 24" "hd ?M = ?M ! 0" "last ?M = ?M ! 16"
    by (simp_all add: si_multipliers_def)
  obtain i where i: "find_mult 0 ?M value = Some i" "Suc i < 17" "nval (?M ! i) \<le> nval value" "nval value < nval (?M ! Suc i)"
    using find_mult_spec [of ?M "value" 0] assms M by auto
  have index: "multiplier_index ?M value = Inr i"
    using assms M i(1) py_nth_nat [of ?M 0] py_nth_last [of ?M] by (auto simp: multiplier_index_def num_le)
  obtain j x where j: "round_up_multiplier ?M (int dp) value i = Inr (j, x)" "j < 17" "nval x = nval value / nval (?M ! j)"
      "1 \<le> read_decimal (fmt_f dp (nval x))" "read_decimal (fmt_f dp (nval x)) < 1000"
    using round_up_si [of i "value" dp] i(2-4) by auto
  have mj: "?M ! j \<in> set ?M" using j(2) M(1) by simp
  then obtain l f where lf: "map_of (unit_prefixes False ''si'') (?M ! j) = Some (l, f)"
    using si_multipliers_props(4) unfolding list_all_iff by fastforce
  have pos: "0 < nval (?M ! j)" using si_multipliers_props(2) mj by (simp add: list_all_iff)
  have shown: "nice_units value (int dp) None suffix space False use_full_name ''si'' =
      Inr (fmt_f dp (nval x) @ space @ (if use_full_name then f else l) @ suffix)"
    by (simp add: nice_units_def si_multipliers_sorted index j(1) lf Let_def)
  have "\<bar>read_decimal (fmt_f dp (nval x)) - nval x\<bar> * nval (?M ! j) \<le> 1 / (2 * 10 ^ dp) * nval (?M ! j)"
    using fmt_f_near pos by (intro mult_right_mono) simp_all
  moreover have "\<bar>read_decimal (fmt_f dp (nval x)) - nval x\<bar> * nval (?M ! j) =
      \<bar>read_decimal (fmt_f dp (nval x)) * nval (?M ! j) - nval value\<bar>"
    using pos by (simp add: j(3) abs_mult_pos left_diff_distrib)
  ultimately show ?thesis using shown j(4,5) map_of_SomeD [OF lf]
    by (intro exI [of _ "fmt_f dp (nval x)"] exI [of _ "?M ! j"] exI [of _ "if use_full_name then f else l"] conjI exI [of _ "(l, f)"]) simp_all
qed

theorem nice_units_correct_witness:
  "\<exists>t m label. nice_units (PyFloat (999999 / 10)) 1 None ''s'' '' '' False False ''si'' = Inr (t @ '' '' @ label @ ''s'') \<and>
     1 \<le> read_decimal t \<and> read_decimal t < 1000"
  using nice_units_correct [of "PyFloat (999999 / 10)" 1 "''s''" "'' ''" False] by auto

text \<open>
  Outside that range: a number below the smallest multiplier, so every negative one, is shown
  in yocto; binary prefixes divide integers by integers.
\<close>

lemma negative_yocto:
  assumes "nval v < 1 / 10 ^ 24"
  shows "multiplier_index (num_sort (map fst (unit_prefixes False ''si''))) v = Inr 0"
    and "map_of (unit_prefixes False ''si'') (si_multipliers ! 0) = Some (''y'', ''yocto'')"
proof -
  have "py_nth si_multipliers 0 = Inr (PyFloat (1 / 10 ^ 24))" "\<exists>m. py_nth si_multipliers (-1) = Inr m"
    by (simp_all add: py_nth_def py_index_def si_multipliers_def)
  then show "multiplier_index (num_sort (map fst (unit_prefixes False ''si''))) v = Inr 0"
    using assms by (auto simp: multiplier_index_def si_multipliers_sorted num_le)
  show "map_of (unit_prefixes False ''si'') (si_multipliers ! 0) = Some (''y'', ''yocto'')" by code_simp
qed

lemma binary_floor: "nice_units (PyInt 2047) 1 None [] '' '' False False ''bin'' = Inr ''1.0 K''"
  by code_simp
lemma giga_mega: "nice_units (PyInt (2 ^ 30)) 0 None [] '' '' False True ''bin'' = Inr ''1 mega''"
  by code_simp


end
