(* ===== verification/Wutils.thy ===== *)
theory Wutils
  imports PyLib
begin

section \<open>Running programs of the build: \<^verbatim>\<open>wutils.py\<close>\<close>

text \<open>
  \<^verbatim>\<open>wutils.py\<close>: relative paths, the search of a program among the build targets, the
  environment of a child process and running it, with or without valgrind. The options and
  the build context of waf are records of what the code reads; starting a process is a
  parameter.
\<close>

subsection \<open>State of waf\<close>

text \<open>A target of the build: \<^verbatim>\<open>obj.path\<close> in the source and in the build tree, and its output.\<close>

record target_obj =
  is_ns3_program :: bool
  src_dir :: string
  build_dir :: string
  target_name :: string
  program_node :: string

record waf_options =
  command_template :: "string option"
  valgrind_opt :: bool
  cwd_option :: "string option"

record waf =
  options :: waf_options
  cwd_launch :: string
  launch_dir :: string
  targets :: "target_obj list"
  platform :: string
  os_environ :: "(string, string) dict"
  pathsep :: string
  process_cwd :: string
  module_path :: "string list"
  executable_path :: "string list"
  bindings_dir :: string
  valgrind_path :: "string option"
  python_path :: string

definition truthy :: "string option \<Rightarrow> bool" where
  "truthy s \<longleftrightarrow> s \<noteq> None \<and> s \<noteq> Some []"

definition get_command_template :: "waf_options \<Rightarrow> string list \<Rightarrow> string" where
  "get_command_template opt arguments =
     foldl (\<lambda>cmd arg. cmd @ '' '' @ arg)
       (if truthy (command_template opt) then the (command_template opt) else ''%s'') arguments"

subsection \<open>Relative paths\<close>

fun common_prefix :: "'a list \<Rightarrow> 'a list \<Rightarrow> nat" where
  "common_prefix (x # xs) (y # ys) = (if x = y then Suc (common_prefix xs ys) else 0)"
| "common_prefix _ _ = 0"

definition relpath :: "string \<Rightarrow> string \<Rightarrow> string \<Rightarrow> string res" where
  "relpath cwd path start =
     (if path = [] then Inl ValueError
      else let start_list = split_on CHR ''/'' (path_abs cwd start);
               path_list = split_on CHR ''/'' (path_abs cwd path);
               i = common_prefix start_list path_list;
               rel_list = replicate (length start_list - i) ''..'' @ drop i path_list
           in case rel_list of [] \<Rightarrow> Inr ''.'' | w # ws \<Rightarrow> Inr (path_joins w ws))"

subsection \<open>Finding a program\<close>

fun find_among ::
  "(target_obj \<Rightarrow> string res) \<Rightarrow> string \<Rightarrow> string \<Rightarrow> string list \<Rightarrow> target_obj list \<Rightarrow> (string list + target_obj) res" where
  "find_among rel launch program_name found [] = Inr (Inl found)"
| "find_among rel launch program_name found (obj # objs) =
     (if \<not> is_ns3_program obj then find_among rel launch program_name found objs
      else if \<not> (starts_with (src_dir obj) launch \<or> starts_with (build_dir obj) launch)
      then find_among rel launch program_name found objs
      else rbind (rel obj) (\<lambda>d.
        let names = [target_name obj, path_join d (target_name obj)]
        in if program_name \<in> set names then Inr (Inr obj)
           else find_among rel launch program_name (found @ names) objs))"

text \<open>The ValueError carries the message.\<close>

definition find_program :: "waf \<Rightarrow> string \<Rightarrow> (string + target_obj) res" where
  "find_program w program_name =
     (let launch = path_abs (process_cwd w) (cwd_launch w);
          top = path_abs (process_cwd w) (launch_dir w)
      in rbind (find_among (\<lambda>obj. relpath (process_cwd w) (src_dir obj) top) launch program_name [] (targets w)) (\<lambda>r.
         Inr (case r of
           Inr obj \<Rightarrow> Inr obj
         | Inl found \<Rightarrow> Inl (''program '' @ [CHR 39] @ program_name @ [CHR 39] @ '' not found; available programs are: '' @
             repr_list found))))"

subsection \<open>The environment of a child process\<close>

definition path_var :: "string \<Rightarrow> string" where
  "path_var p =
     (if p = ''linux2'' then ''LD_LIBRARY_PATH''
      else if p = ''darwin'' then ''DYLD_LIBRARY_PATH''
      else if p = ''win32'' then ''PATH''
      else if p = ''cygwin'' then ''PATH''
      else if starts_with p ''freebsd'' then ''LD_LIBRARY_PATH''
      else ''LD_LIBRARY_PATH'')"

definition prepend_path :: "string \<Rightarrow> string list \<Rightarrow> string \<Rightarrow> (string, string) dict \<Rightarrow> (string, string) dict" where
  "prepend_path sep dirs var env =
     AList.update var (join_with sep (case map_of env var of None \<Rightarrow> dirs | Some v \<Rightarrow> dirs @ [v])) env"

definition get_proc_env :: "waf \<Rightarrow> (string, string) dict option \<Rightarrow> (string, string) dict" where
  "get_proc_env w os_env =
     (let proc_env = (case os_env of None \<Rightarrow> os_environ w
            | Some e \<Rightarrow> foldl (\<lambda>d (k, v). AList.update k v d) (os_environ w) e);
          env1 = prepend_path (pathsep w) (module_path w) (path_var (platform w)) proc_env;
          env2 = prepend_path (pathsep w) [bindings_dir w] ''PYTHONPATH'' env1
      in prepend_path (pathsep w) (executable_path w) ''PATH'' env2)"

subsection \<open>Running a command\<close>

text \<open>
  A process that could be started: its return code and the lines of its error output.
  \<open>signals\<close> are the names and values of the module \<^verbatim>\<open>signal\<close> in the order of its
  dictionary; \<open>windows\<close> says that the name \<^verbatim>\<open>WindowsError\<close> exists.
\<close>

record processes =
  popen :: "string list \<Rightarrow> (string, string) dict \<Rightarrow> string option \<Rightarrow> (int \<times> string list) option"
  signals :: "(string, int) dict"
  windows :: bool

definition leak_text :: string where
  "leak_text = ''== LEAK SUMMARY''"

definition signal_name :: "(string, int) dict \<Rightarrow> int \<Rightarrow> string option" where
  "signal_name sigs retval =
     map_option fst (find (\<lambda>(name, val). 3 < length name \<and> take 3 name = ''SIG'' \<and> name ! 3 \<noteq> CHR ''_'' \<and> val = - retval) sigs)"

definition check_retval :: "(string, int) dict \<Rightarrow> string list \<Rightarrow> int \<Rightarrow> int res" where
  "check_retval sigs argv retval =
     (if retval \<noteq> 0 then
        (case (if retval < 0 then signal_name sigs retval else None) of
           Some signame \<Rightarrow> Inl (WafError (''Command '' @ repr_list argv @ '' terminated with signal '' @ signame @
             ''. Run it under a debugger to get more information (./waf --run <program> --command-template='' @ [CHR 34] @
             ''gdb --args %s <args>'' @ [CHR 34] @ '').''))
         | None \<Rightarrow> Inl (WafError (''Command '' @ repr_list argv @ '' exited with code '' @ int_str retval)))
      else Inr retval)"

definition run_argv ::
  "waf \<Rightarrow> processes \<Rightarrow> string list \<Rightarrow> (string, string) dict option \<Rightarrow> string option \<Rightarrow> bool \<Rightarrow> int res" where
  "run_argv w p argv os_env cwd force_no_valgrind =
     (let proc_env = get_proc_env w os_env in
      if valgrind_opt (options w) \<and> \<not> force_no_valgrind then
        (if truthy (command_template (options w))
         then Inl (WafError ''Options --command-template and --valgrind are conflicting'')
         else if \<not> truthy (valgrind_path w) then Inl (WafError ''valgrind is not installed'')
         else let argv' = [the (valgrind_path w), ''--leak-check=full'', ''--show-reachable=yes'', ''--error-exitcode=1''] @ argv
              in case popen p argv' proc_env cwd of
                   None \<Rightarrow> Inl OSError
                 | Some (retval, err) \<Rightarrow>
                     check_retval (signals p) argv'
                       (if retval = 0 \<and> (\<exists>line\<in>set err. has_infix leak_text line) then 1 else retval))
      else (case popen p argv proc_env cwd of
              None \<Rightarrow> (if windows p then Inl (WafError (''Command '' @ repr_list argv @ '' raised exception WindowsError''))
                       else Inl OSError)
            | Some (retval, _) \<Rightarrow> check_retval (signals p) argv retval))"

subsection \<open>Running a program of the build\<close>

text \<open>A ValueError, also that of \<open>relpath\<close>, becomes a WafError.\<close>

definition program_of :: "waf \<Rightarrow> string \<Rightarrow> target_obj res" where
  "program_of w program_name =
     (case find_program w program_name of
        Inl e \<Rightarrow> Inl (if e = ValueError then WafError ''no path specified'' else e)
      | Inr (Inl msg) \<Rightarrow> Inl (WafError msg)
      | Inr (Inr obj) \<Rightarrow> Inr obj)"

definition get_run_program :: "waf \<Rightarrow> string \<Rightarrow> string option \<Rightarrow> (string \<times> string list) res" where
  "get_run_program w program_string template =
     (if template = None \<or> template = Some ''%s'' then
        rbind (shlex_split program_string) (\<lambda>argv.
        rbind (py_nth argv 0) (\<lambda>program_name.
        rbind (program_of w program_name) (\<lambda>obj. Inr (program_name, program_node obj # tl argv))))
      else
        rbind (program_of w program_string) (\<lambda>obj.
        rbind (py_format (the template) (program_node obj)) (\<lambda>tmpl.
        rbind (shlex_split (double_backslash tmpl)) (\<lambda>execvec. Inr (program_string, execvec)))))"

definition default_cwd :: "waf \<Rightarrow> string" where
  "default_cwd w = (if truthy (cwd_option (options w)) then the (cwd_option (options w)) else cwd_launch w)"

definition run_program :: "waf \<Rightarrow> processes \<Rightarrow> string \<Rightarrow> string option \<Rightarrow> string option \<Rightarrow> int res" where
  "run_program w p program_string template cwd =
     rbind (get_run_program w program_string template) (\<lambda>(_, execvec).
       run_argv w p execvec None (Some (case cwd of None \<Rightarrow> default_cwd w | Some d \<Rightarrow> d)) False)"

definition run_python_program :: "waf \<Rightarrow> processes \<Rightarrow> string \<Rightarrow> int res" where
  "run_python_program w p program_string =
     rbind (shlex_split program_string) (\<lambda>execvec.
       run_argv w p (python_path w # execvec) None (Some (default_cwd w)) False)"

subsection \<open>Relative paths lead to the same place\<close>

lemma common_prefix_take: "take (common_prefix xs ys) xs = take (common_prefix xs ys) ys"
  by (induction xs ys rule: common_prefix.induct) auto

lemma common_prefix_le: "common_prefix xs ys \<le> length xs \<and> common_prefix xs ys \<le> length ys"
  by (induction xs ys rule: common_prefix.induct) auto

lemma norm_comps_Nil: "norm_comps True ([] # cs) = norm_comps True cs"
  by (simp add: norm_comps_def norm_step_def)

text \<open>Up from \<open>S\<close> and down to \<open>P\<close>.\<close>

lemma norm_up_down:
  assumes "clean S" and "clean P" and "l = common_prefix S P"
  shows "norm_comps True (S @ replicate (length S - l) ''..'' @ drop l P) = P"
proof -
  have "norm_comps True (S @ replicate (length S - l) ''..'' @ drop l P) = take l S @ drop l P"
    using norm_clean [OF assms(1), of "[]"] norm_dots [OF assms(1), of "length S - l"]
      norm_clean [OF clean_drop [OF assms(2)], of "take l S" l] common_prefix_le [of S P] assms(3)
    by (simp add: norm_comps_def)
  then show ?thesis using common_prefix_take [of S P] assms(3) by simp
qed

lemma path_join_root:
  assumes "clean S" and "r \<noteq> []" and "hd r \<noteq> CHR ''/''"
  shows "split_on CHR ''/'' (path_join (root_path S) r) = [] # S @ split_on CHR ''/'' r"
    and "one_root (path_join (root_path S) r)"
proof -
  have nr: "\<not> starts_with r ''/''" using assms(2,3) by (cases r) (auto simp: starts_with_def)
  show "split_on CHR ''/'' (path_join (root_path S) r) = [] # S @ split_on CHR ''/'' r"
  proof (cases "S = []")
    case True
    then show ?thesis using nr by (simp add: path_join_def root_path_def ends_with_def)
  next
    case False
    then have "last (join_with ''/'' S) \<noteq> CHR ''/'' \<and> join_with ''/'' S \<noteq> []"
      using join_ends [of S "CHR ''/''"] assms(1) by (auto simp: clean_def)
    then have "\<not> ends_with (root_path S) ''/''" by (auto simp: root_path_def ends_with_iff)
      (metis append_is_Nil_conv append_self_conv2 hd_append last_ConsR last_snoc list.sel(1))
    then have "path_join (root_path S) r = root_path S @ CHR ''/'' # r"
      using nr by (simp add: path_join_def root_path_def)
    moreover have "split_on CHR ''/'' (root_path S @ CHR ''/'' # r) = split_on CHR ''/'' (root_path S) @ split_on CHR ''/'' r"
      by (rule split_on_append_sep)
    ultimately show ?thesis using False by (simp add: split_root [OF assms(1)])
  qed
  show "one_root (path_join (root_path S) r)"
  proof (cases S)
    case Nil
    then show ?thesis using nr assms(2,3)
      by (cases r) (auto simp: path_join_def root_path_def ends_with_def one_root_def starts_with_def)
  next
    case (Cons c cs)
    then show ?thesis using assms(1) nr
      by (cases c; cases cs) (auto simp: path_join_def root_path_def one_root_def starts_with_def)
  qed
qed

text \<open>The parts of \<open>relpath\<close> for two normal paths.\<close>

lemma relpath_parts:
  assumes "clean S" and "clean P" and "path_abs cwd start = root_path S" and "path_abs cwd path = root_path P" and "path \<noteq> []"
  shows "\<exists>r. relpath cwd path start = Inr r \<and> r \<noteq> [] \<and> hd r \<noteq> CHR ''/'' \<and>
    norm_comps True (S @ split_on CHR ''/'' r) = P"
proof -
  let ?k = "length S - common_prefix S P"
  have dots: "\<forall>w\<in>set (replicate n ''..''). w \<noteq> [] \<and> CHR ''/'' \<notin> set w" for n by auto
  have cl: "\<forall>w\<in>set (drop n P). w \<noteq> [] \<and> CHR ''/'' \<notin> set w" for n
    using clean_drop [OF assms(2), of n] by (auto simp: clean_def)
  define SL where "SL = [] # (if S = [] then [[]] else S)"
  define PL where "PL = [] # (if P = [] then [[]] else P)"
  define rel where "rel = replicate (length SL - common_prefix SL PL) ''..'' @ drop (common_prefix SL PL) PL"
  have r: "relpath cwd path start = (case rel of [] \<Rightarrow> Inr ''.'' | w # ws \<Rightarrow> Inr (path_joins w ws))"
    using assms(5) by (simp add: relpath_def assms(3,4) split_root assms(1,2) SL_def PL_def rel_def Let_def)
  have words: "\<exists>r. relpath cwd path start = Inr r \<and> r \<noteq> [] \<and> hd r \<noteq> CHR ''/'' \<and> split_on CHR ''/'' r = rel"
    if ok: "\<forall>w\<in>set rel. w \<noteq> [] \<and> CHR ''/'' \<notin> set w" "rel \<noteq> []"
  proof -
    obtain w ws where w: "rel = w # ws" using ok(2) by (cases rel) auto
    have "path_joins w ws = join_with ''/'' rel" using ok(1) unfolding w by (intro path_joins_clean) auto
    moreover have "split_on CHR ''/'' (join_with ''/'' rel) = rel" using ok by (intro split_join) auto
    moreover have "join_with ''/'' rel \<noteq> [] \<and> hd (join_with ''/'' rel) \<noteq> CHR ''/''"
      using ok(1) unfolding w by (cases ws; cases w) auto
    ultimately show ?thesis using r by (simp add: w)
  qed
  consider "S = []" "P = []" | "S = []" "P \<noteq> []" | "S \<noteq> []" "P = []" | "S \<noteq> []" "P \<noteq> []" by blast
  then show ?thesis
  proof cases
    case 1
    then show ?thesis using r by (simp add: rel_def SL_def PL_def norm_comps_def norm_step_def)
  next
    case 2
    then have "rel = ''..'' # P" using assms(2) by (cases P) (auto simp: rel_def SL_def PL_def)
    moreover have "norm_comps True (''..'' # P) = P"
      using norm_clean [OF assms(2), of "[]"] by (simp add: norm_comps_def norm_step_def)
    ultimately show ?thesis using words cl [of 0] 2 by auto
  next
    case 3
    then have rel: "rel = replicate (length S) ''..'' @ [[]]" using assms(1) by (cases S) (auto simp: rel_def SL_def PL_def)
    obtain n where n: "length S = Suc n" using 3 by (cases S) auto
    let ?d = "join_with ''/'' (replicate (length S) ''..'')"
    have j: "path_joins ''..'' (replicate n ''..'') = ?d" using dots [of n] path_joins_clean [of "''..''" "replicate n ''..''"] n by simp
    have "path_joins ''..'' (replicate n ''..'' @ [[]]) = path_join ?d []" using j by (simp add: path_joins_def)
    moreover have d: "?d \<noteq> [] \<and> hd ?d \<noteq> CHR ''/'' \<and> last ?d \<noteq> CHR ''/''"
      using dots [of "length S"] 3 by (intro join_ends) auto
    ultimately have "relpath cwd path start = Inr (?d @ ''/'')"
      using r n by (auto simp: rel path_join_def starts_with_def ends_with_iff)
    moreover have "split_on CHR ''/'' (?d @ CHR ''/'' # []) = replicate (length S) ''..'' @ [[]]"
    proof -
      have "split_on CHR ''/'' ?d = replicate (length S) ''..''" using dots [of "length S"] 3 by (intro split_join) auto
      then show ?thesis by (simp only: split_on_append_sep) simp
    qed
    moreover have "norm_comps True (S @ replicate (length S) ''..'' @ [[]]) = []"
      using norm_clean [OF assms(1), of "[]"] norm_dots [OF assms(1), of "length S"] by (simp add: norm_comps_def norm_step_def)
    ultimately show ?thesis using d 3 by auto
  next
    case 4
    then have rel: "rel = replicate ?k ''..'' @ drop (common_prefix S P) P" by (simp add: rel_def SL_def PL_def)
    note ud = norm_up_down [OF assms(1,2) refl]
    show ?thesis
    proof (cases "rel = []")
      case True
      then have "norm_comps True (S @ [''.'']) = P" using ud rel by (simp add: norm_comps_def norm_step_def)
      then show ?thesis using r True by simp
    next
      case False
      moreover have "\<forall>w\<in>set rel. w \<noteq> [] \<and> CHR ''/'' \<notin> set w" using cl unfolding rel by auto
      ultimately show ?thesis using words ud rel by auto
    qed
  qed
qed

subsection \<open>Commands\<close>

lemma template_words: "foldl (\<lambda>cmd arg. cmd @ '' '' @ arg) c args = c @ concat (map (\<lambda>a. CHR '' '' # a) args)"
  by (induction args arbitrary: c) auto

lemma join_words: "join_with '' '' (w # ws) = w @ concat (map (\<lambda>a. CHR '' '' # a) ws)"
  by (induction ws arbitrary: w) auto

lemma plain_no_percent: "list_all (\<lambda>a. CHR ''%'' \<notin> set a) args \<Longrightarrow> CHR ''%'' \<notin> set (concat (map (\<lambda>a. CHR '' '' # a) args))"
  by (induction args) auto

text \<open>The command made of the template and the arguments, for plain words.\<close>

lemma run_template:
  assumes "program_of w prog = Inr obj" and "plain_word (program_node obj)" and "list_all plain_word args"
    and "list_all (\<lambda>a. CHR ''%'' \<notin> set a) args" and "\<not> truthy (command_template (options w))"
    and "plain_word prog" and "CHR 92 \<notin> set prog"
  shows "get_run_program w prog (Some (get_command_template (options w) args)) = Inr (prog, program_node obj # args)"
proof -
  let ?t = "get_command_template (options w) args" and ?rest = "concat (map (\<lambda>a. CHR '' '' # a) args)"
  have t: "?t = ''%s'' @ ?rest" using assms(5) template_words [of "''%s''" args] by (simp add: get_command_template_def)
  show ?thesis
  proof (cases "args = []")
    case True
    have "shlex_split prog = Inr [prog]"
      using lex_words [of prog "[]" False "[]"] assms(6,7) by (simp add: shlex_split_def double_backslash_id)
    moreover have "?t = ''%s''" using t True by simp
    ultimately show ?thesis
      using True assms(1) py_nth_nat [of "[prog]" 0] by (simp add: get_run_program_def)
  next
    case False
    then have n: "?rest \<noteq> []" by (cases args) auto
    have "py_format ?t (program_node obj) = Inr (program_node obj @ ?rest)"
      unfolding t by (rule py_format_first) (rule plain_no_percent [OF assms(4)])
    moreover have "shlex_split (double_backslash (program_node obj @ ?rest)) = Inr (program_node obj # args)"
      using lex_words [of "program_node obj" args False "[]"] assms(2,3) by (simp add: shlex_split_def join_words)
    ultimately show ?thesis using assms(1) n by (simp add: get_run_program_def t)
  qed
qed

lemma missing_program:
  assumes "program_of w prog = Inl e" and "\<not> truthy (command_template (options w))"
    and "plain_word prog" and "CHR 92 \<notin> set prog"
  shows "get_run_program w prog (Some (get_command_template (options w) args)) = Inl e"
proof -
  have "shlex_split prog = Inr [prog]"
    using lex_words [of prog "[]" False "[]"] assms(3,4) by (simp add: shlex_split_def double_backslash_id)
  then show ?thesis using assms(1) py_nth_nat [of "[prog]" 0] by (simp add: get_run_program_def)
qed

lemma check_retval_outcome:
  "case check_retval sigs argv r of Inr x \<Rightarrow> r = 0 \<and> x = 0 | Inl e \<Rightarrow> r \<noteq> 0 \<and> (\<exists>m. e = WafError m)"
  by (auto simp: check_retval_def split: option.split)

text \<open>The environment: only the three variables change, and each keeps what it had at its end.\<close>

lemma prepend_path_lookup:
  "map_of (prepend_path sep dirs var env) v =
     (if v = var then Some (join_with sep (case map_of env var of None \<Rightarrow> dirs | Some old \<Rightarrow> dirs @ [old]))
      else map_of env v)"
  by (simp add: prepend_path_def map_of_update_iff)

lemma proc_env_other:
  "v \<notin> {path_var (platform w), ''PYTHONPATH'', ''PATH''} \<Longrightarrow> map_of (get_proc_env w None) v = map_of (os_environ w) v"
  by (simp add: get_proc_env_def Let_def prepend_path_lookup)

text \<open>
  The launch directory is compared as a string, so programs of a sibling directory with a
  longer name are found as well.
\<close>

lemma sibling_program_found:
  "isl (relpath ''/ns3'' [] ''/ns3'') \<and>
   find_among (\<lambda>obj. Inr ''build-old'') ''/ns3/build'' ''hello'' []
     [\<lparr>is_ns3_program = True, src_dir = ''/ns3/build-old'', build_dir = ''/tmp'', target_name = ''hello'', program_node = ''h''\<rparr>] =
   Inr (Inr \<lparr>is_ns3_program = True, src_dir = ''/ns3/build-old'', build_dir = ''/tmp'', target_name = ''hello'', program_node = ''h''\<rparr>)"
  by code_simp

text \<open>
  What \<open>run_argv\<close> is for: whether the command is checked for leaks, whether the options refuse
  it, the command that is started, and whether its error output reports a leak.
\<close>

definition checks_leaks :: "waf \<Rightarrow> bool \<Rightarrow> bool" where
  "checks_leaks w force \<longleftrightarrow> valgrind_opt (options w) \<and> \<not> force"

definition refused :: "waf \<Rightarrow> bool \<Rightarrow> bool" where
  "refused w force \<longleftrightarrow> checks_leaks w force \<and> (truthy (command_template (options w)) \<or> \<not> truthy (valgrind_path w))"

definition started_argv :: "waf \<Rightarrow> bool \<Rightarrow> string list \<Rightarrow> string list" where
  "started_argv w force argv =
     (if checks_leaks w force
      then [the (valgrind_path w), ''--leak-check=full'', ''--show-reachable=yes'', ''--error-exitcode=1''] @ argv
      else argv)"

definition leaks :: "waf \<Rightarrow> bool \<Rightarrow> string list \<Rightarrow> bool" where
  "leaks w force err \<longleftrightarrow> checks_leaks w force \<and> list_ex (has_infix leak_text) err"

lemma run_argv_cases:
  "run_argv w p argv os_env cwd force =
     (if refused w force
      then Inl (WafError (if truthy (command_template (options w))
        then ''Options --command-template and --valgrind are conflicting'' else ''valgrind is not installed''))
      else case popen p (started_argv w force argv) (get_proc_env w os_env) cwd of
        None \<Rightarrow> Inl (if windows p \<and> \<not> checks_leaks w force
          then WafError (''Command '' @ repr_list argv @ '' raised exception WindowsError'') else OSError)
      | Some (retval, err) \<Rightarrow> check_retval (signals p) (started_argv w force argv)
          (if retval = 0 \<and> leaks w force err then 1 else retval))"
  by (auto simp: run_argv_def refused_def started_argv_def leaks_def checks_leaks_def Let_def list_ex_iff
      split: option.split)

lemma check_retval_zero: "check_retval sigs argv r = Inr x \<longleftrightarrow> r = 0 \<and> x = 0"
  "check_retval sigs argv r \<noteq> Inl OSError"
  using check_retval_outcome [where sigs = sigs and argv = argv and r = r] by (auto split: sum.splits simp: check_retval_def)

lemma run_argv_zero:
  "run_argv w p argv os_env cwd force = Inr r \<longleftrightarrow> r = 0 \<and> \<not> refused w force \<and>
     (\<exists>err. popen p (started_argv w force argv) (get_proc_env w os_env) cwd = Some (0, err) \<and> \<not> leaks w force err)"
  by (auto simp: run_argv_cases check_retval_zero split: option.splits if_splits)

lemma run_argv_errors:
  "run_argv w p argv os_env cwd force = Inl e \<Longrightarrow> e = OSError \<or> (\<exists>m. e = WafError m)"
  by (auto simp: run_argv_cases check_retval_def split: option.splits if_splits)

subsection \<open>Properties\<close>

text \<open>
  \<^verbatim>\<open>relpath\<close> returns a relative path that leads from the start directory
  to the given path: joined to the start and normalised it is that path again, also when one
  of them is the root or they share nothing. (Paths that begin with exactly two slashes, which
  \<^verbatim>\<open>normpath\<close> keeps apart, are left out.)
\<close>

theorem relpath_correct:
  assumes "one_root cwd" and "path \<noteq> []"
    and "starts_with path ''/'' \<longrightarrow> one_root path" and "starts_with start ''/'' \<longrightarrow> one_root start"
  shows "\<exists>r. relpath cwd path start = Inr r \<and> \<not> starts_with r ''/'' \<and>
    path_abs d (path_join (path_abs cwd start) r) = path_abs cwd path"
proof -
  obtain S where S: "clean S" "path_abs cwd start = root_path S" using path_abs_root [OF assms(1,4)] by metis
  obtain P where P: "clean P" "path_abs cwd path = root_path P" using path_abs_root [OF assms(1,3)] by metis
  obtain r where r: "relpath cwd path start = Inr r" "r \<noteq> []" "hd r \<noteq> CHR ''/''"
      "norm_comps True (S @ split_on CHR ''/'' r) = P"
    using relpath_parts [OF S(1) P(1) S(2) P(2) assms(2)] by blast
  note j = path_join_root [OF S(1) r(2,3)]
  have "path_abs d (path_join (root_path S) r) = path_norm (path_join (root_path S) r)"
    using j(2) by (simp add: path_abs_def one_root_def)
  also have "\<dots> = root_path P" using path_norm_root [OF j(2)] r(4) by (simp add: j(1) norm_comps_Nil)
  finally have "path_abs d (path_join (path_abs cwd start) r) = path_abs cwd path" using S P by simp
  moreover have "\<not> starts_with r ''/''" using r(2,3) by (cases r) (auto simp: starts_with_def)
  ultimately show ?thesis using r(1) by blast
qed

theorem relpath_correct_witness:
  "relpath ''/home/u/ns3'' ''src/core'' ''/home/u/ns3/build/../utils'' = Inr ''../src/core'' \<and>
   path_abs [] (path_join (path_abs ''/home/u/ns3'' ''/home/u/ns3/build/../utils'') ''../src/core'') =
     path_abs ''/home/u/ns3'' ''src/core''"
proof -
  have "one_root ''/home/u/ns3''" and "''src/core'' \<noteq> []" and "starts_with ''src/core'' ''/'' \<longrightarrow> one_root ''src/core''"
    and "starts_with ''/home/u/ns3/build/../utils'' ''/'' \<longrightarrow> one_root ''/home/u/ns3/build/../utils''" by code_simp+
  from relpath_correct [OF this, of "[]"] obtain r where
    r: "relpath ''/home/u/ns3'' ''src/core'' ''/home/u/ns3/build/../utils'' = Inr r"
      "path_abs [] (path_join (path_abs ''/home/u/ns3'' ''/home/u/ns3/build/../utils'') r) = path_abs ''/home/u/ns3'' ''src/core''"
    by blast
  have "relpath ''/home/u/ns3'' ''src/core'' ''/home/u/ns3/build/../utils'' = Inr ''../src/core''" by code_simp
  with r show ?thesis by (simp only: sum.inject)
qed

text \<open>
  C40. \<^verbatim>\<open>run_argv\<close> returns 0 or raises. It returns 0 exactly when the options do
  not refuse the command, the process (under valgrind, if asked for) could be started and
  ended with 0, and valgrind reported no leak. It raises OSError exactly when the process
  could not be started, on Windows only under valgrind; everything else is a WafError.
\<close>

theorem run_argv_outcome:
  "(run_argv w p argv os_env cwd force = Inr 0 \<longleftrightarrow> \<not> refused w force \<and>
     (\<exists>err. popen p (started_argv w force argv) (get_proc_env w os_env) cwd = Some (0, err) \<and> \<not> leaks w force err)) \<and>
   (run_argv w p argv os_env cwd force = Inl OSError \<longleftrightarrow> \<not> refused w force \<and>
     popen p (started_argv w force argv) (get_proc_env w os_env) cwd = None \<and> (if windows p then checks_leaks w force else True)) \<and>
   (case run_argv w p argv os_env cwd force of Inr r \<Rightarrow> r = 0 | Inl e \<Rightarrow> e = OSError \<or> (\<exists>m. e = WafError m))"
proof (intro conjI)
  show "run_argv w p argv os_env cwd force = Inr 0 \<longleftrightarrow> \<not> refused w force \<and>
     (\<exists>err. popen p (started_argv w force argv) (get_proc_env w os_env) cwd = Some (0, err) \<and> \<not> leaks w force err)"
    unfolding run_argv_zero by simp
  show "run_argv w p argv os_env cwd force = Inl OSError \<longleftrightarrow> \<not> refused w force \<and>
     popen p (started_argv w force argv) (get_proc_env w os_env) cwd = None \<and> (if windows p then checks_leaks w force else True)"
    by (auto simp: run_argv_cases check_retval_zero split: option.splits)
  show "case run_argv w p argv os_env cwd force of Inr r \<Rightarrow> r = 0 | Inl e \<Rightarrow> e = OSError \<or> (\<exists>m. e = WafError m)"
    using run_argv_errors [of w p argv os_env cwd force] run_argv_zero [of w p argv os_env cwd force]
    by (cases "run_argv w p argv os_env cwd force") auto
qed

end
