(* ===== verification/WafTools.thy ===== *)
theory WafTools
  imports ShellCmd PyLib
begin

section \<open>The waf tools: compiler flags, pkg-config and command tasks\<close>

text \<open>
  \<^verbatim>\<open>waf-tools/cflags.py\<close>, \<^verbatim>\<open>waf-tools/pkgconfig.py\<close> and \<^verbatim>\<open>waf-tools/command.py\<close>. Waf itself
  (its environment, nodes, configuration checks and errors) and the processes are parameters or
  plain records; the command tasks run through \<^theory_text>\<open>ShellCmd\<close>.
\<close>

subsection \<open>\<^verbatim>\<open>cflags.py\<close>\<close>

datatype traits = Gcc | Icc | Msvc

fun warnings_table :: "traits \<Rightarrow> string list list" where
  "warnings_table Gcc = [[''-Wall''], [''-Werror''], [''-Wextra'']]"
| "warnings_table Icc = [[], [], [''-Wall'']]"
| "warnings_table Msvc = [[''/W2''], [''/WX''], [''/Wall'']]"

text \<open>The loop over the levels ends at the first one the table does not have.\<close>

fun warnings_from :: "string list list \<Rightarrow> nat list \<Rightarrow> string list" where
  "warnings_from table [] = []"
| "warnings_from table (l # ls) = (if l < length table then table ! l @ warnings_from table ls else [])"

definition get_warnings_flags :: "traits \<Rightarrow> int \<Rightarrow> string list" where
  "get_warnings_flags t level = warnings_from (warnings_table t) [0..<nat level]"

text \<open>A level without a branch returns \<^verbatim>\<open>None\<close>. The classes for gcc and icc repeat each other.\<close>

definition gcc_optimization_flags :: "int \<Rightarrow> string list option" where
  "gcc_optimization_flags level =
     (if level = 0 then Some [''-O0''] else if level = 1 then Some [''-O''] else if level = 2 then Some [''-O2''] else if level = 3 then Some [''-O3''] else None)"

definition icc_optimization_flags :: "int \<Rightarrow> string list option" where
  "icc_optimization_flags level =
     (if level = 0 then Some [''-O0''] else if level = 1 then Some [''-O''] else if level = 2 then Some [''-O2''] else if level = 3 then Some [''-O3''] else None)"

definition msvc_optimization_flags :: "int \<Rightarrow> string list option" where
  "msvc_optimization_flags level =
     (if level = 0 then Some [''/Od''] else if level = 1 then Some [] else if level = 2 then Some [''/O2''] else if level = 3 then Some [''/Ox''] else None)"

definition gcc_debug_flags :: "int \<Rightarrow> (string list \<times> string list) option" where
  "gcc_debug_flags level =
     (if level = 0 then Some ([''-g0''], [''NDEBUG'']) else if level = 1 then Some ([''-g''], [])
      else if level \<ge> 2 then Some ([''-ggdb'', ''-g3''], [''_DEBUG'']) else None)"

definition icc_debug_flags :: "int \<Rightarrow> (string list \<times> string list) option" where
  "icc_debug_flags level =
     (if level = 0 then Some ([''-g0''], [''NDEBUG'']) else if level = 1 then Some ([''-g''], [])
      else if level \<ge> 2 then Some ([''-ggdb'', ''-g3''], [''_DEBUG'']) else None)"

definition msvc_debug_flags :: "int \<Rightarrow> (string list \<times> string list) option" where
  "msvc_debug_flags level =
     (if level = 0 then Some ([], [''NDEBUG'']) else if level = 1 then Some ([''/ZI'', ''/RTC1''], [])
      else if level \<ge> 2 then Some ([''/ZI'', ''/RTC1''], [''_DEBUG'']) else None)"

fun get_optimization_flags :: "traits \<Rightarrow> int \<Rightarrow> string list option" where
  "get_optimization_flags Gcc = gcc_optimization_flags"
| "get_optimization_flags Icc = icc_optimization_flags"
| "get_optimization_flags Msvc = msvc_optimization_flags"

fun get_debug_flags :: "traits \<Rightarrow> int \<Rightarrow> (string list \<times> string list) option" where
  "get_debug_flags Gcc = gcc_debug_flags"
| "get_debug_flags Icc = icc_debug_flags"
| "get_debug_flags Msvc = msvc_debug_flags"

lemmas level_flags = gcc_optimization_flags_def icc_optimization_flags_def msvc_optimization_flags_def
  gcc_debug_flags_def icc_debug_flags_def msvc_debug_flags_def

definition compiler_mapping :: "(string, traits) dict" where
  "compiler_mapping = [(''gcc'', Gcc), (''g++'', Gcc), (''msvc'', Msvc), (''icc'', Icc), (''icpc'', Icc)]"

definition profiles :: "(string, int \<times> int \<times> int) dict" where
  "profiles = [(''default'', (2, 1, 1)), (''debug'', (0, 2, 3)), (''release'', (3, 1, 0))]"

text \<open>The variables of the environment the tool reads and writes; a missing compiler is the empty string.\<close>

record flags_env =
  compiler_cc :: string
  compiler_cxx :: string
  ccflags :: "string list"
  ccdefines :: "string list"
  cxxflags :: "string list"
  cxxdefines :: "string list"

definition find_compiler :: "flags_env \<Rightarrow> traits option" where
  "find_compiler e =
     (case map_of compiler_mapping (compiler_cc e) of
        Some t \<Rightarrow> Some t
      | None \<Rightarrow> map_of compiler_mapping (compiler_cxx e))"

text \<open>
  The result is \<^verbatim>\<open>False\<close> if there is only the warning about the compiler. A level without flags
  would be appended as \<^verbatim>\<open>None\<close>; no profile has one.
\<close>

definition cflags_detect :: "string \<Rightarrow> flags_env \<Rightarrow> (bool \<times> flags_env) res" where
  "cflags_detect build_profile e =
     (if compiler_cc e = [] \<and> compiler_cxx e = [] then
        Inl (WafError (''neither COMPILER_CC nor COMPILER_CXX are defined; '' @
          ''maybe the compiler_cc or compiler_cxx tool has not been configured yet?''))
      else case find_compiler e of None \<Rightarrow> Inr (False, e)
      | Some t \<Rightarrow>
        (case map_of profiles build_profile of None \<Rightarrow> Inl KeyError
         | Some (opt_level, warn_level, dbg_level) \<Rightarrow>
           (case (get_optimization_flags t opt_level, get_debug_flags t dbg_level) of
              (Some optimizations, Some (debug, debug_defs)) \<Rightarrow>
                let warnings = get_warnings_flags t warn_level;
                    flags = optimizations @ debug @ warnings;
                    e1 = (if compiler_cc e \<noteq> [] \<and> ccflags e = []
                          then e\<lparr>ccflags := ccflags e @ flags, ccdefines := ccdefines e @ debug_defs\<rparr> else e);
                    e2 = (if compiler_cxx e \<noteq> [] \<and> cxxflags e1 = []
                          then e1\<lparr>cxxflags := cxxflags e1 @ flags, cxxdefines := cxxdefines e1 @ debug_defs\<rparr> else e1)
                in Inr (True, e2)
            | _ \<Rightarrow> Inl TypeError)))"

lemma warnings_from_take: "i \<le> j \<Longrightarrow> warnings_from table [i..<j] = concat (take (j - i) (drop i table))"
proof (induction "j - i" arbitrary: i)
  case (Suc n)
  then have up: "[i..<j] = i # [Suc i..<j]" by (simp add: upt_conv_Cons)
  show ?case
  proof (cases "i < length table")
    case True
    then have "drop i table = table ! i # drop (Suc i) table" by (simp add: Cons_nth_drop_Suc)
    moreover have "take (j - i) (table ! i # drop (Suc i) table) = table ! i # take (j - Suc i) (drop (Suc i) table)"
      using Suc.hyps(2) by (simp add: take_Cons')
    moreover have "warnings_from table [Suc i..<j] = concat (take (j - Suc i) (drop (Suc i) table))"
      by (rule Suc.hyps(1)) (use Suc.hyps(2) in auto)
    ultimately show ?thesis using up True by simp
  qed (simp add: up)
qed simp

text \<open>The warnings of a level are those of the levels below it and its own.\<close>

lemma warnings_cumulative:
  "get_warnings_flags t level = concat (take (nat level) (warnings_table t))"
  using warnings_from_take [of 0 "nat level" "warnings_table t"] by (simp add: get_warnings_flags_def)

definition profile_flags :: "traits \<Rightarrow> string \<Rightarrow> string list \<times> string list" where
  "profile_flags t p =
     (case map_of profiles p of None \<Rightarrow> ([], [])
      | Some (opt, warn, dbg) \<Rightarrow>
        (the (get_optimization_flags t opt) @ fst (the (get_debug_flags t dbg)) @ get_warnings_flags t warn,
         snd (the (get_debug_flags t dbg))))"

lemma profile_cases:
  assumes "map_of profiles p = Some v"
  shows "p = ''default'' \<and> v = (2, 1, 1) \<or> p = ''debug'' \<and> v = (0, 2, 3) \<or> p = ''release'' \<and> v = (3, 1, 0)"
  using assms by (auto simp: profiles_def split: if_splits)

lemma profile_known:
  assumes "map_of profiles p = Some (opt, warn, dbg)"
  shows "\<exists>fs. get_optimization_flags t opt = Some fs \<and> fs \<noteq> []" "\<exists>ds. get_debug_flags t dbg = Some ds"
  using profile_cases [OF assms] by (cases t; auto simp: level_flags)+

text \<open>What \<^verbatim>\<open>detect\<close> should do with the flags and defines of a profile.\<close>

definition give_flags :: "string list \<Rightarrow> string list \<Rightarrow> flags_env \<Rightarrow> flags_env" where
  "give_flags fs ds e =
     (let cc = (compiler_cc e \<noteq> [] \<and> ccflags e = []); cxx = (compiler_cxx e \<noteq> [] \<and> cxxflags e = [])
      in e\<lparr>ccflags := (if cc then fs else ccflags e), ccdefines := (if cc then ccdefines e @ ds else ccdefines e),
           cxxflags := (if cxx then fs else cxxflags e), cxxdefines := (if cxx then cxxdefines e @ ds else cxxdefines e)\<rparr>)"

lemma give_flags_twice: "fs \<noteq> [] \<Longrightarrow> give_flags fs ds (give_flags fs ds e) = give_flags fs ds e"
  by (cases e) (simp add: give_flags_def Let_def)

lemma give_flags_compilers [simp]:
  "compiler_cc (give_flags fs ds e) = compiler_cc e" "compiler_cxx (give_flags fs ds e) = compiler_cxx e"
  by (simp_all add: give_flags_def Let_def)

lemma find_compiler_give [simp]: "find_compiler (give_flags fs ds e) = find_compiler e"
  by (simp add: find_compiler_def split: option.split)

lemma detect_eq:
  assumes "map_of profiles p = Some v" and "find_compiler e = Some t" and "compiler_cc e \<noteq> [] \<or> compiler_cxx e \<noteq> []"
  shows "cflags_detect p e = Inr (True, give_flags (fst (profile_flags t p)) (snd (profile_flags t p)) e)"
proof -
  obtain opt warn dbg where v: "v = (opt, warn, dbg)" by (cases v)
  obtain fs ds where "get_optimization_flags t opt = Some fs" "get_debug_flags t dbg = Some ds"
    using profile_known [of p opt warn dbg t] assms(1) v by blast
  then show ?thesis using assms
    by (cases e) (simp add: cflags_detect_def profile_flags_def give_flags_def v Let_def split: prod.split)
qed

lemma profile_flags_nonempty: "map_of profiles p = Some v \<Longrightarrow> fst (profile_flags t p) \<noteq> []"
  using profile_known(1) [of p "fst v" "fst (snd v)" "snd (snd v)" t] by (cases v) (auto simp: profile_flags_def)

text \<open>
  For a build profile of the table and a compiler that is configured, \<^verbatim>\<open>detect\<close>
  never fails: it gives each configured compiler without flags of the user the flags and defines
  of the profile, and changes nothing else; a second call changes nothing at all. Unknown
  compilers are left alone.
\<close>

theorem cflags_correct:
  assumes "has_key profiles p" and "compiler_cc e \<noteq> [] \<or> compiler_cxx e \<noteq> []"
  shows "\<exists>known e'. cflags_detect p e = Inr (known, e') \<and> cflags_detect p e' = Inr (known, e') \<and>
    (case find_compiler e of None \<Rightarrow> \<not> known \<and> e' = e
     | Some t \<Rightarrow> known \<and> e' = give_flags (fst (profile_flags t p)) (snd (profile_flags t p)) e)"
proof -
  obtain v where p: "map_of profiles p = Some v" using assms(1) by (auto simp: dict_simps)
  show ?thesis
  proof (cases "find_compiler e")
    case None
    then show ?thesis using assms(2) by (intro exI [of _ False] exI [of _ e]) (auto simp: cflags_detect_def)
  next
    case (Some t)
    then show ?thesis
      using detect_eq [OF p, of e t] detect_eq [OF p, of "give_flags (fst (profile_flags t p)) (snd (profile_flags t p)) e" t]
        give_flags_twice [OF profile_flags_nonempty [OF p]] assms(2)
      by (intro exI [of _ True] exI [of _ "give_flags (fst (profile_flags t p)) (snd (profile_flags t p)) e"]) simp
  qed
qed

theorem cflags_correct_witness:
  "cflags_detect ''release'' \<lparr>compiler_cc = ''gcc'', compiler_cxx = ''g++'', ccflags = [''-O1''], ccdefines = [], cxxflags = [], cxxdefines = []\<rparr> =
   Inr (True, \<lparr>compiler_cc = ''gcc'', compiler_cxx = ''g++'', ccflags = [''-O1''], ccdefines = [],
     cxxflags = [''-O3'', ''-g0'', ''-Wall''], cxxdefines = [''NDEBUG'']\<rparr>)"
proof -
  let ?e = "\<lparr>compiler_cc = ''gcc'', compiler_cxx = ''g++'', ccflags = [''-O1''], ccdefines = [], cxxflags = [], cxxdefines = []\<rparr>"
  have e: "has_key profiles ''release''" "find_compiler ?e = Some Gcc" "profile_flags Gcc ''release'' = ([''-O3'', ''-g0'', ''-Wall''], [''NDEBUG''])"
    by code_simp+
  show ?thesis using cflags_correct [OF e(1), of ?e] e(2,3) by (simp add: give_flags_def) auto
qed

subsection \<open>\<^verbatim>\<open>pkgconfig.py\<close>\<close>

text \<open>
  The configuration context: the path of \<^verbatim>\<open>pkg-config\<close> if it was found, the variables of
  the environment with the flags of a library, the log and the messages of the checks.
  \<^verbatim>\<open>Popen\<close> returns the exit code and the output, or nothing if the program does not start;
  \<^verbatim>\<open>config_c.parse_flags\<close> is waf's. \<^verbatim>\<open>conf.fatal\<close> raises ConfigurationError.
\<close>

datatype waf_message = CheckCustom string string string | CheckMessage string string bool "string option"

record configure =
  pkg_config :: "string option"
  uselibs :: "(string, bool) dict"
  lib_flags :: "(string, string) dict"
  conf_log :: string
  messages :: "waf_message list"

definition configuration_error :: "string \<Rightarrow> py_exc" where
  "configuration_error msg = PyException (''ConfigurationError: '' @ msg)"

definition log_line :: "string list \<Rightarrow> string \<Rightarrow> int \<Rightarrow> string" where
  "log_line line out retval = repr_list line @ '': '' @ py_repr out @ '' (exit code '' @ int_str retval @ '')\<newline>''"

type_synonym pkg_process = "string list \<Rightarrow> (int \<times> string) option"

definition pkg_detect :: "(string \<Rightarrow> string option) \<Rightarrow> configure \<Rightarrow> configure" where
  "pkg_detect find_program c = c\<lparr>pkg_config := find_program ''pkg-config''\<rparr>"

definition pkg_check_modules ::
  "pkg_process \<Rightarrow> (string \<Rightarrow> (string, string) dict \<Rightarrow> string \<Rightarrow> (string, string) dict) \<Rightarrow> bool
    \<Rightarrow> string \<Rightarrow> string \<Rightarrow> bool \<Rightarrow> configure \<Rightarrow> configure \<times> bool res" where
  "pkg_check_modules proc parse_flags verbose uselib_name expression mandatory c =
     (case pkg_config c of None \<Rightarrow>
        (c, if mandatory then Inl (configuration_error ''pkg-config is not available'') else Inr False)
      | Some pkg \<Rightarrow>
        let line = [pkg, ''--cflags'', ''--libs'', expression] in
        (case proc line of None \<Rightarrow> (c, Inl OSError)
         | Some (retval, out) \<Rightarrow>
           let checking = ''pkg-config flags for '' @ uselib_name;
               msg = (if verbose then
                        (if retval = 0 then CheckCustom checking (''('' @ expression @ '')'') out
                         else CheckMessage checking (''('' @ expression @ '')'') False None)
                      else CheckMessage checking '''' (retval = 0) (Some ''''));
               c = c\<lparr>messages := messages c @ [msg], conf_log := conf_log c @ log_line line out retval\<rparr>
           in if retval = 0 then
                (c\<lparr>lib_flags := parse_flags out (lib_flags c) uselib_name, uselibs := AList.update uselib_name True (uselibs c)\<rparr>, Inr True)
              else
                (c\<lparr>uselibs := AList.update uselib_name False (uselibs c)\<rparr>,
                 if mandatory then Inl (configuration_error ''pkg-config check failed'') else Inr False)))"

definition pkg_check_module_variable :: "pkg_process \<Rightarrow> string \<Rightarrow> string \<Rightarrow> configure \<Rightarrow> configure \<times> string res" where
  "pkg_check_module_variable proc module variable c =
     (case pkg_config c of None \<Rightarrow> (c, Inl (configuration_error ''pkg-config is not available''))
      | Some pkg \<Rightarrow>
        let line = [pkg, ''--variable'', variable, module] in
        (case proc line of None \<Rightarrow> (c, Inl OSError)
         | Some (retval, out) \<Rightarrow>
           let out = rstrip out;
               checking = ''pkg-config variable '' @ py_repr variable @ '' in '' @ module;
               c = c\<lparr>messages := messages c @ [CheckCustom checking '''' out], conf_log := conf_log c @ log_line line out retval\<rparr>
           in (c, if retval = 0 then Inr out else Inl (configuration_error ''pkg-config check failed''))))"

text \<open>
  A library is marked as found exactly when the check returned True, and an optional check
  raises nothing once \<^verbatim>\<open>pkg-config\<close> starts.
\<close>

lemma pkg_check_modules_outcome:
  assumes "pkg_check_modules proc pf v lib expr mandatory c = (c', r)" and "pkg_config c = Some pkg"
    and "proc [pkg, ''--cflags'', ''--libs'', expr] = Some (retval, out)"
  shows "map_of (uselibs c') lib = Some (r = Inr True) \<and> (r = Inr True \<longleftrightarrow> retval = 0) \<and>
    (mandatory \<or> r = Inr (retval = 0)) \<and> (\<forall>other. other \<noteq> lib \<longrightarrow> map_of (uselibs c') other = map_of (uselibs c) other)"
  using assms by (auto simp: pkg_check_modules_def Let_def dict_simps split: if_splits)

subsection \<open>\<^verbatim>\<open>command.py\<close>: substitution\<close>

text \<open>
  The value of an expression in a command: a node of waf (with its path in the source and in the
  build tree), the list of the inputs or outputs itself, a string, \<^verbatim>\<open>None\<close> or another object.
  Evaluating the expression is a parameter.
\<close>

record waf_node =
  srcpath :: string
  bldpath :: string

datatype subst_value = VNode waf_node | VInputs | VOutputs | VString string | VNone | VOther

text \<open>
  The second alternative of \<^verbatim>\<open>arg_rx\<close> after \<^verbatim>\<open>${\<close>: a name, the code up to the first closing brace
  in the same line, and the rest of the text.
\<close>

definition match_subst :: "string \<Rightarrow> (string \<times> string \<times> string) option" where
  "match_subst s =
     (let var = takeWhile is_word s; rest = dropWhile is_word s;
          code = takeWhile (\<lambda>c. c \<noteq> CHR ''}'' \<and> c \<noteq> CHR ''\<newline>'') rest;
          tail = dropWhile (\<lambda>c. c \<noteq> CHR ''}'' \<and> c \<noteq> CHR ''\<newline>'') rest
      in if var \<noteq> [] \<and> tail \<noteq> [] \<and> hd tail = CHR ''}'' then Some (var, code, tl tail) else None)"

lemma match_subst_shorter:
  assumes "match_subst s = Some (var, code, rest)"
  shows "length rest < length s"
proof -
  define after where "after = dropWhile is_word s"
  define tail where "tail = dropWhile (\<lambda>c. c \<noteq> CHR ''}'' \<and> c \<noteq> CHR ''\<newline>'') after"
  have "tail \<noteq> []" "rest = tl tail"
    using assms by (auto simp: match_subst_def Let_def tail_def after_def split: if_splits)
  then have "length rest < length tail" by simp
  also have "length tail \<le> length after" unfolding tail_def by (rule length_dropWhile_le)
  also have "length after \<le> length s" unfolding after_def by (rule length_dropWhile_le)
  finally show ?thesis .
qed

text \<open>The text that replaces a match; \<^verbatim>\<open>re.sub\<close> takes \<^verbatim>\<open>None\<close> for the empty string.\<close>

definition subst_repl :: "(string \<Rightarrow> subst_value res) \<Rightarrow> waf_node list \<Rightarrow> waf_node list \<Rightarrow> string \<Rightarrow> string \<Rightarrow> string res" where
  "subst_repl ev inputs outputs var code =
     rbind (ev (var @ code)) (\<lambda>v. case v of
       VNode n \<Rightarrow> if var = ''TGT'' then Inr (bldpath n) else if var = ''SRC'' then Inr (srcpath n) else Inl ValueError
     | VInputs \<Rightarrow> (case inputs of [n] \<Rightarrow> Inr (srcpath n) | _ \<Rightarrow> Inl ValueError)
     | VOutputs \<Rightarrow> (case outputs of [n] \<Rightarrow> Inr (bldpath n) | _ \<Rightarrow> Inl ValueError)
     | VString s \<Rightarrow> Inr s
     | VNone \<Rightarrow> Inr []
     | VOther \<Rightarrow> Inl TypeError)"

function subst_arg :: "(string \<Rightarrow> string \<Rightarrow> string res) \<Rightarrow> string \<Rightarrow> string res" where
  "subst_arg repl [] = Inr []"
| "subst_arg repl (c # s) =
     (if c = CHR ''$'' \<and> s \<noteq> [] \<and> hd s = CHR ''$'' then rbind (subst_arg repl (tl s)) (\<lambda>t. Inr (CHR ''$'' # t))
      else case (if c = CHR ''$'' \<and> s \<noteq> [] \<and> hd s = CHR ''{'' then match_subst (tl s) else None) of
        Some (var, code, rest) \<Rightarrow>
          rbind (repl var code) (\<lambda>r. rbind (subst_arg repl rest) (\<lambda>t. Inr (r @ t)))
      | None \<Rightarrow> rbind (subst_arg repl s) (\<lambda>t. Inr (c # t)))"
  by pat_completeness auto
termination
  by (relation "measure (\<lambda>(repl, s). length s)")
    (auto split: if_splits dest!: match_subst_shorter)

lemma subst_arg_match:
  assumes "match_subst s = Some (var, code, rest)"
  shows "subst_arg repl (''${'' @ s) = rbind (repl var code) (\<lambda>r. rbind (subst_arg repl rest) (\<lambda>t. Inr (r @ t)))"
  using assms by simp

text \<open>Text without a dollar is not changed, and a doubled dollar stands for itself.\<close>

definition escape_dollar :: "string \<Rightarrow> string" where
  "escape_dollar s = concat (map (\<lambda>c. if c = CHR ''$'' then ''$$'' else [c]) s)"

lemma subst_plain: "CHR ''$'' \<notin> set s \<Longrightarrow> subst_arg repl s = Inr s"
  by (induction s) auto

lemma subst_escape: "subst_arg repl (escape_dollar s) = Inr s"
  by (induction s) (auto simp: escape_dollar_def)

interpretation dollar: codec escape_dollar "subst_arg repl" "\<lambda>s. True" for repl
  by unfold_locales (rule subst_escape)


subsection \<open>\<^verbatim>\<open>command.py\<close>: running a command task\<close>

fun subst_redirect :: "(string \<Rightarrow> string res) \<Rightarrow> redirect \<Rightarrow> redirect res" where
  "subst_redirect sub (RFile f) = rbind (sub f) (\<lambda>g. Inr (RFile g))"
| "subst_redirect sub r = Inr r"

definition subst_command :: "(string \<Rightarrow> string res) \<Rightarrow> command \<Rightarrow> command res" where
  "subst_command sub c =
     rbind (subst_redirect sub (stdin c)) (\<lambda>i.
     rbind (subst_redirect sub (stdout c)) (\<lambda>out.
     rbind (subst_redirect sub (stderr c)) (\<lambda>err.
     rbind (rmap sub (argv c)) (\<lambda>args.
     rbind (rmap (\<lambda>(n, v). rbind (sub v) (\<lambda>v'. Inr (n, v'))) (env_vars c)) (\<lambda>env.
       Inr (c\<lparr>stdin := i, stdout := out, stderr := err, argv := args, env_vars := env\<rparr>))))))"

text \<open>\<^verbatim>\<open>cd\<close> without a directory has none to substitute in.\<close>

fun subst_node :: "(string \<Rightarrow> string res) \<Rightarrow> node \<Rightarrow> node res" where
  "subst_node sub (Cmd c) = rbind (subst_command sub c) (\<lambda>c'. Inr (Cmd c'))"
| "subst_node sub (Chdir (Some d)) = rbind (sub d) (\<lambda>d'. Inr (Chdir (Some d')))"
| "subst_node sub (Chdir None) = Inl TypeError"
| "subst_node sub n = Inr n"

record command_task =
  t_command :: "string + string list"
  t_variables :: "(string, subst_value) dict option"
  t_env :: "(string, subst_value) dict"
  t_inputs :: "waf_node list"
  t_outputs :: "waf_node list"

definition dict_update :: "('k, 'v) dict \<Rightarrow> ('k, 'v) dict \<Rightarrow> ('k, 'v) dict" where
  "dict_update d news = foldl (\<lambda>d (k, v). AList.update k v d) d news"

definition task_namespace :: "command_task \<Rightarrow> (string, subst_value) dict" where
  "task_namespace t =
     (let ns = (case t_variables t of None \<Rightarrow> t_env t | Some vs \<Rightarrow> dict_update (t_env t) vs)
      in dict_update ns [(''env'', VOther), (''SRC'', VInputs), (''TGT'', VOutputs)])"

definition task_subst :: "((string, subst_value) dict \<Rightarrow> string \<Rightarrow> subst_value res) \<Rightarrow> command_task \<Rightarrow> string \<Rightarrow> string res" where
  "task_subst eval t = subst_arg (subst_repl (eval (task_namespace t)) (t_inputs t) (t_outputs t))"

definition command_run ::
  "((string, subst_value) dict \<Rightarrow> string \<Rightarrow> subst_value res) \<Rightarrow> world \<Rightarrow> int \<Rightarrow> command_task \<Rightarrow> run_state \<times> int option res" where
  "command_run eval w verbose t =
     (case rbind (parse shlex_split (t_command t)) (rmap (subst_node (task_subst eval t))) of
        Inl e \<Rightarrow> (run_init, Inl e)
      | Inr nodes \<Rightarrow> run w (verbose > 0) nodes)"

text \<open>\<^verbatim>\<open>nice_path\<close> of a node is a parameter.\<close>

definition command_str :: "(waf_node \<Rightarrow> string) \<Rightarrow> command_task \<Rightarrow> string res" where
  "command_str nice_path t =
     (let src = join_with '' '' (map nice_path (t_inputs t)); tgt = join_with '' '' (map nice_path (t_outputs t));
          sep = (if t_outputs t \<noteq> [] then '' -> '' else '''')
      in rbind (parse shlex_split (t_command t)) (\<lambda>p.
           Inr (''command ('' @ get_abbreviated_command p @ ''): '' @ src @ sep @ tgt @ ''\<newline>'')))"

text \<open>A source that does not exist stops the configuration; a target is declared.\<close>

definition apply_command ::
  "(string \<Rightarrow> waf_node option) \<Rightarrow> (string \<Rightarrow> waf_node) \<Rightarrow> string list \<Rightarrow> string list \<Rightarrow> string + string list
    \<Rightarrow> (string, subst_value) dict option \<Rightarrow> (string, subst_value) dict \<Rightarrow> command_task res" where
  "apply_command find_resource find_or_declare sources targets cmd vars env =
     rbind (rmap (\<lambda>src. case find_resource src of
              None \<Rightarrow> Inl (WafError (''source '' @ src @ '' not found'')) | Some n \<Rightarrow> Inr n) sources) (\<lambda>ins.
       Inr \<lparr>t_command = cmd, t_variables = vars, t_env = env, t_inputs = ins, t_outputs = map find_or_declare targets\<rparr>)"

subsection \<open>Commands with escaped dollars\<close>

fun escape_redirect :: "redirect \<Rightarrow> redirect" where
  "escape_redirect (RFile f) = RFile (escape_dollar f)"
| "escape_redirect r = r"

fun escape_node :: "node \<Rightarrow> node" where
  "escape_node (Cmd c) = Cmd (c\<lparr>argv := map escape_dollar (argv c), stdin := escape_redirect (stdin c),
     stdout := escape_redirect (stdout c), stderr := escape_redirect (stderr c),
     env_vars := map (map_prod id escape_dollar) (env_vars c)\<rparr>)"
| "escape_node (Chdir d) = Chdir (map_option escape_dollar d)"
| "escape_node n = n"

lemma escape_plain: "CHR ''$'' \<notin> set s \<Longrightarrow> escape_dollar s = s"
  by (induction s) (auto simp: escape_dollar_def)

lemma escape_set: "set (escape_dollar s) = set s"
  by (auto simp: escape_dollar_def)

lemma escape_Nil [simp]: "escape_dollar s = [] \<longleftrightarrow> s = []"
  by (cases s) (simp_all add: escape_dollar_def)

lemma escape_eq_plain: "CHR ''$'' \<notin> set u \<Longrightarrow> escape_dollar s = u \<longleftrightarrow> s = u"
  using escape_set [of s] escape_plain by auto

lemma escape_redirect_shape [simp]:
  "escape_redirect r = RPipe \<longleftrightarrow> r = RPipe" "escape_redirect r = RStdout \<longleftrightarrow> r = RStdout"
  by (cases r; simp)+

definition plain_names :: "node list \<Rightarrow> bool" where
  "plain_names p \<longleftrightarrow> list_all (\<lambda>n. case n of Cmd c \<Rightarrow> CHR ''$'' \<notin> set (name c) | Chdir d \<Rightarrow> d \<noteq> None | _ \<Rightarrow> True) p"

lemma escape_command_wf:
  assumes "wf_command c" and "CHR ''$'' \<notin> set (name c)"
  shows "case escape_node (Cmd c) of Cmd d \<Rightarrow> wf_command d \<and> (stdout d = RPipe \<longleftrightarrow> stdout c = RPipe) | _ \<Rightarrow> False"
proof -
  obtain args where args: "argv c = name c # args" "set args \<inter> set operator_tokens = {}" using assms(1) by (auto simp: wf_command_def)
  have ops: "escape_dollar a \<notin> set operator_tokens" if "a \<in> set args" for a
  proof -
    have "CHR ''$'' \<notin> set u" if "u \<in> set operator_tokens" for u using that by (auto simp: operator_tokens_def)
    then show ?thesis using escape_eq_plain args(2) \<open>a \<in> set args\<close> by (metis disjoint_iff)
  qed
  have env: "wf_env (map (map_prod id escape_dollar) (env_vars c))"
    using assms(1) escape_set by (fastforce simp: wf_command_def wf_env_def dict_ok_def list_all_iff comp_def)
  show ?thesis using assms env args ops
    by (auto simp: wf_command_def escape_plain intro!: exI [of _ "map escape_dollar args"])
qed

lemma escape_wf: "wf_pipeline p \<Longrightarrow> plain_names p \<Longrightarrow> wf_pipeline (map escape_node p)"
proof (induction p rule: wf_pipeline.induct)
  case (1 c)
  then show ?case using escape_command_wf [of c] by (simp add: plain_names_def)
next
  case (2 d)
  then show ?case by (cases d) (simp_all add: escape_eq_plain)
next
  case (3 c op rest)
  then show ?case using escape_command_wf [of c] by (cases op) (auto simp: plain_names_def)
next
  case (4 d op rest)
  then show ?case by (cases d) (simp_all add: escape_eq_plain plain_names_def)
qed simp_all

lemma rmap_left_inverse: "(\<And>x. x \<in> set xs \<Longrightarrow> f (g x) = Inr x) \<Longrightarrow> rmap f (map g xs) = Inr xs"
  by (induction xs) auto

lemma subst_escape_node:
  assumes "plain_names [n]"
  shows "subst_node (subst_arg repl) (escape_node n) = Inr n"
proof (cases n)
  case (Cmd c)
  have red: "subst_redirect (subst_arg repl) (escape_redirect r) = Inr r" for r
    by (cases r) (simp_all add: subst_escape)
  have args: "rmap (subst_arg repl) (map escape_dollar xs) = Inr xs" for xs
    by (rule rmap_left_inverse) (rule subst_escape)
  have env: "rmap (\<lambda>(n, v). rbind (subst_arg repl v) (\<lambda>v'. Inr (n, v'))) (map (map_prod id escape_dollar) d) = Inr d" for d :: "(string, string) dict"
    by (rule rmap_left_inverse) (auto simp: subst_escape)
  show ?thesis by (simp add: Cmd subst_command_def red args env)
next
  case (Chdir d)
  then show ?thesis using assms by (cases d) (simp_all add: plain_names_def subst_escape)
qed simp_all

text \<open>
  C16. For a well-formed pipeline whose program names contain no dollar, the task
  whose command is its printed form with every dollar doubled runs exactly that pipeline,
  whatever the sources, targets and variables are.
\<close>

theorem command_run_exact:
  assumes "wf_pipeline p" and "plain_names p" and "t_command t = Inr (render (map escape_node p))"
  shows "command_run eval w verbose t = run w (verbose > 0) p"
proof -
  have parsed: "parse shlex_split (t_command t) = Inr (map escape_node p)"
    using parse_render [OF escape_wf [OF assms(1,2)]] assms(3) by (simp add: parse_def)
  have "plain_names [n]" if "n \<in> set p" for n using assms(2) that by (auto simp: plain_names_def list_all_iff)
  then have "rmap (subst_node (task_subst eval t)) (map escape_node p) = Inr p"
    unfolding task_subst_def by (intro rmap_left_inverse subst_escape_node)
  then show ?thesis by (simp add: command_run_def parsed)
qed

theorem command_run_exact_witness:
  "command_run (\<lambda>ns e. Inl NameError) demo_world 0
     \<lparr>t_command = Inr [''echo'', ''$$HOME'', ''>'', ''out''], t_variables = None, t_env = [], t_inputs = [], t_outputs = []\<rparr> =
   run demo_world False [Cmd \<lparr>name = ''echo'', argv = [''echo'', ''$HOME''], stdin = RNone, stdout = RFile ''out'', stderr = RNone, env_vars = []\<rparr>]"
proof -
  let ?c = "\<lparr>name = ''echo'', argv = [''echo'', ''$HOME''], stdin = RNone, stdout = RFile ''out'', stderr = RNone, env_vars = []\<rparr>"
  have n: "env_var_match ''echo'' = None" by code_simp
  have wf: "wf_pipeline [Cmd ?c]"
    by (simp add: wf_command_def wf_env_def dict_ok_def n operator_tokens_def)
  have names: "plain_names [Cmd ?c]" by (simp add: plain_names_def)
  have cmd: "render (map escape_node [Cmd ?c]) = [''echo'', ''$$HOME'', ''>'', ''out'']" by code_simp
  show ?thesis
    using command_run_exact [OF wf names, where eval = "\<lambda>ns e. Inl NameError" and verbose = 0 and w = demo_world
        and t = "\<lparr>t_command = Inr [''echo'', ''$$HOME'', ''>'', ''out''], t_variables = None, t_env = [], t_inputs = [], t_outputs = []\<rparr>"] cmd
    by simp
qed

text \<open>The names \<^verbatim>\<open>SRC\<close> and \<^verbatim>\<open>TGT\<close> cannot be redefined by the variables of the task.\<close>

lemma namespace_fixed:
  "map_of (task_namespace t) ''SRC'' = Some VInputs" "map_of (task_namespace t) ''TGT'' = Some VOutputs"
  by (simp_all add: task_namespace_def dict_update_def Let_def map_of_update_iff)


end
