(* ===== verification/Regression.thy ===== *)
theory Regression
  imports Wutils "HOL-Library.List_Lexorder" "HOL-Library.Char_ord"
begin

section \<open>Regression tests: \<^verbatim>\<open>regression.py\<close>\<close>

text \<open>
  \<^verbatim>\<open>regression.py\<close>: the comparison of two trace directories, the task that runs one test and
  compares or generates its traces, and the collector of the results. Directories, the
  modules of the tests and the file operations are parameters.
\<close>

subsection \<open>Directories and their comparison\<close>

datatype entry = RegularFile int string | Subdirectory

type_synonym directory = "(string, entry) dict"

text \<open>
  \<^verbatim>\<open>filecmp.dircmp\<close> of the standard library: the names it looks at, and its shallow comparison
  of files, which takes files of equal size and modification time as equal.
\<close>

definition visible :: "directory \<Rightarrow> string list" where
  "visible d = filter (\<lambda>n. n \<notin> {''RCS'', ''CVS'', ''tags'', ''.'', ''..''}) (map fst d)"

definition same_file :: "entry \<Rightarrow> entry \<Rightarrow> bool" where
  "same_file e1 e2 = (case (e1, e2) of
     (RegularFile t1 s1, RegularFile t2 s2) \<Rightarrow> (length s1 = length s2 \<and> t1 = t2) \<or> s1 = s2
   | _ \<Rightarrow> True)"

definition left_only :: "directory \<Rightarrow> directory \<Rightarrow> string list" where
  "left_only d1 d2 = filter (\<lambda>n. n \<notin> set (visible d2)) (visible d1)"

definition diff_files :: "directory \<Rightarrow> directory \<Rightarrow> string list" where
  "diff_files d1 d2 =
     filter (\<lambda>n. case (map_of d1 n, map_of d2 n) of (Some e1, Some e2) \<Rightarrow> \<not> same_file e1 e2 | _ \<Rightarrow> False)
       (filter (\<lambda>n. n \<in> set (visible d2)) (visible d1))"

text \<open>Reading in universal newline mode.\<close>

fun universal :: "string \<Rightarrow> string" where
  "universal [] = []"
| "universal [c] = (if c = CHR 13 then [CHR 10] else [c])"
| "universal (c # d # s) =
     (if c = CHR 13 then CHR 10 # (if d = CHR 10 then universal s else universal (d # s))
      else c # universal (d # s))"

fun text_lines :: "string \<Rightarrow> string list" where
  "text_lines [] = []"
| "text_lines (c # s) =
     (if c = CHR 10 then [c] # text_lines s
      else (case text_lines s of [] \<Rightarrow> [[c]] | l # ls \<Rightarrow> (c # l) # ls))"



definition trace_name :: "string \<Rightarrow> bool" where
  "trace_name n \<longleftrightarrow> ends_with n ''.tr'' \<or> ends_with n ''.mob''"

definition content_of :: "directory \<Rightarrow> string \<Rightarrow> string" where
  "content_of d n = (case map_of d n of Some (RegularFile _ s) \<Rightarrow> s | _ \<Rightarrow> [])"

text \<open>The loop with its \<^verbatim>\<open>break\<close>s; \<^verbatim>\<open>True\<close> when it ends with one.\<close>

fun really_differ :: "directory \<Rightarrow> directory \<Rightarrow> string list \<Rightarrow> bool" where
  "really_differ d1 d2 [] = False"
| "really_differ d1 d2 (n # ns) =
     (if \<not> trace_name n then True
      else if text_lines (universal (content_of d1 n)) \<noteq> text_lines (universal (content_of d2 n)) then True
      else really_differ d1 d2 ns)"

definition diff_dirs :: "directory \<Rightarrow> directory \<Rightarrow> int" where
  "diff_dirs d1 d2 =
     (let left = left_only d1 d2; right = left_only d2 d1; files = diff_files d1 d2;
          differ = (left \<noteq> [] \<or> right \<noteq> [] \<or> files \<noteq> []);
          differ' = (if differ \<and> left = [] \<and> right = [] then really_differ d1 d2 files else differ)
      in if differ' then 1 else 0)"

subsection \<open>The task of one test\<close>

text \<open>The attributes of the module of a test; an absent \<^verbatim>\<open>may_run\<close> gives no reason.\<close>

record test_module =
  may_run :: "string option"
  pyscript :: "string option"
  program_attr :: "string option"
  trace_dir_name :: "string option"
  test_arguments :: "string list"

text \<open>
  The files as the task meets them: existing paths, the error number of removing a tree,
  whether the new directory can be made, and the contents of a directory after the run.
\<close>

record trace_files =
  path_exists :: "string \<Rightarrow> bool"
  rmtree :: "string \<Rightarrow> int option"
  makedirs_ok :: "string \<Rightarrow> bool"
  contents :: "string \<Rightarrow> directory"

definition ENOENT :: int where "ENOENT = 2"

definition clean_dir :: "trace_files \<Rightarrow> string \<Rightarrow> unit res" where
  "clean_dir fs path =
     rbind (case rmtree fs path of None \<Rightarrow> Inr () | Some errno \<Rightarrow> if errno \<notin> {ENOENT} then Inl OSError else Inr ())
       (\<lambda>_. if makedirs_ok fs path then Inr () else Inl OSError)"

definition test_program :: "test_module \<Rightarrow> string \<Rightarrow> bool \<times> string" where
  "test_program m short_name =
     (if truthy (pyscript m) then (True, the (pyscript m))
      else (False, case program_attr m of None \<Rightarrow> short_name | Some p \<Rightarrow> p))"

definition run_test_program ::
  "waf \<Rightarrow> processes \<Rightarrow> string \<Rightarrow> string \<Rightarrow> string list \<Rightarrow> bool \<Rightarrow> int res" where
  "run_test_program w p trace_output_path program arguments is_pyscript =
     (if is_pyscript then
        (case path_split program of (h, t) \<Rightarrow>
          let script = path_abs (process_cwd w) (path_joins ''..'' [h, t])
          in run_argv w p ([python_path w, script] @ arguments) None (Some trace_output_path) True)
      else run_program w p program (Some (get_command_template (options w) arguments)) (Some trace_output_path))"

definition run_reference_test ::
  "waf \<Rightarrow> processes \<Rightarrow> trace_files \<Rightarrow> string \<Rightarrow> string \<Rightarrow> string \<Rightarrow> string list \<Rightarrow> bool \<Rightarrow> int res" where
  "run_reference_test w p fs reference_traces_path trace_output_path program arguments is_pyscript =
     (if \<not> path_exists fs reference_traces_path then Inr 1
      else (case run_test_program w p trace_output_path program arguments is_pyscript of
              Inl (WafError m) \<Rightarrow> Inr 1
            | Inl e \<Rightarrow> Inl e
            | Inr r \<Rightarrow> Inr (diff_dirs (contents fs trace_output_path) (contents fs reference_traces_path))))"

definition run_reference_generate ::
  "waf \<Rightarrow> processes \<Rightarrow> string \<Rightarrow> string \<Rightarrow> string list \<Rightarrow> bool \<Rightarrow> int res" where
  "run_reference_generate w p trace_output_path program arguments is_pyscript =
     (case run_test_program w p trace_output_path program arguments is_pyscript of
        Inl (WafError m) \<Rightarrow> Inr 1
      | Inl e \<Rightarrow> Inl e
      | Inr retval \<Rightarrow> Inr retval)"

record task =
  test_name :: string
  module_of :: test_module

text \<open>What the build sets up for all tasks, and the option \<^verbatim>\<open>--regression-generate\<close>.\<close>

record regression =
  reg_waf :: waf
  reg_procs :: processes
  reg_files :: trace_files
  build_traces :: string
  reference_traces :: string
  generate_opt :: bool

definition trace_dir :: "task \<Rightarrow> string" where
  "trace_dir t = (case trace_dir_name (module_of t) of
     None \<Rightarrow> drop (length ''test-'') (test_name t) @ ''.ref'' | Some d \<Rightarrow> d)"

text \<open>The result the task stores: none for a skipped test.\<close>

definition run_task :: "regression \<Rightarrow> task \<Rightarrow> int option res" where
  "run_task R t =
     py_assert (starts_with (test_name t) ''test-'')
       (let short_name = drop (length ''test-'') (test_name t);
            m = module_of t;
            trace_output_path = path_join (build_traces R) (trace_dir t);
            reference_traces_path = path_join (reference_traces R) (trace_dir t);
            arguments = test_arguments m;
            (is_pyscript, program) = test_program m short_name
        in if truthy (may_run m) then Inr None
           else if generate_opt R then
             rbind (clean_dir (reg_files R) reference_traces_path) (\<lambda>_.
             rbind (run_reference_generate (reg_waf R) (reg_procs R) reference_traces_path program arguments is_pyscript)
               (\<lambda>result. Inr (Some result)))
           else
             rbind (clean_dir (reg_files R) trace_output_path) (\<lambda>_.
             rbind (run_reference_test (reg_waf R) (reg_procs R) (reg_files R) reference_traces_path trace_output_path
                      program arguments is_pyscript)
               (\<lambda>result. Inr (Some result))))"

subsection \<open>The suite\<close>

text \<open>The exit status of the collector with the names of the failed and of the skipped tests.\<close>

definition collector_run :: "(string \<times> int option) list \<Rightarrow> int \<times> string list \<times> string list" where
  "collector_run tests =
     (let failed = map fst (filter (\<lambda>(_, r). r \<noteq> None \<and> r \<noteq> Some 0) tests);
          skipped = map fst (filter (\<lambda>(_, r). r = None) tests)
      in (if failed \<noteq> [] then 1 else 0, failed, skipped))"

definition find_tests :: "string list \<Rightarrow> string list" where
  "find_tests names =
     sort (map (\<lambda>n. take (length n - 3) n) (filter (\<lambda>n. take 5 n = ''test-'' \<and> drop (length n - 3) n = ''.py'') names))"

text \<open>
  A task is made for every test; the name must begin with \<^verbatim>\<open>test-\<close>, and the targets the test
  needs are added to the targets to compile. \<open>import\<close> loads the module.
\<close>

definition new_task :: "(string \<Rightarrow> test_module res) \<Rightarrow> string \<Rightarrow> string \<Rightarrow> (task \<times> string) res" where
  "new_task import_module name compile_targets =
     py_assert (starts_with name ''test-'')
       (rbind (import_module name) (\<lambda>m.
          Inr (\<lparr>test_name = name, module_of = m\<rparr>,
            if truthy (may_run m) then compile_targets
            else if truthy (pyscript m) then compile_targets @ '',ns3module,pybindgen-command''
            else compile_targets @ '','' @ (case program_attr m of None \<Rightarrow> drop (length ''test-'') name | Some p \<Rightarrow> p))))"

definition run_regression ::
  "(string \<Rightarrow> bool) \<Rightarrow> (string \<Rightarrow> test_module res) \<Rightarrow> string list \<Rightarrow> string option
     \<Rightarrow> string \<Rightarrow> string \<Rightarrow> (int + task list \<times> string) res" where
  "run_regression exists import_module names regression_tests reference compile_targets =
     (if \<not> exists (path_join ''regression'' ''tests'') then Inl (SystemExit 3)
      else let tests = (if truthy regression_tests then split_on CHR '','' (the regression_tests) else find_tests names)
      in if \<not> exists reference then Inr (Inl 3)
         else rbind (rfold (\<lambda>(tasks, targets) t.
                rbind (new_task import_module t targets) (\<lambda>(task, targets). Inr (tasks @ [task], targets)))
              ([], compile_targets) tests) (\<lambda>r. Inr (Inr r)))"

subsection \<open>What the comparison sees\<close>





text \<open>Two directories whose subdirectories differ in any way compare equal.\<close>

lemma subdirectories_not_compared: "diff_dirs [(''pcap'', Subdirectory)] [(''pcap'', Subdirectory)] = 0"
  by code_simp

subsection \<open>Properties\<close>








definition demo_waf :: waf where
  "demo_waf = \<lparr>options = \<lparr>command_template = None, valgrind_opt = False, cwd_option = None\<rparr>,
     cwd_launch = ''/ns3'', launch_dir = ''/ns3'',
     targets = [\<lparr>is_ns3_program = True, src_dir = ''/ns3/examples'', build_dir = ''/ns3/build/examples'',
       target_name = ''csma'', program_node = ''/ns3/build/examples/csma''\<rparr>],
     platform = ''linux2'', os_environ = [(''PATH'', ''/bin'')], pathsep = '':'', process_cwd = ''/ns3'',
     module_path = [''/ns3/build''], executable_path = [''/ns3/build/utils''], bindings_dir = ''/ns3/b'',
     valgrind_path = None, python_path = ''python''\<rparr>"

definition demo_regression :: regression where
  "demo_regression = \<lparr>reg_waf = demo_waf,
     reg_procs = \<lparr>popen = (\<lambda>argv env cwd. Some (if argv = [''/ns3/build/examples/csma'', ''--n=2''] then 0 else 1, [])),
       signals = [], windows = False\<rparr>,
     reg_files = \<lparr>path_exists = (\<lambda>p. True), rmtree = (\<lambda>p. Some 2), makedirs_ok = (\<lambda>p. True),
       contents = (\<lambda>p. if p = ''/t/csma.ref'' then [(''a.tr'', RegularFile 1 [CHR ''x'', CHR 13, CHR 10])]
         else [(''a.tr'', RegularFile 2 [CHR ''x'', CHR 10])])\<rparr>,
     build_traces = ''/b'', reference_traces = ''/t'', generate_opt = False\<rparr>"

text \<open>A test of the repository's kind: it names neither its program nor its directory.\<close>

definition demo_task :: task where
  "demo_task = \<lparr>test_name = ''test-csma'',
     module_of = \<lparr>may_run = None, pyscript = None, program_attr = None, trace_dir_name = None,
       test_arguments = [''--n=2'']\<rparr>\<rparr>"


text \<open>
  C15. When all tasks have run, the collector fails exactly when some
  test that may run did not store 0, and it reports as skipped exactly the tests whose
  module gives a reason not to run.
\<close>

theorem regression_suite_status:
  assumes "rmap (\<lambda>t. rbind (run_task R t) (\<lambda>r. Inr (test_name t, r))) ts = Inr results"
  shows "fst (collector_run results) =
      (if list_all (\<lambda>t. truthy (may_run (module_of t)) \<or> run_task R t = Inr (Some 0)) ts then 0 else 1) \<and>
    snd (snd (collector_run results)) = map test_name (filter (\<lambda>t. truthy (may_run (module_of t))) ts)"
proof -
  have skip: "r = None \<longleftrightarrow> truthy (may_run (module_of t))" if "run_task R t = Inr r" for t r
    using that by (auto simp: run_task_def Let_def split: prod.splits if_splits)
  have "(filter (\<lambda>(_, r). r \<noteq> None \<and> r \<noteq> Some 0) results = [] \<longleftrightarrow>
        list_all (\<lambda>t. truthy (may_run (module_of t)) \<or> run_task R t = Inr (Some 0)) ts) \<and>
      map fst (filter (\<lambda>(_, r). r = None) results) = map test_name (filter (\<lambda>t. truthy (may_run (module_of t))) ts)"
    using assms
  proof (induction ts arbitrary: results)
    case (Cons t ts)
    from Cons.prems obtain r rs where r: "run_task R t = Inr r" "results = (test_name t, r) # rs"
      "rmap (\<lambda>t. rbind (run_task R t) (\<lambda>r. Inr (test_name t, r))) ts = Inr rs"
      using rmap_Inr_Cons [of "\<lambda>t. rbind (run_task R t) (\<lambda>r. Inr (test_name t, r))" t ts results] by auto
    from Cons.IH [OF r(3)] show ?case using skip [OF r(1)] r(1,2) by auto
  qed simp
  then show ?thesis by (simp add: collector_run_def Let_def)
qed

theorem regression_suite_status_witness:
  "\<exists>results. rmap (\<lambda>t. rbind (run_task demo_regression t) (\<lambda>r. Inr (test_name t, r))) [demo_task] = Inr results \<and>
     fst (collector_run results) = 0"
proof -
  let ?f = "\<lambda>t. rbind (run_task demo_regression t) (\<lambda>r. Inr (test_name t, r))"
  have "\<not> isl (rmap ?f [demo_task])" by code_simp
  then obtain results where r: "rmap ?f [demo_task] = Inr results" by (cases "rmap ?f [demo_task]") auto
  have "list_all (\<lambda>t. truthy (may_run (module_of t)) \<or> run_task demo_regression t = Inr (Some 0)) [demo_task]" by code_simp
  then have "fst (collector_run results) = 0" using regression_suite_status [OF r] by (simp only: if_True)
  with r show ?thesis by blast
qed

end
