(* ===== verification/BindGen.thy ===== *)
theory BindGen
  imports BindScan
begin

section \<open>Generating the Python bindings\<close>

text \<open>
  \<^verbatim>\<open>bindings/python/ns3modulegen.py\<close> and \<^verbatim>\<open>ns3modulegen_core_customizations.py\<close>: smart
  pointer types, callback classes, object construction, the sections of the output, and the
  removal of the classes of disabled features. pybindgen, a vendored library, is left out:
  its type lookups, its fresh variable names and its wrappers are parameters, and its code
  blocks are lists of the operations called on them.
\<close>

subsection \<open>Smart pointers\<close>

text \<open>
  The regular expression: a prefix, \<^verbatim>\<open>Ptr<\<close>, a non-empty text without \<^verbatim>\<open>>\<close>, and
  \<^verbatim>\<open>>\<close> followed by white space only. At most one of the prefixes can match.
\<close>

definition ptr_body :: "string \<Rightarrow> string \<Rightarrow> string option" where
  "ptr_body pre name =
     (case eat (pre @ ''Ptr<'') name of
        None \<Rightarrow> None
      | Some r \<Rightarrow>
          (let body = takeWhile (\<lambda>c. c \<noteq> CHR ''>'') r; rest = dropWhile (\<lambda>c. c \<noteq> CHR ''>'') r
           in if body \<noteq> [] \<and> rest \<noteq> [] \<and> list_all is_space (tl rest) then Some body else None))"

definition ptr_match :: "string \<Rightarrow> string option" where
  "ptr_match name =
     (case ptr_body ''ns3::'' name of Some b \<Rightarrow> Some b
      | None \<Rightarrow> (case ptr_body ''::ns3::'' name of Some b \<Rightarrow> Some b | None \<Rightarrow> ptr_body '''' name))"

definition chop_end :: "nat \<Rightarrow> 'a list \<Rightarrow> 'a list" where
  "chop_end n s = take (length s - n) s"

definition untransformed_type_traits :: "string \<Rightarrow> string option \<times> bool" where
  "untransformed_type_traits name =
     (case ptr_match name of
        None \<Rightarrow> (None, False)
      | Some g \<Rightarrow>
          (let name1 = strip g;
               (name2, c1) = (if starts_with name1 ''const '' then (drop 6 name1, True) else (name1, False));
               (name3, c2) = (if ends_with name2 '' const'' then (chop_end 6 name2, True) else (name2, c1));
               new_name = name3 @ '' *''
           in (Some (if starts_with new_name ''::'' then drop 2 new_name else new_name), c2)))"

definition get_untransformed_name :: "string \<Rightarrow> string option" where
  "get_untransformed_name name = fst (untransformed_type_traits name)"

datatype handler_kind = ParameterHandler | ReturnHandler | OtherHandler

definition ptr_ctype :: "string \<times> bool \<Rightarrow> string" where
  "ptr_ctype tc = (if snd tc then ''ns3::Ptr< '' @ fst tc @ '' const >'' else ''ns3::Ptr< '' @ fst tc @ '' >'')"

text \<open>
  The keyword arguments, the positional ones and the type given to \<^verbatim>\<open>set_tranformation\<close>.
  Slicing \<^verbatim>\<open>None\<close> is a TypeError, \<^verbatim>\<open>args[0]\<close> of no arguments an IndexError.
\<close>

definition create_type_handler ::
  "handler_kind \<Rightarrow> string list \<Rightarrow> (string, bool) dict
     \<Rightarrow> (string list \<times> (string, bool) dict \<times> string) res" where
  "create_type_handler type_handler args kwargs =
     rbind (case type_handler of
              ParameterHandler \<Rightarrow> Inr (AList.update ''transfer_ownership'' False kwargs)
            | ReturnHandler \<Rightarrow> Inr (AList.update ''caller_owns_return'' False kwargs)
            | OtherHandler \<Rightarrow> Inl AssertionError) (\<lambda>kwargs.
     case args of [] \<Rightarrow> Inl IndexError
     | name # rest \<Rightarrow>
         (case untransformed_type_traits name of
            (None, _) \<Rightarrow> Inl TypeError
          | (Some orig_ctype, is_const) \<Rightarrow>
              Inr (ptr_ctype (chop_end 2 orig_ctype, is_const) # rest, kwargs, orig_ctype)))"

definition untransform :: "string \<Rightarrow> string \<Rightarrow> string" where
  "untransform untransformed_ctype expression =
     ''const_cast<'' @ untransformed_ctype @ ''> (ns3::PeekPointer ('' @ expression @ ''))''"

definition transform_expr :: "string \<Rightarrow> string \<Rightarrow> string res" where
  "transform_expr untransformed_ctype expression =
     rbind (py_nth untransformed_ctype (-1)) (\<lambda>c.
       py_assert (c = CHR ''*'')
         (Inr (''ns3::Ptr< '' @ butlast untransformed_ctype @ '' > ('' @ expression @ '')'')))"

subsection \<open>Converting arguments\<close>

text \<open>What the converters call on the wrapper, in order, and the parameters of the C++ call.\<close>

datatype code_op =
    DeclareVar string string "string option"
  | AddParameter string "string list" string bool
  | WriteCode string
  | ErrorCheck string "string option"
  | Cleanup string
  | Indent
  | Unindent

record wrapper =
  ops :: "code_op list"
  call_params :: "string list"

definition emit :: "code_op \<Rightarrow> wrapper \<Rightarrow> wrapper" where
  "emit c w = w\<lparr>ops := ops w @ [c]\<rparr>"

text \<open>\<^verbatim>\<open>fresh\<close> is the name \<^verbatim>\<open>declare_variable\<close> returns for the wished one.\<close>

definition declared :: "wrapper \<Rightarrow> string list" where
  "declared w = concat (map (\<lambda>c. case c of DeclareVar _ n _ \<Rightarrow> [n] | _ \<Rightarrow> []) (ops w))"

definition declare_variable ::
  "(string list \<Rightarrow> string \<Rightarrow> string) \<Rightarrow> string \<Rightarrow> string \<Rightarrow> string option \<Rightarrow> wrapper \<Rightarrow> string \<times> wrapper" where
  "declare_variable fresh t n init w = (let v = fresh (declared w) n in (v, emit (DeclareVar t v init) w))"

definition add_call_param :: "string \<Rightarrow> wrapper \<Rightarrow> wrapper" where
  "add_call_param p w = w\<lparr>call_params := call_params w @ [p]\<rparr>"

definition convert_argv :: "(string list \<Rightarrow> string \<Rightarrow> string) \<Rightarrow> string \<Rightarrow> wrapper \<Rightarrow> wrapper" where
  "convert_argv fresh self_name w0 =
     (let (py_name, w1) = declare_variable fresh ''PyObject*'' (''py_'' @ self_name) None w0;
          (argc_var, w2) = declare_variable fresh ''int'' ''argc'' None w1;
          (name, w3) = declare_variable fresh ''char**'' self_name None w2;
          (idx, w4) = declare_variable fresh ''Py_ssize_t'' ''idx'' None w3;
          w5 = emit (AddParameter ''O!'' [''&PyList_Type'', ''&'' @ py_name] self_name False) w4;
          w6 = emit (WriteCode (name @ '' = (char **) malloc(sizeof(char*)*PyList_Size('' @ py_name @ ''));'')) w5;
          w7 = emit (Cleanup (''free('' @ name @ '');'')) w6;
          w8 = emit (WriteCode (''\<newline>for ('' @ idx @ '' = 0; '' @ idx @ '' < PyList_Size('' @ py_name @ ''); '' @ idx @ ''++)\<newline>{\<newline>'')) w7;
          w9 = emit Indent w8;
          w10 = emit (WriteCode (''\<newline>PyObject *item = PyList_GET_ITEM('' @ py_name @ '', '' @ idx @ '');\<newline>'')) w9;
          w11 = emit (ErrorCheck ''!PyString_Check(item)''
                  (Some (''PyErr_SetString(PyExc_TypeError, '' @ [CHR 34] @ ''argument '' @ self_name @ '' must be a list of strings'' @ [CHR 34] @ '');''))) w10;
          w12 = emit (WriteCode (name @ ''['' @ idx @ ''] = PyString_AsString(item);'')) w11;
          w13 = emit Unindent w12;
          w14 = emit (WriteCode ''}'') w13;
          w15 = emit (WriteCode (argc_var @ '' = PyList_Size('' @ py_name @ '');'')) w14
      in add_call_param name (add_call_param argc_var w15))"

text \<open>The callback class of the parameter, its template arguments and its default value.\<close>

definition callable_check :: "string \<Rightarrow> string \<Rightarrow> code_op" where
  "callable_check py_callback self_name =
     ErrorCheck (''!PyCallable_Check('' @ py_callback @ '')'')
       (Some (''PyErr_SetString(PyExc_TypeError, '' @ [CHR 34] @ ''parameter '' @ [CHR 39] @ self_name @ [CHR 39] @
              '' must be callbale'' @ [CHR 34] @ '');''))"

definition convert_callback ::
  "(string list \<Rightarrow> string \<Rightarrow> string) \<Rightarrow> string \<Rightarrow> string list \<Rightarrow> string \<Rightarrow> string option \<Rightarrow> wrapper \<Rightarrow> wrapper" where
  "convert_callback fresh impl_name targs self_name default_value w0 =
     (let cb = ''ns3::Callback<'' @ join_with '', '' targs @ ''>'' in
      case default_value of
        None \<Rightarrow>
          (let (py_callback, w1) = declare_variable fresh ''PyObject*'' self_name None w0;
               w2 = emit (AddParameter ''O'' [''&'' @ py_callback] self_name False) w1;
               w3 = emit (callable_check py_callback self_name) w2;
               (callback_impl, w4) = declare_variable fresh (''ns3::Ptr<'' @ impl_name @ ''>'') (self_name @ ''_cb_impl'') None w3;
               w5 = emit (WriteCode (callback_impl @ '' = ns3::Create<'' @ impl_name @ ''> ('' @ py_callback @ '');'')) w4
           in add_call_param (cb @ '' ('' @ callback_impl @ '')'') w5)
      | Some value0 \<Rightarrow>
          (let (py_callback, w1) = declare_variable fresh ''PyObject*'' self_name (Some ''NULL'') w0;
               w2 = emit (AddParameter ''O'' [''&'' @ py_callback] self_name True) w1;
               (v, w3) = declare_variable fresh cb (self_name @ ''_value'') (Some value0) w2;
               w4 = emit (WriteCode (''if ('' @ py_callback @ '') {'')) w3;
               w5 = emit Indent w4;
               w6 = emit (callable_check py_callback self_name) w5;
               w7 = emit (WriteCode (v @ '' = '' @ cb @ '' (ns3::Create<'' @ impl_name @ ''> ('' @ py_callback @ ''));'')) w6;
               w8 = emit Unindent w7;
               w9 = emit (WriteCode ''}'') w8
           in add_call_param v w9))"

definition generate_python_call ::
  "(string list \<Rightarrow> string \<Rightarrow> string) \<Rightarrow> string list \<Rightarrow> wrapper \<Rightarrow> wrapper res" where
  "generate_python_call fresh build_params w0 =
     (case build_params of [] \<Rightarrow> Inl IndexError
      | p # ps \<Rightarrow> rbind (py_nth p 0) (\<lambda>c.
          let build = (if c = CHR 34 then ''(char *) '' @ p else p) # ps;
              (args, w1) = declare_variable fresh ''PyObject*'' ''args'' None w0;
              w2 = emit (WriteCode (args @ '' = Py_BuildValue('' @ join_with '', '' build @ '');'')) w1;
              w3 = emit (Cleanup (''Py_DECREF('' @ args @ '');'')) w2;
              w4 = emit (WriteCode (''py_retval = PyObject_CallObject(m_callback, '' @ args @ '');'')) w3;
              w5 = emit (ErrorCheck ''py_retval == NULL'' None) w4
          in Inr (emit (Cleanup ''Py_DECREF(py_retval);'') w5)))"

subsection \<open>Callback classes\<close>

text \<open>
  What pybindgen knows of types: \<open>parse\<close> prints \<^verbatim>\<open>ctypeparser.parse_type\<close> and says whether
  \<^verbatim>\<open>const\<close> was among the modifiers removed, \<open>return_known\<close> and \<open>param_known\<close> say whether a
  handler for the type exists, and \<open>proxy\<close> is the code of the wrapper.
\<close>

record typesys =
  parse :: "string \<Rightarrow> string \<times> bool"
  return_known :: "string \<times> bool \<Rightarrow> bool"
  param_known :: "string \<times> bool \<Rightarrow> string \<Rightarrow> bool"
  proxy :: "string \<times> bool \<Rightarrow> ((string \<times> bool) \<times> string) list \<Rightarrow> string"

definition callback_class_text :: "string \<Rightarrow> string list \<Rightarrow> string" where
  "callback_class_text c targs =
     ''\<newline>class '' @ c @ '' : public ns3::CallbackImpl<'' @ join_with '', '' targs @
     ''>\<newline>{\<newline>public:\<newline>    PyObject *m_callback;\<newline>    '' @ c @
     ''(PyObject *callback)\<newline>    {\<newline>        Py_INCREF(callback);\<newline>        m_callback = callback;\<newline>    }\<newline>    virtual ~'' @ c @
     ''()\<newline>    {\<newline>        Py_DECREF(m_callback);\<newline>        m_callback = NULL;\<newline>    }\<newline>\<newline>    virtual bool IsEqual(ns3::Ptr<const ns3::CallbackImplBase> other_base) const\<newline>    {\<newline>        const '' @ c @
     '' *other = dynamic_cast<const '' @ c @
     ''*> (ns3::PeekPointer (other_base));\<newline>        if (other != NULL)\<newline>            return (other->m_callback == m_callback);\<newline>        else\<newline>            return false;\<newline>    }\<newline>\<newline>''"

text \<open>The parameters: those that are not \<^verbatim>\<open>ns3::empty\<close>, numbered from 1.\<close>

definition callback_arguments :: "typesys \<Rightarrow> string list \<Rightarrow> ((string \<times> bool) \<times> string) list \<times> bool" where
  "callback_arguments ts targs =
     foldl (\<lambda>(arguments, ok) (arg_num, arg_type).
         let t = parse ts arg_type; arg_name = ''arg'' @ nat_str (arg_num + 1)
         in if param_known ts t arg_name then (arguments @ [(t, arg_name)], ok) else (arguments, False))
       ([], True) (enumerate 0 (filter (\<lambda>a. a \<noteq> ''ns3::empty'') (tl targs)))"

text \<open>
  The text written to \<^verbatim>\<open>out\<close> and, per class handled, the C++ type it is registered for with
  the name of the generated class. A type without handler skips the class.
\<close>

type_synonym callback_output = "string list \<times> (string \<times> string) list"

definition callback_class_step :: "typesys \<Rightarrow> callback_output \<Rightarrow> nat \<times> string list \<Rightarrow> callback_output res" where
  "callback_class_step ts st it =
     (case (st, it) of ((out, handlers), (callback_impl_num, template_parameters)) \<Rightarrow>
       let cls_name = ''ns3::Callback< '' @ join_with '', '' template_parameters @ '' >'';
           class_name = ''PythonCallbackImpl'' @ nat_str callback_impl_num;
           text = callback_class_text class_name template_parameters
       in rbind (py_nth template_parameters 0) (\<lambda>callback_return.
          let return_type = parse ts callback_return in
          if \<not> return_known ts return_type then Inr (out, handlers)
          else (case callback_arguments ts template_parameters of (arguments, ok) \<Rightarrow>
            if \<not> ok then Inr (out, handlers)
            else Inr (out @ [text @ proxy ts return_type arguments @ ''};\<newline>''],
                      handlers @ [(cls_name, class_name)]))))"

definition generate_callback_classes :: "typesys \<Rightarrow> string list list \<Rightarrow> callback_output res" where
  "generate_callback_classes ts callbacks = rfold (callback_class_step ts) ([], []) (enumerate 0 callbacks)"

subsection \<open>Constructing objects\<close>

definition helper_class_hook :: "string \<Rightarrow> string \<Rightarrow> string \<times> string" where
  "helper_class_hook name full_class =
     (''\<newline>static ns3::TypeId GetTypeId (void)\<newline>{\<newline>  static ns3::TypeId tid = ns3::TypeId ('' @ [CHR 34] @ name @
      [CHR 34] @ '')\<newline>    .SetParent< '' @ full_class @ '' > ()\<newline>    ;\<newline>  return tid;\<newline>}'',
      ''NS_OBJECT_ENSURE_REGISTERED ('' @ name @ '');'')"

text \<open>
  The first message has two place-holders and one argument: formatting it is a TypeError.
\<close>

definition instance_creation :: "bool \<Rightarrow> bool \<Rightarrow> string \<Rightarrow> string \<Rightarrow> string \<Rightarrow> string \<Rightarrow> string list res" where
  "instance_creation cannot_be_constructed incomplete_type cpp_full_name lvalue parameters construct_type_name =
     py_assert (lvalue \<noteq> []) (py_assert (\<not> starts_with lvalue ''None'')
       (if cannot_be_constructed then Inl TypeError
        else if incomplete_type then
          Inl (PyException (cpp_full_name @ '' cannot be constructed (incomplete type)''))
        else Inr [lvalue @ '' = new '' @ construct_type_name @ ''('' @ parameters @ '');'', lvalue @ ''->Ref ();'']))"

definition post_instance_creation :: "string \<Rightarrow> string" where
  "post_instance_creation lvalue = ''ns3::CompleteConstruct('' @ lvalue @ '');''"

text \<open>A parameter of a method; \<open>ref_class\<close> is the class of a \<^verbatim>\<open>CppClassRefParameter\<close>.\<close>

record meth_param =
  ref_class :: "string option"
  default_value :: "string option"
  default_value_type :: "string option"

definition fix_attribute_default :: "meth_param \<Rightarrow> meth_param" where
  "fix_attribute_default p =
     (if ref_class p = Some ''AttributeValue'' \<and> default_value p \<noteq> None \<and> default_value_type p = None
      then p\<lparr>default_value_type := Some ''ns3::EmptyAttributeValue''\<rparr> else p)"

definition Attribute_customizations :: "meth_param list list list \<Rightarrow> meth_param list list list" where
  "Attribute_customizations classes = map (map (map fix_attribute_default)) classes"

subsection \<open>The output files\<close>

definition section_sinks :: "string \<Rightarrow> string list \<Rightarrow> (string, string) dict" where
  "section_sinks main_file_name modules =
     foldl (\<lambda>sinks m. AList.update (section_name m) (path_join (path_dir main_file_name) (section_name m @ ''.cc'')) sinks)
       [(''__main__'', main_file_name)] modules"

definition header_sink :: "string \<Rightarrow> string" where
  "header_sink main_file_name = path_joins (path_dir main_file_name) [''pch'', ''ns3module.h'']"

definition get_section_code_sink :: "(string, string) dict \<Rightarrow> string \<Rightarrow> string res" where
  "get_section_code_sink sinks s = (case map_of sinks s of None \<Rightarrow> Inl KeyError | Some f \<Rightarrow> Inr f)"

text \<open>
  The location printed for an error: the innermost frame of the wrapper's stack whose file is
  below the directory of the script. \<open>abspath\<close> is that of the process.
\<close>

definition error_location ::
  "(string \<Rightarrow> string) \<Rightarrow> string \<Rightarrow> string \<Rightarrow> string \<Rightarrow> (string \<times> int) list option \<Rightarrow> string option" where
  "error_location abspath this_script_dir wrapper_str exception_repr stack =
     (case stack of
        None \<Rightarrow> Some (''??:??: '' @ wrapper_str @ '' / '' @ exception_repr)
      | Some frames \<Rightarrow>
          map_option (\<lambda>(f, line). path_joins ''..'' [''bindings'', ''python'', path_base f] @ '':'' @
              int_str line @ '': '' @ exception_repr)
            (find (\<lambda>(f, line). starts_with (path_dir (abspath f)) this_script_dir) (rev frames)))"

subsection \<open>Classes of disabled features\<close>

text \<open>
  The lists of wrappers of the module; \<open>lookup\<close> is \<^verbatim>\<open>root_module[name]\<close>, which raises
  KeyError for an unknown name.
\<close>

record 'c bindings =
  classes :: "'c list"
  enums :: "'c list"

definition lookup_name :: "(string \<Rightarrow> 'c option) \<Rightarrow> string \<Rightarrow> 'c res" where
  "lookup_name lookup name = (case lookup name of None \<Rightarrow> Inl KeyError | Some c \<Rightarrow> Inr c)"

definition remove_class :: "(string \<Rightarrow> 'c option) \<Rightarrow> 'c bindings \<Rightarrow> string \<Rightarrow> 'c bindings res" where
  "remove_class lookup b name =
     rbind (lookup_name lookup name) (\<lambda>c. rbind (list_remove c (classes b)) (\<lambda>cs. Inr (b\<lparr>classes := cs\<rparr>)))"

definition remove_enum :: "(string \<Rightarrow> 'c option) \<Rightarrow> 'c bindings \<Rightarrow> string \<Rightarrow> 'c bindings res" where
  "remove_enum lookup b name =
     rbind (lookup_name lookup name) (\<lambda>c. rbind (list_remove c (enums b)) (\<lambda>es. Inr (b\<lparr>enums := es\<rparr>)))"

text \<open>\<^verbatim>\<open>try\<close> with \<^verbatim>\<open>except KeyError: pass\<close>.\<close>

definition ignore_KeyError :: "'a \<Rightarrow> 'a res \<Rightarrow> 'a res" where
  "ignore_KeyError x r = (if r = Inl KeyError then Inr x else r)"

definition ns3_names :: "string list \<Rightarrow> string list" where
  "ns3_names names = map (\<lambda>n. ''ns3::'' @ n) names"

definition threading_classes :: "string list" where
  "threading_classes = [''SystemThread'', ''SystemMutex'', ''SystemCondition'', ''CriticalSection'',
     ''SimpleRefCount< ns3::SystemThread, ns3::empty, ns3::DefaultDeleter<ns3::SystemThread> >'']"

text \<open>A test of the features around an action, and the classes of a feature with their enumeration.\<close>

definition if_disabled :: "string list \<Rightarrow> string \<Rightarrow> ('b \<Rightarrow> 'b res) \<Rightarrow> 'b \<Rightarrow> 'b res" where
  "if_disabled enabled_features feature act b = (if feature \<notin> set enabled_features then act b else Inr b)"

definition remove_group ::
  "(string \<Rightarrow> 'c option) \<Rightarrow> string list \<Rightarrow> string \<Rightarrow> 'c bindings \<Rightarrow> 'c bindings res" where
  "remove_group lookup names enum b =
     rbind (rfold (remove_class lookup) b (ns3_names names)) (\<lambda>b. remove_enum lookup b enum)"

definition remove_disabled ::
  "(string \<Rightarrow> 'c option) \<Rightarrow> (string, string) dict \<Rightarrow> 'c bindings \<Rightarrow> 'c bindings res" where
  "remove_disabled lookup environ b =
     rbind (case map_of environ ''NS3_ENABLED_FEATURES'' of None \<Rightarrow> Inl KeyError | Some v \<Rightarrow> Inr (split_on CHR '','' v))
       (\<lambda>fs.
     rbind (if_disabled fs ''GtkConfigStore''
              (\<lambda>b. ignore_KeyError b (remove_class lookup b ''ns3::GtkConfigStore'')) b) (\<lambda>b.
     rbind (if_disabled fs ''SqliteDataOutput''
              (\<lambda>b. ignore_KeyError b (remove_class lookup b ''ns3::SqliteDataOutput'')) b) (\<lambda>b.
     rbind (if_disabled fs ''Threading'' (\<lambda>b. rfold (remove_class lookup) b (ns3_names threading_classes)) b) (\<lambda>b.
     rbind (if_disabled fs ''EmuNetDevice''
              (remove_group lookup [''EmuNetDevice'', ''EmuHelper''] ''ns3::EmuNetDevice::EncapsulationMode'') b) (\<lambda>b.
     rbind (if_disabled fs ''RealTime''
              (remove_group lookup [''WallClockSynchronizer'', ''RealtimeSimulatorImpl'']
                ''ns3::RealtimeSimulatorImpl::SynchronizationMode'') b) (\<lambda>b.
     if_disabled fs ''TapBridge''
       (remove_group lookup [''TapBridge'', ''TapBridgeHelper''] ''ns3::TapBridge::Mode'') b))))))"

subsection \<open>Pointer types are printed and read back\<close>

lemma takeWhile_stop: "x \<notin> set s \<Longrightarrow> takeWhile (\<lambda>c. c \<noteq> x) (s @ x # r) = s \<and> dropWhile (\<lambda>c. c \<noteq> x) (s @ x # r) = x # r"
  by (induction s) auto

definition pointee_ok :: "string \<Rightarrow> bool" where
  "pointee_ok t \<longleftrightarrow> t \<noteq> [] \<and> CHR ''>'' \<notin> set t \<and> \<not> is_space (hd t) \<and> \<not> is_space (last t) \<and>
     \<not> starts_with (t @ '' '') ''const '' \<and> \<not> ends_with t '' const'' \<and> \<not> starts_with t ''::''"

lemma strip_padded:
  assumes "s \<noteq> []" and "\<not> is_space (hd s)" and "\<not> is_space (last s)"
  shows "strip ('' '' @ s @ '' '') = s"
proof -
  have "is_space CHR '' ''" by code_simp
  then have "rstrip ('' '' @ s @ '' '') = '' '' @ s"
    using assms(1,3) by (cases s rule: rev_cases) (auto simp: rstrip_def)
  then show ?thesis using assms(1,2) \<open>is_space CHR '' ''\<close> by (cases s) (auto simp: strip_def lstrip_def)
qed

lemma const_prefix: "starts_with (t @ '' const'') ''const '' \<Longrightarrow> starts_with (t @ '' '') ''const ''"
  by (cases t; cases "tl t"; cases "tl (tl t)"; cases "tl (tl (tl t))"; cases "tl (tl (tl (tl t)))"; cases "tl (tl (tl (tl (tl t))))")
    (auto simp: starts_with_def)

lemma prefix_app: "length p \<le> length s \<Longrightarrow> starts_with (s @ r) p = starts_with s p"
  by (simp add: starts_with_def)

lemma ptr_match_padded:
  assumes "CHR ''>'' \<notin> set s" and "s \<noteq> []"
  shows "ptr_match (''ns3::Ptr<'' @ s @ ''>'') = Some s"
proof -
  have "eat (''ns3::'' @ ''Ptr<'') (''ns3::Ptr<'' @ s @ ''>'') = Some (s @ CHR ''>'' # [])"
    using eat_same [of "''ns3::Ptr<''" "s @ ''>''"] by simp
  then have "ptr_body ''ns3::'' (''ns3::Ptr<'' @ s @ ''>'') = Some s"
    using takeWhile_stop [OF assms(1), of "[]"] assms(2) unfolding ptr_body_def by simp
  then show ?thesis by (simp only: ptr_match_def option.case)
qed

lemma traits_of_ctype:
  assumes "pointee_ok t"
  shows "untransformed_type_traits (ptr_ctype (t, c)) = (Some (t @ '' *''), c)"
proof -
  define s where "s = (if c then t @ '' const'' else t)"
  have s: "s \<noteq> []" "CHR ''>'' \<notin> set s" "\<not> is_space (hd s)"
    using assms by (auto simp: s_def pointee_ok_def)
  have ls: "\<not> is_space (last s)"
  proof (cases c)
    case True
    have "\<not> is_space CHR ''t''" by code_simp
    then show ?thesis using True by (simp add: s_def)
  qed (use assms in \<open>simp add: s_def pointee_ok_def\<close>)
  have sp: "CHR ''>'' \<notin> set ('' '' @ s @ '' '')" using s(2) by simp
  have "ptr_ctype (t, c) = ''ns3::Ptr<'' @ ('' '' @ s @ '' '') @ ''>''" by (simp add: ptr_ctype_def s_def)
  then have m: "ptr_match (ptr_ctype (t, c)) = Some ('' '' @ s @ '' '')"
    using ptr_match_padded [OF sp] by simp
  have st: "strip ('' '' @ s @ '' '') = s" using s ls by (intro strip_padded)
  have "starts_with t ''const '' \<Longrightarrow> starts_with (t @ '' '') ''const ''"
    by (auto simp: starts_with_iff)
  then have nc: "\<not> starts_with s ''const ''" using assms const_prefix [of t] by (auto simp: s_def pointee_ok_def)
  have e: "ends_with s '' const'' = c" using assms by (auto simp: s_def pointee_ok_def ends_with_def)
  have n3: "(if c then chop_end 6 s else s) = t" by (simp add: s_def chop_end_def)
  have nn: "\<not> starts_with (t @ '' *'') ''::''"
    using assms by (cases t; cases "tl t") (auto simp: pointee_ok_def starts_with_def)
  show ?thesis
    unfolding untransformed_type_traits_def m option.case Let_def st using nc e n3 nn
    by (cases c) simp_all
qed

text \<open>The type the handlers are created with is a codec of the pointee and its constness.\<close>

definition read_ctype :: "string \<Rightarrow> (string \<times> bool) res" where
  "read_ctype name =
     (case untransformed_type_traits name of (None, _) \<Rightarrow> Inl TypeError | (Some n, c) \<Rightarrow> Inr (chop_end 2 n, c))"

interpretation ptr: codec ptr_ctype read_ctype "\<lambda>tc. pointee_ok (fst tc)"
proof
  fix x :: "string \<times> bool"
  assume "pointee_ok (fst x)"
  then show "read_ctype (ptr_ctype x) = Inr x"
    using traits_of_ctype [of "fst x" "snd x"] by (simp add: read_ctype_def chop_end_def)
qed

lemma create_from_traits:
  assumes "read_ctype name = Inr tc"
  shows "create_type_handler ParameterHandler (name # rest) kw =
    Inr (ptr_ctype tc # rest, AList.update ''transfer_ownership'' False kw, the (get_untransformed_name name))"
  using assms by (auto simp: create_type_handler_def read_ctype_def get_untransformed_name_def split: prod.splits option.splits)

subsection \<open>Callback classes, one per supported callback\<close>

definition callback_supported :: "typesys \<Rightarrow> string list \<Rightarrow> bool" where
  "callback_supported ts targs \<longleftrightarrow> return_known ts (parse ts (hd targs)) \<and> snd (callback_arguments ts targs)"

definition callback_handler :: "nat \<times> string list \<Rightarrow> string \<times> string" where
  "callback_handler it = (''ns3::Callback< '' @ join_with '', '' (snd it) @ '' >'', ''PythonCallbackImpl'' @ nat_str (fst it))"

definition callback_text :: "typesys \<Rightarrow> nat \<times> string list \<Rightarrow> string" where
  "callback_text ts it = callback_class_text (''PythonCallbackImpl'' @ nat_str (fst it)) (snd it) @
     proxy ts (parse ts (hd (snd it))) (fst (callback_arguments ts (snd it))) @ ''};\<newline>''"

lemma callback_class_step_result:
  assumes "snd it \<noteq> []"
  shows "callback_class_step ts (out, hs) it =
    Inr (if callback_supported ts (snd it) then (out @ [callback_text ts it], hs @ [callback_handler it]) else (out, hs))"
proof -
  obtain i p ps where it: "it = (i, p # ps)" using assms by (cases it; cases "snd it") auto
  have "py_nth (p # ps) 0 = Inr p" using py_nth_nat [of "p # ps" 0] by simp
  then show ?thesis
    unfolding it callback_class_step_def callback_supported_def callback_handler_def callback_text_def
    by (simp add: Let_def split: prod.split)
qed

lemma callback_classes_fold:
  assumes "\<forall>it\<in>set its. snd it \<noteq> []"
  shows "rfold (callback_class_step ts) (out, hs) its =
    Inr (out @ map (callback_text ts) (filter (\<lambda>it. callback_supported ts (snd it)) its),
         hs @ map callback_handler (filter (\<lambda>it. callback_supported ts (snd it)) its))"
  using assms by (induction its arbitrary: out hs) (simp_all add: callback_class_step_result)

lemma callback_arguments_supported:
  "snd (callback_arguments ts targs) \<longleftrightarrow>
     (\<forall>(i, a)\<in>set (enumerate 0 (filter (\<lambda>a. a \<noteq> ''ns3::empty'') (tl targs))).
        param_known ts (parse ts a) (''arg'' @ nat_str (i + 1)))"
proof -
  have "snd (foldl (\<lambda>(arguments, ok) (arg_num, arg_type).
         let t = parse ts arg_type; arg_name = ''arg'' @ nat_str (arg_num + 1)
         in if param_known ts t arg_name then (arguments @ [(t, arg_name)], ok) else (arguments, False)) (as, b) its) \<longleftrightarrow>
      b \<and> (\<forall>(i, a)\<in>set its. param_known ts (parse ts a) (''arg'' @ nat_str (i + 1)))" for as b its
    by (induction its arbitrary: as b) (auto simp: Let_def split: if_splits)
  then show ?thesis unfolding callback_arguments_def by simp
qed

subsection \<open>Removing what is disabled\<close>

text \<open>\<open>named lookup N\<close>: the wrappers of the names \<open>N\<close>; \<open>drop_named\<close> takes them out.\<close>

definition named :: "(string \<Rightarrow> 'c option) \<Rightarrow> string set \<Rightarrow> 'c set" where
  "named lookup N = {c. \<exists>n\<in>N. lookup n = Some c}"

definition drop_named :: "(string \<Rightarrow> 'c option) \<Rightarrow> string set \<Rightarrow> string set \<Rightarrow> 'c bindings \<Rightarrow> 'c bindings" where
  "drop_named lookup N M b =
     b\<lparr>classes := filter (\<lambda>c. c \<notin> named lookup N) (classes b),
       enums := filter (\<lambda>c. c \<notin> named lookup M) (enums b)\<rparr>"

lemma named_insert: "named lookup (insert n N) = set_option (lookup n) \<union> named lookup N"
  by (auto simp: named_def)

lemma list_remove_filter:
  assumes "distinct xs" and "c \<in> set xs" and "\<not> P c"
  shows "list_remove c (filter (\<lambda>x. \<not> P x) xs) = Inr (filter (\<lambda>x. x \<noteq> c \<and> \<not> P x) xs)"
proof -
  have "remove1 c (filter (\<lambda>x. \<not> P x) xs) = filter (\<lambda>x. c \<noteq> x) (filter (\<lambda>x. \<not> P x) xs)"
    using assms(1) by (simp add: distinct_remove1_removeAll removeAll_filter_not_eq)
  also have "\<dots> = filter (\<lambda>x. x \<noteq> c \<and> \<not> P x) xs" unfolding filter_filter by (rule filter_cong) auto
  finally have "remove1 c (filter (\<lambda>x. \<not> P x) xs) = filter (\<lambda>x. x \<noteq> c \<and> \<not> P x) xs" .
  then show ?thesis using assms(2,3) by (simp add: list_remove_def)
qed

lemma remove_class_drop:
  assumes "distinct (classes b)" and "lookup n = Some c" and "c \<in> set (classes b)" and "c \<notin> named lookup N"
  shows "remove_class lookup (drop_named lookup N M b) n = Inr (drop_named lookup (insert n N) M b)"
proof -
  have "list_remove c (filter (\<lambda>c. c \<notin> named lookup N) (classes b)) =
      Inr (filter (\<lambda>x. x \<noteq> c \<and> x \<notin> named lookup N) (classes b))"
    using list_remove_filter [OF assms(1,3), of "\<lambda>c. c \<in> named lookup N"] assms(4) by simp
  moreover have "x \<noteq> c \<and> x \<notin> named lookup N \<longleftrightarrow> x \<notin> named lookup (insert n N)" for x
    using assms(2) by (auto simp: named_insert)
  ultimately show ?thesis using assms(2) by (simp add: remove_class_def lookup_name_def drop_named_def)
qed

lemma remove_enum_drop:
  assumes "distinct (enums b)" and "lookup n = Some c" and "c \<in> set (enums b)" and "c \<notin> named lookup M"
  shows "remove_enum lookup (drop_named lookup N M b) n = Inr (drop_named lookup N (insert n M) b)"
proof -
  have "list_remove c (filter (\<lambda>c. c \<notin> named lookup M) (enums b)) =
      Inr (filter (\<lambda>x. x \<noteq> c \<and> x \<notin> named lookup M) (enums b))"
    using list_remove_filter [OF assms(1,3), of "\<lambda>c. c \<in> named lookup M"] assms(4) by simp
  moreover have "x \<noteq> c \<and> x \<notin> named lookup M \<longleftrightarrow> x \<notin> named lookup (insert n M)" for x
    using assms(2) by (auto simp: named_insert)
  ultimately show ?thesis using assms(2) by (simp add: remove_enum_def lookup_name_def drop_named_def)
qed

text \<open>
  The names the code takes out, and what the scanned API must provide: required names are
  registered, the two optional ones only with wrappers that are in the list, and different
  names have different wrappers.
\<close>

definition optional_names :: "string list" where
  "optional_names = [''ns3::GtkConfigStore'', ''ns3::SqliteDataOutput'']"

definition required_names :: "string list" where
  "required_names = ns3_names (threading_classes @ [''EmuNetDevice'', ''EmuHelper'', ''WallClockSynchronizer'',
     ''RealtimeSimulatorImpl'', ''TapBridge'', ''TapBridgeHelper''])"

definition enum_names :: "string list" where
  "enum_names = [''ns3::EmuNetDevice::EncapsulationMode'', ''ns3::RealtimeSimulatorImpl::SynchronizationMode'',
     ''ns3::TapBridge::Mode'']"

fun fresh_names :: "(string \<Rightarrow> 'c option) \<Rightarrow> string set \<Rightarrow> string list \<Rightarrow> bool" where
  "fresh_names lookup N [] \<longleftrightarrow> True"
| "fresh_names lookup N (n # ns) \<longleftrightarrow>
     (lookup n = None \<or> lookup n \<notin> lookup ` N) \<and> fresh_names lookup (insert n N) ns"

definition api_ok :: "(string \<Rightarrow> 'c option) \<Rightarrow> 'c bindings \<Rightarrow> bool" where
  "api_ok lookup b \<longleftrightarrow> distinct (classes b) \<and> distinct (enums b) \<and>
     list_all (\<lambda>n. case lookup n of None \<Rightarrow> n \<in> set optional_names | Some c \<Rightarrow> c \<in> set (classes b))
       (optional_names @ required_names) \<and>
     list_all (\<lambda>n. case lookup n of None \<Rightarrow> False | Some c \<Rightarrow> c \<in> set (enums b)) enum_names \<and>
     fresh_names lookup {} (optional_names @ required_names) \<and> fresh_names lookup {} enum_names"

lemma in_named: "c \<in> named lookup N \<longleftrightarrow> Some c \<in> lookup ` N"
  by (force simp: named_def)

lemma fresh_names_append:
  "fresh_names lookup N (ms @ ns) \<longleftrightarrow> fresh_names lookup N ms \<and> fresh_names lookup (set ms \<union> N) ns"
  by (induction ms arbitrary: N) auto

lemma fresh_names_mono: "fresh_names lookup N ns \<Longrightarrow> M \<subseteq> N \<Longrightarrow> fresh_names lookup M ns"
proof (induction ns arbitrary: M N)
  case (Cons n ns)
  then show ?case using Cons.IH [of "insert n N" "insert n M"] by auto
qed simp

lemma remove_classes_drop:
  assumes "distinct (classes b)" and "fresh_names lookup N ns"
    and "\<forall>n\<in>set ns. \<exists>c\<in>set (classes b). lookup n = Some c"
  shows "rfold (remove_class lookup) (drop_named lookup N M b) ns = Inr (drop_named lookup (set ns \<union> N) M b)"
  using assms(2,3)
proof (induction ns arbitrary: N)
  case (Cons n ns)
  then obtain c where c: "lookup n = Some c" "c \<in> set (classes b)" by auto
  have "c \<notin> named lookup N" using Cons.prems(1) c(1) by (simp add: in_named)
  note remove_class_drop [where N = N and M = M, OF assms(1) c this]
  then show ?case using Cons.IH [of "insert n N"] Cons.prems by simp
qed simp

text \<open>What a set of enabled features leaves out.\<close>

definition left_out :: "string list \<Rightarrow> string \<Rightarrow> string list \<Rightarrow> string set" where
  "left_out fs feature names = (if feature \<in> set fs then {} else set names)"

definition disabled_classes :: "string list \<Rightarrow> string set" where
  "disabled_classes fs =
     left_out fs ''TapBridge'' (ns3_names [''TapBridge'', ''TapBridgeHelper'']) \<union>
     (left_out fs ''RealTime'' (ns3_names [''WallClockSynchronizer'', ''RealtimeSimulatorImpl'']) \<union>
     (left_out fs ''EmuNetDevice'' (ns3_names [''EmuNetDevice'', ''EmuHelper'']) \<union>
     (left_out fs ''Threading'' (ns3_names threading_classes) \<union>
     (left_out fs ''SqliteDataOutput'' [''ns3::SqliteDataOutput''] \<union>
     (left_out fs ''GtkConfigStore'' [''ns3::GtkConfigStore''] \<union> {})))))"

definition disabled_enums :: "string list \<Rightarrow> string set" where
  "disabled_enums fs =
     left_out fs ''TapBridge'' [''ns3::TapBridge::Mode''] \<union>
     (left_out fs ''RealTime'' [''ns3::RealtimeSimulatorImpl::SynchronizationMode''] \<union>
     (left_out fs ''EmuNetDevice'' [''ns3::EmuNetDevice::EncapsulationMode''] \<union> {}))"

text \<open>Names \<open>ns\<close> that come after \<open>pre\<close> in the list of all names.\<close>

lemma classes_step:
  assumes "distinct (classes b)" and "fresh_names lookup {} (pre @ ns @ post)" and "D \<subseteq> set pre"
    and "list_all (\<lambda>n. case lookup n of None \<Rightarrow> False | Some c \<Rightarrow> c \<in> set (classes b)) ns"
  shows "rfold (remove_class lookup) (drop_named lookup D M b) ns = Inr (drop_named lookup (set ns \<union> D) M b)"
proof -
  have "fresh_names lookup (set pre) ns" using assms(2) by (simp add: fresh_names_append)
  then have "fresh_names lookup D ns" using assms(3) by (rule fresh_names_mono)
  then show ?thesis using assms(1,4)
    by (intro remove_classes_drop) (auto simp: list_all_iff split: option.splits)
qed

lemma optional_step:
  assumes "distinct (classes b)" and "fresh_names lookup {} (pre @ [n] @ post)" and "D \<subseteq> set pre"
    and "case lookup n of None \<Rightarrow> True | Some c \<Rightarrow> c \<in> set (classes b)"
  shows "ignore_KeyError (drop_named lookup D M b) (remove_class lookup (drop_named lookup D M b) n) =
    Inr (drop_named lookup (set [n] \<union> D) M b)"
proof (cases "lookup n")
  case None
  then have "named lookup (insert n D) = named lookup D" by (simp add: named_insert)
  then show ?thesis using None by (simp add: ignore_KeyError_def remove_class_def lookup_name_def drop_named_def)
next
  case (Some c)
  then have "rfold (remove_class lookup) (drop_named lookup D M b) [n] = Inr (drop_named lookup (set [n] \<union> D) M b)"
    using assms by (intro classes_step [where pre = pre and post = post]) simp_all
  then show ?thesis by (simp add: ignore_KeyError_def)
qed

lemma enum_step:
  assumes "distinct (enums b)" and "fresh_names lookup {} (pre @ [n] @ post)" and "D \<subseteq> set pre"
    and "case lookup n of None \<Rightarrow> False | Some c \<Rightarrow> c \<in> set (enums b)"
  shows "remove_enum lookup (drop_named lookup N D b) n = Inr (drop_named lookup N (set [n] \<union> D) b)"
proof -
  obtain c where c: "lookup n = Some c" "c \<in> set (enums b)" using assms(4) by (cases "lookup n") auto
  have "fresh_names lookup (set pre) [n]" using assms(2) by (simp add: fresh_names_append)
  then have "fresh_names lookup D [n]" using assms(3) by (rule fresh_names_mono)
  then have "c \<notin> named lookup D" using c(1) by (simp add: in_named)
  then show ?thesis using remove_enum_drop [where lookup = lookup and N = N and M = D, OF assms(1) c] by simp
qed

lemma if_disabled_drop:
  assumes "F \<notin> set fs \<Longrightarrow> act (drop_named lookup N M b) = Inr (drop_named lookup (set ns \<union> N) (set es \<union> M) b)"
  shows "if_disabled fs F act (drop_named lookup N M b) =
    Inr (drop_named lookup (left_out fs F ns \<union> N) (left_out fs F es \<union> M) b)"
  using assms by (simp add: if_disabled_def left_out_def)

lemma left_out_subset: "N \<subseteq> set pre \<Longrightarrow> left_out fs F ns \<union> N \<subseteq> set (pre @ ns)"
  by (auto simp: left_out_def)

lemma left_out_Nil: "left_out fs F [] \<union> N = N"
  by (simp add: left_out_def)

lemma remove_group_drop:
  assumes "distinct (classes b)" and "fresh_names lookup {} (pre @ ns3_names names @ post)" and "N \<subseteq> set pre"
    and "list_all (\<lambda>n. case lookup n of None \<Rightarrow> False | Some c \<Rightarrow> c \<in> set (classes b)) (ns3_names names)"
    and "distinct (enums b)" and "fresh_names lookup {} (epre @ [e] @ epost)" and "M \<subseteq> set epre"
    and "case lookup e of None \<Rightarrow> False | Some c \<Rightarrow> c \<in> set (enums b)"
  shows "remove_group lookup names e (drop_named lookup N M b) =
    Inr (drop_named lookup (set (ns3_names names) \<union> N) (set [e] \<union> M) b)"
  unfolding remove_group_def classes_step [OF assms(1-4)] rbind_simps by (rule enum_step [OF assms(5-8)])

lemma if_disabled_classes:
  assumes "F \<notin> set fs \<Longrightarrow> act (drop_named lookup N M b) = Inr (drop_named lookup (set ns \<union> N) M b)"
  shows "if_disabled fs F act (drop_named lookup N M b) = Inr (drop_named lookup (left_out fs F ns \<union> N) M b)"
  using assms by (simp add: if_disabled_def left_out_def)

text \<open>The names in the order in which the code takes them out.\<close>

definition all_classes :: "string list list" where
  "all_classes = [[''ns3::GtkConfigStore''], [''ns3::SqliteDataOutput''], ns3_names threading_classes,
     ns3_names [''EmuNetDevice'', ''EmuHelper''], ns3_names [''WallClockSynchronizer'', ''RealtimeSimulatorImpl''],
     ns3_names [''TapBridge'', ''TapBridgeHelper'']]"

definition in_list :: "(string \<Rightarrow> 'c option) \<Rightarrow> 'c list \<Rightarrow> string list \<Rightarrow> bool" where
  "in_list lookup cs ns \<longleftrightarrow> list_all (\<lambda>n. case lookup n of None \<Rightarrow> False | Some c \<Rightarrow> c \<in> set cs) ns"

lemma api_facts:
  assumes "api_ok lookup b"
  shows "distinct (classes b)" "distinct (enums b)" "fresh_names lookup {} (concat all_classes)"
    "fresh_names lookup {} enum_names" "in_list lookup (enums b) enum_names"
    "list_all (in_list lookup (classes b)) (drop 2 all_classes)"
    "\<forall>n\<in>set (concat (take 2 all_classes)). case lookup n of None \<Rightarrow> True | Some c \<Rightarrow> c \<in> set (classes b)"
proof -
  have names: "concat all_classes = optional_names @ required_names"
    "concat (drop 2 all_classes) = required_names" "concat (take 2 all_classes) = optional_names"
    by (simp_all add: optional_names_def required_names_def ns3_names_def all_classes_def)
  show "distinct (classes b)" "distinct (enums b)" "fresh_names lookup {} (concat all_classes)"
    "fresh_names lookup {} enum_names" "in_list lookup (enums b) enum_names"
    using assms unfolding api_ok_def names in_list_def by blast+
  have all: "list_all (\<lambda>n. case lookup n of None \<Rightarrow> n \<in> set optional_names | Some c \<Rightarrow> c \<in> set (classes b))
      (optional_names @ required_names)" using assms unfolding api_ok_def by blast
  have "set required_names \<inter> set optional_names = {}" by code_simp
  then have "in_list lookup (classes b) (concat (drop 2 all_classes))"
    unfolding names in_list_def using all by (auto simp: list_all_iff split: option.splits)
  then show "list_all (in_list lookup (classes b)) (drop 2 all_classes)"
    by (auto simp: in_list_def list_all_iff)
  show "\<forall>n\<in>set (concat (take 2 all_classes)). case lookup n of None \<Rightarrow> True | Some c \<Rightarrow> c \<in> set (classes b)"
    unfolding names using all by (auto simp: list_all_iff split: option.splits)
qed

lemma remove_disabled_drop:
  assumes api: "api_ok lookup b" and v: "map_of environ ''NS3_ENABLED_FEATURES'' = Some v"
  shows "remove_disabled lookup environ (drop_named lookup {} {} b) =
    Inr (drop_named lookup (disabled_classes (split_on CHR '','' v)) (disabled_enums (split_on CHR '','' v)) b)"
proof -
  define fs where "fs = split_on CHR '','' v"
  obtain g s t e r p where cls: "all_classes = [g, s, t, e, r, p]" "g = [''ns3::GtkConfigStore'']"
      "s = [''ns3::SqliteDataOutput'']" "t = ns3_names threading_classes" "e = ns3_names [''EmuNetDevice'', ''EmuHelper'']"
      "r = ns3_names [''WallClockSynchronizer'', ''RealtimeSimulatorImpl'']" "p = ns3_names [''TapBridge'', ''TapBridgeHelper'']"
    by (rule that) (simp_all add: all_classes_def)
  note f = api_facts [OF api, unfolded cls(1)]
  define N1 where "N1 = left_out fs ''GtkConfigStore'' g \<union> {}"
  define N2 where "N2 = left_out fs ''SqliteDataOutput'' s \<union> N1"
  define N3 where "N3 = left_out fs ''Threading'' t \<union> N2"
  define N4 where "N4 = left_out fs ''EmuNetDevice'' e \<union> N3"
  define N5 where "N5 = left_out fs ''RealTime'' r \<union> N4"
  define M4 where "M4 = left_out fs ''EmuNetDevice'' [''ns3::EmuNetDevice::EncapsulationMode''] \<union> {}"
  define M5 where "M5 = left_out fs ''RealTime'' [''ns3::RealtimeSimulatorImpl::SynchronizationMode''] \<union> M4"
  have n1: "N1 \<subseteq> set ([] @ g)" unfolding N1_def by (rule left_out_subset) simp
  have n2: "N2 \<subseteq> set (([] @ g) @ s)" unfolding N2_def by (rule left_out_subset) (rule n1)
  have n3: "N3 \<subseteq> set ((([] @ g) @ s) @ t)" unfolding N3_def by (rule left_out_subset) (rule n2)
  have n4: "N4 \<subseteq> set (((([] @ g) @ s) @ t) @ e)" unfolding N4_def by (rule left_out_subset) (rule n3)
  have n5: "N5 \<subseteq> set ((((([] @ g) @ s) @ t) @ e) @ r)" unfolding N5_def by (rule left_out_subset) (rule n4)
  have m4: "M4 \<subseteq> set ([] @ [''ns3::EmuNetDevice::EncapsulationMode''])" unfolding M4_def by (rule left_out_subset) simp
  have m5: "M5 \<subseteq> set (([] @ [''ns3::EmuNetDevice::EncapsulationMode'']) @ [''ns3::RealtimeSimulatorImpl::SynchronizationMode''])"
    unfolding M5_def by (rule left_out_subset) (rule m4)
  have fr: "fresh_names lookup {} (g @ s @ t @ e @ r @ p @ [])" using f(3) by simp
  have reg: "in_list lookup (classes b) t" "in_list lookup (classes b) e" "in_list lookup (classes b) r" "in_list lookup (classes b) p"
    using f(6) by simp_all
  have s1: "if_disabled fs ''GtkConfigStore'' (\<lambda>b. ignore_KeyError b (remove_class lookup b ''ns3::GtkConfigStore''))
      (drop_named lookup {} {} b) = Inr (drop_named lookup N1 {} b)"
    unfolding N1_def cls(2) using fr f(7) cls(2)
    by (intro if_disabled_classes optional_step [OF f(1), where pre = "[]" and post = "s @ t @ e @ r @ p"]) simp_all
  have s2: "if_disabled fs ''SqliteDataOutput'' (\<lambda>b. ignore_KeyError b (remove_class lookup b ''ns3::SqliteDataOutput''))
      (drop_named lookup N1 {} b) = Inr (drop_named lookup N2 {} b)"
    unfolding N2_def cls(3) using fr f(7) cls(3) n1
    by (intro if_disabled_classes optional_step [OF f(1), where pre = "[] @ g" and post = "t @ e @ r @ p"]) simp_all
  have s3: "if_disabled fs ''Threading'' (\<lambda>b. rfold (remove_class lookup) b t) (drop_named lookup N2 {} b) =
      Inr (drop_named lookup N3 {} b)"
    unfolding N3_def using fr reg(1) n2 unfolding in_list_def
    by (intro if_disabled_classes classes_step [OF f(1), where pre = "([] @ g) @ s" and post = "e @ r @ p"]) simp_all
  have s4: "if_disabled fs ''EmuNetDevice''
      (remove_group lookup [''EmuNetDevice'', ''EmuHelper''] ''ns3::EmuNetDevice::EncapsulationMode'')
      (drop_named lookup N3 {} b) = Inr (drop_named lookup N4 M4 b)"
    unfolding N4_def M4_def using fr reg(2) n3 f(4,5) unfolding in_list_def cls(5) enum_names_def
    by (intro if_disabled_drop remove_group_drop [OF f(1) _ _ _ f(2), where pre = "(([] @ g) @ s) @ t" and post = "r @ p" and epre = "[]"
        and epost = "[''ns3::RealtimeSimulatorImpl::SynchronizationMode'', ''ns3::TapBridge::Mode'']"]) simp_all
  have s5: "if_disabled fs ''RealTime'' (remove_group lookup [''WallClockSynchronizer'', ''RealtimeSimulatorImpl'']
        ''ns3::RealtimeSimulatorImpl::SynchronizationMode'') (drop_named lookup N4 M4 b) = Inr (drop_named lookup N5 M5 b)"
    unfolding N5_def M5_def using fr reg(3) n4 m4 f(4,5) unfolding in_list_def cls(6) enum_names_def
    by (intro if_disabled_drop remove_group_drop [OF f(1) _ _ _ f(2), where pre = "((([] @ g) @ s) @ t) @ e" and post = "p"
        and epre = "[] @ [''ns3::EmuNetDevice::EncapsulationMode'']" and epost = "[''ns3::TapBridge::Mode'']"]) simp_all
  have s6: "if_disabled fs ''TapBridge'' (remove_group lookup [''TapBridge'', ''TapBridgeHelper''] ''ns3::TapBridge::Mode'')
      (drop_named lookup N5 M5 b) = Inr (drop_named lookup (left_out fs ''TapBridge'' p \<union> N5) (left_out fs ''TapBridge'' [''ns3::TapBridge::Mode''] \<union> M5) b)"
    using fr reg(4) n5 m5 f(4,5) unfolding in_list_def cls(7) enum_names_def
    by (intro if_disabled_drop remove_group_drop [OF f(1) _ _ _ f(2), where pre = "(((([] @ g) @ s) @ t) @ e) @ r" and post = "[]"
        and epre = "([] @ [''ns3::EmuNetDevice::EncapsulationMode'']) @ [''ns3::RealtimeSimulatorImpl::SynchronizationMode'']" and epost = "[]"]) simp_all
  show ?thesis
    unfolding remove_disabled_def v option.case rbind_simps fs_def [symmetric] s1 s2 cls(4) [symmetric] s3 s4 s5 s6
      disabled_classes_def disabled_enums_def cls(2-7) [symmetric] N1_def [symmetric] N2_def [symmetric] N3_def [symmetric]
      N4_def [symmetric] N5_def [symmetric] M4_def [symmetric] M5_def [symmetric] ..
qed


text \<open>Every section that a plan of \<open>ns3_module_scan\<close> uses has an output file.\<close>

lemma section_sinks_keys:
  "set (map fst (section_sinks f modules)) = insert ''__main__'' (section_name ` set modules)"
proof -
  have "set (map fst (foldl (\<lambda>sinks m. AList.update (section_name m) (h m) sinks) d ms)) =
      set (map fst d) \<union> section_name ` set ms" for h :: "string \<Rightarrow> string" and d ms
    by (induction ms arbitrary: d) (auto simp: keys_update simp del: set_map)
  then show ?thesis unfolding section_sinks_def by (simp del: set_map)
qed

text \<open>
  The text of the error for an abstract class has two place-holders for one argument, so
  formatting it fails before the error is raised.
\<close>

lemma cannot_construct_TypeError:
  "lvalue \<noteq> [] \<Longrightarrow> \<not> starts_with lvalue ''None'' \<Longrightarrow> instance_creation True inc n lvalue ps t = Inl TypeError"
  by (simp add: instance_creation_def)

subsection \<open>Properties\<close>

text \<open>
  C10. With an API that registers what the code takes out, \<^verbatim>\<open>main\<close> removes
  exactly the classes and enumerations of the features that are not listed in
  \<^verbatim>\<open>NS3_ENABLED_FEATURES\<close>, keeps the order of the others, and raises nothing.
\<close>

theorem features_removed:
  assumes "api_ok lookup b" and "map_of environ ''NS3_ENABLED_FEATURES'' = Some v" and "fs = split_on CHR '','' v"
  shows "remove_disabled lookup environ b = Inr (b
    \<lparr>classes := filter (\<lambda>c. c \<notin> named lookup (disabled_classes fs)) (classes b),
     enums := filter (\<lambda>c. c \<notin> named lookup (disabled_enums fs)) (enums b)\<rparr>)"
proof -
  have "drop_named lookup {} {} b = b" by (simp add: drop_named_def named_def)
  then show ?thesis using remove_disabled_drop [OF assms(1,2)] by (simp add: assms(3) drop_named_def)
qed

definition all_features :: string where
  "all_features = ''GtkConfigStore,SqliteDataOutput,EmuNetDevice,RealTime,TapBridge''"

theorem features_removed_witness:
  "remove_disabled (\<lambda>n. if n \<in> set (required_names @ enum_names) then Some n else None)
     [(''NS3_ENABLED_FEATURES'', all_features)] \<lparr>classes = ''ns3::Node'' # required_names, enums = enum_names\<rparr> =
   Inr \<lparr>classes = ''ns3::Node'' # drop 5 required_names, enums = enum_names\<rparr>"
proof -
  let ?l = "\<lambda>n. if n \<in> set (required_names @ enum_names) then Some n else None"
  let ?b = "\<lparr>classes = ''ns3::Node'' # required_names, enums = enum_names\<rparr>"
  have "api_ok ?l ?b" by code_simp
  then have r: "remove_disabled ?l [(''NS3_ENABLED_FEATURES'', all_features)] ?b =
      Inr \<lparr>classes = filter (\<lambda>c. c \<notin> named ?l (disabled_classes (split_on CHR '','' all_features))) (''ns3::Node'' # required_names),
           enums = filter (\<lambda>c. c \<notin> named ?l (disabled_enums (split_on CHR '','' all_features))) enum_names\<rparr>"
    using features_removed [of ?l ?b "[(''NS3_ENABLED_FEATURES'', all_features)]" all_features] by simp
  have "filter (\<lambda>c. Some c \<notin> ?l ` disabled_classes (split_on CHR '','' all_features)) (''ns3::Node'' # required_names) =
      ''ns3::Node'' # drop 5 required_names" by code_simp
  moreover have "filter (\<lambda>c. Some c \<notin> ?l ` disabled_enums (split_on CHR '','' all_features)) enum_names = enum_names"
    by code_simp
  ultimately show ?thesis unfolding r in_named by (simp only:)
qed

text \<open>
  The C++ type a handler is created with reads back as the same
  pointee and the same constness, so that the type is not changed when it is transformed
  again; different pointees get different types.
\<close>

theorem pointer_types_roundtrip:
  assumes "pointee_ok t" and "pointee_ok u"
  shows "untransformed_type_traits (ptr_ctype (t, c)) = (Some (t @ '' *''), c) \<and>
    create_type_handler ParameterHandler (ptr_ctype (t, c) # rest) kw =
      Inr (ptr_ctype (t, c) # rest, AList.update ''transfer_ownership'' False kw, t @ '' *'') \<and>
    (ptr_ctype (t, c) = ptr_ctype (u, d) \<longleftrightarrow> t = u \<and> c = d)"
proof (intro conjI)
  show tr: "untransformed_type_traits (ptr_ctype (t, c)) = (Some (t @ '' *''), c)" by (rule traits_of_ctype [OF assms(1)])
  have "read_ctype (ptr_ctype (t, c)) = Inr (t, c)" using ptr.decode_encode [of "(t, c)"] assms(1) by simp
  from create_from_traits [OF this]
  show "create_type_handler ParameterHandler (ptr_ctype (t, c) # rest) kw =
      Inr (ptr_ctype (t, c) # rest, AList.update ''transfer_ownership'' False kw, t @ '' *'')"
    by (simp add: get_untransformed_name_def tr)
  show "ptr_ctype (t, c) = ptr_ctype (u, d) \<longleftrightarrow> t = u \<and> c = d"
    using ptr.enc_injective [of "(t, c)" "(u, d)"] assms by auto
qed

theorem pointer_types_roundtrip_witness:
  "untransformed_type_traits (ptr_ctype (''ns3::Packet'', True)) = (Some ''ns3::Packet *'', True) \<and>
   ptr_ctype (''ns3::Packet'', True) = ''ns3::Ptr< ns3::Packet const >'' \<and>
   ptr_ctype (''ns3::Packet'', True) \<noteq> ptr_ctype (''ns3::Node'', False)"
proof -
  have "pointee_ok ''ns3::Packet''" "pointee_ok ''ns3::Node''" by code_simp+
  from pointer_types_roundtrip [OF this, of True "[]" "[]" False] show ?thesis by (simp add: ptr_ctype_def)
qed

text \<open>
  For callbacks with at least a return type the generated classes
  and the registered handlers are those of the supported callbacks in order; the number in a
  class name is the position of the callback in the list, whether or not others before it
  are supported, so no two classes have the same name.
\<close>

theorem callback_classes_correct:
  assumes "\<forall>c\<in>set callbacks. c \<noteq> []"
  shows "\<exists>its. its = filter (\<lambda>it. callback_supported ts (snd it)) (enumerate 0 callbacks) \<and>
    generate_callback_classes ts callbacks = Inr (map (callback_text ts) its, map callback_handler its) \<and>
    distinct (map (\<lambda>it. snd (callback_handler it)) its)"
proof (intro exI conjI refl)
  let ?its = "filter (\<lambda>it. callback_supported ts (snd it)) (enumerate 0 callbacks)"
  have "\<forall>it\<in>set (enumerate 0 callbacks). snd it \<noteq> []"
    using assms by (auto simp: in_set_enumerate_eq)
  then show "generate_callback_classes ts callbacks = Inr (map (callback_text ts) ?its, map callback_handler ?its)"
    unfolding generate_callback_classes_def by (simp add: callback_classes_fold)
  have "inj_on (\<lambda>it. snd (callback_handler it)) (set ?its)"
    by (rule inj_onI) (auto simp: callback_handler_def nat_str_inj in_set_enumerate_eq)
  then show "distinct (map (\<lambda>it. snd (callback_handler it)) ?its)" by (simp add: distinct_map)
qed simp_all

definition plain_types :: typesys where
  "plain_types = \<lparr>parse = (\<lambda>t. (t, False)), return_known = (\<lambda>t. fst t = ''void''),
     param_known = (\<lambda>t n. fst t \<noteq> ''T''), proxy = (\<lambda>r as. '';'')\<rparr>"

theorem callback_classes_correct_witness:
  "\<exists>out. generate_callback_classes plain_types [[''T''], [''void'', ''int'', ''ns3::empty''], [''void'', ''T'']] =
     Inr (out, [(''ns3::Callback< void, int, ns3::empty >'', ''PythonCallbackImpl1'')])"
proof -
  let ?cs = "[[''T''], [''void'', ''int'', ''ns3::empty''], [''void'', ''T'']]"
  have "\<forall>c\<in>set ?cs. c \<noteq> []" by simp
  from callback_classes_correct [OF this, of plain_types] obtain its where
    its: "its = filter (\<lambda>it. callback_supported plain_types (snd it)) (enumerate 0 ?cs)"
      "generate_callback_classes plain_types ?cs = Inr (map (callback_text plain_types) its, map callback_handler its)" by blast
  have "map callback_handler (filter (\<lambda>it. callback_supported plain_types (snd it)) (enumerate 0 ?cs)) =
      [(''ns3::Callback< void, int, ns3::empty >'', ''PythonCallbackImpl1'')]" by code_simp
  then show ?thesis using its(2) unfolding its(1) [symmetric] by (intro exI) simp
qed

text \<open>
  C31. The scanner and the generator agree on the sections: when the
  generator gets the modules of the build, each in any order, every section into which a
  scan of these modules puts a file has an output file of its own name.
\<close>

theorem sections_have_files:
  assumes "key_order ko" and "ms = get_modules_and_headers mods hdrs"
    and "ns3_module_scan ko ms f = Inr p" and "set modules = set (map fst ms)"
  shows "\<exists>file. get_section_code_sink (section_sinks main modules) (classify p path) = Inr file"
proof -
  have "acyclic (set (module_graph ms)) \<and> nodes (module_graph ms) \<subseteq> set (map fst ms)"
    using scan_result(2) [OF assms(1), of ms f] assms(3) by (cases "acyclic (set (module_graph ms)) \<and> nodes (module_graph ms) \<subseteq> set (map fst ms)") auto
  note ok = this
  from scan_result(1) [OF assms(1) ok, of f] assms(3) obtain xs where
    xs: "set xs = nodes (module_graph ms)" "headers_map p = dict_update [] (header_entries ms xs)"
    by (elim exE conjE) (rule that, simp_all)
  have "classify p path \<in> insert ''__main__'' (section_name ` set modules)"
    using classify_cases [OF xs(2), of path] xs(1) ok assms(4) by blast
  then have "map_of (section_sinks main modules) (classify p path) \<noteq> None"
    unfolding section_sinks_keys [of main, symmetric] map_of_eq_None_iff by simp
  then show ?thesis by (auto simp: get_section_code_sink_def)
qed

theorem sections_have_files_witness:
  "\<exists>file. get_section_code_sink (section_sinks ''b/ns3module.cc'' [''flow-monitor'', ''core'', ''node''])
     (classify (projr (ns3_module_scan rev (get_modules_and_headers example_modules example_headers) ''gen.py''))
       ''ns3/socket.h'') = Inr file"
proof -
  let ?ms = "get_modules_and_headers example_modules example_headers"
  have "\<not> isl (ns3_module_scan rev ?ms ''gen.py'')" by code_simp
  then have s: "ns3_module_scan rev ?ms ''gen.py'' = Inr (projr (ns3_module_scan rev ?ms ''gen.py''))"
    by (cases "ns3_module_scan rev ?ms ''gen.py''") auto
  have "set [''flow-monitor'', ''core'', ''node''] = set (map fst ?ms)" by code_simp
  from sections_have_files [OF key_order_rev refl s this] show ?thesis .
qed

end
