(* ===== verification/BindMain.thy ===== *)
theory BindMain
  imports BindGen
begin

section \<open>The run of the bindings generator\<close>

text \<open>
  \<^verbatim>\<open>main\<close> of \<^verbatim>\<open>bindings/python/ns3modulegen.py\<close> and the customizations it calls in
  \<^verbatim>\<open>ns3modulegen_core_customizations.py\<close>: the generated API definitions register their
  wrappers, the customizations add to them, the disabled features are taken out, and the
  module is generated into the files of the sections. \<^verbatim>\<open>main\<close> of \<^verbatim>\<open>ns3modulescan.py\<close>, which
  writes those API definitions, closes the theory.
\<close>

subsection \<open>The module\<close>

text \<open>
  The root module of pybindgen: the lists of its wrappers, its dictionary of names, the
  parameters of the methods of a class, and the other calls made on it, in order.
\<close>

datatype 'c module_op =
    Include string
  | CustomMethod 'c string string "string list"
  | ArgvMethod 'c string string bool
  | PlainMethod 'c string
  | ClassEnum 'c string "(string \<times> string) list"
  | ClassConstructor 'c "(string \<times> string \<times> string option) list"
  | NotConstructible 'c string
  | TypeAlias string string
  | InitCode string
  | BodyText string
  | HeaderText string
  | TypeSlot 'c string string
  | ConstructionHooks 'c
  | CallbackCode "string list" "(string \<times> string) list"

record 'c root_module =
  members :: "'c bindings"
  registry :: "string \<Rightarrow> 'c option"
  method_params :: "'c \<Rightarrow> meth_param list list"
  module_calls :: "'c module_op list"

definition module_call :: "'c module_op \<Rightarrow> 'c root_module \<Rightarrow> 'c root_module" where
  "module_call c m = m\<lparr>module_calls := module_calls m @ [c]\<rparr>"

definition module_get :: "'c root_module \<Rightarrow> string \<Rightarrow> 'c res" where
  "module_get m name = lookup_name (registry m) name"

text \<open>\<^verbatim>\<open>Module.add_class\<close>: the class is listed and registered under its name and its full name.\<close>

definition add_class :: "'c \<Rightarrow> string \<Rightarrow> string \<Rightarrow> 'c root_module \<Rightarrow> 'c root_module" where
  "add_class c cname full m =
     m\<lparr>members := (members m)\<lparr>classes := classes (members m) @ [c]\<rparr>,
       registry := (registry m)(cname \<mapsto> c, full \<mapsto> c)\<rparr>"

subsection \<open>The customizations\<close>

definition method_flags :: "bool \<Rightarrow> string list" where
  "method_flags is_static = [''METH_VARARGS'', ''METH_KEYWORDS''] @ (if is_static then [''METH_STATIC''] else [])"

definition Simulator_customizations :: "'c root_module \<Rightarrow> 'c root_module res" where
  "Simulator_customizations m =
     rbind (module_get m ''ns3::Simulator'') (\<lambda>s.
       Inr (fold (\<lambda>(method, wrapper). module_call (CustomMethod s method wrapper (method_flags True)))
         [(''Schedule'', ''_wrap_Simulator_Schedule''), (''ScheduleNow'', ''_wrap_Simulator_ScheduleNow''),
          (''ScheduleDestroy'', ''_wrap_Simulator_ScheduleDestroy''), (''Run'', ''_wrap_Simulator_Run'')] m))"

definition CommandLine_customizations :: "'c root_module \<Rightarrow> 'c root_module res" where
  "CommandLine_customizations m =
     rbind (module_get m ''ns3::CommandLine'') (\<lambda>c.
       Inr (module_call (CustomMethod c ''AddValue'' ''_wrap_CommandLine_AddValue'' (method_flags False))
         (module_call (ArgvMethod c ''Parse'' ''argv'' False) m)))"

definition TypeId_customizations :: "'c root_module \<Rightarrow> 'c root_module res" where
  "TypeId_customizations m =
     rbind (module_get m ''ns3::TypeId'') (\<lambda>t.
       Inr (module_call (CustomMethod t ''LookupByNameFailSafe'' ''_wrap_TypeId_LookupByNameFailSafe'' (method_flags True)) m))"

text \<open>\<^verbatim>\<open>str.upper\<close> on ASCII text.\<close>

definition upper :: "string \<Rightarrow> string" where
  "upper = map (\<lambda>c. let n = of_char c :: nat in if 97 \<le> n \<and> n \<le> 122 then char_of (n - 32) else c)"

definition ios_flags :: "string list" where
  "ios_flags = [''in'', ''out'', ''ate'', ''app'', ''trunc'', ''binary'']"

definition flag_constant :: "string \<Rightarrow> string" where
  "flag_constant flag = ''PyModule_AddIntConstant(m, (char *) '' @ [CHR 34] @ ''STD_IOS_'' @ upper flag @ [CHR 34] @
     '', std::ios::'' @ flag @ '');''"

text \<open>\<open>std_class\<close> gives the objects of the two classes that are added.\<close>

definition add_std_ofstream :: "(string \<Rightarrow> 'c) \<Rightarrow> 'c root_module \<Rightarrow> 'c root_module" where
  "add_std_ofstream std_class m =
     (let ostream = std_class ''ostream''; ofstream = std_class ''ofstream'';
          m1 = module_call (Include ''<fstream>'') m;
          m2 = module_call (NotConstructible ostream ''abstract base class'') (add_class ostream ''ostream'' ''::std::ostream'' m1);
          m3 = module_call (ClassEnum ofstream ''openmode''
                 (map (\<lambda>f. (f, ''std::ios_base::'' @ f)) [''app'', ''ate'', ''binary'', ''in'', ''out'', ''trunc'']))
                 (add_class ofstream ''ofstream'' ''::std::ofstream'' m2);
          m4 = module_call (ClassConstructor ofstream [(''const char *'', ''filename'', None),
                 (''::std::ofstream::openmode'', ''mode'', Some ''std::ios_base::out'')]) m3;
          m5 = module_call (PlainMethod ofstream ''close'') m4;
          m6 = fold (\<lambda>alias. module_call (TypeAlias alias ''int'')) [''std::_Ios_Openmode'', ''std::ios::openmode''] m5
      in fold (\<lambda>flag. module_call (InitCode (flag_constant flag))) ios_flags m6)"

definition hash_function :: string where
  "hash_function = ''\<newline>long\<newline>_ns3_Ipv4Address_tp_hash (PyObject *obj)\<newline>{\<newline>   PyNs3Ipv4Address *addr = reinterpret_cast<PyNs3Ipv4Address *> (obj);\<newline>   return static_cast<long> (ns3::Ipv4AddressHash () (*addr->obj));\<newline>}\<newline>''"

definition hash_header :: string where
  "hash_header = ''long _ns3_Ipv4Address_tp_hash (PyObject *obj);''"

text \<open>The texts are written before the class is looked up.\<close>

definition add_ipv4_address_tp_hash :: "'c root_module \<Rightarrow> 'c root_module res" where
  "add_ipv4_address_tp_hash m =
     (let m1 = module_call (BodyText hash_function) m;
          m2 = module_call (HeaderText hash_header) m1
      in rbind (module_get m2 ''Ipv4Address'') (\<lambda>c. Inr (module_call (TypeSlot c ''tp_hash'' ''_ns3_Ipv4Address_tp_hash'') m2)))"

text \<open>
  The hooks of \<^verbatim>\<open>ns3::Object\<close> are \<open>helper_class_hook\<close>, \<open>instance_creation\<close> and
  \<open>post_instance_creation\<close>.
\<close>

definition Object_customizations :: "'c root_module \<Rightarrow> 'c root_module res" where
  "Object_customizations m = rbind (module_get m ''ns3::Object'') (\<lambda>c. Inr (module_call (ConstructionHooks c) m))"

definition customize_attributes :: "'c root_module \<Rightarrow> 'c root_module" where
  "customize_attributes m =
     m\<lparr>method_params := (\<lambda>c. if c \<in> set (classes (members m)) then map (map fix_attribute_default) (method_params m c)
                               else method_params m c)\<rparr>"

subsection \<open>The generator\<close>

text \<open>
  \<open>generated\<close>: the three functions a module of API definitions has. The rest of what the
  run uses: local modules with further definitions (the list of the code is empty), the
  objects of added classes, the types pybindgen knows, the scanned callbacks, which files
  can be opened, and the exception \<^verbatim>\<open>root_module.generate\<close> ends with, if any.
\<close>

record 'c generated =
  register_types :: "'c root_module \<Rightarrow> 'c root_module res"
  register_methods :: "'c root_module \<Rightarrow> 'c root_module res"
  register_functions :: "'c root_module \<Rightarrow> 'c root_module res"

record 'c generator_input =
  module_init :: "'c root_module"
  api :: "'c generated"
  local_api :: "string \<Rightarrow> 'c generated"
  std_class :: "string \<Rightarrow> 'c"
  types_known :: typesys
  callback_classes :: "string list list"
  can_open :: "string \<Rightarrow> bool"
  generate_error :: "(string, string) dict \<Rightarrow> 'c root_module \<Rightarrow> py_exc option"

definition local_modules :: "string list" where
  "local_modules = []"

datatype file_event = Opened string | Closed string

fun open_all :: "(string \<Rightarrow> bool) \<Rightarrow> string list \<Rightarrow> file_event list \<times> unit res" where
  "open_all ok [] = ([], Inr ())"
| "open_all ok (f # fs) =
     (if ok f then (case open_all ok fs of (es, r) \<Rightarrow> (Opened f # es, r)) else ([], Inl IOError))"

definition section_files :: "string \<Rightarrow> string list \<Rightarrow> string list" where
  "section_files main_file_name modules =
     [main_file_name, header_sink main_file_name] @
     map (\<lambda>m. path_join (path_dir main_file_name) (section_name m @ ''.cc'')) modules"

definition close_sections :: "string \<Rightarrow> (string, string) dict \<Rightarrow> file_event list" where
  "close_sections main_file_name sinks =
     [Closed (header_sink main_file_name), Closed main_file_name] @ map (\<lambda>(s, f). Closed f) sinks"

definition register_phase :: "'c generator_input \<Rightarrow> 'c root_module \<Rightarrow> 'c root_module res" where
  "register_phase g m =
     rbind (register_types (api g) (module_call (Include ([CHR 34] @ ''everything.h'' @ [CHR 34])) m)) (\<lambda>m.
     rbind (Simulator_customizations m) (\<lambda>m.
     rbind (CommandLine_customizations m) (\<lambda>m.
     rbind (TypeId_customizations m) (\<lambda>m.
     rbind (add_ipv4_address_tp_hash (add_std_ofstream (std_class g) m)) (\<lambda>m.
     rfold (\<lambda>m l. register_types (local_api g l) m) m local_modules)))))"

definition method_phase :: "'c generator_input \<Rightarrow> 'c root_module \<Rightarrow> 'c root_module res" where
  "method_phase g m =
     rbind (generate_callback_classes (types_known g) (callback_classes g)) (\<lambda>(texts, handlers).
     rbind (register_methods (api g) (module_call (CallbackCode texts handlers) m)) (\<lambda>m.
     rbind (rfold (\<lambda>m l. register_methods (local_api g l) m) m local_modules) (\<lambda>m.
     rbind (Object_customizations m) (\<lambda>m.
     rbind (register_functions (api g) (customize_attributes m)) (\<lambda>m.
     rfold (\<lambda>m l. register_functions (local_api g l) m) m local_modules)))))"

text \<open>
  The script reads \<^verbatim>\<open>sys.argv[2]\<close>, the directory of the API definitions, as soon as it is
  imported. The files are known by their paths: of two modules with the same section the
  file is opened twice, and the sink that stays in the dictionary is closed.
\<close>

definition generator_main ::
  "'c generator_input \<Rightarrow> (string, string) dict \<Rightarrow> string list \<Rightarrow> file_event list \<times> 'c root_module res" where
  "generator_main g environ argv =
     (case rbind (py_nth argv 2) (\<lambda>_. py_nth argv 1) of Inl e \<Rightarrow> ([], Inl e)
      | Inr main_file_name \<Rightarrow>
          (let modules = drop 3 argv; sinks = section_sinks main_file_name modules in
           case open_all (can_open g) (section_files main_file_name modules) of
             (es, Inl e) \<Rightarrow> (es, Inl e)
           | (es, Inr _) \<Rightarrow>
               (case rbind (register_phase g (module_init g)) (\<lambda>m.
                     rbind (method_phase g m) (\<lambda>m.
                     rbind (remove_disabled (registry m) environ (members m)) (\<lambda>b.
                     (let m = m\<lparr>members := b\<rparr> in
                      case generate_error g sinks m of Some e \<Rightarrow> Inl e | None \<Rightarrow> Inr m)))) of
                  Inl e \<Rightarrow> (es, Inl e)
                | Inr m \<Rightarrow> (es @ close_sections main_file_name sinks, Inr m))))"

subsection \<open>What a run leaves\<close>

lemma module_call_fields [simp]:
  "members (module_call c m) = members m" "registry (module_call c m) = registry m"
  "method_params (module_call c m) = method_params m" "module_calls (module_call c m) = module_calls m @ [c]"
  by (simp_all add: module_call_def)

lemma module_call_fold [simp]:
  "members (fold (\<lambda>x. module_call (f x)) xs m) = members m" "registry (fold (\<lambda>x. module_call (f x)) xs m) = registry m"
  "method_params (fold (\<lambda>x. module_call (f x)) xs m) = method_params m"
  "module_calls (fold (\<lambda>x. module_call (f x)) xs m) = module_calls m @ map f xs"
  by (induction xs arbitrary: m) simp_all

text \<open>
  What the definitions of the API do with a module that has the names of \<open>r\<close>: they return,
  they leave the calls of \<^verbatim>\<open>main\<close> alone, names once registered keep their wrapper, and the
  functions do not touch the classes. Nothing is said of a module without those names,
  where looking one up raises KeyError.
\<close>

definition registers :: "(string \<Rightarrow> 'c option) \<Rightarrow> ('c root_module \<Rightarrow> 'c root_module res) \<Rightarrow> bool" where
  "registers r f \<longleftrightarrow> (\<forall>m. r \<subseteq>\<^sub>m registry m \<longrightarrow>
     (\<exists>m'. f m = Inr m' \<and> module_calls m' = module_calls m \<and> registry m \<subseteq>\<^sub>m registry m'))"

definition registers_functions :: "(string \<Rightarrow> 'c option) \<Rightarrow> ('c root_module \<Rightarrow> 'c root_module res) \<Rightarrow> bool" where
  "registers_functions r f \<longleftrightarrow> (\<forall>m. r \<subseteq>\<^sub>m registry m \<longrightarrow>
     (\<exists>m'. f m = Inr m' \<and> module_calls m' = module_calls m \<and> registry m \<subseteq>\<^sub>m registry m' \<and>
       members m' = members m \<and> method_params m' = method_params m))"

text \<open>The names that \<open>add_std_ofstream\<close> registers.\<close>

definition stream_names :: "string list" where
  "stream_names = [''ostream'', ''::std::ostream'', ''ofstream'', ''::std::ofstream'']"

text \<open>The names the customizations look up, and the calls of a whole run in terms of their classes.\<close>

definition type_names :: "string list" where
  "type_names = [''ns3::Simulator'', ''ns3::CommandLine'', ''ns3::TypeId'', ''Ipv4Address'', ''ns3::Object'']"

definition stream_calls :: "(string \<Rightarrow> 'c) \<Rightarrow> 'c module_op list" where
  "stream_calls std = module_calls (add_std_ofstream std
     \<lparr>members = \<lparr>classes = [], enums = []\<rparr>, registry = Map.empty, method_params = (\<lambda>_. []), module_calls = []\<rparr>)"

definition customization_calls :: "(string \<Rightarrow> 'c) \<Rightarrow> (string \<Rightarrow> 'c) \<Rightarrow> 'c module_op list" where
  "customization_calls cls std =
     map (\<lambda>(method, wrapper). CustomMethod (cls ''ns3::Simulator'') method wrapper (method_flags True))
       [(''Schedule'', ''_wrap_Simulator_Schedule''), (''ScheduleNow'', ''_wrap_Simulator_ScheduleNow''),
        (''ScheduleDestroy'', ''_wrap_Simulator_ScheduleDestroy''), (''Run'', ''_wrap_Simulator_Run'')] @
     [ArgvMethod (cls ''ns3::CommandLine'') ''Parse'' ''argv'' False,
      CustomMethod (cls ''ns3::CommandLine'') ''AddValue'' ''_wrap_CommandLine_AddValue'' (method_flags False),
      CustomMethod (cls ''ns3::TypeId'') ''LookupByNameFailSafe'' ''_wrap_TypeId_LookupByNameFailSafe'' (method_flags True)] @
     stream_calls std"

lemma add_class_fields [simp]:
  "module_calls (add_class c n f m) = module_calls m" "method_params (add_class c n f m) = method_params m"
  "registry (add_class c n f m) = (registry m)(n \<mapsto> c, f \<mapsto> c)"
  by (simp_all add: add_class_def)

lemma add_std_ofstream_calls:
  "module_calls (add_std_ofstream std m) = module_calls m @ stream_calls std"
  by (simp add: stream_calls_def add_std_ofstream_def Let_def)

lemma register_phase_result:
  assumes types: "register_types (api g) (module_call (Include ([CHR 34] @ ''everything.h'' @ [CHR 34])) m) = Inr m1"
    and calls: "module_calls m1 = module_calls m @ [Include ([CHR 34] @ ''everything.h'' @ [CHR 34])]"
    and names: "list_all (\<lambda>n. registry m1 n \<noteq> None) (butlast type_names)"
  shows "\<exists>m2. register_phase g m = Inr m2 \<and> (\<forall>n\<in>set type_names. registry m2 n = registry m1 n) \<and>
    (\<forall>n. n \<notin> set stream_names \<longrightarrow> registry m2 n = registry m1 n) \<and>
    module_calls m2 = module_calls m @ [Include ([CHR 34] @ ''everything.h'' @ [CHR 34])] @
      customization_calls (the \<circ> registry m2) (std_class g) @
      [BodyText hash_function, HeaderText hash_header, TypeSlot (the (registry m2 ''Ipv4Address'')) ''tp_hash'' ''_ns3_Ipv4Address_tp_hash'']"
proof -
  obtain s c t i where n: "registry m1 ''ns3::Simulator'' = Some s" "registry m1 ''ns3::CommandLine'' = Some c"
      "registry m1 ''ns3::TypeId'' = Some t" "registry m1 ''Ipv4Address'' = Some i"
    using names by (auto simp: type_names_def)
  have reg: "registry (add_std_ofstream (std_class g) x) n = registry x n" if "n \<in> set type_names" for x n
    using that by (auto simp: add_std_ofstream_def Let_def type_names_def)
  have i: "registry (add_std_ofstream (std_class g) x) ''Ipv4Address'' = registry x ''Ipv4Address''" for x
    using reg by (simp add: type_names_def)
  have rest: "registry (add_std_ofstream (std_class g) x) n = registry x n" if "n \<notin> set stream_names" for x n
    using that by (auto simp: add_std_ofstream_def Let_def stream_names_def)
  show ?thesis
    unfolding register_phase_def types
    by (simp add: n i reg calls Simulator_customizations_def CommandLine_customizations_def TypeId_customizations_def
        add_ipv4_address_tp_hash_def module_get_def lookup_name_def local_modules_def Let_def
        add_std_ofstream_calls customization_calls_def) (simp add: n reg rest type_names_def)
qed

text \<open>Default values of attribute parameters have a type.\<close>

definition attributes_typed :: "'c root_module \<Rightarrow> bool" where
  "attributes_typed m \<longleftrightarrow> list_all (\<lambda>c. list_all (list_all (\<lambda>p. ref_class p = Some ''AttributeValue'' \<and>
     default_value p \<noteq> None \<longrightarrow> default_value_type p \<noteq> None)) (method_params m c)) (classes (members m))"

lemma customize_attributes_typed: "attributes_typed (customize_attributes m)"
  by (auto simp: attributes_typed_def customize_attributes_def list_all_iff fix_attribute_default_def)

lemma customize_attributes_fields [simp]:
  "members (customize_attributes m) = members m" "registry (customize_attributes m) = registry m"
  "module_calls (customize_attributes m) = module_calls m"
  by (simp_all add: customize_attributes_def)

lemma map_le_Some: "m \<subseteq>\<^sub>m m' \<Longrightarrow> m x = Some y \<Longrightarrow> m' x = Some y"
  by (metis domI map_le_def)

lemma registersD:
  "registers r f \<Longrightarrow> r \<subseteq>\<^sub>m registry m \<Longrightarrow> \<exists>m'. f m = Inr m' \<and> module_calls m' = module_calls m \<and> registry m \<subseteq>\<^sub>m registry m'"
  by (simp add: registers_def)

lemma method_phase_result:
  assumes cb: "generate_callback_classes (types_known g) (callback_classes g) = Inr (texts, handlers)"
    and methods: "registers r (register_methods (api g))" and funs: "registers_functions r (register_functions (api g))"
    and r: "r \<subseteq>\<^sub>m registry m" and obj: "registry m ''ns3::Object'' = Some ob"
  shows "\<exists>m'. method_phase g m = Inr m' \<and> registry m \<subseteq>\<^sub>m registry m' \<and> attributes_typed m' \<and>
    module_calls m' = module_calls m @ [CallbackCode texts handlers, ConstructionHooks ob]"
proof -
  obtain m1 where m1: "register_methods (api g) (module_call (CallbackCode texts handlers) m) = Inr m1"
      "module_calls m1 = module_calls m @ [CallbackCode texts handlers]" "registry m \<subseteq>\<^sub>m registry m1"
    using registersD [OF methods, of "module_call (CallbackCode texts handlers) m"] r unfolding module_call_fields by blast
  have ob: "registry m1 ''ns3::Object'' = Some ob" using map_le_Some [OF m1(3), of "''ns3::Object''" ob] obj by simp
  define m2 where "m2 = customize_attributes (module_call (ConstructionHooks ob) m1)"
  have "r \<subseteq>\<^sub>m registry m2" using r m1(3) by (simp add: m2_def) (rule map_le_trans)
  obtain m3 where m3: "register_functions (api g) m2 = Inr m3" "module_calls m3 = module_calls m2"
      "registry m2 \<subseteq>\<^sub>m registry m3" "members m3 = members m2" "method_params m3 = method_params m2"
    using funs \<open>r \<subseteq>\<^sub>m registry m2\<close> unfolding registers_functions_def by blast
  have "method_phase g m = Inr m3"
    by (simp add: method_phase_def cb m1(1) local_modules_def Object_customizations_def module_get_def lookup_name_def
        ob m2_def [symmetric] m3(1))
  moreover have "attributes_typed m3"
    using customize_attributes_typed [of "module_call (ConstructionHooks ob) m1"] m3(4,5)
    by (simp add: attributes_typed_def m2_def)
  moreover have "registry m \<subseteq>\<^sub>m registry m3" using m1(3) m3(3) by (simp add: m2_def map_le_trans)
  ultimately show ?thesis using m1(2) m3(2) by (simp add: m2_def)
qed

subsection \<open>The files\<close>

definition section_path :: "string \<Rightarrow> string \<Rightarrow> string" where
  "section_path main_file_name s =
     (if s = ''__main__'' then main_file_name else path_join (path_dir main_file_name) (s @ ''.cc''))"

lemma section_name_main: "section_name m \<noteq> ''__main__''"
  by (simp add: section_name_def)

lemma set_update_distinct:
  assumes "distinct (map fst al)"
  shows "set (AList.update k v al) = insert (k, v) {x \<in> set al. fst x \<noteq> k}"
  using assms by (induction al) force+

lemma section_sinks_paths:
  "set (section_sinks main_file_name modules) =
     (\<lambda>s. (s, section_path main_file_name s)) ` insert ''__main__'' (section_name ` set modules)"
proof (induction modules rule: rev_induct)
  case Nil
  then show ?case by (simp add: section_sinks_def section_path_def)
next
  case (snoc m ms)
  have d: "distinct (map fst (section_sinks main_file_name ms))"
    by (induction ms rule: rev_induct) (simp_all add: section_sinks_def distinct_update)
  have u: "section_sinks main_file_name (ms @ [m]) =
      AList.update (section_name m) (section_path main_file_name (section_name m)) (section_sinks main_file_name ms)"
    by (simp add: section_sinks_def section_path_def section_name_main)
  show ?case unfolding u set_update_distinct [OF d] snoc.IH by auto
qed

lemma open_all_result:
  "open_all ok fs = (map Opened (takeWhile ok fs), if list_all ok fs then Inr () else Inl IOError)"
  by (induction fs) simp_all

lemma section_events:
  "{f. Closed f \<in> set (close_sections main_file_name (section_sinks main_file_name modules))} =
     set (section_files main_file_name modules)"
proof -
  have "snd ` set (section_sinks main_file_name modules) =
      insert main_file_name ((\<lambda>m. path_join (path_dir main_file_name) (section_name m @ ''.cc'')) ` set modules)"
    by (simp add: section_sinks_paths section_path_def section_name_main image_image)
  moreover have "{f. Closed f \<in> set (close_sections main_file_name sinks)} =
      {header_sink main_file_name, main_file_name} \<union> snd ` set sinks" for sinks
    by (auto simp: close_sections_def) force+
  ultimately show ?thesis by (auto simp: section_files_def)
qed

lemma generator_success:
  assumes "generator_main g environ argv = (es, Inr m)"
  shows "es = map Opened (section_files (argv ! 1) (drop 3 argv)) @
    close_sections (argv ! 1) (section_sinks (argv ! 1) (drop 3 argv))"
proof (cases "rbind (py_nth argv 2) (\<lambda>_. py_nth argv 1)")
  case (Inl e)
  then show ?thesis using assms by (simp add: generator_main_def)
next
  case (Inr mf)
  then have "py_nth argv 1 = Inr mf" by simp
  then have mf: "argv ! 1 = mf" by (auto simp: py_nth_def py_index_def split: if_splits option.splits)
  show ?thesis
  proof (cases "list_all (can_open g) (section_files mf (drop 3 argv))")
    case False
    then show ?thesis using assms by (simp add: generator_main_def Inr open_all_result Let_def)
  next
    case True
    then have "takeWhile (can_open g) (section_files mf (drop 3 argv)) = section_files mf (drop 3 argv)"
      by (simp add: list_all_iff takeWhile_eq_all_conv)
    with True assms show ?thesis
      unfolding mf generator_main_def Inr open_all_result Let_def by (auto simp del: set_append split: sum.splits)
  qed
qed


text \<open>The wrappers registered when the features are taken out include those of the features.\<close>

definition features_registered :: "'c generator_input \<Rightarrow> bool" where
  "features_registered g \<longleftrightarrow> (case rbind (register_phase g (module_init g)) (method_phase g) of
     Inl e \<Rightarrow> True | Inr m \<Rightarrow> api_ok (registry m) (members m))"

text \<open>
  C12. A run that fails closes no file; a run that succeeds has closed every
  file it opened and has opened the files of all sections.
\<close>

theorem generator_files:
  "case generator_main g environ argv of
     (es, Inl e) \<Rightarrow> (\<forall>f. Closed f \<notin> set es)
   | (es, Inr m) \<Rightarrow> {f. Closed f \<in> set es} = {f. Opened f \<in> set es} \<and>
       {f. Opened f \<in> set es} = set (section_files (argv ! 1) (drop 3 argv))"
proof (cases "rbind (py_nth argv 2) (\<lambda>_. py_nth argv 1)")
  case (Inl e)
  then show ?thesis by (simp add: generator_main_def)
next
  case (Inr mf)
  then have "py_nth argv 1 = Inr mf" by simp
  then have mf: "mf = argv ! 1" by (auto simp: py_nth_def py_index_def split: if_splits option.splits)
  show ?thesis
  proof (cases "list_all (can_open g) (section_files mf (drop 3 argv))")
    case False
    then show ?thesis by (auto simp: generator_main_def Inr open_all_result Let_def)
  next
    case True
    then have t: "takeWhile (can_open g) (section_files mf (drop 3 argv)) = section_files mf (drop 3 argv)"
      by (simp add: list_all_iff takeWhile_eq_all_conv)
    have c: "{f. Closed f \<in> set (map Opened fs @ close_sections mf (section_sinks mf (drop 3 argv)))} =
        set (section_files mf (drop 3 argv))" for fs
      using section_events [of mf "drop 3 argv"] by auto
    have n: "Closed f \<notin> set (map Opened fs)" for f fs by auto
    have o: "{f. Opened f \<in> set (map Opened fs @ close_sections mf sinks)} = set fs" for fs sinks
      by (auto simp: close_sections_def)
    show ?thesis unfolding mf [symmetric]
      using True by (auto simp: generator_main_def Inr open_all_result t Let_def c o n simp del: set_append set_map split: sum.split)
  qed
qed

text \<open>
  C11. Suppose \<^verbatim>\<open>register_types\<close> returns and registers the names that the
  customizations look up, but none of the streams', and that on a module with the names it
  has registered \<^verbatim>\<open>register_methods\<close> and \<^verbatim>\<open>register_functions\<close> return and keep those names;
  that the wrappers the removal of features looks up are registered by then; that the
  callbacks can be generated, the files opened and pybindgen's generation succeeds. Then the
  generator succeeds, having made exactly the planned calls on the classes those names have
  in the end; every default value of an attribute parameter has a type, and no class or
  enumeration of a disabled feature is left.
\<close>

theorem generator_correct:
  assumes "registers (registry m1) (register_methods (api g))"
    and "registers_functions (registry m1) (register_functions (api g))"
    and types: "register_types (api g) (module_call (Include ([CHR 34] @ ''everything.h'' @ [CHR 34])) (module_init g)) = Inr m1"
      "module_calls m1 = module_calls (module_init g) @ [Include ([CHR 34] @ ''everything.h'' @ [CHR 34])]"
    and names: "list_all (\<lambda>n. registry m1 n \<noteq> None) type_names" "list_all (\<lambda>n. registry m1 n = None) stream_names"
    and cb: "generate_callback_classes (types_known g) (callback_classes g) = Inr (texts, handlers)"
    and features: "features_registered g"
    and v: "map_of environ ''NS3_ENABLED_FEATURES'' = Some v"
    and files: "list_all (can_open g) (section_files main_file_name modules)" and gen: "generate_error g = (\<lambda>_ _. None)"
  shows "\<exists>es m. generator_main g environ ([script, main_file_name, directory] @ modules) = (es, Inr m) \<and>
    module_calls m = module_calls (module_init g) @ [Include ([CHR 34] @ ''everything.h'' @ [CHR 34])] @
      customization_calls (the \<circ> registry m) (std_class g) @
      [BodyText hash_function, HeaderText hash_header,
       TypeSlot (the (registry m ''Ipv4Address'')) ''tp_hash'' ''_ns3_Ipv4Address_tp_hash'',
       CallbackCode texts handlers, ConstructionHooks (the (registry m ''ns3::Object''))] \<and>
    attributes_typed m \<and>
    set (classes (members m)) \<inter> named (registry m) (disabled_classes (split_on CHR '','' v)) = {} \<and>
    set (enums (members m)) \<inter> named (registry m) (disabled_enums (split_on CHR '','' v)) = {}"
proof -
  obtain m2 where m2: "register_phase g (module_init g) = Inr m2" "\<forall>n\<in>set type_names. registry m2 n = registry m1 n"
      "\<forall>n. n \<notin> set stream_names \<longrightarrow> registry m2 n = registry m1 n"
      "module_calls m2 = module_calls (module_init g) @ [Include ([CHR 34] @ ''everything.h'' @ [CHR 34])] @
        customization_calls (the \<circ> registry m2) (std_class g) @
        [BodyText hash_function, HeaderText hash_header, TypeSlot (the (registry m2 ''Ipv4Address'')) ''tp_hash'' ''_ns3_Ipv4Address_tp_hash'']"
    using register_phase_result [OF types] names(1) by (auto simp: type_names_def)
  obtain ob where ob: "registry m2 ''ns3::Object'' = Some ob" using m2(2) names(1) by (auto simp: type_names_def)
  have le: "registry m1 \<subseteq>\<^sub>m registry m2"
    using m2(3) names(2) by (auto simp: map_le_def list_all_iff) (metis option.distinct(1))
  obtain m3 where m3: "method_phase g m2 = Inr m3" "registry m2 \<subseteq>\<^sub>m registry m3" "attributes_typed m3"
      "module_calls m3 = module_calls m2 @ [CallbackCode texts handlers, ConstructionHooks ob]"
    using method_phase_result [OF cb assms(1,2) le ob] by blast
  have reg: "registry m3 n = registry m2 n" if "n \<in> set type_names" for n
    using that names(1) m2(2) map_le_Some [OF m3(2), of n] by (cases "registry m2 n") (auto simp: type_names_def)
  have cc: "customization_calls (the \<circ> registry m2) (std_class g) = customization_calls (the \<circ> registry m3) (std_class g)"
    using reg by (simp add: customization_calls_def type_names_def)
  have ok: "api_ok (registry m3) (members m3)" using features m2(1) m3(1) by (simp add: features_registered_def)
  have "drop_named (registry m3) {} {} (members m3) = members m3" by (simp add: drop_named_def named_def)
  then obtain b where b: "remove_disabled (registry m3) environ (members m3) = Inr b"
      "b = drop_named (registry m3) (disabled_classes (split_on CHR '','' v)) (disabled_enums (split_on CHR '','' v)) (members m3)"
    using remove_disabled_drop [OF ok v] by simp
  define m where "m = m3\<lparr>members := b\<rparr>"
  have "py_nth ([script, main_file_name, directory] @ modules) 1 = Inr main_file_name"
      "py_nth ([script, main_file_name, directory] @ modules) 2 = Inr directory"
    using py_nth_nat [of "[script, main_file_name, directory] @ modules" 1]
      py_nth_nat [of "[script, main_file_name, directory] @ modules" 2] by simp_all
  then have "\<exists>es. generator_main g environ ([script, main_file_name, directory] @ modules) = (es, Inr m)"
    using files by (simp add: generator_main_def open_all_result m2(1) m3(1) b(1) gen Let_def m_def)
  moreover have "attributes_typed m" using m3(3) by (auto simp: attributes_typed_def m_def b(2) drop_named_def list_all_iff)
  moreover have "registry m = registry m3" "module_calls m = module_calls m3" by (simp_all add: m_def)
  moreover have "set (classes (members m)) \<inter> named (registry m3) (disabled_classes (split_on CHR '','' v)) = {}"
      "set (enums (members m)) \<inter> named (registry m3) (disabled_enums (split_on CHR '','' v)) = {}"
    by (auto simp: m_def b(2) drop_named_def)
  moreover have "registry m3 ''Ipv4Address'' = registry m2 ''Ipv4Address''" "the (registry m3 ''ns3::Object'') = ob"
    using reg ob by (simp_all add: type_names_def)
  ultimately show ?thesis using m2(4) m3(4) cc by auto
qed


text \<open>
  An API with the needed names and one method with an attribute parameter, which raises
  KeyError as the generated definitions do when a name is not registered.
\<close>

definition demo_registry :: "string \<Rightarrow> string option" where
  "demo_registry n = (if n \<in> set (type_names @ required_names @ enum_names) then Some n else None)"

definition demo_root :: "string root_module" where
  "demo_root = \<lparr>members = \<lparr>classes = [], enums = []\<rparr>, registry = (\<lambda>_. None), method_params = (\<lambda>_. []), module_calls = []\<rparr>"

definition demo_generated :: "string generated" where
  "demo_generated = \<lparr>
     register_types = (\<lambda>m. Inr (m\<lparr>members := \<lparr>classes = type_names @ required_names, enums = enum_names\<rparr>, registry := demo_registry\<rparr>)),
     register_methods = (\<lambda>m. rbind (module_get m ''ns3::Object'') (\<lambda>ob. Inr (m\<lparr>method_params := (\<lambda>c. if c = ob then
       [[\<lparr>ref_class = Some ''AttributeValue'', default_value = Some ''EmptyAttribute()'', default_value_type = None\<rparr>]] else [])\<rparr>))),
     register_functions = (\<lambda>m. rbind (module_get m ''ns3::TypeId'') (\<lambda>_. Inr m))\<rparr>"

definition demo_generator :: "string generator_input" where
  "demo_generator = \<lparr>module_init = demo_root, api = demo_generated, local_api = (\<lambda>_. demo_generated), std_class = (\<lambda>n. ''std::'' @ n),
     types_known = plain_types,
     callback_classes = [[''void'', ''int'']], can_open = (\<lambda>_. True), generate_error = (\<lambda>_ _. None)\<rparr>"

definition demo_final :: "string \<Rightarrow> string option" where
  "demo_final = demo_registry(''ostream'' \<mapsto> ''std::ostream'', ''::std::ostream'' \<mapsto> ''std::ostream'',
     ''ofstream'' \<mapsto> ''std::ofstream'', ''::std::ofstream'' \<mapsto> ''std::ofstream'')"

lemma demo_names:
  "demo_registry ''ns3::Simulator'' = Some ''ns3::Simulator''" "demo_registry ''ns3::CommandLine'' = Some ''ns3::CommandLine''"
  "demo_registry ''ns3::TypeId'' = Some ''ns3::TypeId''" "demo_registry ''Ipv4Address'' = Some ''Ipv4Address''"
  "demo_registry ''ns3::Object'' = Some ''ns3::Object''"
  by (simp_all add: demo_registry_def type_names_def)

lemma demo_callbacks: "\<exists>texts handlers. generate_callback_classes plain_types [[''void'', ''int'']] = Inr (texts, handlers)"
  unfolding generate_callback_classes_def by (subst callback_classes_fold) simp_all

lemma demo_final_names:
  "demo_final ''ns3::Object'' = Some ''ns3::Object''" "demo_final ''ns3::TypeId'' = Some ''ns3::TypeId''"
  by code_simp+

lemma demo_register_phase:
  assumes "register_phase demo_generator demo_root = Inr m"
  shows "registry m = demo_final \<and>
    members m = \<lparr>classes = type_names @ required_names @ [''std::ostream'', ''std::ofstream''], enums = enum_names\<rparr>"
  using assms
  unfolding register_phase_def Simulator_customizations_def CommandLine_customizations_def
    TypeId_customizations_def add_ipv4_address_tp_hash_def module_get_def lookup_name_def
  by (auto simp: demo_generator_def demo_generated_def demo_root_def demo_names Let_def local_modules_def
      add_std_ofstream_def add_class_def demo_final_def)

lemma demo_method_phase:
  assumes "registry m = demo_final"
  shows "\<exists>m'. method_phase demo_generator m = Inr m' \<and> registry m' = demo_final \<and> members m' = members m"
proof -
  have i: "types_known demo_generator = plain_types" "callback_classes demo_generator = [[''void'', ''int'']]"
    by (simp_all add: demo_generator_def)
  obtain texts handlers where cb: "generate_callback_classes plain_types [[''void'', ''int'']] = Inr (texts, handlers)"
    using demo_callbacks by blast
  obtain y where y: "register_methods (api demo_generator) (module_call (CallbackCode texts handlers) m) = Inr y"
    "registry y = demo_final" "members y = members m"
    using assms by (simp add: demo_generator_def demo_generated_def module_get_def lookup_name_def demo_final_names)
  have f: "register_functions (api demo_generator) x = Inr x" if "registry x = demo_final" for x
    using that by (simp add: demo_generator_def demo_generated_def module_get_def lookup_name_def demo_final_names)
  have o: "Object_customizations y = Inr (module_call (ConstructionHooks ''ns3::Object'') y)"
    using y(2) by (simp add: Object_customizations_def module_get_def lookup_name_def demo_final_names)
  have "method_phase demo_generator m = Inr (customize_attributes (module_call (ConstructionHooks ''ns3::Object'') y))"
    unfolding method_phase_def i cb by (simp add: y(1) o f y(2) local_modules_def)
  with y(2,3) show ?thesis by simp
qed

lemma demo_generator_features:
  assumes "rbind (register_phase demo_generator demo_root) (method_phase demo_generator) = Inr m"
  shows "registry m = demo_final \<and>
    members m = \<lparr>classes = type_names @ required_names @ [''std::ostream'', ''std::ofstream''], enums = enum_names\<rparr>"
proof -
  from assms obtain m1 where "register_phase demo_generator demo_root = Inr m1" "method_phase demo_generator m1 = Inr m"
    unfolding rbind_Inr_iff by (elim exE conjE)
  note r = demo_register_phase [OF this(1)]
  obtain m2 where "method_phase demo_generator m1 = Inr m2" "registry m2 = demo_final" "members m2 = members m1"
    using demo_method_phase [OF conjunct1 [OF r]] by blast
  moreover from this(1) \<open>method_phase demo_generator m1 = Inr m\<close> have "m2 = m" by simp
  ultimately show ?thesis using r by (simp only: simp_thms)
qed

lemma demo_api_ok:
  "api_ok demo_final \<lparr>classes = type_names @ required_names @ [''std::ostream'', ''std::ofstream''], enums = enum_names\<rparr>"
  by code_simp


lemma demo_api_registers:
  "registers demo_registry (register_methods (api demo_generator))"
  "registers_functions demo_registry (register_functions (api demo_generator))"
proof -
  have k: "registry m ''ns3::Object'' = Some ''ns3::Object''" "registry m ''ns3::TypeId'' = Some ''ns3::TypeId''"
    if "demo_registry \<subseteq>\<^sub>m registry m" for m :: "string root_module"
  proof -
    have keep: "demo_registry n = Some v \<Longrightarrow> registry m n = Some v" for n v
      using map_le_Some [OF that] .
    show "registry m ''ns3::Object'' = Some ''ns3::Object''" by (rule keep) (rule demo_names)
    show "registry m ''ns3::TypeId'' = Some ''ns3::TypeId''" by (rule keep) (rule demo_names)
  qed
  show "registers demo_registry (register_methods (api demo_generator))"
    by (simp add: registers_def demo_generator_def demo_generated_def module_get_def lookup_name_def k)
  show "registers_functions demo_registry (register_functions (api demo_generator))"
    by (simp add: registers_functions_def demo_generator_def demo_generated_def module_get_def lookup_name_def k)
qed

lemma named_mono: "N \<subseteq> M \<Longrightarrow> named l N \<subseteq> named l M"
  by (auto simp: named_def)

theorem generator_correct_witness:
  "\<exists>es m. generator_main demo_generator [(''NS3_ENABLED_FEATURES'', ''RealTime,Threading'')] [''gen.py'', ''ns3module.cc'', ''dir'', ''core''] =
       (es, Inr m) \<and> attributes_typed m \<and> set (classes (members m)) \<inter> named (registry m) {''ns3::TapBridge'', ''ns3::EmuHelper''} = {}"
proof -
  let ?e = "[(''NS3_ENABLED_FEATURES'', ''RealTime,Threading'')]" and ?g = demo_generator
  let ?m1 = "demo_root\<lparr>module_calls := [Include ([CHR 34] @ ''everything.h'' @ [CHR 34])],
     members := \<lparr>classes = type_names @ required_names, enums = enum_names\<rparr>, registry := demo_registry\<rparr>"
  obtain texts handlers where cb: "generate_callback_classes (types_known ?g) (callback_classes ?g) = Inr (texts, handlers)"
    using demo_callbacks by (auto simp: demo_generator_def)
  have r: "registers (registry ?m1) (register_methods (api ?g))" "registers_functions (registry ?m1) (register_functions (api ?g))"
    using demo_api_registers by simp_all
  have t: "register_types (api ?g) (module_call (Include ([CHR 34] @ ''everything.h'' @ [CHR 34])) (module_init ?g)) = Inr ?m1"
      "module_calls ?m1 = module_calls (module_init ?g) @ [Include ([CHR 34] @ ''everything.h'' @ [CHR 34])]"
    by (simp_all add: demo_generator_def demo_generated_def demo_root_def module_call_def)
  have n: "list_all (\<lambda>n. registry ?m1 n \<noteq> None) type_names" by (simp add: demo_names type_names_def)
  have n2: "list_all (\<lambda>n. demo_registry n = None) stream_names" by code_simp
  then have n2: "list_all (\<lambda>n. registry ?m1 n = None) stream_names" by simp
  have i: "module_init ?g = demo_root" by (simp add: demo_generator_def)
  have f: "features_registered ?g" using demo_generator_features demo_api_ok
    unfolding i features_registered_def by (auto split: sum.split)
  have v: "map_of ?e ''NS3_ENABLED_FEATURES'' = Some ''RealTime,Threading''" by simp
  have o: "list_all (can_open ?g) fs" "generate_error ?g = (\<lambda>_ _. None)" for fs
    by (simp_all add: demo_generator_def list_all_iff)
  have d: "{''ns3::TapBridge'', ''ns3::EmuHelper''} \<subseteq> disabled_classes (split_on CHR '','' ''RealTime,Threading'')"
    by code_simp
  obtain es m where m: "generator_main ?g ?e ([''gen.py'', ''ns3module.cc'', ''dir''] @ [''core'']) = (es, Inr m)"
      "attributes_typed m"
      "set (classes (members m)) \<inter> named (registry m) (disabled_classes (split_on CHR '','' ''RealTime,Threading'')) = {}"
    using generator_correct [where main_file_name = "''ns3module.cc''" and modules = "[''core'']" and script = "''gen.py''" and directory = "''dir''",
      OF r t n n2 cb f v o] by (elim exE conjE) (rule that)
  have "named (registry m) {''ns3::TapBridge'', ''ns3::EmuHelper''} \<subseteq>
      named (registry m) (disabled_classes (split_on CHR '','' ''RealTime,Threading''))"
    using d by (rule named_mono)
  then have "set (classes (members m)) \<inter> named (registry m) {''ns3::TapBridge'', ''ns3::EmuHelper''} = {}"
    using m(3) by (simp only: disjoint_iff subset_iff) blast
  then show ?thesis using m(1,2) by (intro exI conjI) (simp_all only: append.simps)
qed


subsection \<open>Scanning the API\<close>

text \<open>
  pybindgen's \<^verbatim>\<open>ModuleParser\<close>: it is given the plan of the sections, the header to scan, the
  directory of its white list and the options of gccxml, and then called phase by phase.
  The names of the classes in the module namespace come with their declarations.
\<close>

record 'p module_parser =
  parse_init :: "scan_plan \<Rightarrow> string \<Rightarrow> string list \<Rightarrow> string \<Rightarrow> 'p res"
  scan_types :: "'p \<Rightarrow> 'p res"
  namespace_classes :: "'p \<Rightarrow> (string \<times> string) list"
  is_instantiation :: "string \<Rightarrow> bool"
  template_arguments :: "string \<Rightarrow> string list"
  scan_methods :: "'p \<Rightarrow> 'p res"
  scan_functions :: "'p \<Rightarrow> 'p res"
  parse_finalize :: "'p \<Rightarrow> 'p res"

text \<open>The files of the sections opened before a module without entry stops the loop.\<close>

fun section_opens :: "string list \<Rightarrow> string \<Rightarrow> string list \<Rightarrow> string list" where
  "section_opens known pygen_file_name [] = []"
| "section_opens known pygen_file_name (m # ms) =
     path_join (path_dir pygen_file_name) (section_name m @ ''.py'') #
     (if m \<in> set known then section_opens known pygen_file_name ms else [])"

definition callbacks_file :: "string \<Rightarrow> string" where
  "callbacks_file pygen_file_name = path_join (path_dir pygen_file_name) ''callbacks_list.py''"

definition scan_phases ::
  "'p module_parser \<Rightarrow> (string \<Rightarrow> bool) \<Rightarrow> string \<Rightarrow> string \<Rightarrow> 'p \<Rightarrow> file_event list \<times> (string list \<times> 'p) res" where
  "scan_phases mp ok pygen_file_name cb p =
     (if \<not> ok cb then ([], Inl IOError)
      else case scan_callback_classes (is_instantiation mp) (template_arguments mp) (namespace_classes mp p) of
        (ls, Some e) \<Rightarrow> ([Opened cb], Inl e)
      | (ls, None) \<Rightarrow> ([Opened cb, Closed cb],
          rbind (scan_methods mp p) (\<lambda>p. rbind (scan_functions mp p) (\<lambda>p. rbind (parse_finalize mp p) (\<lambda>p. Inr (ls, p))))))"

definition scan_main ::
  "(string list \<Rightarrow> string list) \<Rightarrow> 'p module_parser \<Rightarrow> (string \<Rightarrow> bool) \<Rightarrow> (string, string list \<times> string list) dict \<Rightarrow>
     string \<Rightarrow> string \<Rightarrow> string \<Rightarrow> string \<Rightarrow> file_event list \<times> (scan_exc + string list \<times> 'p)" where
  "scan_main ko mp ok ns3_modules top_builddir pygen_file_name everything_h cflags =
     (case topsort ko (module_graph ns3_modules) of
        Inl e \<Rightarrow> ([], Inl (SortError e))
      | Inr sorted_ns3_modules \<Rightarrow>
          (case open_all ok (pygen_file_name # section_opens (map fst ns3_modules) pygen_file_name sorted_ns3_modules) of
             (es, Inl e) \<Rightarrow> (es, Inl (PyError e))
           | (es, Inr _) \<Rightarrow>
               (case ns3_module_scan ko ns3_modules pygen_file_name of
                  Inl e \<Rightarrow> (es, Inl e)
                | Inr plan \<Rightarrow>
                    (case rbind (parse_init mp plan everything_h [top_builddir, path_dir everything_h]
                           (''--gccxml-cxxflags '' @ py_repr cflags)) (scan_types mp) of
                       Inl e \<Rightarrow> (es, Inl (PyError e))
                     | Inr p \<Rightarrow>
                         (case scan_phases mp ok pygen_file_name (callbacks_file pygen_file_name) p of
                            (fs, Inl e) \<Rightarrow> (es @ fs, Inl (PyError e))
                          | (fs, Inr r) \<Rightarrow> (es @ fs @ map (\<lambda>(s, f, l). Closed f) (sections plan), Inr r))))))"

text \<open>The plan has the files that were opened.\<close>

lemma plan_sections:
  assumes "rfold (plan_module ms f) p its = Inr q"
  shows "map (fst \<circ> snd) (sections q) = map (fst \<circ> snd) (sections p) @ section_opens (map fst ms) f (map snd its)"
  using assms
proof (induction its arbitrary: p)
  case (Cons it its)
  obtain i m where it: "it = (i, m)" by (cases it)
  then obtain d h where m: "map_of ms m = Some (d, h)"
    using Cons.prems by (cases "map_of ms m") (auto simp: plan_module_def Let_def)
  then have "m \<in> set (map fst ms)" using map_of_SomeD [OF m] by force
  then show ?case using Cons m by (auto simp: it plan_module_def Let_def)
qed simp

lemma scan_phases_files:
  assumes "scan_phases mp ok f cb p = (gs, r)"
  shows "{x. Closed x \<in> set gs} \<subseteq> {cb}"
    and "r = Inr (ls, q) \<Longrightarrow> gs = [Opened cb, Closed cb]"
    and "r = Inr (ls, q) \<Longrightarrow>
      ls = fst (scan_callback_classes (is_instantiation mp) (template_arguments mp) (namespace_classes mp p))"
  using assms by (auto simp: scan_phases_def split: if_splits prod.splits option.splits)

text \<open>
  A scan that succeeds has closed every file it opened: the module file, those of the
  sections and the list of callbacks, which has a line for each scanned callback class. A
  scan that fails closes at most the list of callbacks.
\<close>

theorem scan_main_files:
  "case scan_main ko mp ok ms top_builddir f everything_h cflags of
     (es, Inl e) \<Rightarrow> {x. Closed x \<in> set es} \<subseteq> {callbacks_file f}
   | (es, Inr (ls, p)) \<Rightarrow> {x. Closed x \<in> set es} = {x. Opened x \<in> set es} \<and>
       (\<exists>p0. ls = fst (scan_callback_classes (is_instantiation mp) (template_arguments mp) (namespace_classes mp p0)))"
proof (cases "topsort ko (module_graph ms)")
  case (Inl e)
  then show ?thesis by (simp add: scan_main_def)
next
  case (Inr xs)
  let ?fs = "f # section_opens (map fst ms) f xs"
  have o: "Closed x \<notin> set (map Opened ys)" for x ys by auto
  have d: "{x. Closed x \<in> set (a @ b)} = {x. Closed x \<in> set a} \<union> {x. Closed x \<in> set b}"
      "{x. Opened x \<in> set (a @ b)} = {x. Opened x \<in> set a} \<union> {x. Opened x \<in> set b}" for a b by auto
  have plan: "map (fst \<circ> snd) (sections q) = ?fs" if "ns3_module_scan ko ms f = Inr q" for q
    using that plan_sections [of ms f _ "enumerate 0 xs" q] by (simp add: ns3_module_scan_def Inr)
  have c: "{x. Closed x \<in> set (map (\<lambda>(s, f, l). Closed f) ss)} = set (map (fst \<circ> snd) ss)"
      "{x. Opened x \<in> set (map (\<lambda>(s, f, l). Closed f) ss)} = {}" for ss :: "(string \<times> string \<times> string option) list"
    by force+
  show ?thesis
  proof (cases "list_all ok ?fs \<and> \<not> isl (ns3_module_scan ko ms f)")
    case False
    then show ?thesis
      by (auto simp: scan_main_def Inr open_all_result Let_def split: sum.split)
  next
    case True
    then obtain q where q: "ns3_module_scan ko ms f = Inr q" by (cases "ns3_module_scan ko ms f") auto
    have t: "takeWhile ok ?fs = ?fs" using True by (metis list_all_iff takeWhile_eq_all_conv)
    have es: "open_all ok ?fs = (map Opened ?fs, Inr ())" unfolding open_all_result t using True by simp
    let ?p = "rbind (parse_init mp q everything_h [top_builddir, path_dir everything_h] (''--gccxml-cxxflags '' @ py_repr cflags)) (scan_types mp)"
    show ?thesis
    proof (cases ?p)
      case (Inl e)
      then show ?thesis unfolding scan_main_def Inr sum.case es q prod.case using o by auto
    next
      case p: (Inr p)
      obtain gs r where g: "scan_phases mp ok f (callbacks_file f) p = (gs, r)" by (cases "scan_phases mp ok f (callbacks_file f) p")
      note gs = scan_phases_files [OF g]
      show ?thesis
      proof (cases r)
        case (Inl e)
        then show ?thesis unfolding scan_main_def Inr sum.case es q prod.case p g using gs(1) o by auto
      next
        case r: (Inr lp)
        obtain ls p' where lp: "lp = (ls, p')" by (cases lp)
        note gs = gs(2,3) [OF r [unfolded lp]]
        have "{x. Closed x \<in> set (map Opened ?fs @ gs @ map (\<lambda>(s, f, l). Closed f) (sections q))} = insert (callbacks_file f) (set ?fs)"
          unfolding d c(1) plan [OF q] gs(1) by auto
        moreover have "{x. Opened x \<in> set (map Opened ?fs @ gs @ map (\<lambda>(s, f, l). Closed f) (sections q))} = insert (callbacks_file f) (set ?fs)"
          unfolding d c(2) gs(1) by auto
        ultimately show ?thesis unfolding scan_main_def Inr sum.case es q prod.case p g r lp using gs(2) by auto
      qed
    qed
  qed
qed


end
