(* ===== verification/WscriptModules.thy ===== *)
theory WscriptModules
  imports Wutils "HOL-Library.While_Combinator"
begin

section \<open>The modules of the build: \<^verbatim>\<open>wscript\<close> and \<^verbatim>\<open>src/wscript\<close>\<close>

text \<open>
  The part of \<^verbatim>\<open>build\<close> in the main \<^verbatim>\<open>wscript\<close> that handles \<^verbatim>\<open>--enable-modules\<close>: the list of
  enabled modules is closed under dependencies, the task generators of other modules and of
  the programs that need them are dropped, and the library gets the modules that are left.
  The module definitions of \<^verbatim>\<open>src/wscript\<close> come with it. waf itself is a parameter; what the
  code reads of a task generator is a record.
\<close>

subsection \<open>Module names\<close>

definition all_modules :: "string list" where
  "all_modules =
    [''core'', ''common'', ''simulator'', ''contrib'', ''node'', ''internet-stack'', ''devices/point-to-point'',
     ''devices/csma'', ''devices/emu'', ''devices/bridge'', ''devices/tap-bridge'', ''devices/virtual-net-device'',
     ''applications/onoff'', ''applications/packet-sink'', ''applications/udp-echo'', ''routing/olsr'',
     ''routing/global-routing'', ''routing/static-routing'', ''routing/list-routing'', ''routing/aodv'', ''mobility'',
     ''devices/wifi'', ''helper'', ''contrib/stats'', ''applications/v4ping'', ''devices/spectrum'', ''test'', ''test/perf'',
     ''test/ns3tcp'', ''test/nsctcp'', ''test/ns3wifi'', ''contrib/flow-monitor'', ''applications/udp-client-server'', ''mpi'',
     ''contrib/topology-read'', ''contrib/energy'']"

definition ns3_prefix :: "string \<Rightarrow> string" where
  "ns3_prefix name = ''ns3-'' @ name"

definition ns3_modules :: "string list" where
  "ns3_modules = map (\<lambda>module. ns3_prefix (last (split_on CHR ''/'' module))) all_modules"

text \<open>The names a comma-separated option stands for.\<close>

definition option_modules :: "string \<Rightarrow> string list" where
  "option_modules enable_modules = map ns3_prefix (split_on CHR '','' enable_modules)"

subsection \<open>Closing the list under dependencies\<close>

text \<open>
  \<^verbatim>\<open>for dep in module_obj.add_objects\<close>: names without the prefix are skipped, new ones are
  appended and set the flag.
\<close>

fun add_dependencies :: "string list \<Rightarrow> string list \<times> bool \<Rightarrow> string list \<times> bool" where
  "add_dependencies [] st = st"
| "add_dependencies (dep # deps) (modules, changed) =
     add_dependencies deps
       (if \<not> starts_with dep ''ns3-'' then (modules, changed)
        else if dep \<notin> set modules then (modules @ [dep], True) else (modules, changed))"

lemma add_dependencies_result:
  "\<exists>xs. add_dependencies deps (ms, c) = (ms @ xs, c \<or> xs \<noteq> []) \<and> distinct xs \<and> set xs \<inter> set ms = {} \<and>
     set xs = {d \<in> set deps. starts_with d ''ns3-''} - set ms"
proof (induction deps arbitrary: ms c)
  case (Cons d deps)
  show ?case
  proof (cases "starts_with d ''ns3-'' \<and> d \<notin> set ms")
    case True
    obtain xs where "add_dependencies deps (ms @ [d], True) = ((ms @ [d]) @ xs, True)" "distinct xs"
        "set xs \<inter> set (ms @ [d]) = {}" "set xs = {e \<in> set deps. starts_with e ''ns3-''} - set (ms @ [d])"
      using Cons.IH [of "ms @ [d]" True] by auto
    then show ?thesis using True by (intro exI [of _ "d # xs"]) auto
  next
    case False
    then show ?thesis using Cons.IH [of ms c] by auto
  qed
qed simp

text \<open>
  \<^verbatim>\<open>for module in modules\<close> over the list that grows: the loop goes by position and also
  visits what it appends. \<open>deps\<close> has the \<^verbatim>\<open>add_objects\<close> of each known task generator.
\<close>

type_synonym dependencies = "(string, string list) dict"

definition unlisted :: "dependencies \<Rightarrow> string list \<Rightarrow> nat" where
  "unlisted deps ms = card (set (concat (map snd deps)) - set ms)"

function modules_pass :: "dependencies \<Rightarrow> nat \<Rightarrow> string list \<times> bool \<Rightarrow> (string list \<times> bool) res" where
  "modules_pass deps i (modules, changed) =
     (if i < length modules then
        (case map_of deps (modules ! i) of
           None \<Rightarrow> Inl ValueError
         | Some add_objects \<Rightarrow> modules_pass deps (Suc i) (add_dependencies add_objects (modules, changed)))
      else Inr (modules, changed))"
  by pat_completeness auto

lemma unlisted_append:
  assumes "set xs \<subseteq> set (concat (map snd deps))" and "set xs \<inter> set ms = {}" and "xs \<noteq> []"
  shows "unlisted deps (ms @ xs) < unlisted deps ms"
  unfolding unlisted_def by (rule psubset_card_mono) (use assms in \<open>auto simp: neq_Nil_conv\<close>)

lemma add_dependencies_known:
  assumes "map_of deps m = Some os" and "add_dependencies os (ms, c) = (ms', c')"
  shows "ms' = ms \<and> c' = c \<or> unlisted deps ms' < unlisted deps ms \<and> c'"
proof -
  obtain xs where xs: "ms' = ms @ xs" "c' = (c \<or> xs \<noteq> [])" "set xs \<inter> set ms = {}" "set xs \<subseteq> set os"
    using add_dependencies_result [of os ms c] assms(2) by auto
  have "set os \<subseteq> set (concat (map snd deps))" using map_of_SomeD [OF assms(1)] by force
  then show ?thesis using unlisted_append [of xs deps ms] xs by (cases "xs = []") auto
qed

termination modules_pass
proof (relation "(\<lambda>(deps, i, modules, changed). unlisted deps modules) <*mlex*>
    measure (\<lambda>(deps, i, modules, changed). length modules - i)")
  fix deps :: dependencies and i modules changed os
  assume "i < length modules" "map_of deps (modules ! i) = Some os"
  then show "((deps, Suc i, add_dependencies os (modules, changed)), (deps, i, modules, changed)) \<in>
      (\<lambda>(deps, i, modules, changed). unlisted deps modules) <*mlex*> measure (\<lambda>(deps, i, modules, changed). length modules - i)"
    using add_dependencies_known [of deps "modules ! i" os modules changed]
    by (cases "add_dependencies os (modules, changed)") (auto simp: mlex_prod_def)
qed (simp add: wf_mlex)

lemma modules_pass_grows:
  "modules_pass deps i (ms, c) = Inr (ms', c') \<Longrightarrow>
     ms' = ms \<and> c' = c \<or> unlisted deps ms' < unlisted deps ms \<and> c'"
proof (induction deps i "(ms, c)" arbitrary: ms c rule: modules_pass.induct)
  case (1 deps i ms c)
  show ?case
  proof (cases "i < length ms")
    case True
    then obtain os where os: "map_of deps (ms ! i) = Some os" using "1.prems" by (simp split: option.splits)
    obtain ms1 c1 where a: "add_dependencies os (ms, c) = (ms1, c1)" by fastforce
    have "ms' = ms1 \<and> c' = c1 \<or> unlisted deps ms' < unlisted deps ms1 \<and> c'"
      using "1.hyps" [OF True os a] "1.prems" True os a by simp
    then show ?thesis using add_dependencies_known [OF os a] by auto
  next
    case False
    then show ?thesis using "1.prems" by simp
  qed
qed

text \<open>\<^verbatim>\<open>while changed\<close>: passes until one finds nothing new.\<close>

function close_modules :: "dependencies \<Rightarrow> string list \<Rightarrow> string list res" where
  "close_modules deps modules =
     (case modules_pass deps 0 (modules, False) of
        Inl e \<Rightarrow> Inl e
      | Inr (modules', changed) \<Rightarrow> if changed then close_modules deps modules' else Inr modules')"
  by pat_completeness auto

termination close_modules
proof (relation "measure (\<lambda>(deps, modules). unlisted deps modules)")
  fix deps :: dependencies and modules p modules' changed
  assume "modules_pass deps 0 (modules, False) = Inr p" "(modules', changed) = p" changed
  then show "((deps, modules'), (deps, modules)) \<in> measure (\<lambda>(deps, modules). unlisted deps modules)"
    using modules_pass_grows [of deps 0 modules False modules' changed] by auto
qed simp

declare close_modules.simps [simp del]

lemma close_modules_step:
  "modules_pass deps 0 (ms, False) = Inl e \<Longrightarrow> close_modules deps ms = Inl e"
  "modules_pass deps 0 (ms, False) = Inr (ms', c) \<Longrightarrow> close_modules deps ms = (if c then close_modules deps ms' else Inr ms')"
  by (subst close_modules.simps, simp)+

subsection \<open>The closed list\<close>

definition module_edges :: "dependencies \<Rightarrow> (string \<times> string) set" where
  "module_edges deps = {(m, d). \<exists>os. map_of deps m = Some os \<and> d \<in> set os \<and> starts_with d ''ns3-''}"

definition needed_modules :: "dependencies \<Rightarrow> string list \<Rightarrow> string set" where
  "needed_modules deps ms = (module_edges deps)\<^sup>* `` set ms"

lemma needed_closed: "m \<in> needed_modules deps ms \<Longrightarrow> (m, d) \<in> module_edges deps \<Longrightarrow> d \<in> needed_modules deps ms"
  by (auto simp: needed_modules_def intro: rtrancl_into_rtrancl)

lemma needed_start: "set ms \<subseteq> needed_modules deps ms"
  by (auto simp: needed_modules_def)

text \<open>A pass stays below every closed set, and what it returns has the dependencies of what it visited.\<close>

lemma add_dependencies_edges:
  assumes "map_of deps m = Some os" and "add_dependencies os (ms, c) = (ms', c')"
  shows "\<exists>xs. ms' = ms @ xs \<and> c' = (c \<or> xs \<noteq> []) \<and> distinct xs \<and> set xs \<inter> set ms = {} \<and>
    set xs = module_edges deps `` {m} - set ms"
  using add_dependencies_result [of os ms c] assms by (auto simp: module_edges_def)

lemma modules_pass_result:
  assumes "modules_pass deps i (ms, c) = Inr (ms', c')"
  shows "\<exists>xs. ms' = ms @ xs \<and> c' = (c \<or> xs \<noteq> []) \<and> distinct xs \<and> set xs \<inter> set ms = {} \<and>
    set (drop i ms') \<subseteq> dom (map_of deps) \<and> module_edges deps `` set (drop i ms') \<subseteq> set ms'"
  using assms
proof (induction deps i "(ms, c)" arbitrary: ms c rule: modules_pass.induct)
  case (1 deps i ms c)
  show ?case
  proof (cases "i < length ms")
    case True
    then obtain os where os: "map_of deps (ms ! i) = Some os" using "1.prems" by (simp split: option.splits)
    obtain ms1 c1 where a: "add_dependencies os (ms, c) = (ms1, c1)" by fastforce
    obtain ys where ys: "ms1 = ms @ ys" "c1 = (c \<or> ys \<noteq> [])" "distinct ys" "set ys \<inter> set ms = {}"
        "set ys = module_edges deps `` {ms ! i} - set ms"
      using add_dependencies_edges [OF os a] by blast
    obtain xs where xs: "ms' = ms1 @ xs" "c' = (c1 \<or> xs \<noteq> [])" "distinct xs" "set xs \<inter> set ms1 = {}"
        "set (drop (Suc i) ms') \<subseteq> dom (map_of deps)" "module_edges deps `` set (drop (Suc i) ms') \<subseteq> set ms'"
      using "1.hyps" [OF True os a] "1.prems" True os a by auto
    have i: "ms' ! i = ms ! i" "i < length ms'" using True xs(1) ys(1) by (simp_all add: nth_append)
    then have "set (drop i ms') = insert (ms ! i) (set (drop (Suc i) ms'))" by (simp add: Cons_nth_drop_Suc [symmetric])
    moreover have "module_edges deps `` {ms ! i} \<subseteq> set ms'" using ys(1,5) xs(1) by auto
    ultimately have "set (drop i ms') \<subseteq> dom (map_of deps)" "module_edges deps `` set (drop i ms') \<subseteq> set ms'"
      using xs(5,6) os by auto
    moreover have "ms' = ms @ ys @ xs" "c' = (c \<or> ys @ xs \<noteq> [])" "distinct (ys @ xs)" "set (ys @ xs) \<inter> set ms = {}"
      using xs(1-4) ys(1-4) by auto
    ultimately show ?thesis by (intro exI [of _ "ys @ xs"]) simp
  next
    case False
    then show ?thesis using "1.prems" by simp
  qed
qed

lemma modules_pass_below:
  assumes "set ms \<subseteq> R" and closed: "module_edges deps `` R \<subseteq> R"
  shows "case modules_pass deps i (ms, c) of Inl e \<Rightarrow> e = ValueError \<and> \<not> R \<subseteq> dom (map_of deps)
    | Inr (ms', c') \<Rightarrow> set ms' \<subseteq> R"
  using assms
proof (induction deps i "(ms, c)" arbitrary: ms c rule: modules_pass.induct)
  case (1 deps i ms c)
  show ?case
  proof (cases "i < length ms")
    case True
    show ?thesis
    proof (cases "map_of deps (ms ! i)")
      case None
      then show ?thesis using True "1.prems"(1) by (auto dest!: nth_mem)
    next
      case (Some os)
      obtain ms1 c1 where a: "add_dependencies os (ms, c) = (ms1, c1)" by fastforce
      obtain ys where ys: "ms1 = ms @ ys" "set ys = module_edges deps `` {ms ! i} - set ms"
        using add_dependencies_edges [OF Some a] by blast
      have "module_edges deps `` {ms ! i} \<subseteq> R" using "1.prems" nth_mem [OF True] by blast
      then have "set ms1 \<subseteq> R" using "1.prems"(1) ys by auto
      then show ?thesis using "1.hyps" [OF True Some a _ "1.prems"(2)] True Some a by simp
    qed
  next
    case False
    then show ?thesis using "1.prems" by simp
  qed
qed

lemma close_modules_below:
  assumes "set ms \<subseteq> R" and "module_edges deps `` R \<subseteq> R"
  shows "case close_modules deps ms of Inl e \<Rightarrow> e = ValueError \<and> \<not> R \<subseteq> dom (map_of deps) | Inr ms' \<Rightarrow> set ms' \<subseteq> R"
  using assms
proof (induction deps ms rule: close_modules.induct)
  case (1 deps ms)
  show ?case
  proof (cases "modules_pass deps 0 (ms, False)")
    case (Inl e)
    then show ?thesis using modules_pass_below [OF "1.prems", of 0 False] by (simp add: close_modules_step(1) del: modules_pass.simps)
  next
    case (Inr p)
    obtain ms' c where p: "p = (ms', c)" by (cases p)
    have below: "set ms' \<subseteq> R" using modules_pass_below [OF "1.prems", of 0 False] by (simp add: Inr p del: modules_pass.simps)
    then show ?thesis using "1.IH" [OF Inr [unfolded p] refl _ below "1.prems"(2)]
      by (cases c) (simp_all add: close_modules_step(2) [OF Inr [unfolded p]])
  qed
qed

lemma close_modules_closed:
  assumes "close_modules deps ms = Inr ms'"
  shows "\<exists>xs. ms' = ms @ xs \<and> distinct xs \<and> set xs \<inter> set ms = {} \<and>
    set ms' \<subseteq> dom (map_of deps) \<and> module_edges deps `` set ms' \<subseteq> set ms'"
  using assms
proof (induction deps ms rule: close_modules.induct)
  case (1 deps ms)
  then obtain ms1 c1 where p: "modules_pass deps 0 (ms, False) = Inr (ms1, c1)"
    using close_modules_step(1) by (cases "modules_pass deps 0 (ms, False)") auto
  obtain ys where ys: "ms1 = ms @ ys" "c1 = (ys \<noteq> [])" "distinct ys" "set ys \<inter> set ms = {}"
      "set ms1 \<subseteq> dom (map_of deps)" "module_edges deps `` set ms1 \<subseteq> set ms1"
    using modules_pass_result [OF p] by auto
  show ?case
  proof (cases c1)
    case True
    then have "close_modules deps ms1 = Inr ms'" using "1.prems" close_modules_step(2) [OF p] by simp
    then obtain xs where xs: "ms' = ms1 @ xs" "distinct xs" "set xs \<inter> set ms1 = {}"
        "set ms' \<subseteq> dom (map_of deps)" "module_edges deps `` set ms' \<subseteq> set ms'"
      using "1.IH" [OF p refl True] by blast
    then show ?thesis using ys by (intro exI [of _ "ys @ xs"]) auto
  next
    case False
    then have "ms' = ms1" using "1.prems" close_modules_step(2) [OF p] by simp
    then show ?thesis using ys by (intro exI [of _ ys]) auto
  qed
qed

lemma close_modules_result:
  "if needed_modules deps ms \<subseteq> dom (map_of deps)
   then \<exists>xs. close_modules deps ms = Inr (ms @ xs) \<and> distinct xs \<and> set xs = needed_modules deps ms - set ms
   else close_modules deps ms = Inl ValueError"
proof -
  have below: "case close_modules deps ms of Inl e \<Rightarrow> e = ValueError \<and> \<not> needed_modules deps ms \<subseteq> dom (map_of deps)
      | Inr ms' \<Rightarrow> set ms' \<subseteq> needed_modules deps ms"
    by (rule close_modules_below [OF needed_start]) (auto intro: needed_closed)
  show ?thesis
  proof (cases "close_modules deps ms")
    case (Inl e)
    then show ?thesis using below by auto
  next
    case (Inr ms')
    obtain xs where xs: "ms' = ms @ xs" "distinct xs" "set xs \<inter> set ms = {}" "set ms' \<subseteq> dom (map_of deps)"
        "module_edges deps `` set ms' \<subseteq> set ms'"
      using close_modules_closed [OF Inr] by blast
    have "needed_modules deps ms \<subseteq> set ms'"
      unfolding needed_modules_def using Image_closed_trancl [OF xs(5)] xs(1) by (auto simp: Image_def)
    then have "set ms' = needed_modules deps ms" using below Inr by auto
    then show ?thesis using Inr xs by (auto intro!: exI [of _ xs])
  qed
qed


subsection \<open>The modules of a build\<close>

text \<open>
  A task generator of waf as far as it is read here; \<open>module_dependencies\<close> is the attribute
  \<^verbatim>\<open>ns3_module_dependencies\<close>, which only programs have, and \<open>gen_id\<close> tells objects apart.
\<close>

record task_gen =
  gen_id :: nat
  gen_name :: string
  gen_objects :: "string list"
  module_dependencies :: "string list option"

record library =
  lib_features :: "string list"
  lib_flags :: "string list"
  lib_objects :: "string list"
  uselib_local :: "string list"

text \<open>What the code reads of the environment of the build; \<open>enabled_modules\<close> is set by \<^verbatim>\<open>configure\<close>.\<close>

record build_env =
  env_modules :: "string list"
  enabled_modules :: "string list option"
  static_ns3 :: bool
  cxx_name :: string
  soname_supported :: bool
  sys_platform :: string

text \<open>
  The loop over a copy of the list of generators: one whose dependencies are not all
  enabled is removed, and so is a module that is not enabled; removing a generator twice
  raises ValueError.
\<close>

definition drop_generator :: "string list \<Rightarrow> string list \<Rightarrow> task_gen list \<Rightarrow> task_gen \<Rightarrow> task_gen list res" where
  "drop_generator modules ns3_mods gens obj =
     rbind (case module_dependencies obj of
              None \<Rightarrow> Inr gens
            | Some ds \<Rightarrow> if \<not> list_all (\<lambda>dep. dep \<in> set modules) ds then list_remove obj gens else Inr gens) (\<lambda>gens.
     if gen_name obj \<in> set ns3_mods \<and> gen_name obj \<notin> set modules then list_remove obj gens else Inr gens)"

definition drop_generators :: "string list \<Rightarrow> string list \<Rightarrow> task_gen list \<Rightarrow> task_gen list res" where
  "drop_generators modules ns3_mods gens = rfold (drop_generator modules ns3_mods) gens gens"

definition ns3_library :: "(library \<Rightarrow> string) \<Rightarrow> build_env \<Rightarrow> string list \<Rightarrow> library" where
  "ns3_library lib_target env modules =
     (let lib = \<lparr>lib_features = [''cxx'', if static_ns3 env then ''staticlib'' else ''shlib''], lib_flags = [],
            lib_objects = [], uselib_local = []\<rparr>;
          lib1 = (if static_ns3 env then lib
            else let lib = (if cxx_name env \<in> {''gcc'', ''icc''} \<and> soname_supported env
                            then lib\<lparr>lib_flags := [''-Wl,--soname='' @ lib_target lib]\<rparr> else lib)
                 in if sys_platform env = ''cygwin'' then lib\<lparr>lib_features := lib_features lib @ [''implib'']\<rparr> else lib)
      in lib1\<lparr>lib_objects := modules, uselib_local := modules\<rparr>)"

text \<open>
  The dependencies are looked up with \<^verbatim>\<open>Object.name_to_obj\<close>; \<open>globals\<close> are the names the
  wscript has at that point. \<open>wscript_names\<close> are those of the file: its imports, its
  variables and its functions.
\<close>

definition wscript_names :: "string list" where
  "wscript_names = [''sys'', ''shutil'', ''types'', ''optparse'', ''os'', ''re'', ''subprocess'', ''Options'', ''Logs'', ''TaskGen'',
     ''Constants'', ''ccroot'', ''Task'', ''Utils'', ''Build'', ''Configure'', ''Scripting'', ''cflags'', ''wutils'', ''regression'',
     ''VERSION'', ''APPNAME'', ''REGRESSION_SUFFIX'', ''srcdir'', ''blddir'', ''load_env'', ''get_files'', ''dist_hook'', ''set_options'',
     ''_check_compilation_flag'', ''report_optional_feature'', ''configure'', ''SuidBuildTask'', ''create_suid_program'',
     ''create_ns3_program'', ''add_examples_programs'', ''add_scratch_programs'', ''build'', ''shutdown'', ''check_context'', ''check'',
     ''print_introspected_doxygen_task'', ''run_python_unit_tests_task'', ''check_shell'', ''shell_context'', ''shell'', ''_doxygen'',
     ''doxygen'', ''lcov_report'', ''dist_exts'', ''excludes'', ''BLDDIR'', ''_copytree'', ''DistDir'']"

definition build_modules ::
  "string list \<Rightarrow> (library \<Rightarrow> string) \<Rightarrow> string option \<Rightarrow> build_env \<Rightarrow> task_gen list \<Rightarrow> (task_gen list \<times> build_env \<times> library) res" where
  "build_modules globals lib_target enable_modules env gens =
     (let env = (if truthy enable_modules then env\<lparr>enabled_modules := Some (option_modules (the enable_modules))\<rparr> else env) in
      case enabled_modules env of
        None \<Rightarrow> Inr (gens, env, ns3_library lib_target env (env_modules env))
      | Some [] \<Rightarrow> Inr (gens, env, ns3_library lib_target env (env_modules env))
      | Some modules \<Rightarrow>
          if ''Object'' \<notin> set globals then Inl NameError
          else rbind (close_modules (map (\<lambda>g. (gen_name g, gen_objects g)) gens) modules) (\<lambda>modules.
               rbind (drop_generators modules (env_modules env) gens) (\<lambda>gens.
               Inr (gens, env\<lparr>enabled_modules := Some modules\<rparr>, ns3_library lib_target env modules))))"

subsection \<open>What is left in the build\<close>

definition generator_kept :: "string list \<Rightarrow> string list \<Rightarrow> task_gen \<Rightarrow> bool" where
  "generator_kept modules ns3_mods g \<longleftrightarrow>
     (case module_dependencies g of None \<Rightarrow> True | Some ds \<Rightarrow> list_all (\<lambda>d. d \<in> set modules) ds) \<and>
     (gen_name g \<in> set ns3_mods \<longrightarrow> gen_name g \<in> set modules)"

lemma drop_generators_result:
  assumes "distinct gens" and "list_all (\<lambda>g. module_dependencies g = None \<or> gen_name g \<notin> set ns3_mods) gens"
  shows "drop_generators modules ns3_mods gens = Inr (filter (generator_kept modules ns3_mods) gens)"
proof -
  have "rfold (drop_generator modules ns3_mods) (pre @ gs) gs = Inr (pre @ filter (generator_kept modules ns3_mods) gs)"
    if "distinct (pre @ gs)" "list_all (\<lambda>g. module_dependencies g = None \<or> gen_name g \<notin> set ns3_mods) gs" for pre gs
    using that
  proof (induction gs arbitrary: pre)
    case (Cons g gs)
    have g: "g \<notin> set pre" using Cons.prems(1) by simp
    then have "remove1 g (pre @ g # gs) = pre @ gs" by (simp add: remove1_append)
    then have step: "drop_generator modules ns3_mods (pre @ g # gs) g =
        Inr (if generator_kept modules ns3_mods g then pre @ g # gs else pre @ gs)"
      using Cons.prems(2) by (auto simp: drop_generator_def generator_kept_def list_remove_def split: option.splits)
    show ?case
    proof (cases "generator_kept modules ns3_mods g")
      case True
      then show ?thesis using Cons.IH [of "pre @ [g]"] Cons.prems step by simp
    next
      case False
      then show ?thesis using Cons.IH [of pre] Cons.prems step by simp
    qed
  qed simp
  from this [of "[]" gens] show ?thesis using assms by (simp add: drop_generators_def)
qed

text \<open>The wscript as it is does not know the name \<^verbatim>\<open>Object\<close>: the option always fails.\<close>

lemma enable_modules_NameError:
  "truthy enable_modules \<Longrightarrow> build_modules wscript_names lib_target enable_modules env gens = Inl NameError"
proof -
  have "''Object'' \<notin> set wscript_names" by code_simp
  moreover have "option_modules m \<noteq> []" for m by (simp add: option_modules_def)
  ultimately show "truthy enable_modules \<Longrightarrow> ?thesis"
    by (auto simp: build_modules_def neq_Nil_conv truthy_def Let_def split: list.split)
qed


text \<open>
  C20. When modules are enabled by the option, the build raises NameError
  if the name \<^verbatim>\<open>Object\<close> is unknown, as it is in the wscript, and ValueError if a module that
  is needed has no task generator. Otherwise the library gets the modules of the option, in
  order, followed by every further module they need, once; and exactly those generators stay
  that are no other module and need no other module. In both cases the search ends.
\<close>

theorem build_modules_outcome:
  assumes "truthy enable_modules" and "distinct gens"
    and "list_all (\<lambda>g. module_dependencies g = None \<or> gen_name g \<notin> set (env_modules env)) gens"
  shows "let ms = option_modules (the enable_modules);
      needed = needed_modules (map (\<lambda>g. (gen_name g, gen_objects g)) gens) ms;
      r = build_modules globals lib_target enable_modules env gens
    in if ''Object'' \<notin> set globals then r = Inl NameError
       else if \<not> needed \<subseteq> set (map gen_name gens) then r = Inl ValueError
       else \<exists>xs. distinct xs \<and> set xs = needed - set ms \<and>
         r = Inr (filter (generator_kept (ms @ xs) (env_modules env)) gens, env\<lparr>enabled_modules := Some (ms @ xs)\<rparr>,
                  ns3_library lib_target (env\<lparr>enabled_modules := Some ms\<rparr>) (ms @ xs))"
proof -
  define ms where "ms = option_modules (the enable_modules)"
  define deps where "deps = map (\<lambda>g. (gen_name g, gen_objects g)) gens"
  have "ms \<noteq> []" by (simp add: ms_def option_modules_def)
  then obtain m rest where m: "ms = m # rest" by (cases ms) auto
  have r: "build_modules globals lib_target enable_modules env gens =
      (if ''Object'' \<notin> set globals then Inl NameError
       else rbind (close_modules deps ms) (\<lambda>modules. rbind (drop_generators modules (env_modules env) gens) (\<lambda>gens.
         Inr (gens, env\<lparr>enabled_modules := Some modules\<rparr>, ns3_library lib_target (env\<lparr>enabled_modules := Some ms\<rparr>) modules))))"
    using assms(1) m by (simp add: build_modules_def ms_def [symmetric] deps_def [symmetric] Let_def)
  have d: "dom (map_of deps) = set (map gen_name gens)" by (simp add: deps_def dom_map_of_conv_image_fst image_image)
  note drop = drop_generators_result [OF assms(2,3)]
  show ?thesis
  proof (cases "''Object'' \<in> set globals \<and> needed_modules deps ms \<subseteq> set (map gen_name gens)")
    case True
    then obtain xs where xs: "close_modules deps ms = Inr (ms @ xs)" "distinct xs" "set xs = needed_modules deps ms - set ms"
      using close_modules_result [of deps ms] unfolding d by auto
    show ?thesis
      unfolding Let_def ms_def [symmetric] deps_def [symmetric] r xs(1)
      using True xs(2,3) by (auto simp: drop intro!: exI [of _ xs])
  next
    case False
    then show ?thesis
      unfolding Let_def ms_def [symmetric] deps_def [symmetric] r
      using close_modules_result [of deps ms] unfolding d by auto
  qed
qed

definition demo_gen :: "nat \<Rightarrow> string \<Rightarrow> string list \<Rightarrow> string list option \<Rightarrow> task_gen" where
  "demo_gen i n os ds = \<lparr>gen_id = i, gen_name = n, gen_objects = os, module_dependencies = ds\<rparr>"

definition demo_gens :: "task_gen list" where
  "demo_gens = [demo_gen 0 ''ns3-core'' [] None, demo_gen 1 ''ns3-node'' [''ns3-core''] None, demo_gen 2 ''ns3-wifi'' [''ns3-node''] None,
     demo_gen 3 ''first'' [] (Some [''ns3-node'']), demo_gen 4 ''wifi-ap'' [] (Some [''ns3-node'', ''ns3-wifi''])]"

definition demo_env :: build_env where
  "demo_env = \<lparr>env_modules = [''ns3-core'', ''ns3-node'', ''ns3-wifi''], enabled_modules = None, static_ns3 = False,
     cxx_name = ''gcc'', soname_supported = True, sys_platform = ''linux2''\<rparr>"

theorem build_modules_outcome_witness:
  "\<exists>gens env lib. build_modules [''Object''] (\<lambda>l. ''libns3.so'') (Some ''node'') demo_env demo_gens = Inr (gens, env, lib) \<and>
     map gen_name gens = [''ns3-core'', ''ns3-node'', ''first''] \<and> lib_objects lib = [''ns3-node'', ''ns3-core'']"
proof -
  have l: "list_all (\<lambda>g. module_dependencies g = None \<or> gen_name g \<notin> set (env_modules demo_env)) demo_gens"
    by (simp add: demo_gens_def demo_gen_def demo_env_def)
  have d: "distinct demo_gens" by (simp add: demo_gens_def demo_gen_def)
  have ms: "option_modules (the (Some ''node'')) = [''ns3-node'']" by code_simp
  let ?deps = "map (\<lambda>g. (gen_name g, gen_objects g)) demo_gens"
  have "module_edges ?deps `` {''ns3-node'', ''ns3-core''} \<subseteq> {''ns3-node'', ''ns3-core''}" "(''ns3-node'', ''ns3-core'') \<in> module_edges ?deps"
    by (auto simp: module_edges_def demo_gens_def demo_gen_def starts_with_def)
  from Image_closed_trancl [OF this(1)] this(2) have n: "needed_modules ?deps [''ns3-node''] = {''ns3-node'', ''ns3-core''}"
    unfolding needed_modules_def by auto
  have t: "truthy (Some ''node'')" by (simp add: truthy_def)
  have k: "''Object'' \<in> set [''Object'']" "{''ns3-node'', ''ns3-core''} \<subseteq> set (map gen_name demo_gens)"
    by (simp_all add: demo_gens_def demo_gen_def)
  obtain xs where xs: "distinct xs" "set xs = {''ns3-node'', ''ns3-core''} - set [''ns3-node'']"
      "build_modules [''Object''] (\<lambda>l. ''libns3.so'') (Some ''node'') demo_env demo_gens =
         Inr (filter (generator_kept ([''ns3-node''] @ xs) (env_modules demo_env)) demo_gens,
           demo_env\<lparr>enabled_modules := Some ([''ns3-node''] @ xs)\<rparr>,
           ns3_library (\<lambda>l. ''libns3.so'') (demo_env\<lparr>enabled_modules := Some [''ns3-node'']\<rparr>) ([''ns3-node''] @ xs))"
    using build_modules_outcome [OF t d l, of "[''Object'']" "\<lambda>l. ''libns3.so''"]
    unfolding ms Let_def n using k by (simp only: simp_thms if_False not_not) (elim exE conjE, rule that)
  have "card (set xs) = 1" using xs(2) by simp
  then have "length xs = 1" using distinct_card [OF xs(1)] by simp
  then obtain x where "xs = [x]" by (cases xs) auto
  then have x: "xs = [''ns3-core'']" using xs(2) by auto
  have f: "map gen_name (filter (generator_kept [''ns3-node'', ''ns3-core''] (env_modules demo_env)) demo_gens) =
      [''ns3-core'', ''ns3-node'', ''first'']" by code_simp
  have "lib_objects (ns3_library t env ms) = ms" for t env ms by (simp add: ns3_library_def Let_def)
  then show ?thesis using xs(3) f unfolding x by (intro exI conjI) simp_all
qed

end
