(* ===== verification/BindConf.thy ===== *)
theory BindConf
  imports Wutils
begin

section \<open>Configuring the Python bindings: \<^verbatim>\<open>bindings/python/wscript\<close>\<close>

text \<open>
  The decision whether bindings can be built and scanned, step by step and as one condition.
  What the script asks of the system (tools, modules, directories, compilers) is a record of
  answers.
\<close>

subsection \<open>The search path of Python\<close>

definition add_to_python_path :: "string \<Rightarrow> environ \<Rightarrow> environ" where
  "add_to_python_path path environ =
     (if dict_get environ ''PYTHONPATH'' [] \<noteq> []
      then AList.update ''PYTHONPATH'' (path @ '':'' @ dict_get environ ''PYTHONPATH'' []) environ
      else AList.update ''PYTHONPATH'' path environ)"

definition set_pybindgen_pythonpath :: "string option \<Rightarrow> environ \<Rightarrow> environ" where
  "set_pybindgen_pythonpath with_pybindgen environ =
     (if truthy with_pybindgen then add_to_python_path (the with_pybindgen) environ else environ)"

subsection \<open>Configuration\<close>

text \<open>The options as \<^verbatim>\<open>set_options\<close> declares them; bindings are disabled unless asked for.\<close>

record bind_options =
  python_disable :: bool
  python_scan :: bool
  with_pybindgen :: "string option"
  enable_python_pch :: bool

definition default_bind_options :: bind_options where
  "default_bind_options =
     \<lparr>python_disable = True, python_scan = False, with_pybindgen = None, enable_python_pch = False\<rparr>"

text \<open>
  What the system answers: \<open>python_failure\<close> is the message of the ConfigurationError of the
  checks of Python itself, \<open>module_found\<close> whether Python imports a module and
  \<open>version_text\<close> what it prints as its version (both with the environment of the call),
  \<open>same_type\<close> whether two C++ types are the same, \<open>gccxml_line\<close> the first line a command
  prints.
\<close>

record bind_system =
  bind_platform :: string
  python_failure :: "string option"
  compiler_name :: string
  compiler_version :: "string list"
  accepts_flag :: "string \<Rightarrow> bool"
  is_dir :: "string \<Rightarrow> bool"
  abs_path :: "string \<Rightarrow> string"
  module_found :: "environ \<Rightarrow> string \<Rightarrow> bool"
  version_text :: "environ \<Rightarrow> string \<Rightarrow> string"
  same_type :: "string \<Rightarrow> string \<Rightarrow> bool"
  gccxml_program :: "string option"
  gccxml_line :: "string \<Rightarrow> string"

text \<open>The variables that are set; \<open>reported\<close> are the optional features without their captions.\<close>

record bind_conf =
  python_pch :: bool
  bindings_enabled :: bool
  scanning_enabled :: bool
  pybindgen_path :: "string option"
  apidefs :: "string option"
  pyext_flags :: "string list"
  reported :: "(string \<times> bool \<times> string option) list"
  conf_environ :: environ

definition report_feature :: "string \<Rightarrow> bool \<Rightarrow> string option \<Rightarrow> bind_conf \<Rightarrow> bind_conf" where
  "report_feature feature ok why c = c\<lparr>reported := reported c @ [(feature, ok, why)]\<rparr>"

text \<open>
  The function is a sequence of steps; each returns the variables and whether the next one
  is reached.
\<close>

type_synonym conf_step = "bind_conf \<Rightarrow> (bind_conf \<times> bool) res"

definition stop_python :: "string \<Rightarrow> conf_step" where
  "stop_python why c = Inr (report_feature ''python'' False (Some why) c, False)"

definition stop_scanning :: "string \<Rightarrow> conf_step" where
  "stop_scanning why c = Inr (report_feature ''pygccxml'' False (Some why) c, False)"

fun conf_steps :: "conf_step list \<Rightarrow> bind_conf \<Rightarrow> bind_conf res" where
  "conf_steps [] c = Inr c"
| "conf_steps (f # fs) c = rbind (f c) (\<lambda>(c, go). if go then conf_steps fs c else Inr c)"

definition conf_python :: "bind_options \<Rightarrow> bind_system \<Rightarrow> conf_step" where
  "conf_python opts sys c0 =
     (let c = c0\<lparr>python_pch := enable_python_pch opts, bindings_enabled := False\<rparr> in
      if python_disable opts then stop_python ''disabled by user request'' c
      else if bind_platform sys = ''cygwin'' then stop_python (''unsupported platform '' @ py_repr ''cygwin'') c
      else case python_failure sys of Some msg \<Rightarrow> stop_python msg c | None \<Rightarrow> Inr (c, True))"

text \<open>Python's order of lists and tuples of numbers.\<close>

fun list_le :: "int list \<Rightarrow> int list \<Rightarrow> bool" where
  "list_le [] ys = True"
| "list_le (x # xs) [] = False"
| "list_le (x # xs) (y # ys) = (x < y \<or> x = y \<and> list_le xs ys)"

definition visibility_flag :: string where "visibility_flag = ''-fvisibility=hidden''"

definition conf_visibility :: "bind_system \<Rightarrow> conf_step" where
  "conf_visibility sys c =
     (if compiler_name sys = ''gcc''
      then rbind (rmap py_int (compiler_version sys)) (\<lambda>v.
           if list_le [4, 0, 0] v \<and> accepts_flag sys visibility_flag
           then Inr (c\<lparr>pyext_flags := pyext_flags c @ [visibility_flag]\<rparr>, True)
           else Inr (c, True))
      else Inr (c, True))"

definition required_pybindgen :: "int list" where "required_pybindgen = [0, 15, 0]"

definition required_pygccxml :: "int list" where "required_pygccxml = [0, 9, 5]"

definition find_pybindgen :: "bind_options \<Rightarrow> bind_system \<Rightarrow> string option \<Rightarrow> string option" where
  "find_pybindgen opts sys old =
     (case with_pybindgen opts of
        Some d \<Rightarrow> if is_dir sys d then Some (abs_path sys d) else old
      | None \<Rightarrow>
          (let pybindgen_dir = path_join ''..'' ''pybindgen'';
               release_str = ''pybindgen-'' @ join_with ''.'' (map int_str required_pybindgen);
               release_dir = path_join ''..'' release_str
           in if is_dir sys pybindgen_dir then Some (abs_path sys pybindgen_dir)
              else if is_dir sys release_dir then Some (abs_path sys release_dir)
              else old))"

definition version_ints :: "string \<Rightarrow> int list res" where
  "version_ints s = rmap py_int (split_on (CHR ''.'') (strip s))"

definition conf_pybindgen :: "bind_options \<Rightarrow> bind_system \<Rightarrow> conf_step" where
  "conf_pybindgen opts sys c0 =
     (let p = find_pybindgen opts sys (pybindgen_path c0);
          c = c0\<lparr>pybindgen_path := p, conf_environ := set_pybindgen_pythonpath p (conf_environ c0)\<rparr>
      in if \<not> module_found sys (conf_environ c) ''pybindgen'' then stop_python ''PyBindGen missing'' c
         else rbind (version_ints (version_text sys (conf_environ c) ''pybindgen'')) (\<lambda>v.
              if v \<noteq> required_pybindgen
              then stop_python ''PyBindGen version not correct and newer version could not be retrieved'' c
              else Inr (c, True)))"

definition conf_apidefs :: "bind_system \<Rightarrow> conf_step" where
  "conf_apidefs sys c0 =
     (let api = (if same_type sys ''uint64_t'' ''unsigned long'' then Some ''gcc-LP64''
                 else if same_type sys ''uint64_t'' ''unsigned long long'' then Some ''gcc-ILP32''
                 else None);
          c = c0\<lparr>apidefs := api\<rparr>
      in if api = None then stop_python ''No apidefs are available that can be used in this system'' c
         else Inr (report_feature ''python'' True None (c\<lparr>bindings_enabled := True\<rparr>), True))"

definition conf_pygccxml :: "bind_system \<Rightarrow> conf_step" where
  "conf_pygccxml sys c =
     (if \<not> module_found sys (conf_environ c) ''pygccxml''
      then stop_scanning (''Missing '' @ py_repr ''pygccxml'' @ '' Python module'') c
      else rbind (version_ints (version_text sys (conf_environ c) ''pygccxml'')) (\<lambda>v.
           if \<not> list_le required_pygccxml v then stop_scanning ''pygccxml too old'' c
           else Inr (c, True)))"

text \<open>The pattern of the version has one digit for each part; without a match \<^verbatim>\<open>m\<close> is \<^verbatim>\<open>None\<close>.\<close>

definition gccxml_version :: "string \<Rightarrow> string res" where
  "gccxml_version line =
     (case eat ''GCC-XML version '' line of
        None \<Rightarrow> Inl AttributeError
      | Some v \<Rightarrow>
          (case v of
             [a, p, b] \<Rightarrow> if is_digit a \<and> p = CHR ''.'' \<and> is_digit b then Inr v else Inl AttributeError
           | [a, p, b, q, d] \<Rightarrow>
               if is_digit a \<and> p = CHR ''.'' \<and> is_digit b \<and> q = CHR ''.'' \<and> is_digit d then Inr v
               else Inl AttributeError
           | _ \<Rightarrow> Inl AttributeError))"

definition conf_gccxml :: "bind_system \<Rightarrow> conf_step" where
  "conf_gccxml sys c =
     (if \<not> truthy (gccxml_program sys) then stop_scanning ''gccxml missing'' c
      else rbind (gccxml_version (strip (gccxml_line sys (the (gccxml_program sys) @ '' --version'')))) (\<lambda>v.
           rbind (rmap py_int (split_on (CHR ''.'') v)) (\<lambda>ns.
           if \<not> list_le [0, 9] ns then stop_scanning ''gccxml too old'' c
           else Inr (report_feature ''pygccxml'' True None (c\<lparr>scanning_enabled := True\<rparr>), True))))"

definition bind_configure :: "bind_options \<Rightarrow> bind_system \<Rightarrow> bind_conf \<Rightarrow> bind_conf res" where
  "bind_configure opts sys c =
     conf_steps [conf_python opts sys, conf_visibility sys, conf_pybindgen opts sys, conf_apidefs sys,
                 conf_pygccxml sys, conf_gccxml sys] c"

subsection \<open>What is enabled\<close>

text \<open>The environment in which Python looks for its modules, and the conditions in one place.\<close>

definition search_environ :: "bind_options \<Rightarrow> bind_system \<Rightarrow> bind_conf \<Rightarrow> environ" where
  "search_environ opts sys c =
     set_pybindgen_pythonpath (find_pybindgen opts sys (pybindgen_path c)) (conf_environ c)"

definition bindings_possible :: "bind_options \<Rightarrow> bind_system \<Rightarrow> bind_conf \<Rightarrow> bool" where
  "bindings_possible opts sys c \<longleftrightarrow>
     \<not> python_disable opts \<and> bind_platform sys \<noteq> ''cygwin'' \<and> python_failure sys = None \<and>
     module_found sys (search_environ opts sys c) ''pybindgen'' \<and>
     version_ints (version_text sys (search_environ opts sys c) ''pybindgen'') = Inr required_pybindgen \<and>
     (same_type sys ''uint64_t'' ''unsigned long'' \<or> same_type sys ''uint64_t'' ''unsigned long long'')"

definition at_least :: "int list \<Rightarrow> int list res \<Rightarrow> bool" where
  "at_least required v = (case v of Inl _ \<Rightarrow> False | Inr ns \<Rightarrow> list_le required ns)"

definition gccxml_ints :: "bind_system \<Rightarrow> int list res" where
  "gccxml_ints sys =
     rbind (gccxml_version (strip (gccxml_line sys (the (gccxml_program sys) @ '' --version''))))
       (\<lambda>v. rmap py_int (split_on (CHR ''.'') v))"

definition scanning_possible :: "bind_options \<Rightarrow> bind_system \<Rightarrow> bind_conf \<Rightarrow> bool" where
  "scanning_possible opts sys c \<longleftrightarrow>
     module_found sys (search_environ opts sys c) ''pygccxml'' \<and>
     at_least required_pygccxml (version_ints (version_text sys (search_environ opts sys c) ''pygccxml'')) \<and>
     truthy (gccxml_program sys) \<and> at_least [0, 9] (gccxml_ints sys)"

text \<open>
  Each step that decides something either continues or stops with a report; \<open>decides\<close> says
  on which condition and how the variables change when it continues.
\<close>

definition decides :: "conf_step \<Rightarrow> string \<Rightarrow> bool \<Rightarrow> bind_conf \<Rightarrow> bind_conf \<Rightarrow> bind_conf \<Rightarrow> bool" where
  "decides step feature P c stopped continued \<longleftrightarrow>
     (\<forall>r. step c = Inr r \<longrightarrow>
        (if P then r = (continued, True) else (\<exists>why. r = (report_feature feature False (Some why) stopped, False))))"

lemma decidesI:
  "(\<And>r. step c = Inr r \<Longrightarrow> P \<Longrightarrow> r = (d, True)) \<Longrightarrow>
   (\<And>r. step c = Inr r \<Longrightarrow> \<not> P \<Longrightarrow> \<exists>why. r = (report_feature f False (Some why) s, False)) \<Longrightarrow>
   decides step f P c s d"
  unfolding decides_def by (cases P) simp_all

lemma conf_steps_decide:
  assumes "decides step f P c s d" and "conf_steps (step # steps) c = Inr c'"
  shows "if P then conf_steps steps d = Inr c' else (\<exists>why. c' = report_feature f False (Some why) s)"
  using assms unfolding decides_def by (cases "step c") (auto split: if_splits)

lemma at_least_bind: "at_least xs (rbind m f) = (\<exists>v. m = Inr v \<and> at_least xs (f v))"
  by (cases m) (simp_all add: at_least_def)

lemma gccxml_decides:
  "decides (conf_gccxml sys) ''pygccxml'' (truthy (gccxml_program sys) \<and> at_least [0, 9] (gccxml_ints sys)) c c
     (report_feature ''pygccxml'' True None (c\<lparr>scanning_enabled := True\<rparr>))"
proof (cases "truthy (gccxml_program sys)")
  case True
  then show ?thesis
    by (cases "gccxml_version (strip (gccxml_line sys (the (gccxml_program sys) @ '' --version'')))")
      (auto intro!: decidesI simp: conf_gccxml_def stop_scanning_def gccxml_ints_def at_least_def split: if_splits)
next
  case False
  then show ?thesis by (intro decidesI) (auto simp: conf_gccxml_def stop_scanning_def)
qed

lemma pygccxml_decides:
  "decides (conf_pygccxml sys) ''pygccxml'' (module_found sys (conf_environ c) ''pygccxml'' \<and>
      at_least required_pygccxml (version_ints (version_text sys (conf_environ c) ''pygccxml''))) c c c"
  by (cases "version_ints (version_text sys (conf_environ c) ''pygccxml'')")
    (auto intro!: decidesI simp: conf_pygccxml_def stop_scanning_def at_least_def split: if_splits)

lemma apidefs_decides:
  "decides (conf_apidefs sys) ''python'' (same_type sys ''uint64_t'' ''unsigned long'' \<or> same_type sys ''uint64_t'' ''unsigned long long'')
     c (c\<lparr>apidefs := None\<rparr>)
     (report_feature ''python'' True None
        (c\<lparr>apidefs := Some (if same_type sys ''uint64_t'' ''unsigned long'' then ''gcc-LP64'' else ''gcc-ILP32''),
           bindings_enabled := True\<rparr>))"
  by (intro decidesI) (auto simp: conf_apidefs_def stop_python_def Let_def split: if_splits)

definition with_path :: "bind_options \<Rightarrow> bind_system \<Rightarrow> bind_conf \<Rightarrow> bind_conf" where
  "with_path opts sys c = c\<lparr>pybindgen_path := find_pybindgen opts sys (pybindgen_path c), conf_environ := search_environ opts sys c\<rparr>"

lemma pybindgen_decides:
  "decides (conf_pybindgen opts sys) ''python'' (module_found sys (search_environ opts sys c) ''pybindgen'' \<and>
      version_ints (version_text sys (search_environ opts sys c) ''pybindgen'') = Inr required_pybindgen) c
      (with_path opts sys c) (with_path opts sys c)"
proof -
  let ?c = "with_path opts sys c"
  have ce: "conf_environ ?c = search_environ opts sys c" by (simp add: with_path_def)
  have e: "conf_pybindgen opts sys c = (if \<not> module_found sys (search_environ opts sys c) ''pybindgen'' then stop_python ''PyBindGen missing'' ?c
         else rbind (version_ints (version_text sys (search_environ opts sys c) ''pybindgen'')) (\<lambda>v.
              if v \<noteq> required_pybindgen
              then stop_python ''PyBindGen version not correct and newer version could not be retrieved'' ?c
              else Inr (?c, True)))"
    unfolding conf_pybindgen_def Let_def search_environ_def [symmetric] with_path_def [symmetric] ce ..
  show ?thesis
    by (cases "version_ints (version_text sys (search_environ opts sys c) ''pybindgen'')")
      (auto intro!: decidesI simp: e stop_python_def split: if_splits)
qed

lemma python_decides:
  "decides (conf_python opts sys) ''python'' (\<not> python_disable opts \<and> bind_platform sys \<noteq> ''cygwin'' \<and> python_failure sys = None) c
     (c\<lparr>python_pch := enable_python_pch opts, bindings_enabled := False\<rparr>)
     (c\<lparr>python_pch := enable_python_pch opts, bindings_enabled := False\<rparr>)"
  by (intro decidesI) (auto simp: conf_python_def stop_python_def Let_def split: if_splits option.splits)

lemma visibility_steps:
  assumes "conf_steps (conf_visibility sys # steps) c = Inr c'"
  shows "\<exists>flags. conf_steps steps (c\<lparr>pyext_flags := flags\<rparr>) = Inr c'"
proof -
  from assms obtain r where r: "conf_visibility sys c = Inr r" "(if snd r then conf_steps steps (fst r) else Inr (fst r)) = Inr c'"
    by (auto simp: case_prod_unfold)
  have "\<exists>flags. r = (c\<lparr>pyext_flags := flags\<rparr>, True)"
  proof (cases "compiler_name sys = ''gcc''")
    case True
    then show ?thesis using r(1) by (cases "rmap py_int (compiler_version sys)") (auto simp: conf_visibility_def split: if_splits intro: exI [of _ "pyext_flags c"])
  next
    case False
    then show ?thesis using r(1) by (auto simp: conf_visibility_def intro: exI [of _ "pyext_flags c"])
  qed
  with r(2) show ?thesis by auto
qed

definition features :: "bind_conf \<Rightarrow> (string \<times> bool) list" where
  "features c = map (\<lambda>(f, ok, _). (f, ok)) (reported c)"

lemma report_fields [simp]:
  "features (report_feature f ok why d) = features d @ [(f, ok)]"
  "scanning_enabled (report_feature f ok why d) = scanning_enabled d"
  "bindings_enabled (report_feature f ok why d) = bindings_enabled d" "apidefs (report_feature f ok why d) = apidefs d"
  "conf_environ (report_feature f ok why d) = conf_environ d"
  by (simp_all add: report_feature_def features_def)

lemma features_update [simp]:
  "features (c\<lparr>python_pch := a\<rparr>) = features c" "features (c\<lparr>bindings_enabled := b\<rparr>) = features c"
  "features (c\<lparr>scanning_enabled := b\<rparr>) = features c" "features (c\<lparr>pybindgen_path := p\<rparr>) = features c"
  "features (c\<lparr>apidefs := d\<rparr>) = features c" "features (c\<lparr>pyext_flags := f\<rparr>) = features c"
  "features (c\<lparr>conf_environ := e\<rparr>) = features c"
  by (simp_all add: features_def)

text \<open>The steps from the end: scanning, the API definitions, pybindgen.\<close>

lemma scanning_steps:
  assumes "conf_steps [conf_pygccxml sys, conf_gccxml sys] c = Inr c'" and "\<not> scanning_enabled c"
  shows "scanning_enabled c' = (module_found sys (conf_environ c) ''pygccxml'' \<and>
      at_least required_pygccxml (version_ints (version_text sys (conf_environ c) ''pygccxml'')) \<and>
      truthy (gccxml_program sys) \<and> at_least [0, 9] (gccxml_ints sys)) \<and>
    bindings_enabled c' = bindings_enabled c \<and> apidefs c' = apidefs c \<and>
    features c' = features c @ [(''pygccxml'', scanning_enabled c')]"
  using conf_steps_decide [OF pygccxml_decides assms(1)] conf_steps_decide [OF gccxml_decides, of sys "[]" c c'] assms(2)
  by (auto simp del: conf_steps.simps(2) split: if_splits)

lemma apidefs_steps:
  assumes "conf_steps [conf_apidefs sys, conf_pygccxml sys, conf_gccxml sys] c = Inr c'"
    and "\<not> scanning_enabled c" and "\<not> bindings_enabled c"
  shows "if same_type sys ''uint64_t'' ''unsigned long'' \<or> same_type sys ''uint64_t'' ''unsigned long long''
    then bindings_enabled c' \<and> scanning_enabled c' = (module_found sys (conf_environ c) ''pygccxml'' \<and>
        at_least required_pygccxml (version_ints (version_text sys (conf_environ c) ''pygccxml'')) \<and>
        truthy (gccxml_program sys) \<and> at_least [0, 9] (gccxml_ints sys)) \<and>
      apidefs c' = Some (if same_type sys ''uint64_t'' ''unsigned long'' then ''gcc-LP64'' else ''gcc-ILP32'') \<and>
      features c' = features c @ [(''python'', True), (''pygccxml'', scanning_enabled c')]
    else \<not> bindings_enabled c' \<and> \<not> scanning_enabled c' \<and> features c' = features c @ [(''python'', False)]"
  using conf_steps_decide [OF apidefs_decides assms(1)] assms(2,3) scanning_steps [of sys _ c']
  by (auto simp del: conf_steps.simps(2) split: if_splits)

lemma configure_steps:
  assumes "bind_configure opts sys c = Inr c'"
  shows "(\<exists>f. (\<not> python_disable opts \<and> bind_platform sys \<noteq> ''cygwin'' \<and> python_failure sys = None) \<and>
        conf_steps [conf_pybindgen opts sys, conf_apidefs sys, conf_pygccxml sys, conf_gccxml sys]
          (c\<lparr>python_pch := enable_python_pch opts, bindings_enabled := False, pyext_flags := f\<rparr>) = Inr c') \<or>
    \<not> (\<not> python_disable opts \<and> bind_platform sys \<noteq> ''cygwin'' \<and> python_failure sys = None) \<and>
      (\<exists>why. c' = report_feature ''python'' False (Some why) (c\<lparr>python_pch := enable_python_pch opts, bindings_enabled := False\<rparr>))"
  using conf_steps_decide [OF python_decides assms [unfolded bind_configure_def]]
  by (auto simp del: conf_steps.simps(2) split: if_splits dest!: visibility_steps)

text \<open>
  Property C18: a configuration that ends without an exception enables the bindings exactly
  when every condition holds, and scanning exactly when the bindings are enabled and gccxml and
  pygccxml are there and recent enough; it chooses the definitions that fit the data model; and
  it reports the bindings exactly once, with what was decided, and scanning exactly when the
  bindings are enabled.
\<close>

theorem configure_outcome:
  assumes "bind_configure opts sys c = Inr c'" and "\<not> scanning_enabled c"
  shows "bindings_enabled c' = bindings_possible opts sys c \<and>
    scanning_enabled c' = (bindings_possible opts sys c \<and> scanning_possible opts sys c) \<and>
    (if bindings_enabled c'
     then apidefs c' = Some (if same_type sys ''uint64_t'' ''unsigned long'' then ''gcc-LP64'' else ''gcc-ILP32'') \<and>
       features c' = features c @
         [(''python'', True), (''pygccxml'', scanning_enabled c')]
     else features c' = features c @ [(''python'', False)])"
proof -
  from configure_steps [OF assms(1)] consider (go) f where
      "\<not> python_disable opts \<and> bind_platform sys \<noteq> ''cygwin'' \<and> python_failure sys = None"
      "conf_steps [conf_pybindgen opts sys, conf_apidefs sys, conf_pygccxml sys, conf_gccxml sys]
          (c\<lparr>python_pch := enable_python_pch opts, bindings_enabled := False, pyext_flags := f\<rparr>) = Inr c'"
    | (stop) why where "\<not> (\<not> python_disable opts \<and> bind_platform sys \<noteq> ''cygwin'' \<and> python_failure sys = None)"
      "c' = report_feature ''python'' False (Some why) (c\<lparr>python_pch := enable_python_pch opts, bindings_enabled := False\<rparr>)"
    by blast
  then show ?thesis
  proof cases
    case stop
    from stop(1) have "\<not> bindings_possible opts sys c" unfolding bindings_possible_def by blast
    then show ?thesis using stop(2) assms(2) by simp
  next
    case go
    let ?c = "c\<lparr>python_pch := enable_python_pch opts, bindings_enabled := False, pyext_flags := f\<rparr>"
    let ?d = "with_path opts sys ?c" and ?e = "search_environ opts sys c"
    have d: "search_environ opts sys ?c = ?e" "conf_environ ?d = ?e" "features ?d = features c"
        "\<not> scanning_enabled ?d" "\<not> bindings_enabled ?d"
      using assms(2) by (simp_all add: search_environ_def with_path_def)
    show ?thesis
    proof (cases "module_found sys ?e ''pybindgen'' \<and> version_ints (version_text sys ?e ''pybindgen'') = Inr required_pybindgen")
      case True
      then have "conf_steps [conf_apidefs sys, conf_pygccxml sys, conf_gccxml sys] ?d = Inr c'"
        using conf_steps_decide [OF pybindgen_decides go(2)] unfolding d(1) by (simp only: simp_thms if_True)
      note a = apidefs_steps [OF this d(4,5), unfolded d(2,3), folded scanning_possible_def]
      have "bindings_possible opts sys c \<longleftrightarrow> same_type sys ''uint64_t'' ''unsigned long'' \<or> same_type sys ''uint64_t'' ''unsigned long long''"
        unfolding bindings_possible_def using True go(1) by blast
      from a [folded this] show ?thesis by (cases "bindings_possible opts sys c") (simp_all only: if_True if_False simp_thms)
    next
      case False
      then obtain why where "c' = report_feature ''python'' False (Some why) ?d"
        using conf_steps_decide [OF pybindgen_decides go(2)] unfolding d(1) by (simp only: if_False) blast
      moreover from False have "\<not> bindings_possible opts sys c" unfolding bindings_possible_def by blast
      ultimately show ?thesis using d by simp
    qed
  qed
qed

definition demo_bind_system :: bind_system where
  "demo_bind_system = \<lparr>bind_platform = ''linux2'', python_failure = None, compiler_name = ''gcc'',
     compiler_version = [''4'', ''4'', ''3''], accepts_flag = (\<lambda>f. True), is_dir = (\<lambda>d. d = ''../pybindgen-0.15.0''),
     abs_path = (\<lambda>d. ''/ns'' @ drop 2 d), module_found = (\<lambda>e m. has_key e ''PYTHONPATH''),
     version_text = (\<lambda>e m. if m = ''pybindgen'' then ''0.15.0'' else ''1.0.0''),
     same_type = (\<lambda>a b. b = ''unsigned long''), gccxml_program = Some ''gccxml'',
     gccxml_line = (\<lambda>cmd. ''GCC-XML version 0.9.0'')\<rparr>"

definition demo_bind_conf :: bind_conf where
  "demo_bind_conf = \<lparr>python_pch = False, bindings_enabled = False, scanning_enabled = False, pybindgen_path = None,
     apidefs = None, pyext_flags = [], reported = [], conf_environ = []\<rparr>"

lemma configure_outcome_witness:
  "\<exists>c'. bind_configure (default_bind_options\<lparr>python_disable := False\<rparr>) demo_bind_system demo_bind_conf = Inr c' \<and>
     bindings_enabled c' \<and> scanning_enabled c' \<and> apidefs c' = Some ''gcc-LP64''"
proof -
  let ?o = "default_bind_options\<lparr>python_disable := False\<rparr>"
  have ok: "\<not> isl (bind_configure ?o demo_bind_system demo_bind_conf)" by code_simp
  then obtain c' where c: "bind_configure ?o demo_bind_system demo_bind_conf = Inr c'"
    by (cases "bind_configure ?o demo_bind_system demo_bind_conf") auto
  have "\<not> scanning_enabled demo_bind_conf" by (simp add: demo_bind_conf_def)
  note t = configure_outcome [OF c this]
  have "bindings_possible ?o demo_bind_system demo_bind_conf" by code_simp
  moreover have "scanning_possible ?o demo_bind_system demo_bind_conf" by code_simp
  moreover have "same_type demo_bind_system ''uint64_t'' ''unsigned long''" by (simp add: demo_bind_system_def)
  ultimately show ?thesis using c t by simp
qed

text \<open>
  A gccxml whose version has a part of two digits does not match the pattern: configuration
  ends with an AttributeError instead of a report.
\<close>

lemma gccxml_two_digits: "gccxml_version ''GCC-XML version 0.10.0'' = Inl AttributeError"
  by code_simp

text \<open>Nothing is enabled by default.\<close>

lemma disabled_by_default: "\<not> bindings_possible default_bind_options sys c"
  by (simp add: bindings_possible_def default_bind_options_def)

end
