(* ===== verification/BindBuild.thy ===== *)
theory BindBuild
  imports BindMain WscriptModules BindConf
begin

section \<open>Building the Python bindings: \<^verbatim>\<open>bindings/python/wscript\<close>\<close>

text \<open>
  The header that is given to gccxml, the scan tasks, and the command that runs the generator
  with the files waf expects of it. A task is a value, and a run of \<^verbatim>\<open>build\<close> is the list of the
  tasks it makes.
\<close>

subsection \<open>The header of everything\<close>

text \<open>
  \<^verbatim>\<open>os.path.split\<close> shortens a path until it is \<^verbatim>\<open>/\<close> or empty; there the recursion of the code
  goes on until Python stops it with a RuntimeError.
\<close>

lemma calc_shorter:
  assumes "path_dir p \<noteq> p"
  shows "length (path_dir p) < length p"
proof (rule path_dir_shorter, rule notI)
  assume all: "list_all (\<lambda>c. c = CHR ''/'') p"
  then have "path_base p = []" by (cases p rule: rev_cases) (auto simp: path_base_def)
  with all have "path_dir p = p" by (simp add: path_dir_def)
  with assms show False ..
qed

function calc_header_include :: "string \<Rightarrow> string res" where
  "calc_header_include path =
     (if snd (path_split path) = ''ns3'' then Inr []
      else if fst (path_split path) = path then Inl (PyException ''RuntimeError'')
      else rbind (calc_header_include (fst (path_split path))) (\<lambda>h. Inr (path_join h (snd (path_split path)))))"
  by auto
termination
  by (relation "measure length") (auto simp: path_split_def calc_shorter)

declare calc_header_include.simps [simp del]

definition everything_prologue :: "string list" where
  "everything_prologue =
    ['''',
     '''',
     ''/* http://www.nsnam.org/bugzilla/show_bug.cgi?id=413 */'',
     ''#ifdef ECHO'',
     ''# undef ECHO'',
     ''#endif'',
     '''',
     ''    '']"

definition everything_epilogue :: "string list" where
  "everything_epilogue =
    ['''',
     ''namespace ns3 {'',
     ''static inline Ptr<Object>'',
     ''__dummy_function_to_force_template_instantiation (Ptr<Object> obj, TypeId typeId)'',
     ''{'',
     ''   return obj->GetObject<Object> (typeId);'',
     ''}'',
     '''',
     '''',
     ''static inline void'',
     ''__dummy_function_to_force_template_instantiation_v2 ()'',
     ''{'',
     ''   Time t1, t2, t3;'',
     ''   t1 = t2 + t3;'',
     ''   t1 = t2 - t3;'',
     ''   TimeSquare tsq = t2*t3;'',
     ''   Time tsqdiv = tsq/Seconds(1);'',
     ''   Scalar scal = t2/t3;'',
     ''   TimeInvert inv = scal/t3;'',
     ''   t1 = scal*t1;'',
     ''   t1 = t1/scal;'',
     ''   t1 < t2;'',
     ''   t1 <= t2;'',
     ''   t1 == t2;'',
     ''   t1 != t2;'',
     ''   t1 >= t2;'',
     ''   t1 > t2;'',
     ''}'',
     '''',
     '''',
     ''}'',
     '''']"

definition include_line :: "string \<Rightarrow> string" where
  "include_line header = ''#include '' @ [CHR 34] @ ''ns3/'' @ header @ [CHR 34]"

text \<open>The lines written to the only output.\<close>

definition gen_everything_h :: "string list \<Rightarrow> string list \<Rightarrow> string list res" where
  "gen_everything_h inputs outputs =
     py_assert (length outputs = 1)
       (rbind (rmap calc_header_include inputs) (\<lambda>header_files.
        Inr (everything_prologue @ map include_line (cmp_sort sort_func header_files) @ everything_epilogue)))"

text \<open>
  The inputs of the task: the headers that are asked for, or else those of all modules that
  are enabled. \<open>can_declare\<close> tells which files the directory \<^verbatim>\<open>ns3\<close> of the build can declare;
  a set of headers is its module and its sources.
\<close>

definition all_headers_apply ::
  "(string \<Rightarrow> bool) \<Rightarrow> string list option \<Rightarrow> string list \<Rightarrow> (string \<times> string list) list \<Rightarrow> string list res" where
  "all_headers_apply can_declare enabled sources ns3headers =
     rbind (rmap (\<lambda>f. if can_declare f then Inr f
                      else Inl (WafError (''source ns3 header file '' @ f @ '' not found''))) sources) (\<lambda>inputs.
     rbind (if inputs \<noteq> [] then Inr inputs
            else rmap (\<lambda>s. if can_declare (path_base s) then Inr (path_base s)
                           else Inl (WafError (''missing header file '' @ s)))
                   (concat (map snd (filter (\<lambda>(m, _). case enabled of None \<Rightarrow> True
                                               | Some ms \<Rightarrow> ms = [] \<or> ns3_prefix m \<in> set ms) ns3headers)))) (\<lambda>inputs.
     py_assert (inputs \<noteq> []) (Inr inputs)))"

subsection \<open>Scanning\<close>

text \<open>The targets of a scan, for the sizes of the C types of the platform.\<close>

definition scan_targets :: "string \<Rightarrow> (char \<Rightarrow> nat) \<Rightarrow> (string \<times> string) list res" where
  "scan_targets plat sizes =
     (if plat = ''cygwin'' then Inr [(''gcc-cygwin'', '''')]
      else if sizes (CHR ''I'') = 4 \<and> sizes (CHR ''L'') = 8 \<and> sizes (CHR ''P'') = 8
      then Inr [(''gcc-ILP32'', ''-m32''), (''gcc-LP64'', ''-m64'')]
      else if sizes (CHR ''I'') = 4 \<and> sizes (CHR ''L'') = 4 \<and> sizes (CHR ''P'') = 4
      then Inr [(''gcc-ILP32'', '''')]
      else Inl (WafError ''Cannot scan python bindings for unsupported data model''))"

text \<open>
  A scan task: the directory of the definitions is made if it can be, and the scanner gets its
  arguments and, on its input, the modules. \<open>run\<close> starts a program and returns its status.
\<close>

definition python_scan_run ::
  "(string list \<Rightarrow> (string, string list \<times> string list) dict \<Rightarrow> int) \<Rightarrow> string \<Rightarrow> string \<Rightarrow> string \<Rightarrow> string
     \<Rightarrow> (string, string list \<times> string list) dict \<Rightarrow> string \<times> string \<Rightarrow> int" where
  "python_scan_run run python curdir include_dir everything_h modules target_cflags =
     (let defsdir = path_joins curdir [''apidefs'', fst target_cflags]
      in run [python, path_join curdir ''ns3modulescan.py'', include_dir, everything_h,
              path_join defsdir ''ns3modulegen_generated.py'', snd target_cflags] modules)"

subsection \<open>Generating and compiling\<close>

text \<open>The modules whose definitions were scanned; \<^verbatim>\<open>.\<close> does not match the end of a line.\<close>

definition scanned_module :: "string \<Rightarrow> string option" where
  "scanned_module filename =
     (case eat ''ns3_module_'' filename of
        None \<Rightarrow> None
      | Some rest \<Rightarrow>
          (let m = take (length rest - 3) rest
           in if ends_with rest ''.py'' \<and> m \<noteq> [] \<and> CHR ''\<newline>'' \<notin> set m \<and> \<not> ends_with m ''__local''
              then Some m else None))"

definition scanned_modules :: "string list \<Rightarrow> string list" where
  "scanned_modules listing = List.map_filter scanned_module listing"

definition module_cc :: "string \<Rightarrow> string" where
  "module_cc m = ''ns3_module_'' @ m @ ''.cc''"

record bindgen_task =
  bindgen_source :: "string list"
  bindgen_target :: "string list"
  bindgen_command :: "string list"
  bindgen_features :: string

definition bindgen_command_task ::
  "(string \<Rightarrow> bool) \<Rightarrow> bool \<Rightarrow> string \<Rightarrow> string \<Rightarrow> string list \<Rightarrow> string list \<Rightarrow> (string \<times> bool) list \<Rightarrow> bindgen_task" where
  "bindgen_command_task exists_file debug curdir defs scanned mods feats =
     (let source = [''ns3modulegen.py'', ''apidefs/'' @ defs @ ''/ns3modulegen_generated.py'',
                    ''ns3modulegen_core_customizations.py''] @
                   concat (map (\<lambda>m. (''apidefs/'' @ defs @ ''/ns3_module_'' @ m @ ''.py'') #
                      (let l = ''ns3_module_'' @ m @ ''__local.py'' in if exists_file (path_join curdir l) then [l] else [])) scanned);
          target = [''ns3module.cc'', ''pch/ns3module.h''] @ (if debug then [] else [''ns3modulegen.log'']) @ map module_cc scanned;
          argv = [''NS3_ENABLED_FEATURES=${FEATURES}'', ''${PYTHON}''] @ (if debug then [''-m'', ''pdb''] else []) @
                 [''${SRC[0]}'', ''${TGT[0]}'', path_joins curdir [''apidefs'', defs]] @ mods @
                 (if debug then [] else [''2>'', ''${TGT[2]}''])
      in \<lparr>bindgen_source = source, bindgen_target = target, bindgen_command = argv,
          bindgen_features = join_with '','' (map fst (filter snd feats))\<rparr>)"

record pymod_task =
  pymod_features :: string
  pymod_source :: "string list"
  pymod_pch :: "string option"
  pymod_linkflags :: "string list"
  pymod_defines :: "string list"

text \<open>\<open>flags\<close> and \<open>defines\<close> are those of the environment of the build.\<close>

definition pymod_task_of ::
  "bool \<Rightarrow> bool \<Rightarrow> string \<Rightarrow> string \<Rightarrow> string list \<Rightarrow> string list \<Rightarrow> string list \<Rightarrow> pymod_task" where
  "pymod_task_of pch static plat opt_plat flags defines scanned =
     \<lparr>pymod_features = ''cxx cshlib pyext'' @ (if pch then '' pch'' else ''''),
      pymod_source = [''ns3module.cc'', ''ns3module_helpers.cc''] @ map module_cc scanned,
      pymod_pch = (if pch then Some ''pch/ns3module.h'' else None),
      pymod_linkflags = flags @
        (if \<not> static then []
         else if plat = ''darwin'' then [''-Wl,-all_load'', ''-lns3'']
         else [''-Wl,--whole-archive,-Bstatic'', ''-lns3'', ''-Wl,-Bdynamic,--no-whole-archive'']),
      pymod_defines = (let ds = defines @ [''NS_DEPRECATED='', ''NS3_DEPRECATED_H'']
        in if opt_plat = ''win32'' then remove1 ''_DEBUG'' ds else ds)\<rparr>"

text \<open>The package file is copied when it is newer, or when a time cannot be read.\<close>

definition copy_init :: "string \<Rightarrow> string \<Rightarrow> (string \<Rightarrow> nat option) \<Rightarrow> (string \<times> string) option" where
  "copy_init from_dir to_dir mtime_of =
     (let src = path_join from_dir ''__init__.py''; dst = path_join to_dir ''__init__.py'' in
      case (mtime_of src, mtime_of dst) of
        (Some a, Some b) \<Rightarrow> if a > b then Some (src, dst) else None
      | _ \<Rightarrow> Some (src, dst))"

datatype bind_action =
    AllHeaders
  | ScanTask string string
  | ScanCollector
  | Bindgen bindgen_task
  | PyModule pymod_task
  | CopyInit string string

text \<open>What \<^verbatim>\<open>build\<close> reads besides the options and the configuration.\<close>

record bind_site =
  site_platform :: string
  opt_platform :: string
  site_dir :: string
  ns3_src_dir :: string
  ns3_build_dir :: string
  calcsize :: "char \<Rightarrow> nat"
  site_listdir :: "string \<Rightarrow> string list res"
  site_exists :: "string \<Rightarrow> bool"
  site_mtime :: "string \<Rightarrow> nat option"
  site_environ :: environ
  site_static :: bool
  site_linkflags :: "string list"
  site_defines :: "string list"
  key_order :: "string list \<Rightarrow> string list"

definition build_bindings ::
  "bind_site \<Rightarrow> bind_conf \<Rightarrow> (string, string list \<times> string list) dict \<Rightarrow> bind_action list res" where
  "build_bindings s c modules =
     (case apidefs c of
        None \<Rightarrow> Inl AttributeError
      | Some api_dir \<Rightarrow>
          rbind (site_listdir s (path_joins (site_dir s) [''apidefs'', api_dir])) (\<lambda>listing.
          let scanned = scanned_modules listing;
              debug = has_key (site_environ s) ''PYBINDGEN_DEBUG''
          in Inr ([Bindgen (bindgen_command_task (site_exists s) debug (site_dir s) api_dir scanned
                     (key_order s (dict_keys modules)) (features c)),
                   PyModule (pymod_task_of (python_pch c) (site_static s) (site_platform s) (opt_platform s)
                     (site_linkflags s) (site_defines s) scanned)] @
                  (case copy_init (ns3_src_dir s) (ns3_build_dir s) (site_mtime s) of
                     None \<Rightarrow> [] | Some (a, b) \<Rightarrow> [CopyInit a b]))))"

definition bind_build ::
  "bind_options \<Rightarrow> bind_site \<Rightarrow> bind_conf \<Rightarrow> (string, string list \<times> string list) dict \<Rightarrow> bind_action list res" where
  "bind_build opts s c modules =
     (if python_disable opts then Inr []
      else let headers = (if bindings_enabled c then [AllHeaders] else [])
        in if python_scan opts
           then if \<not> scanning_enabled c then Inl (WafError ''Cannot re-scan python bindings: (py)gccxml not available'')
                else rbind (scan_targets (site_platform s) (calcsize s)) (\<lambda>ts.
                     Inr (headers @ map (\<lambda>(t, f). ScanTask t f) ts @ [ScanCollector]))
           else if bindings_enabled c then rbind (build_bindings s c modules) (\<lambda>acts. Inr (headers @ acts))
           else Inr [])"

subsection \<open>The header includes every header once\<close>

lemma calc_step:
  "path_split p = (x, w) \<Longrightarrow> w \<noteq> ''ns3'' \<Longrightarrow> x \<noteq> p \<Longrightarrow>
     calc_header_include p = rbind (calc_header_include x) (\<lambda>h. Inr (path_join h w))"
  by (subst calc_header_include.simps) simp

lemma calc_header_path:
  assumes "a = [] \<or> ends_with a ''/''" and "\<forall>w\<in>set ws. w \<noteq> [] \<and> w \<noteq> ''ns3'' \<and> CHR ''/'' \<notin> set w"
  shows "calc_header_include (a @ ''ns3'' @ concat (map (\<lambda>w. CHR ''/'' # w) ws)) = Inr (join_with ''/'' ws)"
  using assms(2)
proof (induction ws rule: rev_induct)
  case Nil
  have "path_base (a @ ''ns3'') = ''ns3''"
    using assms(1) by (auto simp: path_base_def ends_with_iff)
  then show ?case by (subst calc_header_include.simps) (simp add: path_split_def)
next
  case (snoc w ws)
  let ?x = "a @ ''ns3'' @ concat (map (\<lambda>w. CHR ''/'' # w) ws)"
  have "last ?x \<noteq> CHR ''/''"
  proof (cases ws rule: rev_cases)
    case (snoc vs v)
    then have "v \<noteq> [] \<and> CHR ''/'' \<notin> set v" using snoc.prems by simp
    then show ?thesis using snoc by (auto dest: last_in_set)
  qed simp
  then have "\<not> ends_with ?x ''/''" by (rule not_ends_last)
  then have s: "path_split (?x @ CHR ''/'' # w) = (?x, w)" using snoc.prems by (intro path_split_last) auto
  have n: "?x \<noteq> ?x @ CHR ''/'' # w" by simp
  have "path_join (join_with ''/'' ws) w = join_with ''/'' (ws @ [w])"
  proof (cases ws rule: rev_cases)
    case Nil
    then show ?thesis using snoc.prems by (cases w) (auto simp: path_join_def starts_with_def)
  next
    case (snoc vs v)
    then have v: "v \<noteq> [] \<and> CHR ''/'' \<notin> set v" and w: "w \<noteq> [] \<and> CHR ''/'' \<notin> set w" using snoc.prems by auto
    have "\<exists>u. join_with ''/'' (vs @ [v]) = u @ v"
    proof (cases "vs = []")
      case False
      from join_snoc [OF this, of "''/''" v] have "join_with ''/'' (vs @ [v]) = (join_with ''/'' vs @ ''/'') @ v" by simp
      then show ?thesis by blast
    qed simp
    then obtain u where u: "join_with ''/'' ws = u @ v" unfolding snoc by blast
    have "last (u @ v) \<noteq> CHR ''/''" using v last_in_set [of v] by (metis last_appendR)
    then have "\<not> ends_with (join_with ''/'' ws) ''/''" unfolding u by (rule not_ends_last)
    with w u v show ?thesis using join_snoc [of ws "''/''" w] snoc by (cases w) (auto simp: path_join_def starts_with_def)
  qed
  moreover have "calc_header_include ?x = Inr (join_with ''/'' ws)" using snoc by simp
  moreover have "a @ ''ns3'' @ concat (map (\<lambda>w. CHR ''/'' # w) (ws @ [w])) = ?x @ CHR ''/'' # w" by simp
  ultimately show ?case using calc_step [OF s _ n] snoc.prems by simp
qed

lemma rmap_clean:
  assumes "\<And>ws. ws \<in> set wss \<Longrightarrow> f (g ws) = Inr (h ws)"
  shows "rmap f (map g wss) = Inr (map h wss)"
  using assms by (induction wss) auto

text \<open>
  The header includes each header of the build by its path below \<^verbatim>\<open>ns3\<close>, sorted by name: the
  priorities of some headers have no effect on the order.
\<close>

lemma everything_h_correct:
  assumes "a = [] \<or> ends_with a ''/''"
    and "\<And>ws. ws \<in> set wss \<Longrightarrow> \<forall>w\<in>set ws. w \<noteq> [] \<and> w \<noteq> ''ns3'' \<and> CHR ''/'' \<notin> set w"
  shows "gen_everything_h (map (\<lambda>ws. a @ ''ns3'' @ concat (map (\<lambda>w. CHR ''/'' # w) ws)) wss) [out] =
    Inr (everything_prologue @ map include_line (sort (map (join_with ''/'') wss)) @ everything_epilogue)"
  unfolding gen_everything_h_def cmp_sort_sort
  using rmap_clean [of wss calc_header_include, OF calc_header_path [OF assms(1)], of "\<lambda>ws. ws"] assms(2) by simp

subsection \<open>The targets of the generator\<close>

lemma scanned_modules_mem: "m \<in> set (scanned_modules listing) \<longleftrightarrow> (\<exists>f\<in>set listing. scanned_module f = Some m)"
  by (induction listing) (auto simp: scanned_modules_def List.map_filter_def)

lemma build_bindings_task:
  assumes "bind_build opts s c modules = Inr acts" and "Bindgen t \<in> set acts"
  shows "\<exists>api_dir listing. apidefs c = Some api_dir \<and> site_listdir s (path_joins (site_dir s) [''apidefs'', api_dir]) = Inr listing \<and>
    t = bindgen_command_task (site_exists s) (has_key (site_environ s) ''PYBINDGEN_DEBUG'') (site_dir s) api_dir
          (scanned_modules listing) (key_order s (dict_keys modules)) (features c)"
  using assms by (auto simp: bind_build_def build_bindings_def Let_def split: if_splits option.splits)

text \<open>
  The arguments the generator gets when waf runs the command: the sources and targets are
  substituted by their paths, and the words from \<^verbatim>\<open>2>\<close> on redirect its error stream, into
  the third target, the log. This is what \<^verbatim>\<open>subst_command\<close> and the shell parser of
  \<^theory_text>\<open>WafTools\<close> make of words without dollars and redirections.
\<close>

definition generator_argv :: "string \<Rightarrow> string \<Rightarrow> bindgen_task \<Rightarrow> string list" where
  "generator_argv src_root build_root t =
     map (\<lambda>w. if w = ''${SRC[0]}'' then path_join src_root (bindgen_source t ! 0)
              else if w = ''${TGT[0]}'' then path_join build_root (bindgen_target t ! 0) else w)
       (takeWhile (\<lambda>w. w \<noteq> ''2>'') (dropWhile (\<lambda>w. w \<noteq> ''${SRC[0]}'') (bindgen_command t)))"

definition plain_name :: "string \<Rightarrow> bool" where
  "plain_name m \<longleftrightarrow> CHR ''$'' \<notin> set m \<and> CHR ''>'' \<notin> set m"

lemma generator_argv_eq:
  assumes "list_all plain_name mods" and "plain_name (path_joins curdir [''apidefs'', defs])"
  shows "generator_argv src_root build_root (bindgen_command_task ex debug curdir defs scanned mods feats) =
    [path_join src_root ''ns3modulegen.py'', path_join build_root ''ns3module.cc'', path_joins curdir [''apidefs'', defs]] @ mods"
proof -
  let ?d = "path_joins curdir [''apidefs'', defs]" and ?t = "bindgen_command_task ex debug curdir defs scanned mods feats"
  have p: "plain_name w \<Longrightarrow> w \<noteq> ''${SRC[0]}'' \<and> w \<noteq> ''${TGT[0]}'' \<and> w \<noteq> ''2>''" for w by (auto simp: plain_name_def)
  obtain pre where c: "bindgen_command ?t = pre @ [''${SRC[0]}'', ''${TGT[0]}'', ?d] @ mods @ (if debug then [] else [''2>'', ''${TGT[2]}''])"
    and pre: "pre = [''NS3_ENABLED_FEATURES=${FEATURES}'', ''${PYTHON}''] @ (if debug then [''-m'', ''pdb''] else [])"
    by (simp add: bindgen_command_task_def Let_def)
  have "dropWhile (\<lambda>w. w \<noteq> ''${SRC[0]}'') (bindgen_command ?t) = [''${SRC[0]}'', ''${TGT[0]}'', ?d] @ mods @ (if debug then [] else [''2>'', ''${TGT[2]}''])"
    unfolding c pre by simp
  moreover have "takeWhile (\<lambda>w. w \<noteq> ''2>'') (mods @ (if debug then [] else [''2>'', ''${TGT[2]}''])) = mods"
    using assms(1) p by (subst takeWhile_append2) (auto simp: list_all_iff)
  moreover have "map (\<lambda>w. if w = ''${SRC[0]}'' then a else if w = ''${TGT[0]}'' then b else w) mods = mods" for a b
    using assms(1) p by (intro map_idI) (auto simp: list_all_iff)
  moreover have "bindgen_source ?t ! 0 = ''ns3modulegen.py''" "bindgen_target ?t ! 0 = ''ns3module.cc''"
    by (simp_all add: bindgen_command_task_def Let_def)
  ultimately show ?thesis using p [OF assms(2)] unfolding generator_argv_def by simp
qed

lemma path_join_inj:
  assumes "path_join d a = path_join d b" and "\<not> starts_with a ''/''" and "\<not> starts_with b ''/''"
  shows "a = b"
  using assms by (simp add: path_join_def split: if_splits)

lemma module_cc_props:
  "module_cc m \<noteq> ''ns3module.cc''" "module_cc m \<noteq> ''pch/ns3module.h''" "module_cc m \<noteq> ''ns3modulegen.log''"
  "module_cc m = module_cc n \<longleftrightarrow> m = n" "section_name m @ ''.cc'' = module_cc (dash_to_underscore m)"
  by (simp_all add: module_cc_def section_name_def)

lemma module_cc_mem:
  "module_cc m \<in> {''ns3module.cc'', ''pch/ns3module.h''} \<union> (\<lambda>m. module_cc (dash_to_underscore m)) ` K \<longleftrightarrow>
     m \<in> dash_to_underscore ` K"
  using module_cc_props by auto

lemma target_set:
  "set (bindgen_target (bindgen_command_task ex debug curdir defs scanned mods feats)) - {''ns3modulegen.log''} =
     {''ns3module.cc'', ''pch/ns3module.h''} \<union> module_cc ` set scanned"
proof -
  have "module_cc ` set scanned - {''ns3modulegen.log''} = module_cc ` set scanned" using module_cc_props(3) by auto
  then show ?thesis by (auto simp: bindgen_command_task_def Let_def)
qed

definition below :: "string \<Rightarrow> string \<Rightarrow> string" where
  "below d f = d @ CHR ''/'' # f"

lemma section_files_below:
  assumes "d \<noteq> []" and "\<not> ends_with d ''/''"
  shows "path_join d ''ns3module.cc'' = below d ''ns3module.cc''" "path_join d ''pch/ns3module.h'' = below d ''pch/ns3module.h''"
    "path_join d (module_cc m) = below d (module_cc m)"
    "set (section_files (below d ''ns3module.cc'') mods) =
       below d ` ({''ns3module.cc'', ''pch/ns3module.h''} \<union> (\<lambda>m. module_cc (dash_to_underscore m)) ` set mods)"
proof -
  show j: "path_join d ''ns3module.cc'' = below d ''ns3module.cc''" "path_join d ''pch/ns3module.h'' = below d ''pch/ns3module.h''"
    "path_join d (module_cc m) = below d (module_cc m)"
    using assms by (simp_all add: path_join_def below_def starts_with_def module_cc_def)
  have jm: "path_join d (module_cc n) = below d (module_cc n)" for n
    using assms by (simp add: path_join_def below_def starts_with_def module_cc_def)
  have "path_dir (below d ''ns3module.cc'') = d"
    using path_split_last [OF _ assms, of "''ns3module.cc''"] by (simp add: path_split_def below_def)
  moreover have "path_joins d [''pch'', ''ns3module.h''] = below d ''pch/ns3module.h''"
    using assms by (simp add: path_join_def below_def starts_with_def ends_with_def)
  ultimately show "set (section_files (below d ''ns3module.cc'') mods) =
       below d ` ({''ns3module.cc'', ''pch/ns3module.h''} \<union> (\<lambda>m. module_cc (dash_to_underscore m)) ` set mods)"
    unfolding section_files_def header_sink_def module_cc_props(5) jm
    by (simp add: image_Un image_image jm)
qed

lemma below_mem: "below d f \<in> below d ` S \<longleftrightarrow> f \<in> S"
  by (auto simp: below_def)

text \<open>
  Property C19: when the generator, run by the command that \<^verbatim>\<open>build\<close> declares, succeeds, it has
  written every target waf expects of it exactly when each module that was scanned is a module
  of the build; a module that is not built although its definitions are in the repository
  leaves a target that is never made.
\<close>

theorem bindings_targets_made:
  assumes "bind_build opts s c modules = Inr acts" and "Bindgen t \<in> set acts"
    and "apidefs c = Some api_dir" and "site_listdir s (path_joins (site_dir s) [''apidefs'', api_dir]) = Inr listing"
    and "set (key_order s (dict_keys modules)) = set (dict_keys modules)"
    and "list_all plain_name (key_order s (dict_keys modules))" and "plain_name (path_joins (site_dir s) [''apidefs'', api_dir])"
    and "build_root \<noteq> []" and "\<not> ends_with build_root ''/''"
    and "generator_main g environ (generator_argv src_root build_root t) = (es, Inr m)"
  shows "(\<forall>f\<in>set (bindgen_target t) - {''ns3modulegen.log''}. Closed (path_join build_root f) \<in> set es) \<longleftrightarrow>
    set (scanned_modules listing) \<subseteq> dash_to_underscore ` set (dict_keys modules)"
proof -
  let ?keys = "key_order s (dict_keys modules)" and ?main = "path_join build_root ''ns3module.cc''"
  let ?debug = "has_key (site_environ s) ''PYBINDGEN_DEBUG''"
  have t: "t = bindgen_command_task (site_exists s) ?debug (site_dir s) api_dir (scanned_modules listing) ?keys (features c)"
    using build_bindings_task [OF assms(1,2)] assms(3,4) by auto
  have closed: "{f. Closed f \<in> set es} = set (section_files ?main ?keys)"
    using generator_success [OF assms(10)] section_events [of ?main ?keys]
    unfolding t generator_argv_eq [OF assms(6,7)] by auto
  note sf = section_files_below [OF assms(8,9)]
  have made: "Closed (below build_root f) \<in> set es \<longleftrightarrow>
      f \<in> {''ns3module.cc'', ''pch/ns3module.h''} \<union> (\<lambda>m. module_cc (dash_to_underscore m)) ` set (dict_keys modules)" for f
    using closed unfolding sf(1,4) assms(5) below_mem [of build_root f, symmetric] by blast
  have "(\<forall>f\<in>{''ns3module.cc'', ''pch/ns3module.h''} \<union> module_cc ` set (scanned_modules listing). Closed (path_join build_root f) \<in> set es)
      \<longleftrightarrow> (\<forall>m\<in>set (scanned_modules listing). m \<in> dash_to_underscore ` set (dict_keys modules))"
    unfolding ball_Un ball_simps sf(1,2,3) made module_cc_mem by blast
  then show ?thesis unfolding t target_set by blast
qed

text \<open>A site with the definitions of a module that is not built.\<close>

lemma demo_generator_runs:
  "\<exists>es m. generator_main demo_generator [(''NS3_ENABLED_FEATURES'', ''RealTime,Threading'')] ([script, f, dir] @ mods) = (es, Inr m)"
proof -
  let ?e = "[(''NS3_ENABLED_FEATURES'', ''RealTime,Threading'')]" and ?g = demo_generator
  have "\<not> isl (register_phase ?g demo_root)"
    unfolding register_phase_def Simulator_customizations_def CommandLine_customizations_def
      TypeId_customizations_def add_ipv4_address_tp_hash_def module_get_def lookup_name_def
    by (simp add: demo_generator_def demo_generated_def demo_root_def demo_names Let_def local_modules_def
        add_std_ofstream_def add_class_def)
  then obtain m1 where m1: "register_phase ?g demo_root = Inr m1" by (cases "register_phase ?g demo_root") auto
  obtain m where m2: "method_phase ?g m1 = Inr m"
    using demo_method_phase [OF conjunct1 [OF demo_register_phase [OF m1]]] by blast
  note m1 = m1 m2
  have m: "rbind (register_phase ?g demo_root) (method_phase ?g) = Inr m" by (simp add: m1)
  have ok: "api_ok (registry m) (members m)" using demo_generator_features [OF m] demo_api_ok by simp
  have "drop_named (registry m) {} {} (members m) = members m" by (simp add: drop_named_def named_def)
  then obtain b where b: "remove_disabled (registry m) ?e (members m) = Inr b"
    using remove_disabled_drop [OF ok, of ?e "''RealTime,Threading''"] by simp
  have "py_nth ([script, f, dir] @ mods) 1 = Inr f" "py_nth ([script, f, dir] @ mods) 2 = Inr dir"
    using py_nth_nat [of "[script, f, dir] @ mods" 1] py_nth_nat [of "[script, f, dir] @ mods" 2] by simp_all
  moreover have "list_all (can_open ?g) fs" "generate_error ?g = (\<lambda>_ _. None)" "module_init ?g = demo_root" for fs
    by (simp_all add: demo_generator_def list_all_iff)
  ultimately show ?thesis by (simp add: generator_main_def open_all_result m1 b Let_def)
qed

definition demo_site :: bind_site where
  "demo_site = \<lparr>site_platform = ''linux2'', opt_platform = ''linux2'', site_dir = ''/ns'', ns3_src_dir = ''/ns/ns3'', ns3_build_dir = ''/b/ns3'',
     calcsize = (\<lambda>c. if c = CHR ''I'' then 4 else 8),
     site_listdir = (\<lambda>d. Inr [''ns3_module_core.py'', ''ns3_module_wimax.py'', ''ns3modulegen_generated.py'']),
     site_exists = (\<lambda>f. False), site_mtime = (\<lambda>f. None), site_environ = [], site_static = False, site_linkflags = [],
     site_defines = [], key_order = (\<lambda>ks. ks)\<rparr>"

definition demo_enabled :: bind_conf where
  "demo_enabled = demo_bind_conf\<lparr>bindings_enabled := True, apidefs := Some ''gcc-LP64''\<rparr>"

lemma bindings_targets_made_witness:
  "\<exists>acts t es m. bind_build (default_bind_options\<lparr>python_disable := False\<rparr>) demo_site demo_enabled [(''core'', [], [])] = Inr acts \<and>
     Bindgen t \<in> set acts \<and> generator_main demo_generator [(''NS3_ENABLED_FEATURES'', ''RealTime,Threading'')]
       (generator_argv ''/ns'' ''build'' t) = (es, Inr m) \<and>
     (\<exists>f. f \<in> set (bindgen_target t) \<and> Closed (path_join ''build'' f) \<notin> set es)"
proof -
  let ?o = "default_bind_options\<lparr>python_disable := False\<rparr>" and ?l = "[''ns3_module_core.py'', ''ns3_module_wimax.py'', ''ns3modulegen_generated.py'']"
  let ?t = "bindgen_command_task (site_exists demo_site) False ''/ns'' ''gcc-LP64'' (scanned_modules ?l) [''core''] []"
  have sc: "scanned_modules ?l = [''core'', ''wimax'']" by code_simp
  have api: "apidefs demo_enabled = Some ''gcc-LP64''" and ls: "site_listdir demo_site d = Inr ?l" for d
    by (simp_all add: demo_enabled_def demo_site_def)
  have k: "key_order demo_site (dict_keys [(''core'', [], [])]) = [''core'']" and d: "site_dir demo_site = ''/ns''"
    by (simp_all add: demo_site_def dict_keys_def)
  have f: "features demo_enabled = []" "has_key (site_environ demo_site) ''PYBINDGEN_DEBUG'' = False"
    by (simp_all add: demo_enabled_def demo_bind_conf_def demo_site_def has_key_def features_def)
  obtain rest where "build_bindings demo_site demo_enabled [(''core'', [], [])] = Inr (Bindgen ?t # rest)"
    unfolding build_bindings_def api option.case ls rbind_simps Let_def k d f by simp
  then have a': "bind_build ?o demo_site demo_enabled [(''core'', [], [])] = Inr ([AllHeaders] @ Bindgen ?t # rest)"
    unfolding bind_build_def by (simp add: default_bind_options_def demo_enabled_def)
  define acts where "acts = [AllHeaders] @ Bindgen ?t # rest"
  with a' have a: "bind_build ?o demo_site demo_enabled [(''core'', [], [])] = Inr acts" "Bindgen ?t \<in> set acts" by simp_all
  have p: "list_all plain_name [''core'']" "plain_name (path_joins ''/ns'' [''apidefs'', ''gcc-LP64''])" by code_simp+
  obtain es m where run: "generator_main demo_generator [(''NS3_ENABLED_FEATURES'', ''RealTime,Threading'')] (generator_argv ''/ns'' ''build'' ?t) = (es, Inr m)"
    unfolding generator_argv_eq [OF p] using demo_generator_runs by blast
  have "\<not> set (scanned_modules ?l) \<subseteq> dash_to_underscore ` set (dict_keys [(''core'', [], [] :: string list)])"
    unfolding sc by (simp add: dict_keys_def dash_to_underscore_def)
  moreover have "set (key_order demo_site (dict_keys [(''core'', [], [])])) = set (dict_keys [(''core'', [], [] :: string list)])"
    unfolding k by (simp add: dict_keys_def)
  note key = this
  have kp: "list_all plain_name (key_order demo_site (dict_keys [(''core'', [], [])]))" unfolding k by (rule p(1))
  have dp: "plain_name (path_joins (site_dir demo_site) [''apidefs'', ''gcc-LP64''])" unfolding d by (rule p(2))
  have "''build'' \<noteq> []" "\<not> ends_with ''build'' ''/''" by (simp_all add: ends_with_def)
  note bindings_targets_made [OF a api ls key kp dp this run]
  ultimately obtain f where "f \<in> set (bindgen_target ?t)" "Closed (path_join ''build'' f) \<notin> set es" by blast
  with a run show ?thesis by blast
qed

text \<open>
  The definitions in the repository include those of \<^verbatim>\<open>wimax\<close>, which the list of modules
  leaves out.
\<close>

lemma wimax_unbuilt:
  "scanned_module ''ns3_module_wimax.py'' = Some ''wimax''" "''wimax'' \<notin> dash_to_underscore ` set (map (drop 4) ns3_modules)"
  by code_simp+

text \<open>Without the option a build makes no task, whatever was configured.\<close>

lemma build_needs_option: "bind_build default_bind_options s c modules = Inr []"
  by (simp add: bind_build_def default_bind_options_def)

end
