(* ===== verification/WscriptDist.thy ===== *)
theory WscriptDist
  imports WscriptModules
begin

section \<open>Making a distribution: \<^verbatim>\<open>wscript\<close>\<close>

text \<open>
  \<^verbatim>\<open>_copytree\<close> and \<^verbatim>\<open>DistDir\<close> of the main \<^verbatim>\<open>wscript\<close>, which copy the sources into a new
  directory without repository data and build products, and \<^verbatim>\<open>dist_hook\<close>, which packs the
  reference traces. File systems are trees; which operations on files fail is a parameter.
\<close>

subsection \<open>Copying a tree\<close>

text \<open>
  A link carries its text and what following it gives. The outcome of copying: nothing, the
  collected errors as \<^verbatim>\<open>shutil.Error\<close>, or an exception that is not caught.
\<close>

datatype fs_node = RegularNode string | DirNode "(string \<times> fs_node) list" | LinkNode string "fs_node option"

datatype copy_error = CopyFailure string string | LooseText string

datatype copy_outcome = Copied | ShutilError "copy_error list" | Uncaught py_exc

datatype stat_outcome = StatOk | StatWindowsError | StatOSError

text \<open>
  The globals of the wscript, the suffixes \<^verbatim>\<open>dist_exts\<close> of waf, and the files: which can be
  read or linked, which directories can be listed and made, and how copying the dates of one ends.
\<close>

record copy_env =
  copy_globals :: "string list"
  dist_exts :: "string list"
  can_copy :: "string \<Rightarrow> bool"
  can_list :: "string \<Rightarrow> bool"
  can_make :: "string \<Rightarrow> bool"
  copystat :: "string \<Rightarrow> stat_outcome"

fun is_directory :: "fs_node \<Rightarrow> bool" where
  "is_directory (DirNode es) = True"
| "is_directory (LinkNode l (Some n)) = is_directory n"
| "is_directory n = False"

text \<open>The names of directories and of files that are left out.\<close>

definition skip_dir :: "string list \<Rightarrow> string option \<Rightarrow> string \<Rightarrow> bool" where
  "skip_dir excludes bdir name \<longleftrightarrow>
     name \<in> set excludes \<or> starts_with name ''.'' \<or> starts_with name '',,'' \<or> starts_with name ''++'' \<or> starts_with name ''CVS'' \<or>
     Some name = bdir"

definition skip_file :: "string list \<Rightarrow> string \<Rightarrow> bool" where
  "skip_file exts name \<longleftrightarrow> starts_with name ''.'' \<or> starts_with name ''++'' \<or> list_ex (\<lambda>x. ends_with name x) exts"

text \<open>
  The end of the function: the dates are copied and the errors raised. Where the name
  \<^verbatim>\<open>WindowsError\<close> is unknown, a failure of \<^verbatim>\<open>copystat\<close> is a NameError; elsewhere an OSError
  adds three texts to the list.
\<close>

definition finish_copy :: "copy_env \<Rightarrow> string \<Rightarrow> string \<Rightarrow> copy_error list \<Rightarrow> copy_outcome" where
  "finish_copy env src dst errors =
     (let raise_errors = (\<lambda>es. if es = [] then Copied else ShutilError es) in
      case copystat env src of
        StatOk \<Rightarrow> raise_errors errors
      | StatWindowsError \<Rightarrow> (if ''WindowsError'' \<in> set (copy_globals env) then raise_errors errors else Uncaught NameError)
      | StatOSError \<Rightarrow> (if ''WindowsError'' \<in> set (copy_globals env)
          then raise_errors (errors @ [LooseText src, LooseText dst, LooseText ''OSError'']) else Uncaught NameError))"

text \<open>
  The loop over the entries, with the entries made in the destination: \<open>copy\<close> gives those of
  one entry and its errors, or an exception that ends the loop.
\<close>

type_synonym entries = "(string \<times> fs_node) list"

fun copy_entries :: "(string \<times> fs_node \<Rightarrow> entries \<times> (copy_error list + py_exc)) \<Rightarrow> entries \<Rightarrow> entries \<times> (copy_error list + py_exc)" where
  "copy_entries copy [] = ([], Inl [])"
| "copy_entries copy (e # es) =
     (case copy e of
        (new, Inr x) \<Rightarrow> (new, Inr x)
      | (new, Inl errors) \<Rightarrow>
          (case copy_entries copy es of
             (new', Inr x) \<Rightarrow> (new @ new', Inr x)
           | (new', Inl errors') \<Rightarrow> (new @ new', Inl (errors @ errors'))))"

lemma copy_entries_cong [fundef_cong]:
  "es = es' \<Longrightarrow> (\<And>e. e \<in> set es' \<Longrightarrow> copy e = copy' e) \<Longrightarrow> copy_entries copy es = copy_entries copy' es'"
  by (induction es arbitrary: es') (auto split: prod.splits sum.splits)

definition copy_dir ::
  "copy_env \<Rightarrow> (string \<times> fs_node \<Rightarrow> entries \<times> (copy_error list + py_exc)) \<Rightarrow> string \<Rightarrow> string \<Rightarrow> entries \<Rightarrow> entries \<times> copy_outcome" where
  "copy_dir env copy src dst es =
     (if \<not> can_list env src \<or> \<not> can_make env dst then ([], Uncaught OSError)
      else case copy_entries copy es of
        (new, Inr x) \<Rightarrow> (new, Uncaught x)
      | (new, Inl errors) \<Rightarrow> (new, finish_copy env src dst errors))"

lemma copy_dir_cong [fundef_cong]:
  "es = es' \<Longrightarrow> (\<And>e. e \<in> set es' \<Longrightarrow> copy e = copy' e) \<Longrightarrow> copy_dir env copy src dst es = copy_dir env copy' src dst es'"
  unfolding copy_dir_def using copy_entries_cong [of es es' copy copy'] by presburger

lemma size_entry: "e \<in> set es \<Longrightarrow> size (snd e) \<le> size_list (\<lambda>e. Suc (size (snd e))) (es :: entries)"
  by (induction es) auto

text \<open>
  One entry. The recursive call names a function \<^verbatim>\<open>copytree\<close>, without the directory of the
  build; where the name is unknown the call raises NameError, which no handler catches.
\<close>

function copy_node :: "copy_env \<Rightarrow> bool \<Rightarrow> string list \<Rightarrow> string option \<Rightarrow> string \<Rightarrow> string \<Rightarrow> string \<times> fs_node \<Rightarrow>
    entries \<times> (copy_error list + py_exc)" where
  "copy_node env symlinks excludes bdir src dst (name, RegularNode s) =
     (if skip_file (dist_exts env) name then ([], Inl [])
      else if can_copy env (path_join src name) then ([(name, RegularNode s)], Inl [])
      else ([], Inl [CopyFailure (path_join src name) (path_join dst name)]))"
| "copy_node env symlinks excludes bdir src dst (name, DirNode es) =
     (if skip_dir excludes bdir name then ([], Inl [])
      else if ''copytree'' \<notin> set (copy_globals env) then ([], Inr NameError)
      else (case copy_dir env (copy_node env symlinks excludes None (path_join src name) (path_join dst name))
                   (path_join src name) (path_join dst name) es of
          (new, Copied) \<Rightarrow> ([(name, DirNode new)], Inl [])
        | (new, ShutilError errors) \<Rightarrow> ([(name, DirNode new)], Inl errors)
        | (new, Uncaught e) \<Rightarrow>
            (if can_list env (path_join src name) \<and> can_make env (path_join dst name) then [(name, DirNode new)] else [],
             if e = OSError then Inl [CopyFailure (path_join src name) (path_join dst name)] else Inr e)))"
| "copy_node env symlinks excludes bdir src dst (name, LinkNode l target) =
     (if symlinks then
        (if can_copy env (path_join src name) then ([(name, LinkNode l None)], Inl [])
         else ([], Inl [CopyFailure (path_join src name) (path_join dst name)]))
      else case target of
        Some n \<Rightarrow> copy_node env symlinks excludes bdir src dst (name, n)
      | None \<Rightarrow> if skip_file (dist_exts env) name then ([], Inl [])
                else ([], Inl [CopyFailure (path_join src name) (path_join dst name)]))"
  by pat_completeness auto
termination
  by (relation "measure (\<lambda>(env, symlinks, excludes, bdir, src, dst, name, node). size node)")
    (auto dest: size_entry simp: size_prod_simp less_Suc_eq_le split: prod.splits)

definition copytree :: "copy_env \<Rightarrow> bool \<Rightarrow> string list \<Rightarrow> string option \<Rightarrow> string \<Rightarrow> string \<Rightarrow> entries \<Rightarrow> entries \<times> copy_outcome" where
  "copytree env symlinks excludes bdir src dst es = copy_dir env (copy_node env symlinks excludes bdir src dst) src dst es"

subsection \<open>The files that are copied\<close>

text \<open>
  The files below a node: the names on the way and the text, \<open>None\<close> for a link that leads
  nowhere. A file is visible when no directory on its way and not the file itself is left out.
\<close>

fun node_files :: "fs_node \<Rightarrow> (string list \<times> string option) list" where
  "node_files (RegularNode s) = [([], Some s)]"
| "node_files (DirNode es) = concat (map (\<lambda>(n, x). map (\<lambda>(p, c). (n # p, c)) (node_files x)) es)"
| "node_files (LinkNode l None) = [([], None)]"
| "node_files (LinkNode l (Some x)) = node_files x"

definition entry_files :: "string \<times> fs_node \<Rightarrow> (string list \<times> string option) list" where
  "entry_files e = map (\<lambda>(p, c). (fst e # p, c)) (node_files (snd e))"

fun visible_path :: "string list \<Rightarrow> string list \<Rightarrow> string option \<Rightarrow> string list \<Rightarrow> bool" where
  "visible_path exts excludes bdir [] \<longleftrightarrow> False"
| "visible_path exts excludes bdir [f] \<longleftrightarrow> \<not> skip_file exts f"
| "visible_path exts excludes bdir (d # f # p) \<longleftrightarrow> \<not> skip_dir excludes bdir d \<and> visible_path exts excludes None (f # p)"

definition readable :: "copy_env \<Rightarrow> string \<Rightarrow> string list \<times> string option \<Rightarrow> bool" where
  "readable env src f \<longleftrightarrow> snd f \<noteq> None \<and> can_copy env (foldl path_join src (fst f))"

definition copied_files ::
  "copy_env \<Rightarrow> string list \<Rightarrow> string option \<Rightarrow> string \<Rightarrow> (string list \<times> string option) list \<Rightarrow> (string list \<times> string option) list" where
  "copied_files env excludes bdir src fs =
     filter (\<lambda>f. visible_path (dist_exts env) excludes bdir (fst f) \<and> readable env src f) fs"

definition failed_copies ::
  "copy_env \<Rightarrow> string list \<Rightarrow> string option \<Rightarrow> string \<Rightarrow> string \<Rightarrow> (string list \<times> string option) list \<Rightarrow> copy_error list" where
  "failed_copies env excludes bdir src dst fs =
     map (\<lambda>f. CopyFailure (foldl path_join src (fst f)) (foldl path_join dst (fst f)))
       (filter (\<lambda>f. visible_path (dist_exts env) excludes bdir (fst f) \<and> \<not> readable env src f) fs)"

lemma node_files_dir: "node_files (DirNode es) = concat (map entry_files es)"
  unfolding node_files.simps entry_files_def by (rule arg_cong [where f = concat]) (auto simp: case_prod_beta)

lemma files_append [simp]:
  "copied_files env excludes bdir src (fs @ gs) = copied_files env excludes bdir src fs @ copied_files env excludes bdir src gs"
  "failed_copies env excludes bdir src dst (fs @ gs) =
     failed_copies env excludes bdir src dst fs @ failed_copies env excludes bdir src dst gs"
  by (simp_all add: copied_files_def failed_copies_def)

lemma files_concat [simp]:
  "copied_files env excludes bdir src (concat fss) = concat (map (copied_files env excludes bdir src) fss)"
  "failed_copies env excludes bdir src dst (concat fss) = concat (map (failed_copies env excludes bdir src dst) fss)"
  by (induction fss) (simp_all add: copied_files_def failed_copies_def)

text \<open>Below a directory that is not left out, the path starts with its name.\<close>

lemma entry_files_path: "f \<in> set (entry_files e) \<Longrightarrow> \<exists>p. fst f = fst e # p"
  by (auto simp: entry_files_def)

lemma files_below:
  assumes "[] \<notin> fst ` set fs"
  shows "copied_files env excludes bdir src (map (\<lambda>(p, c). (d # p, c)) fs) =
      (if skip_dir excludes bdir d then [] else map (\<lambda>(p, c). (d # p, c)) (copied_files env excludes None (path_join src d) fs))"
    and "failed_copies env excludes bdir src dst (map (\<lambda>(p, c). (d # p, c)) fs) =
      (if skip_dir excludes bdir d then [] else failed_copies env excludes None (path_join src d) (path_join dst d) fs)"
proof -
  have v: "visible_path (dist_exts env) excludes bdir (d # fst f) \<longleftrightarrow>
      \<not> skip_dir excludes bdir d \<and> visible_path (dist_exts env) excludes None (fst f)" if "f \<in> set fs" for f
    using assms that by (cases "fst f") force+
  have r: "readable env src (d # fst f, snd f) = readable env (path_join src d) f" for f by (simp add: readable_def)
  have m: "map (\<lambda>(p, c). (d # p, c)) gs = map (\<lambda>f. (d # fst f, snd f)) gs" for gs :: "(string list \<times> string option) list"
    by (simp add: case_prod_beta)
  show "copied_files env excludes bdir src (map (\<lambda>(p, c). (d # p, c)) fs) =
      (if skip_dir excludes bdir d then [] else map (\<lambda>(p, c). (d # p, c)) (copied_files env excludes None (path_join src d) fs))"
    unfolding m copied_files_def by (auto simp: filter_map comp_def r v cong: filter_cong)
  show "failed_copies env excludes bdir src dst (map (\<lambda>(p, c). (d # p, c)) fs) =
      (if skip_dir excludes bdir d then [] else failed_copies env excludes None (path_join src d) (path_join dst d) fs)"
    unfolding m failed_copies_def by (auto simp: filter_map comp_def r v cong: filter_cong)
qed

text \<open>What the copies of entries add up to when no exception stops the loop.\<close>

definition copies_files ::
  "copy_env \<Rightarrow> string list \<Rightarrow> string option \<Rightarrow> string \<Rightarrow> string \<Rightarrow> (string list \<times> string option) list \<Rightarrow>
     entries \<times> (copy_error list + py_exc) \<Rightarrow> bool" where
  "copies_files env excludes bdir src dst fs r \<longleftrightarrow>
     node_files (DirNode (fst r)) = copied_files env excludes bdir src fs \<and>
     snd r = Inl (failed_copies env excludes bdir src dst fs)"

lemma copy_entries_files:
  assumes "\<And>e. e \<in> set es \<Longrightarrow> copies_files env excludes bdir src dst (entry_files e) (copy e)"
  shows "copies_files env excludes bdir src dst (node_files (DirNode es)) (copy_entries copy es)"
  using assms
proof (induction es)
  case (Cons e es)
  obtain new errs where e: "copy e = (new, Inl errs)" "copies_files env excludes bdir src dst (entry_files e) (new, Inl errs)"
    using Cons.prems [of e] by (cases "copy e") (auto simp: copies_files_def)
  obtain new' errs' where es: "copy_entries copy es = (new', Inl errs')"
      "copies_files env excludes bdir src dst (node_files (DirNode es)) (new', Inl errs')"
    using Cons.IH Cons.prems by (cases "copy_entries copy es") (auto simp: copies_files_def)
  show ?case using e es by (simp add: copies_files_def node_files_dir del: node_files.simps)
qed (simp add: copies_files_def copied_files_def failed_copies_def)

lemma copy_dir_files:
  assumes "can_list env = (\<lambda>_. True)" and "can_make env = (\<lambda>_. True)" and "copystat env = (\<lambda>_. StatOk)"
    and "\<And>e. e \<in> set es \<Longrightarrow> copies_files env excludes bdir src dst (entry_files e) (copy e)"
  shows "\<exists>new. copy_dir env copy src dst es = (new, let errs = failed_copies env excludes bdir src dst (node_files (DirNode es))
      in if errs = [] then Copied else ShutilError errs) \<and>
    node_files (DirNode new) = copied_files env excludes bdir src (node_files (DirNode es))"
proof -
  have "copies_files env excludes bdir src dst (node_files (DirNode es)) (copy_entries copy es)"
    using assms(4) by (rule copy_entries_files)
  then obtain new where "copy_entries copy es = (new, Inl (failed_copies env excludes bdir src dst (node_files (DirNode es))))"
      "node_files (DirNode new) = copied_files env excludes bdir src (node_files (DirNode es))"
    unfolding copies_files_def by (cases "copy_entries copy es") (simp del: node_files.simps)
  then show ?thesis using assms(1-3) by (simp add: copy_dir_def finish_copy_def Let_def del: node_files.simps)
qed

text \<open>A directory, or a link to one, that is not left out.\<close>

definition visible_dir :: "string list \<Rightarrow> string option \<Rightarrow> string \<times> fs_node \<Rightarrow> bool" where
  "visible_dir excludes bdir e \<longleftrightarrow> is_directory (snd e) \<and> \<not> skip_dir excludes bdir (fst e)"

lemma copy_node_files:
  assumes "can_list env = (\<lambda>_. True)" and "can_make env = (\<lambda>_. True)" and "copystat env = (\<lambda>_. StatOk)"
    and "''copytree'' \<in> set (copy_globals env) \<or> \<not> visible_dir excludes bdir e"
  shows "copies_files env excludes bdir src dst (entry_files e) (copy_node env False excludes bdir src dst e)"
  using assms
proof (induction env "False" excludes bdir src dst e rule: copy_node.induct)
  case (1 env excludes bdir src dst name s)
  then show ?case by (simp add: copies_files_def entry_files_def copied_files_def failed_copies_def readable_def)
next
  case (2 env excludes bdir src dst name es)
  have fs: "entry_files (name, DirNode es) = map (\<lambda>(p, c). (name # p, c)) (node_files (DirNode es))"
    by (simp add: entry_files_def del: node_files.simps)
  have ne: "[] \<notin> fst ` set (node_files (DirNode es))"
    using entry_files_path unfolding node_files_dir by fastforce
  show ?case
  proof (cases "skip_dir excludes bdir name")
    case True
    then show ?thesis unfolding copies_files_def fs files_below [OF ne] by simp
  next
    case False
    then have b: "''copytree'' \<in> set (copy_globals env)" using "2.prems"(4) by (simp add: visible_dir_def)
    have "copies_files env excludes None (path_join src name) (path_join dst name) (entry_files e)
        (copy_node env False excludes None (path_join src name) (path_join dst name) e)" if "e \<in> set es" for e
      using "2.hyps" [OF False _ that "2.prems"(1-3)] b by simp
    from copy_dir_files [OF "2.prems"(1-3) this] obtain new where
      new: "copy_dir env (copy_node env False excludes None (path_join src name) (path_join dst name)) (path_join src name) (path_join dst name) es =
          (new, let errs = failed_copies env excludes None (path_join src name) (path_join dst name) (node_files (DirNode es))
             in if errs = [] then Copied else ShutilError errs)"
        "node_files (DirNode new) = copied_files env excludes None (path_join src name) (node_files (DirNode es))" by blast
    then show ?thesis
      unfolding copies_files_def fs files_below [OF ne]
      using False b by (simp add: Let_def del: node_files.simps(2)) (simp add: case_prod_beta)
  qed
next
  case (3 env excludes bdir src dst name l target)
  show ?case
  proof (cases target)
    case None
    then show ?thesis by (simp add: copies_files_def entry_files_def copied_files_def failed_copies_def readable_def)
  next
    case (Some x)
    then show ?thesis using "3.hyps" [OF _ Some "3.prems"(1-3)] "3.prems"(4) by (simp add: entry_files_def visible_dir_def)
  qed
qed


lemma copy_node_unknown:
  assumes "''copytree'' \<notin> set (copy_globals env)"
  shows "snd (copy_node env False excludes bdir src dst e) = Inr NameError \<longleftrightarrow> visible_dir excludes bdir e"
    and "isl (snd (copy_node env False excludes bdir src dst e)) \<longleftrightarrow> \<not> visible_dir excludes bdir e"
proof -
  have "if visible_dir excludes bdir e then snd (copy_node env False excludes bdir src dst e) = Inr NameError
      else isl (snd (copy_node env False excludes bdir src dst e))"
    using assms
  proof (induction env "False" excludes bdir src dst e rule: copy_node.induct)
    case (3 env excludes bdir src dst name l target)
    then show ?case by (cases target) (auto simp: visible_dir_def)
  qed (simp_all add: visible_dir_def)
  then show "snd (copy_node env False excludes bdir src dst e) = Inr NameError \<longleftrightarrow> visible_dir excludes bdir e"
    "isl (snd (copy_node env False excludes bdir src dst e)) \<longleftrightarrow> \<not> visible_dir excludes bdir e"
    by (auto split: if_splits)
qed

lemma copy_entries_unknown:
  assumes "''copytree'' \<notin> set (copy_globals env)" and "list_ex (visible_dir excludes bdir) es"
  shows "snd (copy_entries (copy_node env False excludes bdir src dst) es) = Inr NameError"
  using assms(2)
proof (induction es)
  case (Cons e es)
  obtain new r where e: "copy_node env False excludes bdir src dst e = (new, r)" by fastforce
  show ?case
  proof (cases "visible_dir excludes bdir e")
    case True
    then show ?thesis using copy_node_unknown(1) [OF assms(1), of excludes bdir src dst e] e by simp
  next
    case False
    then obtain errs where "r = Inl errs"
      using copy_node_unknown(2) [OF assms(1), of excludes bdir src dst e] e by (cases r) auto
    then show ?thesis using Cons False e by (auto split: prod.splits sum.splits)
  qed
qed simp

text \<open>A directory that cannot be listed is one error, and nothing of it is made.\<close>

lemma copy_node_unlisted:
  assumes "''copytree'' \<in> set (copy_globals env)" and "\<not> can_list env (path_join src name)"
    and "\<not> skip_dir excludes bdir name"
  shows "copy_node env symlinks excludes bdir src dst (name, DirNode es) =
    ([], Inl [CopyFailure (path_join src name) (path_join dst name)])"
  using assms by (simp add: copy_dir_def)

text \<open>
  C21. With directories that can be listed, made and dated, \<^verbatim>\<open>_copytree\<close> ends with
  NameError as soon as there is a directory to copy, if the name \<^verbatim>\<open>copytree\<close> is unknown, as it
  is in the wscript. Otherwise the new directory holds exactly the readable files that no
  excluded directory and no excluded name hides, at the same places, and the others among
  the visible files are the errors raised in the end, in order.
\<close>

theorem copytree_outcome:
  assumes "can_list env = (\<lambda>_. True)" and "can_make env = (\<lambda>_. True)" and "copystat env = (\<lambda>_. StatOk)"
    and "copytree env False excludes bdir src dst es = (new, out)"
  shows "if ''copytree'' \<notin> set (copy_globals env) \<and> list_ex (visible_dir excludes bdir) es then out = Uncaught NameError
    else node_files (DirNode new) = copied_files env excludes bdir src (node_files (DirNode es)) \<and>
      out = (let errs = failed_copies env excludes bdir src dst (node_files (DirNode es)) in
             if errs = [] then Copied else ShutilError errs)"
proof (cases "''copytree'' \<notin> set (copy_globals env) \<and> list_ex (visible_dir excludes bdir) es")
  case True
  then have "snd (copy_entries (copy_node env False excludes bdir src dst) es) = Inr NameError"
    by (intro copy_entries_unknown) simp_all
  then have "out = Uncaught NameError"
    using assms(1,2,4) by (cases "copy_entries (copy_node env False excludes bdir src dst) es") (simp add: copytree_def copy_dir_def)
  then show ?thesis using True by simp
next
  case False
  then have ok: "copies_files env excludes bdir src dst (entry_files e) (copy_node env False excludes bdir src dst e)" if "e \<in> set es" for e
    using that by (intro copy_node_files assms(1-3)) (auto simp: list_ex_iff)
  let ?errs = "failed_copies env excludes bdir src dst (node_files (DirNode es))"
  have "\<exists>new. copy_dir env (copy_node env False excludes bdir src dst) src dst es =
        (new, let errs = ?errs in if errs = [] then Copied else ShutilError errs) \<and>
      node_files (DirNode new) = copied_files env excludes bdir src (node_files (DirNode es))"
    by (rule copy_dir_files [OF assms(1-3)]) (rule ok)
  then show ?thesis using assms(4) unfolding copytree_def if_not_P [OF False] by (elim exE conjE) simp
qed

definition demo_copy_env :: copy_env where
  "demo_copy_env = \<lparr>copy_globals = [''copytree''], dist_exts = [''~'', ''.pyc''], can_copy = (\<lambda>p. p \<noteq> ''./b''),
     can_list = (\<lambda>_. True), can_make = (\<lambda>_. True), copystat = (\<lambda>_. StatOk)\<rparr>"

definition demo_sources :: entries where
  "demo_sources = [(''a'', RegularNode ''1''), (''b'', RegularNode ''2''), (''x.pyc'', RegularNode ''3''),
     (''src'', DirNode [(''m'', RegularNode ''4''), (''.hg'', DirNode [(''store'', RegularNode ''5'')])]),
     (''build'', DirNode [(''o'', RegularNode ''6'')])]"

theorem copytree_outcome_witness:
  "\<exists>new. copytree demo_copy_env False [''.git''] (Some ''build'') ''.'' ''dist'' demo_sources =
       (new, ShutilError [CopyFailure ''./b'' ''dist/b'']) \<and>
     node_files (DirNode new) = [([''a''], Some ''1''), ([''src'', ''m''], Some ''4'')]"
proof -
  obtain new out where c: "copytree demo_copy_env False [''.git''] (Some ''build'') ''.'' ''dist'' demo_sources = (new, out)" by fastforce
  have e: "can_list demo_copy_env = (\<lambda>_. True)" "can_make demo_copy_env = (\<lambda>_. True)" "copystat demo_copy_env = (\<lambda>_. StatOk)" "''copytree'' \<in> set (copy_globals demo_copy_env)"
    by (simp_all add: demo_copy_env_def)
  have "copied_files demo_copy_env [''.git''] (Some ''build'') ''.'' (node_files (DirNode demo_sources)) =
      [([''a''], Some ''1''), ([''src'', ''m''], Some ''4'')]"
    "failed_copies demo_copy_env [''.git''] (Some ''build'') ''.'' ''dist'' (node_files (DirNode demo_sources)) = [CopyFailure ''./b'' ''dist/b'']"
    by code_simp+
  then show ?thesis using copytree_outcome [OF e(1-3) c] e(4) c by simp
qed

subsection \<open>The distribution directory\<close>

text \<open>
  \<^verbatim>\<open>os.walk\<close> from the top: every directory with its files; links to directories are not
  followed. \<^verbatim>\<open>str.replace\<close> with the empty text deletes every occurrence.
\<close>

function os_walk :: "string \<Rightarrow> entries \<Rightarrow> (string \<times> string list) list" where
  "os_walk root es = (root, map fst (filter (\<lambda>(n, x). \<not> is_directory x) es)) #
     concat (map (\<lambda>(n, x). case x of DirNode ds \<Rightarrow> os_walk (path_join root n) ds | _ \<Rightarrow> []) es)"
  by pat_completeness auto
termination
  by (relation "measure (\<lambda>(root, es). size_list (\<lambda>e. Suc (size (snd e))) es)")
    (auto dest!: size_entry simp: size_prod_simp split: prod.splits)

function delete_all :: "string \<Rightarrow> string \<Rightarrow> string" where
  "delete_all old s =
     (if s = [] \<or> old = [] then s
      else if starts_with s old then delete_all old (drop (length old) s) else hd s # delete_all old (tl s))"
  by pat_completeness auto
termination
  by (relation "measure (\<lambda>(old, s). length s)") (auto simp: neq_Nil_conv)

declare delete_all.simps [simp del]

definition get_files :: "string \<Rightarrow> entries \<Rightarrow> (string \<times> string) list" where
  "get_files base_dir es =
     (let reference = path_dir base_dir in
      concat (map (\<lambda>(root, files). if has_infix ''.hg'' root then []
        else map (\<lambda>f. (path_join root f, delete_all (reference @ ''/'') (path_join root f)))
               (filter (\<lambda>f. \<not> has_infix ''.hg'' f) files)) (os_walk base_dir es)))"

text \<open>
  The hook runs in the new directory. It removes the built documentation and NSC, and packs
  the traces if their directory exists; where \<^verbatim>\<open>configure\<close> found none, waf's environment gives
  an empty list, which \<^verbatim>\<open>os.path.isdir\<close> rejects with TypeError. \<open>traces\<close> are the directories
  there are, and the result has the new tree and the members of the archive.
\<close>

definition remove_path :: "string \<Rightarrow> string \<Rightarrow> entries \<Rightarrow> entries" where
  "remove_path d n es = map (\<lambda>(m, x). case x of
     DirNode ds \<Rightarrow> (m, if m = d then DirNode (filter (\<lambda>e. fst e \<noteq> n) ds) else x) | _ \<Rightarrow> (m, x)) es"

definition dist_hook ::
  "string option \<Rightarrow> (string \<Rightarrow> entries option) \<Rightarrow> entries \<Rightarrow> entries \<times> (string \<times> string) list option res" where
  "dist_hook regression_traces traces es =
     (let es' = filter (\<lambda>e. fst e \<noteq> ''nsc'') (remove_path ''doc'' ''latex'' (remove_path ''doc'' ''html'' es)) in
      (es', case regression_traces of
         None \<Rightarrow> Inl TypeError
       | Some d \<Rightarrow> (case traces d of None \<Rightarrow> Inr None | Some fs \<Rightarrow> Inr (Some (get_files d fs)))))"

text \<open>
  The distribution: an old directory is removed, \<open>rmtree_ok\<close> telling whether that works, the
  sources are copied and the hook is run. The result is the tree in the end and the name.
\<close>

definition DistDir ::
  "copy_env \<Rightarrow> string list \<Rightarrow> string option \<Rightarrow> (entries \<Rightarrow> entries \<times> 'a res) \<Rightarrow> bool \<Rightarrow> string \<Rightarrow> string \<Rightarrow> entries \<Rightarrow> entries \<times> string res" where
  "DistDir env excludes bdir hook rmtree_ok appname version root =
     (let tmp = appname @ ''-'' @ version in
      if tmp \<in> fst ` set root \<and> \<not> rmtree_ok then (root, Inl OSError)
      else let root' = filter (\<lambda>e. fst e \<noteq> tmp) root in
        (case copytree env False excludes bdir ''.'' tmp root' of
           (new, Uncaught e) \<Rightarrow> (root' @ [(tmp, DirNode new)], Inl e)
         | (new, ShutilError es) \<Rightarrow> (root' @ [(tmp, DirNode new)], Inl (PyException ''shutil.Error''))
         | (new, Copied) \<Rightarrow> (case hook new of (new', r) \<Rightarrow>
             (root' @ [(tmp, DirNode new')], rbind r (\<lambda>_. Inr tmp)))))"

text \<open>With the names of the wscript, a distribution of sources with any directory to copy fails.\<close>

lemma DistDir_NameError:
  assumes "copy_globals env = wscript_names" and "can_list env = (\<lambda>_. True)" and "can_make env = (\<lambda>_. True)"
    and "e \<in> set root" and "visible_dir excludes bdir e" and "fst e \<noteq> appname @ ''-'' @ version"
    and "appname @ ''-'' @ version \<notin> fst ` set root \<or> rmtree_ok"
  shows "snd (DistDir env excludes bdir hook rmtree_ok appname version root) = Inl NameError"
proof -
  have u: "''copytree'' \<notin> set (copy_globals env)" unfolding assms(1) by code_simp
  let ?r = "filter (\<lambda>e. fst e \<noteq> appname @ ''-'' @ version) root"
  have "list_ex (visible_dir excludes bdir) ?r" using assms(4-6) unfolding list_ex_iff by (intro bexI [of _ e]) simp_all
  then have "snd (copy_entries (copy_node env False excludes bdir ''.'' (appname @ ''-'' @ version)) ?r) = Inr NameError"
    by (rule copy_entries_unknown [OF u])
  then obtain new where "copytree env False excludes bdir ''.'' (appname @ ''-'' @ version) ?r = (new, Uncaught NameError)"
    using assms(2,3) by (cases "copy_entries (copy_node env False excludes bdir ''.'' (appname @ ''-'' @ version)) ?r")
      (auto simp: copytree_def copy_dir_def)
  then show ?thesis using assms(7) by (auto simp: DistDir_def Let_def)
qed

text \<open>Without traces, the hook raises TypeError instead of the warning it has for that case.\<close>

lemma dist_hook_TypeError: "snd (dist_hook None traces es) = Inl TypeError"
  by (simp add: dist_hook_def Let_def)


end
