(* ===== verification/WscriptConf.thy ===== *)
theory WscriptConf
  imports WscriptModules
begin

section \<open>Configuring the build: \<^verbatim>\<open>wscript\<close>\<close>

text \<open>
  \<^verbatim>\<open>configure\<close> of the main \<^verbatim>\<open>wscript\<close> as a sequence of updates of the environment of the
  variant that is built. What the compiler, the system and the programs answer is a record;
  the configurations of the sub-directories are a parameter. Messages are not modelled.
\<close>

subsection \<open>Options, answers and variables\<close>

record conf_options =
  regression_traces :: "string option"
  build_profile :: string
  enable_gcov :: bool
  enable_modules_opt :: "string option"
  enable_mpi :: bool
  enable_sudo :: bool
  enable_examples :: bool
  enable_static :: bool

definition default_conf_options :: "string \<Rightarrow> conf_options" where
  "default_conf_options profile =
     \<lparr>regression_traces = None, build_profile = profile, enable_gcov = False, enable_modules_opt = None,
      enable_mpi = False, enable_sudo = False, enable_examples = True, enable_static = False\<rparr>"

text \<open>
  \<open>compiles\<close> tells for a mode and a flag what the test program returns, \<open>None\<close> if it cannot be
  compiled; \<open>mpi_flags\<close> is what \<^verbatim>\<open>mpic++\<close> prints for an argument; \<open>machine\<close> is
  \<^verbatim>\<open>os.uname()[4]\<close>.
\<close>

record conf_system =
  py_platform :: string
  waf_platform :: string
  machine :: string
  dir_exists :: "string \<Rightarrow> bool"
  absolute :: "string \<Rightarrow> string"
  compiles :: "string \<Rightarrow> string \<Rightarrow> int option"
  prints :: "string list \<Rightarrow> string"
  program_path :: "string \<Rightarrow> string option"
  gsl_found :: bool
  conf_os_environ :: environ

record build_conf =
  traces_dir :: "string option"
  variant :: string
  cxx_id :: string
  cxx_programs :: "string list"
  compiler_cxx :: string
  compiler_cc :: string
  ccflags :: "string list"
  cxxflags :: "string list"
  linkflags :: "string list"
  ccdefines :: "string list"
  cxxdefines :: "string list"
  cxxflags_mpi :: "string list"
  linkflags_mpi :: "string list"
  library_path :: "string list"
  soname_ok :: bool
  chosen_modules :: "string list option"
  with_mpi :: bool
  with_sudo :: bool
  with_examples :: bool
  with_static :: bool
  with_gsl :: bool
  with_python :: bool
  optional_features :: "(string \<times> bool \<times> string) list"

definition report_optional :: "string \<Rightarrow> bool \<Rightarrow> string \<Rightarrow> build_conf \<Rightarrow> build_conf" where
  "report_optional feature was_enabled reason c =
     c\<lparr>optional_features := optional_features c @ [(feature, was_enabled, reason)]\<rparr>"

definition check_flag :: "conf_system \<Rightarrow> string \<Rightarrow> string \<Rightarrow> bool" where
  "check_flag sys mode flag = (case compiles sys mode flag of None \<Rightarrow> False | Some retval \<Rightarrow> retval = 0)"

subsection \<open>The steps\<close>

definition conf_traces :: "conf_options \<Rightarrow> conf_system \<Rightarrow> build_conf \<Rightarrow> build_conf" where
  "conf_traces opts sys c =
     (let d = (case regression_traces opts of Some d \<Rightarrow> d | None \<Rightarrow> path_join ''..'' ''ns-3.9-ref-traces'')
      in if dir_exists sys d then c\<lparr>traces_dir := Some (absolute sys d)\<rparr> else c)"

definition conf_variant :: "conf_options \<Rightarrow> build_conf \<Rightarrow> build_conf" where
  "conf_variant opts c =
     (let c1 = (if enable_gcov opts
                then c\<lparr>variant := build_profile opts @ ''-gcov'',
                       ccflags := ccflags c @ [''-fprofile-arcs'', ''-ftest-coverage''],
                       cxxflags := cxxflags c @ [''-fprofile-arcs'', ''-ftest-coverage''],
                       linkflags := linkflags c @ [''-fprofile-arcs'']\<rparr>
                else c\<lparr>variant := build_profile opts\<rparr>)
      in if build_profile opts = ''debug''
         then c1\<lparr>cxxdefines := cxxdefines c1 @ [''NS3_ASSERT_ENABLE'', ''NS3_LOG_ENABLE'']\<rparr> else c1)"

definition compiler_flags :: "conf_options \<Rightarrow> conf_system \<Rightarrow> build_conf \<Rightarrow> build_conf" where
  "compiler_flags opts sys c =
     (let c1 = (if build_profile opts = ''release''
                then c\<lparr>cxxflags := cxxflags c @ [''-fomit-frame-pointer''] @
                       (if check_flag sys ''cxx'' ''-march=native'' then [''-march=native''] else [])\<rparr>
                else c)
      in if py_platform sys = ''win32'' then c1\<lparr>linkflags := linkflags c1 @ [''-Wl,--enable-runtime-pseudo-reloc'']\<rparr>
         else if py_platform sys = ''cygwin'' then c1\<lparr>linkflags := linkflags c1 @ [''-Wl,--enable-auto-import'']\<rparr>
         else c1)"

definition compiler_library :: "conf_system \<Rightarrow> string \<Rightarrow> build_conf \<Rightarrow> build_conf" where
  "compiler_library sys cxx c =
     (let loc = path_dir (strip (prints sys [cxx, ''-print-file-name=libstdc++.so'']));
          c1 = (if loc \<noteq> [] then c\<lparr>library_path := library_path c @ [loc]\<rparr> else c)
      in if waf_platform sys = ''linux'' \<and> check_flag sys ''cxx'' ''-Wl,--soname=foo'' then c1\<lparr>soname_ok := True\<rparr> else c1)"

text \<open>\<^verbatim>\<open>cxx, = env['CXX']\<close> raises ValueError unless there is exactly one compiler command.\<close>

definition conf_compiler :: "conf_options \<Rightarrow> conf_system \<Rightarrow> build_conf \<Rightarrow> build_conf res" where
  "conf_compiler opts sys c =
     (if cxx_id c \<notin> {''gcc'', ''icc''} then Inr c
      else case cxx_programs (compiler_flags opts sys c) of
             [cxx] \<Rightarrow> Inr (compiler_library sys cxx (compiler_flags opts sys c))
           | _ \<Rightarrow> Inl ValueError)"

text \<open>\<^verbatim>\<open>s.split()\<close> of the output without white space at its end.\<close>

definition white_words :: "string \<Rightarrow> string list" where
  "white_words s = filter (\<lambda>w. w \<noteq> []) (foldr (\<lambda>c ws. if is_space c then [] # ws else (c # hd ws) # tl ws) s [[]])"

definition conf_mpi :: "conf_options \<Rightarrow> conf_system \<Rightarrow> build_conf \<Rightarrow> build_conf" where
  "conf_mpi opts sys c0 =
     (let c = (if truthy (enable_modules_opt opts)
               then c0\<lparr>chosen_modules := Some (option_modules (the (enable_modules_opt opts)))\<rparr> else c0);
          mpi = program_path sys ''mpic++''
      in if enable_mpi opts \<and> truthy mpi
         then report_optional ''mpi'' True ''''
           (c\<lparr>cxxflags_mpi := cxxflags_mpi c @ white_words (prints sys [the mpi, ''-showme:compile'']),
              linkflags_mpi := linkflags_mpi c @ white_words (prints sys [the mpi, ''-showme:link'']),
              cxxdefines := cxxdefines c @ [''NS3_MPI''], with_mpi := True\<rparr>)
         else report_optional ''mpi'' False
           (if enable_mpi opts then ''mpic++ not found'' else ''option --enable-mpi not selected'') c)"

definition conf_sudo_examples :: "conf_options \<Rightarrow> conf_system \<Rightarrow> build_conf \<Rightarrow> build_conf" where
  "conf_sudo_examples opts sys c =
     (let sudo = enable_sudo opts \<and> truthy (program_path sys ''sudo'');
          why_not_sudo = (if sudo then ''because we like it''
                          else if enable_sudo opts then ''program sudo not found'' else ''option --enable-sudo not selected'');
          why_not_examples = (if enable_examples opts then ''defaults to enabled'' else ''option --disable-examples selected'')
      in report_optional ''ENABLE_EXAMPLES'' (enable_examples opts) why_not_examples
           (report_optional ''ENABLE_SUDO'' sudo why_not_sudo
              (c\<lparr>with_sudo := sudo, with_examples := enable_examples opts\<rparr>)))"

definition i386_machine :: "string \<Rightarrow> bool" where
  "i386_machine m = (case m of
     a # b # c # d # _ \<Rightarrow> a = CHR ''i'' \<and> b \<in> {CHR ''3'', CHR ''4'', CHR ''5'', CHR ''6''} \<and> c = CHR ''8'' \<and> d = CHR ''6''
   | _ \<Rightarrow> False)"

definition no_large_model :: string where
  "no_large_model = ''Can'' @ [CHR 39] @ ''t enable static builds because no -mcmodel=large compiler option. Try --disable-python or upgrade your compiler to at least gcc 4.3.x.''"

definition conf_static :: "conf_options \<Rightarrow> conf_system \<Rightarrow> build_conf \<Rightarrow> build_conf" where
  "conf_static opts sys c0 =
     (let c = c0\<lparr>with_static := False\<rparr>;
          static = report_optional ''static'' True '''' (c\<lparr>with_static := True\<rparr>)
      in if \<not> enable_static opts then report_optional ''static'' False ''option --enable-static not selected'' c
         else if starts_with (py_platform sys) ''linux'' \<and> cxx_id c \<in> {''gcc'', ''icc''}
         then (if i386_machine (machine sys) then static
               else if machine sys = ''x86_64''
               then (if with_python c \<and> \<not> check_flag sys ''cxx'' ''-mcmodel=large''
                     then report_optional ''static'' False no_large_model c
                     else static)
               else c)
         else if cxx_id c = ''gcc'' \<and> (starts_with (py_platform sys) ''darwin'' \<or> starts_with (py_platform sys) ''cygwin'')
         then static
         else report_optional ''static'' False ''Unsupported platform'' c)"

definition conf_gsl :: "conf_system \<Rightarrow> build_conf \<Rightarrow> build_conf" where
  "conf_gsl sys c0 =
     (let c = report_optional ''GSL'' (gsl_found sys) ''GSL not found'' (c0\<lparr>with_gsl := gsl_found sys\<rparr>);
          c1 = (if gsl_found sys
                then c\<lparr>cxxdefines := cxxdefines c @ [''ENABLE_GSL''], ccdefines := ccdefines c @ [''ENABLE_GSL'']\<rparr> else c)
      in c1\<lparr>ccflags := ccflags c1 @ cxxflags c1, ccdefines := ccdefines c1 @ cxxdefines c1\<rparr>)"

definition add_gcc_flag :: "conf_system \<Rightarrow> string \<Rightarrow> build_conf \<Rightarrow> build_conf" where
  "add_gcc_flag sys flag c =
     (let c1 = (if compiler_cxx c = ''g++'' \<and> \<not> has_key (conf_os_environ sys) ''CXXFLAGS'' \<and> check_flag sys ''cxx'' flag
                then c\<lparr>cxxflags := cxxflags c @ [flag]\<rparr> else c)
      in if compiler_cc c1 = ''gcc'' \<and> \<not> has_key (conf_os_environ sys) ''CCFLAGS'' \<and> check_flag sys ''cc'' flag
         then c1\<lparr>ccflags := ccflags c1 @ [flag]\<rparr> else c1)"

definition user_flags :: "conf_system \<Rightarrow> build_conf \<Rightarrow> build_conf" where
  "user_flags sys c =
     (let extra = (\<lambda>v. case map_of (conf_os_environ sys) v of None \<Rightarrow> [] | Some s \<Rightarrow> [s])
      in c\<lparr>ccflags := ccflags c @ extra ''CCFLAGS_EXTRA'', cxxflags := cxxflags c @ extra ''CXXFLAGS_EXTRA'',
           linkflags := linkflags c @ extra ''LINKFLAGS_EXTRA'' @ extra ''LDFLAGS_EXTRA''\<rparr>)"

definition ns3_configure ::
  "conf_options \<Rightarrow> conf_system \<Rightarrow> (build_conf \<Rightarrow> build_conf res) \<Rightarrow> build_conf \<Rightarrow> build_conf res" where
  "ns3_configure opts sys sub_config c =
     rbind (conf_compiler opts sys (conf_variant opts (conf_traces opts sys (c\<lparr>optional_features := []\<rparr>)))) (\<lambda>c.
     rbind (sub_config c) (\<lambda>c.
     Inr (user_flags sys (fold (add_gcc_flag sys)
            [''-Wno-error=deprecated-declarations'', ''-fstrict-aliasing'', ''-Wstrict-aliasing'']
            (conf_gsl sys (conf_static opts sys (conf_sudo_examples opts sys (conf_mpi opts sys c))))))))"

definition feature_status :: "string \<times> bool \<times> string \<Rightarrow> string" where
  "feature_status f = (case f of (_, was_enabled, reason) \<Rightarrow> if was_enabled then ''enabled'' else ''not enabled ('' @ reason @ '')'')"

subsection \<open>What is decided\<close>

lemma optional_report [simp]:
  "optional_features (report_optional f b why c) = optional_features c @ [(f, b, why)]"
  "with_static (report_optional f b why c) = with_static c" "with_mpi (report_optional f b why c) = with_mpi c"
  "with_sudo (report_optional f b why c) = with_sudo c" "with_examples (report_optional f b why c) = with_examples c"
  "with_gsl (report_optional f b why c) = with_gsl c" "with_python (report_optional f b why c) = with_python c"
  "cxx_id (report_optional f b why c) = cxx_id c"
  by (simp_all add: report_optional_def)

definition static_possible :: "conf_options \<Rightarrow> conf_system \<Rightarrow> build_conf \<Rightarrow> bool" where
  "static_possible opts sys c \<longleftrightarrow> enable_static opts \<and>
     (if starts_with (py_platform sys) ''linux'' \<and> cxx_id c \<in> {''gcc'', ''icc''}
      then i386_machine (machine sys) \<or> machine sys = ''x86_64'' \<and> (with_python c \<longrightarrow> check_flag sys ''cxx'' ''-mcmodel=large'')
      else cxx_id c = ''gcc'' \<and> (starts_with (py_platform sys) ''darwin'' \<or> starts_with (py_platform sys) ''cygwin''))"

text \<open>
  A static build that is asked for on Linux, for another machine than these, is left out of
  the report.
\<close>

definition static_silent :: "conf_options \<Rightarrow> conf_system \<Rightarrow> build_conf \<Rightarrow> bool" where
  "static_silent opts sys c \<longleftrightarrow> enable_static opts \<and> starts_with (py_platform sys) ''linux'' \<and> cxx_id c \<in> {''gcc'', ''icc''} \<and>
     \<not> i386_machine (machine sys) \<and> machine sys \<noteq> ''x86_64''"

lemma conf_static_cases:
  "(\<exists>why. conf_static opts sys c = report_optional ''static'' (static_possible opts sys c) why (c\<lparr>with_static := static_possible opts sys c\<rparr>)) \<or>
     static_silent opts sys c \<and> \<not> static_possible opts sys c \<and> conf_static opts sys c = c\<lparr>with_static := False\<rparr>"
proof -
  define linux where "linux \<longleftrightarrow> starts_with (py_platform sys) ''linux'' \<and> cxx_id c \<in> {''gcc'', ''icc''}"
  define other where "other \<longleftrightarrow> cxx_id c = ''gcc'' \<and> (starts_with (py_platform sys) ''darwin'' \<or> starts_with (py_platform sys) ''cygwin'')"
  define x64 where "x64 \<longleftrightarrow> machine sys = ''x86_64''"
  define large where "large \<longleftrightarrow> check_flag sys ''cxx'' ''-mcmodel=large''"
  define no yes where "no = (\<lambda>why. report_optional ''static'' False why (c\<lparr>with_static := False\<rparr>))"
    and "yes = report_optional ''static'' True [] (c\<lparr>with_static := True\<rparr>)"
  have r: "with_python (c\<lparr>with_static := False\<rparr>) = with_python c" "cxx_id (c\<lparr>with_static := False\<rparr>) = cxx_id c"
    "c\<lparr>with_static := False, with_static := True\<rparr> = c\<lparr>with_static := True\<rparr>" by simp_all
  have e: "conf_static opts sys c =
    (if \<not> enable_static opts then no ''option --enable-static not selected''
     else if linux
     then (if i386_machine (machine sys) then yes
           else if x64 then (if with_python c \<and> \<not> large then no no_large_model else yes)
           else c\<lparr>with_static := False\<rparr>)
     else if other then yes else no ''Unsupported platform'')"
    unfolding conf_static_def Let_def r linux_def other_def x64_def large_def no_def yes_def ..
  have p: "static_possible opts sys c \<longleftrightarrow> enable_static opts \<and> (if linux then i386_machine (machine sys) \<or> x64 \<and> (with_python c \<longrightarrow> large) else other)"
    unfolding static_possible_def linux_def other_def x64_def large_def ..
  have s: "static_silent opts sys c \<longleftrightarrow> enable_static opts \<and> linux \<and> \<not> i386_machine (machine sys) \<and> \<not> x64"
    unfolding static_silent_def linux_def x64_def by blast
  have n: "\<exists>why'. no why = report_optional ''static'' False why' (c\<lparr>with_static := False\<rparr>)" for why
    unfolding no_def by blast
  have y: "\<exists>why'. yes = report_optional ''static'' True why' (c\<lparr>with_static := True\<rparr>)" unfolding yes_def by blast
  show ?thesis unfolding e p s
    by (cases "enable_static opts"; cases linux; cases other; cases "i386_machine (machine sys)"; cases x64;
        cases "with_python c"; cases large) (simp_all only: n y simp_thms if_True if_False)
qed

text \<open>The features without their reasons, and what the steps after the sub-directories add.\<close>

definition decided :: "build_conf \<Rightarrow> (string \<times> bool) list" where
  "decided c = map (\<lambda>(f, b, _). (f, b)) (optional_features c)"

lemma decided_update [simp]:
  "decided (c\<lparr>with_static := a\<rparr>) = decided c" "decided (c\<lparr>with_gsl := a\<rparr>) = decided c" "decided (c\<lparr>ccflags := l\<rparr>) = decided c"
  "decided (c\<lparr>cxxflags := l\<rparr>) = decided c" "decided (c\<lparr>linkflags := l\<rparr>) = decided c" "decided (c\<lparr>ccdefines := l\<rparr>) = decided c"
  "decided (c\<lparr>cxxdefines := l\<rparr>) = decided c" "decided (c\<lparr>chosen_modules := m\<rparr>) = decided c" "decided (c\<lparr>with_mpi := a\<rparr>) = decided c"
  "decided (c\<lparr>cxxflags_mpi := l\<rparr>) = decided c" "decided (c\<lparr>linkflags_mpi := l\<rparr>) = decided c"
  "decided (c\<lparr>with_sudo := a\<rparr>) = decided c" "decided (c\<lparr>with_examples := a\<rparr>) = decided c"
  by (simp_all add: decided_def)

lemma decided_report [simp]: "decided (report_optional f b why c) = decided c @ [(f, b)]"
  by (simp add: decided_def)

lemma decided_steps:
  "decided (conf_mpi opts sys c) = decided c @ [(''mpi'', enable_mpi opts \<and> truthy (program_path sys ''mpic++''))]"
  "decided (conf_sudo_examples opts sys c) = decided c @
     [(''ENABLE_SUDO'', enable_sudo opts \<and> truthy (program_path sys ''sudo'')), (''ENABLE_EXAMPLES'', enable_examples opts)]"
  "decided (conf_gsl sys c) = decided c @ [(''GSL'', gsl_found sys)]"
  "decided (user_flags sys c) = decided c" "decided (add_gcc_flag sys flag c) = decided c"
  by (simp_all add: conf_mpi_def conf_sudo_examples_def conf_gsl_def user_flags_def add_gcc_flag_def Let_def)

lemma decided_flags: "decided (fold (add_gcc_flag sys) flags c) = decided c"
  by (induction flags arbitrary: c) (simp_all add: decided_steps)

lemma steps_keep:
  "with_python (conf_sudo_examples opts sys (conf_mpi opts sys c)) = with_python c"
  "cxx_id (conf_sudo_examples opts sys (conf_mpi opts sys c)) = cxx_id c"
  by (simp_all add: conf_mpi_def conf_sudo_examples_def Let_def)

lemma compiler_flags_keep: "optional_features (compiler_flags opts sys c) = optional_features c"
  by (simp add: compiler_flags_def Let_def)

lemma compiler_library_keep: "optional_features (compiler_library sys cxx c) = optional_features c"
  by (simp add: compiler_library_def Let_def)

lemma compiler_keep: "conf_compiler opts sys c = Inr d \<Longrightarrow> optional_features d = optional_features c"
  unfolding conf_compiler_def
  by (auto simp: compiler_library_keep compiler_flags_keep simp del: insert_iff split: if_splits list.splits)

lemma static_keep:
  "static_possible opts sys (conf_sudo_examples opts sys (conf_mpi opts sys c)) = static_possible opts sys c"
  "static_silent opts sys (conf_sudo_examples opts sys (conf_mpi opts sys c)) = static_silent opts sys c"
  unfolding static_possible_def static_silent_def steps_keep by (rule refl)+

lemma static_decided:
  "decided (conf_static opts sys c) = decided c @ (if static_silent opts sys c then [] else [(''static'', static_possible opts sys c)])"
proof (cases "static_silent opts sys c")
  case True
  then have "conf_static opts sys c = c\<lparr>with_static := False\<rparr>"
    unfolding static_silent_def conf_static_def Let_def by simp
  with True show ?thesis by simp
next
  case False
  with conf_static_cases [of opts sys c] obtain why where
    "conf_static opts sys c = report_optional ''static'' (static_possible opts sys c) why (c\<lparr>with_static := static_possible opts sys c\<rparr>)" by blast
  with False show ?thesis by simp
qed

text \<open>
  A configuration that ends decides about MPI, sudo, the examples, the static build and GSL,
  each exactly once and in this order, after the sub-directories; only a static build on Linux
  for an unknown machine is not reported.
\<close>

lemma configure_reports:
  assumes "ns3_configure opts sys sub_config c = Inr c'"
  shows "\<exists>d d'. sub_config d = Inr d' \<and> optional_features d = [] \<and>
    decided c' = decided d' @
      [(''mpi'', enable_mpi opts \<and> truthy (program_path sys ''mpic++'')),
       (''ENABLE_SUDO'', enable_sudo opts \<and> truthy (program_path sys ''sudo'')), (''ENABLE_EXAMPLES'', enable_examples opts)] @
      (if static_silent opts sys d' then [] else [(''static'', static_possible opts sys d')]) @ [(''GSL'', gsl_found sys)]"
proof -
  let ?c = "conf_variant opts (conf_traces opts sys (c\<lparr>optional_features := []\<rparr>))"
  from assms obtain d d' where d: "conf_compiler opts sys ?c = Inr d" "sub_config d = Inr d'"
    and c': "c' = user_flags sys (fold (add_gcc_flag sys)
      [''-Wno-error=deprecated-declarations'', ''-fstrict-aliasing'', ''-Wstrict-aliasing'']
      (conf_gsl sys (conf_static opts sys (conf_sudo_examples opts sys (conf_mpi opts sys d')))))"
    unfolding ns3_configure_def by (simp only: rbind_Inr_iff sum.inject) blast
  have "optional_features ?c = []" by (simp add: conf_variant_def conf_traces_def Let_def)
  moreover have "optional_features d = optional_features ?c"
    by (rule compiler_keep [OF d(1)])
  moreover have "decided c' = decided d' @
      [(''mpi'', enable_mpi opts \<and> truthy (program_path sys ''mpic++'')),
       (''ENABLE_SUDO'', enable_sudo opts \<and> truthy (program_path sys ''sudo'')), (''ENABLE_EXAMPLES'', enable_examples opts)] @
      (if static_silent opts sys d' then [] else [(''static'', static_possible opts sys d')]) @ [(''GSL'', gsl_found sys)]"
    unfolding c' decided_steps(4) decided_flags decided_steps(3) static_decided static_keep decided_steps(1,2) by simp
  ultimately show ?thesis using d(2) by (intro exI [of _ d] exI [of _ d']) simp
qed

end
