(* ===== verification/WscriptRun.thy ===== *)
theory WscriptRun
  imports WscriptModules BindMain
begin

section \<open>Programs, shells and reports of the build: \<^verbatim>\<open>wscript\<close> and \<^verbatim>\<open>src/wscript\<close>\<close>

text \<open>
  The programs the build makes (also one for each entry of \<^verbatim>\<open>scratch\<close>), the headers of the
  modules, what runs after a build, and the commands that start a shell, make the documentation
  or a coverage report. Commands are answered by a function from the command to its status.
\<close>

subsection \<open>Modules\<close>

text \<open>
  A module: its generator and the flags appended for the C++ and the C compiler; \<open>shlib_flags\<close>
  are those of a shared library.
\<close>

definition module_cflags :: "build_env \<Rightarrow> string \<Rightarrow> bool \<Rightarrow> string list \<Rightarrow> string list" where
  "module_cflags env uname_machine python_bindings shlib_flags =
     (if \<not> static_ns3 env then shlib_flags
      else if cxx_name env \<in> {''gcc'', ''icc''} \<and> uname_machine = ''x86_64'' \<and> python_bindings
      then [''-mcmodel=large''] else [])"

definition create_ns3_module :: "nat \<Rightarrow> string \<Rightarrow> string list \<Rightarrow> task_gen" where
  "create_ns3_module ident module_name dependencies =
     \<lparr>gen_id = ident, gen_name = ns3_prefix module_name, gen_objects = map ns3_prefix dependencies, module_dependencies = None\<rparr>"

text \<open>The configuration of \<^verbatim>\<open>src\<close> adds the build directory to the paths of the libraries.\<close>

definition src_paths :: "string \<Rightarrow> bool \<Rightarrow> string list \<times> string list \<Rightarrow> string list \<times> string list" where
  "src_paths blddir enable_rpath paths =
     (case paths of (ns3_module_path, rpath) \<Rightarrow>
       (ns3_module_path @ [blddir], if enable_rpath then rpath @ [''-Wl,-rpath='' @ blddir] else rpath))"

subsection \<open>Programs\<close>

definition whole_archive :: "bool \<Rightarrow> string \<Rightarrow> string list" where
  "whole_archive static plat =
     (if \<not> static then []
      else if plat = ''darwin'' then [''-Wl,-all_load'', ''-lns3'']
      else [''-Wl,--whole-archive,-Bstatic'', ''-lns3'', ''-Wl,-Bdynamic,--no-whole-archive''])"

record ns3_program =
  program_gen :: task_gen
  program_flags :: "string list"
  program_dir :: string
  program_source :: "string option"

text \<open>\<open>ident\<close> tells the new generator from others.\<close>

definition create_ns3_program :: "nat \<Rightarrow> build_env \<Rightarrow> string \<Rightarrow> string \<Rightarrow> string list \<Rightarrow> ns3_program" where
  "create_ns3_program ident env directory program dependencies =
     \<lparr>program_gen = \<lparr>gen_id = ident, gen_name = program, gen_objects = [],
        module_dependencies = Some (map ns3_prefix dependencies)\<rparr>,
      program_flags = whole_archive (static_ns3 env) (sys_platform env),
      program_dir = directory, program_source = None\<rparr>"

text \<open>
  An entry of \<^verbatim>\<open>scratch\<close>: a directory is a program with the sources in it, a \<^verbatim>\<open>.cc\<close> file a
  program of its own; every program depends on all modules.
\<close>

definition scratch_program ::
  "(string \<Rightarrow> bool) \<Rightarrow> build_env \<Rightarrow> string list \<Rightarrow> nat \<times> string \<Rightarrow> ns3_program option" where
  "scratch_program isdir env mods entry =
     (case entry of (i, filename) \<Rightarrow>
       if starts_with filename ''.'' \<or> filename = ''CVS'' then None
       else if isdir (path_join ''scratch'' filename)
       then Some (create_ns3_program i env (path_join ''scratch'' filename) filename mods)
       else if ends_with filename ''.cc''
       then Some ((create_ns3_program i env ''scratch'' (take (length filename - 3) filename) mods)
                    \<lparr>program_source := Some filename\<rparr>)
       else None)"

definition add_scratch_programs :: "(string \<Rightarrow> bool) \<Rightarrow> build_env \<Rightarrow> nat \<Rightarrow> string list \<Rightarrow> ns3_program list" where
  "add_scratch_programs isdir env first_id listing =
     List.map_filter (scratch_program isdir env (map (drop 4) (env_modules env))) (List.enumerate first_id listing)"

definition add_examples_programs :: "bool \<Rightarrow> (string \<Rightarrow> bool) \<Rightarrow> string list \<Rightarrow> string list" where
  "add_examples_programs enabled isdir listing =
     (if \<not> enabled then []
      else map (path_join ''examples'')
             (filter (\<lambda>d. \<not> starts_with d ''.'' \<and> d \<noteq> ''CVS'' \<and> isdir (path_join ''examples'' d)) listing))"

text \<open>
  The task that sets the suid bit; the two commands run until one fails. A file that belongs to
  \<^verbatim>\<open>root\<close> is skipped.
\<close>

definition suid_run :: "(string list \<Rightarrow> int) \<Rightarrow> string \<Rightarrow> int" where
  "suid_run status filename =
     (if status [''sudo'', ''chown'', ''root'', filename] \<noteq> 0 then 1
      else if status [''sudo'', ''chmod'', ''u+s'', filename] \<noteq> 0 then 1
      else 0)"

definition suid_skipped :: "int \<Rightarrow> bool" where
  "suid_skipped st_uid \<longleftrightarrow> st_uid = 0"

text \<open>The program of the task must be found when the task is made.\<close>

definition suid_task :: "waf \<Rightarrow> string \<Rightarrow> string res" where
  "suid_task w target = rbind (program_of w target) (\<lambda>obj. Inr (program_node obj))"

subsection \<open>The header of a module\<close>

text \<open>
  The inputs are the headers of the sets of headers of the module; without such a set the
  build ends with an error, without headers there is no task. \<^verbatim>\<open>set\<close> gives them in an order of
  its own, which the sorting below makes irrelevant.
\<close>

definition module_header_apply :: 
  "(string list \<Rightarrow> string list) \<Rightarrow> (string \<Rightarrow> bool) \<Rightarrow> (string \<times> string list) list \<Rightarrow> string \<Rightarrow> string list option res" where
  "module_header_apply set_order has_module ns3headers m_name =
     (let mine = filter (\<lambda>(m, _). m = m_name) ns3headers;
          inputs = concat (map (\<lambda>(_, sources). map path_base (set_order sources)) mine)
      in if mine = [] then Inl (PyException (''error finding headers for module '' @ m_name))
         else if inputs = [] then Inr None
         else py_assert (has_module (ns3_prefix m_name)) (Inr (Some inputs)))"

definition gen_module_header :: "string \<Rightarrow> string list \<Rightarrow> string list \<Rightarrow> string list res" where
  "gen_module_header m_name inputs outputs =
     py_assert (length outputs = 1) (Inr
       ([[], ''#ifdef NS3_MODULE_COMPILATION'',
         ''# error '' @ [CHR 34] @ ''Do not include ns3 module aggregator headers from other modules; these are meant only for end user scripts.'' @ [CHR 34],
         ''#endif'', [], ''#ifndef NS3_MODULE_'' @ dash_to_underscore (upper m_name), ''    '', [], ''// Module headers:''] @
        map (\<lambda>h. ''#include '' @ [CHR 34] @ h @ [CHR 34]) (sort (map path_base inputs)) @ [''#endif'']))"

subsection \<open>Shells\<close>

definition check_shell :: "waf \<Rightarrow> (string \<times> string) option" where
  "check_shell w =
     (case (map_of (os_environ w) ''NS3_MODULE_PATH'', map_of (os_environ w) ''NS3_EXECUTABLE_PATH'') of
        (Some found_modpath, Some found_execpath) \<Rightarrow>
          (if found_modpath \<noteq> join_with (pathsep w) (module_path w) \<or>
              join_with (pathsep w) (executable_path w) \<noteq> found_execpath
           then Some (found_modpath, found_execpath) else None)
      | _ \<Rightarrow> None)"

definition wrong_shell :: string where
  "wrong_shell = ''Detected shell (./waf shell) with incorrect configuration''"

text \<open>The variables the shell gets; \<^verbatim>\<open>Scripting.build\<close> ran before.\<close>

definition run_shell :: "waf \<Rightarrow> processes \<Rightarrow> int res" where
  "run_shell w p =
     (let sh = (if platform w = ''win32'' then dict_get (os_environ w) ''COMSPEC'' ''cmd.exe''
                else dict_get (os_environ w) ''SHELL'' ''/bin/sh'');
          os_env = [(''NS3_MODULE_PATH'', join_with (pathsep w) (module_path w)),
                    (''NS3_EXECUTABLE_PATH'', join_with (pathsep w) (executable_path w))]
      in run_argv w p [sh] (Some os_env) None False)"

subsection \<open>The coverage report\<close>

text \<open>
  The working directory as the list of its components. The report is made in the build
  directory; the commands run until one fails, and the directory is left in every case. The
  trace has each command with the directory it ran in.
\<close>

definition shell_step :: "(string \<Rightarrow> int) \<Rightarrow> (string \<times> string list) list \<times> bool \<Rightarrow> string list \<Rightarrow> string \<Rightarrow> (string \<times> string list) list \<times> bool" where
  "shell_step status st cwd cmd = (case st of (trace, ok) \<Rightarrow> if ok then (trace @ [(cmd, cwd)], status cmd = 0) else (trace, False))"

definition lcov_commands :: "string \<Rightarrow> string \<Rightarrow> string list" where
  "lcov_commands cwd variant_name =
     (let lcov_report_dir = path_join variant_name ''lcov-report'';
          info_file = path_join lcov_report_dir (variant_name @ ''.info'')
      in [''rm -rf '' @ lcov_report_dir @ '' && mkdir '' @ lcov_report_dir @ '';'',
          ''../utils/lcov/lcov -c -d . -o '' @ info_file @ '' --source-dirs='' @ cwd @ '':'' @
            path_joins cwd [variant_name, ''include''],
          ''../utils/lcov/genhtml -o '' @ lcov_report_dir @ '' '' @ info_file])"

definition lcov_report ::
  "(string \<Rightarrow> int) \<Rightarrow> string \<Rightarrow> string \<Rightarrow> string list \<Rightarrow> (string \<times> string list) list \<times> string list \<times> unit res" where
  "lcov_report status blddir variant_name cwd =
     (if \<not> has_infix ''gcov'' variant_name
      then ([], cwd, Inl (WafError ''project not configured for code coverage; reconfigure with --enable-gcov''))
      else let inside = cwd @ [blddir];
               (trace, ok) = fold (\<lambda>cmd st. shell_step status st inside cmd)
                 (lcov_commands (CHR ''/'' # join_with ''/'' inside) variant_name) ([], True)
           in (trace, butlast inside, if ok then Inr () else Inl (SystemExit 1)))"

subsection \<open>The documentation\<close>

text \<open>
  \<open>run_into\<close> runs the program with its output in a file, \<open>exists_file\<close> tells which programs have
  been built.
\<close>

definition introspected_run :: "waf \<Rightarrow> (string \<Rightarrow> string \<Rightarrow> int) \<Rightarrow> unit res" where
  "introspected_run w run_into =
     (case program_of w ''print-introspected-doxygen'' of
        Inl _ \<Rightarrow> Inr ()
      | Inr obj \<Rightarrow> if run_into (program_node obj) ''../doc/introspected-doxygen.h'' \<noteq> 0 then Inl (SystemExit 1) else Inr ())"

definition doxygen_docs :: "waf \<Rightarrow> (string \<Rightarrow> bool) \<Rightarrow> (string \<Rightarrow> string \<Rightarrow> int) \<Rightarrow> (string list \<Rightarrow> int) \<Rightarrow> unit res" where
  "doxygen_docs w exists_file run_into status =
     (case program_of w ''print-introspected-doxygen'' of
        Inl _ \<Rightarrow> Inl (SystemExit 1)
      | Inr obj \<Rightarrow>
          if \<not> exists_file (program_node obj) then Inl (SystemExit 1)
          else if run_into (program_node obj) ''doc/introspected-doxygen.h'' \<noteq> 0 then Inl (SystemExit 1)
          else if status [''doxygen'', ''doc/doxygen.conf''] \<noteq> 0 then Inl (SystemExit 1)
          else Inr ())"

subsection \<open>After the build\<close>

text \<open>The end of \<^verbatim>\<open>build\<close>: only the program that is to be run is compiled; regression tests need traces and examples.\<close>

definition run_compile_targets :: "waf \<Rightarrow> string \<Rightarrow> string \<Rightarrow> string res" where
  "run_compile_targets w run_string compile_targets =
     (if run_string = [] then Inr compile_targets
      else rbind (get_run_program w run_string (Some (get_command_template (options w) []))) (\<lambda>(program_name, _).
           Inr (compile_targets @ '','' @ path_base program_name)))"

definition build_regression :: "bool \<Rightarrow> string option \<Rightarrow> bool \<Rightarrow> unit res \<Rightarrow> unit res" where
  "build_regression wanted traces examples run_regression =
     (if \<not> wanted then Inr ()
      else if \<not> truthy traces
      then Inl (WafError ''Cannot run regression tests: reference traces directory not given (--with-regression-traces configure option)'')
      else if examples then run_regression
      else Inl (WafError ''Cannot run regression tests: building the ns-3 examples is not enabled (regression tests are based on examples)''))"

record shutdown_options =
  want_lcov :: bool
  run_opt :: string
  pyrun_opt :: string
  shell_opt :: bool
  check_opt :: bool

definition please_run :: "string \<Rightarrow> string \<Rightarrow> string" where
  "please_run new old = ''Please run `'' @ new @ [CHR 39] @ '' now, instead of `'' @ old @ [CHR 39]"

text \<open>
  What happens when waf ends: a report, then the program that is to be run, or an error for an
  option that is no longer there, or the check of the shell. A program that runs ends waf with
  status 0.
\<close>

definition shutdown :: "shutdown_options \<Rightarrow> waf option \<Rightarrow> processes \<Rightarrow> unit res \<Rightarrow> unit res" where
  "shutdown opts build p lcov =
     (case build of None \<Rightarrow> Inr ()
      | Some w \<Rightarrow>
          rbind (if want_lcov opts then lcov else Inr ()) (\<lambda>_.
          if run_opt opts \<noteq> []
          then rbind (run_program w p (run_opt opts) (Some (get_command_template (options w) [])) None) (\<lambda>_. Inl (SystemExit 0))
          else if pyrun_opt opts \<noteq> []
          then rbind (run_python_program w p (pyrun_opt opts)) (\<lambda>_. Inl (SystemExit 0))
          else if shell_opt opts then Inl (WafError (please_run ''./waf shell'' ''./waf --shell''))
          else if check_opt opts then Inl (WafError (please_run ''./test.py'' ''./waf --check''))
          else (case check_shell w of None \<Rightarrow> Inr () | Some _ \<Rightarrow> Inl (WafError wrong_shell))))"

subsection \<open>What holds of them\<close>

text \<open>
  The programs of \<^verbatim>\<open>scratch\<close> depend on every module, so with \<^verbatim>\<open>--enable-modules\<close> they are only
  built when the modules that are enabled are all modules.
\<close>

lemma scratch_dependencies:
  assumes "pr \<in> set (add_scratch_programs isdir env first_id listing)" and "list_all (\<lambda>m. starts_with m ''ns3-'') (env_modules env)"
  shows "module_dependencies (program_gen pr) = Some (env_modules env)"
proof -
  have m: "map ns3_prefix (map (drop 4) (env_modules env)) = env_modules env"
    using assms(2) by (auto simp: list_all_iff ns3_prefix_def starts_with_iff intro!: map_idI)
  from assms(1) obtain e where "scratch_program isdir env (map (drop 4) (env_modules env)) e = Some pr"
    by (auto simp: add_scratch_programs_def List.map_filter_def)
  then show ?thesis using m by (auto simp: scratch_program_def create_ns3_program_def split: prod.splits if_splits)
qed

lemma scratch_needs_all_modules:
  assumes "pr \<in> set (add_scratch_programs isdir env first_id listing)" and "list_all (\<lambda>m. starts_with m ''ns3-'') (env_modules env)"
    and "distinct gens" and "list_all (\<lambda>g. module_dependencies g = None \<or> gen_name g \<notin> set (env_modules env)) gens"
    and "program_gen pr \<in> set gens" and "drop_generators modules (env_modules env) gens = Inr gens'"
  shows "program_gen pr \<in> set gens' \<longleftrightarrow> set (env_modules env) \<subseteq> set modules"
proof -
  note d = scratch_dependencies [OF assms(1,2)]
  have n: "gen_name (program_gen pr) \<notin> set (env_modules env)" using assms(4,5) d by (auto simp: list_all_iff)
  have "gens' = filter (generator_kept modules (env_modules env)) gens"
    using drop_generators_result [OF assms(3,4), of modules] assms(6) by simp
  then show ?thesis using assms(5) d n by (auto simp: generator_kept_def list_all_iff)
qed

text \<open>
  The report leaves the working directory as it was, on success and on failure; the commands run
  in the build directory, in order, up to the first that fails.
\<close>

lemma shell_steps:
  "fold (\<lambda>cmd st. shell_step status st cwd cmd) cmds (trace, ok) =
     (if ok then (trace @ map (\<lambda>c. (c, cwd)) (let n = length (takeWhile (\<lambda>c. status c = 0) cmds) in take (Suc n) cmds),
                  list_all (\<lambda>c. status c = 0) cmds)
      else (trace, False))"
proof (induction cmds arbitrary: trace ok)
  case (Cons c cmds)
  then show ?case by (cases ok; cases "status c = 0") (auto simp: shell_step_def)
qed simp

lemma lcov_report_outcome:
  assumes "lcov_report status blddir variant_name cwd = (trace, cwd', r)"
  shows "cwd' = cwd" and "set (map snd trace) \<subseteq> {cwd @ [blddir]}"
    and "r = Inr () \<longleftrightarrow> has_infix ''gcov'' variant_name \<and>
      list_all (\<lambda>c. status c = 0) (lcov_commands (CHR ''/'' # join_with ''/'' (cwd @ [blddir])) variant_name)"
  using assms unfolding lcov_report_def shell_steps Let_def by (auto split: if_splits)

text \<open>
  The header does not depend on the order of the headers, and its guard is never defined, so it
  does not guard.
\<close>

lemma module_header_order: "mset inputs = mset inputs' \<Longrightarrow> gen_module_header m inputs outs = gen_module_header m inputs' outs"
proof -
  assume "mset inputs = mset inputs'"
  then have "mset (map path_base inputs) = mset (map path_base inputs')" by (simp add: mset_map)
  then have "sort (map path_base inputs) = sort (map path_base inputs')" by (intro properties_for_sort) simp_all
  then show ?thesis by (simp add: gen_module_header_def)
qed

lemma guard_not_defined:
  assumes "gen_module_header m inputs outs = Inr ls" and "l \<in> set ls"
  shows "\<not> starts_with l ''#define''"
  using assms by (auto simp: gen_module_header_def starts_with_def)

text \<open>
  waf ends without an error only if nothing was to be run and the shell it runs in, if any, is
  that of the build.
\<close>

lemma shutdown_ok:
  assumes "shutdown opts (Some w) p lcov = Inr ()"
  shows "run_opt opts = [] \<and> pyrun_opt opts = [] \<and> \<not> shell_opt opts \<and> \<not> check_opt opts \<and> check_shell w = None \<and>
    (want_lcov opts \<longrightarrow> lcov = Inr ())"
  using assms unfolding shutdown_def by (auto split: if_splits option.splits)

text \<open>A shell that the build starts passes the check of the same build.\<close>

lemma check_shell_own:
  assumes "map_of (os_environ w) ''NS3_MODULE_PATH'' = Some (join_with (pathsep w) (module_path w))"
    and "map_of (os_environ w) ''NS3_EXECUTABLE_PATH'' = Some (join_with (pathsep w) (executable_path w))"
  shows "check_shell w = None"
  using assms by (simp add: check_shell_def)

end
