(* ===== verification/Spec2Isabelle.thy ===== *)
theory Spec2Isabelle
  imports Prelude PyPath PyLib BuildMain RadNumbers RadSeq Topsort ShellCmd CheckStyle Timelines TestJobs TestPool TestReport TestRun FlowRun GridUse BindScan RadUnits Wutils WafTools Regression BindBuild WscriptDist WscriptConf WscriptRun
begin

section \<open>The Python tools of the mldc-ns3 repository\<close>

text \<open>
  \<^bold>\<open>The program.\<close> The repository is the ns-3.9 network simulator with the Python code that
  builds, binds, tests and inspects it: the generator of the Python bindings
  (\<^verbatim>\<open>bindings/python\<close>), the build tools on top of waf (\<^verbatim>\<open>waf-tools\<close>, \<^verbatim>\<open>wutils.py\<close>,
  \<^verbatim>\<open>regression.py\<close>), the test runner (\<^verbatim>\<open>test.py\<close>), the style checker and the viewer of
  simulation traces (\<^verbatim>\<open>utils\<close>) and the scripts of the experiments (\<^verbatim>\<open>scratch\<close>). This
  development models the parts with logic of their own; each theory opens with what it
  holds.

  \<^bold>\<open>The theories.\<close>
  \<^item> \<^theory_text>\<open>Prelude\<close>, \<^theory_text>\<open>PyPath\<close>: Python's exceptions (a result is the exception or the value),
    dictionaries in insertion order, slices, strings, decimal numbers, \<^verbatim>\<open>os.path\<close>, the
    environment; the locales \<open>codec\<close> (a printer and the parser that reads it back),
    \<open>invariant_system\<close> and \<open>terminating_system\<close> (a step relation with an invariant and a
    rank).
  \<^item> \<^theory_text>\<open>RadNumbers\<close>, \<^theory_text>\<open>RadSeq\<close>, \<^theory_text>\<open>RadFloat\<close>, \<^theory_text>\<open>RadUnits\<close>: \<^verbatim>\<open>bindings/python/rad_util.py\<close>, one
    definition per function; \<^theory_text>\<open>PyFormat\<close> holds Python's rounding and its number formats.
  \<^item> \<^theory_text>\<open>Topsort\<close>: \<^verbatim>\<open>bindings/python/topsort.py\<close>; the locale \<open>topo_sorter\<close> states what its callers
    rely on and is interpreted on both sorting functions.
  \<^item> \<^theory_text>\<open>BindScan\<close>, \<^theory_text>\<open>BindGen\<close>, \<^theory_text>\<open>BindMain\<close>: \<^verbatim>\<open>bindings/python/ns3modulescan.py\<close>, \<^verbatim>\<open>ns3modulegen.py\<close> and
    \<^verbatim>\<open>ns3modulegen_core_customizations.py\<close>; the sections of the bindings in dependency order
    (client of \<open>topo_sorter\<close>), annotations, smart-pointer types (a \<open>codec\<close>), callback classes,
    disabled features, and the whole run of the generator with its files. gccxml and pybindgen
    are parameters.
  \<^item> \<^theory_text>\<open>BindConf\<close>, \<^theory_text>\<open>BindBuild\<close>: \<^verbatim>\<open>bindings/python/wscript\<close>; when bindings and scanning are enabled, the
    header of all headers, and the command that runs the generator with the targets it promises.
  \<^item> \<^theory_text>\<open>ShellCmd\<close>: \<^verbatim>\<open>waf-tools/shellcmd.py\<close>; the parser's state machine and the run of a
    pipeline with its open files and child processes; the parser and printer interpret
    \<open>codec\<close>.
  \<^item> \<^theory_text>\<open>CheckStyle\<close>: \<^verbatim>\<open>utils/check-style.py\<close>; patches (a \<open>codec\<close>), white-space correction,
    re-indentation of files.
  \<^item> \<^theory_text>\<open>PyNum\<close>, \<^theory_text>\<open>Timelines\<close>, \<^theory_text>\<open>GridDraw\<close>, \<^theory_text>\<open>GridShape\<close>, \<^theory_text>\<open>GridView\<close>, \<^theory_text>\<open>GridUse\<close>: \<^verbatim>\<open>utils/grid.py\<close>;
    numbers that mix integers and floats, the data and its searches, trace lines (a \<open>codec\<close>),
    the renderers as lists of drawing calls, the window as a state machine of its events (an
    \<open>invariant_system\<close>), and what opening, zooming and dragging do.
  \<^item> \<^theory_text>\<open>TestJobs\<close>, \<^theory_text>\<open>TestPool\<close>, \<^theory_text>\<open>TestReport\<close>, \<^theory_text>\<open>TestRun\<close>: \<^verbatim>\<open>test.py\<close>; configuration and dispatch of
    the jobs, the worker threads as an interleaving step relation (a
    \<open>terminating_system\<close>), tally and reports, and \<^verbatim>\<open>run_tests\<close> as their composition.
  \<^item> \<^theory_text>\<open>PyLib\<close>: \<^verbatim>\<open>repr\<close>, \<^verbatim>\<open>shlex.split\<close>, the \<^verbatim>\<open>%\<close> operator and path normalisation, as far as the
    build tools use them.
  \<^item> \<^theory_text>\<open>Wutils\<close>, \<^theory_text>\<open>Regression\<close>: \<^verbatim>\<open>wutils.py\<close> and \<^verbatim>\<open>regression.py\<close>; command templates, the search
    for a program and its run, and the comparison of its traces with the reference.
  \<^item> \<^theory_text>\<open>WafTools\<close>: \<^verbatim>\<open>waf-tools/cflags.py\<close>, \<^verbatim>\<open>pkgconfig.py\<close> and \<^verbatim>\<open>command.py\<close>; the flags of a build
    profile, module checks, and the substitution of variables into a pipeline before it runs
    (escaping dollars interprets \<open>codec\<close>).
  \<^item> \<^theory_text>\<open>BuildMain\<close>: \<^verbatim>\<open>build.py\<close> and \<^verbatim>\<open>util.py\<close> of the distribution: the commands run in order, and
    the errors that stop them.
  \<^item> \<^theory_text>\<open>WscriptConf\<close>, \<^theory_text>\<open>WscriptModules\<close>, \<^theory_text>\<open>WscriptRun\<close>, \<^theory_text>\<open>WscriptDist\<close>: \<^verbatim>\<open>wscript\<close> and
    \<^verbatim>\<open>src/wscript\<close>; the configuration and its reports, the modules that are built (the closure of
    the enabled ones under dependencies), programs, headers of modules, shells and coverage
    reports, and the copy of the tree that a distribution is packed from.
  \<^item> \<^theory_text>\<open>FlowData\<close>, \<^theory_text>\<open>FlowRun\<close>: the scripts of \<^verbatim>\<open>scratch\<close>; flow logs, allocations and their matrices,
    and how generator, simulation commands and evaluation find each other's files.

  \<^bold>\<open>How the code corresponds to the definitions.\<close> Classes are records, functions keep their
  names (a suffix avoids clashes), every raise is a value, loops are recursive functions
  with a termination proof or folds (one is a \<open>while_option\<close>; loops that need not end are
  \<open>partial_function\<close>s). Floats are exact rational numbers, so nothing is said about rounding
  errors; no property of the development is about accuracy. Mutable Python state is passed
  explicitly; generators are run to the end. Iteration orders of dictionaries and sets that the code leaves to
  Python are parameters. No fuel is used.

  \<^bold>\<open>Parameters.\<close> Child processes, files, the clock, waf, the XML parser, \<^verbatim>\<open>difflib\<close>,
  \<^verbatim>\<open>uncrustify\<close> and \<^verbatim>\<open>exec\<close> are arguments of the definitions. A process that cannot be started,
  a file that cannot be opened and a directory that cannot be listed or made are answers of
  these arguments. Of \<^verbatim>\<open>exec\<close> it is assumed only that the assignments of the cache file bind
  their names, and of the API definitions that they return for modules that have the names
  they look up.

  \<^bold>\<open>What the lemmas show.\<close> Round trips of the printers and parsers; correctness, failure and
  termination of the sorting, cycle finding and number functions; that no file or process
  is leaked by a pipeline; that the runner loses no job and stops unless starting a process
  raises in a worker, that its exit code and counts are those of a sequential run, and that
  exit code 0 means every job passed; what the reports need, and, reading the written text
  back, when the HTML is well nested; that no sequence of events takes the viewer before the
  start or behind the end of its data or out of its invariant, and the exceptions left. Flaws found on the way are lemmas
  about the code as it is.

  \<^bold>\<open>Not modelled.\<close> The simulator (C++), the vendored pybindgen and waf, the generated API
  definitions, the examples, the GTK windows of the viewer, the \<^verbatim>\<open>wscript\<close> files that
  only declare targets to waf, the configuration of single modules, the parsing of options,
  and texts printed for information.
\<close>

end
